(* ===== verification/Go_Prelude.thy ===== *)
theory Go_Prelude
  imports Main "HOL-Library.Multiset"
begin

text \<open>
  What the components share: the result type of Go code that can panic, checked slice
  operations, Go's integer helpers, and the generic facts about lists, sorting and
  majorities that the component theories use.

  A Go function that may panic (index out of range, a negative length given to
  \<open>make\<close>), end the process (\<open>log.Fatal\<close>) or end a test (\<open>t.Fatal\<close>) returns a value of
  \<open>go_error + 'a\<close>: \<open>Inl\<close> is the crash of the process, \<open>Inr\<close> the ordinary result.
  Go's \<open>int\<close> is 64 bits wide; the counters of these programs (terms, log indices,
  operation numbers, configuration numbers) grow by one per event, so they are modelled
  by unbounded \<open>int\<close>. Code whose result depends on the width of its words uses
  HOL's words instead.
\<close>

named_theorems go_simps \<open>unfolding rules of the checked Go operations\<close>
named_theorems go_intros \<open>rules that show a checked Go operation returns\<close>

datatype go_error =
    IndexOutOfRange
  | SliceOutOfRange
  | MakeSliceLen
  | NilDereference
  | TypeAssertion
  | DivideByZero
  | LogFatal string
  | Panic string
  | TestFatal string

type_synonym 'a go = "go_error + 'a"

subsection \<open>Sequencing\<close>

definition gbind :: "'a go \<Rightarrow> ('a \<Rightarrow> 'b go) \<Rightarrow> 'b go" where
  "gbind m f = (case m of Inl e \<Rightarrow> Inl e | Inr x \<Rightarrow> f x)"

definition returns :: "'a go \<Rightarrow> bool" where
  "returns m \<longleftrightarrow> (\<exists>x. m = Inr x)"

lemma gbind_simps [simp, go_simps]:
  "gbind (Inl e) f = Inl e"
  "gbind (Inr x) f = f x"
  by (simp_all add: gbind_def)

lemma gbind_Inr_iff: "gbind m f = Inr y \<longleftrightarrow> (\<exists>x. m = Inr x \<and> f x = Inr y)"
  by (cases m) auto

lemma gbind_InrE [elim!]:
  assumes "gbind m f = Inr y"
  obtains x where "m = Inr x" and "f x = Inr y"
  using assms by (auto simp: gbind_Inr_iff)

lemma gbind_assoc: "gbind (gbind m f) g = gbind m (\<lambda>x. gbind (f x) g)"
  by (cases m) auto

lemma gbind_cong [fundef_cong]:
  "m = m' \<Longrightarrow> (\<And>x. m' = Inr x \<Longrightarrow> f x = g x) \<Longrightarrow> gbind m f = gbind m' g"
  by (cases m') auto

lemma returnsI [intro]: "m = Inr x \<Longrightarrow> returns m"
  by (auto simp: returns_def)

lemma returns_simps [simp]: "returns (Inr x)" "\<not> returns (Inl e)"
  by (auto simp: returns_def)

lemma returns_gbind [go_intros]:
  "m = Inr x \<Longrightarrow> returns (f x) \<Longrightarrow> returns (gbind m f)"
  by simp

text \<open>A loop over a list whose body may crash.\<close>

fun gfold :: "('a \<Rightarrow> 's \<Rightarrow> 's go) \<Rightarrow> 'a list \<Rightarrow> 's \<Rightarrow> 's go" where
  "gfold f [] s = Inr s"
| "gfold f (x # xs) s = gbind (f x s) (gfold f xs)"

lemma gfold_append [simp]: "gfold f (xs @ ys) s = gbind (gfold f xs s) (gfold f ys)"
proof (induction xs arbitrary: s)
  case (Cons x xs)
  then show ?case by (cases "f x s") simp_all
qed simp

lemma gfold_inv:
  assumes "gfold f xs s = Inr s'" and "P s"
    and "\<And>x s s'. x \<in> set xs \<Longrightarrow> P s \<Longrightarrow> f x s = Inr s' \<Longrightarrow> P s'"
  shows "P s'"
  using assms by (induction xs arbitrary: s) auto

lemma gfold_returns:
  assumes "P s" and "\<And>x s. x \<in> set xs \<Longrightarrow> P s \<Longrightarrow> \<exists>s'. f x s = Inr s' \<and> P s'"
  shows "\<exists>s'. gfold f xs s = Inr s' \<and> P s'"
  using assms
proof (induction xs arbitrary: s)
  case (Cons x xs)
  obtain s1 where s1: "f x s = Inr s1" "P s1" using Cons.prems(2) [of x s] Cons.prems(1) by auto
  then show ?case using Cons.IH [OF s1(2)] Cons.prems(2) by simp
qed simp

subsection \<open>Slices\<close>

text \<open>
  \<open>xs[i]\<close>, \<open>xs[i:]\<close>, \<open>xs[:i]\<close> and \<open>xs[i] = v\<close>. Go checks \<open>xs[:i]\<close> against the
  capacity of the slice, which may be larger than its length; the model checks it
  against the length, and the components prove that their bounds stay below it.
\<close>

definition idx :: "'a list \<Rightarrow> int \<Rightarrow> 'a go" where
  "idx xs i = (if 0 \<le> i \<and> i < int (length xs) then Inr (xs ! nat i) else Inl IndexOutOfRange)"

definition slice_from :: "'a list \<Rightarrow> int \<Rightarrow> 'a list go" where
  "slice_from xs i =
     (if 0 \<le> i \<and> i \<le> int (length xs) then Inr (drop (nat i) xs) else Inl SliceOutOfRange)"

definition slice_to :: "'a list \<Rightarrow> int \<Rightarrow> 'a list go" where
  "slice_to xs i =
     (if 0 \<le> i \<and> i \<le> int (length xs) then Inr (take (nat i) xs) else Inl SliceOutOfRange)"

definition set_idx :: "'a list \<Rightarrow> int \<Rightarrow> 'a \<Rightarrow> 'a list go" where
  "set_idx xs i v =
     (if 0 \<le> i \<and> i < int (length xs) then Inr (xs[nat i := v]) else Inl IndexOutOfRange)"

definition make_slice :: "int \<Rightarrow> 'a \<Rightarrow> 'a list go" where
  "make_slice n z = (if 0 \<le> n then Inr (replicate (nat n) z) else Inl MakeSliceLen)"

text \<open>\<open>copy(dst, src)\<close>: overwrites the common prefix, and never changes the length of \<open>dst\<close>.\<close>

definition go_copy :: "'a list \<Rightarrow> 'a list \<Rightarrow> 'a list" where
  "go_copy dst src = take (length dst) src @ drop (length src) dst"

lemma idx_Inr [simp]: "0 \<le> i \<Longrightarrow> i < int (length xs) \<Longrightarrow> idx xs i = Inr (xs ! nat i)"
  by (simp add: idx_def)

lemma idx_Inr_iff:
  "idx xs i = Inr x \<longleftrightarrow> 0 \<le> i \<and> i < int (length xs) \<and> x = xs ! nat i"
  by (auto simp: idx_def)

lemma slice_from_Inr [simp]:
  "0 \<le> i \<Longrightarrow> i \<le> int (length xs) \<Longrightarrow> slice_from xs i = Inr (drop (nat i) xs)"
  by (simp add: slice_from_def)

lemma slice_to_Inr [simp]:
  "0 \<le> i \<Longrightarrow> i \<le> int (length xs) \<Longrightarrow> slice_to xs i = Inr (take (nat i) xs)"
  by (simp add: slice_to_def)

lemma set_idx_Inr [simp]:
  "0 \<le> i \<Longrightarrow> i < int (length xs) \<Longrightarrow> set_idx xs i v = Inr (xs[nat i := v])"
  by (simp add: set_idx_def)

lemma set_idx_Inr_iff:
  "set_idx xs i v = Inr ys \<longleftrightarrow> 0 \<le> i \<and> i < int (length xs) \<and> ys = xs[nat i := v]"
  by (auto simp: set_idx_def)

lemma make_slice_Inr [simp]: "0 \<le> n \<Longrightarrow> make_slice n z = Inr (replicate (nat n) z)"
  by (simp add: make_slice_def)

lemma go_copy_same_length [simp]: "length dst = length src \<Longrightarrow> go_copy dst src = src"
  by (simp add: go_copy_def)

lemma length_go_copy [simp]: "length (go_copy dst src) = length dst"
  by (simp add: go_copy_def)

lemmas go_slice_defs = idx_def slice_from_def slice_to_def set_idx_def make_slice_def

subsection \<open>Sorted lists and counting\<close>

text \<open>
  In an ascending list of length \<open>n\<close>, the elements from position \<open>k\<close> on are at least
  the element at \<open>k\<close>, so at least \<open>n - k\<close> elements are.
\<close>

lemma sorted_count_ge:
  fixes xs :: "'a::linorder list"
  assumes "k < length xs"
  shows "length xs - k \<le> length (filter (\<lambda>x. sort xs ! k \<le> x) xs)"
proof -
  let ?ys = "sort xs" and ?P = "\<lambda>x. sort xs ! k \<le> x"
  have all: "\<forall>x \<in> set (drop k ?ys). ?P x"
  proof
    fix x assume "x \<in> set (drop k ?ys)"
    then obtain j where "j < length (drop k ?ys)" and "x = drop k ?ys ! j"
      by (auto simp: in_set_conv_nth)
    then show "?P x" using assms by (simp add: sorted_nth_mono)
  qed
  have "filter ?P ?ys = filter ?P (take k ?ys) @ filter ?P (drop k ?ys)"
    by (metis append_take_drop_id filter_append)
  also have "filter ?P (drop k ?ys) = drop k ?ys"
    using all by (simp add: filter_id_conv)
  finally have "length (filter ?P ?ys) \<ge> length xs - k" by simp
  moreover have "length (filter ?P ?ys) = length (filter ?P xs)"
    by (metis mset_filter mset_sort size_mset)
  ultimately show ?thesis by simp
qed

lemma length_filter_card:
  "length (filter P xs) = card {i. i < length xs \<and> P (xs ! i)}"
  by (rule length_filter_conv_card)

subsection \<open>Majorities\<close>

text \<open>Two subsets of the \<open>n\<close> servers that both hold more than half of them share a server.\<close>

definition majority :: "nat \<Rightarrow> nat set \<Rightarrow> bool" where
  "majority n Q \<longleftrightarrow> Q \<subseteq> {..<n} \<and> n div 2 < card Q"

locale quorum_system =
  fixes quorum :: "'a set \<Rightarrow> bool"
  assumes quorum_meet: "quorum Q \<Longrightarrow> quorum Q' \<Longrightarrow> \<exists>x. x \<in> Q \<and> x \<in> Q'"
begin

text \<open>
  A choice that each member makes at most once, and that every member of one quorum has made
  for \<open>a\<close> and every member of another for \<open>b\<close>, has been made for one value only.
\<close>

lemma quorum_agree:
  assumes "quorum Q" and "quorum Q'"
    and "\<And>x. x \<in> Q \<Longrightarrow> chose x a" and "\<And>x. x \<in> Q' \<Longrightarrow> chose x b"
    and "\<And>x. chose x a \<Longrightarrow> chose x b \<Longrightarrow> a = b"
  shows "a = b"
  using quorum_meet [OF assms(1,2)] assms(3-5) by blast

end

lemma majority_meet:
  assumes "majority n Q" and "majority n Q'"
  shows "\<exists>x. x \<in> Q \<and> x \<in> Q'"
proof (rule ccontr)
  assume "\<not> ?thesis"
  then have disj: "Q \<inter> Q' = {}" by blast
  from assms have sub: "Q \<union> Q' \<subseteq> {..<n}" and fin: "finite Q" "finite Q'"
    by (auto simp: majority_def intro: finite_subset)
  have "card Q + card Q' = card (Q \<union> Q')"
    using disj fin by (simp add: card_Un_disjoint)
  also have "\<dots> \<le> n"
    using card_mono [OF _ sub] by simp
  finally show False using assms by (auto simp: majority_def)
qed

interpretation majority: quorum_system "majority n" for n
  by unfold_locales (rule majority_meet)

end
