(* ===== verification/Go_Util.thy ===== *)
theory Go_Util
  imports Go_Prelude
begin

text \<open>
  The shared constants and helper functions of \<^verbatim>\<open>util/common.go\<close>, and the types of the
  error codes that the servers put into their replies. Durations are in milliseconds.
\<close>

definition NA :: int where
  "NA = -1"

definition HeartbeatsInterval :: int where
  "HeartbeatsInterval = 50"

definition MinTimeout :: int where
  "MinTimeout = 8"

definition MaxTimeout :: int where
  "MaxTimeout = 16"

datatype role = Leader | Candidate | Follower

text \<open>\<open>Err\<close> is a string in Go; its zero value, the empty string, is \<open>ErrNone\<close> here.\<close>

datatype Err =
    ErrNone
  | OK
  | ErrWrongLeader
  | ErrNoKey
  | ErrNotApplied
  | ErrTimeout
  | ErrDuplicate
  | ErrWrongGroup
  | ErrBehind

definition Min :: "int \<Rightarrow> int \<Rightarrow> int" where
  "Min a b = (if a < b then a else b)"

definition Max :: "int \<Rightarrow> int \<Rightarrow> int" where
  "Max a b = (if a > b then a else b)"

fun InSlice :: "int \<Rightarrow> int list \<Rightarrow> bool" where
  "InSlice value [] = False"
| "InSlice value (v # slice) = (if v = value then True else InSlice value slice)"

lemma Min_eq_min [simp]: "Min a b = min a b"
  by (simp add: Min_def min_def)

lemma Max_eq_max [simp]: "Max a b = max a b"
  by (simp add: Max_def max_def)

lemma InSlice_iff [simp]: "InSlice v xs \<longleftrightarrow> v \<in> set xs"
  by (induction xs) auto

end
