(* ===== verification/Raft_Types.thy ===== *)
theory Raft_Types
  imports Go_Util
begin

text \<open>
  The data of \<^verbatim>\<open>raft/raft.go\<close>, \<^verbatim>\<open>raft/rpc.go\<close> and \<^verbatim>\<open>raft/persister.go\<close>: log
  entries, the argument and reply structs of the three RPCs, the messages for the service,
  the persister and the state of one peer.

  The type \<open>'c\<close> is the type of the commands of the service (\<open>interface{}\<close>; \<open>None\<close> is
  nil), and \<open>'s\<close> the type of the pieces of a snapshot: a \<open>[]byte\<close> that the service
  encoded with labgob is the list of the values written to the encoder, so that the length
  test \<open>len(data) < 1\<close> means the same, and decoding reads the values back in order.
\<close>

subsection \<open>Log entries, snapshots and RPC structs\<close>

record 'c LogEntry =
  le_Command :: "'c option"
  le_Index :: int
  le_Term :: int

record 's Snapshot =
  LastIncludedIndex :: int
  LastIncludedTerm :: int
  snap_Data :: "'s list"

record ('c, 's) ApplyMsg =
  CommandValid :: bool
  am_Command :: "'c option"
  CommandIndex :: int
  SnapshotValid :: bool
  am_Snapshot :: "'s list"
  SnapshotTerm :: int
  SnapshotIndex :: int

record RequestVoteArgs =
  rv_Term :: int
  rv_CandidateId :: int
  rv_LastLogIndex :: int
  rv_LastLogTerm :: int

record RequestVoteReply =
  rvr_Term :: int
  VoteGranted :: bool

record 'c AppendEntriesArgs =
  ae_Term :: int
  ae_LeaderId :: int
  PrevLogIndex :: int
  PrevLogTerm :: int
  Entries :: "'c LogEntry list"
  LeaderCommit :: int

record AppendEntriesReply =
  aer_Term :: int
  Success :: bool
  ConflictTerm :: int
  ConflictFirstIndex :: int

record 's InstallSnapshotArgs =
  is_Term :: int
  is_LeaderId :: int
  is_Snapshot :: "'s Snapshot"

record InstallSnapshotReply =
  isr_Term :: int

subsection \<open>The persister\<close>

text \<open>
  \<open>persistL\<close> writes the term, the vote and the log to a labgob encoder, one after the
  other. A labgob stream is the list of the encoded values, each with its type, as
  encoding/gob describes its streams; decoding into a variable of another type is an error.
\<close>

datatype 'c gobval = GobInt int | GobLog "'c LogEntry list"

record ('c, 's) Persister =
  raftstate :: "'c gobval list"
  ps_snapshot :: "'s list"

definition MakePersister :: "('c, 's) Persister" where
  "MakePersister = \<lparr>raftstate = [], ps_snapshot = []\<rparr>"

text \<open>\<open>clone\<close> allocates a slice of the same length and copies every byte into it.\<close>

definition clone :: "'a list \<Rightarrow> 'a list" where
  "clone orig = (case orig of [] \<Rightarrow> [] | z # _ \<Rightarrow> go_copy (replicate (length orig) z) orig)"

definition Persister_Copy :: "('c, 's) Persister \<Rightarrow> ('c, 's) Persister" where
  "Persister_Copy ps = MakePersister\<lparr>raftstate := raftstate ps, ps_snapshot := ps_snapshot ps\<rparr>"

definition SaveRaftState :: "'c gobval list \<Rightarrow> ('c, 's) Persister \<Rightarrow> ('c, 's) Persister" where
  "SaveRaftState state ps = ps\<lparr>raftstate := clone state\<rparr>"

definition ReadRaftState :: "('c, 's) Persister \<Rightarrow> 'c gobval list" where
  "ReadRaftState ps = clone (raftstate ps)"

definition SaveStateAndSnapshot ::
    "'c gobval list \<Rightarrow> 's list \<Rightarrow> ('c, 's) Persister \<Rightarrow> ('c, 's) Persister" where
  "SaveStateAndSnapshot state snap ps =
     ps\<lparr>raftstate := clone state, ps_snapshot := clone snap\<rparr>"

definition ReadSnapshot :: "('c, 's) Persister \<Rightarrow> 's list" where
  "ReadSnapshot ps = clone (ps_snapshot ps)"

text \<open>
  The sizes are numbers of bytes, which the encoding decides: \<open>bytes\<close> is the length of
  the gob encoding of a stream.
\<close>

definition RaftStateSize :: "('c gobval list \<Rightarrow> int) \<Rightarrow> ('c, 's) Persister \<Rightarrow> int" where
  "RaftStateSize bytes ps = bytes (raftstate ps)"

definition SnapshotSize :: "('s list \<Rightarrow> int) \<Rightarrow> ('c, 's) Persister \<Rightarrow> int" where
  "SnapshotSize bytes ps = bytes (ps_snapshot ps)"

lemma clone_id [simp]: "clone xs = xs"
  by (cases xs) (simp_all add: clone_def go_copy_def)

text \<open>
  The interface on which Raft and the services rely: what was saved last is what is read,
  and a copy reads like the original.
\<close>

locale stable_storage =
  fixes save :: "'a \<Rightarrow> 'b \<Rightarrow> 'p \<Rightarrow> 'p"
    and read_state :: "'p \<Rightarrow> 'a"
    and read_snapshot :: "'p \<Rightarrow> 'b"
    and copy :: "'p \<Rightarrow> 'p"
  assumes read_save_state: "read_state (save a b p) = a"
    and read_save_snapshot: "read_snapshot (save a b p) = b"
    and read_copy_state: "read_state (copy p) = read_state p"
    and read_copy_snapshot: "read_snapshot (copy p) = read_snapshot p"
begin

lemma crash_reads_last_save:
  "read_state (copy (save a b p)) = a \<and> read_snapshot (copy (save a b p)) = b"
  by (simp add: read_save_state read_save_snapshot read_copy_state read_copy_snapshot)

end

interpretation persister: stable_storage
  SaveStateAndSnapshot ReadRaftState ReadSnapshot Persister_Copy
  by unfold_locales
    (simp_all add: SaveStateAndSnapshot_def ReadRaftState_def ReadSnapshot_def
      Persister_Copy_def MakePersister_def)

subsection \<open>A peer\<close>

text \<open>
  Where the applier goroutine stands: at the top of its loop, blocked in a send of a
  snapshot or of a command on the apply channel, waiting on the condition variable, or
  gone.
\<close>

datatype ('c, 's) applier =
    ApplyTop
  | ApplySendSnapshot "('c, 's) ApplyMsg"
  | ApplySendCommand "('c, 's) ApplyMsg"
  | ApplyWait
  | ApplyReturned

record ('c, 's) Raft =
  peers :: nat
  persister :: "('c, 's) Persister"
  me :: int
  dead :: bool
  currentTerm :: int
  votedFor :: int
  rlog :: "'c LogEntry list"
  rsnapshot :: "'s Snapshot"
  commitIndex :: int
  lastApplied :: int
  nextIndex :: "int list"
  matchIndex :: "int list"
  rrole :: role
  electionTimeout :: int
  applyCond :: "('c, 's) applier"
  applySnapshot :: bool
  leaderId :: int

text \<open>The clock and the random number generator, as a handler sees them.\<close>

record clock =
  now :: int
  rand :: nat

end
