(* ===== verification/Raft_Log.thy ===== *)
theory Raft_Log
  imports Raft_Types
begin

text \<open>
  The log helpers of \<^verbatim>\<open>raft/raft.go\<close> (\<open>lastLogL\<close>, \<open>getLogL\<close>, \<open>logSliceIndexL\<close>,
  \<open>logFirstIndexL\<close>, \<open>trimLogL\<close>) and the invariant of a log: it is never empty, its first
  entry stands for the last snapshotted entry, and the indices of its entries count up by
  one. Under the invariant each helper reads or writes the entry with the given index.
\<close>

subsection \<open>Helpers\<close>

definition zeroEntry :: "'c LogEntry" where
  "zeroEntry = \<lparr>le_Command = None, le_Index = 0, le_Term = 0\<rparr>"

definition lastLogL :: "('c, 's) Raft \<Rightarrow> 'c LogEntry go" where
  "lastLogL rf = idx (rlog rf) (int (length (rlog rf)) - 1)"

definition logFirstIndexL :: "('c, 's) Raft \<Rightarrow> int go" where
  "logFirstIndexL rf = gbind (idx (rlog rf) 0) (\<lambda>e. Inr (le_Index e))"

definition logSliceIndexL :: "int \<Rightarrow> ('c, 's) Raft \<Rightarrow> int go" where
  "logSliceIndexL index rf =
     gbind (logFirstIndexL rf) (\<lambda>first.
       if index < first then Inr NA else Inr (index - first))"

definition getLogL :: "int \<Rightarrow> ('c, 's) Raft \<Rightarrow> 'c LogEntry go" where
  "getLogL index rf = gbind (logSliceIndexL index rf) (\<lambda>i. idx (rlog rf) i)"

definition trimLogL :: "int \<Rightarrow> ('c, 's) Raft \<Rightarrow> ('c, 's) Raft go" where
  "trimLogL index rf =
     gbind (lastLogL rf) (\<lambda>last.
     gbind (make_slice (le_Index last - index + 1) zeroEntry) (\<lambda>newLog.
     gbind (logFirstIndexL rf) (\<lambda>first.
     gbind (slice_from (rlog rf) (index - first)) (\<lambda>rest.
     Inr (rf\<lparr>rlog := go_copy newLog rest\<rparr>)))))"

subsection \<open>The shape of a log\<close>

definition wf_log :: "'c LogEntry list \<Rightarrow> bool" where
  "wf_log es \<longleftrightarrow>
     es \<noteq> [] \<and> (\<forall>i < length es. le_Index (es ! i) = le_Index (es ! 0) + int i)"

text \<open>First index, last index and the entry at an index, for logs of that shape.\<close>

definition first_index :: "'c LogEntry list \<Rightarrow> int" where
  "first_index es = le_Index (es ! 0)"

definition last_index :: "'c LogEntry list \<Rightarrow> int" where
  "last_index es = first_index es + int (length es) - 1"

definition entry_at :: "'c LogEntry list \<Rightarrow> int \<Rightarrow> 'c LogEntry" where
  "entry_at es i = es ! nat (i - first_index es)"

definition last_term :: "'c LogEntry list \<Rightarrow> int" where
  "last_term es = le_Term (last es)"

definition consecutive :: "int \<Rightarrow> 'c LogEntry list \<Rightarrow> bool" where
  "consecutive i es \<longleftrightarrow> (\<forall>k < length es. le_Index (es ! k) = i + int k)"

lemma wf_log_nonempty [simp]: "wf_log es \<Longrightarrow> es \<noteq> []"
  by (simp add: wf_log_def)

lemma wf_log_Nil [simp]: "\<not> wf_log []"
  by (simp add: wf_log_def)

lemma wf_log_nth: "wf_log es \<Longrightarrow> i < length es \<Longrightarrow> le_Index (es ! i) = first_index es + int i"
  unfolding wf_log_def first_index_def by blast

lemma wf_log_consecutive: "wf_log es \<longleftrightarrow> es \<noteq> [] \<and> consecutive (first_index es) es"
  by (simp add: wf_log_def consecutive_def first_index_def)

lemma consecutive_Nil [simp]: "consecutive i []"
  by (simp add: consecutive_def)

lemma consecutive_Cons [simp]:
  "consecutive i (e # es) \<longleftrightarrow> le_Index e = i \<and> consecutive (i + 1) es"
  by (auto simp: consecutive_def nth_Cons' less_Suc_eq_0_disj)

lemma consecutive_append [simp]:
  "consecutive i (xs @ ys) \<longleftrightarrow> consecutive i xs \<and> consecutive (i + int (length xs)) ys"
  by (induction xs arbitrary: i) (auto simp: algebra_simps)

lemma consecutive_take: "consecutive i es \<Longrightarrow> consecutive i (take k es)"
  by (simp add: consecutive_def)

lemma consecutive_drop: "consecutive i es \<Longrightarrow> consecutive (i + int k) (drop k es)"
  by (auto simp: consecutive_def)

lemma first_index_append [simp]: "xs \<noteq> [] \<Longrightarrow> first_index (xs @ ys) = first_index xs"
  by (simp add: first_index_def nth_append)

lemma first_index_single [simp]: "first_index [e] = le_Index e"
  by (simp add: first_index_def)

lemma first_index_take [simp]: "0 < k \<Longrightarrow> first_index (take k es) = first_index es"
  by (simp add: first_index_def)

lemma first_le_last: "wf_log es \<Longrightarrow> first_index es \<le> last_index es"
  by (cases es) (auto simp: last_index_def)

lemma wf_log_single [simp]: "wf_log [e]"
  by (simp add: wf_log_def)

lemma wf_log_append:
  "wf_log es \<Longrightarrow> consecutive (last_index es + 1) new \<Longrightarrow> wf_log (es @ new)"
  by (simp add: wf_log_consecutive last_index_def algebra_simps)

lemma last_index_append [simp]:
  "es \<noteq> [] \<Longrightarrow> last_index (es @ new) = last_index es + int (length new)"
  by (simp add: last_index_def)

lemma wf_log_take: "wf_log es \<Longrightarrow> 0 < k \<Longrightarrow> wf_log (take k es)"
  by (auto simp: wf_log_consecutive consecutive_take)

lemma first_index_drop:
  "wf_log es \<Longrightarrow> k < length es \<Longrightarrow> first_index (drop k es) = first_index es + int k"
  by (simp add: first_index_def [of "drop k es"] wf_log_nth)

lemma wf_log_drop: "wf_log es \<Longrightarrow> k < length es \<Longrightarrow> wf_log (drop k es)"
  using first_index_drop [of es k] consecutive_drop [of "first_index es" es k]
  by (simp add: wf_log_consecutive)

lemma last_index_drop:
  "wf_log es \<Longrightarrow> k < length es \<Longrightarrow> last_index (drop k es) = last_index es"
  by (simp add: last_index_def first_index_drop)

lemma le_Index_last: "wf_log es \<Longrightarrow> le_Index (last es) = last_index es"
  using wf_log_nth [of es "length es - 1"]
  by (simp add: last_conv_nth last_index_def of_nat_diff Suc_leI)

lemma le_Index_entry_at:
  assumes "wf_log es" and "first_index es \<le> i" and "i \<le> last_index es"
  shows "le_Index (entry_at es i) = i"
  using assms wf_log_nth [of es "nat (i - first_index es)"]
  by (simp add: entry_at_def last_index_def)

lemma entry_at_drop:
  assumes "wf_log es" and "k < length es" and "first_index es + int k \<le> i"
  shows "entry_at (drop k es) i = entry_at es i"
proof -
  have "k + nat (i - (first_index es + int k)) = nat (i - first_index es)"
    using assms(3) by simp
  with assms show ?thesis by (simp add: entry_at_def first_index_drop)
qed

lemma entry_at_append1:
  assumes "es \<noteq> []" and "i \<le> last_index es" and "first_index es \<le> i"
  shows "entry_at (es @ new) i = entry_at es i"
  using assms by (simp add: entry_at_def last_index_def nth_append nat_less_iff)

lemma entry_at_last: "wf_log es \<Longrightarrow> entry_at es (last_index es) = last es"
  by (cases es) (auto simp: entry_at_def last_index_def last_conv_nth)

subsection \<open>The helpers on a well-formed log\<close>

lemma lastLogL_wf [simp]: "wf_log (rlog rf) \<Longrightarrow> lastLogL rf = Inr (last (rlog rf))"
  by (cases "rlog rf") (auto simp: lastLogL_def last_conv_nth nat_diff_distrib')

lemma logFirstIndexL_wf [simp]:
  "wf_log (rlog rf) \<Longrightarrow> logFirstIndexL rf = Inr (first_index (rlog rf))"
  by (cases "rlog rf") (auto simp: logFirstIndexL_def first_index_def)

lemma logSliceIndexL_wf:
  "wf_log (rlog rf) \<Longrightarrow> first_index (rlog rf) \<le> i \<Longrightarrow>
     logSliceIndexL i rf = Inr (i - first_index (rlog rf))"
  by (simp add: logSliceIndexL_def)

lemma getLogL_wf:
  assumes "wf_log (rlog rf)" and "first_index (rlog rf) \<le> i" and "i \<le> last_index (rlog rf)"
  shows "getLogL i rf = Inr (entry_at (rlog rf) i)"
  using assms by (simp add: getLogL_def logSliceIndexL_wf entry_at_def last_index_def)

lemma getLogL_below:
  "wf_log (rlog rf) \<Longrightarrow> i < first_index (rlog rf) \<Longrightarrow> getLogL i rf = Inl IndexOutOfRange"
  by (simp add: getLogL_def logSliceIndexL_def idx_def NA_def)

lemma trimLogL_wf:
  assumes "wf_log (rlog rf)" and "first_index (rlog rf) \<le> i" and "i \<le> last_index (rlog rf)"
  shows "trimLogL i rf = Inr (rf\<lparr>rlog := drop (nat (i - first_index (rlog rf))) (rlog rf)\<rparr>)"
proof -
  have "length (drop (nat (i - first_index (rlog rf))) (rlog rf)) = nat (last_index (rlog rf) - i + 1)"
    using assms by (simp add: last_index_def)
  with assms show ?thesis
    by (simp add: trimLogL_def le_Index_last last_index_def)
qed

lemmas raft_log_simps [simp] = logSliceIndexL_wf getLogL_wf trimLogL_wf

end
