(* ===== verification/Raft_Server.thy ===== *)
theory Raft_Server
  imports Raft_Log
begin

text \<open>
  The peer of \<^verbatim>\<open>raft/raft.go\<close>: every method that holds \<open>rf.mu\<close> is a function on the
  state of the peer, and each stretch of code between two points where the lock is
  released is one such function. The goroutines a method starts are part of its result, as
  a list of \<open>task\<close>s. Logging (\<open>logL\<close>) has no effect on the state and is left out.
\<close>

datatype task =
    AppendTask int int \<comment> \<open>\<open>go rf.append(server, term)\<close>\<close>
  | RequestTask int RequestVoteArgs \<comment> \<open>\<open>go rf.request(server, args, &votes)\<close>\<close>

subsection \<open>Persistent state\<close>

definition encodeState :: "('c, 's) Raft \<Rightarrow> 'c gobval list" where
  "encodeState rf = [GobInt (currentTerm rf), GobInt (votedFor rf), GobLog (rlog rf)]"

definition persistL :: "('c, 's) Raft \<Rightarrow> ('c, 's) Raft" where
  "persistL rf =
     rf\<lparr>persister := SaveStateAndSnapshot (encodeState rf) (snap_Data (rsnapshot rf)) (persister rf)\<rparr>"

fun decodeInt :: "'c gobval list \<Rightarrow> (int \<times> 'c gobval list) option" where
  "decodeInt (GobInt i # buf) = Some (i, buf)"
| "decodeInt _ = None"

fun decodeLog :: "'c gobval list \<Rightarrow> ('c LogEntry list \<times> 'c gobval list) option" where
  "decodeLog (GobLog es # buf) = Some (es, buf)"
| "decodeLog _ = None"

definition decodeState :: "'c gobval list \<Rightarrow> (int \<times> int \<times> 'c LogEntry list) option" where
  "decodeState data =
     (case decodeInt data of
        None \<Rightarrow> None
      | Some (term, buf) \<Rightarrow>
          (case decodeInt buf of
             None \<Rightarrow> None
           | Some (vote, buf) \<Rightarrow>
               (case decodeLog buf of None \<Rightarrow> None | Some (es, buf) \<Rightarrow> Some (term, vote, es))))"

definition readPersist :: "'c gobval list \<Rightarrow> ('c, 's) Raft \<Rightarrow> ('c, 's) Raft go" where
  "readPersist data rf =
     (if length data < 1 then Inr rf
      else case decodeState data of
        None \<Rightarrow> Inl (LogFatal ''readPersist() failed!'')
      | Some (term, vote, es) \<Rightarrow>
          (let rf = rf\<lparr>currentTerm := term, votedFor := vote, rlog := es\<rparr> in
           gbind (idx (rlog rf) 0) (\<lambda>e0.
           let rf = rf\<lparr>rsnapshot := \<lparr>LastIncludedIndex = le_Index e0,
                                     LastIncludedTerm = le_Term e0,
                                     snap_Data = ReadSnapshot (persister rf)\<rparr>\<rparr> in
           gbind (logFirstIndexL rf) (\<lambda>first.
           Inr (rf\<lparr>commitIndex := first, lastApplied := first\<rparr>)))))"

subsection \<open>Timeouts, roles and small helpers\<close>

definition nPeers :: "('c, 's) Raft \<Rightarrow> int" where
  "nPeers rf = int (peers rf)"

definition resetElectionTimeoutL :: "clock \<Rightarrow> bool \<Rightarrow> ('c, 's) Raft \<Rightarrow> ('c, 's) Raft" where
  "resetElectionTimeoutL clk ini rf =
     (let randTimeout = int (rand clk) mod (MaxTimeout - MinTimeout) in
      if ini then rf\<lparr>electionTimeout := now clk + randTimeout * HeartbeatsInterval\<rparr>
      else rf\<lparr>electionTimeout := now clk + (MinTimeout + randTimeout) * HeartbeatsInterval\<rparr>)"

definition GetState :: "('c, 's) Raft \<Rightarrow> int \<times> bool" where
  "GetState rf = (currentTerm rf, rrole rf = Leader)"

definition GetLeaderId :: "('c, 's) Raft \<Rightarrow> int" where
  "GetLeaderId rf = leaderId rf"

definition CondInstallSnapshot :: "int \<Rightarrow> int \<Rightarrow> 's list \<Rightarrow> ('c, 's) Raft \<Rightarrow> bool" where
  "CondInstallSnapshot lastIncludedTerm lastIncludedIndex snapshot rf = True"

definition Kill :: "('c, 's) Raft \<Rightarrow> ('c, 's) Raft" where
  "Kill rf = rf\<lparr>dead := True\<rparr>"

definition killed :: "('c, 's) Raft \<Rightarrow> bool" where
  "killed rf = dead rf"

text \<open>\<open>rf.applyCond.Signal()\<close> wakes the applier if it waits, and is lost otherwise.\<close>

definition applySignalL :: "('c, 's) Raft \<Rightarrow> ('c, 's) Raft" where
  "applySignalL rf =
     (case applyCond rf of ApplyWait \<Rightarrow> rf\<lparr>applyCond := ApplyTop\<rparr> | _ \<Rightarrow> rf)"

definition becomeFollowerL :: "int \<Rightarrow> ('c, 's) Raft \<Rightarrow> ('c, 's) Raft" where
  "becomeFollowerL term rf =
     persistL (rf\<lparr>rrole := Follower, votedFor := NA, currentTerm := term\<rparr>)"

definition updateMatchAndNextL :: "int \<Rightarrow> int \<Rightarrow> ('c, 's) Raft \<Rightarrow> ('c, 's) Raft go" where
  "updateMatchAndNextL server newMatch rf =
     gbind (idx (matchIndex rf) server) (\<lambda>m.
     gbind (if newMatch > m
            then gbind (set_idx (matchIndex rf) server newMatch) (\<lambda>ms. Inr (rf\<lparr>matchIndex := ms\<rparr>))
            else Inr rf) (\<lambda>rf.
     gbind (idx (nextIndex rf) server) (\<lambda>nx.
     if newMatch \<ge> nx
     then gbind (set_idx (nextIndex rf) server (newMatch + 1)) (\<lambda>ns. Inr (rf\<lparr>nextIndex := ns\<rparr>))
     else Inr rf)))"

subsection \<open>Goroutines started for every other peer\<close>

definition otherPeers :: "('c, 's) Raft \<Rightarrow> int list" where
  "otherPeers rf = filter (\<lambda>i. i \<noteq> me rf) (map int [0..<peers rf])"

definition appendsL :: "('c, 's) Raft \<Rightarrow> task list" where
  "appendsL rf = map (\<lambda>i. AppendTask i (currentTerm rf)) (otherPeers rf)"

definition heartbeatsL :: "('c, 's) Raft \<Rightarrow> task list" where
  "heartbeatsL rf = appendsL rf"

definition requestsL :: "('c, 's) Raft \<Rightarrow> task list go" where
  "requestsL rf =
     gbind (lastLogL rf) (\<lambda>last.
     let args = \<lparr>rv_Term = currentTerm rf, rv_CandidateId = me rf,
                 rv_LastLogIndex = le_Index last, rv_LastLogTerm = le_Term last\<rparr> in
     Inr (map (\<lambda>i. RequestTask i args) (otherPeers rf)))"

subsection \<open>The interface for the service\<close>

definition Start ::
    "'c \<Rightarrow> ('c, 's) Raft \<Rightarrow> ((int \<times> int \<times> bool) \<times> ('c, 's) Raft \<times> task list) go" where
  "Start command rf =
     (if rrole rf \<noteq> Leader then Inr ((NA, NA, False), rf, [])
      else
        gbind (lastLogL rf) (\<lambda>last.
        let index = le_Index last + 1;
            term = currentTerm rf;
            logEntry = \<lparr>le_Command = Some command, le_Index = index, le_Term = term\<rparr>;
            rf = persistL (rf\<lparr>rlog := rlog rf @ [logEntry]\<rparr>)
        in Inr ((index, term, True), rf, appendsL rf)))"

definition Snapshot :: "int \<Rightarrow> 's list \<Rightarrow> ('c, 's) Raft \<Rightarrow> ('c, 's) Raft go" where
  "Snapshot index snapshot rf =
     gbind (logFirstIndexL rf) (\<lambda>first.
     if index > first then
       gbind (trimLogL index rf) (\<lambda>rf.
       gbind (idx (rlog rf) 0) (\<lambda>e0.
       Inr (persistL (rf\<lparr>rsnapshot := \<lparr>LastIncludedIndex = le_Index e0,
                                        LastIncludedTerm = le_Term e0,
                                        snap_Data = snapshot\<rparr>\<rparr>))))
     else Inr rf)"

subsection \<open>RequestVote\<close>

definition RequestVote ::
    "clock \<Rightarrow> RequestVoteArgs \<Rightarrow> ('c, 's) Raft \<Rightarrow> (('c, 's) Raft \<times> RequestVoteReply) go" where
  "RequestVote clk args rf =
     (let rf = (if rv_Term args > currentTerm rf then becomeFollowerL (rv_Term args) rf else rf) in
      gbind (lastLogL rf) (\<lambda>last.
      let upToDate = (rv_LastLogTerm args > le_Term last \<or>
            (rv_LastLogTerm args = le_Term last \<and> rv_LastLogIndex args \<ge> le_Index last));
          reply = \<lparr>rvr_Term = currentTerm rf, VoteGranted = False\<rparr>
      in
      if rv_Term args < currentTerm rf then Inr (rf, reply)
      else if (votedFor rf = NA \<or> votedFor rf = rv_CandidateId args) \<and> upToDate then
        Inr (resetElectionTimeoutL clk False
               (persistL (rf\<lparr>votedFor := rv_CandidateId args\<rparr>)),
             reply\<lparr>VoteGranted := True\<rparr>)
      else Inr (rf, reply)))"

subsection \<open>AppendEntries\<close>

text \<open>The loop that looks for the first entry of the conflicting term.\<close>

function firstOfTerm :: "int \<Rightarrow> int \<Rightarrow> int \<Rightarrow> ('c, 's) Raft \<Rightarrow> int go" where
  "firstOfTerm index first term rf =
     (if index > first then
        gbind (getLogL index rf) (\<lambda>e.
        if le_Term e \<noteq> term then Inr (index + 1)
        else firstOfTerm (index - 1) first term rf)
      else Inr index)"
  by pat_completeness auto
termination
  by (relation "measure (\<lambda>(index, first, term, rf). nat (index - first))") auto

declare firstOfTerm.simps [simp del]

definition prevLogConflictL ::
    "'c AppendEntriesArgs \<Rightarrow> AppendEntriesReply \<Rightarrow> ('c, 's) Raft
       \<Rightarrow> (bool \<times> AppendEntriesReply) go" where
  "prevLogConflictL args reply rf =
     gbind (lastLogL rf) (\<lambda>last.
     gbind (logFirstIndexL rf) (\<lambda>first.
     if le_Index last < PrevLogIndex args then
       Inr (True, reply\<lparr>ConflictTerm := NA, ConflictFirstIndex := le_Index last + 1\<rparr>)
     else if first > PrevLogIndex args then
       Inr (True, reply\<lparr>ConflictTerm := NA, ConflictFirstIndex := first + 1\<rparr>)
     else
       gbind (getLogL (PrevLogIndex args) rf) (\<lambda>e.
       if le_Term e \<noteq> PrevLogTerm args then
         gbind (firstOfTerm (PrevLogIndex args - 1) first (le_Term e) rf) (\<lambda>index.
         Inr (True, reply\<lparr>ConflictTerm := le_Term e, ConflictFirstIndex := index\<rparr>))
       else Inr (False, reply))))"

text \<open>
  The loop over \<open>args.Entries\<close>: \<open>index\<close> is the index of the first entry of the list, and
  at the first entry the log lacks or disagrees with the rest of the list replaces the rest
  of the log.
\<close>

fun appendNewL :: "int \<Rightarrow> 'c LogEntry list \<Rightarrow> ('c, 's) Raft \<Rightarrow> ('c, 's) Raft go" where
  "appendNewL index [] rf = Inr rf"
| "appendNewL index (entry # rest) rf =
     gbind (lastLogL rf) (\<lambda>last.
     gbind (if le_Index last < index then Inr True
            else gbind (getLogL index rf) (\<lambda>e. Inr (le_Term entry \<noteq> le_Term e))) (\<lambda>differs.
     if differs then
       gbind (logSliceIndexL index rf) (\<lambda>i.
       gbind (slice_to (rlog rf) i) (\<lambda>kept.
       Inr (persistL (rf\<lparr>rlog := kept @ (entry # rest)\<rparr>))))
     else appendNewL (index + 1) rest rf))"

definition processAppendEntriesL ::
    "'c AppendEntriesArgs \<Rightarrow> ('c, 's) Raft \<Rightarrow> (('c, 's) Raft \<times> AppendEntriesReply) go" where
  "processAppendEntriesL args rf =
     (let reply = \<lparr>aer_Term = currentTerm rf, Success = True,
                   ConflictTerm = 0, ConflictFirstIndex = 0\<rparr> in
      if ae_Term args < currentTerm rf then Inr (rf, reply\<lparr>Success := False\<rparr>)
      else
        gbind (prevLogConflictL args reply rf) (\<lambda>(conflict, reply).
        if conflict then Inr (rf, reply\<lparr>Success := False\<rparr>)
        else
          gbind (appendNewL (PrevLogIndex args + 1) (Entries args) rf) (\<lambda>rf.
          if LeaderCommit args > commitIndex rf then
            gbind (lastLogL rf) (\<lambda>last.
            Inr (applySignalL (rf\<lparr>commitIndex := Min (LeaderCommit args) (le_Index last)\<rparr>), reply))
          else Inr (rf, reply))))"

definition AppendEntries ::
    "clock \<Rightarrow> 'c AppendEntriesArgs \<Rightarrow> ('c, 's) Raft \<Rightarrow> (('c, 's) Raft \<times> AppendEntriesReply) go"
where
  "AppendEntries clk args rf =
     (let rf = (if ae_Term args > currentTerm rf then becomeFollowerL (ae_Term args) rf else rf);
          rf = (if rrole rf = Candidate \<and> ae_Term args \<ge> currentTerm rf
                then becomeFollowerL (ae_Term args) rf else rf);
          rf = (if ae_Term args \<ge> currentTerm rf
                then (resetElectionTimeoutL clk False rf)\<lparr>leaderId := ae_LeaderId args\<rparr> else rf)
      in processAppendEntriesL args rf)"

subsection \<open>InstallSnapshot\<close>

definition InstallSnapshot ::
    "clock \<Rightarrow> 's InstallSnapshotArgs \<Rightarrow> ('c, 's) Raft
       \<Rightarrow> (('c, 's) Raft \<times> InstallSnapshotReply) go" where
  "InstallSnapshot clk args rf =
     (let rf = (if is_Term args > currentTerm rf then becomeFollowerL (is_Term args) rf else rf);
          rf = (if is_Term args \<ge> currentTerm rf
                then (resetElectionTimeoutL clk False rf)\<lparr>leaderId := is_LeaderId args\<rparr> else rf);
          reply = \<lparr>isr_Term = currentTerm rf\<rparr>;
          snap = is_Snapshot args
      in
      if is_Term args < currentTerm rf then Inr (rf, reply)
      else
        gbind (logFirstIndexL rf) (\<lambda>first.
        if first \<ge> LastIncludedIndex snap then Inr (rf, reply)
        else
          let rf = rf\<lparr>rsnapshot := snap\<rparr> in
          gbind (lastLogL rf) (\<lambda>last.
          gbind (if le_Index last \<ge> LastIncludedIndex snap
                 then gbind (getLogL (LastIncludedIndex snap) rf)
                        (\<lambda>e. Inr (le_Term e = LastIncludedTerm snap))
                 else Inr False) (\<lambda>retain.
          gbind (if retain then trimLogL (LastIncludedIndex snap) rf
                 else Inr (rf\<lparr>rlog := [\<lparr>le_Command = None, le_Index = LastIncludedIndex snap,
                                        le_Term = LastIncludedTerm snap\<rparr>]\<rparr>)) (\<lambda>rf.
          Inr (applySignalL (rf\<lparr>applySnapshot := True\<rparr>), reply))))))"

subsection \<open>The applier goroutine\<close>

text \<open>
  \<open>apply\<close> releases the lock while it sends on the channel and while it waits. Each
  function below runs from one such point to the next: \<open>applyWaitL\<close> is the end of the
  loop body, \<open>applyCommandL\<close> the part from the test of \<open>commitIndex\<close>, \<open>applySnapshotL\<close>
  the method of that name, and \<open>applyLoop\<close> the loop from its top. The \<open>return\<close> in the
  middle of the body ends the goroutine.
\<close>

definition applyWaitL :: "('c, 's) Raft \<Rightarrow> ('c, 's) Raft" where
  "applyWaitL rf =
     (if commitIndex rf \<le> lastApplied rf \<and> \<not> applySnapshot rf
      then rf\<lparr>applyCond := ApplyWait\<rparr> else rf\<lparr>applyCond := ApplyTop\<rparr>)"

definition applyCommandL :: "('c, 's) Raft \<Rightarrow> ('c, 's) Raft go" where
  "applyCommandL rf =
     (if commitIndex rf > lastApplied rf then
        let rf = rf\<lparr>lastApplied := lastApplied rf + 1\<rparr> in
        gbind (logFirstIndexL rf) (\<lambda>first.
        if lastApplied rf \<le> first then Inr (rf\<lparr>applyCond := ApplyReturned\<rparr>)
        else
          gbind (getLogL (lastApplied rf) rf) (\<lambda>e.
          Inr (rf\<lparr>applyCond := ApplySendCommand
                \<lparr>CommandValid = True, am_Command = le_Command e, CommandIndex = lastApplied rf,
                 SnapshotValid = False, am_Snapshot = [], SnapshotTerm = 0, SnapshotIndex = 0\<rparr>\<rparr>)))
      else Inr (applyWaitL rf))"

definition applySnapshotL ::
    "('c, 's) Raft \<Rightarrow> ('c, 's) Raft \<times> ('c, 's) ApplyMsg option" where
  "applySnapshotL rf =
     (let rf = rf\<lparr>applySnapshot := False\<rparr>; snap = rsnapshot rf in
      if LastIncludedIndex snap > lastApplied rf then
        (rf\<lparr>commitIndex := LastIncludedIndex snap, lastApplied := LastIncludedIndex snap\<rparr>,
         Some \<lparr>CommandValid = False, am_Command = None, CommandIndex = 0,
               SnapshotValid = True, am_Snapshot = snap_Data snap,
               SnapshotTerm = LastIncludedIndex snap, SnapshotIndex = LastIncludedIndex snap\<rparr>)
      else (rf, None))"

definition applyLoop :: "('c, 's) Raft \<Rightarrow> ('c, 's) Raft go" where
  "applyLoop rf =
     (if killed rf then Inr (rf\<lparr>applyCond := ApplyReturned\<rparr>)
      else if applySnapshot rf then
        (case applySnapshotL rf of
           (rf, Some msg) \<Rightarrow> Inr (rf\<lparr>applyCond := ApplySendSnapshot msg\<rparr>)
         | (rf, None) \<Rightarrow> applyCommandL rf)
      else applyCommandL rf)"

text \<open>
  One step of the goroutine: it runs when it is at the top of the loop, or when the service
  has received the message it sends (the second component is the message received).
\<close>

definition applyStep ::
    "('c, 's) Raft \<Rightarrow> (('c, 's) Raft \<times> ('c, 's) ApplyMsg option) go" where
  "applyStep rf =
     (case applyCond rf of
        ApplyTop \<Rightarrow> gbind (applyLoop rf) (\<lambda>rf. Inr (rf, None))
      | ApplySendSnapshot msg \<Rightarrow> gbind (applyCommandL rf) (\<lambda>rf. Inr (rf, Some msg))
      | ApplySendCommand msg \<Rightarrow> Inr (applyWaitL rf, Some msg)
      | ApplyWait \<Rightarrow> Inr (rf, None)
      | ApplyReturned \<Rightarrow> Inr (rf, None))"

subsection \<open>Candidates\<close>

definition becomeCandidateL :: "clock \<Rightarrow> ('c, 's) Raft \<Rightarrow> (('c, 's) Raft \<times> task list) go" where
  "becomeCandidateL clk rf =
     (let rf = resetElectionTimeoutL clk False
            (persistL (rf\<lparr>rrole := Candidate, currentTerm := currentTerm rf + 1,
                          votedFor := me rf, leaderId := NA\<rparr>)) in
      gbind (requestsL rf) (\<lambda>tasks. Inr (rf, tasks)))"

definition tick :: "clock \<Rightarrow> ('c, 's) Raft \<Rightarrow> (('c, 's) Raft \<times> task list) go" where
  "tick clk rf =
     (if rrole rf = Leader then Inr (rf, heartbeatsL rf)
      else if now clk > electionTimeout rf then becomeCandidateL clk rf
      else Inr (rf, []))"

text \<open>\<open>setAll n v xs\<close> is the loop \<open>for i := 0; i < n; i++ { xs[i] = v }\<close>.\<close>

fun setAll :: "nat \<Rightarrow> int \<Rightarrow> int list \<Rightarrow> int list go" where
  "setAll 0 v xs = Inr xs"
| "setAll (Suc n) v xs = gbind (setAll n v xs) (\<lambda>ys. set_idx ys (int n) v)"

definition becomeLeaderL :: "('c, 's) Raft \<Rightarrow> (('c, 's) Raft \<times> task list) go" where
  "becomeLeaderL rf =
     gbind (lastLogL rf) (\<lambda>last.
     gbind (setAll (peers rf) (le_Index last + 1) (nextIndex rf)) (\<lambda>next.
     gbind (setAll (peers rf) 0 (matchIndex rf)) (\<lambda>match.
     let rf = rf\<lparr>nextIndex := next, matchIndex := match, rrole := Leader\<rparr> in
     Inr (rf, heartbeatsL rf))))"

text \<open>\<open>votes\<close> is the counter that the goroutines of one election share.\<close>

definition processRequestReplyL ::
    "RequestVoteArgs \<Rightarrow> RequestVoteReply \<Rightarrow> int \<Rightarrow> ('c, 's) Raft
       \<Rightarrow> (('c, 's) Raft \<times> int \<times> task list) go" where
  "processRequestReplyL args reply votes rf =
     (if currentTerm rf = rv_Term args \<and> rrole rf = Candidate then
        if VoteGranted reply then
          (let votes = votes + 1 in
           if votes > nPeers rf div 2
           then gbind (becomeLeaderL rf) (\<lambda>(rf, tasks). Inr (rf, votes, tasks))
           else Inr (rf, votes, []))
        else if rvr_Term reply > currentTerm rf
        then Inr (becomeFollowerL (rvr_Term reply) rf, votes, [])
        else Inr (rf, votes, [])
      else Inr (rf, votes, []))"

subsection \<open>Leaders\<close>

datatype ('c, 's) outgoing =
    NoRPC
  | SendAppendEntries "'c AppendEntriesArgs"
  | SendInstallSnapshot "'s InstallSnapshotArgs"

definition makeAppendArgsL :: "int \<Rightarrow> ('c, 's) Raft \<Rightarrow> 'c AppendEntriesArgs go" where
  "makeAppendArgsL server rf =
     gbind (idx (nextIndex rf) server) (\<lambda>next.
     gbind (lastLogL rf) (\<lambda>last.
     gbind (if le_Index last \<ge> next
            then gbind (logSliceIndexL next rf) (\<lambda>i. slice_from (rlog rf) i)
            else Inr []) (\<lambda>entries.
     gbind (getLogL (next - 1) rf) (\<lambda>prev.
     Inr \<lparr>ae_Term = currentTerm rf, ae_LeaderId = me rf, PrevLogIndex = next - 1,
          PrevLogTerm = le_Term prev, Entries = entries, LeaderCommit = commitIndex rf\<rparr>))))"

definition makeInstallArgsL :: "('c, 's) Raft \<Rightarrow> 's InstallSnapshotArgs" where
  "makeInstallArgsL rf =
     \<lparr>is_Term = currentTerm rf, is_LeaderId = me rf, is_Snapshot = rsnapshot rf\<rparr>"

text \<open>\<open>append(server, term)\<close> up to the point where it releases the lock for the RPC.\<close>

definition appendL :: "int \<Rightarrow> int \<Rightarrow> ('c, 's) Raft \<Rightarrow> ('c, 's) outgoing go" where
  "appendL server term rf =
     (if currentTerm rf \<noteq> term then Inr NoRPC
      else
        gbind (idx (nextIndex rf) server) (\<lambda>next.
        gbind (logFirstIndexL rf) (\<lambda>first.
        if next \<le> first then Inr (SendInstallSnapshot (makeInstallArgsL rf))
        else gbind (makeAppendArgsL server rf) (\<lambda>args. Inr (SendAppendEntries args)))))"

definition setCommitIndexL :: "('c, 's) Raft \<Rightarrow> (('c, 's) Raft \<times> bool) go" where
  "setCommitIndexL rf =
     gbind (make_slice (nPeers rf) 0) (\<lambda>zeros.
     let matchIndex' = sort (go_copy zeros (matchIndex rf)) in
     gbind (idx matchIndex' (nPeers rf div 2 + 1)) (\<lambda>N.
     if N > commitIndex rf then
       gbind (getLogL N rf) (\<lambda>e.
       if le_Term e = currentTerm rf then Inr (rf\<lparr>commitIndex := N\<rparr>, True)
       else Inr (rf, False))
     else Inr (rf, False)))"

text \<open>The loop that looks for the last entry of the follower's conflicting term.\<close>

function lastOfTerm :: "int \<Rightarrow> int \<Rightarrow> int \<Rightarrow> ('c, 's) Raft \<Rightarrow> int go" where
  "lastOfTerm index minIndex term rf =
     (if index \<ge> minIndex then
        gbind (getLogL index rf) (\<lambda>e.
        if le_Term e = term then Inr (index + 1)
        else lastOfTerm (index - 1) minIndex term rf)
      else Inr index)"
  by pat_completeness auto
termination
  by (relation "measure (\<lambda>(index, minIndex, term, rf). nat (index - minIndex + 1))") auto

declare lastOfTerm.simps [simp del]

definition processPrevLogConflictL ::
    "int \<Rightarrow> 'c AppendEntriesArgs \<Rightarrow> AppendEntriesReply \<Rightarrow> ('c, 's) Raft \<Rightarrow> ('c, 's) Raft go" where
  "processPrevLogConflictL server args reply rf =
     (if ConflictTerm reply = NA \<or> ConflictTerm reply > currentTerm rf then
        gbind (set_idx (nextIndex rf) server (ConflictFirstIndex reply)) (\<lambda>ns.
        Inr (rf\<lparr>nextIndex := ns\<rparr>))
      else
        gbind (logFirstIndexL rf) (\<lambda>first.
        gbind (lastOfTerm (PrevLogIndex args - 1) (Max (ConflictFirstIndex reply) (first + 1))
                 (ConflictTerm reply) rf) (\<lambda>index.
        gbind (set_idx (nextIndex rf) server index) (\<lambda>ns.
        Inr (rf\<lparr>nextIndex := ns\<rparr>)))))"

definition processAppendReplyL ::
    "int \<Rightarrow> 'c AppendEntriesArgs \<Rightarrow> AppendEntriesReply \<Rightarrow> ('c, 's) Raft \<Rightarrow> ('c, 's) Raft go" where
  "processAppendReplyL server args reply rf =
     (if currentTerm rf = ae_Term args \<and> rrole rf = Leader then
        if Success reply then
          gbind (updateMatchAndNextL server (PrevLogIndex args + int (length (Entries args))) rf) (\<lambda>rf.
          gbind (setCommitIndexL rf) (\<lambda>(rf, ok).
          if ok then Inr (applySignalL rf) else Inr rf))
        else if aer_Term reply > currentTerm rf then Inr (becomeFollowerL (aer_Term reply) rf)
        else processPrevLogConflictL server args reply rf
      else Inr rf)"

definition processInstallReplyL ::
    "int \<Rightarrow> 's InstallSnapshotArgs \<Rightarrow> InstallSnapshotReply \<Rightarrow> ('c, 's) Raft \<Rightarrow> ('c, 's) Raft go" where
  "processInstallReplyL server args reply rf =
     (if currentTerm rf = is_Term args \<and> rrole rf = Leader then
        if isr_Term reply > currentTerm rf then Inr (becomeFollowerL (isr_Term reply) rf)
        else updateMatchAndNextL server (LastIncludedIndex (is_Snapshot args)) rf
      else Inr rf)"

subsection \<open>Start of a peer\<close>

definition initL :: "clock \<Rightarrow> clock \<Rightarrow> nat \<Rightarrow> int \<Rightarrow> ('c, 's) Persister \<Rightarrow> ('c, 's) Raft go" where
  "initL clk clk' n m ps =
     (let rf = \<lparr>peers = n, persister = ps, me = m, dead = False,
                currentTerm = 0, votedFor = NA, rlog = [zeroEntry],
                rsnapshot = \<lparr>LastIncludedIndex = 0, LastIncludedTerm = 0, snap_Data = []\<rparr>,
                commitIndex = 0, lastApplied = 0,
                nextIndex = replicate n 0, matchIndex = replicate n 0,
                rrole = Follower, electionTimeout = 0, applyCond = ApplyTop,
                applySnapshot = False, leaderId = NA\<rparr>;
          rf = resetElectionTimeoutL clk True rf
      in gbind (readPersist (ReadRaftState ps) rf) (\<lambda>rf.
         if currentTerm rf \<noteq> 0 then Inr (resetElectionTimeoutL clk' False rf) else Inr rf))"

text \<open>
  \<open>Make\<close> (and \<open>MakeName\<close>, which only sets a name for the log output as well) initialises
  the peer and starts the ticker and the applier; the applier starts at the top of its loop.
\<close>

definition Make :: "clock \<Rightarrow> clock \<Rightarrow> nat \<Rightarrow> int \<Rightarrow> ('c, 's) Persister \<Rightarrow> ('c, 's) Raft go" where
  "Make clk clk' n m ps = initL clk clk' n m ps"

end
