(* ===== verification/Raft_Frame.thy ===== *)
theory Raft_Frame
  imports Raft_Server
begin

text \<open>
  What the small state changes of a peer leave alone (frame lemmas, used as rewrite rules
  everywhere below), the persistence round trip, and the shape invariant \<open>wf_raft\<close> of a
  peer with the proof that every handler keeps it and returns.
\<close>

subsection \<open>Frame lemmas\<close>

lemma persistL_frame [simp]:
  "peers (persistL rf) = peers rf" "me (persistL rf) = me rf" "dead (persistL rf) = dead rf"
  "currentTerm (persistL rf) = currentTerm rf" "votedFor (persistL rf) = votedFor rf"
  "rlog (persistL rf) = rlog rf" "rsnapshot (persistL rf) = rsnapshot rf"
  "commitIndex (persistL rf) = commitIndex rf" "lastApplied (persistL rf) = lastApplied rf"
  "nextIndex (persistL rf) = nextIndex rf" "matchIndex (persistL rf) = matchIndex rf"
  "rrole (persistL rf) = rrole rf" "electionTimeout (persistL rf) = electionTimeout rf"
  "applyCond (persistL rf) = applyCond rf" "applySnapshot (persistL rf) = applySnapshot rf"
  "leaderId (persistL rf) = leaderId rf"
  by (simp_all add: persistL_def)

lemma resetElectionTimeoutL_frame [simp]:
  "peers (resetElectionTimeoutL c b rf) = peers rf" "me (resetElectionTimeoutL c b rf) = me rf"
  "dead (resetElectionTimeoutL c b rf) = dead rf"
  "persister (resetElectionTimeoutL c b rf) = persister rf"
  "currentTerm (resetElectionTimeoutL c b rf) = currentTerm rf"
  "votedFor (resetElectionTimeoutL c b rf) = votedFor rf"
  "rlog (resetElectionTimeoutL c b rf) = rlog rf"
  "rsnapshot (resetElectionTimeoutL c b rf) = rsnapshot rf"
  "commitIndex (resetElectionTimeoutL c b rf) = commitIndex rf"
  "lastApplied (resetElectionTimeoutL c b rf) = lastApplied rf"
  "nextIndex (resetElectionTimeoutL c b rf) = nextIndex rf"
  "matchIndex (resetElectionTimeoutL c b rf) = matchIndex rf"
  "rrole (resetElectionTimeoutL c b rf) = rrole rf"
  "applyCond (resetElectionTimeoutL c b rf) = applyCond rf"
  "applySnapshot (resetElectionTimeoutL c b rf) = applySnapshot rf"
  "leaderId (resetElectionTimeoutL c b rf) = leaderId rf"
  by (simp_all add: resetElectionTimeoutL_def Let_def)

lemma becomeFollowerL_frame [simp]:
  "peers (becomeFollowerL t rf) = peers rf" "me (becomeFollowerL t rf) = me rf"
  "dead (becomeFollowerL t rf) = dead rf"
  "currentTerm (becomeFollowerL t rf) = t" "votedFor (becomeFollowerL t rf) = NA"
  "rlog (becomeFollowerL t rf) = rlog rf" "rsnapshot (becomeFollowerL t rf) = rsnapshot rf"
  "commitIndex (becomeFollowerL t rf) = commitIndex rf"
  "lastApplied (becomeFollowerL t rf) = lastApplied rf"
  "nextIndex (becomeFollowerL t rf) = nextIndex rf" "matchIndex (becomeFollowerL t rf) = matchIndex rf"
  "rrole (becomeFollowerL t rf) = Follower" "applyCond (becomeFollowerL t rf) = applyCond rf"
  "applySnapshot (becomeFollowerL t rf) = applySnapshot rf"
  "leaderId (becomeFollowerL t rf) = leaderId rf"
  by (simp_all add: becomeFollowerL_def)

lemma applySignalL_frame [simp]:
  "peers (applySignalL rf) = peers rf" "me (applySignalL rf) = me rf"
  "dead (applySignalL rf) = dead rf" "persister (applySignalL rf) = persister rf"
  "currentTerm (applySignalL rf) = currentTerm rf" "votedFor (applySignalL rf) = votedFor rf"
  "rlog (applySignalL rf) = rlog rf" "rsnapshot (applySignalL rf) = rsnapshot rf"
  "commitIndex (applySignalL rf) = commitIndex rf" "lastApplied (applySignalL rf) = lastApplied rf"
  "nextIndex (applySignalL rf) = nextIndex rf" "matchIndex (applySignalL rf) = matchIndex rf"
  "rrole (applySignalL rf) = rrole rf" "electionTimeout (applySignalL rf) = electionTimeout rf"
  "applySnapshot (applySignalL rf) = applySnapshot rf" "leaderId (applySignalL rf) = leaderId rf"
  by (simp_all add: applySignalL_def split: applier.split)

subsection \<open>Persistence\<close>

text \<open>What the persister holds, read back as \<open>readPersist\<close> reads it.\<close>

definition persisted :: "('c, 's) Raft \<Rightarrow> (int \<times> int \<times> 'c LogEntry list) option" where
  "persisted rf = decodeState (ReadRaftState (persister rf))"

lemma decode_encode [simp]:
  "decodeState (encodeState rf) = Some (currentTerm rf, votedFor rf, rlog rf)"
  by (simp add: decodeState_def encodeState_def)

lemma encodeState_nonempty [simp]: "encodeState rf \<noteq> []"
  by (simp add: encodeState_def)

lemma ReadRaftState_persistL [simp]: "ReadRaftState (persister (persistL rf)) = encodeState rf"
  by (simp add: persistL_def persister.read_save_state)

lemma ReadSnapshot_persistL [simp]:
  "ReadSnapshot (persister (persistL rf)) = snap_Data (rsnapshot rf)"
  by (simp add: persistL_def persister.read_save_snapshot)

lemma persisted_persistL [simp]:
  "persisted (persistL rf) = Some (currentTerm rf, votedFor rf, rlog rf)"
  by (simp add: persisted_def)

lemma persisted_becomeFollowerL [simp]:
  "persisted (becomeFollowerL t rf) = Some (t, NA, rlog rf)"
  by (simp add: becomeFollowerL_def)

lemma persisted_cong: "persister rf = persister rf' \<Longrightarrow> persisted rf = persisted rf'"
  by (simp add: persisted_def)

lemma persisted_resetElectionTimeoutL [simp]:
  "persisted (resetElectionTimeoutL clk b rf) = persisted rf"
  by (rule persisted_cong) simp

text \<open>
  The term and the vote of a peer are on stable storage: either nothing was ever saved and
  they have their initial values, or the last save has them.
\<close>

definition vote_durable :: "('c, 's) Raft \<Rightarrow> bool" where
  "vote_durable rf \<longleftrightarrow>
     (if ReadRaftState (persister rf) = [] then currentTerm rf = 0 \<and> votedFor rf = NA
      else \<exists>es. persisted rf = Some (currentTerm rf, votedFor rf, es) \<and> wf_log es)"

text \<open>The whole persistent state, the log included.\<close>

definition state_durable :: "('c, 's) Raft \<Rightarrow> bool" where
  "state_durable rf \<longleftrightarrow>
     (if ReadRaftState (persister rf) = []
      then currentTerm rf = 0 \<and> votedFor rf = NA \<and> rlog rf = [zeroEntry]
      else persisted rf = Some (currentTerm rf, votedFor rf, rlog rf))"

lemma vote_durable_persistL [simp]: "wf_log (rlog rf) \<Longrightarrow> vote_durable (persistL rf)"
  by (simp add: vote_durable_def)

lemma state_durable_persistL [simp]: "state_durable (persistL rf)"
  by (simp add: state_durable_def)

lemma vote_durable_cong:
  "persister rf = persister rf' \<Longrightarrow> currentTerm rf = currentTerm rf' \<Longrightarrow> votedFor rf = votedFor rf'
     \<Longrightarrow> vote_durable rf = vote_durable rf'"
  by (simp add: vote_durable_def persisted_def)

lemma state_durable_cong:
  "persister rf = persister rf' \<Longrightarrow> currentTerm rf = currentTerm rf' \<Longrightarrow> votedFor rf = votedFor rf'
     \<Longrightarrow> rlog rf = rlog rf' \<Longrightarrow> state_durable rf = state_durable rf'"
  by (simp add: state_durable_def persisted_def)

lemma durable_becomeFollowerL [simp]:
  "wf_log (rlog rf) \<Longrightarrow> vote_durable (becomeFollowerL t rf)"
  "state_durable (becomeFollowerL t rf)"
  by (simp_all add: becomeFollowerL_def)

text \<open>Changes of volatile fields do not matter for what is durable.\<close>

lemma vote_durable_frame [simp]:
  "vote_durable (resetElectionTimeoutL c b rf) = vote_durable rf"
  "vote_durable (applySignalL rf) = vote_durable rf"
  "vote_durable (rf\<lparr>leaderId := l\<rparr>) = vote_durable rf"
  "vote_durable (rf\<lparr>rrole := r\<rparr>) = vote_durable rf"
  "vote_durable (rf\<lparr>rlog := es\<rparr>) = vote_durable rf"
  "vote_durable (rf\<lparr>rsnapshot := sn\<rparr>) = vote_durable rf"
  "vote_durable (rf\<lparr>commitIndex := ci\<rparr>) = vote_durable rf"
  "vote_durable (rf\<lparr>lastApplied := la\<rparr>) = vote_durable rf"
  "vote_durable (rf\<lparr>nextIndex := ni\<rparr>) = vote_durable rf"
  "vote_durable (rf\<lparr>matchIndex := mi\<rparr>) = vote_durable rf"
  "vote_durable (rf\<lparr>applyCond := ac\<rparr>) = vote_durable rf"
  "vote_durable (rf\<lparr>applySnapshot := as\<rparr>) = vote_durable rf"
  "vote_durable (rf\<lparr>dead := d\<rparr>) = vote_durable rf"
  by (rule vote_durable_cong; simp)+

lemma state_durable_frame [simp]:
  "state_durable (resetElectionTimeoutL c b rf) = state_durable rf"
  "state_durable (applySignalL rf) = state_durable rf"
  "state_durable (rf\<lparr>leaderId := l\<rparr>) = state_durable rf"
  "state_durable (rf\<lparr>rrole := r\<rparr>) = state_durable rf"
  "state_durable (rf\<lparr>commitIndex := ci\<rparr>) = state_durable rf"
  "state_durable (rf\<lparr>lastApplied := la\<rparr>) = state_durable rf"
  "state_durable (rf\<lparr>nextIndex := ni\<rparr>) = state_durable rf"
  "state_durable (rf\<lparr>matchIndex := mi\<rparr>) = state_durable rf"
  "state_durable (rf\<lparr>applyCond := ac\<rparr>) = state_durable rf"
  "state_durable (rf\<lparr>applySnapshot := as\<rparr>) = state_durable rf"
  "state_durable (rf\<lparr>dead := d\<rparr>) = state_durable rf"
  by (rule state_durable_cong; simp)+

subsection \<open>The shape of a peer's state\<close>

definition wf_raft :: "('c, 's) Raft \<Rightarrow> bool" where
  "wf_raft rf \<longleftrightarrow>
     wf_log (rlog rf) \<and>
     length (nextIndex rf) = peers rf \<and> length (matchIndex rf) = peers rf \<and>
     LastIncludedIndex (rsnapshot rf) = first_index (rlog rf) \<and>
     LastIncludedTerm (rsnapshot rf) = le_Term (rlog rf ! 0)"

lemma wf_raft_log [simp]: "wf_raft rf \<Longrightarrow> wf_log (rlog rf)"
  by (simp add: wf_raft_def)

lemma wf_raft_cong:
  "rlog rf = rlog rf' \<Longrightarrow> nextIndex rf = nextIndex rf' \<Longrightarrow> matchIndex rf = matchIndex rf'
     \<Longrightarrow> rsnapshot rf = rsnapshot rf' \<Longrightarrow> peers rf = peers rf' \<Longrightarrow> wf_raft rf = wf_raft rf'"
  by (simp add: wf_raft_def)

text \<open>Changes of the other fields keep the shape.\<close>

lemma wf_raft_frame [simp]:
  "wf_raft (persistL rf) = wf_raft rf"
  "wf_raft (resetElectionTimeoutL c b rf) = wf_raft rf"
  "wf_raft (becomeFollowerL t rf) = wf_raft rf"
  "wf_raft (applySignalL rf) = wf_raft rf"
  "wf_raft (rf\<lparr>leaderId := l\<rparr>) = wf_raft rf"
  "wf_raft (rf\<lparr>votedFor := v\<rparr>) = wf_raft rf"
  "wf_raft (rf\<lparr>currentTerm := ct\<rparr>) = wf_raft rf"
  "wf_raft (rf\<lparr>rrole := r\<rparr>) = wf_raft rf"
  "wf_raft (rf\<lparr>dead := d\<rparr>) = wf_raft rf"
  "wf_raft (rf\<lparr>commitIndex := ci\<rparr>) = wf_raft rf"
  "wf_raft (rf\<lparr>lastApplied := la\<rparr>) = wf_raft rf"
  "wf_raft (rf\<lparr>applyCond := ac\<rparr>) = wf_raft rf"
  "wf_raft (rf\<lparr>applySnapshot := as\<rparr>) = wf_raft rf"
  by (rule wf_raft_cong; simp)+

end
