(* ===== verification/Raft_Handlers.thy ===== *)
theory Raft_Handlers
  imports Raft_Frame
begin

text \<open>
  What each handler of a peer computes, on a peer of the right shape. The equations
  unfold a handler to the state and the reply it returns; the lemmas after them give the
  facts about that state that the properties rest on.
\<close>

named_theorems handler_eqs \<open>closed forms of the handlers on well-formed peers\<close>

subsection \<open>RequestVote\<close>

text \<open>The election restriction: the candidate's log is at least as up to date.\<close>

definition up_to_date :: "RequestVoteArgs \<Rightarrow> 'c LogEntry list \<Rightarrow> bool" where
  "up_to_date args es \<longleftrightarrow>
     last_term es < rv_LastLogTerm args \<or>
     (last_term es = rv_LastLogTerm args \<and> last_index es \<le> rv_LastLogIndex args)"

text \<open>The rule of the Raft paper for granting a vote.\<close>

definition grants :: "RequestVoteArgs \<Rightarrow> ('c, 's) Raft \<Rightarrow> bool" where
  "grants args rf \<longleftrightarrow>
     currentTerm rf \<le> rv_Term args \<and>
     (currentTerm rf < rv_Term args \<or> votedFor rf = NA \<or> votedFor rf = rv_CandidateId args) \<and>
     up_to_date args (rlog rf)"

definition stepDown :: "int \<Rightarrow> ('c, 's) Raft \<Rightarrow> ('c, 's) Raft" where
  "stepDown t rf = (if t > currentTerm rf then becomeFollowerL t rf else rf)"

lemma stepDown_frame [simp]:
  "peers (stepDown t rf) = peers rf" "me (stepDown t rf) = me rf" "dead (stepDown t rf) = dead rf"
  "currentTerm (stepDown t rf) = max t (currentTerm rf)"
  "rlog (stepDown t rf) = rlog rf" "rsnapshot (stepDown t rf) = rsnapshot rf"
  "commitIndex (stepDown t rf) = commitIndex rf" "lastApplied (stepDown t rf) = lastApplied rf"
  "nextIndex (stepDown t rf) = nextIndex rf" "matchIndex (stepDown t rf) = matchIndex rf"
  "applyCond (stepDown t rf) = applyCond rf" "applySnapshot (stepDown t rf) = applySnapshot rf"
  "wf_raft (stepDown t rf) = wf_raft rf"
  by (simp_all add: stepDown_def)

lemma stepDown_role:
  "votedFor (stepDown t rf) = (if t > currentTerm rf then NA else votedFor rf)"
  "rrole (stepDown t rf) = (if t > currentTerm rf then Follower else rrole rf)"
  by (simp_all add: stepDown_def)

lemma stepDown_durable:
  "wf_log (rlog rf) \<Longrightarrow> vote_durable rf \<Longrightarrow> vote_durable (stepDown t rf)"
  "state_durable rf \<Longrightarrow> state_durable (stepDown t rf)"
  by (simp_all add: stepDown_def)

lemma RequestVote_eq [handler_eqs]:
  assumes "wf_raft rf"
  shows "RequestVote clk args rf =
    Inr (if grants args rf
         then (resetElectionTimeoutL clk False
                 (persistL ((stepDown (rv_Term args) rf)\<lparr>votedFor := rv_CandidateId args\<rparr>)),
               \<lparr>rvr_Term = rv_Term args, VoteGranted = True\<rparr>)
         else (stepDown (rv_Term args) rf,
               \<lparr>rvr_Term = max (rv_Term args) (currentTerm rf), VoteGranted = False\<rparr>))"
proof -
  have wf: "wf_log (rlog (stepDown (rv_Term args) rf))" using assms by simp
  have utd: "(rv_LastLogTerm args > le_Term (last (rlog rf)) \<or>
            (rv_LastLogTerm args = le_Term (last (rlog rf)) \<and>
             rv_LastLogIndex args \<ge> le_Index (last (rlog rf)))) = up_to_date args (rlog rf)"
    using assms by (auto simp: up_to_date_def last_term_def le_Index_last)
  show ?thesis
    unfolding RequestVote_def Let_def stepDown_def [symmetric] lastLogL_wf [OF wf] gbind_simps
      stepDown_frame utd
    by (auto simp: grants_def stepDown_role max_def)
qed

subsection \<open>AppendEntries: the consistency check\<close>

lemma firstOfTerm_wf:
  assumes "wf_log (rlog rf)" and "first = first_index (rlog rf)" and "i \<le> last_index (rlog rf)"
  shows "\<exists>r. firstOfTerm i first t rf = Inr r \<and> r \<le> i + 1 \<and> min i first \<le> r"
  using assms
proof (induction i first t rf rule: firstOfTerm.induct)
  case (1 index first t rf)
  show ?case
  proof (cases "index > first")
    case True
    then have get: "getLogL index rf = Inr (entry_at (rlog rf) index)"
      using "1.prems" by simp
    show ?thesis
    proof (cases "le_Term (entry_at (rlog rf) index) = t")
      case True
      obtain r where "firstOfTerm (index - 1) first t rf = Inr r"
        and "r \<le> index - 1 + 1" and "min (index - 1) first \<le> r"
        using "1.IH" [OF \<open>index > first\<close> get] "1.prems" True by auto
      then show ?thesis
        using True \<open>index > first\<close> get by (simp add: firstOfTerm.simps [of index])
    next
      case False
      then show ?thesis
        using \<open>index > first\<close> get by (simp add: firstOfTerm.simps [of index])
    qed
  next
    case False
    then show ?thesis by (simp add: firstOfTerm.simps [of index])
  qed
qed

text \<open>The log holds an entry at \<open>PrevLogIndex\<close> with the term \<open>PrevLogTerm\<close>.\<close>

definition prev_ok :: "'c AppendEntriesArgs \<Rightarrow> 'c LogEntry list \<Rightarrow> bool" where
  "prev_ok args es \<longleftrightarrow>
     first_index es \<le> PrevLogIndex args \<and> PrevLogIndex args \<le> last_index es \<and>
     le_Term (entry_at es (PrevLogIndex args)) = PrevLogTerm args"

lemma prevLogConflictL_ok:
  assumes "wf_log (rlog rf)" and "prev_ok args (rlog rf)"
  shows "prevLogConflictL args reply rf = Inr (False, reply)"
  using assms by (simp add: prevLogConflictL_def prev_ok_def le_Index_last)

lemma prevLogConflictL_conflict:
  assumes "wf_log (rlog rf)" and "\<not> prev_ok args (rlog rf)"
  shows "\<exists>reply'. prevLogConflictL args reply rf = Inr (True, reply') \<and>
           aer_Term reply' = aer_Term reply"
proof (cases "first_index (rlog rf) \<le> PrevLogIndex args \<and> PrevLogIndex args \<le> last_index (rlog rf)")
  case True
  obtain r where "firstOfTerm (PrevLogIndex args - 1) (first_index (rlog rf))
      (le_Term (entry_at (rlog rf) (PrevLogIndex args))) rf = Inr r"
    using firstOfTerm_wf [OF assms(1) refl, of "PrevLogIndex args - 1"] True by auto
  with True assms show ?thesis
    by (auto simp: prevLogConflictL_def prev_ok_def le_Index_last)
next
  case False
  with assms show ?thesis
    by (auto simp: prevLogConflictL_def prev_ok_def le_Index_last)
qed

subsection \<open>AppendEntries: merging the entries\<close>

text \<open>
  The rule of the Raft paper: entries the log already has are kept; at the first one it
  lacks or disagrees with, the rest of the log is replaced by the rest of the entries.
\<close>

fun merge_log :: "'c LogEntry list \<Rightarrow> int \<Rightarrow> 'c LogEntry list \<Rightarrow> 'c LogEntry list" where
  "merge_log es i [] = es"
| "merge_log es i (e # new) =
     (if i \<le> last_index es \<and> le_Term (entry_at es i) = le_Term e
      then merge_log es (i + 1) new
      else take (nat (i - first_index es)) es @ e # new)"

definition agrees :: "'c LogEntry list \<Rightarrow> int \<Rightarrow> 'c LogEntry list \<Rightarrow> bool" where
  "agrees es i new \<longleftrightarrow>
     (\<forall>k < length new. i + int k \<le> last_index es \<and>
        le_Term (entry_at es (i + int k)) = le_Term (new ! k))"

lemma agrees_Cons:
  "agrees es i (e # new) \<longleftrightarrow>
     i \<le> last_index es \<and> le_Term (entry_at es i) = le_Term e \<and> agrees es (i + 1) new"
  by (auto simp: agrees_def nth_Cons' less_Suc_eq_0_disj algebra_simps)

lemma merge_log_agrees: "agrees es i new \<Longrightarrow> merge_log es i new = es"
  by (induction new arbitrary: i) (auto simp: agrees_Cons)

text \<open>
  At the first entry that the log lacks or has with another term, the rest of the log goes and the rest of the entries
  comes in its place.
\<close>

lemma merge_log_conflict:
  assumes "k < length new" and "agrees es i (take k new)" and "\<not> agrees es i (take (Suc k) new)"
  shows "merge_log es i new = take (nat (i + int k - first_index es)) es @ drop k new"
  using assms
proof (induction new arbitrary: i k)
  case (Cons e new)
  show ?case
  proof (cases k)
    case 0
    then show ?thesis using Cons.prems by (auto simp: agrees_Cons) (auto simp: agrees_def)
  next
    case (Suc k')
    then show ?thesis using Cons.prems Cons.IH [of k' "i + 1"] by (simp add: agrees_Cons algebra_simps)
  qed
qed simp

lemma appendNewL_eq [handler_eqs]:
  assumes "wf_log (rlog rf)" and "first_index (rlog rf) < i" and "i \<le> last_index (rlog rf) + 1"
  shows "appendNewL i new rf =
    Inr (if agrees (rlog rf) i new then rf else persistL (rf\<lparr>rlog := merge_log (rlog rf) i new\<rparr>))"
  using assms
proof (induction new arbitrary: i)
  case Nil
  then show ?case by (simp add: agrees_def)
next
  case (Cons e new)
  show ?case
  proof (cases "i \<le> last_index (rlog rf) \<and> le_Term (entry_at (rlog rf) i) = le_Term e")
    case True
    with Cons.IH [of "i + 1"] Cons.prems show ?thesis
      by (simp add: agrees_Cons le_Index_last)
  next
    case False
    have "i - first_index (rlog rf) \<le> int (length (rlog rf))"
      using Cons.prems by (simp add: last_index_def)
    with False Cons.prems show ?thesis
      by (auto simp: agrees_Cons le_Index_last)
  qed
qed

lemma merge_log_take:
  assumes "wf_log es" and "first_index es < i" and "i \<le> last_index es + 1"
  shows "take (nat (i - first_index es)) (merge_log es i new) = take (nat (i - first_index es)) es"
  using assms
proof (induction new arbitrary: i)
  case (Cons e new)
  let ?n = "nat (i - first_index es)"
  have len: "?n \<le> length es" using Cons.prems by (simp add: last_index_def)
  show ?case
  proof (cases "i \<le> last_index es \<and> le_Term (entry_at es i) = le_Term e")
    case True
    have "take ?n (merge_log es (i + 1) new) =
        take ?n (take (nat (i + 1 - first_index es)) (merge_log es (i + 1) new))"
      using Cons.prems by (simp add: min_def)
    also have "\<dots> = take ?n (take (nat (i + 1 - first_index es)) es)"
      using Cons.IH [of "i + 1"] Cons.prems True by simp
    finally show ?thesis using True Cons.prems by (simp add: min_def)
  next
    case False
    then show ?thesis using len by auto
  qed
qed simp

lemma merge_log_first:
  assumes "wf_log es" and "first_index es < i" and "i \<le> last_index es + 1"
  shows "first_index (merge_log es i new) = first_index es"
proof -
  have "merge_log es i new ! 0 = take (nat (i - first_index es)) (merge_log es i new) ! 0"
    using assms by simp
  also have "\<dots> = es ! 0" using assms by (simp add: merge_log_take)
  finally show ?thesis by (simp add: first_index_def)
qed

lemma merge_log_wf:
  assumes "wf_log es" and "first_index es < i" and "i \<le> last_index es + 1" and "consecutive i new"
  shows "wf_log (merge_log es i new)"
  using assms
proof (induction new arbitrary: i)
  case (Cons e new)
  show ?case
  proof (cases "i \<le> last_index es \<and> le_Term (entry_at es i) = le_Term e")
    case True
    with Cons show ?thesis by simp
  next
    case False
    let ?n = "nat (i - first_index es)"
    have n: "0 < ?n" "?n \<le> length es" using Cons.prems by (auto simp: last_index_def)
    have "last_index (take ?n es) + 1 = i"
      using n by (simp add: last_index_def)
    then have "wf_log (take ?n es @ e # new)"
      using Cons.prems n by (intro wf_log_append wf_log_take) auto
    with False show ?thesis by auto
  qed
qed simp

text \<open>Entries before the merge point stay; each of the merged indices gets the sent term.\<close>

lemma merge_log_below:
  assumes "wf_log es" and "first_index es < i" and "i \<le> last_index es + 1"
    and "first_index es \<le> j" and "j < i"
  shows "entry_at (merge_log es i new) j = entry_at es j"
proof -
  let ?n = "nat (i - first_index es)" and ?k = "nat (j - first_index es)"
  have "?k < ?n" using assms by simp
  then have "merge_log es i new ! ?k = take ?n (merge_log es i new) ! ?k" by simp
  also have "\<dots> = es ! ?k" using assms \<open>?k < ?n\<close> by (simp add: merge_log_take)
  finally show ?thesis using assms by (simp add: entry_at_def merge_log_first)
qed

lemma merge_log_terms:
  assumes "wf_log es" and "first_index es < i" and "i \<le> last_index es + 1" and "consecutive i new"
  shows "agrees (merge_log es i new) i new"
  using assms
proof (induction new arbitrary: i)
  case Nil
  then show ?case by (simp add: agrees_def)
next
  case (Cons e new)
  show ?case
  proof (cases "i \<le> last_index es \<and> le_Term (entry_at es i) = le_Term e")
    case True
    have IH: "agrees (merge_log es (i + 1) new) (i + 1) new"
      using Cons.IH [of "i + 1"] Cons.prems True by simp
    have below: "entry_at (merge_log es (i + 1) new) i = entry_at es i"
      using Cons.prems True by (intro merge_log_below) auto
    have "last_index es \<le> last_index (merge_log es (i + 1) new) \<or>
          i \<le> last_index (merge_log es (i + 1) new)"
    proof (cases new)
      case (Cons e' new')
      with IH show ?thesis by (auto simp: agrees_Cons)
    qed simp
    with True IH below show ?thesis by (auto simp: agrees_Cons)
  next
    case False
    let ?n = "nat (i - first_index es)"
    have n: "0 < ?n" "?n \<le> length es" using Cons.prems by (auto simp: last_index_def)
    then have fi: "first_index (take ?n es @ e # new) = first_index es"
      by (metis first_index_append first_index_take length_greater_0_conv order_less_le_trans
          take_eq_Nil2 less_numeral_extra(3))
    have "agrees (take ?n es @ e # new) i (e # new)"
      unfolding agrees_def
    proof (intro allI impI conjI)
      fix k assume k: "k < length (e # new)"
      show "i + int k \<le> last_index (take ?n es @ e # new)"
        using k n fi by (simp add: last_index_def)
      have "nat (i + int k - first_index es) = ?n + k"
        using Cons.prems by simp
      then show "le_Term (entry_at (take ?n es @ e # new) (i + int k)) = le_Term ((e # new) ! k)"
        using n fi by (simp add: entry_at_def nth_append)
    qed
    with False show ?thesis by auto
  qed
qed

subsection \<open>AppendEntries: the whole handler\<close>

text \<open>The part of the handler before the log is looked at.\<close>

definition hearLeader :: "clock \<Rightarrow> 'c AppendEntriesArgs \<Rightarrow> ('c, 's) Raft \<Rightarrow> ('c, 's) Raft" where
  "hearLeader clk args rf =
     (let rf = stepDown (ae_Term args) rf;
          rf = (if rrole rf = Candidate \<and> ae_Term args \<ge> currentTerm rf
                then becomeFollowerL (ae_Term args) rf else rf)
      in if ae_Term args \<ge> currentTerm rf
         then (resetElectionTimeoutL clk False rf)\<lparr>leaderId := ae_LeaderId args\<rparr> else rf)"

lemma hearLeader_frame [simp]:
  "peers (hearLeader clk args rf) = peers rf" "me (hearLeader clk args rf) = me rf"
  "dead (hearLeader clk args rf) = dead rf"
  "currentTerm (hearLeader clk args rf) = max (ae_Term args) (currentTerm rf)"
  "rlog (hearLeader clk args rf) = rlog rf" "rsnapshot (hearLeader clk args rf) = rsnapshot rf"
  "commitIndex (hearLeader clk args rf) = commitIndex rf"
  "lastApplied (hearLeader clk args rf) = lastApplied rf"
  "nextIndex (hearLeader clk args rf) = nextIndex rf"
  "matchIndex (hearLeader clk args rf) = matchIndex rf"
  "applyCond (hearLeader clk args rf) = applyCond rf"
  "applySnapshot (hearLeader clk args rf) = applySnapshot rf"
  by (auto simp: hearLeader_def Let_def)

lemma hearLeader_wf [simp]: "wf_raft (hearLeader clk args rf) = wf_raft rf"
  by (rule wf_raft_cong) simp_all

text \<open>A candidate that hears of a leader of its own term gives its vote back.\<close>

lemma hearLeader_role:
  "votedFor (hearLeader clk args rf) =
     (if ae_Term args > currentTerm rf \<or> (ae_Term args = currentTerm rf \<and> rrole rf = Candidate)
      then NA else votedFor rf)"
  "rrole (hearLeader clk args rf) =
     (if ae_Term args > currentTerm rf \<or> (ae_Term args = currentTerm rf \<and> rrole rf = Candidate)
      then Follower else rrole rf)"
  by (auto simp: hearLeader_def stepDown_role Let_def)

lemma hearLeader_durable:
  assumes "wf_log (rlog rf)"
  shows "vote_durable rf \<Longrightarrow> vote_durable (hearLeader clk args rf)"
    and "state_durable rf \<Longrightarrow> state_durable (hearLeader clk args rf)"
  using assms
  by (simp_all add: hearLeader_def Let_def stepDown_durable)

text \<open>The state after the entries are merged and the commit index is moved.\<close>

definition takeEntries :: "'c AppendEntriesArgs \<Rightarrow> ('c, 's) Raft \<Rightarrow> ('c, 's) Raft" where
  "takeEntries args rf =
     (let i = PrevLogIndex args + 1;
          rf = (if agrees (rlog rf) i (Entries args) then rf
                else persistL (rf\<lparr>rlog := merge_log (rlog rf) i (Entries args)\<rparr>))
      in if LeaderCommit args > commitIndex rf
         then applySignalL (rf\<lparr>commitIndex := min (LeaderCommit args) (last_index (rlog rf))\<rparr>)
         else rf)"

lemma takeEntries_frame [simp]:
  "peers (takeEntries args rf) = peers rf" "me (takeEntries args rf) = me rf"
  "dead (takeEntries args rf) = dead rf"
  "currentTerm (takeEntries args rf) = currentTerm rf" "votedFor (takeEntries args rf) = votedFor rf"
  "rlog (takeEntries args rf) = merge_log (rlog rf) (PrevLogIndex args + 1) (Entries args)"
  "rsnapshot (takeEntries args rf) = rsnapshot rf"
  "lastApplied (takeEntries args rf) = lastApplied rf"
  "nextIndex (takeEntries args rf) = nextIndex rf" "matchIndex (takeEntries args rf) = matchIndex rf"
  "rrole (takeEntries args rf) = rrole rf" "electionTimeout (takeEntries args rf) = electionTimeout rf"
  "applySnapshot (takeEntries args rf) = applySnapshot rf" "leaderId (takeEntries args rf) = leaderId rf"
  by (auto simp: takeEntries_def Let_def merge_log_agrees)

lemma takeEntries_commit:
  "commitIndex (takeEntries args rf) =
     (if LeaderCommit args > commitIndex rf
      then min (LeaderCommit args) (last_index (rlog (takeEntries args rf)))
      else commitIndex rf)"
  by (auto simp: takeEntries_def Let_def merge_log_agrees)

definition wf_append :: "'c AppendEntriesArgs \<Rightarrow> bool" where
  "wf_append args \<longleftrightarrow> consecutive (PrevLogIndex args + 1) (Entries args)"

lemma takeEntries_wf:
  assumes "wf_raft rf" and "prev_ok args (rlog rf)" and "wf_append args"
  shows "wf_raft (takeEntries args rf)"
proof -
  let ?i = "PrevLogIndex args + 1"
  have i: "first_index (rlog rf) < ?i" "?i \<le> last_index (rlog rf) + 1"
    using assms(2) by (auto simp: prev_ok_def)
  have "wf_log (merge_log (rlog rf) ?i (Entries args))"
    using assms i by (intro merge_log_wf) (auto simp: wf_append_def)
  moreover have "merge_log (rlog rf) ?i (Entries args) ! 0 = rlog rf ! 0"
  proof -
    have "take (nat (?i - first_index (rlog rf))) (merge_log (rlog rf) ?i (Entries args)) ! 0 =
      take (nat (?i - first_index (rlog rf))) (rlog rf) ! 0"
      using assms(1) i by (subst merge_log_take) auto
    then show ?thesis using i by simp
  qed
  ultimately show ?thesis
    using assms i by (simp add: wf_raft_def merge_log_first)
qed

lemma takeEntries_durable:
  assumes "wf_raft rf" and "prev_ok args (rlog rf)" and "wf_append args"
  shows "vote_durable rf \<Longrightarrow> vote_durable (takeEntries args rf)"
    and "state_durable rf \<Longrightarrow> state_durable (takeEntries args rf)"
proof -
  have wf: "wf_log (merge_log (rlog rf) (PrevLogIndex args + 1) (Entries args))"
    using wf_raft_log [OF takeEntries_wf [OF assms]] by simp
  show "vote_durable rf \<Longrightarrow> vote_durable (takeEntries args rf)"
    using wf by (simp add: takeEntries_def Let_def)
  show "state_durable rf \<Longrightarrow> state_durable (takeEntries args rf)"
    by (simp add: takeEntries_def Let_def)
qed

lemma AppendEntries_stale:
  assumes "wf_raft rf" and "ae_Term args < currentTerm rf"
  shows "AppendEntries clk args rf =
    Inr (rf, \<lparr>aer_Term = currentTerm rf, Success = False, ConflictTerm = 0, ConflictFirstIndex = 0\<rparr>)"
  using assms by (simp add: AppendEntries_def processAppendEntriesL_def)

lemma AppendEntries_hearLeader:
  "AppendEntries clk args rf = processAppendEntriesL args (hearLeader clk args rf)"
  by (simp add: AppendEntries_def hearLeader_def stepDown_def Let_def)

lemma AppendEntries_conflict:
  assumes "wf_raft rf" and "currentTerm rf \<le> ae_Term args" and "\<not> prev_ok args (rlog rf)"
  shows "\<exists>reply. AppendEntries clk args rf = Inr (hearLeader clk args rf, reply) \<and>
           \<not> Success reply \<and> aer_Term reply = ae_Term args"
proof -
  let ?rf = "hearLeader clk args rf"
  obtain reply' where "prevLogConflictL args
      \<lparr>aer_Term = ae_Term args, Success = True, ConflictTerm = 0, ConflictFirstIndex = 0\<rparr> ?rf =
      Inr (True, reply')" and "aer_Term reply' = ae_Term args"
    using prevLogConflictL_conflict [of ?rf args
        "\<lparr>aer_Term = ae_Term args, Success = True, ConflictTerm = 0, ConflictFirstIndex = 0\<rparr>"] assms
    by auto
  with assms show ?thesis
    by (simp add: AppendEntries_hearLeader processAppendEntriesL_def max_def)
qed

lemma AppendEntries_accept:
  assumes "wf_raft rf" and "currentTerm rf \<le> ae_Term args" and "prev_ok args (rlog rf)"
    and "wf_append args"
  shows "AppendEntries clk args rf =
    Inr (takeEntries args (hearLeader clk args rf),
         \<lparr>aer_Term = ae_Term args, Success = True, ConflictTerm = 0, ConflictFirstIndex = 0\<rparr>)"
proof -
  let ?rf = "hearLeader clk args rf" and ?i = "PrevLogIndex args + 1"
  have i: "first_index (rlog rf) < ?i" "?i \<le> last_index (rlog rf) + 1"
    using assms(3) by (auto simp: prev_ok_def)
  have wf: "wf_log (merge_log (rlog rf) ?i (Entries args))"
    using assms i by (intro merge_log_wf) (auto simp: wf_append_def)
  have app: "appendNewL ?i (Entries args) ?rf =
    Inr (if agrees (rlog rf) ?i (Entries args) then ?rf
         else persistL (?rf\<lparr>rlog := merge_log (rlog rf) ?i (Entries args)\<rparr>))"
    using appendNewL_eq [of ?rf ?i "Entries args"] assms(1) i by simp
  show ?thesis
    using assms wf
    by (auto simp: AppendEntries_hearLeader processAppendEntriesL_def prevLogConflictL_ok app
        takeEntries_def Let_def le_Index_last max_def)
qed

lemma AppendEntries_returns:
  assumes "wf_raft rf" and "wf_append args"
  shows "\<exists>rf' reply. AppendEntries clk args rf = Inr (rf', reply) \<and> wf_raft rf'"
proof -
  consider "ae_Term args < currentTerm rf"
    | "currentTerm rf \<le> ae_Term args" "\<not> prev_ok args (rlog rf)"
    | "currentTerm rf \<le> ae_Term args" "prev_ok args (rlog rf)"
    by linarith
  then show ?thesis
  proof cases
    case 1
    with assms show ?thesis by (simp add: AppendEntries_stale)
  next
    case 2
    with assms AppendEntries_conflict [of rf args clk] show ?thesis by force
  next
    case 3
    with assms show ?thesis by (simp add: AppendEntries_accept takeEntries_wf)
  qed
qed

subsection \<open>InstallSnapshot\<close>

definition hearInstaller :: "clock \<Rightarrow> 's InstallSnapshotArgs \<Rightarrow> ('c, 's) Raft \<Rightarrow> ('c, 's) Raft" where
  "hearInstaller clk args rf =
     (let rf = stepDown (is_Term args) rf
      in if is_Term args \<ge> currentTerm rf
         then (resetElectionTimeoutL clk False rf)\<lparr>leaderId := is_LeaderId args\<rparr> else rf)"

lemma hearInstaller_frame [simp]:
  "peers (hearInstaller clk args rf) = peers rf" "me (hearInstaller clk args rf) = me rf"
  "dead (hearInstaller clk args rf) = dead rf"
  "currentTerm (hearInstaller clk args rf) = max (is_Term args) (currentTerm rf)"
  "rlog (hearInstaller clk args rf) = rlog rf" "rsnapshot (hearInstaller clk args rf) = rsnapshot rf"
  "commitIndex (hearInstaller clk args rf) = commitIndex rf"
  "lastApplied (hearInstaller clk args rf) = lastApplied rf"
  "nextIndex (hearInstaller clk args rf) = nextIndex rf"
  "matchIndex (hearInstaller clk args rf) = matchIndex rf"
  "applyCond (hearInstaller clk args rf) = applyCond rf"
  "applySnapshot (hearInstaller clk args rf) = applySnapshot rf"
  "persister (hearInstaller clk args rf) = persister (stepDown (is_Term args) rf)"
  "votedFor (hearInstaller clk args rf) = votedFor (stepDown (is_Term args) rf)"
  "rrole (hearInstaller clk args rf) = rrole (stepDown (is_Term args) rf)"
  by (auto simp: hearInstaller_def Let_def)

lemma hearInstaller_wf [simp]: "wf_raft (hearInstaller clk args rf) = wf_raft rf"
  by (rule wf_raft_cong) simp_all

text \<open>The log after a snapshot is installed: what follows the snapshot, if the log agrees with it.\<close>

definition snapshot_log :: "'s Snapshot \<Rightarrow> 'c LogEntry list \<Rightarrow> 'c LogEntry list" where
  "snapshot_log snap es =
     (if LastIncludedIndex snap \<le> last_index es \<and>
         le_Term (entry_at es (LastIncludedIndex snap)) = LastIncludedTerm snap
      then drop (nat (LastIncludedIndex snap - first_index es)) es
      else [\<lparr>le_Command = None, le_Index = LastIncludedIndex snap,
             le_Term = LastIncludedTerm snap\<rparr>])"

lemma snapshot_log_wf:
  assumes "wf_log es" and "first_index es < LastIncludedIndex snap"
  shows "wf_log (snapshot_log snap es)"
    and "first_index (snapshot_log snap es) = LastIncludedIndex snap"
    and "le_Term (snapshot_log snap es ! 0) = LastIncludedTerm snap"
    and "LastIncludedIndex snap \<le> last_index (snapshot_log snap es)"
proof -
  let ?k = "nat (LastIncludedIndex snap - first_index es)"
  have k: "LastIncludedIndex snap \<le> last_index es \<Longrightarrow> ?k < length es"
    using assms by (simp add: last_index_def)
  show wf: "wf_log (snapshot_log snap es)"
    using assms k by (auto simp: snapshot_log_def intro: wf_log_drop)
  show fi: "first_index (snapshot_log snap es) = LastIncludedIndex snap"
    using assms k by (auto simp: snapshot_log_def first_index_drop)
  show "le_Term (snapshot_log snap es ! 0) = LastIncludedTerm snap"
    using assms k by (auto simp: snapshot_log_def entry_at_def)
  show "LastIncludedIndex snap \<le> last_index (snapshot_log snap es)"
    using first_le_last [OF wf] fi by simp
qed

lemma InstallSnapshot_ignored:
  assumes "wf_raft rf"
    and "is_Term args < currentTerm rf \<or> LastIncludedIndex (is_Snapshot args) \<le> first_index (rlog rf)"
  shows "InstallSnapshot clk args rf =
    Inr (hearInstaller clk args rf, \<lparr>isr_Term = max (is_Term args) (currentTerm rf)\<rparr>)"
proof -
  have "wf_log (rlog (hearInstaller clk args rf))" using assms by simp
  with assms(2) show ?thesis
    unfolding InstallSnapshot_def stepDown_def [symmetric] Let_def
      hearInstaller_def [unfolded Let_def, symmetric]
    by auto
qed

lemma InstallSnapshot_install:
  assumes "wf_raft rf" and "currentTerm rf \<le> is_Term args"
    and "first_index (rlog rf) < LastIncludedIndex (is_Snapshot args)"
  shows "InstallSnapshot clk args rf =
    Inr (applySignalL ((hearInstaller clk args rf)
           \<lparr>rsnapshot := is_Snapshot args, rlog := snapshot_log (is_Snapshot args) (rlog rf),
            applySnapshot := True\<rparr>), \<lparr>isr_Term = is_Term args\<rparr>)"
proof -
  let ?rf = "hearInstaller clk args rf"
  have wf: "wf_log (rlog ?rf)" using assms by simp
  show ?thesis
    unfolding InstallSnapshot_def stepDown_def [symmetric] Let_def
      hearInstaller_def [unfolded Let_def, symmetric]
    using assms(2,3) wf
    by (auto simp: snapshot_log_def le_Index_last max_def)
qed

lemma InstallSnapshot_returns:
  assumes "wf_raft rf"
  shows "\<exists>rf' reply. InstallSnapshot clk args rf = Inr (rf', reply) \<and> wf_raft rf'"
proof (cases "is_Term args < currentTerm rf \<or>
    LastIncludedIndex (is_Snapshot args) \<le> first_index (rlog rf)")
  case True
  with assms show ?thesis by (simp add: InstallSnapshot_ignored)
next
  case False
  with assms snapshot_log_wf [of "rlog rf" "is_Snapshot args"] show ?thesis
    by (simp add: InstallSnapshot_install wf_raft_def)
qed

end
