(* ===== verification/Raft_Leader.thy ===== *)
theory Raft_Leader
  imports Raft_Handlers
begin

text \<open>
  Candidates, leaders, the interface for the service and the start of a peer: what these
  operations compute on a peer of the right shape.
\<close>

subsection \<open>Elections\<close>

lemma setAll_eq: "n \<le> length xs \<Longrightarrow> setAll n v xs = Inr (replicate n v @ drop n xs)"
proof (induction n)
  case (Suc n)
  then have "setAll n v xs = Inr (replicate n v @ drop n xs)" by simp
  moreover have "drop n xs = xs ! n # drop (Suc n) xs"
    using Suc.prems by (simp add: Cons_nth_drop_Suc)
  ultimately show ?case
    using Suc.prems by (simp add: list_update_append replicate_append_same)
qed simp

lemma setAll_whole [simp]: "length xs = n \<Longrightarrow> setAll n v xs = Inr (replicate n v)"
  by (simp add: setAll_eq)

definition voteArgs :: "('c, 's) Raft \<Rightarrow> RequestVoteArgs" where
  "voteArgs rf = \<lparr>rv_Term = currentTerm rf, rv_CandidateId = me rf,
     rv_LastLogIndex = last_index (rlog rf), rv_LastLogTerm = last_term (rlog rf)\<rparr>"

definition candidate :: "clock \<Rightarrow> ('c, 's) Raft \<Rightarrow> ('c, 's) Raft" where
  "candidate clk rf = resetElectionTimeoutL clk False
     (persistL (rf\<lparr>rrole := Candidate, currentTerm := currentTerm rf + 1,
                   votedFor := me rf, leaderId := NA\<rparr>))"

lemma candidate_frame [simp]:
  "peers (candidate clk rf) = peers rf" "me (candidate clk rf) = me rf"
  "dead (candidate clk rf) = dead rf"
  "currentTerm (candidate clk rf) = currentTerm rf + 1" "votedFor (candidate clk rf) = me rf"
  "rrole (candidate clk rf) = Candidate" "rlog (candidate clk rf) = rlog rf"
  "wf_raft (candidate clk rf) = wf_raft rf"
  "commitIndex (candidate clk rf) = commitIndex rf" "lastApplied (candidate clk rf) = lastApplied rf"
  by (simp_all add: candidate_def)

lemma candidate_durable [simp]:
  "wf_log (rlog rf) \<Longrightarrow> vote_durable (candidate clk rf)"
  "state_durable (candidate clk rf)"
  by (simp_all add: candidate_def)

lemma becomeCandidateL_eq [handler_eqs]:
  assumes "wf_raft rf"
  shows "becomeCandidateL clk rf =
    Inr (candidate clk rf,
         map (\<lambda>i. RequestTask i (voteArgs (candidate clk rf))) (otherPeers (candidate clk rf)))"
  using assms
  by (simp add: becomeCandidateL_def requestsL_def Let_def candidate_def [symmetric] voteArgs_def
      le_Index_last last_term_def)

definition leader :: "('c, 's) Raft \<Rightarrow> ('c, 's) Raft" where
  "leader rf = rf\<lparr>nextIndex := replicate (peers rf) (last_index (rlog rf) + 1),
                  matchIndex := replicate (peers rf) 0, rrole := Leader\<rparr>"

lemma becomeLeaderL_eq [handler_eqs]:
  assumes "wf_raft rf"
  shows "becomeLeaderL rf = Inr (leader rf, heartbeatsL (leader rf))"
proof -
  have "length (nextIndex rf) = peers rf" "length (matchIndex rf) = peers rf" "wf_log (rlog rf)"
    using assms by (auto simp: wf_raft_def)
  then show ?thesis by (simp add: becomeLeaderL_def leader_def Let_def le_Index_last)
qed

lemma leader_wf: "wf_raft rf \<Longrightarrow> wf_raft (leader rf)"
  by (simp add: wf_raft_def leader_def)

lemma leader_frame [simp]:
  "peers (leader rf) = peers rf" "me (leader rf) = me rf" "currentTerm (leader rf) = currentTerm rf"
  "votedFor (leader rf) = votedFor rf" "rrole (leader rf) = Leader" "rlog (leader rf) = rlog rf"
  "vote_durable (leader rf) = vote_durable rf" "state_durable (leader rf) = state_durable rf"
  by (simp_all add: leader_def)

lemma processRequestReplyL_eq [handler_eqs]:
  assumes "wf_raft rf"
  shows "processRequestReplyL args reply votes rf =
    Inr (if currentTerm rf = rv_Term args \<and> rrole rf = Candidate then
           if VoteGranted reply then
             if votes + 1 > nPeers rf div 2
             then (leader rf, votes + 1, heartbeatsL (leader rf))
             else (rf, votes + 1, [])
           else (stepDown (rvr_Term reply) rf, votes, [])
         else (rf, votes, []))"
  using assms by (simp add: processRequestReplyL_def becomeLeaderL_eq stepDown_def)

subsection \<open>Replication\<close>

lemma makeAppendArgsL_eq [handler_eqs]:
  assumes "wf_raft rf" and "0 \<le> server" and "server < nPeers rf"
    and "nextIndex rf ! nat server = nx"
    and "first_index (rlog rf) < nx" and "nx \<le> last_index (rlog rf) + 1"
  shows "makeAppendArgsL server rf =
    Inr \<lparr>ae_Term = currentTerm rf, ae_LeaderId = me rf, PrevLogIndex = nx - 1,
         PrevLogTerm = le_Term (entry_at (rlog rf) (nx - 1)),
         Entries = drop (nat (nx - first_index (rlog rf))) (rlog rf),
         LeaderCommit = commitIndex rf\<rparr>"
proof -
  have i: "idx (nextIndex rf) server = Inr nx"
    using assms by (simp add: wf_raft_def nPeers_def)
  show ?thesis
  proof (cases "nx \<le> last_index (rlog rf)")
    case True
    then have "nx - first_index (rlog rf) \<le> int (length (rlog rf))"
      by (simp add: last_index_def)
    with True i assms show ?thesis by (simp add: makeAppendArgsL_def le_Index_last)
  next
    case False
    then have "drop (nat (nx - first_index (rlog rf))) (rlog rf) = []"
      by (simp add: last_index_def)
    with False i assms show ?thesis by (simp add: makeAppendArgsL_def le_Index_last)
  qed
qed

lemma updateMatchAndNextL_eq [handler_eqs]:
  assumes "wf_raft rf" and "0 \<le> server" and "server < nPeers rf"
  shows "updateMatchAndNextL server m rf =
    Inr (rf\<lparr>matchIndex := (matchIndex rf)[nat server := max m (matchIndex rf ! nat server)],
            nextIndex := (nextIndex rf)[nat server := max (m + 1) (nextIndex rf ! nat server)]\<rparr>)"
proof -
  have len: "server < int (length (matchIndex rf))" "server < int (length (nextIndex rf))"
    using assms by (auto simp: wf_raft_def nPeers_def)
  have same: "max a b = b \<Longrightarrow> xs ! nat server = b \<Longrightarrow> xs[nat server := max a b] = xs" for a b :: int and xs
    by (metis list_update_id)
  show ?thesis
    using assms len
    by (cases "m > matchIndex rf ! nat server"; cases "m \<ge> nextIndex rf ! nat server")
      (simp_all add: updateMatchAndNextL_def same max_def)
qed

lemma lastOfTerm_wf:
  assumes "wf_log (rlog rf)" and "first_index (rlog rf) < minIndex" and "i \<le> last_index (rlog rf)"
  shows "\<exists>r. lastOfTerm i minIndex t rf = Inr r \<and> r \<le> i + 1 \<and> min i (minIndex - 1) \<le> r"
  using assms
proof (induction i minIndex t rf rule: lastOfTerm.induct)
  case (1 index minIndex t rf)
  show ?case
  proof (cases "index \<ge> minIndex")
    case True
    then have get: "getLogL index rf = Inr (entry_at (rlog rf) index)"
      using "1.prems" by simp
    show ?thesis
    proof (cases "le_Term (entry_at (rlog rf) index) = t")
      case True
      then show ?thesis
        using \<open>index \<ge> minIndex\<close> get by (simp add: lastOfTerm.simps [of index])
    next
      case False
      obtain r where "lastOfTerm (index - 1) minIndex t rf = Inr r"
        and "r \<le> index - 1 + 1" and "min (index - 1) (minIndex - 1) \<le> r"
        using "1.IH" [OF \<open>index \<ge> minIndex\<close> get False] "1.prems" by auto
      then show ?thesis
        using False \<open>index \<ge> minIndex\<close> get by (simp add: lastOfTerm.simps [of index])
    qed
  next
    case False
    then show ?thesis by (simp add: lastOfTerm.simps [of index])
  qed
qed

subsection \<open>The commit rule\<close>

text \<open>The candidate for the new commit index.\<close>

definition commitCandidate :: "('c, 's) Raft \<Rightarrow> int" where
  "commitCandidate rf = sort (matchIndex rf) ! (peers rf div 2 + 1)"

lemma setCommitIndexL_eq [handler_eqs]:
  assumes "wf_raft rf" and "3 \<le> peers rf"
  shows "setCommitIndexL rf =
    (let N = commitCandidate rf in
     if N > commitIndex rf then
       gbind (getLogL N rf) (\<lambda>e.
         if le_Term e = currentTerm rf then Inr (rf\<lparr>commitIndex := N\<rparr>, True) else Inr (rf, False))
     else Inr (rf, False))"
proof -
  have len: "length (matchIndex rf) = peers rf" using assms by (simp add: wf_raft_def)
  have "nat (int (peers rf) div 2 + 1) = peers rf div 2 + 1"
    by (simp add: nat_add_distrib zdiv_int [symmetric])
  moreover have "int (peers rf) div 2 + 1 < int (peers rf)" using assms(2) by linarith
  ultimately show ?thesis
    using len by (simp add: setCommitIndexL_def nPeers_def commitCandidate_def Let_def)
qed

text \<open>The peers whose match index reaches \<open>N\<close>, and the leader itself.\<close>

definition stored_on :: "int \<Rightarrow> ('c, 's) Raft \<Rightarrow> nat set" where
  "stored_on N rf = insert (nat (me rf)) {i. i < peers rf \<and> N \<le> matchIndex rf ! i}"

lemma stored_on_majority:
  assumes "wf_raft rf" and "odd (peers rf)" and "3 \<le> peers rf"
    and "0 \<le> me rf" and "me rf < nPeers rf" and "matchIndex rf ! nat (me rf) < N"
    and "N \<le> commitCandidate rf"
  shows "majority (peers rf) (stored_on N rf)"
proof -
  let ?n = "peers rf" and ?S = "{i. i < peers rf \<and> N \<le> matchIndex rf ! i}"
  let ?C = "{i. i < peers rf \<and> commitCandidate rf \<le> matchIndex rf ! i}"
  have len: "length (matchIndex rf) = ?n" using assms(1) by (simp add: wf_raft_def)
  have k: "?n div 2 + 1 < length (matchIndex rf)" using assms(3) len by linarith
  have "?n - (?n div 2 + 1) \<le> card ?C"
    using sorted_count_ge [OF k] len
    by (simp add: length_filter_card commitCandidate_def)
  moreover have "card ?C \<le> card ?S"
    using assms(7) by (intro card_mono) auto
  moreover have "nat (me rf) \<notin> ?S" using assms(6) by simp
  then have "card (stored_on N rf) = card ?S + 1"
    by (simp add: stored_on_def)
  moreover have "?n - (?n div 2 + 1) = ?n div 2" using assms(2) by presburger
  moreover have "stored_on N rf \<subseteq> {..<?n}"
    using assms(4,5) by (auto simp: stored_on_def nPeers_def nat_less_iff)
  ultimately show ?thesis by (simp add: majority_def)
qed

lemma stored_on_majority_converse:
  assumes "wf_raft rf" and "3 \<le> peers rf" and "0 \<le> me rf" and "me rf < nPeers rf"
    and "majority (peers rf) (stored_on N rf)"
  shows "N \<le> commitCandidate rf"
proof (rule ccontr)
  assume less: "\<not> ?thesis"
  let ?n = "peers rf" and ?xs = "sort (matchIndex rf)" and ?k = "peers rf div 2 + 1"
  have len: "length (matchIndex rf) = ?n" using assms(1) by (simp add: wf_raft_def)
  have "length (filter (\<lambda>x. N \<le> x) ?xs) \<le> ?n - (?k + 1)"
  proof -
    have "filter (\<lambda>x. N \<le> x) (take (?k + 1) ?xs) = []"
    proof -
      have "x < N" if "x \<in> set (take (?k + 1) ?xs)" for x
      proof -
        from that obtain j where j: "j < length (take (?k + 1) ?xs)" "x = take (?k + 1) ?xs ! j"
          by (auto simp: in_set_conv_nth)
        then have "j \<le> ?k" by simp
        have "?k < length ?xs" using assms(2) len by simp
        have "x \<le> ?xs ! ?k"
          using j \<open>j \<le> ?k\<close> \<open>?k < length ?xs\<close> sorted_sort [of "matchIndex rf"]
          by (auto simp: sorted_iff_nth_mono)
        with less show ?thesis by (simp add: commitCandidate_def)
      qed
      then show ?thesis by (force simp: filter_empty_conv)
    qed
    then have "filter (\<lambda>x. N \<le> x) ?xs = filter (\<lambda>x. N \<le> x) (drop (?k + 1) ?xs)"
      by (metis append_self_conv2 append_take_drop_id filter_append)
    then have "length (filter (\<lambda>x. N \<le> x) ?xs) \<le> length (drop (?k + 1) ?xs)"
      by (metis length_filter_le)
    then show ?thesis using len by simp
  qed
  moreover have "length (filter (\<lambda>x. N \<le> x) ?xs) = length (filter (\<lambda>x. N \<le> x) (matchIndex rf))"
    by (metis mset_filter mset_sort size_mset)
  ultimately have "card {i. i < ?n \<and> N \<le> matchIndex rf ! i} \<le> ?n - (?k + 1)"
    using len by (simp add: length_filter_card)
  then have "card (stored_on N rf) \<le> ?n - (?k + 1) + 1"
    by (simp add: stored_on_def card_insert_if)
  moreover have "?n < 2 * card (stored_on N rf)" using assms(5) by (auto simp: majority_def)
  ultimately show False using assms(2) by linarith
qed

subsection \<open>The service's interface and the start of a peer\<close>

definition newEntry :: "'c \<Rightarrow> ('c, 's) Raft \<Rightarrow> 'c LogEntry" where
  "newEntry c rf = \<lparr>le_Command = Some c, le_Index = last_index (rlog rf) + 1,
                    le_Term = currentTerm rf\<rparr>"

lemma Start_eq [handler_eqs]:
  assumes "wf_raft rf"
  shows "Start c rf =
    Inr (if rrole rf = Leader
         then let rf' = persistL (rf\<lparr>rlog := rlog rf @ [newEntry c rf]\<rparr>)
              in ((last_index (rlog rf) + 1, currentTerm rf, True), rf', appendsL rf')
         else ((NA, NA, False), rf, []))"
  using assms by (simp add: Start_def newEntry_def Let_def le_Index_last)

lemma Start_wf:
  assumes "wf_raft rf"
  shows "wf_raft (rf\<lparr>rlog := rlog rf @ [newEntry c rf]\<rparr>)"
proof -
  have "wf_log (rlog rf @ [newEntry c rf])"
    using assms by (intro wf_log_append) (auto simp: newEntry_def)
  then show ?thesis using assms by (auto simp: wf_raft_def nth_append)
qed

lemma Snapshot_eq [handler_eqs]:
  assumes "wf_raft rf" and "index \<le> last_index (rlog rf)"
  shows "Snapshot index data rf =
    Inr (if index > first_index (rlog rf)
         then persistL (rf\<lparr>rlog := drop (nat (index - first_index (rlog rf))) (rlog rf),
                rsnapshot := \<lparr>LastIncludedIndex = index,
                  LastIncludedTerm = le_Term (entry_at (rlog rf) index), snap_Data = data\<rparr>\<rparr>)
         else rf)"
proof (cases "index > first_index (rlog rf)")
  case True
  let ?k = "nat (index - first_index (rlog rf))"
  have k: "?k < length (rlog rf)" using True assms(2) by (simp add: last_index_def)
  have "rlog rf ! ?k = entry_at (rlog rf) index" by (simp add: entry_at_def)
  moreover have "le_Index (entry_at (rlog rf) index) = index"
    using assms True by (intro le_Index_entry_at) auto
  ultimately show ?thesis
    using assms True k by (simp add: Snapshot_def)
next
  case False
  with assms show ?thesis by (simp add: Snapshot_def)
qed

lemma Snapshot_wf:
  assumes "wf_raft rf" and "first_index (rlog rf) < index" and "index \<le> last_index (rlog rf)"
  shows "wf_raft (rf\<lparr>rlog := drop (nat (index - first_index (rlog rf))) (rlog rf),
                rsnapshot := \<lparr>LastIncludedIndex = index,
                  LastIncludedTerm = le_Term (entry_at (rlog rf) index), snap_Data = data\<rparr>\<rparr>)"
proof -
  let ?k = "nat (index - first_index (rlog rf))"
  have k: "?k < length (rlog rf)" using assms by (simp add: last_index_def)
  with assms show ?thesis
    by (auto simp: wf_raft_def wf_log_drop first_index_drop entry_at_def)
qed

text \<open>A peer that is started on what another instance persisted.\<close>

lemma initL_fresh:
  assumes "ReadRaftState ps = []"
  shows "\<exists>rf. initL clk clk' n m ps = Inr rf \<and> wf_raft rf \<and> currentTerm rf = 0 \<and> votedFor rf = NA \<and>
    rrole rf = Follower \<and> rlog rf = [zeroEntry] \<and> peers rf = n \<and> me rf = m \<and>
    persister rf = ps \<and> commitIndex rf = 0 \<and> lastApplied rf = 0"
  using assms
  by (simp add: initL_def readPersist_def Let_def wf_raft_def zeroEntry_def)

lemma initL_persisted:
  assumes "decodeState (ReadRaftState ps) = Some (t, v, es)" and "wf_log es"
  shows "\<exists>rf. initL clk clk' n m ps = Inr rf \<and> wf_raft rf \<and> currentTerm rf = t \<and> votedFor rf = v \<and>
    rrole rf = Follower \<and> rlog rf = es \<and> peers rf = n \<and> me rf = m \<and> persister rf = ps \<and>
    commitIndex rf = first_index es \<and> lastApplied rf = first_index es \<and>
    snap_Data (rsnapshot rf) = ReadSnapshot ps"
proof -
  have "ReadRaftState ps \<noteq> []" using assms(1) by (auto simp: decodeState_def)
  moreover have "es \<noteq> []" using assms(2) by simp
  ultimately show ?thesis
    using assms
    by (auto simp: initL_def readPersist_def Let_def wf_raft_def first_index_def)
qed

lemma initL_durable:
  assumes "vote_durable rf" and "wf_raft rf"
  shows "\<exists>rf'. initL clk clk' n m (persister rf) = Inr rf' \<and> wf_raft rf' \<and>
    currentTerm rf' = currentTerm rf \<and> votedFor rf' = votedFor rf \<and> rrole rf' = Follower \<and>
    peers rf' = n \<and> me rf' = m \<and> persister rf' = persister rf"
proof (cases "ReadRaftState (persister rf) = []")
  case True
  with assms(1) initL_fresh [OF True, of clk clk' n m] show ?thesis
    by (auto simp: vote_durable_def)
next
  case False
  with assms(1) obtain es where "persisted rf = Some (currentTerm rf, votedFor rf, es)" "wf_log es"
    by (auto simp: vote_durable_def)
  with initL_persisted [of "persister rf" "currentTerm rf" "votedFor rf" es clk clk' n m]
  show ?thesis by (auto simp: persisted_def)
qed

lemma initL_returns: "initL clk clk' n m ps = Inr rf' \<Longrightarrow> vote_durable rf \<Longrightarrow> wf_raft rf
    \<Longrightarrow> persister rf = ps \<Longrightarrow> wf_raft rf' \<and> vote_durable rf' \<and>
    currentTerm rf' = currentTerm rf \<and> votedFor rf' = votedFor rf \<and> rrole rf' = Follower \<and>
    peers rf' = n \<and> me rf' = m"
  using initL_durable [of rf clk clk' n m] vote_durable_cong [of rf' rf] by auto

end
