(* ===== verification/Raft_Network.thy ===== *)
theory Raft_Network
  imports Raft_Leader
begin

text \<open>
  A cluster of peers that exchange the RPCs of \<^verbatim>\<open>raft/rpc.go\<close> over a network that can
  lose, delay and reorder messages, and whose servers can crash and restart from their
  persisters. A step is one critical section of one peer, composed of the handlers of
  theory \<open>Raft_Server\<close>. The messages in flight are a set; a request that a peer has sent twice is
  one element of it, which can be delivered more than once.

  \<open>votes\<close> is the counter that the goroutines of one election share, by candidate and
  term. The fields \<open>granted\<close>, \<open>counted\<close> and \<open>elected\<close> are history: they record which
  votes were granted and counted and which elections were won, and no step depends on them.
\<close>

datatype ('c, 's) msg =
    VoteRequest nat nat RequestVoteArgs
  | VoteReply nat nat RequestVoteArgs RequestVoteReply
  | AppendPending nat nat int
  | AppendRequest nat nat "'c AppendEntriesArgs"
  | AppendReply nat nat "'c AppendEntriesArgs" AppendEntriesReply
  | InstallRequest nat nat "'s InstallSnapshotArgs"
  | InstallReply nat nat "'s InstallSnapshotArgs" InstallSnapshotReply

record ('c, 's) cluster =
  size :: nat
  peer :: "nat \<Rightarrow> ('c, 's) Raft"
  net :: "('c, 's) msg set"
  votes :: "nat \<Rightarrow> int \<Rightarrow> int"
  granted :: "(nat \<times> nat \<times> int) set" \<comment> \<open>voter, candidate, term\<close>
  counted :: "(nat \<times> nat \<times> int) set"
  elected :: "(nat \<times> int) set"

text \<open>The messages of the goroutines that peer \<open>i\<close> starts.\<close>

fun goMsg :: "nat \<Rightarrow> task \<Rightarrow> ('c, 's) msg" where
  "goMsg i (RequestTask server args) = VoteRequest i (nat server) args"
| "goMsg i (AppendTask server term) = AppendPending i (nat server) term"

definition goMsgs :: "nat \<Rightarrow> task list \<Rightarrow> ('c, 's) msg set" where
  "goMsgs i tasks = set (map (goMsg i) tasks)"

fun outMsgs :: "nat \<Rightarrow> nat \<Rightarrow> ('c, 's) outgoing \<Rightarrow> ('c, 's) msg set" where
  "outMsgs i j NoRPC = {}"
| "outMsgs i j (SendAppendEntries args) = {AppendRequest i j args}"
| "outMsgs i j (SendInstallSnapshot args) = {InstallRequest i j args}"

definition setPeer :: "nat \<Rightarrow> ('c, 's) Raft \<Rightarrow> ('c, 's) cluster \<Rightarrow> ('c, 's) cluster" where
  "setPeer i rf s = s\<lparr>peer := (peer s)(i := rf)\<rparr>"

definition startCluster :: "nat \<Rightarrow> ('c, 's) cluster \<Rightarrow> bool" where
  "startCluster n s \<longleftrightarrow>
     size s = n \<and> net s = {} \<and> granted s = {} \<and> counted s = {} \<and> elected s = {} \<and>
     (\<forall>i < n. \<exists>clk clk'. Make clk clk' n (int i) MakePersister = Inr (peer s i))"

text \<open>
  Messages for the log stay in the network when they are delivered, so that they can be delivered again: a peer may
  send the same request twice, and \<open>lose\<close> takes any of them away at any time. A request for a vote and its reply are delivered
  at most once; a candidate asks each peer once in a term.
\<close>

inductive cluster_step :: "('c, 's) cluster \<Rightarrow> ('c, 's) cluster \<Rightarrow> bool" where
  lose: "m \<in> net s \<Longrightarrow> cluster_step s (s\<lparr>net := net s - {m}\<rparr>)"
| idle_tick: "i < size s \<Longrightarrow> rrole (peer s i) = Leader \<or> now clk \<le> electionTimeout (peer s i) \<Longrightarrow>
    tick clk (peer s i) = Inr (rf, tasks) \<Longrightarrow>
    cluster_step s (setPeer i rf (s\<lparr>net := net s \<union> goMsgs i tasks\<rparr>))"
| election_tick: "i < size s \<Longrightarrow> rrole (peer s i) \<noteq> Leader \<Longrightarrow> electionTimeout (peer s i) < now clk \<Longrightarrow>
    tick clk (peer s i) = Inr (rf, tasks) \<Longrightarrow>
    cluster_step s (setPeer i rf (s\<lparr>net := net s \<union> goMsgs i tasks,
      votes := (votes s)(i := (votes s i)(currentTerm rf := 1))\<rparr>))"
| vote_request: "VoteRequest c v args \<in> net s \<Longrightarrow> RequestVote clk args (peer s v) = Inr (rf, reply) \<Longrightarrow>
    cluster_step s (setPeer v rf
      (s\<lparr>net := net s - {VoteRequest c v args} \<union> {VoteReply c v args reply},
         granted := (if VoteGranted reply then insert (v, c, rv_Term args) (granted s)
                     else granted s)\<rparr>))"
| vote_reply: "VoteReply c v args reply \<in> net s \<Longrightarrow>
    processRequestReplyL args reply (votes s c (rv_Term args)) (peer s c) = Inr (rf, vs, tasks) \<Longrightarrow>
    cluster_step s (setPeer c rf
      (s\<lparr>net := net s - {VoteReply c v args reply} \<union> goMsgs c tasks,
         votes := (votes s)(c := (votes s c)(rv_Term args := vs)),
         counted := (if vs = votes s c (rv_Term args) then counted s
                     else insert (v, c, rv_Term args) (counted s)),
         elected := (if rrole (peer s c) \<noteq> Leader \<and> rrole rf = Leader
                     then insert (c, currentTerm rf) (elected s) else elected s)\<rparr>))"
| append_send: "AppendPending i j t \<in> net s \<Longrightarrow> i < size s \<Longrightarrow> appendL (int j) t (peer s i) = Inr out \<Longrightarrow>
    cluster_step s (s\<lparr>net := net s \<union> outMsgs i j out\<rparr>)"
| append_request: "AppendRequest l f args \<in> net s \<Longrightarrow> f < size s \<Longrightarrow>
    AppendEntries clk args (peer s f) = Inr (rf, reply) \<Longrightarrow>
    cluster_step s (setPeer f rf
      (s\<lparr>net := net s \<union> {AppendReply l f args reply}\<rparr>))"
| append_reply: "AppendReply l f args reply \<in> net s \<Longrightarrow> l < size s \<Longrightarrow>
    processAppendReplyL (int f) args reply (peer s l) = Inr rf \<Longrightarrow>
    cluster_step s (setPeer l rf s)"
| install_request: "InstallRequest l f args \<in> net s \<Longrightarrow> f < size s \<Longrightarrow>
    InstallSnapshot clk args (peer s f) = Inr (rf, reply') \<Longrightarrow>
    cluster_step s (setPeer f rf
      (s\<lparr>net := net s \<union> {InstallReply l f args reply'}\<rparr>))"
| install_reply: "InstallReply l f args reply' \<in> net s \<Longrightarrow> l < size s \<Longrightarrow>
    processInstallReplyL (int f) args reply' (peer s l) = Inr rf \<Longrightarrow>
    cluster_step s (setPeer l rf s)"
| client_start: "i < size s \<Longrightarrow> Start c (peer s i) = Inr (res, rf, tasks) \<Longrightarrow>
    cluster_step s (setPeer i rf (s\<lparr>net := net s \<union> goMsgs i tasks\<rparr>))"
| service_snapshot: "i < size s \<Longrightarrow> Snapshot index data (peer s i) = Inr rf \<Longrightarrow>
    cluster_step s (setPeer i rf s)"
| applier: "i < size s \<Longrightarrow> applyStep (peer s i) = Inr (rf, out') \<Longrightarrow>
    cluster_step s (setPeer i rf s)"
| restart: "i < size s \<Longrightarrow> Make clk clk' (size s) (int i) (persister (peer s i)) = Inr rf \<Longrightarrow>
    cluster_step s (setPeer i rf s)"

definition cluster_steps :: "('c, 's) cluster \<Rightarrow> ('c, 's) cluster \<Rightarrow> bool" where
  "cluster_steps = cluster_step\<^sup>*\<^sup>*"

definition reachable :: "nat \<Rightarrow> ('c, 's) cluster \<Rightarrow> bool" where
  "reachable n s \<longleftrightarrow> (\<exists>s0. startCluster n s0 \<and> cluster_steps s0 s)"

lemma reachable_step: "reachable n s \<Longrightarrow> cluster_step s s' \<Longrightarrow> reachable n s'"
  unfolding reachable_def cluster_steps_def by (meson rtranclp.rtrancl_into_rtrancl)

lemma reachable_steps: "reachable n s \<Longrightarrow> cluster_steps s s' \<Longrightarrow> reachable n s'"
  unfolding reachable_def cluster_steps_def by (meson rtranclp_trans)

lemma setPeer_sel [simp]:
  "size (setPeer i rf s) = size s" "net (setPeer i rf s) = net s" "votes (setPeer i rf s) = votes s"
  "granted (setPeer i rf s) = granted s" "counted (setPeer i rf s) = counted s"
  "elected (setPeer i rf s) = elected s" "peer (setPeer i rf s) = (peer s)(i := rf)"
  by (simp_all add: setPeer_def)

subsection \<open>Steps of a peer that grant and win nothing\<close>

text \<open>
  What all handlers but those that grant a vote, start or win an election do with the term,
  the vote and the role: they step down to a higher term, or stay in the term, keep the
  vote and can only fall back to the role of a follower; a candidate that falls back may
  lose its own vote.
\<close>

definition quiet :: "('c, 's) Raft \<Rightarrow> ('c, 's) Raft \<Rightarrow> bool" where
  "quiet rf rf' \<longleftrightarrow>
     me rf' = me rf \<and> peers rf' = peers rf \<and> wf_raft rf' \<and> vote_durable rf' \<and>
     (currentTerm rf < currentTerm rf' \<and> rrole rf' = Follower \<or>
      currentTerm rf' = currentTerm rf \<and> (rrole rf' = rrole rf \<or> rrole rf' = Follower) \<and>
      (votedFor rf' = votedFor rf \<or> rrole rf = Candidate \<and> rrole rf' = Follower))"

definition sound :: "('c, 's) Raft \<Rightarrow> bool" where
  "sound rf \<longleftrightarrow> wf_raft rf \<and> vote_durable rf"

lemma soundD: "sound rf \<Longrightarrow> wf_raft rf" "sound rf \<Longrightarrow> vote_durable rf"
  by (simp_all add: sound_def)

lemma quiet_refl: "sound rf \<Longrightarrow> quiet rf rf"
  by (simp add: quiet_def sound_def)

lemma quiet_stepDown: "sound rf \<Longrightarrow> quiet rf (stepDown t rf)"
  by (auto simp: quiet_def sound_def stepDown_role stepDown_durable)

lemma quiet_becomeFollowerL:
  "sound rf \<Longrightarrow> currentTerm rf < t \<Longrightarrow> quiet rf (becomeFollowerL t rf)"
  using quiet_stepDown [of rf t] by (simp add: stepDown_def)

text \<open>Volatile fields may change freely.\<close>

lemma quiet_same:
  assumes "sound rf" and "wf_raft rf'" and "persister rf' = persister rf" and "me rf' = me rf"
    and "peers rf' = peers rf" and "currentTerm rf' = currentTerm rf"
    and "votedFor rf' = votedFor rf" and "rrole rf' = rrole rf"
  shows "quiet rf rf'"
  using assms vote_durable_cong [of rf' rf] by (simp add: quiet_def sound_def)

lemma quiet_persistL:
  assumes "wf_raft rf'" and "me rf' = me rf" and "peers rf' = peers rf"
    and "currentTerm rf' = currentTerm rf" and "votedFor rf' = votedFor rf" and "rrole rf' = rrole rf"
  shows "quiet rf (persistL rf')"
  using assms vote_durable_persistL [OF wf_raft_log [OF assms(1)]] by (simp add: quiet_def)

lemma quiet_AppendEntries:
  assumes "sound rf" and "wf_append args" and "AppendEntries clk args rf = Inr (rf', reply)"
  shows "quiet rf rf'"
proof -
  note wf = soundD(1) [OF assms(1)] and dur = soundD(2) [OF assms(1)]
  have hear: "quiet rf (hearLeader clk args rf)"
    using wf dur by (auto simp: quiet_def hearLeader_role hearLeader_durable)
  consider "ae_Term args < currentTerm rf"
    | "currentTerm rf \<le> ae_Term args" "\<not> prev_ok args (rlog rf)"
    | "currentTerm rf \<le> ae_Term args" "prev_ok args (rlog rf)"
    by linarith
  then show ?thesis
  proof cases
    case 1
    with assms wf have "rf' = rf" by (simp add: AppendEntries_stale)
    with assms(1) show ?thesis by (simp add: quiet_refl)
  next
    case 2
    then obtain r where "AppendEntries clk args rf = Inr (hearLeader clk args rf, r)"
      using AppendEntries_conflict [OF wf] by blast
    with assms(3) hear show ?thesis by simp
  next
    case 3
    let ?h = "hearLeader clk args rf"
    have "rf' = takeEntries args ?h"
      using AppendEntries_accept [OF wf 3 assms(2), of clk] assms(3) by simp
    moreover have "wf_raft (takeEntries args ?h)" "vote_durable (takeEntries args ?h)"
      using takeEntries_wf [of ?h args] takeEntries_durable(1) [of ?h args] wf dur 3 assms(2)
      by (simp_all add: hearLeader_durable)
    ultimately show ?thesis using hear by (simp add: quiet_def)
  qed
qed

lemma quiet_InstallSnapshot:
  assumes "sound rf" and "InstallSnapshot clk args rf = Inr (rf', reply)"
  shows "quiet rf rf'"
proof -
  note wf = soundD(1) [OF assms(1)]
  have "wf_raft rf'"
    using InstallSnapshot_returns [OF wf, of clk args] assms(2) by auto
  moreover have hear: "quiet rf (hearInstaller clk args rf)"
    using quiet_stepDown [OF assms(1), of "is_Term args"]
      vote_durable_cong [of "hearInstaller clk args rf" "stepDown (is_Term args) rf"]
    by (simp add: quiet_def)
  ultimately show ?thesis
  proof (cases "is_Term args < currentTerm rf \<or>
      LastIncludedIndex (is_Snapshot args) \<le> first_index (rlog rf)")
    case True
    with assms wf hear show ?thesis by (simp add: InstallSnapshot_ignored)
  next
    case False
    with assms wf hear \<open>wf_raft rf'\<close> show ?thesis
      by (auto simp: InstallSnapshot_install quiet_def)
  qed
qed

lemma updateMatchAndNextL_quiet:
  assumes "sound rf" and "updateMatchAndNextL server m rf = Inr rf'"
  shows "quiet rf rf'"
  using assms
  by (intro quiet_same)
    (auto simp: updateMatchAndNextL_def set_idx_Inr_iff sound_def wf_raft_def split: if_splits)

lemma setCommitIndexL_quiet:
  assumes "sound rf" and "setCommitIndexL rf = Inr (rf', ok)"
  shows "quiet rf rf'"
  using assms
  by (intro quiet_same)
    (auto simp: setCommitIndexL_def Let_def sound_def split: if_splits)

lemma quiet_applySignalL: "quiet rf rf' \<Longrightarrow> quiet rf (applySignalL rf')"
  by (simp add: quiet_def)

lemma quiet_sound: "quiet rf rf' \<Longrightarrow> sound rf'"
  by (simp add: quiet_def sound_def)

lemma quiet_trans_same:
  assumes "quiet rf rf'" and "quiet rf' rf''" and "currentTerm rf' = currentTerm rf"
    and "rrole rf' = rrole rf" and "votedFor rf' = votedFor rf"
  shows "quiet rf rf''"
  using assms by (auto simp: quiet_def)

lemma quiet_processAppendReplyL:
  assumes "sound rf" and "processAppendReplyL server args reply rf = Inr rf'"
  shows "quiet rf rf'"
proof (cases "currentTerm rf = ae_Term args \<and> rrole rf = Leader")
  case False
  with assms show ?thesis by (auto simp: processAppendReplyL_def quiet_refl)
next
  case True
  show ?thesis
  proof (cases "Success reply")
    case True
    with assms(2) \<open>currentTerm rf = ae_Term args \<and> rrole rf = Leader\<close>
    obtain rf1 rf2 ok where
      1: "updateMatchAndNextL server (PrevLogIndex args + int (length (Entries args))) rf = Inr rf1"
      and 2: "setCommitIndexL rf1 = Inr (rf2, ok)" and 3: "rf' = (if ok then applySignalL rf2 else rf2)"
      by (auto simp: processAppendReplyL_def split: if_splits)
    have q1: "quiet rf rf1" by (rule updateMatchAndNextL_quiet [OF assms(1) 1])
    have q2: "quiet rf1 rf2" by (rule setCommitIndexL_quiet [OF quiet_sound [OF q1] 2])
    have "currentTerm rf1 = currentTerm rf" "rrole rf1 = rrole rf" "votedFor rf1 = votedFor rf"
      using 1 by (auto simp: updateMatchAndNextL_def split: if_splits)
    then have "quiet rf rf2" using q1 q2 by (blast intro: quiet_trans_same)
    then show ?thesis using 3 by (auto intro: quiet_applySignalL)
  next
    case False
    show ?thesis
    proof (cases "aer_Term reply > currentTerm rf")
      case True
      with \<open>\<not> Success reply\<close> assms show ?thesis
        using \<open>currentTerm rf = ae_Term args \<and> rrole rf = Leader\<close>
        by (auto simp: processAppendReplyL_def intro: quiet_becomeFollowerL)
    next
      case False
      with \<open>\<not> Success reply\<close> assms(2) \<open>currentTerm rf = ae_Term args \<and> rrole rf = Leader\<close>
      have "processPrevLogConflictL server args reply rf = Inr rf'"
        by (simp add: processAppendReplyL_def)
      with assms(1) show ?thesis
        by (intro quiet_same)
          (auto simp: processPrevLogConflictL_def set_idx_Inr_iff sound_def wf_raft_def split: if_splits)
    qed
  qed
qed

lemma quiet_processInstallReplyL:
  assumes "sound rf" and "processInstallReplyL server args reply rf = Inr rf'"
  shows "quiet rf rf'"
  using assms
  by (auto simp: processInstallReplyL_def quiet_refl updateMatchAndNextL_quiet
      intro: quiet_becomeFollowerL split: if_splits)

lemma quiet_Start:
  assumes "sound rf" and "Start c rf = Inr (res, rf', tasks)"
  shows "quiet rf rf'"
proof -
  note wf = soundD(1) [OF assms(1)]
  have "quiet rf (persistL (rf\<lparr>rlog := rlog rf @ [newEntry c rf]\<rparr>))"
    using Start_wf [OF wf] by (rule quiet_persistL) simp_all
  then show ?thesis
    using assms(2) quiet_refl [OF assms(1)]
    by (auto simp: Start_eq [OF wf] Let_def split: if_splits)
qed

lemma Snapshot_beyond:
  assumes "wf_raft rf" and "last_index (rlog rf) < index"
  shows "\<exists>e. Snapshot index data rf = Inl e"
proof -
  have first: "first_index (rlog rf) < index"
    using assms first_le_last [of "rlog rf"] by simp
  show ?thesis
  proof (cases "index = last_index (rlog rf) + 1")
    case True
    then have "index - first_index (rlog rf) = int (length (rlog rf))"
      by (simp add: last_index_def)
    with True assms first show ?thesis
      by (simp add: Snapshot_def trimLogL_def le_Index_last go_copy_def idx_def)
  next
    case False
    with assms first show ?thesis
      by (simp add: Snapshot_def trimLogL_def le_Index_last make_slice_def)
  qed
qed

lemma quiet_Snapshot:
  assumes "sound rf" and "Snapshot index data rf = Inr rf'"
  shows "quiet rf rf'"
proof -
  note wf = soundD(1) [OF assms(1)]
  have le: "index \<le> last_index (rlog rf)"
    using Snapshot_beyond [OF wf, of index data] assms(2) by fastforce
  show ?thesis
  proof (cases "first_index (rlog rf) < index")
    case True
    have "quiet rf (persistL (rf\<lparr>rlog := drop (nat (index - first_index (rlog rf))) (rlog rf),
        rsnapshot := \<lparr>LastIncludedIndex = index,
          LastIncludedTerm = le_Term (entry_at (rlog rf) index), snap_Data = data\<rparr>\<rparr>))"
      using Snapshot_wf [OF wf True le, of data] by (rule quiet_persistL) simp_all
    with True assms(2) wf le show ?thesis by (simp add: Snapshot_eq)
  next
    case False
    with assms wf le show ?thesis by (auto simp: Snapshot_eq intro: quiet_refl)
  qed
qed

lemma quiet_applyCommandL:
  assumes "sound rf" and "applyCommandL rf = Inr rf'"
  shows "quiet rf rf'"
  using assms
  by (intro quiet_same)
    (auto simp: applyCommandL_def applyWaitL_def Let_def sound_def split: if_splits)

lemma quiet_applyStep:
  assumes "sound rf" and "applyStep rf = Inr (rf', out)"
  shows "quiet rf rf'"
proof -
  have snap: "quiet rf rf1" if "applySnapshotL rf = (rf1, m)" for rf1 m
    using that assms(1)
    by (intro quiet_same) (auto simp: applySnapshotL_def Let_def sound_def split: if_splits)
  have loop: "quiet rf rf1" if "applyLoop rf = Inr rf1" for rf1
  proof -
    obtain rf2 m where sn: "applySnapshotL rf = (rf2, m)" by force
    have "currentTerm rf2 = currentTerm rf" "rrole rf2 = rrole rf" "votedFor rf2 = votedFor rf"
      using sn by (auto simp: applySnapshotL_def Let_def split: if_splits)
    then have cmd: "applyCommandL rf2 = Inr rf1 \<Longrightarrow> quiet rf rf1"
      using snap [OF sn] quiet_applyCommandL [OF quiet_sound [OF snap [OF sn]]]
      by (blast intro: quiet_trans_same)
    have cond: "quiet rf (rf2\<lparr>applyCond := ac\<rparr>)" for ac
      using snap [OF sn] by (simp add: quiet_def)
    have dead: "quiet rf (rf\<lparr>applyCond := ac\<rparr>)" for ac
      using quiet_refl [OF assms(1)] by (simp add: quiet_def)
    show ?thesis
      using that sn cmd cond dead quiet_applyCommandL [OF assms(1)]
      by (cases m) (auto simp: applyLoop_def split: if_splits)
  qed
  have wait: "quiet rf (applyWaitL rf)"
    using assms(1) by (intro quiet_same) (auto simp: applyWaitL_def sound_def)
  from assms(2) show ?thesis
    using loop wait quiet_applyCommandL [OF assms(1)] quiet_refl [OF assms(1)]
    by (auto simp: applyStep_def split: applier.splits)
qed

lemma quiet_restart:
  assumes "sound rf" and "Make clk clk' (peers rf) (me rf) (persister rf) = Inr rf'"
  shows "quiet rf rf'"
  using initL_returns [of clk clk' "peers rf" "me rf" "persister rf" rf' rf] assms
  by (auto simp: Make_def quiet_def sound_def)

end
