(* ===== verification/Raft_Election.thy ===== *)
theory Raft_Election
  imports Raft_Network
begin

text \<open>
  Election safety of the cluster: a term has at most one leader. The votes themselves are
  not unique per term (a candidate that hears of the leader of its term gives the vote for
  itself back and may grant another one), so the invariant is about the votes granted to
  others: those are unique, and a winner never grants one in the term it wins.
\<close>

subsection \<open>The invariant\<close>

text \<open>The RequestVote RPC of candidate \<open>c\<close> to peer \<open>v\<close> in term \<open>t\<close>, on its way or answered.\<close>

fun ballot :: "nat \<Rightarrow> nat \<Rightarrow> int \<Rightarrow> ('c, 's) msg \<Rightarrow> bool" where
  "ballot c v t (VoteRequest c' v' args) \<longleftrightarrow> c' = c \<and> v' = v \<and> rv_Term args = t"
| "ballot c v t (VoteReply c' v' args reply) \<longleftrightarrow> c' = c \<and> v' = v \<and> rv_Term args = t"
| "ballot c v t _ \<longleftrightarrow> False"

fun ballot_ok :: "('c, 's) cluster \<Rightarrow> ('c, 's) msg \<Rightarrow> bool" where
  "ballot_ok s (VoteRequest c v args) \<longleftrightarrow>
     c < size s \<and> v < size s \<and> c \<noteq> v \<and> rv_CandidateId args = int c \<and>
     rv_Term args \<le> currentTerm (peer s c) \<and> (v, c, rv_Term args) \<notin> granted s"
| "ballot_ok s (VoteReply c v args reply) \<longleftrightarrow>
     c < size s \<and> v < size s \<and> c \<noteq> v \<and> rv_CandidateId args = int c \<and>
     rv_Term args \<le> currentTerm (peer s c) \<and> (v, c, rv_Term args) \<notin> counted s \<and>
     (VoteGranted reply \<longrightarrow> (v, c, rv_Term args) \<in> granted s)"
| "ballot_ok s (AppendRequest l f args) \<longleftrightarrow> wf_append args"
| "ballot_ok s _ \<longleftrightarrow> True"

definition peers_inv :: "('c, 's) cluster \<Rightarrow> bool" where
  "peers_inv s \<longleftrightarrow> (\<forall>i < size s. me (peer s i) = int i \<and> peers (peer s i) = size s \<and>
     sound (peer s i) \<and> (rrole (peer s i) \<noteq> Follower \<longrightarrow> votedFor (peer s i) = int i))"

definition net_inv :: "('c, 's) cluster \<Rightarrow> bool" where
  "net_inv s \<longleftrightarrow> (\<forall>m \<in> net s. ballot_ok s m) \<and>
     (\<forall>c v t. \<forall>m \<in> net s. \<forall>m' \<in> net s. ballot c v t m \<longrightarrow> ballot c v t m' \<longrightarrow> m = m')"

text \<open>
  A vote for another peer binds the voter for the rest of the term: it stays a follower and
  keeps the vote.
\<close>

definition granted_inv :: "('c, 's) cluster \<Rightarrow> bool" where
  "granted_inv s \<longleftrightarrow> (\<forall>v c t. (v, c, t) \<in> granted s \<longrightarrow>
     v < size s \<and> c < size s \<and> v \<noteq> c \<and> t \<le> currentTerm (peer s v) \<and>
     t \<le> currentTerm (peer s c) \<and>
     (t = currentTerm (peer s v) \<longrightarrow> votedFor (peer s v) = int c \<and> rrole (peer s v) = Follower) \<and>
     (\<forall>c'. (v, c', t) \<in> granted s \<longrightarrow> c' = c))"

definition voters :: "('c, 's) cluster \<Rightarrow> nat \<Rightarrow> int \<Rightarrow> nat set" where
  "voters s c t = {v. (v, c, t) \<in> counted s}"

definition counted_inv :: "('c, 's) cluster \<Rightarrow> bool" where
  "counted_inv s \<longleftrightarrow> counted s \<subseteq> granted s \<and>
     (\<forall>v c t. (v, c, t) \<in> counted s \<longrightarrow> t \<le> currentTerm (peer s c)) \<and>
     (\<forall>c < size s. rrole (peer s c) = Candidate \<longrightarrow>
        votes s c (currentTerm (peer s c)) = 1 + int (card (voters s c (currentTerm (peer s c)))))"

text \<open>
  A winner had a majority with its own vote, and has granted no other vote in the term.
\<close>

definition elected_inv :: "('c, 's) cluster \<Rightarrow> bool" where
  "elected_inv s \<longleftrightarrow>
     (\<forall>c t. (c, t) \<in> elected s \<longrightarrow> c < size s \<and> majority (size s) (insert c (voters s c t)) \<and>
        t \<le> currentTerm (peer s c) \<and>
        (t = currentTerm (peer s c) \<longrightarrow> votedFor (peer s c) = int c \<and> rrole (peer s c) \<noteq> Candidate) \<and>
        (\<forall>c'. (c, c', t) \<notin> granted s)) \<and>
     (\<forall>c < size s. rrole (peer s c) = Leader \<longrightarrow> (c, currentTerm (peer s c)) \<in> elected s)"

definition election_inv :: "('c, 's) cluster \<Rightarrow> bool" where
  "election_inv s \<longleftrightarrow>
     peers_inv s \<and> net_inv s \<and> granted_inv s \<and> counted_inv s \<and> elected_inv s"

lemma election_invD:
  assumes "election_inv s"
  shows "peers_inv s" "net_inv s" "granted_inv s" "counted_inv s" "elected_inv s"
  using assms by (simp_all add: election_inv_def)

lemma peers_invD:
  assumes "peers_inv s" and "i < size s"
  shows "me (peer s i) = int i" "peers (peer s i) = size s" "sound (peer s i)"
    "rrole (peer s i) \<noteq> Follower \<Longrightarrow> votedFor (peer s i) = int i"
  using assms by (auto simp: peers_inv_def)

lemma granted_invD:
  assumes "granted_inv s" and "(v, c, t) \<in> granted s"
  shows "v < size s" "c < size s" "v \<noteq> c" "t \<le> currentTerm (peer s v)"
    "t = currentTerm (peer s v) \<Longrightarrow> votedFor (peer s v) = int c \<and> rrole (peer s v) = Follower"
    "(v, c', t) \<in> granted s \<Longrightarrow> c' = c" "t \<le> currentTerm (peer s c)"
  using assms unfolding granted_inv_def by blast+

lemma elected_invD:
  assumes "elected_inv s" and "(c, t) \<in> elected s"
  shows "c < size s" "majority (size s) (insert c (voters s c t))" "t \<le> currentTerm (peer s c)"
    "t = currentTerm (peer s c) \<Longrightarrow> votedFor (peer s c) = int c \<and> rrole (peer s c) \<noteq> Candidate"
    "(c, c', t) \<notin> granted s"
  using assms unfolding elected_inv_def by blast+

lemma elected_invI:
  assumes "\<And>c t. (c, t) \<in> elected s \<Longrightarrow> c < size s"
    and "\<And>c t. (c, t) \<in> elected s \<Longrightarrow> majority (size s) (insert c (voters s c t))"
    and "\<And>c t c'. (c, t) \<in> elected s \<Longrightarrow> (c, c', t) \<notin> granted s"
    and "\<And>c t. (c, t) \<in> elected s \<Longrightarrow> t \<le> currentTerm (peer s c)"
    and "\<And>c t. (c, t) \<in> elected s \<Longrightarrow> t = currentTerm (peer s c) \<Longrightarrow>
           votedFor (peer s c) = int c \<and> rrole (peer s c) \<noteq> Candidate"
    and "\<And>c. c < size s \<Longrightarrow> rrole (peer s c) = Leader \<Longrightarrow> (c, currentTerm (peer s c)) \<in> elected s"
  shows "elected_inv s"
  using assms unfolding elected_inv_def by blast

lemma counted_invD:
  assumes "counted_inv s"
  shows "(v, c, t) \<in> counted s \<Longrightarrow> (v, c, t) \<in> granted s"
    "(v, c, t) \<in> counted s \<Longrightarrow> t \<le> currentTerm (peer s c)"
    "c < size s \<Longrightarrow> rrole (peer s c) = Candidate \<Longrightarrow>
       votes s c (currentTerm (peer s c)) = 1 + int (card (voters s c (currentTerm (peer s c))))"
  using assms unfolding counted_inv_def by blast+

lemma counted_invI:
  assumes "\<And>v c t. (v, c, t) \<in> counted s \<Longrightarrow> (v, c, t) \<in> granted s"
    and "\<And>v c t. (v, c, t) \<in> counted s \<Longrightarrow> t \<le> currentTerm (peer s c)"
    and "\<And>c. c < size s \<Longrightarrow> rrole (peer s c) = Candidate \<Longrightarrow>
       votes s c (currentTerm (peer s c)) = 1 + int (card (voters s c (currentTerm (peer s c))))"
  shows "counted_inv s"
  using assms unfolding counted_inv_def by auto

lemma net_invD:
  assumes "net_inv s"
  shows "m \<in> net s \<Longrightarrow> ballot_ok s m"
    "m \<in> net s \<Longrightarrow> m' \<in> net s \<Longrightarrow> ballot c v t m \<Longrightarrow> ballot c v t m' \<Longrightarrow> m = m'"
  using assms unfolding net_inv_def by blast+

lemma net_invI:
  assumes "\<And>m. m \<in> net s \<Longrightarrow> ballot_ok s m"
    and "\<And>m m' c v t. m \<in> net s \<Longrightarrow> m' \<in> net s \<Longrightarrow> ballot c v t m \<Longrightarrow> ballot c v t m' \<Longrightarrow> m = m'"
  shows "net_inv s"
  using assms unfolding net_inv_def by blast

lemma granted_invI:
  assumes "\<And>v c t. (v, c, t) \<in> granted s \<Longrightarrow> v < size s \<and> c < size s \<and> v \<noteq> c"
    and "\<And>v c t. (v, c, t) \<in> granted s \<Longrightarrow>
           t \<le> currentTerm (peer s v) \<and> t \<le> currentTerm (peer s c)"
    and "\<And>v c t. (v, c, t) \<in> granted s \<Longrightarrow> t = currentTerm (peer s v) \<Longrightarrow>
           votedFor (peer s v) = int c \<and> rrole (peer s v) = Follower"
    and "\<And>v c c' t. (v, c, t) \<in> granted s \<Longrightarrow> (v, c', t) \<in> granted s \<Longrightarrow> c' = c"
  shows "granted_inv s"
  using assms unfolding granted_inv_def by blast

lemma voters_finite: "granted_inv s \<Longrightarrow> counted_inv s \<Longrightarrow> voters s c t \<subseteq> {..<size s} - {c}"
  by (fastforce simp: granted_inv_def counted_inv_def voters_def)

subsection \<open>The invariant holds at the start\<close>

lemma Make_fresh:
  assumes "Make clk clk' n m MakePersister = Inr rf"
  shows "me rf = m" "peers rf = n" "sound rf" "rrole rf = Follower"
proof -
  have r: "ReadRaftState (MakePersister :: ('a, 'b) Persister) = []"
    by (simp add: ReadRaftState_def MakePersister_def)
  with initL_fresh [OF r, of clk clk' n m] assms
  show "me rf = m" "peers rf = n" "sound rf" "rrole rf = Follower"
    by (auto simp: Make_def sound_def vote_durable_def)
qed

lemma election_inv_start:
  assumes "startCluster n s"
  shows "election_inv s"
proof -
  have "me (peer s i) = int i \<and> peers (peer s i) = n \<and> sound (peer s i) \<and> rrole (peer s i) = Follower"
    if "i < n" for i
  proof -
    from assms that obtain clk clk' where "Make clk clk' n (int i) MakePersister = Inr (peer s i)"
      unfolding startCluster_def by blast
    then show ?thesis by (simp add: Make_fresh)
  qed
  with assms show ?thesis
    by (auto simp: startCluster_def election_inv_def peers_inv_def net_inv_def granted_inv_def
        counted_inv_def elected_inv_def)
qed

subsection \<open>Quiet steps keep it\<close>

text \<open>
  A step in which one peer makes a quiet step, messages disappear, and messages that are no
  ballots appear.
\<close>

lemma quietD:
  assumes "quiet rf rf'"
  shows "me rf' = me rf" "peers rf' = peers rf" "sound rf'" "currentTerm rf \<le> currentTerm rf'"
    "rrole rf' \<noteq> Follower \<Longrightarrow> currentTerm rf' = currentTerm rf \<and> rrole rf' = rrole rf \<and> votedFor rf' = votedFor rf"
    "currentTerm rf' = currentTerm rf \<Longrightarrow> rrole rf \<noteq> Candidate \<Longrightarrow>
       votedFor rf' = votedFor rf \<and> rrole rf' \<in> {rrole rf, Follower}"
  using assms by (auto simp: quiet_def sound_def)

lemma ballot_okD_other: "ballot_ok s m \<Longrightarrow> size s' = size s \<Longrightarrow> granted s' = granted s \<Longrightarrow>
    counted s' = counted s \<Longrightarrow> (\<And>c. c < size s \<Longrightarrow> currentTerm (peer s c) \<le> currentTerm (peer s' c)) \<Longrightarrow>
    ballot_ok s' m"
  by (cases m) (force intro: order_trans)+

text \<open>
  The general form: peer \<open>i\<close> moves to the state \<open>rf\<close> of the same or a later term, the
  counter of its election changes with it, the network becomes \<open>N\<close>, and the set of granted
  votes stays or gets one vote of peer \<open>i\<close>. A vote that \<open>i\<close> granted in its term, and a term
  it has won, bind it.
\<close>

definition bound :: "('c, 's) cluster \<Rightarrow> nat \<Rightarrow> int \<Rightarrow> bool" where
  "bound s i t \<longleftrightarrow> (\<exists>c. (i, c, t) \<in> granted s) \<or> (i, t) \<in> elected s"

definition grants_one ::
    "('c, 's) cluster \<Rightarrow> nat \<Rightarrow> ('c, 's) Raft \<Rightarrow> (nat \<times> nat \<times> int) set \<Rightarrow> bool" where
  "grants_one s i rf G \<longleftrightarrow> G = granted s \<or>
     (\<exists>c. G = insert (i, c, currentTerm rf) (granted s) \<and> c < size s \<and> c \<noteq> i \<and>
        currentTerm rf \<le> currentTerm (peer s c) \<and> votedFor rf = int c \<and> rrole rf = Follower \<and>
        \<not> bound s i (currentTerm rf))"

lemma bound_not_candidate:
  assumes "granted_inv s" and "elected_inv s" and "bound s i (currentTerm (peer s i))"
  shows "rrole (peer s i) \<noteq> Candidate"
  using assms granted_invD(5) [OF assms(1), of i] elected_invD(4) [OF assms(2), of i]
  unfolding bound_def by fastforce

lemma granted_inv_upd:
  assumes inv: "granted_inv s" and i: "i < size s"
    and mono: "currentTerm (peer s i) \<le> currentTerm rf"
    and bind: "currentTerm rf = currentTerm (peer s i) \<Longrightarrow> bound s i (currentTerm rf) \<Longrightarrow>
       votedFor rf = votedFor (peer s i) \<and> rrole rf \<in> {rrole (peer s i), Follower}"
    and G: "grants_one s i rf G"
  shows "granted_inv (setPeer i rf (s\<lparr>net := N, votes := V, granted := G\<rparr>))" (is "granted_inv ?s")
proof (rule granted_invI)
  have le: "currentTerm (peer s c) \<le> currentTerm (peer ?s c)" for c using mono by simp
  fix v c t assume "(v, c, t) \<in> granted ?s"
  then consider (old) "(v, c, t) \<in> granted s"
    | (new) "v = i" "t = currentTerm rf" "c < size s" "c \<noteq> i" "t \<le> currentTerm (peer s c)"
        "votedFor rf = int c" "rrole rf = Follower"
    using G by (auto simp: grants_one_def)
  note cs = this
  show "v < size ?s \<and> c < size ?s \<and> v \<noteq> c"
    using cs granted_invD(1-3) [OF inv, of v c t] i by cases auto
  show "t \<le> currentTerm (peer ?s v) \<and> t \<le> currentTerm (peer ?s c)"
    using cs
  proof cases
    case old
    then show ?thesis using granted_invD(4,7) [OF inv, of v c t] le [of v] le [of c] by linarith
  qed (use i in auto)
  show "votedFor (peer ?s v) = int c \<and> rrole (peer ?s v) = Follower" if "t = currentTerm (peer ?s v)"
    using cs
  proof cases
    case old
    have "t = currentTerm (peer s v)"
      using that granted_invD(4) [OF inv old] le [of v] by linarith
    then show ?thesis
      using old granted_invD(5) [OF inv old] bind that
      by (cases "v = i") (auto simp: bound_def)
  qed simp
next
  fix v c c' t assume "(v, c, t) \<in> granted ?s" "(v, c', t) \<in> granted ?s"
  then show "c' = c" using granted_invD(6) [OF inv] G by (auto simp: grants_one_def bound_def)
qed

lemma elected_inv_upd:
  assumes inv: "elected_inv s" and i: "i < size s"
    and mono: "currentTerm (peer s i) \<le> currentTerm rf"
    and bind: "currentTerm rf = currentTerm (peer s i) \<Longrightarrow> bound s i (currentTerm rf) \<Longrightarrow>
       votedFor rf = votedFor (peer s i) \<and> rrole rf \<in> {rrole (peer s i), Follower}"
    and G: "grants_one s i rf G"
    and lead: "rrole rf = Leader \<Longrightarrow> (i, currentTerm rf) \<in> elected s"
  shows "elected_inv (setPeer i rf (s\<lparr>net := N, votes := V, granted := G\<rparr>))" (is "elected_inv ?s")
proof (rule elected_invI)
  have le: "currentTerm (peer s c) \<le> currentTerm (peer ?s c)" for c using mono by simp
  fix c t assume "(c, t) \<in> elected ?s"
  then have e: "(c, t) \<in> elected s" by simp
  note E = elected_invD [OF inv e]
  show "c < size ?s" "majority (size ?s) (insert c (voters ?s c t))"
    using E by (simp_all add: voters_def)
  show "(c, c', t) \<notin> granted ?s" for c'
    using E(5) e G by (auto simp: grants_one_def bound_def)
  show "t \<le> currentTerm (peer ?s c)" using E(3) le [of c] by linarith
  show "votedFor (peer ?s c) = int c \<and> rrole (peer ?s c) \<noteq> Candidate" if "t = currentTerm (peer ?s c)"
  proof -
    have "t = currentTerm (peer s c)" using that E(3) le [of c] by linarith
    then show ?thesis using E(4) bind that e by (cases "c = i") (auto simp: bound_def)
  qed
next
  fix c assume "c < size ?s" "rrole (peer ?s c) = Leader"
  then show "(c, currentTerm (peer ?s c)) \<in> elected ?s"
    using inv lead by (cases "c = i") (auto simp: elected_inv_def)
qed

lemma counted_inv_upd:
  assumes inv: "counted_inv s" and mono: "currentTerm (peer s i) \<le> currentTerm rf"
    and G: "granted s \<subseteq> G"
    and cand: "rrole rf = Candidate \<Longrightarrow> V i (currentTerm rf) = 1 + int (card (voters s i (currentTerm rf)))"
    and V: "\<And>c. c \<noteq> i \<Longrightarrow> V c = votes s c"
  shows "counted_inv (setPeer i rf (s\<lparr>net := N, votes := V, granted := G\<rparr>))" (is "counted_inv ?s")
proof (rule counted_invI)
  fix v c t assume "(v, c, t) \<in> counted ?s"
  then have ct: "(v, c, t) \<in> counted s" by simp
  show "(v, c, t) \<in> granted ?s" using counted_invD(1) [OF inv ct] G by auto
  show "t \<le> currentTerm (peer ?s c)" using counted_invD(2) [OF inv ct] mono by (cases "c = i") auto
next
  fix c assume "c < size ?s" "rrole (peer ?s c) = Candidate"
  then show "votes ?s c (currentTerm (peer ?s c)) = 1 + int (card (voters ?s c (currentTerm (peer ?s c))))"
    using counted_invD(3) [OF inv, of c] cand V by (cases "c = i") (auto simp: voters_def)
qed

lemma election_inv_upd:
  assumes inv: "election_inv s" and i: "i < size s"
    and id: "me rf = int i" "peers rf = size s" "sound rf"
      "rrole rf \<noteq> Follower \<Longrightarrow> votedFor rf = int i"
    and mono: "currentTerm (peer s i) \<le> currentTerm rf"
    and bind: "currentTerm rf = currentTerm (peer s i) \<Longrightarrow> bound s i (currentTerm rf) \<Longrightarrow>
       votedFor rf = votedFor (peer s i) \<and> rrole rf \<in> {rrole (peer s i), Follower}"
    and lead: "rrole rf = Leader \<Longrightarrow> (i, currentTerm rf) \<in> elected s"
    and cand: "rrole rf = Candidate \<Longrightarrow> V i (currentTerm rf) = 1 + int (card (voters s i (currentTerm rf)))"
    and V: "\<And>c. c \<noteq> i \<Longrightarrow> V c = votes s c"
    and G: "grants_one s i rf G"
    and ok: "\<And>m. m \<in> N \<Longrightarrow> ballot_ok (setPeer i rf (s\<lparr>net := N, votes := V, granted := G\<rparr>)) m"
    and uniq: "\<And>m m' c v t. m \<in> N \<Longrightarrow> m' \<in> N \<Longrightarrow> ballot c v t m \<Longrightarrow> ballot c v t m' \<Longrightarrow> m = m'"
  shows "election_inv (setPeer i rf (s\<lparr>net := N, votes := V, granted := G\<rparr>))" (is "election_inv ?s")
proof -
  note I = election_invD [OF inv]
  have "peers_inv ?s" using I(1) id by (auto simp: peers_inv_def)
  moreover have "net_inv ?s" by (rule net_invI) (use ok uniq in auto)
  moreover have "granted_inv ?s" by (rule granted_inv_upd [OF I(3) i mono bind G])
  moreover have "counted_inv ?s"
    by (rule counted_inv_upd [OF I(4) mono _ cand V]) (use G in \<open>auto simp: grants_one_def\<close>)
  moreover have "elected_inv ?s" by (rule elected_inv_upd [OF I(5) i mono bind G lead])
  ultimately show ?thesis by (simp add: election_inv_def)
qed

lemma election_inv_quiet_net:
  assumes inv: "election_inv s" and i: "i < size s" and q: "quiet (peer s i) rf"
    and ok: "\<And>m. m \<in> N \<Longrightarrow> ballot_ok s m"
    and uniq: "\<And>m m' c v t. m \<in> N \<Longrightarrow> m' \<in> N \<Longrightarrow> ballot c v t m \<Longrightarrow> ballot c v t m' \<Longrightarrow> m = m'"
  shows "election_inv (setPeer i rf (s\<lparr>net := N\<rparr>))"
proof -
  note I = election_invD [OF inv] and Q = quietD [OF q]
  have "election_inv (setPeer i rf (s\<lparr>net := N, votes := votes s, granted := granted s\<rparr>))"
  proof (rule election_inv_upd [OF inv i])
    show "me rf = int i" "peers rf = size s" "sound rf" using Q peers_invD [OF I(1) i] by auto
    show "rrole rf \<noteq> Follower \<Longrightarrow> votedFor rf = int i" using Q(5) peers_invD(4) [OF I(1) i] by auto
    show "rrole rf = Leader \<Longrightarrow> (i, currentTerm rf) \<in> elected s"
      using I(5) Q(5) i by (auto simp: elected_inv_def)
    show "rrole rf = Candidate \<Longrightarrow> votes s i (currentTerm rf) = 1 + int (card (voters s i (currentTerm rf)))"
      using counted_invD(3) [OF I(4) i] Q(5) by auto
    show "votedFor rf = votedFor (peer s i) \<and> rrole rf \<in> {rrole (peer s i), Follower}"
      if "currentTerm rf = currentTerm (peer s i)" "bound s i (currentTerm rf)"
      using that Q(6) bound_not_candidate [OF I(3,5), of i] by simp
    show "ballot_ok (setPeer i rf (s\<lparr>net := N, votes := votes s, granted := granted s\<rparr>)) m"
      if "m \<in> N" for m
      using ok [OF that] by (rule ballot_okD_other) (use Q(4) in auto)
    show "m = m'" if "m \<in> N" "m' \<in> N" "ballot c v t m" "ballot c v t m'" for m m' c v t
      using uniq that by blast
  qed (use Q in \<open>auto simp: grants_one_def\<close>)
  then show ?thesis by simp
qed

lemma election_inv_quiet:
  assumes inv: "election_inv s" and i: "i < size s" and q: "quiet (peer s i) rf"
    and net: "\<And>m. m \<in> N \<Longrightarrow> m \<in> net s \<or> (ballot_ok s m \<and> (\<forall>c v t. \<not> ballot c v t m))"
  shows "election_inv (setPeer i rf (s\<lparr>net := N\<rparr>))"
  using inv i q
proof (rule election_inv_quiet_net)
  note I = election_invD [OF inv]
  show "ballot_ok s m" if "m \<in> N" for m using net [OF that] net_invD(1) [OF I(2)] by auto
  show "m = m'" if "m \<in> N" "m' \<in> N" "ballot c v t m" "ballot c v t m'" for m m' c v t
    using net [OF that(1)] net [OF that(2)] that(3,4) net_invD(2) [OF I(2)] by blast
qed

lemma election_inv_same_net:
  assumes "election_inv s" and "i < size s" and "quiet (peer s i) rf"
  shows "election_inv (setPeer i rf s)"
  using election_inv_quiet [OF assms, of "net s"] by simp

lemma election_inv_net:
  assumes "election_inv s"
    and "\<And>m. m \<in> N \<Longrightarrow> m \<in> net s \<or> (ballot_ok s m \<and> (\<forall>c v t. \<not> ballot c v t m))"
  shows "election_inv (s\<lparr>net := N\<rparr>)"
proof (cases "size s")
  case 0
  note I = election_invD [OF assms(1)]
  have "net_inv (s\<lparr>net := N\<rparr>)"
  proof (rule net_invI)
    fix m assume "m \<in> net (s\<lparr>net := N\<rparr>)"
    then have "ballot_ok s m" using assms(2) [of m] net_invD(1) [OF I(2)] by auto
    then show "ballot_ok (s\<lparr>net := N\<rparr>) m" by (rule ballot_okD_other) auto
  next
    fix m m' c v t assume "m \<in> net (s\<lparr>net := N\<rparr>)" "m' \<in> net (s\<lparr>net := N\<rparr>)"
      and b: "ballot c v t m" "ballot c v t m'"
    then show "m = m'"
      using assms(2) [of m] assms(2) [of m'] net_invD(2) [OF I(2)] by auto
  qed
  with I show ?thesis
    by (simp add: election_inv_def peers_inv_def granted_inv_def counted_inv_def elected_inv_def voters_def)
next
  case (Suc n)
  then have i: "0 < size s" by simp
  have "quiet (peer s 0) (peer s 0)"
    using peers_invD(3) [OF election_invD(1) [OF assms(1)] i] by (rule quiet_refl)
  from election_inv_quiet [OF assms(1) i this, of N] assms(2) show ?thesis
    by (simp add: setPeer_def)
qed

subsection \<open>An election is started\<close>

lemma goMsgs_append: "m \<in> goMsgs i (appendsL rf) \<Longrightarrow> ballot_ok s m \<and> (\<forall>c v t. \<not> ballot c v t m)"
  by (auto simp: goMsgs_def appendsL_def)

lemma goMsgs_no_ballot:
  assumes "tasks = [] \<or> tasks = appendsL rf" and "m \<in> net s \<union> goMsgs i tasks"
  shows "m \<in> net s \<or> (ballot_ok s m \<and> (\<forall>c v t. \<not> ballot c v t m))"
  using assms goMsgs_append [of m i rf s] by (auto simp: goMsgs_def)

lemma goMsgs_request:
  assumes "m \<in> goMsgs i (map (\<lambda>j. RequestTask j args) (otherPeers rf))" and "me rf = int i"
  shows "\<exists>v. m = VoteRequest i v args \<and> v < peers rf \<and> v \<noteq> i"
  using assms by (auto simp: goMsgs_def otherPeers_def)

lemma election_inv_candidate:
  assumes inv: "election_inv s" and i: "i < size s"
    and b: "becomeCandidateL clk (peer s i) = Inr (rf, tasks)"
  shows "election_inv (setPeer i rf (s\<lparr>net := net s \<union> goMsgs i tasks,
      votes := (votes s)(i := (votes s i)(currentTerm rf := 1))\<rparr>))"
proof -
  note I = election_invD [OF inv]
  note P = peers_invD [OF I(1) i]
  have wf: "wf_raft (peer s i)" using P(3) by (rule soundD)
  define args where "args = voteArgs (candidate clk (peer s i))"
  have rf: "rf = candidate clk (peer s i)"
    and tasks: "tasks = map (\<lambda>j. RequestTask j args) (otherPeers rf)"
    using b by (auto simp: becomeCandidateL_eq [OF wf] args_def)
  have t: "currentTerm rf = currentTerm (peer s i) + 1" "rrole rf = Candidate" "votedFor rf = int i"
    "me rf = int i" "peers rf = size s" "sound rf" "rv_Term args = currentTerm rf"
    "rv_CandidateId args = int i"
    using P wf by (simp_all add: rf sound_def args_def voteArgs_def)
  have new: "\<exists>v. m = VoteRequest i v args \<and> v < size s \<and> v \<noteq> i" if "m \<in> goMsgs i tasks" for m
    using goMsgs_request [of m i args rf] that t by (simp add: tasks)
  have no_g: "(v, i, currentTerm rf) \<notin> granted s" for v
    using granted_invD(7) [OF I(3), of v i "currentTerm rf"] t(1) by auto
  have no_c: "voters s i (currentTerm rf) = {}"
    using counted_invD(2) [OF I(4), of _ i "currentTerm rf"] t(1) by (auto simp: voters_def)
  have old: "m \<in> net s \<Longrightarrow> \<not> ballot i v (currentTerm rf) m" for m v
    using net_invD(1) [OF I(2), of m] t(1) by (cases m) auto
  have "election_inv (setPeer i rf (s\<lparr>net := net s \<union> goMsgs i tasks,
      votes := (votes s)(i := (votes s i)(currentTerm rf := 1)), granted := granted s\<rparr>))"
    (is "election_inv ?s")
  proof (rule election_inv_upd [OF inv i])
    show "ballot_ok ?s m" if "m \<in> net s \<union> goMsgs i tasks" for m
    proof (cases "m \<in> net s")
      case True
      with net_invD(1) [OF I(2)] have "ballot_ok s m" by blast
      then show ?thesis by (rule ballot_okD_other) (use t in auto)
    next
      case False
      with that new [of m] i t no_g show ?thesis by auto
    qed
    show "m = m'" if "m \<in> net s \<union> goMsgs i tasks" "m' \<in> net s \<union> goMsgs i tasks"
      "ballot c v t' m" "ballot c v t' m'" for m m' c v t'
      using that new [of m] new [of m'] old net_invD(2) [OF I(2), of m m' c v t'] t(7) by auto
  qed (use t no_c in \<open>auto simp: grants_one_def\<close>)
  then show ?thesis by simp
qed

subsection \<open>A vote is granted\<close>

lemma grant_unbound:
  assumes inv: "election_inv s" and v: "v < size s" and c: "c \<noteq> v"
    and g: "grants args (peer s v)" and id: "rv_CandidateId args = int c"
    and fresh: "(v, c, rv_Term args) \<notin> granted s"
  shows "\<not> bound s v (rv_Term args)"
    and "rrole (stepDown (rv_Term args) (peer s v)) = Follower"
proof -
  note I = election_invD [OF inv]
  have same: "rrole (peer s v) = Follower" "votedFor (peer s v) \<in> {NA, int c}"
    if "rv_Term args = currentTerm (peer s v)"
    using that g id peers_invD(4) [OF I(1) v] c
    by (cases "rrole (peer s v) = Follower"; auto simp: grants_def NA_def)+
  have le: "currentTerm (peer s v) \<le> rv_Term args" using g by (simp add: grants_def)
  show "\<not> bound s v (rv_Term args)"
  proof
    assume "bound s v (rv_Term args)"
    then consider c' where "(v, c', rv_Term args) \<in> granted s" | "(v, rv_Term args) \<in> elected s"
      by (auto simp: bound_def)
    then show False
    proof cases
      case 1
      with granted_invD(4,5) [OF I(3) 1] le same fresh show False
        by (cases "c' = c") (auto simp: NA_def)
    next
      case 2
      with elected_invD(3,4) [OF I(5) 2] le same c show False by (auto simp: NA_def)
    qed
  qed
  show "rrole (stepDown (rv_Term args) (peer s v)) = Follower"
    using same(1) le by (auto simp: stepDown_role)
qed

lemma election_inv_grant:
  assumes inv: "election_inv s" and m: "VoteRequest c v args \<in> net s"
    and g: "grants args (peer s v)"
    and rf: "rf = resetElectionTimeoutL clk False
        (persistL ((stepDown (rv_Term args) (peer s v))\<lparr>votedFor := rv_CandidateId args\<rparr>))"
    and reply: "VoteGranted reply"
  shows "election_inv (setPeer v rf
      (s\<lparr>net := net s - {VoteRequest c v args} \<union> {VoteReply c v args reply},
         granted := insert (v, c, rv_Term args) (granted s)\<rparr>))"
proof -
  let ?N = "net s - {VoteRequest c v args} \<union> {VoteReply c v args reply}"
    and ?t = "rv_Term args"
  note I = election_invD [OF inv]
  have B: "c < size s" "v < size s" "c \<noteq> v" "rv_CandidateId args = int c"
    "?t \<le> currentTerm (peer s c)" "(v, c, ?t) \<notin> granted s"
    using net_invD(1) [OF I(2) m] by auto
  note P = peers_invD [OF I(1) B(2)] and U = grant_unbound [OF inv B(2,3) g B(4,6)]
  have wf: "wf_raft (peer s v)" using P(3) by (rule soundD)
  have t: "currentTerm rf = ?t" "votedFor rf = int c" "me rf = int v" "peers rf = size s" "sound rf"
    "currentTerm (peer s v) \<le> ?t" "rrole rf = Follower"
    using P(1,2) wf g B(4) U(2) by (auto simp: rf grants_def sound_def)
  have "election_inv (setPeer v rf (s\<lparr>net := ?N, votes := votes s,
      granted := insert (v, c, ?t) (granted s)\<rparr>))" (is "election_inv ?s")
  proof (rule election_inv_upd [OF inv B(2)])
    show "grants_one s v rf (insert (v, c, ?t) (granted s))"
      using B t U by (auto simp: grants_one_def)
    show "ballot_ok ?s m'" if m': "m' \<in> ?N" for m'
    proof (cases "m' = VoteReply c v args reply")
      case True
      moreover have "(v, c, ?t) \<notin> counted s" using B(6) counted_invD(1) [OF I(4)] by blast
      ultimately show ?thesis using B by simp
    next
      case False
      with m' have m'': "m' \<in> net s" "m' \<noteq> VoteRequest c v args" by auto
      have "ballot_ok s m'" using net_invD(1) [OF I(2)] m'' by blast
      moreover have "\<not> ballot c v ?t m'" using net_invD(2) [OF I(2) m''(1) m, of c v ?t] m''(2) by auto
      ultimately show ?thesis using t(1,6) by (cases m') (auto intro: order_trans)
    qed
    show "m1 = m2" if "m1 \<in> ?N" "m2 \<in> ?N" "ballot c' v' t' m1" "ballot c' v' t' m2" for m1 m2 c' v' t'
      using that net_invD(2) [OF I(2), of m1 m2 c' v' t'] net_invD(2) [OF I(2) m, of m1 c v ?t]
        net_invD(2) [OF I(2) m, of m2 c v ?t] by auto
  qed (use t U in auto)
  then show ?thesis by simp
qed

text \<open>The voter refuses: the request turns into a reply without a vote.\<close>

lemma election_inv_refuse:
  assumes inv: "election_inv s" and m: "VoteRequest c v args \<in> net s" and r: "\<not> VoteGranted reply"
    and q: "quiet (peer s v) rf"
  shows "election_inv (setPeer v rf
      (s\<lparr>net := net s - {VoteRequest c v args} \<union> {VoteReply c v args reply}\<rparr>))"
proof -
  let ?N = "net s - {VoteRequest c v args} \<union> {VoteReply c v args reply}" and ?t = "rv_Term args"
  note I = election_invD [OF inv]
  have B: "c < size s" "v < size s" "c \<noteq> v" "rv_CandidateId args = int c"
    "?t \<le> currentTerm (peer s c)" "(v, c, ?t) \<notin> granted s"
    using net_invD(1) [OF I(2) m] by auto
  show ?thesis
    using inv B(2) q
  proof (rule election_inv_quiet_net)
    have "(v, c, ?t) \<notin> counted s" using B(6) counted_invD(1) [OF I(4)] by blast
    then show "ballot_ok s m'" if "m' \<in> ?N" for m'
      using that net_invD(1) [OF I(2), of m'] B r by auto
    show "m1 = m2" if "m1 \<in> ?N" "m2 \<in> ?N" "ballot c' v' t' m1" "ballot c' v' t' m2" for m1 m2 c' v' t'
      using that net_invD(2) [OF I(2), of m1 m2 c' v' t'] net_invD(2) [OF I(2) m, of m1 c v ?t]
        net_invD(2) [OF I(2) m, of m2 c v ?t] by auto
  qed
qed

subsection \<open>A vote is counted\<close>

text \<open>
  Candidate \<open>c\<close> takes a granted vote of peer \<open>v\<close> off the network and counts it; with that
  vote it may become the leader. \<open>counting\<close> says when the code does so and with which new
  state, \<open>count_vote\<close> is the cluster after it.
\<close>

definition counting ::
    "('c, 's) cluster \<Rightarrow> nat \<Rightarrow> nat \<Rightarrow> RequestVoteArgs \<Rightarrow> RequestVoteReply \<Rightarrow> ('c, 's) Raft \<Rightarrow> bool" where
  "counting s c v args reply rf \<longleftrightarrow>
     election_inv s \<and> VoteReply c v args reply \<in> net s \<and> VoteGranted reply \<and>
     currentTerm (peer s c) = rv_Term args \<and> rrole (peer s c) = Candidate \<and>
     rf = (if majority (size s) (insert c (insert v (voters s c (rv_Term args))))
           then leader (peer s c) else peer s c)"

definition count_vote ::
    "('c, 's) cluster \<Rightarrow> nat \<Rightarrow> nat \<Rightarrow> RequestVoteArgs \<Rightarrow> RequestVoteReply \<Rightarrow> ('c, 's) Raft
       \<Rightarrow> task list \<Rightarrow> ('c, 's) cluster" where
  "count_vote s c v args reply rf tasks = setPeer c rf
     (s\<lparr>net := net s - {VoteReply c v args reply} \<union> goMsgs c tasks,
        votes := (votes s)(c := (votes s c)(rv_Term args := votes s c (rv_Term args) + 1)),
        counted := insert (v, c, rv_Term args) (counted s),
        elected := (if rrole rf = Leader then insert (c, rv_Term args) (elected s) else elected s)\<rparr>)"

lemma count_vote_sel [simp]:
  "size (count_vote s c v args reply rf tasks) = size s"
  "peer (count_vote s c v args reply rf tasks) = (peer s)(c := rf)"
  "net (count_vote s c v args reply rf tasks) = net s - {VoteReply c v args reply} \<union> goMsgs c tasks"
  "votes (count_vote s c v args reply rf tasks) =
     (votes s)(c := (votes s c)(rv_Term args := votes s c (rv_Term args) + 1))"
  "granted (count_vote s c v args reply rf tasks) = granted s"
  "counted (count_vote s c v args reply rf tasks) = insert (v, c, rv_Term args) (counted s)"
  "elected (count_vote s c v args reply rf tasks) =
     (if rrole rf = Leader then insert (c, rv_Term args) (elected s) else elected s)"
  by (simp_all add: count_vote_def)

lemma voters_count_vote:
  "voters (count_vote s c v args reply rf tasks) c' t' =
     (if c' = c \<and> t' = rv_Term args then insert v (voters s c t') else voters s c' t')"
  by (auto simp: voters_def)

lemma countingD:
  assumes "counting s c v args reply rf"
  shows "election_inv s" "VoteReply c v args reply \<in> net s"
    "c < size s" "v < size s" "c \<noteq> v" "(v, c, rv_Term args) \<notin> counted s" "(v, c, rv_Term args) \<in> granted s"
    "currentTerm (peer s c) = rv_Term args" "rrole (peer s c) = Candidate"
    "me rf = int c" "peers rf = size s" "sound rf" "currentTerm rf = rv_Term args" "votedFor rf = int c"
    "rrole rf = Leader \<or> rf = peer s c" "(c, c', rv_Term args) \<notin> granted s" "(c, rv_Term args) \<notin> elected s"
    "rrole rf = Leader \<Longrightarrow> majority (size s) (insert c (insert v (voters s c (rv_Term args))))"
proof -
  have inv: "election_inv s" and m: "VoteReply c v args reply \<in> net s" and vote: "VoteGranted reply"
    and t: "currentTerm (peer s c) = rv_Term args" and role: "rrole (peer s c) = Candidate"
    and rf: "rf = (if majority (size s) (insert c (insert v (voters s c (rv_Term args))))
              then leader (peer s c) else peer s c)"
    using assms by (simp_all add: counting_def)
  note I = election_invD [OF inv]
  show B: "c < size s" "v < size s" "c \<noteq> v" "(v, c, rv_Term args) \<notin> counted s" "(v, c, rv_Term args) \<in> granted s"
    using net_invD(1) [OF I(2) m] vote by auto
  note P = peers_invD [OF I(1) B(1)]
  show "me rf = int c" "peers rf = size s" "sound rf" "currentTerm rf = rv_Term args" "votedFor rf = int c"
    "rrole rf = Leader \<or> rf = peer s c"
    using P t role leader_wf [of "peer s c"] by (auto simp: rf sound_def)
  show "(c, c', rv_Term args) \<notin> granted s"
    using granted_invD(5) [OF I(3) _ t [symmetric]] role by fastforce
  show "(c, rv_Term args) \<notin> elected s"
    using elected_invD(4) [OF I(5) _ t [symmetric]] role by blast
  show "rrole rf = Leader \<Longrightarrow> majority (size s) (insert c (insert v (voters s c (rv_Term args))))"
    using role by (auto simp: rf split: if_splits)
qed (use assms in \<open>simp_all add: counting_def\<close>)

lemma count_vote_terms:
  assumes "counting s c v args reply rf"
  shows "currentTerm (peer (count_vote s c v args reply rf tasks) j) = currentTerm (peer s j)"
    "votedFor (peer (count_vote s c v args reply rf tasks) j) = votedFor (peer s j)"
    "j \<noteq> c \<Longrightarrow> rrole (peer (count_vote s c v args reply rf tasks) j) = rrole (peer s j)"
  using countingD(8,9,13,14) [OF assms]
    peers_invD(4) [OF election_invD(1) [OF countingD(1) [OF assms]] countingD(3) [OF assms]]
  by simp_all

lemma count_vote_net_inv:
  assumes "counting s c v args reply rf" and "tasks = [] \<or> tasks = appendsL rf"
  shows "net_inv (count_vote s c v args reply rf tasks)" (is "net_inv ?s")
proof (rule net_invI)
  note C = countingD [OF assms(1)] and tm = count_vote_terms [OF assms(1)]
  note I = election_invD [OF C(1)]
  have N: "m \<in> net s \<and> m \<noteq> VoteReply c v args reply \<or> (ballot_ok s m \<and> (\<forall>c v t. \<not> ballot c v t m))"
    if "m \<in> net ?s" for m
    using that goMsgs_append [of m c rf s] assms(2) by (auto simp: goMsgs_def)
  show "ballot_ok ?s m" if "m \<in> net ?s" for m
  proof -
    have "ballot_ok s m" using N [OF that] net_invD(1) [OF I(2)] by blast
    moreover have "\<not> ballot c v (rv_Term args) m"
      using N [OF that] net_invD(2) [OF I(2) _ C(2), of m c v "rv_Term args"] by auto
    ultimately show ?thesis using C(8,13) by (cases m) auto
  qed
  show "m1 = m2" if "m1 \<in> net ?s" "m2 \<in> net ?s" "ballot c' v' t' m1" "ballot c' v' t' m2" for m1 m2 c' v' t'
    using N [OF that(1)] N [OF that(2)] that(3,4) net_invD(2) [OF I(2), of m1 m2 c' v' t'] by auto
qed

lemma count_vote_granted_inv:
  assumes "counting s c v args reply rf"
  shows "granted_inv (count_vote s c v args reply rf tasks)" (is "granted_inv ?s")
proof (rule granted_invI)
  note C = countingD [OF assms] and tm = count_vote_terms [OF assms]
  note G = granted_invD [OF election_invD(3) [OF C(1)]]
  fix v' c' t' assume "(v', c', t') \<in> granted ?s"
  then have g: "(v', c', t') \<in> granted s" by simp
  show "v' < size ?s \<and> c' < size ?s \<and> v' \<noteq> c'" using G(1-3) [OF g] by simp
  show "t' \<le> currentTerm (peer ?s v') \<and> t' \<le> currentTerm (peer ?s c')"
    unfolding tm using G(4,7) [OF g] by simp
  show "votedFor (peer ?s v') = int c' \<and> rrole (peer ?s v') = Follower"
    if "t' = currentTerm (peer ?s v')"
  proof -
    have "t' = currentTerm (peer s v')" using that unfolding tm by simp
    moreover from this have "v' \<noteq> c" using C(8,16) g by auto
    ultimately show ?thesis using G(5) [OF g] tm(2,3) [where j = v'] by simp
  qed
next
  fix v' c1 c2 t' assume "(v', c1, t') \<in> granted ?s" "(v', c2, t') \<in> granted ?s"
  then show "c2 = c1"
    using granted_invD(6) [OF election_invD(3) [OF countingD(1) [OF assms]]] by simp
qed

lemma count_vote_counted_inv:
  assumes "counting s c v args reply rf"
  shows "counted_inv (count_vote s c v args reply rf tasks)" (is "counted_inv ?s")
proof (rule counted_invI)
  note C = countingD [OF assms] and tm = count_vote_terms [OF assms]
  note I = election_invD [OF C(1)]
  fix v' c' t' assume "(v', c', t') \<in> counted ?s"
  then show "(v', c', t') \<in> granted ?s" "t' \<le> currentTerm (peer ?s c')"
    unfolding tm using counted_invD(1,2) [OF I(4)] C(7,8) by auto
next
  note C = countingD [OF assms]
  note I = election_invD [OF C(1)]
  fix c' assume c': "c' < size ?s" "rrole (peer ?s c') = Candidate"
  show "votes ?s c' (currentTerm (peer ?s c')) = 1 + int (card (voters ?s c' (currentTerm (peer ?s c'))))"
  proof (cases "c' = c")
    case True
    have "votes s c (rv_Term args) = 1 + int (card (voters s c (rv_Term args)))"
      using counted_invD(3) [OF I(4) C(3,9)] C(8) by simp
    moreover have "finite (voters s c (rv_Term args))"
      using voters_finite [OF I(3,4)] finite_subset by blast
    moreover have "v \<notin> voters s c (rv_Term args)" using C(6) by (simp add: voters_def)
    ultimately show ?thesis using True C(13) by (simp add: voters_count_vote)
  next
    case False
    with c' counted_invD(3) [OF I(4), of c'] show ?thesis by (simp add: voters_count_vote)
  qed
qed

lemma count_vote_elected_inv:
  assumes "counting s c v args reply rf"
  shows "elected_inv (count_vote s c v args reply rf tasks)" (is "elected_inv ?s")
proof (rule elected_invI)
  note C = countingD [OF assms] and tm = count_vote_terms [OF assms]
  note I = election_invD [OF C(1)]
  fix c' t' assume "(c', t') \<in> elected ?s"
  then consider (old) "(c', t') \<in> elected s" | (new) "c' = c" "t' = rv_Term args" "rrole rf = Leader"
    by (auto split: if_splits)
  note cs = this
  show "c' < size ?s" using cs elected_invD(1) [OF I(5)] C by cases auto
  show "majority (size ?s) (insert c' (voters ?s c' t'))"
    using cs C(17,18) elected_invD(2) [OF I(5), of c' t'] by cases (auto simp: voters_count_vote)
  show "(c', c'', t') \<notin> granted ?s" for c'' using cs elected_invD(5) [OF I(5)] C(16) by cases auto
  show "t' \<le> currentTerm (peer ?s c')" unfolding tm using cs elected_invD(3) [OF I(5)] C(8) by cases auto
  show "votedFor (peer ?s c') = int c' \<and> rrole (peer ?s c') \<noteq> Candidate"
    if t': "t' = currentTerm (peer ?s c')"
    using cs
  proof cases
    case old
    moreover from this have "c' \<noteq> c" using t' C(13,17) by auto
    ultimately show ?thesis using t' elected_invD(4) [OF I(5) old] by simp
  next
    case new
    then show ?thesis using C(14) by simp
  qed
next
  note C = countingD [OF assms]
  fix c' assume "c' < size ?s" "rrole (peer ?s c') = Leader"
  then show "(c', currentTerm (peer ?s c')) \<in> elected ?s"
    using election_invD(5) [OF C(1)] C(13) by (cases "c' = c") (auto simp: elected_inv_def)
qed

lemma election_inv_count:
  assumes "counting s c v args reply rf" and "tasks = [] \<or> tasks = appendsL rf"
  shows "election_inv (count_vote s c v args reply rf tasks)"
proof -
  note C = countingD [OF assms(1)]
  have "peers_inv (count_vote s c v args reply rf tasks)"
    unfolding peers_inv_def
  proof (intro allI impI)
    fix i assume "i < size (count_vote s c v args reply rf tasks)"
    then show "me (peer (count_vote s c v args reply rf tasks) i) = int i \<and>
      peers (peer (count_vote s c v args reply rf tasks) i) = size (count_vote s c v args reply rf tasks) \<and>
      sound (peer (count_vote s c v args reply rf tasks) i) \<and>
      (rrole (peer (count_vote s c v args reply rf tasks) i) \<noteq> Follower \<longrightarrow>
         votedFor (peer (count_vote s c v args reply rf tasks) i) = int i)"
      using peers_invD [OF election_invD(1) [OF C(1)], of i] C(10-12,14) by simp
  qed
  with assms show ?thesis
    by (simp add: election_inv_def count_vote_net_inv count_vote_granted_inv
        count_vote_counted_inv count_vote_elected_inv)
qed

lemma vote_majority:
  assumes "election_inv s" and "VoteReply c v args reply \<in> net s" and "VoteGranted reply"
    and "currentTerm (peer s c) = rv_Term args" and "rrole (peer s c) = Candidate"
  shows "nPeers (peer s c) div 2 < votes s c (rv_Term args) + 1 \<longleftrightarrow>
    majority (size s) (insert c (insert v (voters s c (rv_Term args))))"
proof -
  note I = election_invD [OF assms(1)]
  have B: "c < size s" "v < size s" "c \<noteq> v" "(v, c, rv_Term args) \<notin> counted s"
    using net_invD(1) [OF I(2) assms(2)] by auto
  let ?V = "voters s c (rv_Term args)"
  have V: "?V \<subseteq> {..<size s} - {c}" by (rule voters_finite [OF I(3,4)])
  moreover have "v \<notin> ?V" using B(4) by (simp add: voters_def)
  moreover have "finite ?V" using V finite_subset by blast
  moreover have "c \<notin> ?V" using V by blast
  ultimately have "card (insert c (insert v ?V)) = card ?V + 2" using B(3) by simp
  moreover have "votes s c (rv_Term args) = 1 + int (card ?V)"
    using counted_invD(3) [OF I(4) B(1) assms(5)] assms(4) by simp
  moreover have "nPeers (peer s c) div 2 = int (size s div 2)"
    using peers_invD(2) [OF I(1) B(1)] by (simp add: nPeers_def zdiv_int)
  ultimately show ?thesis using V B by (auto simp: majority_def)
qed

lemma election_inv_reply:
  assumes inv: "election_inv s" and m: "VoteReply c v args reply \<in> net s"
    and step: "processRequestReplyL args reply (votes s c (rv_Term args)) (peer s c) = Inr (rf, vs, tasks)"
  shows "election_inv (setPeer c rf
      (s\<lparr>net := net s - {VoteReply c v args reply} \<union> goMsgs c tasks,
         votes := (votes s)(c := (votes s c)(rv_Term args := vs)),
         counted := (if vs = votes s c (rv_Term args) then counted s
                     else insert (v, c, rv_Term args) (counted s)),
         elected := (if rrole (peer s c) \<noteq> Leader \<and> rrole rf = Leader
                     then insert (c, currentTerm rf) (elected s) else elected s)\<rparr>))"
proof -
  note I = election_invD [OF inv]
  have c: "c < size s" using net_invD(1) [OF I(2) m] by simp
  have snd: "sound (peer s c)" by (rule peers_invD(3) [OF I(1) c])
  note eq = step [unfolded processRequestReplyL_eq [OF soundD(1) [OF snd]]]
  show ?thesis
  proof (cases "currentTerm (peer s c) = rv_Term args \<and> rrole (peer s c) = Candidate \<and> VoteGranted reply")
    case True
    then have maj: "nPeers (peer s c) div 2 < votes s c (rv_Term args) + 1 \<longleftrightarrow>
        majority (size s) (insert c (insert v (voters s c (rv_Term args))))"
      using vote_majority [OF inv m] by simp
    have "counting s c v args reply rf" "tasks = [] \<or> tasks = appendsL rf"
      "vs = votes s c (rv_Term args) + 1" "currentTerm rf = rv_Term args"
      using True eq inv m maj by (auto simp: counting_def heartbeatsL_def split: if_splits)
    with election_inv_count [of s c v args reply rf tasks] True show ?thesis
      by (cases "rrole rf = Leader") (simp_all add: count_vote_def)
  next
    case False
    then have r: "quiet (peer s c) rf" "vs = votes s c (rv_Term args)" "tasks = []"
      "rrole rf = Leader \<Longrightarrow> rrole (peer s c) = Leader"
      using eq quiet_refl [OF snd] quiet_stepDown [OF snd]
      by (auto simp: stepDown_role split: if_splits)
    have "election_inv (setPeer c rf (s\<lparr>net := net s - {VoteReply c v args reply}\<rparr>))"
      by (rule election_inv_quiet [OF inv c r(1)]) auto
    with r(2-4) show ?thesis by (auto simp: goMsgs_def)
  qed
qed

subsection \<open>Every step keeps the invariant\<close>

lemma makeAppendArgsL_wf:
  assumes "wf_raft rf" and "makeAppendArgsL server rf = Inr args"
  shows "wf_append args"
proof -
  from assms(2) obtain nx last entries where nx: "idx (nextIndex rf) server = Inr nx"
    and last: "lastLogL rf = Inr last"
    and en: "(if le_Index last \<ge> nx then gbind (logSliceIndexL nx rf) (\<lambda>i. slice_from (rlog rf) i)
              else Inr []) = Inr entries"
    and args: "PrevLogIndex args = nx - 1" "Entries args = entries"
    by (auto simp: makeAppendArgsL_def)
  show ?thesis
  proof (cases "le_Index last \<ge> nx")
    case True
    with en assms(1) have "entries = drop (nat (nx - first_index (rlog rf))) (rlog rf)"
      and ge: "first_index (rlog rf) \<le> nx"
      by (auto simp: logSliceIndexL_def slice_from_def NA_def split: if_splits)
    with consecutive_drop [of "first_index (rlog rf)" "rlog rf" "nat (nx - first_index (rlog rf))"]
      assms(1) args wf_log_consecutive [of "rlog rf"]
    show ?thesis by (simp add: wf_append_def)
  next
    case False
    with en args show ?thesis by (simp add: wf_append_def)
  qed
qed

lemma outMsgs_ok:
  assumes "wf_raft rf" and "appendL server t rf = Inr out" and "m \<in> outMsgs i j out"
  shows "ballot_ok s m \<and> (\<forall>c v t. \<not> ballot c v t m)"
proof (cases out)
  case (SendAppendEntries args)
  with assms(2) have "makeAppendArgsL server rf = Inr args"
    by (auto simp: appendL_def split: if_splits)
  with SendAppendEntries assms(3) makeAppendArgsL_wf [OF assms(1)] show ?thesis by auto
qed (use assms(3) in auto)

lemma idle_tick_quiet:
  assumes "rrole rf = Leader \<or> now clk \<le> electionTimeout rf" and "tick clk rf = Inr (rf', tasks)"
  shows "rf' = rf \<and> (tasks = [] \<or> tasks = appendsL rf)"
  using assms by (auto simp: tick_def heartbeatsL_def split: if_splits)

lemma election_inv_step:
  assumes "cluster_step s s'" and inv: "election_inv s"
  shows "election_inv s'"
proof -
  note I = election_invD [OF inv]
  have snd: "sound (peer s i)" if "i < size s" for i using peers_invD(3) [OF I(1) that] .
  from assms(1) show ?thesis
  proof cases
    case (lose m)
    then show ?thesis using inv by (auto intro: election_inv_net)
  next
    case (idle_tick i clk rf tasks)
    have r: "rf = peer s i" "tasks = [] \<or> tasks = appendsL (peer s i)"
      using idle_tick_quiet [OF idle_tick(3,4)] by auto
    show ?thesis unfolding idle_tick(1) r(1)
      by (rule election_inv_quiet [OF inv idle_tick(2) quiet_refl [OF snd [OF idle_tick(2)]]])
        (rule goMsgs_no_ballot [OF r(2)])
  next
    case (election_tick i clk rf tasks)
    then show ?thesis using election_inv_candidate [OF inv] by (simp add: tick_def)
  next
    case (vote_request c v args clk rf reply)
    have v: "v < size s" using net_invD(1) [OF I(2) vote_request(2)] by simp
    note eq = vote_request(3) [unfolded RequestVote_eq [OF soundD(1) [OF snd [OF v]]]]
    show ?thesis
    proof (cases "grants args (peer s v)")
      case True
      with eq election_inv_grant [OF inv vote_request(2) True, of rf clk reply] show ?thesis
        unfolding vote_request(1) by auto
    next
      case False
      with eq have r: "rf = stepDown (rv_Term args) (peer s v)" "\<not> VoteGranted reply" by auto
      show ?thesis
        unfolding vote_request(1) r(1)
        using election_inv_refuse [OF inv vote_request(2) r(2) quiet_stepDown [OF snd [OF v]]] r(2)
        by simp
    qed
  next
    case (vote_reply c v args reply rf vs tasks)
    then show ?thesis using election_inv_reply [OF inv] by simp
  next
    case (append_send i j t out)
    show ?thesis unfolding append_send(1)
      by (rule election_inv_net [OF inv])
        (use outMsgs_ok [OF soundD(1) [OF snd [OF append_send(3)]] append_send(4)] in auto)
  next
    case (append_request l f args clk rf reply)
    have "wf_append args" using net_invD(1) [OF I(2) append_request(2)] by simp
    then have "quiet (peer s f) rf"
      using quiet_AppendEntries [OF snd [OF append_request(3)] _ append_request(4)] by simp
    then show ?thesis unfolding append_request(1)
      by (rule election_inv_quiet [OF inv append_request(3)]) auto
  next
    case (append_reply l f args reply rf)
    have "quiet (peer s l) rf"
      by (rule quiet_processAppendReplyL [OF snd [OF append_reply(3)] append_reply(4)])
    then show ?thesis unfolding append_reply(1)
      by (rule election_inv_same_net [OF inv append_reply(3)])
  next
    case (install_request l f args clk rf reply')
    have "quiet (peer s f) rf"
      by (rule quiet_InstallSnapshot [OF snd [OF install_request(3)] install_request(4)])
    then show ?thesis unfolding install_request(1)
      by (rule election_inv_quiet [OF inv install_request(3)]) auto
  next
    case (install_reply l f args reply' rf)
    have "quiet (peer s l) rf"
      by (rule quiet_processInstallReplyL [OF snd [OF install_reply(3)] install_reply(4)])
    then show ?thesis unfolding install_reply(1)
      by (rule election_inv_same_net [OF inv install_reply(3)])
  next
    case (client_start i c res rf tasks)
    have "tasks = [] \<or> tasks = appendsL rf"
      using client_start(3) by (auto simp: Start_eq [OF soundD(1) [OF snd [OF client_start(2)]]] Let_def split: if_splits)
    then show ?thesis unfolding client_start(1)
      by (intro election_inv_quiet [OF inv client_start(2) quiet_Start [OF snd [OF client_start(2)] client_start(3)]])
        (rule goMsgs_no_ballot)
  next
    case (service_snapshot i index data rf)
    then show ?thesis using election_inv_same_net [OF inv] quiet_Snapshot [OF snd] by simp
  next
    case (applier i rf out')
    then show ?thesis using election_inv_same_net [OF inv] quiet_applyStep [OF snd] by simp
  next
    case (restart i clk clk' rf)
    then have "quiet (peer s i) rf"
      using quiet_restart [OF snd, of i clk clk' rf] peers_invD(1,2) [OF I(1)] by simp
    then show ?thesis unfolding restart(1) by (rule election_inv_same_net [OF inv restart(2)])
  qed
qed

subsection \<open>Election safety\<close>

lemma reachable_inv: "reachable n s \<Longrightarrow> election_inv s"
proof -
  have "cluster_step\<^sup>*\<^sup>* s0 s \<Longrightarrow> election_inv s0 \<Longrightarrow> election_inv s" for s0
    by (induction rule: rtranclp_induct) (auto intro: election_inv_step)
  then show "reachable n s \<Longrightarrow> election_inv s"
    using election_inv_start by (auto simp: reachable_def cluster_steps_def)
qed

text \<open>A term that is won stays won, and the size of the cluster is fixed.\<close>

lemma elected_mono_step: "cluster_step s s' \<Longrightarrow> elected s \<subseteq> elected s'"
  by (cases rule: cluster_step.cases) auto

lemma elected_mono: "cluster_steps s s' \<Longrightarrow> elected s \<subseteq> elected s'"
  unfolding cluster_steps_def
  by (induction rule: rtranclp_induct) (auto dest: elected_mono_step)

lemma size_step: "cluster_step s s' \<Longrightarrow> size s' = size s"
  by (cases rule: cluster_step.cases) auto

lemma size_steps: "cluster_steps s s' \<Longrightarrow> size s' = size s"
  unfolding cluster_steps_def
  by (induction rule: rtranclp_induct) (auto dest: size_step)

text \<open>Two winners of a term share a voter, who can have voted for one of them only.\<close>

lemma elected_unique:
  assumes inv: "election_inv s" and a: "(a, t) \<in> elected s" and b: "(b, t) \<in> elected s"
  shows "a = b"
proof -
  note I = election_invD [OF inv]
  define chose where "chose v c \<longleftrightarrow> (v, c, t) \<in> granted s \<or> v = c \<and> (c, t) \<in> elected s" for v c
  have all: "chose v c" if "(c, t) \<in> elected s" "v \<in> insert c (voters s c t)" for v c
    using that counted_invD(1) [OF I(4), of v c t] by (auto simp: chose_def voters_def)
  have once: "c = c'" if "chose v c" "chose v c'" for v c c'
    using that granted_invD(6) [OF I(3), of v c t c'] elected_invD(5) [OF I(5), of v t]
    by (auto simp: chose_def)
  show ?thesis
    using elected_invD(2) [OF I(5) a] elected_invD(2) [OF I(5) b] all [OF a] all [OF b] once
    by (rule majority.quorum_agree)
qed

lemma leader_elected:
  assumes "election_inv s" and "i < size s" and "rrole (peer s i) = Leader"
  shows "(i, currentTerm (peer s i)) \<in> elected s"
  using assms election_invD(5) [OF assms(1)] by (simp add: elected_inv_def)

end
