(* ===== verification/Raft_Props.thy ===== *)
theory Raft_Props
  imports Raft_Election
begin

text \<open>
  The properties of the Raft library that clients rely on: election safety of a cluster,
  what each RPC does to the peer that receives it, replication and commitment, snapshots,
  the applier, and what survives a crash. The last section has runs of small clusters, on
  which the hypotheses of the properties hold.
\<close>

subsection \<open>A run of three servers\<close>

text \<open>
  Server 0 times out, asks the others for their votes, gets the one of server 1 and becomes
  the leader of term 1.
\<close>

definition at :: "int \<Rightarrow> clock" where
  "at t = \<lparr>now = t, rand = 0\<rparr>"

definition run0 :: "(nat, nat) cluster" where
  "run0 = \<lparr>size = 3, peer = (\<lambda>i. projr (Make (at 0) (at 0) 3 (int i) MakePersister)), net = {},
     votes = (\<lambda>_ _. 0), granted = {}, counted = {}, elected = {}\<rparr>"

definition run1 :: "(nat, nat) cluster" where
  "run1 = (let rf = candidate (at 1000) (peer run0 0) in
     setPeer 0 rf (run0\<lparr>net := {VoteRequest 0 1 (voteArgs rf), VoteRequest 0 2 (voteArgs rf)},
       votes := (\<lambda>_ _. 0)(0 := (\<lambda>_. 0)(1 := 1))\<rparr>))"

definition vote1 :: RequestVoteArgs where
  "vote1 = \<lparr>rv_Term = 1, rv_CandidateId = 0, rv_LastLogIndex = 0, rv_LastLogTerm = 0\<rparr>"

definition run2 :: "(nat, nat) cluster" where
  "run2 = (let rf = fst (projr (RequestVote (at 1001) vote1 (peer run1 1))) in
     setPeer 1 rf (run1\<lparr>net := {VoteReply 0 1 vote1 \<lparr>rvr_Term = 1, VoteGranted = True\<rparr>,
       VoteRequest 0 2 vote1}, granted := {(1, 0, 1)}\<rparr>))"

definition run3 :: "(nat, nat) cluster" where
  "run3 = (let rf = leader (peer run2 0) in
     setPeer 0 rf (run2\<lparr>net := {VoteRequest 0 2 vote1, AppendPending 0 1 1, AppendPending 0 2 1},
       votes := (votes run2)(0 := (votes run2 0)(1 := 2)), counted := {(1, 0, 1)}, elected := {(0, 1)}\<rparr>))"

lemma run0_peer:
  "peer run0 i = \<lparr>peers = 3, persister = MakePersister, me = int i, dead = False,
     currentTerm = 0, votedFor = NA, rlog = [zeroEntry],
     rsnapshot = \<lparr>LastIncludedIndex = 0, LastIncludedTerm = 0, snap_Data = []\<rparr>,
     commitIndex = 0, lastApplied = 0, nextIndex = [0, 0, 0], matchIndex = [0, 0, 0],
     rrole = Follower, electionTimeout = 0, applyCond = ApplyTop, applySnapshot = False, leaderId = NA\<rparr>"
  by (simp add: run0_def Make_def initL_def readPersist_def ReadRaftState_def MakePersister_def
      resetElectionTimeoutL_def at_def numeral_3_eq_3 Let_def)

lemma run0_wf: "wf_raft (peer run0 i)"
  by (simp add: run0_peer wf_raft_def zeroEntry_def)

lemma run0_sel [simp]:
  "rrole (peer run0 i) = Follower" "electionTimeout (peer run0 i) = 0" "currentTerm (peer run0 i) = 0"
  "votedFor (peer run0 i) = NA" "rlog (peer run0 i) = [zeroEntry]" "peers (peer run0 i) = 3"
  "me (peer run0 i) = int i" "size run0 = 3" "net run0 = {}" "votes run0 = (\<lambda>_ _. 0)"
  "granted run0 = {}" "counted run0 = {}" "elected run0 = {}"
  by (simp_all only: run0_peer Raft.simps) (simp_all add: run0_def)

lemma run0_start: "startCluster 3 run0"
proof -
  have "Make (at 0) (at 0) 3 (int i) MakePersister = Inr (peer run0 i)" for i
  proof -
    have "\<exists>rf. Make (at 0) (at 0) 3 (int i) MakePersister = Inr (rf :: (nat, nat) Raft)"
      using initL_fresh [of "MakePersister :: (nat, nat) Persister" "at 0" "at 0" 3 "int i"]
      by (auto simp: Make_def ReadRaftState_def MakePersister_def)
    then show ?thesis by (auto simp: run0_def)
  qed
  then show ?thesis by (auto simp: startCluster_def run0_def)
qed

lemma run0_candidate: "voteArgs (candidate clk (peer run0 0)) = vote1"
  by (simp add: voteArgs_def vote1_def last_index_def last_term_def first_index_def zeroEntry_def)

lemma otherPeers_3: "peers rf = 3 \<Longrightarrow> me rf = 0 \<Longrightarrow> otherPeers rf = [1, 2]"
  by (simp add: otherPeers_def upt_rec)

lemma run1_step: "cluster_step run0 run1"
proof -
  let ?rf = "candidate (at 1000) (peer run0 0)"
  have o: "otherPeers ?rf = [1, 2]" by (rule otherPeers_3) simp_all
  have t: "tick (at 1000) (peer run0 0) = Inr (?rf, [RequestTask 1 vote1, RequestTask 2 vote1])"
    using becomeCandidateL_eq [OF run0_wf, of "at 1000" 0] o
    by (simp add: tick_def run0_candidate) (simp add: at_def)
  show ?thesis
    using election_tick [OF _ _ _ t] by (simp add: run1_def Let_def run0_candidate goMsgs_def at_def)
qed

lemma run1_sel [simp]:
  "size run1 = 3" "net run1 = {VoteRequest 0 1 vote1, VoteRequest 0 2 vote1}"
  "votes run1 = (\<lambda>_ _. 0)(0 := (\<lambda>_. 0)(1 := 1))"
  "granted run1 = {}" "counted run1 = {}" "elected run1 = {}"
  "peer run1 i = (if i = 0 then candidate (at 1000) (peer run0 0) else peer run0 i)"
  by (simp_all add: run1_def Let_def run0_candidate)

lemma vote1_granted:
  "RequestVote (at 1001) vote1 (peer run0 1) =
     Inr (resetElectionTimeoutL (at 1001) False
            (persistL ((becomeFollowerL 1 (peer run0 1))\<lparr>votedFor := 0\<rparr>)),
          \<lparr>rvr_Term = 1, VoteGranted = True\<rparr>)"
  using RequestVote_eq [OF run0_wf, of "at 1001" vote1 1]
  by (simp add: grants_def up_to_date_def vote1_def last_index_def last_term_def first_index_def
      zeroEntry_def stepDown_def)

lemma run2_step: "cluster_step run1 run2"
proof -
  have "VoteRequest 0 1 vote1 \<in> net run1" by simp
  moreover have "RequestVote (at 1001) vote1 (peer run1 1) = Inr (peer run2 1, \<lparr>rvr_Term = 1, VoteGranted = True\<rparr>)"
    using vote1_granted by (simp add: run2_def Let_def)
  ultimately have "cluster_step run1 (setPeer 1 (peer run2 1) (run1\<lparr>
      net := net run1 - {VoteRequest 0 1 vote1} \<union> {VoteReply 0 1 vote1 \<lparr>rvr_Term = 1, VoteGranted = True\<rparr>},
      granted := (if VoteGranted \<lparr>rvr_Term = 1, VoteGranted = True\<rparr>
        then insert (1, 0, rv_Term vote1) (granted run1) else granted run1)\<rparr>))"
    by (rule vote_request)
  then show ?thesis by (simp add: run2_def Let_def vote1_def insert_commute)
qed

lemma run2_sel [simp]:
  "size run2 = 3" "net run2 = {VoteReply 0 1 vote1 \<lparr>rvr_Term = 1, VoteGranted = True\<rparr>, VoteRequest 0 2 vote1}"
  "votes run2 = (\<lambda>_ _. 0)(0 := (\<lambda>_. 0)(1 := 1))"
  "granted run2 = {(1, 0, 1)}" "counted run2 = {}" "elected run2 = {}"
  "peer run2 0 = candidate (at 1000) (peer run0 0)"
  by (simp_all add: run2_def Let_def)

lemma run3_step: "cluster_step run2 run3"
proof -
  let ?rf = "leader (peer run2 0)" and ?r = "\<lparr>rvr_Term = 1, VoteGranted = True\<rparr>"
  have o: "otherPeers ?rf = [1, 2]" by (rule otherPeers_3) simp_all
  have t: "processRequestReplyL vote1 ?r (votes run2 0 (rv_Term vote1)) (peer run2 0) =
      Inr (?rf, 2, [AppendTask 1 1, AppendTask 2 1])"
    using processRequestReplyL_eq [of "peer run2 0" vote1 ?r 1] run0_wf o
    by (simp add: vote1_def nPeers_def heartbeatsL_def appendsL_def)
  have m: "VoteReply 0 1 vote1 ?r \<in> net run2" by simp
  show ?thesis
    using vote_reply [OF m t]
    by (simp add: run3_def Let_def vote1_def goMsgs_def insert_commute insert_Diff_if)
qed

lemma run3_reachable: "reachable 3 run3"
  using run0_start run1_step run2_step run3_step
  unfolding reachable_def cluster_steps_def
  by (meson converse_rtranclp_into_rtranclp rtranclp.rtrancl_refl)

lemma run3_leader: "rrole (peer run3 0) = Leader" "currentTerm (peer run3 0) = 1" "size run3 = 3"
  by (simp_all add: run3_def Let_def)

subsection \<open>Elections\<close>

text \<open>The leaders of term \<open>t\<close>.\<close>

definition leaders :: "('c, 's) cluster \<Rightarrow> int \<Rightarrow> nat set" where
  "leaders s t = {i. i < size s \<and> rrole (peer s i) = Leader \<and> currentTerm (peer s i) = t}"

text \<open>
  C1: election safety. In every run of a cluster, whatever messages are lost, delayed or
  reordered and whichever servers crash and restart from their persisters, a server that
  leads term \<open>t\<close> is the only one that ever leads it: at no later time does another server
  lead \<open>t\<close>.
\<close>

theorem election_safety:
  assumes "reachable n s" and "cluster_steps s s'" and "a \<in> leaders s t"
  shows "leaders s' t \<subseteq> {a}"
proof
  fix b assume b: "b \<in> leaders s' t"
  have inv: "election_inv s'" by (rule reachable_inv [OF reachable_steps [OF assms(1,2)]])
  have "(a, t) \<in> elected s'"
    using leader_elected [OF reachable_inv [OF assms(1)]] elected_mono [OF assms(2)] assms(3)
    by (auto simp: leaders_def)
  moreover have "(b, t) \<in> elected s'" using leader_elected [OF inv] b by (auto simp: leaders_def)
  ultimately show "b \<in> {a}" using elected_unique [OF inv] by blast
qed

theorem election_safety_witness:
  "reachable 3 run3 \<and> 0 \<in> leaders run3 1 \<and> leaders run3 1 \<subseteq> {0}"
proof -
  have "0 \<in> leaders run3 1" by (simp add: leaders_def run3_leader)
  moreover have "cluster_steps run3 run3" by (simp add: cluster_steps_def)
  ultimately show ?thesis using election_safety [OF run3_reachable] run3_reachable by blast
qed

text \<open>
  C24: a vote request is answered with the rule of the Raft paper. The vote is granted
  exactly when the request is not of an older term, the peer has not voted for another
  candidate in the request's term, and the candidate's log is at least as up to date; the
  peer moves to the higher of the two terms and the reply carries it; a granted vote is on
  stable storage before the reply is sent; neither the log nor the commit index change.
\<close>

theorem RequestVote_spec:
  assumes "wf_raft rf"
  shows "\<exists>rf' reply. RequestVote clk args rf = Inr (rf', reply) \<and>
    (VoteGranted reply \<longleftrightarrow> grants args rf) \<and>
    currentTerm rf' = max (rv_Term args) (currentTerm rf) \<and> rvr_Term reply = currentTerm rf' \<and>
    (VoteGranted reply \<longrightarrow> votedFor rf' = rv_CandidateId args \<and>
       persisted rf' = Some (rv_Term args, rv_CandidateId args, rlog rf)) \<and>
    (currentTerm rf < rv_Term args \<longrightarrow> rrole rf' = Follower) \<and>
    rlog rf' = rlog rf \<and> commitIndex rf' = commitIndex rf"
proof (cases "grants args rf")
  case True
  then have "max (rv_Term args) (currentTerm rf) = rv_Term args" by (simp add: grants_def)
  with True show ?thesis
    using assms by (simp add: RequestVote_eq stepDown_role)
next
  case False
  with assms show ?thesis by (simp add: RequestVote_eq stepDown_role)
qed

theorem RequestVote_spec_witness:
  "wf_raft (peer run0 1) \<and>
   (\<exists>rf' reply. RequestVote (at 1001) vote1 (peer run0 1) = Inr (rf', reply) \<and>
      (VoteGranted reply \<longleftrightarrow> grants vote1 (peer run0 1)) \<and> rvr_Term reply = 1)"
  using RequestVote_spec [OF run0_wf, of "at 1001" vote1 1] run0_wf by (auto simp: vote1_def)

subsection \<open>Replication\<close>


definition entry :: "nat \<Rightarrow> int \<Rightarrow> int \<Rightarrow> nat LogEntry" where
  "entry c i t = \<lparr>le_Command = Some c, le_Index = i, le_Term = t\<rparr>"

text \<open>A follower of term 2 with two entries of term 1, the second of which its leader lacks.\<close>

definition follower1 :: "(nat, nat) Raft" where
  "follower1 = (peer run0 1)\<lparr>currentTerm := 2, rlog := [zeroEntry, entry 10 1 1, entry 11 2 1]\<rparr>"

definition append1 :: "nat AppendEntriesArgs" where
  "append1 = \<lparr>ae_Term = 2, ae_LeaderId = 0, PrevLogIndex = 1, PrevLogTerm = 1,
     Entries = [entry 12 2 2, entry 13 3 2], LeaderCommit = 2\<rparr>"

lemma follower1_wf: "wf_raft follower1"
  by (simp add: follower1_def run0_peer wf_raft_def wf_log_def first_index_def entry_def zeroEntry_def
      nth_Cons' less_Suc_eq)

lemma append1_ok: "wf_append append1" "currentTerm follower1 \<le> ae_Term append1"
    "prev_ok append1 (rlog follower1)"
  by (simp_all add: wf_append_def append1_def follower1_def entry_def prev_ok_def first_index_def
      last_index_def entry_at_def zeroEntry_def consecutive_def less_Suc_eq)


text \<open>A log that agrees with the rest of another from an index on has its terms there.\<close>

lemma agrees_rest:
  assumes "first_index es < nx" and "nx \<le> last_index es + 1" and "agrees es' nx (drop (nat (nx - first_index es)) es)"
    and "nx \<le> j" and "j \<le> last_index es"
  shows "le_Term (entry_at es' j) = le_Term (entry_at es j) \<and> j \<le> last_index es'"
proof -
  let ?es = "drop (nat (nx - first_index es)) es"
  have k: "nat (j - nx) < length ?es" using assms(1,2,4,5) by (simp add: last_index_def)
  have "?es ! nat (j - nx) = entry_at es j"
    using assms(1,2,4) k by (simp add: entry_at_def nat_add_distrib [symmetric])
  with assms(3,4) k show ?thesis by (fastforce simp: agrees_def)
qed

text \<open>
  C8: replication. When a leader builds the request for a follower from its log, and the
  follower accepts it, then from the entry before the sent ones on the follower's log has
  the terms of the leader's log, up to the leader's last entry; and the follower's commit
  index becomes the leader's if that is higher, as in the paper, although the code takes the
  minimum with the last index of the whole log and not with the last new entry.
\<close>

theorem AppendEntries_replicates:
  assumes ld: "wf_raft ld" "0 \<le> server" "server < nPeers ld" "nextIndex ld ! nat server = nx"
      "first_index (rlog ld) < nx" "nx \<le> last_index (rlog ld) + 1"
      "commitIndex ld \<le> last_index (rlog ld)"
    and args: "makeAppendArgsL server ld = Inr args"
    and fl: "wf_raft fl" "currentTerm fl \<le> currentTerm ld" "prev_ok args (rlog fl)"
  shows "\<exists>fl' reply. AppendEntries clk args fl = Inr (fl', reply) \<and> Success reply \<and>
    last_index (rlog ld) \<le> last_index (rlog fl') \<and>
    (\<forall>j. nx - 1 \<le> j \<and> j \<le> last_index (rlog ld) \<longrightarrow>
       le_Term (entry_at (rlog fl') j) = le_Term (entry_at (rlog ld) j)) \<and>
    commitIndex fl' = max (commitIndex fl) (commitIndex ld)"
proof -
  let ?es = "drop (nat (nx - first_index (rlog ld))) (rlog ld)"
  have A: "args = \<lparr>ae_Term = currentTerm ld, ae_LeaderId = me ld, PrevLogIndex = nx - 1,
      PrevLogTerm = le_Term (entry_at (rlog ld) (nx - 1)), Entries = ?es, LeaderCommit = commitIndex ld\<rparr>"
    using makeAppendArgsL_eq [OF ld(1-6)] args by simp
  have wa: "wf_append args" by (rule makeAppendArgsL_wf [OF ld(1) args])
  have cur: "currentTerm fl \<le> ae_Term args" using fl(2) A by simp
  have i: "first_index (rlog fl) < nx" "nx \<le> last_index (rlog fl) + 1"
    using fl(3) A by (auto simp: prev_ok_def)
  have c: "consecutive nx ?es" using wa A by (simp add: wf_append_def)
  let ?fl = "takeEntries args (hearLeader clk args fl)"
  have ag: "agrees (rlog ?fl) nx ?es" using merge_log_terms [OF _ i c] fl(1) A by simp
  have len: "last_index (rlog ld) = nx + int (length ?es) - 1"
    using ld(5,6) by (simp add: last_index_def)
  have prev: "entry_at (rlog ?fl) (nx - 1) = entry_at (rlog fl) (nx - 1)"
    "le_Term (entry_at (rlog fl) (nx - 1)) = le_Term (entry_at (rlog ld) (nx - 1))"
    using merge_log_below [OF _ i, of "nx - 1"] fl A i by (auto simp: prev_ok_def)
  note at = agrees_rest [OF ld(5,6) ag]
  have last: "last_index (rlog ld) \<le> last_index (rlog ?fl)"
  proof (cases "?es = []")
    case True
    then have "rlog ?fl = rlog fl" using A by simp
    then show ?thesis using True len i(2) by simp
  next
    case False
    then have "0 < length ?es" by (simp only: length_greater_0_conv not_False_eq_True)
    then have "nx \<le> last_index (rlog ld)" using len by linarith
    from at [OF this order_refl] show ?thesis by blast
  qed
  have "commitIndex ?fl = max (commitIndex fl) (commitIndex ld)"
    using last ld(7) A unfolding takeEntries_commit by (auto simp: max_def min_def)
  moreover have "le_Term (entry_at (rlog ?fl) j) = le_Term (entry_at (rlog ld) j)"
    if "nx - 1 \<le> j" "j \<le> last_index (rlog ld)" for j
    using that at [of j] prev by (cases "j = nx - 1") auto
  ultimately show ?thesis
    using AppendEntries_accept [OF fl(1) cur fl(3) wa, of clk] last by auto
qed

text \<open>A leader of term 2 whose log differs from the one of \<open>follower1\<close> after the first entry.\<close>

definition leader1 :: "(nat, nat) Raft" where
  "leader1 = (peer run0 0)\<lparr>currentTerm := 2, rrole := Leader,
     rlog := [zeroEntry, entry 10 1 1, entry 12 2 2, entry 13 3 2],
     commitIndex := 1, nextIndex := [2, 2, 4], matchIndex := [0, 0, 3]\<rparr>"

lemma leader1_wf: "wf_raft leader1"
  by (simp add: leader1_def run0_peer wf_raft_def wf_log_def first_index_def entry_def zeroEntry_def
      nth_Cons' less_Suc_eq)

lemma leader1_sel [simp]: "first_index (rlog leader1) = 0" "last_index (rlog leader1) = 3"
  "nPeers leader1 = 3" "commitIndex leader1 = 1" "nextIndex leader1 = [2, 2, 4]"
  "currentTerm leader1 = 2" "rrole leader1 = Leader" "peers leader1 = 3" "me leader1 = 0"
  "matchIndex leader1 = [0, 0, 3]"
  by (simp_all add: leader1_def nPeers_def run0_peer first_index_def last_index_def zeroEntry_def)

definition append2 :: "nat AppendEntriesArgs" where
  "append2 = \<lparr>ae_Term = 2, ae_LeaderId = 0, PrevLogIndex = 1, PrevLogTerm = 1,
     Entries = [entry 12 2 2, entry 13 3 2], LeaderCommit = 1\<rparr>"

lemma append2_made: "makeAppendArgsL 1 leader1 = Inr append2"
  using makeAppendArgsL_eq [OF leader1_wf, of 1 2]
  by (simp add: append2_def leader1_def run0_peer entry_at_def first_index_def last_index_def nPeers_def
      zeroEntry_def entry_def)

lemma append2_prev: "prev_ok append2 (rlog follower1)" "currentTerm follower1 = 2"
  by (simp_all add: append2_def follower1_def entry_def prev_ok_def first_index_def
      last_index_def entry_at_def zeroEntry_def)

theorem AppendEntries_replicates_witness:
  "makeAppendArgsL 1 leader1 = Inr append2 \<and>
   (\<exists>fl' reply. AppendEntries (at 0) append2 follower1 = Inr (fl', reply) \<and> Success reply \<and>
      le_Term (entry_at (rlog fl') 2) = 2 \<and> commitIndex fl' = max (commitIndex follower1) 1)"
proof -
  have "le_Term (entry_at (rlog leader1) 2) = 2"
    by (simp add: leader1_def entry_at_def first_index_def zeroEntry_def entry_def)
  then show ?thesis
    using AppendEntries_replicates [OF leader1_wf _ _ _ _ _ _ append2_made follower1_wf _ append2_prev(1),
        of 2 "at 0"] append2_made append2_prev(2) by force
qed

lemma prevLogConflictL_backs_up:
  assumes "wf_log (rlog rf)" and "\<not> prev_ok args (rlog rf)"
    and "first_index (rlog rf) \<le> PrevLogIndex args"
    and "prevLogConflictL args reply rf = Inr (c, reply')"
  shows "ConflictFirstIndex reply' \<le> PrevLogIndex args" and "aer_Term reply' = aer_Term reply"
proof -
  have "ConflictFirstIndex reply' \<le> PrevLogIndex args \<and> aer_Term reply' = aer_Term reply"
  proof (cases "PrevLogIndex args \<le> last_index (rlog rf)")
    case True
    obtain r where "firstOfTerm (PrevLogIndex args - 1) (first_index (rlog rf))
        (le_Term (entry_at (rlog rf) (PrevLogIndex args))) rf = Inr r" "r \<le> PrevLogIndex args"
      using firstOfTerm_wf [OF assms(1) refl, of "PrevLogIndex args - 1"] True by auto
    with True assms show ?thesis by (auto simp: prevLogConflictL_def prev_ok_def le_Index_last)
  next
    case False
    with assms show ?thesis by (auto simp: prevLogConflictL_def le_Index_last)
  qed
  then show "ConflictFirstIndex reply' \<le> PrevLogIndex args" "aer_Term reply' = aer_Term reply" by auto
qed

lemma processPrevLogConflictL_backs_up:
  assumes "wf_raft ld" and "0 \<le> server" and "server < nPeers ld"
    and "PrevLogIndex args \<le> last_index (rlog ld)" and "ConflictFirstIndex reply \<le> PrevLogIndex args"
  shows "\<exists>nx. processPrevLogConflictL server args reply ld =
      Inr (ld\<lparr>nextIndex := (nextIndex ld)[nat server := nx]\<rparr>) \<and> nx \<le> PrevLogIndex args"
proof -
  have len: "server < int (length (nextIndex ld))"
    using assms(1,3) by (simp add: wf_raft_def nPeers_def)
  let ?min = "Max (ConflictFirstIndex reply) (first_index (rlog ld) + 1)"
  have "first_index (rlog ld) < ?min" by simp
  then obtain r where "lastOfTerm (PrevLogIndex args - 1) ?min (ConflictTerm reply) ld = Inr r"
    "r \<le> PrevLogIndex args"
    using lastOfTerm_wf [of ld ?min "PrevLogIndex args - 1" "ConflictTerm reply"] assms(1,4) by auto
  then show ?thesis
    using assms len by (cases "ConflictTerm reply = NA \<or> ConflictTerm reply > currentTerm ld")
      (auto simp: processPrevLogConflictL_def)
qed

text \<open>
  The fast back-up makes progress. When a follower refuses a request because its log
  does not match at \<open>PrevLogIndex\<close> (and has not compacted that index away), the reply makes
  the leader lower \<open>nextIndex\<close> for that follower to at most \<open>PrevLogIndex\<close>, so that the next
  request starts at an earlier entry; neither the follower's nor the leader's code panics on
  the way.
\<close>

theorem conflict_backs_up:
  assumes "wf_raft ld" and "0 \<le> server" and "server < nPeers ld" and "rrole ld = Leader"
    and "currentTerm ld = ae_Term args" and "PrevLogIndex args \<le> last_index (rlog ld)"
    and "wf_raft fl" and "currentTerm fl \<le> ae_Term args"
    and "first_index (rlog fl) \<le> PrevLogIndex args" and "\<not> prev_ok args (rlog fl)"
  shows "\<exists>fl' reply ld'. AppendEntries clk args fl = Inr (fl', reply) \<and> \<not> Success reply \<and>
    rlog fl' = rlog fl \<and> processAppendReplyL server args reply ld = Inr ld' \<and>
    nextIndex ld' ! nat server \<le> PrevLogIndex args"
proof -
  let ?h = "hearLeader clk args fl"
  let ?r = "\<lparr>aer_Term = ae_Term args, Success = True, ConflictTerm = 0, ConflictFirstIndex = 0\<rparr>"
  obtain reply' where c: "prevLogConflictL args ?r ?h = Inr (True, reply')"
    using prevLogConflictL_conflict [of ?h args ?r] assms(7,10) by auto
  then have b: "ConflictFirstIndex reply' \<le> PrevLogIndex args" "aer_Term reply' = ae_Term args"
    using prevLogConflictL_backs_up [of ?h args ?r True reply'] assms(7,9,10) by auto
  have A: "AppendEntries clk args fl = Inr (?h, reply'\<lparr>Success := False\<rparr>)"
    using assms(8) c by (simp add: AppendEntries_hearLeader processAppendEntriesL_def max_def)
  obtain nx where "processPrevLogConflictL server args (reply'\<lparr>Success := False\<rparr>) ld =
      Inr (ld\<lparr>nextIndex := (nextIndex ld)[nat server := nx]\<rparr>)" "nx \<le> PrevLogIndex args"
    using processPrevLogConflictL_backs_up [OF assms(1-3,6), of "reply'\<lparr>Success := False\<rparr>"] b by auto
  moreover have "nat server < length (nextIndex ld)"
    using assms(1-3) by (simp add: wf_raft_def nPeers_def)
  ultimately show ?thesis
    using A assms(4,5) b by (auto simp: processAppendReplyL_def)
qed

definition append3 :: "nat AppendEntriesArgs" where
  "append3 = \<lparr>ae_Term = 2, ae_LeaderId = 0, PrevLogIndex = 3, PrevLogTerm = 2, Entries = [], LeaderCommit = 1\<rparr>"

theorem conflict_backs_up_witness:
  "\<exists>fl' reply ld'. AppendEntries (at 0) append3 follower1 = Inr (fl', reply) \<and>
    processAppendReplyL 1 append3 reply leader1 = Inr ld' \<and> nextIndex ld' ! 1 \<le> 3"
proof -
  have "first_index (rlog follower1) \<le> PrevLogIndex append3" "\<not> prev_ok append3 (rlog follower1)"
    by (simp_all add: append3_def follower1_def prev_ok_def first_index_def last_index_def zeroEntry_def)
  then show ?thesis
    using conflict_backs_up [OF leader1_wf _ _ _ _ _ follower1_wf, of 1 append3 "at 0"] append2_prev(2)
    by (force simp: append3_def)
qed

subsection \<open>Commitment\<close>

text \<open>
  C12: the commit rule is the one of the paper for an odd number of at least three servers.
  Let \<open>N\<close> be above the leader's commit index, in its log, and of its current term, and let
  the leader not count itself in \<open>matchIndex\<close> (the code never updates its own entry). When the
  leader moves its commit index to \<open>N\<close>, a majority of the servers, itself included, stores the
  log up to \<open>N\<close>.
\<close>

theorem commit_needs_majority:
  assumes "wf_raft rf" and "odd (peers rf)" and "3 \<le> peers rf"
    and "0 \<le> me rf" and "me rf < nPeers rf" and "matchIndex rf ! nat (me rf) \<le> commitIndex rf"
    and "setCommitIndexL rf = Inr (rf', ok)" and "commitIndex rf' \<noteq> commitIndex rf"
  shows "ok \<and> commitIndex rf < commitIndex rf' \<and>
    majority (peers rf) (stored_on (commitIndex rf') rf) \<and>
    getLogL (commitIndex rf') rf = Inr (entry_at (rlog rf) (commitIndex rf')) \<and>
    le_Term (entry_at (rlog rf) (commitIndex rf')) = currentTerm rf"
proof -
  obtain e where N: "commitIndex rf < commitCandidate rf" "getLogL (commitCandidate rf) rf = Inr e"
    "le_Term e = currentTerm rf" "ok" "rf' = rf\<lparr>commitIndex := commitCandidate rf\<rparr>"
    using assms(7,8) by (auto simp: setCommitIndexL_eq [OF assms(1,3)] Let_def split: if_splits)
  have "e = entry_at (rlog rf) (commitCandidate rf)"
    using N(2) assms(1)
    by (auto simp: getLogL_def logSliceIndexL_def entry_at_def idx_def NA_def split: if_splits)
  moreover have "majority (peers rf) (stored_on (commitCandidate rf) rf)"
    by (rule stored_on_majority [OF assms(1-5)]) (use N(1) assms(6) in auto)
  ultimately show ?thesis using N by simp
qed

text \<open>
  C26: conversely, with at least three servers the rule misses nothing. Let a majority store the log up to an index \<open>N\<close>
  above the commit index, let all entries of the leader's log from \<open>N\<close> on be of its current term, and let no \<open>matchIndex\<close> be
  beyond the end of its log. Then the commit index moves to \<open>N\<close> or further. (With two servers the code panics,
  \<open>commit_two_servers_panics\<close>.)
\<close>

theorem commit_takes_majority:
  assumes "wf_raft rf" and "3 \<le> peers rf"
    and "0 \<le> me rf" and "me rf < nPeers rf"
    and "commitIndex rf < N" and "majority (peers rf) (stored_on N rf)"
    and "first_index (rlog rf) \<le> N" and "\<forall>m \<in> set (matchIndex rf). m \<le> last_index (rlog rf)"
    and "\<forall>j. N \<le> j \<and> j \<le> last_index (rlog rf) \<longrightarrow> le_Term (entry_at (rlog rf) j) = currentTerm rf"
  shows "\<exists>rf'. setCommitIndexL rf = Inr (rf', True) \<and> N \<le> commitIndex rf'"
proof -
  have N: "N \<le> commitCandidate rf" by (rule stored_on_majority_converse [OF assms(1-4,6)])
  have "peers rf div 2 + 1 < length (sort (matchIndex rf))"
    using assms(1,2) by (simp add: wf_raft_def)
  then have "commitCandidate rf \<in> set (matchIndex rf)"
    unfolding commitCandidate_def by (metis nth_mem set_sort)
  with assms(8) have last: "commitCandidate rf \<le> last_index (rlog rf)" by blast
  have "getLogL (commitCandidate rf) rf = Inr (entry_at (rlog rf) (commitCandidate rf))"
    using assms(1,7) N last by simp
  moreover have "le_Term (entry_at (rlog rf) (commitCandidate rf)) = currentTerm rf"
    using assms(9) N last by blast
  ultimately show ?thesis
    using N assms(1,2,5) by (simp add: setCommitIndexL_eq Let_def)
qed

lemma leader1_terms:
  assumes "2 \<le> j" and "j \<le> 3"
  shows "le_Term (entry_at (rlog leader1) j) = 2"
proof -
  from assms consider "j = 2" | "j = 3" by linarith
  then show ?thesis
    by cases (simp_all add: leader1_def entry_at_def first_index_def zeroEntry_def entry_def)
qed

lemma leader1_commits: "setCommitIndexL leader1 = Inr (leader1\<lparr>commitIndex := 3\<rparr>, True)"
proof -
  have "commitCandidate leader1 = 3" by (simp add: commitCandidate_def)
  moreover have "getLogL 3 leader1 = Inr (entry_at (rlog leader1) 3)" using leader1_wf by simp
  ultimately show ?thesis using leader1_terms [of 3] leader1_wf by (simp add: setCommitIndexL_eq)
qed

theorem commit_needs_majority_witness:
  "setCommitIndexL leader1 = Inr (leader1\<lparr>commitIndex := 3\<rparr>, True) \<and> majority 3 (stored_on 3 leader1)"
  using commit_needs_majority [OF leader1_wf _ _ _ _ _ leader1_commits] leader1_commits by simp

theorem commit_takes_majority_witness:
  "majority 3 (stored_on 2 leader1) \<and> (\<exists>rf'. setCommitIndexL leader1 = Inr (rf', True) \<and> 2 \<le> commitIndex rf')"
proof -
  have "stored_on 2 leader1 = {0, 2}" by (auto simp: stored_on_def nth_Cons' numeral_3_eq_3)
  then have maj: "majority (peers leader1) (stored_on 2 leader1)" by (simp add: majority_def)
  then show ?thesis
    using commit_takes_majority [OF leader1_wf _ _ _ _ maj] leader1_terms by simp
qed

text \<open>
  With two servers the commit rule indexes past the end of the sorted copy of
  \<open>matchIndex\<close>: the leader of a cluster of two panics on the first successful reply.
\<close>

theorem commit_two_servers_panics:
  assumes "wf_raft rf" and "peers rf = 2" and "rrole rf = Leader" and "currentTerm rf = ae_Term args"
    and "0 \<le> server" and "server < 2" and "Success reply"
  shows "\<exists>e. processAppendReplyL server args reply rf = Inl e"
proof -
  have "length (matchIndex rf) = 2" using assms(1,2) by (simp add: wf_raft_def)
  then have "\<exists>e. setCommitIndexL (rf\<lparr>matchIndex := (matchIndex rf)[nat server := a], nextIndex := b\<rparr>) = Inl e" for a b
    using assms(2) by (simp add: setCommitIndexL_def nPeers_def Let_def idx_def)
  then obtain e where "setCommitIndexL (rf\<lparr>
      matchIndex := (matchIndex rf)[nat server := max (PrevLogIndex args + int (length (Entries args))) (matchIndex rf ! nat server)],
      nextIndex := (nextIndex rf)[nat server := max (PrevLogIndex args + int (length (Entries args)) + 1) (nextIndex rf ! nat server)]\<rparr>) = Inl e"
    by blast
  with assms show ?thesis
    by (simp add: processAppendReplyL_def updateMatchAndNextL_eq nPeers_def)
qed

definition leader2 :: "(nat, nat) Raft" where
  "leader2 = leader1\<lparr>peers := 2, nextIndex := [4, 4], matchIndex := [0, 0]\<rparr>"

theorem commit_two_servers_panics_witness:
  "wf_raft leader2 \<and>
   (\<exists>e. processAppendReplyL 1 append3 \<lparr>aer_Term = 2, Success = True, ConflictTerm = 0, ConflictFirstIndex = 0\<rparr>
     leader2 = Inl e)"
proof -
  have "wf_raft leader2" using leader1_wf by (simp add: leader2_def wf_raft_def)
  then show ?thesis
    using commit_two_servers_panics [of leader2 append3 1] by (simp add: leader2_def append3_def)
qed

definition leader4 :: "(nat, nat) Raft" where
  "leader4 = leader1\<lparr>peers := 4, nextIndex := [4, 4, 1, 1], matchIndex := [0, 3, 0, 0]\<rparr>"

text \<open>
  With four servers the leader commits an entry that only it and one follower store,
  which is no majority.
\<close>

theorem commit_four_servers:
  "\<exists>rf'. setCommitIndexL leader4 = Inr (rf', True) \<and> commitIndex rf' = 3 \<and>
     stored_on 3 leader4 = {0, 1} \<and> \<not> majority (peers leader4) (stored_on 3 leader4)"
proof -
  have wf: "wf_raft leader4" using leader1_wf by (simp add: leader4_def wf_raft_def)
  have "commitCandidate leader4 = 3" by (simp add: commitCandidate_def leader4_def)
  moreover have "getLogL 3 leader4 = Inr (entry_at (rlog leader4) 3)"
    using wf_raft_log [OF leader1_wf] by (simp add: leader4_def)
  moreover have "stored_on 3 leader4 = {0, 1}"
    by (auto simp: stored_on_def leader4_def nth_Cons' numeral_eq_Suc less_Suc_eq split: if_splits)
  ultimately show ?thesis
    using leader1_terms [of 3] wf by (simp add: setCommitIndexL_eq majority_def leader4_def)
qed

subsection \<open>Crashes\<close>

text \<open>
  C32: what \<open>persist\<close> saves, \<open>Make\<close> restores: a peer that crashes after a call of \<open>persist\<close>
  restarts as a follower with the same term, vote, log and snapshot, and with its commit
  index and last applied index at the snapshot.
\<close>

theorem persist_restart:
  assumes "wf_raft rf"
  shows "\<exists>rf'. Make clk clk' (peers rf) (me rf) (persister (persistL rf)) = Inr rf' \<and>
    currentTerm rf' = currentTerm rf \<and> votedFor rf' = votedFor rf \<and> rlog rf' = rlog rf \<and>
    rsnapshot rf' = rsnapshot rf \<and> rrole rf' = Follower \<and> me rf' = me rf \<and> peers rf' = peers rf \<and>
    commitIndex rf' = first_index (rlog rf) \<and> lastApplied rf' = first_index (rlog rf) \<and> wf_raft rf'"
proof -
  have d: "decodeState (ReadRaftState (persister (persistL rf))) =
      Some (currentTerm rf, votedFor rf, rlog rf)" by simp
  obtain rf' where rf': "Make clk clk' (peers rf) (me rf) (persister (persistL rf)) = Inr rf'" "wf_raft rf'"
    "currentTerm rf' = currentTerm rf" "votedFor rf' = votedFor rf" "rrole rf' = Follower" "rlog rf' = rlog rf"
    "peers rf' = peers rf" "me rf' = me rf" "commitIndex rf' = first_index (rlog rf)"
    "lastApplied rf' = first_index (rlog rf)" "snap_Data (rsnapshot rf') = snap_Data (rsnapshot rf)"
    using initL_persisted [OF d wf_raft_log [OF assms], of clk clk' "peers rf" "me rf"]
    by (auto simp: Make_def)
  moreover have "rsnapshot rf' = rsnapshot rf"
    using rf'(2,6,11) assms by (simp add: wf_raft_def)
  ultimately show ?thesis by simp
qed

theorem persist_restart_witness:
  "wf_raft leader1 \<and> (\<exists>rf'. Make (at 0) (at 0) 3 0 (persister (persistL leader1)) = Inr rf' \<and>
     rlog rf' = rlog leader1 \<and> currentTerm rf' = 2 \<and> rrole rf' = Follower)"
  using persist_restart [OF leader1_wf, of "at 0" "at 0"] leader1_wf by auto

lemma processAppendReplyL_durable:
  assumes "state_durable rf" and "processAppendReplyL server args reply rf = Inr rf'"
  shows "state_durable rf'"
  using assms
  by (auto simp: processAppendReplyL_def updateMatchAndNextL_def setCommitIndexL_def
      processPrevLogConflictL_def Let_def split: if_splits)

lemma applyStep_durable:
  assumes "state_durable rf" and "applyStep rf = Inr (rf', m)"
  shows "state_durable rf'"
proof -
  have wait: "state_durable (applyWaitL rf1) = state_durable rf1" for rf1 :: "('a, 'b) Raft"
    by (simp add: applyWaitL_def)
  have cmd: "state_durable rf2 = state_durable rf1" if "applyCommandL rf1 = Inr rf2" for rf1 rf2 :: "('a, 'b) Raft"
    using that by (auto simp: applyCommandL_def Let_def wait split: if_splits)
  have snap: "state_durable (fst (applySnapshotL rf)) = state_durable rf"
    by (simp add: applySnapshotL_def Let_def)
  have loop: "state_durable rf1" if "applyLoop rf = Inr rf1" for rf1
    using that assms(1) cmd snap
    by (auto simp: applyLoop_def split: if_splits prod.splits option.splits)
  show ?thesis
    using assms loop cmd by (auto simp: applyStep_def wait split: applier.splits)
qed

definition leaves_durable :: "'x go \<Rightarrow> ('x \<Rightarrow> ('c, 's) Raft) \<Rightarrow> bool" where
  "leaves_durable g st \<longleftrightarrow> (case g of Inl e \<Rightarrow> True | Inr x \<Rightarrow> state_durable (st x))"

lemma leaves_durableI: "(\<And>x. g = Inr x \<Longrightarrow> state_durable (st x)) \<Longrightarrow> leaves_durable g st"
  by (auto simp: leaves_durable_def split: sum.splits)

lemma AppendEntries_durable:
  assumes "wf_raft rf" and "state_durable rf" and "wf_append args"
  shows "leaves_durable (AppendEntries clk args rf) fst"
proof -
  let ?h = "hearLeader clk args rf"
  have h: "state_durable ?h" using assms hearLeader_durable(2) [OF wf_raft_log] by blast
  consider "ae_Term args < currentTerm rf"
    | "currentTerm rf \<le> ae_Term args" "\<not> prev_ok args (rlog rf)"
    | "currentTerm rf \<le> ae_Term args" "prev_ok args (rlog rf)"
    by linarith
  then show ?thesis
  proof cases
    case 1
    with assms show ?thesis by (simp add: AppendEntries_stale leaves_durable_def)
  next
    case 2
    with AppendEntries_conflict [OF assms(1) 2, of clk] h show ?thesis
      by (auto simp: leaves_durable_def)
  next
    case 3
    have "state_durable (takeEntries args ?h)"
      by (rule takeEntries_durable(2) [OF _ _ assms(3) h]) (use assms(1) 3(2) in auto)
    with AppendEntries_accept [OF assms(1) 3 assms(3)] show ?thesis by (simp add: leaves_durable_def)
  qed
qed

text \<open>
  C33: every step of a peer but the installation of a snapshot leaves its term, vote and
  log on stable storage: if they were there before the step, they are there after it. This
  covers the ticker, the handlers of vote and append requests and of all replies, \<open>Start\<close>,
  \<open>Snapshot\<close> and the applier.
\<close>

theorem steps_durable:
  assumes "wf_raft rf" and "state_durable rf" and "wf_append aargs" and "index \<le> last_index (rlog rf)"
  shows "leaves_durable (tick clk rf) fst \<and>
    leaves_durable (RequestVote clk vargs rf) fst \<and>
    leaves_durable (processRequestReplyL vargs vreply vs rf) fst \<and>
    leaves_durable (AppendEntries clk aargs rf) fst \<and>
    leaves_durable (processAppendReplyL server aargs areply rf) id \<and>
    leaves_durable (processInstallReplyL server iargs ireply rf) id \<and>
    leaves_durable (Start command rf) (fst \<circ> snd) \<and>
    leaves_durable (Snapshot index data rf) id \<and>
    leaves_durable (applyStep rf) fst"
proof (intro conjI)
  show "leaves_durable (tick clk rf) fst"
    using assms(1,2) by (auto simp: tick_def becomeCandidateL_eq leaves_durable_def)
  show "leaves_durable (RequestVote clk vargs rf) fst"
    using assms(1,2) by (simp add: RequestVote_eq leaves_durable_def stepDown_durable)
  show "leaves_durable (processRequestReplyL vargs vreply vs rf) fst"
    using assms(1,2) by (simp add: processRequestReplyL_eq leaves_durable_def stepDown_durable)
  show "leaves_durable (AppendEntries clk aargs rf) fst"
    by (rule AppendEntries_durable [OF assms(1-3)])
  show "leaves_durable (processAppendReplyL server aargs areply rf) id"
    by (rule leaves_durableI) (use processAppendReplyL_durable [OF assms(2)] in auto)
  show "leaves_durable (processInstallReplyL server iargs ireply rf) id"
    by (rule leaves_durableI)
      (use assms(2) in \<open>auto simp: processInstallReplyL_def updateMatchAndNextL_def split: if_splits\<close>)
  show "leaves_durable (Start command rf) (fst \<circ> snd)"
    using assms(1,2) by (simp add: Start_eq leaves_durable_def Let_def)
  show "leaves_durable (Snapshot index data rf) id"
    using assms(1,2,4) by (simp add: Snapshot_eq leaves_durable_def)
  show "leaves_durable (applyStep rf) fst"
    by (rule leaves_durableI) (use applyStep_durable [OF assms(2)] in auto)
qed

theorem steps_durable_witness:
  "state_durable (persistL leader1) \<and> leaves_durable (Start 5 (persistL leader1)) (fst \<circ> snd)"
proof -
  have "wf_raft (persistL leader1)" "state_durable (persistL leader1)" using leader1_wf by simp_all
  with steps_durable [of "persistL leader1" append1 3] append1_ok(1) show ?thesis by simp
qed

text \<open>
  C38: the exception is \<open>InstallSnapshot\<close>, which installs the snapshot and the shortened log in
  memory but does not save them: a follower that crashes after it acknowledged a snapshot
  restarts with the log it had before, and the leader already counts the snapshot's entries as
  stored there.
\<close>

theorem InstallSnapshot_not_persisted:
  assumes "wf_raft rf" and "state_durable rf" and "ReadRaftState (persister rf) \<noteq> []"
    and "currentTerm rf \<le> is_Term args"
    and "first_index (rlog rf) < LastIncludedIndex (is_Snapshot args)"
  shows "\<exists>rf' reply rf''. InstallSnapshot clk args rf = Inr (rf', reply) \<and>
    first_index (rlog rf') = LastIncludedIndex (is_Snapshot args) \<and>
    Make clk clk' (peers rf) (me rf) (persister rf') = Inr rf'' \<and> rlog rf'' = rlog rf"
proof -
  let ?sd = "stepDown (is_Term args) rf"
  obtain rf' where rf': "InstallSnapshot clk args rf = Inr (rf', \<lparr>isr_Term = is_Term args\<rparr>)"
    "persister rf' = persister ?sd" "rlog rf' = snapshot_log (is_Snapshot args) (rlog rf)"
    using InstallSnapshot_install [OF assms(1,4,5), of clk] by simp
  have "state_durable ?sd" by (rule stepDown_durable(2) [OF assms(2)])
  moreover have "ReadRaftState (persister ?sd) \<noteq> []"
    using assms(3) by (simp add: stepDown_def becomeFollowerL_def)
  ultimately have d: "decodeState (ReadRaftState (persister rf')) =
      Some (currentTerm ?sd, votedFor ?sd, rlog rf)"
    by (simp add: state_durable_def persisted_def rf'(2))
  obtain rf'' where "Make clk clk' (peers rf) (me rf) (persister rf') = Inr rf''" "rlog rf'' = rlog rf"
    using initL_persisted [OF d, of clk clk' "peers rf" "me rf"] assms(1) by (auto simp: Make_def)
  with rf' snapshot_log_wf(2) [OF wf_raft_log [OF assms(1)] assms(5)] show ?thesis by auto
qed

definition install1 :: "nat InstallSnapshotArgs" where
  "install1 = \<lparr>is_Term = 2, is_LeaderId = 0,
     is_Snapshot = \<lparr>LastIncludedIndex = 8, LastIncludedTerm = 2, snap_Data = [7]\<rparr>\<rparr>"

theorem InstallSnapshot_not_persisted_witness:
  "\<exists>rf' reply rf''. InstallSnapshot (at 0) install1 (persistL follower1) = Inr (rf', reply) \<and>
    first_index (rlog rf') = 8 \<and> Make (at 0) (at 0) 3 1 (persister rf') = Inr rf'' \<and>
    rlog rf'' = [zeroEntry, entry 10 1 1, entry 11 2 1]"
proof -
  have "wf_raft (persistL follower1)" using follower1_wf by simp
  moreover have "currentTerm (persistL follower1) \<le> is_Term install1" "peers (persistL follower1) = 3"
    "me (persistL follower1) = 1"
    "first_index (rlog (persistL follower1)) < LastIncludedIndex (is_Snapshot install1)"
    by (simp_all add: install1_def follower1_def first_index_def zeroEntry_def run0_peer)
  ultimately show ?thesis
    using InstallSnapshot_not_persisted [of "persistL follower1" install1 "at 0" "at 0"]
    by (force simp: install1_def follower1_def)
qed

subsection \<open>The applier\<close>

text \<open>The message for the entry at index \<open>j\<close>, and \<open>k\<close> rounds of the applier.\<close>

definition commandMsg :: "'c LogEntry list \<Rightarrow> int \<Rightarrow> ('c, 's) ApplyMsg" where
  "commandMsg es j = \<lparr>CommandValid = True, am_Command = le_Command (entry_at es j), CommandIndex = j,
     SnapshotValid = False, am_Snapshot = [], SnapshotTerm = 0, SnapshotIndex = 0\<rparr>"

fun applyRounds :: "nat \<Rightarrow> ('c, 's) Raft \<Rightarrow> (('c, 's) Raft \<times> ('c, 's) ApplyMsg list) go" where
  "applyRounds 0 rf = Inr (rf, [])"
| "applyRounds (Suc k) rf =
     gbind (applyStep rf) (\<lambda>(rf, m).
     gbind (applyRounds k rf) (\<lambda>(rf, ms).
     Inr (rf, (case m of None \<Rightarrow> ms | Some msg \<Rightarrow> msg # ms))))"

lemma applyLoop_command:
  assumes "wf_raft rf" and "\<not> dead rf" and "\<not> applySnapshot rf"
    and "first_index (rlog rf) \<le> lastApplied rf" and "lastApplied rf < commitIndex rf"
    and "commitIndex rf \<le> last_index (rlog rf)"
  shows "applyLoop rf = Inr (rf\<lparr>lastApplied := lastApplied rf + 1,
           applyCond := ApplySendCommand (commandMsg (rlog rf) (lastApplied rf + 1))\<rparr>)"
proof -
  have "wf_log (rlog (rf\<lparr>lastApplied := lastApplied rf + 1\<rparr>))" using assms(1) by simp
  moreover have "getLogL (lastApplied rf + 1) (rf\<lparr>lastApplied := lastApplied rf + 1\<rparr>) =
      Inr (entry_at (rlog rf) (lastApplied rf + 1))"
    using assms by simp
  ultimately show ?thesis
    using assms by (simp add: applyLoop_def applyCommandL_def killed_def commandMsg_def)
qed

text \<open>
  Between two steps of the applier, which does not hold the lock then, other goroutines run. What they must leave: the peer
  is alive, no snapshot waits to be handed over, the log begins at or before \<open>lastApplied\<close> and reaches up to the commit
  index, which only grows; committed entries stay; and \<open>lastApplied\<close> and the position of the applier are its own, except that
  it may be woken.
\<close>

definition appliable :: "('c, 's) Raft \<Rightarrow> bool" where
  "appliable rf \<longleftrightarrow> wf_raft rf \<and> \<not> dead rf \<and> \<not> applySnapshot rf \<and> first_index (rlog rf) \<le> lastApplied rf \<and>
     lastApplied rf \<le> commitIndex rf \<and> commitIndex rf \<le> last_index (rlog rf)"

definition other_step :: "('c, 's) Raft \<Rightarrow> ('c, 's) Raft \<Rightarrow> bool" where
  "other_step rf rf' \<longleftrightarrow> appliable rf' \<and> lastApplied rf' = lastApplied rf \<and> commitIndex rf \<le> commitIndex rf' \<and>
     (applyCond rf' = applyCond rf \<or> applyCond rf = ApplyWait \<and> applyCond rf' = ApplyTop) \<and>
     (\<forall>j. lastApplied rf < j \<and> j \<le> commitIndex rf \<longrightarrow> entry_at (rlog rf') j = entry_at (rlog rf) j)"

text \<open>Steps of the applier, each followed by what others do.\<close>

fun applyRun :: "(('c, 's) Raft \<Rightarrow> ('c, 's) Raft) list \<Rightarrow> ('c, 's) Raft \<Rightarrow> (('c, 's) Raft \<times> ('c, 's) ApplyMsg list) go" where
  "applyRun [] rf = Inr (rf, [])"
| "applyRun (other # others) rf =
     gbind (applyStep rf) (\<lambda>(rf, m).
     gbind (applyRun others (other rf)) (\<lambda>(rf, ms).
     Inr (rf, (case m of None \<Rightarrow> ms | Some msg \<Rightarrow> msg # ms))))"

lemma apply_next:
  assumes rf: "appliable rf" "applyCond rf = ApplyTop" "lastApplied rf < commitIndex rf"
    and f: "\<And>x. appliable x \<Longrightarrow> other_step x (f x)" and g: "\<And>x. appliable x \<Longrightarrow> other_step x (g x)"
  obtains rf' where "applyRun (f # g # fs) rf = gbind (applyRun fs rf') (\<lambda>(x, ms).
      Inr (x, commandMsg (rlog rf) (lastApplied rf + 1) # ms))"
    "appliable rf'" "lastApplied rf' = lastApplied rf + 1" "commitIndex rf \<le> commitIndex rf'"
    "applyCond rf' = ApplyTop \<or> applyCond rf' = ApplyWait \<and> commitIndex rf = lastApplied rf + 1"
    "\<And>j. lastApplied rf + 1 < j \<Longrightarrow> j \<le> commitIndex rf \<Longrightarrow> entry_at (rlog rf') j = entry_at (rlog rf) j"
proof -
  let ?m = "commandMsg (rlog rf) (lastApplied rf + 1)"
  let ?x = "rf\<lparr>lastApplied := lastApplied rf + 1, applyCond := ApplySendCommand ?m\<rparr>"
  let ?y = "f ?x" and ?z = "g (applyWaitL (f ?x))"
  have wf: "wf_raft (rf\<lparr>lastApplied := b, applyCond := a\<rparr>) = wf_raft rf" "wf_raft (rf'\<lparr>applyCond := a\<rparr>) = wf_raft rf'"
    for a b and rf' :: "('a, 'b) Raft" by (rule wf_raft_cong; simp)+
  have 1: "applyStep rf = Inr (?x, None)"
    using rf applyLoop_command [of rf] by (simp add: applyStep_def appliable_def)
  have y: "other_step ?x ?y" using f [of ?x] rf by (simp add: appliable_def wf)
  then have 2: "applyStep ?y = Inr (applyWaitL ?y, Some ?m)" by (auto simp: applyStep_def other_step_def)
  have "appliable (applyWaitL ?y)" using y by (auto simp: other_step_def appliable_def applyWaitL_def wf)
  then have z: "other_step (applyWaitL ?y) ?z" by (rule g)
  have w: "lastApplied (applyWaitL rf') = lastApplied rf'" "commitIndex (applyWaitL rf') = commitIndex rf'"
    "rlog (applyWaitL rf') = rlog rf'" for rf' :: "('a, 'b) Raft" by (simp_all add: applyWaitL_def)
  have s: "lastApplied ?z = lastApplied rf + 1" "commitIndex rf \<le> commitIndex ?y" "commitIndex ?y \<le> commitIndex ?z"
    using y z by (auto simp: other_step_def w)
  have c: "applyCond ?z = ApplyTop \<or> applyCond ?z = ApplyWait \<and> commitIndex rf = lastApplied rf + 1"
    using y z rf(3) s(2) by (auto simp: other_step_def applyWaitL_def split: if_splits)
  have e: "entry_at (rlog ?z) j = entry_at (rlog rf) j" if "lastApplied rf + 1 < j" "j \<le> commitIndex rf" for j
    using that y z s(2) by (auto simp: other_step_def w)
  show thesis
    by (rule that [of ?z]) (use 1 2 z s c e in \<open>simp_all add: other_step_def gbind_assoc case_prod_unfold\<close>)
qed

text \<open>
  C35: the applier delivers the committed entries once each and in the order of the log, also while other goroutines
  run between its steps. As long as these leave the peer alive, install no snapshot, do not compact the log beyond \<open>lastApplied\<close>
  and keep the committed entries, two steps per entry hand the service exactly the commands at \<open>lastApplied + 1\<close> and the
  following indices, with their indices, up to any index that was committed at the start; then \<open>lastApplied\<close> is that index and
  the applier is still there. (Without these conditions it can stop for good, \<open>applier_stops\<close>.)
\<close>

theorem applier_in_order:
  assumes "appliable rf" and "applyCond rf = ApplyTop" and "lastApplied rf + 1 + int k \<le> commitIndex rf"
    and "length others = 2 * Suc k" and "\<forall>other \<in> set others. \<forall>x. appliable x \<longrightarrow> other_step x (other x)"
  shows "\<exists>rf'. applyRun others rf =
      Inr (rf', map (commandMsg (rlog rf)) [lastApplied rf + 1..lastApplied rf + 1 + int k]) \<and>
    lastApplied rf' = lastApplied rf + 1 + int k \<and> appliable rf' \<and> applyCond rf' \<in> {ApplyTop, ApplyWait}"
  using assms
proof (induction k arbitrary: rf others)
  case 0
  then obtain f g where o: "others = [f, g]" by (auto simp: length_Suc_conv numeral_2_eq_2)
  show ?case
    by (rule apply_next [of rf f g "[]"]) (use 0 o in \<open>auto simp: o\<close>)
next
  case (Suc k)
  then obtain f g fs where o: "others = f # g # fs" "length fs = 2 * Suc k"
    by (auto simp: length_Suc_conv)
  obtain y where y: "applyRun others rf = gbind (applyRun fs y) (\<lambda>(x, ms). Inr (x, commandMsg (rlog rf) (lastApplied rf + 1) # ms))"
    "appliable y" "lastApplied y = lastApplied rf + 1" "commitIndex rf \<le> commitIndex y" "applyCond y = ApplyTop"
    "\<And>j. lastApplied rf + 1 < j \<Longrightarrow> j \<le> commitIndex rf \<Longrightarrow> entry_at (rlog y) j = entry_at (rlog rf) j"
    by (rule apply_next [of rf f g fs]) (use Suc.prems o in auto)
  have "\<exists>rf'. applyRun fs y =
      Inr (rf', map (commandMsg (rlog y)) [lastApplied y + 1..lastApplied y + 1 + int k]) \<and>
    lastApplied rf' = lastApplied y + 1 + int k \<and> appliable rf' \<and> applyCond rf' \<in> {ApplyTop, ApplyWait}"
    by (rule Suc.IH) (use Suc.prems y o in auto)
  moreover have "map (commandMsg (rlog y)) [lastApplied y + 1..lastApplied y + 1 + int k] =
      map (commandMsg (rlog rf)) [lastApplied rf + 1 + 1..lastApplied rf + 1 + int (Suc k)]"
    using y(3,6) Suc.prems(3) by (simp add: algebra_simps) (simp add: commandMsg_def)
  moreover have "[lastApplied rf + 1..lastApplied rf + 1 + int (Suc k)] =
      (lastApplied rf + 1) # [lastApplied rf + 1 + 1..lastApplied rf + 1 + int (Suc k)]"
    by (simp add: upto_rec1)
  ultimately show ?case using y(1,3) by auto
qed

text \<open>A client that submits a command is such another step.\<close>

definition submitting :: "'c \<Rightarrow> ('c, 's) Raft \<Rightarrow> ('c, 's) Raft" where
  "submitting c rf = (case Start c rf of Inr (_, rf', _) \<Rightarrow> rf' | Inl _ \<Rightarrow> rf)"

lemma entry_at_append: "first_index es \<le> j \<Longrightarrow> j \<le> last_index es \<Longrightarrow> es \<noteq> [] \<Longrightarrow> entry_at (es @ es') j = entry_at es j"
  by (auto simp: entry_at_def last_index_def first_index_def nth_append)

lemma submitting_other:
  assumes "appliable rf"
  shows "other_step rf (submitting c rf)"
proof -
  have wf: "wf_raft rf" using assms by (simp add: appliable_def)
  have "other_step rf (persistL (rf\<lparr>rlog := rlog rf @ [newEntry c rf]\<rparr>))"
    using assms Start_wf [OF wf, of c] entry_at_append [of "rlog rf" _ "[newEntry c rf]"] wf_log_nonempty [OF wf_raft_log [OF wf]]
    by (auto simp: other_step_def appliable_def first_index_def last_index_def nth_append)
  moreover have "other_step rf rf" using assms by (simp add: other_step_def)
  ultimately show ?thesis using wf by (simp add: submitting_def Start_eq Let_def)
qed

theorem applier_in_order_witness:
  "\<exists>rf'. applyRun [submitting 20, submitting 21] leader1 = Inr (rf',
     [\<lparr>CommandValid = True, am_Command = Some 10, CommandIndex = 1,
       SnapshotValid = False, am_Snapshot = [], SnapshotTerm = 0, SnapshotIndex = 0\<rparr>]) \<and> lastApplied rf' = 1"
proof -
  have a: "appliable leader1" "applyCond leader1 = ApplyTop" "lastApplied leader1 = 0"
    using leader1_wf by (simp_all add: appliable_def) (simp_all add: leader1_def run0_peer)
  have "entry_at (rlog leader1) 1 = entry 10 1 1"
    by (simp add: leader1_def entry_at_def first_index_def zeroEntry_def)
  moreover have "\<exists>rf'. applyRun [submitting 20, submitting 21] leader1 =
      Inr (rf', map (commandMsg (rlog leader1)) [lastApplied leader1 + 1..lastApplied leader1 + 1 + int 0]) \<and>
    lastApplied rf' = lastApplied leader1 + 1 + int 0 \<and> appliable rf' \<and> applyCond rf' \<in> {ApplyTop, ApplyWait}"
    by (rule applier_in_order [OF a(1,2)]) (simp_all add: a(3) submitting_other)
  ultimately show ?thesis by (auto simp: a(3) commandMsg_def entry_def simp del: applyRun.simps)
qed

text \<open>
  The applier can stop for good. While it hands a snapshot to the service it does not
  hold the lock; if the log is compacted further in the meantime and the commit index moves,
  the next entry to apply lies below the log and the goroutine returns instead of taking the
  newer snapshot: from then on the service never receives anything.
\<close>

theorem applier_stops:
  assumes "wf_raft rf" and "applyCond rf = ApplySendSnapshot msg"
    and "lastApplied rf < commitIndex rf" and "lastApplied rf < first_index (rlog rf)"
  shows "\<exists>rf'. applyStep rf = Inr (rf', Some msg) \<and> applyRounds k rf' = Inr (rf', [])"
proof -
  let ?rf = "rf\<lparr>lastApplied := lastApplied rf + 1, applyCond := ApplyReturned\<rparr>"
  have "wf_log (rlog (rf\<lparr>lastApplied := lastApplied rf + 1\<rparr>))" using assms(1) by simp
  then have "applyStep rf = Inr (?rf, Some msg)"
    using assms by (simp add: applyStep_def applyCommandL_def Let_def)
  moreover have "applyRounds k ?rf = Inr (?rf, [])"
    by (induction k) (simp_all add: applyStep_def)
  ultimately show ?thesis by blast
qed

definition sending1 :: "(nat, nat) Raft" where
  "sending1 = (peer run0 1)\<lparr>rlog := [\<lparr>le_Command = None, le_Index = 9, le_Term = 1\<rparr>],
     rsnapshot := \<lparr>LastIncludedIndex = 9, LastIncludedTerm = 1, snap_Data = [7]\<rparr>,
     commitIndex := 9, lastApplied := 5, applySnapshot := True,
     applyCond := ApplySendSnapshot \<lparr>CommandValid = False, am_Command = None, CommandIndex = 0,
       SnapshotValid = True, am_Snapshot = [6], SnapshotTerm = 5, SnapshotIndex = 5\<rparr>\<rparr>"

theorem applier_stops_witness:
  "applySnapshot sending1 \<and> (\<exists>rf' m. applyStep sending1 = Inr (rf', Some m) \<and> applyRounds 100 rf' = Inr (rf', []))"
proof -
  have "wf_raft sending1" by (simp add: sending1_def run0_peer wf_raft_def first_index_def)
  then show ?thesis
    using applier_stops [of sending1 _ 100] by (fastforce simp: sending1_def first_index_def)
qed

subsection \<open>Timeouts and availability of the handlers\<close>

text \<open>
  C37: the randomised election timeout. A reset while the peer runs puts it 400 to 750 ms ahead, within the bounds
  \<open>MinTimeout\<close> and \<open>MaxTimeout\<close>; the first one of a peer puts it 0 to 350 ms ahead, which is below \<open>MinTimeout\<close>. It is always a
  multiple of the heartbeat interval ahead. \<open>Make\<close> leaves a peer that comes back with a term from its persister with a timeout of 400
  to 750 ms, and one that starts in term 0 with one of 0 to 350 ms.
\<close>

theorem electionTimeout_bounds:
  fixes rf :: "('c, 's) Raft" and ps :: "('c, 's) Persister"
  shows "0 \<le> electionTimeout (resetElectionTimeoutL clk True rf) - now clk \<and>
    electionTimeout (resetElectionTimeoutL clk True rf) - now clk \<le> 350 \<and>
    400 \<le> electionTimeout (resetElectionTimeoutL clk False rf) - now clk \<and>
    electionTimeout (resetElectionTimeoutL clk False rf) - now clk \<le> 750 \<and>
    HeartbeatsInterval dvd electionTimeout (resetElectionTimeoutL clk ini rf) - now clk \<and>
    MinTimeout * HeartbeatsInterval = 400 \<and> MaxTimeout * HeartbeatsInterval = 800 \<and>
    (case Make clk0 clk' n m ps of
       Inl _ \<Rightarrow> True
     | Inr rf' \<Rightarrow> if currentTerm rf' = 0
         then electionTimeout rf' - now clk0 \<in> {0..350} else electionTimeout rf' - now clk' \<in> {400..750})"
proof -
  have first: "electionTimeout (resetElectionTimeoutL clk True rf) - now clk \<in> {0..350}" for clk :: clock and rf :: "('c, 's) Raft"
    by (simp add: resetElectionTimeoutL_def Let_def MaxTimeout_def MinTimeout_def HeartbeatsInterval_def)
  have later: "electionTimeout (resetElectionTimeoutL clk False rf) - now clk \<in> {400..750}" for clk :: clock and rf :: "('c, 's) Raft"
    by (simp add: resetElectionTimeoutL_def Let_def MaxTimeout_def MinTimeout_def HeartbeatsInterval_def)
  have read: "electionTimeout rf' = electionTimeout rf" if "readPersist state rf = Inr rf'" for state and rf rf' :: "('c, 's) Raft"
    using that by (auto simp: readPersist_def Let_def split: if_splits option.splits prod.splits)
  have "case Make clk0 clk' n m ps of Inl _ \<Rightarrow> True
     | Inr rf' \<Rightarrow> if currentTerm rf' = 0
         then electionTimeout rf' - now clk0 \<in> {0..350} else electionTimeout rf' - now clk' \<in> {400..750}"
  proof (cases "Make clk0 clk' n m ps")
    case (Inr rf')
    then obtain rf0 rf1 :: "('c, 's) Raft" where "readPersist (ReadRaftState ps) (resetElectionTimeoutL clk0 True rf0) = Inr rf1"
      "rf' = (if currentTerm rf1 \<noteq> 0 then resetElectionTimeoutL clk' False rf1 else rf1)"
      unfolding Make_def initL_def Let_def gbind_Inr_iff by (auto split: if_splits)
    moreover have "currentTerm (resetElectionTimeoutL clk' False rf1) = currentTerm rf1"
      by (simp add: resetElectionTimeoutL_def Let_def)
    ultimately show ?thesis using Inr first [of clk0 rf0] later [of clk' rf1] read by auto
  qed simp
  moreover have "HeartbeatsInterval dvd electionTimeout (resetElectionTimeoutL clk ini rf) - now clk"
    by (simp add: resetElectionTimeoutL_def Let_def)
  ultimately show ?thesis
    using first [of clk rf] later [of clk rf] by (simp add: MaxTimeout_def MinTimeout_def HeartbeatsInterval_def)
qed

text \<open>
  C25: no request makes a server panic. At every server of every reachable cluster, the
  handlers of vote and snapshot requests with any arguments, of every append request that is
  in flight, of \<open>Start\<close> and of the ticker return a result (no index of the log or of a slice is
  out of range), and a restart from the server's persister succeeds.
\<close>

theorem reachable_no_panic:
  assumes "reachable n s" and "i < n"
  shows "returns (RequestVote clk vargs (peer s i)) \<and> returns (InstallSnapshot clk iargs (peer s i)) \<and>
    (\<forall>l args. AppendRequest l i args \<in> net s \<longrightarrow> returns (AppendEntries clk args (peer s i))) \<and>
    returns (Start command (peer s i)) \<and> returns (tick clk (peer s i)) \<and>
    returns (Make clk clk' n (int i) (persister (peer s i)))"
proof -
  have inv: "election_inv s" by (rule reachable_inv [OF assms(1)])
  note I = election_invD [OF inv]
  have n: "size s = n"
    using assms(1) size_steps by (auto simp: reachable_def startCluster_def)
  have snd: "sound (peer s i)" using peers_invD(3) [OF I(1)] assms(2) n by simp
  note wf = soundD(1) [OF snd]
  have "returns (AppendEntries clk args (peer s i))" if "AppendRequest l i args \<in> net s" for l args
    using AppendEntries_returns [OF wf] net_invD(1) [OF I(2) that] by (fastforce simp: returns_def)
  moreover have "returns (InstallSnapshot clk iargs (peer s i))"
    using InstallSnapshot_returns [OF wf, of clk iargs] by (auto simp: returns_def)
  moreover have "returns (Make clk clk' n (int i) (persister (peer s i)))"
    using initL_durable [OF soundD(2) [OF snd] wf, of clk clk' n "int i"] by (auto simp: Make_def returns_def)
  ultimately show ?thesis
    using wf by (simp add: RequestVote_eq Start_eq tick_def becomeCandidateL_eq)
qed

theorem reachable_no_panic_witness:
  "reachable 3 run3 \<and> returns (Start 7 (peer run3 0)) \<and>
   returns (Make (at 0) (at 0) 3 0 (persister (peer run3 0)))"
  using reachable_no_panic [OF run3_reachable, of 0 "at 0" vote1 install1 7 "at 0"] run3_reachable by simp

subsection \<open>Snapshots\<close>

text \<open>
  C36: an accepted snapshot replaces the log up to its last index and nothing else. The first
  entry of the log becomes the snapshot's last entry (index and term). If the old log has an
  entry with that index and term, every entry after it is kept; otherwise nothing is. The
  applier is told to deliver the snapshot, and term, vote and shape of the peer are those after
  the usual step to a newer term.
\<close>

theorem InstallSnapshot_spec:
  assumes "wf_raft rf" and "currentTerm rf \<le> is_Term args" and "snap = is_Snapshot args"
    and "first_index (rlog rf) < LastIncludedIndex snap"
  shows "\<exists>rf'. InstallSnapshot clk args rf = Inr (rf', \<lparr>isr_Term = is_Term args\<rparr>) \<and> wf_raft rf' \<and>
    applySnapshot rf' \<and> rsnapshot rf' = snap \<and> first_index (rlog rf') = LastIncludedIndex snap \<and>
    le_Term (rlog rf' ! 0) = LastIncludedTerm snap \<and> currentTerm rf' = is_Term args \<and>
    (if LastIncludedIndex snap \<le> last_index (rlog rf) \<and>
        le_Term (entry_at (rlog rf) (LastIncludedIndex snap)) = LastIncludedTerm snap
     then last_index (rlog rf') = last_index (rlog rf) \<and>
       (\<forall>j \<ge> LastIncludedIndex snap. j \<le> last_index (rlog rf) \<longrightarrow>
          entry_at (rlog rf') j = entry_at (rlog rf) j)
     else last_index (rlog rf') = LastIncludedIndex snap)"
proof -
  note wf = wf_raft_log [OF assms(1)]
  let ?es = "snapshot_log snap (rlog rf)" and ?k = "nat (LastIncludedIndex snap - first_index (rlog rf))"
  obtain rf' where rf': "InstallSnapshot clk args rf = Inr (rf', \<lparr>isr_Term = is_Term args\<rparr>)"
    "rlog rf' = ?es" "applySnapshot rf'" "rsnapshot rf' = snap" "currentTerm rf' = is_Term args"
    using InstallSnapshot_install [OF assms(1,2)] assms(2-4) by (simp add: max_def)
  have "wf_raft rf'" using InstallSnapshot_returns [OF assms(1), of clk args] rf'(1) by auto
  moreover have "last_index ?es = last_index (rlog rf) \<and>
      (\<forall>j \<ge> LastIncludedIndex snap. j \<le> last_index (rlog rf) \<longrightarrow> entry_at ?es j = entry_at (rlog rf) j)"
    if m: "LastIncludedIndex snap \<le> last_index (rlog rf)"
      "le_Term (entry_at (rlog rf) (LastIncludedIndex snap)) = LastIncludedTerm snap"
  proof -
    have k: "?k < length (rlog rf)" using m assms(4) by (simp add: last_index_def)
    have es: "?es = drop ?k (rlog rf)" using m by (simp add: snapshot_log_def)
    have "entry_at ?es j = entry_at (rlog rf) j"
      if "LastIncludedIndex snap \<le> j" "j \<le> last_index (rlog rf)" for j
      using wf k es that assms(4) snapshot_log_wf(2) [OF wf assms(4)]
      by (simp add: entry_at_def nat_add_distrib [symmetric])
    then show ?thesis using wf k es by (simp add: last_index_drop)
  qed
  ultimately show ?thesis
    using rf' snapshot_log_wf [OF wf assms(4)] by (auto simp: snapshot_log_def last_index_def)
qed

theorem InstallSnapshot_spec_witness:
  "\<exists>rf'. InstallSnapshot (at 0) install1 follower1 = Inr (rf', \<lparr>isr_Term = 2\<rparr>) \<and>
    first_index (rlog rf') = 8 \<and> le_Term (rlog rf' ! 0) = 2"
proof -
  have "currentTerm follower1 \<le> is_Term install1"
    "first_index (rlog follower1) < LastIncludedIndex (is_Snapshot install1)"
    by (simp_all add: install1_def follower1_def first_index_def zeroEntry_def)
  then show ?thesis
    using InstallSnapshot_spec [OF follower1_wf _ refl, of install1 "at 0"]
    by (force simp: install1_def)
qed

end
