(* ===== verification/Sessions.thy ===== *)
theory Sessions
  imports Go_Util
begin

text \<open>
  Client sessions: the services on top of Raft remember the last operation of every client
  and skip an operation that repeats it. The locale states what such a service promises of
  its step, and the lemmas in it show when that makes every operation take effect exactly
  once. The key/value server and the shard controller are instances; they differ in what
  identifies an operation of a client (the whole operation, or its number).
\<close>

subsection \<open>Running a log\<close>

text \<open>A step can end the process; then the rest of the log is not run.\<close>

fun run :: "('op \<Rightarrow> 's \<Rightarrow> 's go) \<Rightarrow> 'op list \<Rightarrow> 's \<Rightarrow> 's go" where
  "run f [] s = Inr s"
| "run f (op # ops) s = gbind (f op s) (run f ops)"

lemma run_append: "run f (xs @ ys) s = gbind (run f xs s) (run f ys)"
  by (induction xs arbitrary: s) (auto simp: gbind_def split: sum.splits)

lemma run_total: "run (\<lambda>op s. Inr (f op s)) ops s = Inr (fold f ops s)"
  by (induction ops arbitrary: s) auto

subsection \<open>Repeated operations in a log\<close>

text \<open>
  \<open>client\<close> gives the client of an operation and \<open>ident\<close> what tells the operations of one client
  apart. The effective operations of a log are those that are not skipped, when \<open>l\<close> gives the
  last operation of each client.
\<close>

fun effective :: "('op \<Rightarrow> 'k) \<Rightarrow> ('op \<Rightarrow> 'i) \<Rightarrow> ('k \<rightharpoonup> 'i) \<Rightarrow> 'op list \<Rightarrow> 'op list" where
  "effective client ident l [] = []"
| "effective client ident l (op # ops) =
     (if l (client op) = Some (ident op) then effective client ident l ops
      else op # effective client ident (l(client op \<mapsto> ident op)) ops)"

text \<open>The last operation of each client after a log.\<close>

fun last_ops :: "('op \<Rightarrow> 'k) \<Rightarrow> ('op \<Rightarrow> 'i) \<Rightarrow> ('k \<rightharpoonup> 'i) \<Rightarrow> 'op list \<Rightarrow> ('k \<rightharpoonup> 'i)" where
  "last_ops client ident l [] = l"
| "last_ops client ident l (op # ops) = last_ops client ident (l(client op \<mapsto> ident op)) ops"

definition same_op :: "('op \<Rightarrow> 'k) \<Rightarrow> ('op \<Rightarrow> 'i) \<Rightarrow> 'op \<Rightarrow> 'op \<Rightarrow> bool" where
  "same_op client ident p q \<longleftrightarrow> client p = client q \<and> ident p = ident q"

text \<open>
  A log in which a client repeats an operation only until it goes on to its next one: once
  another operation of the client has followed, the earlier one does not come back.
\<close>

fun in_order :: "('op \<Rightarrow> 'k) \<Rightarrow> ('op \<Rightarrow> 'i) \<Rightarrow> 'op list \<Rightarrow> bool" where
  "in_order client ident [] \<longleftrightarrow> True"
| "in_order client ident (op # ops) \<longleftrightarrow>
     in_order client ident ops \<and>
     (list_ex (same_op client ident op) ops \<longrightarrow>
      list_all (\<lambda>p. client p \<noteq> client op) (takeWhile (\<lambda>q. \<not> same_op client ident op q) ops))"

text \<open>Every operation of the log, at its first occurrence.\<close>

fun firsts :: "('op \<Rightarrow> 'k) \<Rightarrow> ('op \<Rightarrow> 'i) \<Rightarrow> ('k \<times> 'i) set \<Rightarrow> 'op list \<Rightarrow> 'op list" where
  "firsts client ident seen [] = []"
| "firsts client ident seen (op # ops) =
     (if (client op, ident op) \<in> seen then firsts client ident seen ops
      else op # firsts client ident (insert (client op, ident op) seen) ops)"

lemma firsts_key_distinct:
  "distinct (map (\<lambda>op. (client op, ident op)) (firsts client ident seen ops)) \<and>
   set (map (\<lambda>op. (client op, ident op)) (firsts client ident seen ops)) =
     (\<lambda>op. (client op, ident op)) ` set ops - seen"
  by (induction ops arbitrary: seen) auto

lemma effective_append:
  "effective client ident l (xs @ ys) =
     effective client ident l xs @ effective client ident (last_ops client ident l xs) ys"
proof (induction xs arbitrary: l)
  case (Cons x xs)
  have "l(client x \<mapsto> ident x) = l" if "l (client x) = Some (ident x)" using that by (simp add: fun_upd_idem)
  with Cons.IH [of l] Cons.IH [of "l(client x \<mapsto> ident x)"] show ?case
    by (simp del: fun_upd_apply)
qed simp

text \<open>
  The key fact: in an ordered log the operations that are not skipped are those at a first
  occurrence. The last operation remembered for a client stands for all that the log has
  seen, as long as the others of the client do not come back.
\<close>

lemma effective_firsts_gen:
  assumes "in_order client ident ops"
    and "\<And>x. x \<in> set ops \<Longrightarrow> (client x, ident x) \<in> seen \<longleftrightarrow> l (client x) = Some (ident x)"
    and "\<And>x p. (client x, ident x) \<in> seen \<Longrightarrow> x \<in> set ops \<Longrightarrow>
           p \<in> set (takeWhile (\<lambda>q. \<not> same_op client ident x q) ops) \<Longrightarrow> client p \<noteq> client x"
  shows "effective client ident l ops = firsts client ident seen ops"
  using assms
proof (induction ops arbitrary: l seen)
  case (Cons op ops)
  have ord: "in_order client ident ops"
    and op: "\<And>x p. same_op client ident op x \<Longrightarrow> x \<in> set ops \<Longrightarrow>
      p \<in> set (takeWhile (\<lambda>q. \<not> same_op client ident x q) ops) \<Longrightarrow> client p \<noteq> client x"
    using Cons.prems(1) by (auto simp: list_ex_iff list_all_iff same_op_def)
  have later: "client p \<noteq> client x"
    if "(client x, ident x) \<in> seen" "x \<in> set ops"
      "p \<in> set (takeWhile (\<lambda>q. \<not> same_op client ident x q) ops)" for x p
    using that op [of x p] Cons.prems(3) [of x p]
    by (cases "same_op client ident op x") (auto simp: same_op_def)
  show ?case
  proof (cases "(client op, ident op) \<in> seen")
    case True
    then have l: "l (client op) = Some (ident op)" using Cons.prems(2) by simp
    have "effective client ident l ops = firsts client ident seen ops"
      by (rule Cons.IH [OF ord]) (use Cons.prems(2) later in auto)
    with True l show ?thesis by simp
  next
    case False
    then have l: "l (client op) \<noteq> Some (ident op)" using Cons.prems(2) by simp
    have gone: "x \<notin> set ops" if "(client x, ident x) \<in> seen" "client x = client op" for x
      using that False Cons.prems(3) [of x op] by (cases "ident x = ident op") (auto simp: same_op_def)
    have "effective client ident (l(client op \<mapsto> ident op)) ops =
        firsts client ident (insert (client op, ident op) seen) ops"
    proof (rule Cons.IH [OF ord])
      show "(client x, ident x) \<in> insert (client op, ident op) seen \<longleftrightarrow>
          (l(client op \<mapsto> ident op)) (client x) = Some (ident x)" if "x \<in> set ops" for x
        using that gone [of x] Cons.prems(2) [of x] by auto
      show "client p \<noteq> client x"
        if "(client x, ident x) \<in> insert (client op, ident op) seen" "x \<in> set ops"
          "p \<in> set (takeWhile (\<lambda>q. \<not> same_op client ident x q) ops)" for x p
        using that op [of x p] later [of x p] by (auto simp: same_op_def)
    qed
    with False l show ?thesis by simp
  qed
qed simp

lemma effective_firsts:
  assumes "in_order client ident ops"
  shows "effective client ident Map.empty ops = firsts client ident {} ops"
  by (rule effective_firsts_gen [OF assms]) auto

subsection \<open>Services with sessions\<close>

locale session_service =
  fixes client :: "'op \<Rightarrow> 'k"
    and ident :: "'op \<Rightarrow> 'i"
    and exec :: "'op \<Rightarrow> 'st \<Rightarrow> 'st go"
    and step :: "'op \<Rightarrow> 'sv \<Rightarrow> 'sv go"
    and data :: "'sv \<Rightarrow> 'st"
    and remembered :: "'sv \<Rightarrow> 'k \<rightharpoonup> 'i"
  assumes repeated: "remembered sv (client op) = Some (ident op) \<Longrightarrow>
        \<exists>sv'. step op sv = Inr sv' \<and> data sv' = data sv \<and> remembered sv' = remembered sv"
    and crashes: "remembered sv (client op) \<noteq> Some (ident op) \<Longrightarrow> step op sv = Inl e \<Longrightarrow>
        exec op (data sv) = Inl e"
    and executes: "remembered sv (client op) \<noteq> Some (ident op) \<Longrightarrow> step op sv = Inr sv' \<Longrightarrow>
        exec op (data sv) = Inr (data sv') \<and>
        remembered sv' = (remembered sv)(client op \<mapsto> ident op)"
begin

text \<open>A service that applies a log executes its effective operations.\<close>

lemma run_effective:
  "(\<forall>e. run step ops sv = Inl e \<longrightarrow>
      run exec (effective client ident (remembered sv) ops) (data sv) = Inl e) \<and>
   (\<forall>sv'. run step ops sv = Inr sv' \<longrightarrow>
      run exec (effective client ident (remembered sv) ops) (data sv) = Inr (data sv') \<and>
      remembered sv' = last_ops client ident (remembered sv) ops)"
proof (induction ops arbitrary: sv)
  case (Cons op ops)
  show ?case
  proof (cases "remembered sv (client op) = Some (ident op)")
    case True
    then obtain sv1 where "step op sv = Inr sv1" "data sv1 = data sv" "remembered sv1 = remembered sv"
      using repeated by blast
    moreover have "(remembered sv)(client op \<mapsto> ident op) = remembered sv" using True by (simp add: fun_upd_idem)
    ultimately show ?thesis using True Cons.IH [of sv1] by (simp del: fun_upd_apply)
  next
    case False
    show ?thesis
    proof (cases "step op sv")
      case (Inl e)
      with False crashes [OF False] show ?thesis by simp
    next
      case (Inr sv1)
      with False executes [OF False Inr] Cons.IH [of sv1] show ?thesis by (simp del: fun_upd_apply)
    qed
  qed
qed simp

text \<open>
  Exactly once: from an empty session table, a log in which every client repeats only its
  current operation has the effect of executing each of its operations once, in the order of
  their first occurrences.
\<close>

lemma exactly_once:
  assumes "remembered sv = Map.empty" and "in_order client ident ops" and "run step ops sv = Inr sv'"
  shows "run exec (firsts client ident {} ops) (data sv) = Inr (data sv')"
  using run_effective [of ops sv] effective_firsts [OF assms(2)] assms(1,3) by simp

end

end
