(* ===== verification/KV_Server.thy ===== *)
theory KV_Server
  imports Raft_Server Sessions
begin

text \<open>
  The key/value service of \<^verbatim>\<open>kvraft/\<close>: the server that applies the committed
  operations of its Raft peer to a map and answers the RPCs, and the clerk. As in the Raft
  theories, every stretch of code between two points where the lock is released is one
  function. The record of the server contains its Raft peer, whose functions the server
  calls; the persister is the one of that peer. Go maps are partial functions.
\<close>

subsection \<open>Operations and replies\<close>

definition opPut :: string where "opPut = ''Put''"
definition opAppend :: string where "opAppend = ''Append''"
definition opGet :: string where "opGet = ''Get''"

record PutAppendArgs =
  pa_Key :: string
  pa_Value :: string
  pa_Op :: string
  pa_ClientId :: int
  pa_OpId :: int

record GetArgs =
  ga_Key :: string
  ga_ClientId :: int
  ga_OpId :: int

record OpReply =
  or_Err :: Err
  or_Value :: string

record Op =
  OpType :: string
  Key :: string
  Val :: string
  ClientId :: int
  OpId :: int

record LastOp =
  lo_Op :: Op
  GetResult :: string

text \<open>\<open>_Result\<close>: the pointer to the operation is nil in the zero value.\<close>

record Result =
  res_err :: Err
  res_value :: string
  res_op :: "Op option"

definition zeroReply :: OpReply where
  "zeroReply = \<lparr>or_Err = ErrNone, or_Value = []\<rparr>"

definition zeroResult :: Result where
  "zeroResult = \<lparr>res_err = ErrNone, res_value = [], res_op = None\<rparr>"

subsection \<open>The server\<close>

text \<open>The values that \<open>snapshotL\<close> encodes, with their types.\<close>

datatype kvgob = GobKVMap "string \<rightharpoonup> string" | GobLastOps "int \<rightharpoonup> LastOp"

text \<open>
  \<open>resultChans\<close> maps a command index to a channel; channels are numbered in the order in
  which they are made, and \<open>chans\<close> is the number of the next one.
\<close>

record KVServer =
  kv_me :: int
  kv_rf :: "(Op, kvgob) Raft"
  kv_dead :: bool
  maxraftstate :: int
  kvMap :: "string \<rightharpoonup> string"
  lastOps :: "int \<rightharpoonup> LastOp"
  resultChans :: "int \<rightharpoonup> nat"
  chans :: nat

text \<open>Where an RPC handler stands when it releases the lock: it has a reply, or it waits.\<close>

datatype handler =
    Replied OpReply
  | Waiting int nat Op \<comment> \<open>command index, channel, operation\<close>

subsection \<open>RPC handlers\<close>

text \<open>\<open>waitApplyL\<close> up to its \<open>select\<close>, and from there on.\<close>

definition waitApplyL :: "int \<Rightarrow> KVServer \<Rightarrow> nat \<times> KVServer" where
  "waitApplyL commandIndex kv =
     (case resultChans kv commandIndex of
        Some ch \<Rightarrow> (ch, kv)
      | None \<Rightarrow> (chans kv, kv\<lparr>resultChans := (resultChans kv)(commandIndex \<mapsto> chans kv),
                              chans := chans kv + 1\<rparr>))"

definition waitApplyEndL :: "int \<Rightarrow> Op \<Rightarrow> Result \<Rightarrow> KVServer \<Rightarrow> (Result \<times> KVServer) go" where
  "waitApplyEndL commandIndex op result kv =
     (let kv = kv\<lparr>resultChans := (resultChans kv)(commandIndex := None)\<rparr> in
      if res_err result = OK then
        (case res_op result of
           None \<Rightarrow> Inl NilDereference
         | Some op' \<Rightarrow> Inr (if op \<noteq> op' then result\<lparr>res_err := ErrNotApplied\<rparr> else result, kv))
      else Inr (result, kv))"

definition timeoutResult :: Result where
  "timeoutResult = zeroResult\<lparr>res_err := ErrTimeout\<rparr>"

text \<open>The entry of \<open>lastOps\<close> for the client of \<open>op\<close>, if it is for \<open>op\<close> itself.\<close>

definition sameLastOp :: "Op \<Rightarrow> KVServer \<Rightarrow> LastOp option" where
  "sameLastOp op kv =
     (case lastOps kv (ClientId op) of
        Some lastOp \<Rightarrow> if lo_Op lastOp = op then Some lastOp else None
      | None \<Rightarrow> None)"

definition processOpL :: "Op \<Rightarrow> KVServer \<Rightarrow> (handler \<times> KVServer \<times> task list) go" where
  "processOpL op kv =
     (case sameLastOp op kv of
        Some lastOp \<Rightarrow>
          Inr (Replied (zeroReply\<lparr>or_Err := OK, or_Value := GetResult lastOp\<rparr>), kv, [])
      | None \<Rightarrow>
          gbind (Start op (kv_rf kv)) (\<lambda>((commandIndex, _, isLeader), rf, tasks).
          let kv = kv\<lparr>kv_rf := rf\<rparr> in
          if \<not> isLeader then Inr (Replied (zeroReply\<lparr>or_Err := ErrWrongLeader\<rparr>), kv, tasks)
          else case waitApplyL commandIndex kv of
            (ch, kv) \<Rightarrow> Inr (Waiting commandIndex ch op, kv, tasks)))"

text \<open>The end of \<open>processOpL\<close> for a handler that waited.\<close>

definition processOpEndL :: "int \<Rightarrow> Op \<Rightarrow> Result \<Rightarrow> KVServer \<Rightarrow> (OpReply \<times> KVServer) go" where
  "processOpEndL commandIndex op result kv =
     gbind (waitApplyEndL commandIndex op result kv) (\<lambda>(result, kv).
     Inr (\<lparr>or_Err = res_err result, or_Value = res_value result\<rparr>, kv))"

definition Get :: "GetArgs \<Rightarrow> KVServer \<Rightarrow> (handler \<times> KVServer \<times> task list) go" where
  "Get args kv =
     processOpL \<lparr>OpType = opGet, Key = ga_Key args, Val = [],
                 ClientId = ga_ClientId args, OpId = ga_OpId args\<rparr> kv"

definition PutAppend :: "PutAppendArgs \<Rightarrow> KVServer \<Rightarrow> (handler \<times> KVServer \<times> task list) go" where
  "PutAppend args kv =
     processOpL \<lparr>OpType = pa_Op args, Key = pa_Key args, Val = pa_Value args,
                 ClientId = pa_ClientId args, OpId = pa_OpId args\<rparr> kv"

subsection \<open>The applier\<close>

definition applyOpL :: "Op \<Rightarrow> KVServer \<Rightarrow> Result \<times> KVServer" where
  "applyOpL op kv =
     (case sameLastOp op kv of
        Some _ \<Rightarrow> (zeroResult\<lparr>res_err := ErrDuplicate\<rparr>, kv)
      | None \<Rightarrow>
          (let value = (case kvMap kv (Key op) of Some v \<Rightarrow> v | None \<Rightarrow> []);
               ok = (kvMap kv (Key op) \<noteq> None);
               result = zeroResult\<lparr>res_err := OK\<rparr>;
               (result, kv') =
                 (if OpType op = opPut
                  then (result, kv\<lparr>kvMap := (kvMap kv)(Key op \<mapsto> Val op)\<rparr>)
                  else if OpType op = opAppend
                  then (result, kv\<lparr>kvMap := (kvMap kv)(Key op \<mapsto>
                                     (if ok then value @ Val op else Val op))\<rparr>)
                  else if OpType op = opGet
                  then (if ok then (result\<lparr>res_value := value\<rparr>, kv)
                        else (result\<lparr>res_err := ErrNoKey, res_value := []\<rparr>, kv))
                  else (result, kv))
           in (result, kv'\<lparr>lastOps := (lastOps kv')(ClientId op \<mapsto>
                              \<lparr>lo_Op = op, GetResult = value\<rparr>)\<rparr>)))"

definition encodeSnapshot :: "KVServer \<Rightarrow> kvgob list" where
  "encodeSnapshot kv = [GobKVMap (kvMap kv), GobLastOps (lastOps kv)]"

definition snapshotL :: "int \<Rightarrow> KVServer \<Rightarrow> KVServer go" where
  "snapshotL index kv =
     gbind (Snapshot index (encodeSnapshot kv) (kv_rf kv)) (\<lambda>rf. Inr (kv\<lparr>kv_rf := rf\<rparr>))"

fun decodeKVMap :: "kvgob list \<Rightarrow> ((string \<rightharpoonup> string) \<times> kvgob list) option" where
  "decodeKVMap (GobKVMap m # buf) = Some (m, buf)"
| "decodeKVMap _ = None"

fun decodeLastOps :: "kvgob list \<Rightarrow> ((int \<rightharpoonup> LastOp) \<times> kvgob list) option" where
  "decodeLastOps (GobLastOps m # buf) = Some (m, buf)"
| "decodeLastOps _ = None"

definition readSnapshotL :: "kvgob list \<Rightarrow> KVServer \<Rightarrow> KVServer go" where
  "readSnapshotL snapshot kv =
     (if length snapshot < 1 then Inr kv
      else case decodeKVMap snapshot of
        None \<Rightarrow> Inl (LogFatal ''readSnapshotL() failed!'')
      | Some (m, buf) \<Rightarrow>
          (case decodeLastOps buf of
             None \<Rightarrow> Inl (LogFatal ''readSnapshotL() failed!'')
           | Some (l, buf) \<Rightarrow> Inr (kv\<lparr>kvMap := m, lastOps := l\<rparr>)))"

text \<open>
  One round of \<open>receiveApplyMsg\<close>: \<open>receiveMsgL\<close> from the receipt of a message to the send of
  the result on a channel, if a handler waits for it, and \<open>receiveEndL\<close> from there on.
  \<open>bytes\<close> is the length of an encoded Raft state.
\<close>

definition receiveEndL ::
    "(Op gobval list \<Rightarrow> int) \<Rightarrow> (Op, kvgob) ApplyMsg \<Rightarrow> KVServer \<Rightarrow> KVServer go" where
  "receiveEndL bytes msg kv =
     gbind (if CommandValid msg \<and> maxraftstate kv \<noteq> NA \<and>
               RaftStateSize bytes (persister (kv_rf kv)) \<ge> maxraftstate kv
            then snapshotL (CommandIndex msg) kv else Inr kv) (\<lambda>kv.
     if SnapshotValid msg then readSnapshotL (am_Snapshot msg) kv else Inr kv)"

definition receiveMsgL ::
    "(Op gobval list \<Rightarrow> int) \<Rightarrow> (Op, kvgob) ApplyMsg \<Rightarrow> KVServer
       \<Rightarrow> ((nat \<times> Result) option \<times> KVServer) go" where
  "receiveMsgL bytes msg kv =
     (if CommandValid msg then
        case am_Command msg of
          None \<Rightarrow> Inl TypeAssertion
        | Some op \<Rightarrow>
            (case applyOpL op kv of (result, kv) \<Rightarrow>
             case resultChans kv (CommandIndex msg) of
               Some ch \<Rightarrow> Inr (Some (ch, result\<lparr>res_op := Some op\<rparr>), kv)
             | None \<Rightarrow> gbind (receiveEndL bytes msg kv) (\<lambda>kv. Inr (None, kv)))
      else gbind (receiveEndL bytes msg kv) (\<lambda>kv. Inr (None, kv)))"

subsection \<open>Start and end of a server\<close>

definition Kill_kv :: "KVServer \<Rightarrow> KVServer" where
  "Kill_kv kv = kv\<lparr>kv_dead := True, kv_rf := Kill (kv_rf kv)\<rparr>"

definition killed_kv :: "KVServer \<Rightarrow> bool" where
  "killed_kv kv = kv_dead kv"

definition StartKVServer ::
    "clock \<Rightarrow> clock \<Rightarrow> nat \<Rightarrow> int \<Rightarrow> (Op, kvgob) Persister \<Rightarrow> int \<Rightarrow> KVServer go" where
  "StartKVServer clk clk' n m ps maxstate =
     gbind (Make clk clk' n m ps) (\<lambda>rf.
     readSnapshotL (ReadSnapshot ps)
       \<lparr>kv_me = m, kv_rf = rf, kv_dead = False, maxraftstate = maxstate,
        kvMap = Map.empty, lastOps = Map.empty, resultChans = Map.empty, chans = 0\<rparr>)"

subsection \<open>The clerk\<close>

record Clerk =
  servers :: nat
  ck_me :: int
  currentLeader :: int
  nextOpId :: int

definition changeLeaderL :: "Clerk \<Rightarrow> Clerk" where
  "changeLeaderL ck =
     (let ck = ck\<lparr>currentLeader := currentLeader ck + 1\<rparr> in
      if currentLeader ck \<ge> int (servers ck) then ck\<lparr>currentLeader := 0\<rparr> else ck)"

text \<open>
  \<open>_sendOpL\<close> calls itself until a reply is accepted. The argument lists what the calls
  return, \<open>None\<close> for a call that fails; the result is \<open>None\<close> while the clerk still tries.
  Each call goes to the server \<open>currentLeader\<close>, which must exist.
\<close>

fun sendOpL' :: "OpReply option list \<Rightarrow> Clerk \<Rightarrow> (string option \<times> Clerk) go" where
  "sendOpL' [] ck = Inr (None, ck)"
| "sendOpL' (r # rs) ck =
     (if 0 \<le> currentLeader ck \<and> currentLeader ck < int (servers ck) then
        (case r of
           Some reply \<Rightarrow>
             if or_Err reply = OK \<or> or_Err reply = ErrNoKey then Inr (Some (or_Value reply), ck)
             else sendOpL' rs (changeLeaderL ck)
         | None \<Rightarrow> sendOpL' rs (changeLeaderL ck))
      else Inl IndexOutOfRange)"

definition sendOpL :: "OpReply option list \<Rightarrow> Clerk \<Rightarrow> (string option \<times> Clerk) go" where
  "sendOpL rs ck = sendOpL' rs (ck\<lparr>nextOpId := nextOpId ck + 1\<rparr>)"

text \<open>The arguments of the RPCs of a clerk's calls.\<close>

definition Clerk_Get :: "string \<Rightarrow> OpReply option list \<Rightarrow> Clerk \<Rightarrow> GetArgs \<times> (string option \<times> Clerk) go" where
  "Clerk_Get key rs ck =
     (\<lparr>ga_Key = key, ga_ClientId = ck_me ck, ga_OpId = nextOpId ck\<rparr>, sendOpL rs ck)"

definition Clerk_PutAppend ::
    "string \<Rightarrow> string \<Rightarrow> string \<Rightarrow> OpReply option list \<Rightarrow> Clerk
       \<Rightarrow> PutAppendArgs \<times> (string option \<times> Clerk) go" where
  "Clerk_PutAppend key value op rs ck =
     (\<lparr>pa_Key = key, pa_Value = value, pa_Op = op, pa_ClientId = ck_me ck,
       pa_OpId = nextOpId ck\<rparr>, sendOpL rs ck)"

definition Clerk_Put where "Clerk_Put key value = Clerk_PutAppend key value opPut"

definition Clerk_Append where "Clerk_Append key value = Clerk_PutAppend key value opAppend"

text \<open>\<open>clientId\<close> is the package's counter; it starts at \<open>NA\<close> and \<open>MakeClerk\<close> increments it.\<close>

definition MakeClerk :: "nat \<Rightarrow> int \<Rightarrow> Clerk \<times> int" where
  "MakeClerk n clientId =
     (let clientId = clientId + 1 in
      (\<lparr>servers = n, ck_me = clientId mod 100, currentLeader = 0, nextOpId = 0\<rparr>, clientId))"

end
