(* ===== verification/KV_Props.thy ===== *)
theory KV_Props
  imports KV_Server Raft_Leader
begin

text \<open>
  The properties of the key/value service: exactly-once execution of the log, the answers to
  the clients, snapshots and restarts, the clerk's search for the leader, and the ways in
  which the coordination of handlers and applier can fail.
\<close>

subsection \<open>The specification of the store\<close>

definition kv_exec :: "Op \<Rightarrow> (string \<rightharpoonup> string) \<Rightarrow> (string \<rightharpoonup> string)" where
  "kv_exec op m =
     (if OpType op = opPut then m(Key op \<mapsto> Val op)
      else if OpType op = opAppend
      then m(Key op \<mapsto> (case m (Key op) of Some v \<Rightarrow> v @ Val op | None \<Rightarrow> Val op))
      else m)"

definition kv_value :: "string \<Rightarrow> (string \<rightharpoonup> string) \<Rightarrow> string" where
  "kv_value k m = (case m k of Some v \<Rightarrow> v | None \<Rightarrow> [])"

definition applyLog :: "Op \<Rightarrow> KVServer \<Rightarrow> KVServer" where
  "applyLog op kv = snd (applyOpL op kv)"

definition sessionOps :: "KVServer \<Rightarrow> int \<rightharpoonup> Op" where
  "sessionOps kv = (\<lambda>c. map_option lo_Op (lastOps kv c))"

lemma op_kinds: "opPut \<noteq> opAppend" "opPut \<noteq> opGet" "opAppend \<noteq> opGet"
  by (simp_all add: opPut_def opAppend_def opGet_def)

lemma sameLastOp_iff: "sameLastOp op kv = None \<longleftrightarrow> sessionOps kv (ClientId op) \<noteq> Some op"
  by (simp add: sameLastOp_def sessionOps_def split: option.splits)

lemma applyOpL_skip: "sessionOps kv (ClientId op) = Some op \<Longrightarrow>
    applyOpL op kv = (zeroResult\<lparr>res_err := ErrDuplicate\<rparr>, kv)"
  using sameLastOp_iff [of op kv] by (auto simp: applyOpL_def)

lemma applyOpL_run:
  assumes "sessionOps kv (ClientId op) \<noteq> Some op"
  shows "applyOpL op kv =
    (if OpType op = opGet
     then zeroResult\<lparr>res_err := (if kvMap kv (Key op) = None then ErrNoKey else OK),
            res_value := kv_value (Key op) (kvMap kv)\<rparr>
     else zeroResult\<lparr>res_err := OK\<rparr>,
     kv\<lparr>kvMap := kv_exec op (kvMap kv),
        lastOps := (lastOps kv)(ClientId op \<mapsto>
          \<lparr>lo_Op = op, GetResult = kv_value (Key op) (kvMap kv)\<rparr>)\<rparr>)"
  using assms op_kinds sameLastOp_iff [of op kv]
  by (auto simp: applyOpL_def kv_exec_def kv_value_def zeroResult_def Let_def split: option.splits)

interpretation kv: session_service ClientId id "\<lambda>op m. Inr (kv_exec op m)" "\<lambda>op kv. Inr (applyLog op kv)"
    kvMap sessionOps
  by unfold_locales
    (auto simp: applyLog_def applyOpL_skip applyOpL_run sessionOps_def fun_eq_iff)

subsection \<open>Exactly once\<close>

text \<open>
  C13: exactly-once execution. If a server starts with an empty session table and applies a
  log in which each client repeats an operation only before its next one (what clerks with
  distinct ids do, since they send one operation at a time and retry it until it is
  answered), then the store is the one that results from executing each operation of the log
  once, in the order of first occurrences, by the specification of Put, Append and Get.
\<close>

theorem kv_exactly_once:
  assumes "lastOps s = Map.empty" and "in_order ClientId id ops"
  shows "kvMap (fold applyLog ops s) = fold kv_exec (firsts ClientId id {} ops) (kvMap s)"
proof -
  have "sessionOps s = Map.empty" using assms(1) by (simp add: sessionOps_def)
  from kv.exactly_once [OF this assms(2)] show ?thesis by (simp add: run_total)
qed

definition mkOp :: "string \<Rightarrow> string \<Rightarrow> string \<Rightarrow> int \<Rightarrow> int \<Rightarrow> Op" where
  "mkOp t k v c i = \<lparr>OpType = t, Key = k, Val = v, ClientId = c, OpId = i\<rparr>"

definition kv0 :: KVServer where
  "kv0 = \<lparr>kv_me = 0, kv_rf = projr (Make \<lparr>now = 0, rand = 0\<rparr> \<lparr>now = 0, rand = 0\<rparr> 3 0 MakePersister),
     kv_dead = False, maxraftstate = -1, kvMap = Map.empty, lastOps = Map.empty,
     resultChans = Map.empty, chans = 0\<rparr>"

definition ops1 :: "Op list" where
  "ops1 = [mkOp ''Append'' ''k'' ''a'' 0 0, mkOp ''Put'' ''j'' ''x'' 1 0,
           mkOp ''Append'' ''k'' ''a'' 0 0, mkOp ''Append'' ''k'' ''b'' 0 1]"

theorem kv_exactly_once_witness:
  "in_order ClientId id ops1 \<and> kvMap (fold applyLog ops1 kv0) ''k'' = Some ''ab''"
proof -
  have "lastOps kv0 = Map.empty" "kvMap kv0 = Map.empty" by (simp_all add: kv0_def)
  moreover have "in_order ClientId id ops1" by (simp add: ops1_def mkOp_def same_op_def)
  ultimately show ?thesis
    using kv_exactly_once [of kv0 ops1]
    by (simp add: ops1_def mkOp_def kv_exec_def opPut_def opAppend_def)
qed

text \<open>
  The answer to an operation. An operation that is not a repetition is answered from the
  store as it is when the operation is applied: a Get with the value of its key, or with
  ErrNoKey and the empty string when the key is missing, a Put or Append with OK. When its
  client sends it again before its next operation, the server answers OK with the value
  that was read then, without starting a new command, whatever other clients have done since.
\<close>

theorem kv_answer:
  assumes "sessionOps kv (ClientId op) \<noteq> Some op" and "applyOpL op kv = (result, kv')"
    and "\<forall>p \<in> set ops. ClientId p \<noteq> ClientId op"
  shows "(OpType op = opGet \<longrightarrow> res_value result = kv_value (Key op) (kvMap kv) \<and>
       (res_err result = ErrNoKey \<longleftrightarrow> kvMap kv (Key op) = None)) \<and>
    res_err result \<in> {OK, ErrNoKey} \<and> (OpType op \<noteq> opGet \<longrightarrow> res_err result = OK) \<and>
    processOpL op (fold applyLog ops kv') =
      Inr (Replied \<lparr>or_Err = OK, or_Value = kv_value (Key op) (kvMap kv)\<rparr>, fold applyLog ops kv', [])"
proof -
  have kv': "lastOps kv' (ClientId op) = Some \<lparr>lo_Op = op, GetResult = kv_value (Key op) (kvMap kv)\<rparr>"
    using assms(2) applyOpL_run [OF assms(1)] by auto
  have keep: "lastOps (applyLog p s) (ClientId op) = lastOps s (ClientId op)"
    if "ClientId p \<noteq> ClientId op" for p s
    using that by (cases "sessionOps s (ClientId p) = Some p")
      (auto simp: applyLog_def applyOpL_skip applyOpL_run)
  have "lastOps (fold applyLog ops s) (ClientId op) = lastOps s (ClientId op)" for s
    using assms(3) by (induction ops arbitrary: s) (auto simp: keep)
  then have "sameLastOp op (fold applyLog ops kv') =
      Some \<lparr>lo_Op = op, GetResult = kv_value (Key op) (kvMap kv)\<rparr>"
    using kv' by (simp add: sameLastOp_def)
  then show ?thesis
    using assms(2) applyOpL_run [OF assms(1)]
    by (auto simp: processOpL_def zeroReply_def zeroResult_def split: if_splits)
qed

theorem kv_answer_witness:
  "\<exists>result kv'. applyOpL (mkOp ''Get'' ''k'' [] 3 0) kv0 = (result, kv') \<and> res_err result = ErrNoKey \<and>
     processOpL (mkOp ''Get'' ''k'' [] 3 0) (fold applyLog ops1 kv') =
       Inr (Replied \<lparr>or_Err = OK, or_Value = []\<rparr>, fold applyLog ops1 kv', [])"
proof -
  let ?op = "mkOp ''Get'' ''k'' [] 3 0"
  obtain result kv' where r: "applyOpL ?op kv0 = (result, kv')" by force
  have "sessionOps kv0 (ClientId ?op) \<noteq> Some ?op" by (simp add: sessionOps_def kv0_def)
  moreover have "\<forall>p \<in> set ops1. ClientId p \<noteq> ClientId ?op" by (simp add: ops1_def mkOp_def)
  ultimately show ?thesis
    using kv_answer [OF _ r, of ops1] r by (simp add: kv0_def mkOp_def opGet_def kv_value_def)
qed

subsection \<open>Snapshots and restarts\<close>

lemma readSnapshotL_encode:
  "readSnapshotL (encodeSnapshot kv) kv' = Inr (kv'\<lparr>kvMap := kvMap kv, lastOps := lastOps kv\<rparr>)"
  by (simp add: readSnapshotL_def encodeSnapshot_def)

lemma applyLog_state:
  assumes "kvMap s = kvMap s'" and "lastOps s = lastOps s'"
  shows "kvMap (fold applyLog ops s) = kvMap (fold applyLog ops s') \<and>
    lastOps (fold applyLog ops s) = lastOps (fold applyLog ops s')"
  using assms
proof (induction ops arbitrary: s s')
  case (Cons op ops)
  have "sessionOps s = sessionOps s'" using Cons.prems by (simp add: sessionOps_def)
  then have "kvMap (applyLog op s) = kvMap (applyLog op s') \<and> lastOps (applyLog op s) = lastOps (applyLog op s')"
    using Cons.prems by (cases "sessionOps s (ClientId op) = Some op")
      (simp_all add: applyLog_def applyOpL_skip applyOpL_run)
  with Cons.IH [of "applyLog op s" "applyLog op s'"] show ?case by simp
qed simp

text \<open>
  C34: a snapshot stands for the log before it. If one server takes a snapshot after it has
  applied \<open>before\<close>, and another server, in whatever state, reads it and applies the rest of the
  log, the second ends with the store and the session table of a server that has applied the
  whole log.
\<close>

theorem kv_snapshot_replay:
  "\<exists>kv2. readSnapshotL (encodeSnapshot (fold applyLog before kv1)) other = Inr kv2 \<and>
     kvMap (fold applyLog rest kv2) = kvMap (fold applyLog (before @ rest) kv1) \<and>
     lastOps (fold applyLog rest kv2) = lastOps (fold applyLog (before @ rest) kv1)"
  using applyLog_state [of "other\<lparr>kvMap := kvMap (fold applyLog before kv1),
      lastOps := lastOps (fold applyLog before kv1)\<rparr>" "fold applyLog before kv1" rest]
  by (simp add: readSnapshotL_encode)

text \<open>
  A server that takes a snapshot at an applied index and crashes restarts with the store
  and the session table of the snapshot, and its Raft peer delivers the log from the next
  index on.
\<close>

theorem kv_restart:
  assumes "wf_raft (kv_rf kv)" and "first_index (rlog (kv_rf kv)) < index"
    and "index \<le> last_index (rlog (kv_rf kv))"
  shows "\<exists>kv1 kv2. snapshotL index kv = Inr kv1 \<and> kvMap kv1 = kvMap kv \<and>
    StartKVServer clk clk' (peers (kv_rf kv)) (kv_me kv) (persister (kv_rf kv1)) mx = Inr kv2 \<and>
    kvMap kv2 = kvMap kv \<and> lastOps kv2 = lastOps kv \<and>
    lastApplied (kv_rf kv2) = index \<and> first_index (rlog (kv_rf kv2)) = index \<and>
    last_index (rlog (kv_rf kv2)) = last_index (rlog (kv_rf kv))"
proof -
  let ?rf = "kv_rf kv" and ?k = "nat (index - first_index (rlog (kv_rf kv)))"
  define rf1 where "rf1 = ?rf\<lparr>rlog := drop ?k (rlog ?rf),
      rsnapshot := \<lparr>LastIncludedIndex = index,
        LastIncludedTerm = le_Term (entry_at (rlog ?rf) index), snap_Data = encodeSnapshot kv\<rparr>\<rparr>"
  have k: "?k < length (rlog ?rf)" using assms(2,3) by (simp add: last_index_def)
  have wf: "wf_log (rlog ?rf)" using assms(1) by simp
  have wf1: "wf_log (rlog rf1)" using wf k by (simp add: rf1_def wf_log_drop)
  have fi: "first_index (rlog rf1) = index" "last_index (rlog rf1) = last_index (rlog ?rf)"
    using wf k assms(2) by (simp_all add: rf1_def first_index_drop last_index_drop)
  have S: "snapshotL index kv = Inr (kv\<lparr>kv_rf := persistL rf1\<rparr>)"
    using Snapshot_eq [OF assms(1,3), of "encodeSnapshot kv"] assms(2) by (simp add: snapshotL_def rf1_def)
  have d: "decodeState (ReadRaftState (persister (persistL rf1))) =
      Some (currentTerm rf1, votedFor rf1, rlog rf1)" by simp
  have snap: "snap_Data (rsnapshot rf1) = encodeSnapshot kv" by (simp add: rf1_def)
  obtain rf2 where "Make clk clk' (peers ?rf) (kv_me kv) (persister (persistL rf1)) = Inr rf2"
    "rlog rf2 = rlog rf1" "lastApplied rf2 = first_index (rlog rf1)"
    using initL_persisted [OF d wf1, of clk clk' "peers ?rf" "kv_me kv"] by (auto simp: Make_def)
  with S fi show ?thesis
    by (simp add: StartKVServer_def snap readSnapshotL_encode)
qed

definition kv1 :: KVServer where
  "kv1 = kv0\<lparr>kv_rf := (kv_rf kv0)\<lparr>rlog := [zeroEntry,
       \<lparr>le_Command = Some (mkOp ''Put'' ''k'' ''v'' 0 0), le_Index = 1, le_Term = 1\<rparr>]\<rparr>,
     kvMap := [''k'' \<mapsto> ''v'']\<rparr>"

lemma kv0_raft:
  "peers (kv_rf kv0) = 3" "wf_raft (kv_rf kv0)" "rlog (kv_rf kv0) = [zeroEntry]" "rrole (kv_rf kv0) = Follower"
  "nextIndex (kv_rf kv0) = [0, 0, 0]" "matchIndex (kv_rf kv0) = [0, 0, 0]"
  "rsnapshot (kv_rf kv0) = \<lparr>LastIncludedIndex = 0, LastIncludedTerm = 0, snap_Data = []\<rparr>"
  by (simp_all add: kv0_def Make_def initL_def readPersist_def ReadRaftState_def MakePersister_def
      wf_raft_def resetElectionTimeoutL_def numeral_3_eq_3 Let_def zeroEntry_def first_index_def)

lemma kv1_raft: "wf_raft (kv_rf kv1)" "first_index (rlog (kv_rf kv1)) = 0" "last_index (rlog (kv_rf kv1)) = 1"
  "peers (kv_rf kv1) = 3" "kv_me kv1 = 0"
  using kv0_raft
  by (simp_all add: kv1_def wf_raft_def zeroEntry_def first_index_def last_index_def wf_log_consecutive)
    (simp_all add: kv0_def)

theorem kv_restart_witness:
  "\<exists>kv1' kv2. snapshotL 1 kv1 = Inr kv1' \<and>
     StartKVServer \<lparr>now = 0, rand = 0\<rparr> \<lparr>now = 0, rand = 0\<rparr> 3 0 (persister (kv_rf kv1')) (-1) = Inr kv2 \<and>
     kvMap kv2 = [''k'' \<mapsto> ''v''] \<and> lastApplied (kv_rf kv2) = 1"
proof -
  have "kvMap kv1 = [''k'' \<mapsto> ''v'']" by (simp add: kv1_def)
  then show ?thesis
    using kv_restart [OF kv1_raft(1), of 1 "\<lparr>now = 0, rand = 0\<rparr>" "\<lparr>now = 0, rand = 0\<rparr>" "-1"] kv1_raft
    by auto
qed

subsection \<open>The clerk\<close>

definition accepted :: "OpReply option \<Rightarrow> bool" where
  "accepted r \<longleftrightarrow> (\<exists>reply. r = Some reply \<and> (or_Err reply = OK \<or> or_Err reply = ErrNoKey))"

lemma changeLeaderL_mod:
  assumes "0 \<le> currentLeader ck" and "currentLeader ck < int (servers ck)"
  shows "currentLeader (changeLeaderL ck) = (currentLeader ck + 1) mod int (servers ck)"
    and "servers (changeLeaderL ck) = servers ck"
    and "nextOpId (changeLeaderL ck) = nextOpId ck" and "ck_me (changeLeaderL ck) = ck_me ck"
  using assms by (cases "currentLeader ck + 1 = int (servers ck)"; simp add: changeLeaderL_def)+

text \<open>
  The clerk asks the servers in turn, never one that does not exist, until one of them
  accepts. After \<open>k\<close> calls without success its leader is the \<open>k\<close>-th server after the one it
  started with, so that \<open>n\<close> servers are all asked within \<open>n\<close> calls; the first accepted reply is
  what it returns, and its next operation has the next number.
\<close>

theorem clerk_round_robin:
  assumes "0 \<le> currentLeader ck" and "currentLeader ck < int (servers ck)"
    and "\<forall>r \<in> set fails. \<not> accepted r"
  shows "(\<exists>ck'. sendOpL fails ck = Inr (None, ck') \<and> nextOpId ck' = nextOpId ck + 1 \<and>
       currentLeader ck' = (currentLeader ck + int (length fails)) mod int (servers ck)) \<and>
     (accepted (Some reply) \<longrightarrow>
       (\<exists>ck'. sendOpL (fails @ Some reply # rest) ck = Inr (Some (or_Value reply), ck') \<and>
         nextOpId ck' = nextOpId ck + 1 \<and>
         currentLeader ck' = (currentLeader ck + int (length fails)) mod int (servers ck)))"
proof -
  have "(\<exists>ck'. sendOpL' fails ck = Inr (None, ck') \<and> nextOpId ck' = nextOpId ck \<and>
       currentLeader ck' = (currentLeader ck + int (length fails)) mod int (servers ck)) \<and>
     (accepted (Some reply) \<longrightarrow>
       (\<exists>ck'. sendOpL' (fails @ Some reply # rest) ck = Inr (Some (or_Value reply), ck') \<and>
         nextOpId ck' = nextOpId ck \<and>
         currentLeader ck' = (currentLeader ck + int (length fails)) mod int (servers ck)))"
    if "0 \<le> currentLeader ck" "currentLeader ck < int (servers ck)" for ck
    using that assms(3)
  proof (induction fails arbitrary: ck)
    case Nil
    then show ?case by (auto simp: accepted_def)
  next
    case (Cons r fails)
    note ch = changeLeaderL_mod [OF Cons.prems(1,2)]
    have "sendOpL' (r # rs) ck = sendOpL' rs (changeLeaderL ck)" for rs
      using Cons.prems by (auto simp: accepted_def split: option.splits)
    moreover have "0 < int (servers ck)" using Cons.prems(1,2) by linarith
    ultimately show ?case
      using Cons.IH [of "changeLeaderL ck"] Cons.prems(3) ch by (simp add: mod_simps algebra_simps)
  qed
  from this [of "ck\<lparr>nextOpId := nextOpId ck + 1\<rparr>"] assms(1,2) show ?thesis
    by (simp add: sendOpL_def)
qed

theorem clerk_round_robin_witness:
  "\<exists>ck'. sendOpL [None, Some \<lparr>or_Err = ErrWrongLeader, or_Value = []\<rparr>, Some \<lparr>or_Err = OK, or_Value = ''v''\<rparr>]
     \<lparr>servers = 3, ck_me = 0, currentLeader = 2, nextOpId = 4\<rparr> = Inr (Some ''v'', ck') \<and> currentLeader ck' = 1"
  using clerk_round_robin [of "\<lparr>servers = 3, ck_me = 0, currentLeader = 2, nextOpId = 4\<rparr>"
      "[None, Some \<lparr>or_Err = ErrWrongLeader, or_Value = []\<rparr>]" "\<lparr>or_Err = OK, or_Value = ''v''\<rparr>" "[]"]
  by (auto simp: accepted_def)

text \<open>
  Client ids repeat. The clerk made first and the one made a hundred clerks later have
  the same id and number their operations alike, so when both send the same first operation,
  the server takes the second for a repetition: it answers OK and leaves the store as it is.
\<close>

theorem clerk_ids_collide:
  assumes "MakeClerk n c = (ck, c')" and "MakeClerk n (c + 100) = (ck2, c2)"
    and "sessionOps kv (ck_me ck) \<noteq> Some (mkOp opAppend k v (ck_me ck) (nextOpId ck))"
    and "applyOpL (mkOp opAppend k v (ck_me ck) (nextOpId ck)) kv = (r, kv')"
  shows "ck2 = ck \<and> (\<exists>r'. PutAppend \<lparr>pa_Key = k, pa_Value = v, pa_Op = opAppend,
      pa_ClientId = ck_me ck2, pa_OpId = nextOpId ck2\<rparr> kv' = Inr (Replied r', kv', []) \<and> or_Err r' = OK)"
proof -
  let ?op = "mkOp opAppend k v (ck_me ck) (nextOpId ck)"
  have "(101 + c) mod 100 = (c + 1) mod 100"
    using mod_add_self2 [of "c + 1" 100] by (simp add: algebra_simps)
  then have same: "ck2 = ck" using assms(1,2) by (auto simp: MakeClerk_def Let_def)
  have "sessionOps kv (ClientId ?op) \<noteq> Some ?op" using assms(3) by (simp add: mkOp_def)
  from applyOpL_run [OF this] assms(4)
  have "sameLastOp ?op kv' = Some \<lparr>lo_Op = ?op, GetResult = kv_value k (kvMap kv)\<rparr>"
    by (auto simp: sameLastOp_def mkOp_def)
  then show ?thesis by (auto simp: same PutAppend_def mkOp_def processOpL_def)
qed

theorem clerk_ids_collide_witness:
  "\<exists>r'. PutAppend \<lparr>pa_Key = ''k'', pa_Value = ''a'', pa_Op = opAppend, pa_ClientId = 0, pa_OpId = 0\<rparr>
     (snd (applyOpL (mkOp opAppend ''k'' ''a'' 0 0) kv0)) =
     Inr (Replied r', snd (applyOpL (mkOp opAppend ''k'' ''a'' 0 0) kv0), []) \<and> or_Err r' = OK"
proof -
  obtain r kv' where r: "applyOpL (mkOp opAppend ''k'' ''a'' 0 0) kv0 = (r, kv')" by force
  have "sessionOps kv0 0 = None" by (simp add: sessionOps_def kv0_def)
  then show ?thesis
    using clerk_ids_collide [of 3 "-1" "\<lparr>servers = 3, ck_me = 0, currentLeader = 0, nextOpId = 0\<rparr>" 0
        "\<lparr>servers = 3, ck_me = 0, currentLeader = 0, nextOpId = 0\<rparr>" 100 kv0 "''k''" "''a''" r kv'] r
    by (simp add: MakeClerk_def)
qed

subsection \<open>Handlers and the applier\<close>

text \<open>
  An answer for another operation. A handler checks that the operation applied at its
  command index is its own only when the result is OK. If another server's leader has put a
  Get of a missing key there, the handler of a Put answers ErrNoKey, which the clerk accepts:
  the Put returns to its caller, and the store does not have its key.
\<close>

theorem lost_put:
  assumes "resultChans kv i = Some ch" and "kvMap kv (Key g) = None" and "OpType g = opGet"
    and "sessionOps kv (ClientId g) \<noteq> Some g" and "OpType p = opPut" and "kvMap kv (Key p) = None"
    and "CommandValid msg" and "CommandIndex msg = i" and "am_Command msg = Some g"
  shows "\<exists>result kv1 reply kv2. receiveMsgL bytes msg kv = Inr (Some (ch, result), kv1) \<and>
    processOpEndL i p result kv1 = Inr (reply, kv2) \<and> accepted (Some reply) \<and>
    kvMap kv2 (Key p) = None"
proof -
  let ?r = "zeroResult\<lparr>res_err := ErrNoKey, res_value := [], res_op := Some g\<rparr>"
  obtain kv1 where a: "applyOpL g kv = (zeroResult\<lparr>res_err := ErrNoKey, res_value := []\<rparr>, kv1)"
    and k: "resultChans kv1 i = Some ch" "kvMap kv1 = kvMap kv"
    using applyOpL_run [OF assms(4)] assms(1-3) op_kinds by (simp add: kv_value_def kv_exec_def)
  have "receiveMsgL bytes msg kv = Inr (Some (ch, ?r), kv1)"
    using a k assms(7-9) by (simp add: receiveMsgL_def)
  then show ?thesis
    using k assms(6) by (simp add: processOpEndL_def waitApplyEndL_def accepted_def)
qed

theorem lost_put_witness:
  "\<exists>result kv1 reply kv2. receiveMsgL (\<lambda>_. 0) \<lparr>CommandValid = True, am_Command = Some (mkOp opGet ''x'' [] 1 0),
       CommandIndex = 5, SnapshotValid = False, am_Snapshot = [], SnapshotTerm = 0, SnapshotIndex = 0\<rparr>
       (kv0\<lparr>resultChans := [5 \<mapsto> 0], chans := 1\<rparr>) = Inr (Some (0, result), kv1) \<and>
     processOpEndL 5 (mkOp opPut ''y'' ''v'' 0 0) result kv1 = Inr (reply, kv2) \<and> accepted (Some reply) \<and>
     kvMap kv2 ''y'' = None"
proof -
  let ?g = "mkOp opGet ''x'' [] 1 0" and ?p = "mkOp opPut ''y'' ''v'' 0 0"
  let ?kv = "kv0\<lparr>resultChans := [5 \<mapsto> 0], chans := 1\<rparr>"
  have "resultChans ?kv 5 = Some 0" "kvMap ?kv (Key ?g) = None" "OpType ?g = opGet" "OpType ?p = opPut"
    "sessionOps ?kv (ClientId ?g) \<noteq> Some ?g" "kvMap ?kv (Key ?p) = None" "Key ?p = ''y''"
    by (simp_all add: kv0_def mkOp_def sessionOps_def)
  then show ?thesis using lost_put [of ?kv 5 0 ?g ?p] by force
qed

text \<open>
  The goroutines of a server: handlers that wait in their \<open>select\<close>, handlers whose \<open>select\<close>
  has returned and which wait for the lock, and the applier, which waits for a message, is
  blocked in the send of a result, or goes on after it.
\<close>

datatype kv_applier =
    Receiving
  | Sending "(Op, kvgob) ApplyMsg" nat Result
  | Sent "(Op, kvgob) ApplyMsg"

record kv_system =
  srv :: KVServer
  waiters :: "(int \<times> nat \<times> Op) list"
  woken :: "(int \<times> Op \<times> Result) list"
  apl :: kv_applier

inductive kv_step :: "(Op gobval list \<Rightarrow> int) \<Rightarrow> kv_system \<Rightarrow> kv_system \<Rightarrow> bool" for bytes where
  request: "processOpL op (srv s) = Inr (Waiting i ch op, kv', tasks) \<Longrightarrow>
    kv_step bytes s (s\<lparr>srv := kv', waiters := (i, ch, op) # waiters s\<rparr>)"
| answer: "processOpL op (srv s) = Inr (Replied r, kv', tasks) \<Longrightarrow> kv_step bytes s (s\<lparr>srv := kv'\<rparr>)"
| timeout: "(i, ch, op) \<in> set (waiters s) \<Longrightarrow>
    kv_step bytes s (s\<lparr>waiters := remove1 (i, ch, op) (waiters s), woken := (i, op, timeoutResult) # woken s\<rparr>)"
| handled: "(i, op, res) \<in> set (woken s) \<Longrightarrow> processOpEndL i op res (srv s) = Inr (r, kv') \<Longrightarrow>
    kv_step bytes s (s\<lparr>srv := kv', woken := remove1 (i, op, res) (woken s)\<rparr>)"
| receive: "apl s = Receiving \<Longrightarrow> receiveMsgL bytes msg (srv s) = Inr (out, kv') \<Longrightarrow>
    kv_step bytes s (s\<lparr>srv := kv', apl := (case out of None \<Rightarrow> Receiving | Some (ch, res) \<Rightarrow> Sending msg ch res)\<rparr>)"
| deliver: "apl s = Sending msg ch res \<Longrightarrow> (i, ch, op) \<in> set (waiters s) \<Longrightarrow>
    kv_step bytes s (s\<lparr>waiters := remove1 (i, ch, op) (waiters s), woken := (i, op, res) # woken s, apl := Sent msg\<rparr>)"
| resume: "apl s = Sent msg \<Longrightarrow> receiveEndL bytes msg (srv s) = Inr kv' \<Longrightarrow>
    kv_step bytes s (s\<lparr>srv := kv', apl := Receiving\<rparr>)"
| raft: "kv_step bytes s (s\<lparr>srv := (srv s)\<lparr>kv_rf := rf'\<rparr>\<rparr>)"

text \<open>The applier sends on a channel that no handler reads and that no later handler can get.\<close>

definition stuck :: "kv_system \<Rightarrow> bool" where
  "stuck s \<longleftrightarrow> (case apl s of
      Sending msg ch res \<Rightarrow> (\<forall>(i, c, op) \<in> set (waiters s). c \<noteq> ch) \<and>
        (\<forall>i. resultChans (srv s) i \<noteq> Some ch) \<and> ch < chans (srv s)
    | _ \<Rightarrow> False)"

lemma processOpL_chans:
  assumes "processOpL op kv = Inr (h, kv', tasks)" and "ch < chans kv" and "\<forall>i. resultChans kv i \<noteq> Some ch"
  shows "kvMap kv' = kvMap kv" "ch < chans kv'" "\<forall>i. resultChans kv' i \<noteq> Some ch"
    "h = Waiting i c op' \<Longrightarrow> c \<noteq> ch"
  using assms
  by (auto simp: processOpL_def waitApplyL_def Let_def split: option.splits if_splits)

lemma processOpEndL_chans:
  assumes "processOpEndL i op res kv = Inr (r, kv')"
  shows "kvMap kv' = kvMap kv" "chans kv' = chans kv" "resultChans kv' = (resultChans kv)(i := None)"
  using assms by (auto simp: processOpEndL_def waitApplyEndL_def Let_def split: option.splits if_splits)

lemma stuck_step:
  assumes "kv_step bytes s s'" and "stuck s"
  shows "stuck s' \<and> kvMap (srv s') = kvMap (srv s)"
proof -
  from assms(2) obtain msg ch res where A: "apl s = Sending msg ch res"
    and W: "\<forall>(i, c, op) \<in> set (waiters s). c \<noteq> ch"
    and R: "\<forall>i. resultChans (srv s) i \<noteq> Some ch" and C: "ch < chans (srv s)"
    by (auto simp: stuck_def split: kv_applier.splits)
  from assms(1) show ?thesis
  proof cases
    case (request op i c kv' tasks)
    note P = processOpL_chans [OF request(2) C R]
    from request(1) A W P(1-3) P(4) [of i c op] show ?thesis by (auto simp: stuck_def)
  next
    case (answer op r kv' tasks)
    from answer(1) A W processOpL_chans(1-3) [OF answer(2) C R] show ?thesis by (auto simp: stuck_def)
  next
    case (timeout i c op)
    with A W R C show ?thesis by (auto simp: stuck_def dest: notin_set_remove1 set_remove1_subset [THEN subsetD])
  next
    case (handled i op r0 r kv')
    from handled(1) A W R C processOpEndL_chans [OF handled(3)] show ?thesis by (auto simp: stuck_def)
  next
    case (deliver msg' ch' res' i op)
    with A W show ?thesis by auto
  qed (use A W R C in \<open>auto simp: stuck_def\<close>)
qed

text \<open>
  A lost race stops the server. The applier looks up the channel of a waiting handler,
  releases the lock and sends the result; if the handler's timer fires before the send and
  the handler then removes the channel, nobody ever reads from it: the applier is blocked
  for good, and whatever the clients and Raft do afterwards, the store never changes again.
\<close>

theorem applier_deadlock:
  fixes msg :: "(Op, kvgob) ApplyMsg"
  assumes "apl s = Receiving" and "waiters s = [(i, ch, op)]" and "woken s = []"
    and "resultChans (srv s) = [i \<mapsto> ch]" and "ch < chans (srv s)"
    and "CommandValid msg" and "CommandIndex msg = i" and "am_Command msg = Some op"
  shows "\<exists>s1. (kv_step bytes)\<^sup>*\<^sup>* s s1 \<and>
    (\<forall>s'. (kv_step bytes)\<^sup>*\<^sup>* s1 s' \<longrightarrow> kvMap (srv s') = kvMap (srv s1) \<and> apl s' \<noteq> Receiving)"
proof -
  obtain r kv1 where a: "applyOpL op (srv s) = (r, kv1)" by force
  have k: "resultChans kv1 = [i \<mapsto> ch]" "chans kv1 = chans (srv s)"
    using a assms(4) by (cases "sessionOps (srv s) (ClientId op) = Some op";
      auto simp: applyOpL_skip applyOpL_run)+
  let ?r = "r\<lparr>res_op := Some op\<rparr>" and ?kv2 = "kv1\<lparr>resultChans := Map.empty\<rparr>"
  let ?s1 = "s\<lparr>srv := kv1, apl := Sending msg ch ?r\<rparr>"
  let ?s2 = "?s1\<lparr>waiters := [], woken := [(i, op, timeoutResult)]\<rparr>"
  let ?s3 = "?s2\<lparr>srv := ?kv2, woken := []\<rparr>"
  have "receiveMsgL bytes msg (srv s) = Inr (Some (ch, ?r), kv1)"
    using a k assms(6-8) by (simp add: receiveMsgL_def)
  from receive [where bytes = bytes, OF assms(1) this] have 1: "kv_step bytes s ?s1" by simp
  have 2: "kv_step bytes ?s1 ?s2" using timeout [of i ch op ?s1] assms(2,3) by simp
  have end_: "processOpEndL i op timeoutResult kv1 =
      Inr (\<lparr>or_Err = ErrTimeout, or_Value = []\<rparr>, ?kv2)"
    using k by (simp add: processOpEndL_def waitApplyEndL_def timeoutResult_def zeroResult_def)
  have 3: "kv_step bytes ?s2 ?s3" using handled [of i op timeoutResult ?s2] end_ by simp
  have stuck3: "stuck ?s3" using assms(5) k by (simp add: stuck_def)
  have "stuck s' \<and> kvMap (srv s') = kvMap (srv ?s3)" if "(kv_step bytes)\<^sup>*\<^sup>* ?s3 s'" for s'
    using that by (induction rule: rtranclp_induct) (use stuck3 stuck_step in \<open>auto\<close>)
  then have "\<forall>s'. (kv_step bytes)\<^sup>*\<^sup>* ?s3 s' \<longrightarrow> kvMap (srv s') = kvMap (srv ?s3) \<and> apl s' \<noteq> Receiving"
    by (fastforce simp: stuck_def)
  moreover have "(kv_step bytes)\<^sup>*\<^sup>* s ?s3"
    by (rule converse_rtranclp_into_rtranclp [where r = "kv_step bytes", OF 1
          converse_rtranclp_into_rtranclp [where r = "kv_step bytes", OF 2
            r_into_rtranclp [where r = "kv_step bytes", OF 3]]])
  ultimately show ?thesis by blast
qed

theorem applier_deadlock_witness:
  "\<exists>s1. (kv_step (\<lambda>_. 0))\<^sup>*\<^sup>* \<lparr>srv = kv0\<lparr>resultChans := [5 \<mapsto> 0], chans := 1\<rparr>,
       waiters = [(5, 0, mkOp opGet ''x'' [] 1 0)], woken = [], apl = Receiving\<rparr> s1 \<and> apl s1 \<noteq> Receiving"
  using applier_deadlock [of "\<lparr>srv = kv0\<lparr>resultChans := [5 \<mapsto> 0], chans := 1\<rparr>,
       waiters = [(5, 0, mkOp opGet ''x'' [] 1 0)], woken = [], apl = Receiving\<rparr>" 5 0 "mkOp opGet ''x'' [] 1 0"
     "\<lparr>CommandValid = True, am_Command = Some (mkOp opGet ''x'' [] 1 0),
       CommandIndex = 5, SnapshotValid = False, am_Snapshot = [], SnapshotTerm = 0, SnapshotIndex = 0\<rparr>" "\<lambda>_. 0"]
  by auto

end
