(* ===== verification/Ctrler_Server.thy ===== *)
theory Ctrler_Server
  imports Raft_Server Sessions "HOL-Library.AList"
begin

text \<open>
  The shard controller of \<^verbatim>\<open>shardctrler/\<close>: configurations, the replicated server that
  computes them, and the clerk. The Go maps over which the code iterates (the groups of a
  configuration and \<open>gidShards\<close>) are association lists with distinct keys; a \<open>range\<close> loop
  goes through the list in its order. Go leaves that order open, and theory \<open>Ctrler_Props\<close> shows
  that no result depends on it.
\<close>

subsection \<open>Go maps as association lists\<close>

type_synonym 'v gomap = "(int \<times> 'v) list"

text \<open>Reading a missing key of a map with slice values gives the nil slice.\<close>

definition getd :: "'v list gomap \<Rightarrow> int \<Rightarrow> 'v list" where
  "getd m k = (case map_of m k of Some v \<Rightarrow> v | None \<Rightarrow> [])"

definition keys :: "'v gomap \<Rightarrow> int set" where
  "keys m = fst ` set m"

subsection \<open>Configurations and operations\<close>

definition NShards :: nat where "NShards = 10"

definition opQuery :: string where "opQuery = ''Query''"
definition opJoin :: string where "opJoin = ''Join''"
definition opLeave :: string where "opLeave = ''Leave''"
definition opMove :: string where "opMove = ''Move''"

record Config =
  Num :: int
  Shards :: "int list"
  Groups :: "string list gomap"

definition zeroConfig :: Config where
  "zeroConfig = \<lparr>Num = 0, Shards = replicate NShards 0, Groups = []\<rparr>"

record JoinArgs =
  ja_Servers :: "string list gomap"
  ja_ClientId :: int
  ja_OpId :: int

record LeaveArgs =
  la_GIDs :: "int list"
  la_ClientId :: int
  la_OpId :: int

record MoveArgs =
  ma_Shard :: int
  ma_GID :: int
  ma_ClientId :: int
  ma_OpId :: int

record QueryArgs =
  qa_Num :: int
  qa_ClientId :: int
  qa_OpId :: int

record OpReply =
  or_Err :: Err
  or_Config :: Config

record Op =
  OpType :: string
  Servers :: "string list gomap"
  GIDs :: "int list"
  Shard :: int
  GID :: int
  op_Num :: int
  ClientId :: int
  OpId :: int

definition zeroOp :: Op where
  "zeroOp = \<lparr>OpType = [], Servers = [], GIDs = [], Shard = 0, GID = 0, op_Num = 0, ClientId = 0, OpId = 0\<rparr>"

definition isSame :: "Op \<Rightarrow> Op \<Rightarrow> bool" where
  "isSame op op1 \<longleftrightarrow> ClientId op = ClientId op1 \<and> OpId op = OpId op1"

record LastOp =
  lo_op :: Op
  queryResult :: Config

record Result =
  res_err :: Err
  res_config :: Config
  res_op :: "Op option"

definition zeroResult :: Result where
  "zeroResult = \<lparr>res_err = ErrNone, res_config = zeroConfig, res_op = None\<rparr>"

definition zeroReply :: OpReply where
  "zeroReply = \<lparr>or_Err = ErrNone, or_Config = zeroConfig\<rparr>"

text \<open>The controller takes no snapshots, so the snapshot data of its Raft peer is empty.\<close>

record ShardCtrler =
  sc_me :: int
  sc_rf :: "(Op, unit) Raft"
  configs :: "Config list"
  gidShards :: "int list gomap"
  lastOps :: "int \<rightharpoonup> LastOp"
  resultChans :: "int \<rightharpoonup> nat"
  chans :: nat

datatype handler =
    Replied OpReply
  | Waiting int nat Op

subsection \<open>RPC handlers\<close>

text \<open>As in the key/value server, \<open>waitApplyL\<close> is cut at its \<open>select\<close>.\<close>

definition waitApplyL :: "int \<Rightarrow> ShardCtrler \<Rightarrow> nat \<times> ShardCtrler" where
  "waitApplyL commandIndex sc =
     (case resultChans sc commandIndex of
        Some ch \<Rightarrow> (ch, sc)
      | None \<Rightarrow> (chans sc, sc\<lparr>resultChans := (resultChans sc)(commandIndex \<mapsto> chans sc),
                              chans := chans sc + 1\<rparr>))"

definition timeoutResult :: Result where
  "timeoutResult = zeroResult\<lparr>res_err := ErrTimeout\<rparr>"

definition waitApplyEndL :: "int \<Rightarrow> Op \<Rightarrow> Result \<Rightarrow> ShardCtrler \<Rightarrow> (Result \<times> ShardCtrler) go" where
  "waitApplyEndL commandIndex op result sc =
     (let sc = sc\<lparr>resultChans := (resultChans sc)(commandIndex := None)\<rparr> in
      if res_err result = OK then
        (case res_op result of
           None \<Rightarrow> Inl NilDereference
         | Some op' \<Rightarrow> Inr (if \<not> isSame op op' then result\<lparr>res_err := ErrNotApplied\<rparr> else result, sc))
      else Inr (result, sc))"

definition sameLastOp :: "Op \<Rightarrow> ShardCtrler \<Rightarrow> LastOp option" where
  "sameLastOp op sc =
     (case lastOps sc (ClientId op) of
        Some lastOp \<Rightarrow> if isSame op (lo_op lastOp) then Some lastOp else None
      | None \<Rightarrow> None)"

definition processOpL :: "Op \<Rightarrow> ShardCtrler \<Rightarrow> (handler \<times> ShardCtrler \<times> task list) go" where
  "processOpL op sc =
     (case sameLastOp op sc of
        Some lastOp \<Rightarrow>
          Inr (Replied (zeroReply\<lparr>or_Err := OK, or_Config := queryResult lastOp\<rparr>), sc, [])
      | None \<Rightarrow>
          gbind (Start op (sc_rf sc)) (\<lambda>((commandIndex, _, isLeader), rf, tasks).
          let sc = sc\<lparr>sc_rf := rf\<rparr> in
          if \<not> isLeader then Inr (Replied (zeroReply\<lparr>or_Err := ErrWrongLeader\<rparr>), sc, tasks)
          else case waitApplyL commandIndex sc of
            (ch, sc) \<Rightarrow> Inr (Waiting commandIndex ch op, sc, tasks)))"

definition processOpEndL :: "int \<Rightarrow> Op \<Rightarrow> Result \<Rightarrow> ShardCtrler \<Rightarrow> (OpReply \<times> ShardCtrler) go" where
  "processOpEndL commandIndex op result sc =
     gbind (waitApplyEndL commandIndex op result sc) (\<lambda>(result, sc).
     Inr (\<lparr>or_Err = res_err result, or_Config = res_config result\<rparr>, sc))"

definition Join :: "JoinArgs \<Rightarrow> ShardCtrler \<Rightarrow> (handler \<times> ShardCtrler \<times> task list) go" where
  "Join args sc = processOpL (zeroOp\<lparr>OpType := opJoin, Servers := ja_Servers args,
     ClientId := ja_ClientId args, OpId := ja_OpId args\<rparr>) sc"

definition Leave :: "LeaveArgs \<Rightarrow> ShardCtrler \<Rightarrow> (handler \<times> ShardCtrler \<times> task list) go" where
  "Leave args sc = processOpL (zeroOp\<lparr>OpType := opLeave, GIDs := la_GIDs args,
     ClientId := la_ClientId args, OpId := la_OpId args\<rparr>) sc"

definition Move :: "MoveArgs \<Rightarrow> ShardCtrler \<Rightarrow> (handler \<times> ShardCtrler \<times> task list) go" where
  "Move args sc = processOpL (zeroOp\<lparr>OpType := opMove, Shard := ma_Shard args, GID := ma_GID args,
     ClientId := ma_ClientId args, OpId := ma_OpId args\<rparr>) sc"

definition Query :: "QueryArgs \<Rightarrow> ShardCtrler \<Rightarrow> (handler \<times> ShardCtrler \<times> task list) go" where
  "Query args sc = processOpL (zeroOp\<lparr>OpType := opQuery, op_Num := qa_Num args,
     ClientId := qa_ClientId args, OpId := qa_OpId args\<rparr>) sc"

subsection \<open>Helpers of the applier\<close>

definition nowL :: "Config list \<Rightarrow> int" where
  "nowL cs = int (length cs) - 1"

definition makeNewConfigL :: "Config list \<Rightarrow> Config go" where
  "makeNewConfigL cs =
     gbind (idx cs (nowL cs)) (\<lambda>cur.
     Inr \<lparr>Num = nowL cs + 1, Shards = Shards cur,
          Groups = fold (\<lambda>(k, v). AList.update k v) (Groups cur) []\<rparr>)"

text \<open>The body of the loop of \<open>findMinMaxGidL\<close> on \<open>gidMin, gidMax, sizeMin, sizeMax\<close>.\<close>

definition minMaxStep :: "int \<times> int list \<Rightarrow> int \<times> int \<times> int \<times> int \<Rightarrow> int \<times> int \<times> int \<times> int" where
  "minMaxStep = (\<lambda>(gid, shards) (gidMin, gidMax, sizeMin, sizeMax).
     let n = int (length shards);
         (gidMin, sizeMin) =
           (if n < sizeMin then (gid, n)
            else if n = sizeMin \<and> gid < gidMin then (gid, sizeMin) else (gidMin, sizeMin));
         (gidMax, sizeMax) =
           (if n > sizeMax then (gid, n)
            else if n = sizeMax \<and> gid > gidMax then (gid, sizeMax) else (gidMax, sizeMax))
     in (gidMin, gidMax, sizeMin, sizeMax))"

definition findMinMaxGidL :: "int list gomap \<Rightarrow> int \<times> int" where
  "findMinMaxGidL gs =
     (case fold minMaxStep gs (NA, NA, int NShards + 1, -1) of
        (gidMin, gidMax, _, _) \<Rightarrow> (gidMin, gidMax))"

text \<open>
  The sum of \<open>F\<close> over the slices of a map, and what an assignment to a key does to it. With
  the squared length as \<open>F\<close> it is the measure of the loop below, which a move from a large to
  a small group lowers.
\<close>

definition total :: "('v list \<Rightarrow> 'b::comm_monoid_add) \<Rightarrow> 'v list gomap \<Rightarrow> 'b" where
  "total F gs = (\<Sum>k \<in> keys gs. F (getd gs k))"

definition squares :: "int list gomap \<Rightarrow> nat" where
  "squares = total (\<lambda>ss. length ss ^ 2)"

lemma getd_update: "getd (AList.update k v m) k' = (if k' = k then v else getd m k')"
  by (simp add: getd_def update_conv')

lemma keys_update [simp]: "keys (AList.update k v m) = insert k (keys m)"
  by (simp add: keys_def dom_update)

lemma finite_keys [simp]: "finite (keys m)"
  by (simp add: keys_def)

lemma getd_outside: "k \<notin> keys m \<Longrightarrow> getd m k = []"
  by (simp add: getd_def keys_def map_of_eq_None_iff [THEN iffD2])

lemma total_split:
  assumes "F [] = 0"
  shows "total F gs = F (getd gs k) + (\<Sum>j \<in> keys gs - {k}. F (getd gs j))"
  using assms by (cases "k \<in> keys gs") (simp_all add: total_def sum.remove getd_outside)

lemma total_update:
  assumes "F [] = 0"
  shows "total F (AList.update k v gs) + F (getd gs k) = total F gs + F v"
proof -
  have "(\<Sum>j \<in> insert k (keys gs) - {k}. F (getd (AList.update k v gs) j)) =
      (\<Sum>j \<in> keys gs - {k}. F (getd gs j))"
    by (rule sum.cong) (auto simp: getd_update)
  then show ?thesis
    using total_split [of F, OF assms, of gs k] total_split [of F, OF assms, of "AList.update k v gs" k]
    by (simp add: getd_update ac_simps)
qed

lemma squares_move:
  assumes "length (getd gs b) + 2 \<le> length (getd gs a)"
  shows "squares (AList.update b (getd gs b @ [x]) (AList.update a (butlast (getd gs a)) gs)) < squares gs"
proof -
  let ?F = "\<lambda>ss :: int list. length ss ^ 2" and ?gs = "AList.update a (butlast (getd gs a)) gs"
  obtain n where n: "length (getd gs a) = length (getd gs b) + 2 + n"
    using assms by (metis add.commute add.left_commute le_iff_add)
  have "a \<noteq> b" using assms by auto
  then have "total ?F (AList.update b (getd gs b @ [x]) ?gs) + ?F (getd gs b) = total ?F ?gs + ?F (getd gs b @ [x])"
    using total_update [of ?F b "getd gs b @ [x]" ?gs] by (simp add: getd_update)
  moreover have "total ?F ?gs + ?F (getd gs a) = total ?F gs + ?F (butlast (getd gs a))"
    using total_update [of ?F] by simp
  ultimately show ?thesis
    using n by (simp add: squares_def power2_eq_square algebra_simps)
qed

text \<open>The loop of \<open>rebalanceL\<close>: it moves the last shard of the largest group to the smallest one.\<close>

function rebalanceLoop :: "int list gomap \<Rightarrow> int list gomap" where
  "rebalanceLoop gs =
     (case findMinMaxGidL gs of (gidMin, gidMax) \<Rightarrow>
      let minGidShards = getd gs gidMin; maxGidShards = getd gs gidMax in
      if int (length maxGidShards) - int (length minGidShards) \<le> 1 then gs
      else
        let shard = last maxGidShards;
            gs = AList.update gidMax (butlast maxGidShards) gs;
            gs = AList.update gidMin (minGidShards @ [shard]) gs
        in rebalanceLoop gs)"
  by pat_completeness auto
termination
  by (relation "measure squares") (auto intro!: squares_move)

declare rebalanceLoop.simps [simp del]

text \<open>The second loop writes the group of every shard into the array of the configuration.\<close>

fun assignShards :: "int \<Rightarrow> int list \<Rightarrow> int list \<Rightarrow> int list go" where
  "assignShards gid [] shardGids = Inr shardGids"
| "assignShards gid (shard # shards) shardGids =
     gbind (set_idx shardGids shard gid) (assignShards gid shards)"

fun assignAll :: "int list gomap \<Rightarrow> int list \<Rightarrow> int list go" where
  "assignAll [] shardGids = Inr shardGids"
| "assignAll ((gid, shards) # gs) shardGids =
     gbind (assignShards gid shards shardGids) (assignAll gs)"

definition rebalanceL :: "int list gomap \<Rightarrow> int list \<Rightarrow> (int list gomap \<times> int list) go" where
  "rebalanceL gs shardGids =
     (let gs = rebalanceLoop gs in gbind (assignAll gs shardGids) (\<lambda>shardGids. Inr (gs, shardGids)))"

subsection \<open>The operations\<close>

text \<open>The part of the server's state that the operations work on: \<open>configs\<close> and \<open>gidShards\<close>.\<close>

type_synonym cstate = "Config list \<times> int list gomap"

definition allShards :: "int list" where
  "allShards = map int [0..<NShards]"

definition applyJoinL :: "Op \<Rightarrow> cstate \<Rightarrow> cstate go" where
  "applyJoinL op = (\<lambda>(cs, gs).
     gbind (idx cs (nowL cs)) (\<lambda>cur.
     let start = (length (Groups cur) = 0) in
     gbind (makeNewConfigL cs) (\<lambda>newConfig.
     let newConfig = newConfig\<lparr>Groups := fold (\<lambda>(k, v). AList.update k v) (Servers op) (Groups newConfig)\<rparr>;
         gs = fold (\<lambda>(k, v). AList.update k []) (Servers op) gs;
         gs = (if start then AList.update (fst (findMinMaxGidL gs)) allShards gs else gs)
     in gbind (rebalanceL gs (Shards newConfig)) (\<lambda>(gs, shards).
        Inr (cs @ [newConfig\<lparr>Shards := shards\<rparr>], gs)))))"

text \<open>The loop over \<open>op.GIDs\<close>, on the new groups, the removed shards and \<open>gidShards\<close>.\<close>

definition leaveStep ::
    "int \<Rightarrow> string list gomap \<times> int list gomap \<times> int list gomap
       \<Rightarrow> string list gomap \<times> int list gomap \<times> int list gomap" where
  "leaveStep gid = (\<lambda>(groups, removed, gs).
     (AList.delete gid groups, AList.update gid (getd gs gid) removed, AList.delete gid gs))"

definition applyLeaveL :: "Op \<Rightarrow> cstate \<Rightarrow> cstate go" where
  "applyLeaveL op = (\<lambda>(cs, gs).
     gbind (makeNewConfigL cs) (\<lambda>newConfig.
     case fold leaveStep (GIDs op) (Groups newConfig, [], gs) of
       (groups, removed, gs) \<Rightarrow>
         let newConfig = newConfig\<lparr>Groups := groups\<rparr> in
         if length (Groups newConfig) = 0 then
           Inr (cs @ [newConfig\<lparr>Shards := replicate NShards 0\<rparr>], gs)
         else
           let gidMin = fst (findMinMaxGidL gs);
               gids = sort (concat (map snd removed));
               gs = AList.update gidMin (getd gs gidMin @ gids) gs
           in gbind (rebalanceL gs (Shards newConfig)) (\<lambda>(gs, shards).
              Inr (cs @ [newConfig\<lparr>Shards := shards\<rparr>], gs))))"

text \<open>The labelled loop that takes the shard from the first group that has it.\<close>

fun takeShard :: "int \<Rightarrow> int list gomap \<Rightarrow> int list gomap" where
  "takeShard s [] = []"
| "takeShard s ((gid, shards) # gs) =
     (if s \<in> set shards then (gid, remove1 s shards) # gs else (gid, shards) # takeShard s gs)"

definition applyMoveL :: "Op \<Rightarrow> cstate \<Rightarrow> cstate go" where
  "applyMoveL op = (\<lambda>(cs, gs).
     gbind (makeNewConfigL cs) (\<lambda>newConfig.
     let gs = takeShard (Shard op) gs;
         gs = AList.update (GID op) (getd gs (GID op) @ [Shard op]) gs
     in gbind (set_idx (Shards newConfig) (Shard op) (GID op)) (\<lambda>shards.
        Inr (cs @ [newConfig\<lparr>Shards := shards\<rparr>], gs))))"

definition applyQueryL :: "Op \<Rightarrow> cstate \<Rightarrow> Config go" where
  "applyQueryL op = (\<lambda>(cs, gs).
     if op_Num op \<noteq> -1 \<and> op_Num op \<le> nowL cs then idx cs (op_Num op) else idx cs (nowL cs))"

text \<open>The \<open>switch\<close> of \<open>applyOpL\<close>; the configuration is the one a query returns.\<close>

definition switchL :: "Op \<Rightarrow> cstate \<Rightarrow> (Config \<times> cstate) go" where
  "switchL op st =
     (if OpType op = opJoin then gbind (applyJoinL op st) (\<lambda>st. Inr (zeroConfig, st))
      else if OpType op = opLeave then gbind (applyLeaveL op st) (\<lambda>st. Inr (zeroConfig, st))
      else if OpType op = opMove then gbind (applyMoveL op st) (\<lambda>st. Inr (zeroConfig, st))
      else if OpType op = opQuery then gbind (applyQueryL op st) (\<lambda>c. Inr (c, st))
      else Inr (zeroConfig, st))"

text \<open>The check that \<open>logGidShardsL\<close> makes besides its log output.\<close>

definition logGidShardsL :: "cstate \<Rightarrow> unit go" where
  "logGidShardsL = (\<lambda>(cs, gs).
     gbind (idx cs (nowL cs)) (\<lambda>config.
     if length (Groups config) \<noteq> length gs then Inl (LogFatal ''Groups != gidShards!!!'')
     else Inr ()))"

definition applyOpL :: "Op \<Rightarrow> ShardCtrler \<Rightarrow> (Result \<times> ShardCtrler) go" where
  "applyOpL op sc =
     (case sameLastOp op sc of
        Some _ \<Rightarrow> Inr (zeroResult\<lparr>res_err := ErrDuplicate\<rparr>, sc)
      | None \<Rightarrow>
          gbind (switchL op (configs sc, gidShards sc)) (\<lambda>(config, cs, gs).
          let sc = sc\<lparr>configs := cs, gidShards := gs,
                     lastOps := (lastOps sc)(ClientId op \<mapsto> \<lparr>lo_op = op, queryResult = config\<rparr>)\<rparr>
          in gbind (logGidShardsL (cs, gs)) (\<lambda>_.
             Inr (zeroResult\<lparr>res_err := OK, res_config := config\<rparr>, sc))))"

text \<open>One round of \<open>receiveApplyMsg\<close>, up to the send of the result.\<close>

definition receiveMsgL ::
    "(Op, unit) ApplyMsg \<Rightarrow> ShardCtrler \<Rightarrow> ((nat \<times> Result) option \<times> ShardCtrler) go" where
  "receiveMsgL msg sc =
     (if CommandValid msg then
        case am_Command msg of
          None \<Rightarrow> Inl TypeAssertion
        | Some op \<Rightarrow>
            gbind (applyOpL op sc) (\<lambda>(result, sc).
            case resultChans sc (CommandIndex msg) of
              Some ch \<Rightarrow> Inr (Some (ch, result\<lparr>res_op := Some op\<rparr>), sc)
            | None \<Rightarrow> Inr (None, sc))
      else Inr (None, sc))"

definition Kill_sc :: "ShardCtrler \<Rightarrow> ShardCtrler" where
  "Kill_sc sc = sc\<lparr>sc_rf := Kill (sc_rf sc)\<rparr>"

definition StartServer ::
    "clock \<Rightarrow> clock \<Rightarrow> nat \<Rightarrow> int \<Rightarrow> (Op, unit) Persister \<Rightarrow> ShardCtrler go" where
  "StartServer clk clk' n m ps =
     gbind (Make clk clk' n m ps) (\<lambda>rf.
     Inr \<lparr>sc_me = m, sc_rf = rf, configs = [zeroConfig], gidShards = [],
          lastOps = Map.empty, resultChans = Map.empty, chans = 0\<rparr>)"

subsection \<open>The clerk\<close>

record Clerk =
  servers :: nat
  ck_me :: int
  currentLeader :: int
  nextOpId :: int

definition changeLeaderL :: "Clerk \<Rightarrow> Clerk" where
  "changeLeaderL ck =
     (let ck = ck\<lparr>currentLeader := currentLeader ck + 1\<rparr> in
      if currentLeader ck \<ge> int (servers ck) then ck\<lparr>currentLeader := 0\<rparr> else ck)"

text \<open>\<open>_sendOpL\<close> on the list of what its calls return, as for the key/value clerk.\<close>

fun sendOpL' :: "OpReply option list \<Rightarrow> Clerk \<Rightarrow> (Config option \<times> Clerk) go" where
  "sendOpL' [] ck = Inr (None, ck)"
| "sendOpL' (r # rs) ck =
     (if 0 \<le> currentLeader ck \<and> currentLeader ck < int (servers ck) then
        (case r of
           Some reply \<Rightarrow>
             if or_Err reply = OK then Inr (Some (or_Config reply), ck)
             else sendOpL' rs (changeLeaderL ck)
         | None \<Rightarrow> sendOpL' rs (changeLeaderL ck))
      else Inl IndexOutOfRange)"

definition sendOpL :: "OpReply option list \<Rightarrow> Clerk \<Rightarrow> (Config option \<times> Clerk) go" where
  "sendOpL rs ck = sendOpL' rs (ck\<lparr>nextOpId := nextOpId ck + 1\<rparr>)"

definition Clerk_Join where
  "Clerk_Join srvs rs ck =
     (\<lparr>ja_Servers = srvs, ja_ClientId = ck_me ck, ja_OpId = nextOpId ck\<rparr>, sendOpL rs ck)"

definition Clerk_Leave where
  "Clerk_Leave gids rs ck =
     (\<lparr>la_GIDs = gids, la_ClientId = ck_me ck, la_OpId = nextOpId ck\<rparr>, sendOpL rs ck)"

definition Clerk_Move where
  "Clerk_Move shard gid rs ck =
     (\<lparr>ma_Shard = shard, ma_GID = gid, ma_ClientId = ck_me ck, ma_OpId = nextOpId ck\<rparr>, sendOpL rs ck)"

definition Clerk_Query where
  "Clerk_Query num rs ck =
     (\<lparr>qa_Num = num, qa_ClientId = ck_me ck, qa_OpId = nextOpId ck\<rparr>, sendOpL rs ck)"

definition MakeClerk :: "nat \<Rightarrow> int \<Rightarrow> Clerk \<times> int" where
  "MakeClerk n clientId =
     (let clientId = clientId + 1 in
      (\<lparr>servers = n, ck_me = clientId mod 100, currentLeader = 0, nextOpId = 0\<rparr>, clientId))"

end
