(* ===== verification/Ctrler_Balance.thy ===== *)
theory Ctrler_Balance
  imports Ctrler_Server
begin

text \<open>
  The distribution of the shards: what \<open>findMinMaxGidL\<close> finds, that \<open>rebalanceL\<close> ends with a
  balanced distribution of the same shards, and what it writes into the configuration.
\<close>

subsection \<open>The smallest and the largest group\<close>

definition is_min :: "int list gomap \<Rightarrow> int \<Rightarrow> bool" where
  "is_min gs g \<longleftrightarrow> (\<exists>ss. (g, ss) \<in> set gs \<and>
     (\<forall>(h, ts) \<in> set gs. length ss < length ts \<or> length ss = length ts \<and> g \<le> h))"

definition is_max :: "int list gomap \<Rightarrow> int \<Rightarrow> bool" where
  "is_max gs g \<longleftrightarrow> (\<exists>ss. (g, ss) \<in> set gs \<and>
     (\<forall>(h, ts) \<in> set gs. length ts < length ss \<or> length ss = length ts \<and> h \<le> g))"

lemma is_min_unique: "is_min gs g \<Longrightarrow> is_min gs g' \<Longrightarrow> g = g'"
  unfolding is_min_def by fastforce

lemma is_max_unique: "is_max gs g \<Longrightarrow> is_max gs g' \<Longrightarrow> g = g'"
  unfolding is_max_def by fastforce

lemma minMax_fold:
  assumes "\<forall>(g, ss) \<in> set gs. length ss \<le> NShards" and "gs \<noteq> []"
  shows "\<exists>gmin gmax smin smax. fold minMaxStep gs (NA, NA, int NShards + 1, -1) = (gmin, gmax, smin, smax) \<and>
    (\<exists>ss. (gmin, ss) \<in> set gs \<and> smin = int (length ss) \<and>
      (\<forall>(h, ts) \<in> set gs. length ss < length ts \<or> length ss = length ts \<and> gmin \<le> h)) \<and>
    (\<exists>ss. (gmax, ss) \<in> set gs \<and> smax = int (length ss) \<and>
      (\<forall>(h, ts) \<in> set gs. length ts < length ss \<or> length ss = length ts \<and> h \<le> gmax))"
  using assms
proof (induction gs rule: rev_induct)
  case (snoc x gs)
  obtain g ss where x: "x = (g, ss)" by force
  show ?case
  proof (cases "gs = []")
    case True
    with snoc.prems x show ?thesis by (auto simp: minMaxStep_def Let_def)
  next
    case False
    with snoc obtain gmin gmax smin smax s1 s2 where
      f: "fold minMaxStep gs (NA, NA, int NShards + 1, -1) = (gmin, gmax, smin, smax)"
      and mn: "(gmin, s1) \<in> set gs" "smin = int (length s1)"
        "\<forall>(h, ts) \<in> set gs. length s1 < length ts \<or> length s1 = length ts \<and> gmin \<le> h"
      and mx: "(gmax, s2) \<in> set gs" "smax = int (length s2)"
        "\<forall>(h, ts) \<in> set gs. length ts < length s2 \<or> length s2 = length ts \<and> h \<le> gmax"
      by auto
    define gmin' where "gmin' = (if length ss < length s1 \<or> length ss = length s1 \<and> g < gmin then g else gmin)"
    define smin' where "smin' = (if length ss < length s1 then int (length ss) else smin)"
    define gmax' where "gmax' = (if length s2 < length ss \<or> length ss = length s2 \<and> gmax < g then g else gmax)"
    define smax' where "smax' = (if length s2 < length ss then int (length ss) else smax)"
    have F: "fold minMaxStep (gs @ [x]) (NA, NA, int NShards + 1, -1) = (gmin', gmax', smin', smax')"
      using f mn(2) mx(2) x
      by (auto simp: minMaxStep_def gmin'_def smin'_def gmax'_def smax'_def Let_def)
    have "\<exists>ts. (gmin', ts) \<in> set (gs @ [x]) \<and> smin' = int (length ts) \<and>
      (\<forall>(h, us) \<in> set (gs @ [x]). length ts < length us \<or> length ts = length us \<and> gmin' \<le> h)"
    proof (cases "length ss < length s1 \<or> length ss = length s1 \<and> g < gmin")
      case True
      with mn x show ?thesis by (intro exI [of _ ss]) (fastforce simp: gmin'_def smin'_def)
    next
      case False
      with mn x show ?thesis by (intro exI [of _ s1]) (auto simp: gmin'_def smin'_def)
    qed
    moreover have "\<exists>ts. (gmax', ts) \<in> set (gs @ [x]) \<and> smax' = int (length ts) \<and>
      (\<forall>(h, us) \<in> set (gs @ [x]). length us < length ts \<or> length ts = length us \<and> h \<le> gmax')"
    proof (cases "length s2 < length ss \<or> length ss = length s2 \<and> gmax < g")
      case True
      with mx x show ?thesis by (intro exI [of _ ss]) (fastforce simp: gmax'_def smax'_def)
    next
      case False
      with mx x show ?thesis by (intro exI [of _ s2]) (auto simp: gmax'_def smax'_def)
    qed
    ultimately show ?thesis using F by blast
  qed
qed simp

lemma findMinMaxGidL_correct:
  assumes "\<forall>(g, ss) \<in> set gs. length ss \<le> NShards" and "gs \<noteq> []"
  shows "is_min gs (fst (findMinMaxGidL gs))" and "is_max gs (snd (findMinMaxGidL gs))"
  using minMax_fold [OF assms] by (auto simp: findMinMaxGidL_def is_min_def is_max_def)

lemma findMinMaxGidL_order:
  assumes "\<forall>(g, ss) \<in> set gs. length ss \<le> NShards" and "set gs' = set gs"
  shows "findMinMaxGidL gs' = findMinMaxGidL gs"
proof (cases "gs = []")
  case True
  with assms(2) show ?thesis by simp
next
  case False
  then have ne: "gs' \<noteq> []" using assms(2) by auto
  have same: "is_min gs' = is_min gs" "is_max gs' = is_max gs"
    using assms(2) by (auto simp: is_min_def is_max_def fun_eq_iff)
  show ?thesis
    using findMinMaxGidL_correct [OF assms(1) False] findMinMaxGidL_correct [of gs'] assms ne same
      is_min_unique [of gs] is_max_unique [of gs]
    by (metis prod.collapse)
qed

subsection \<open>Rebalancing\<close>

definition shards_of :: "int list gomap \<Rightarrow> int multiset" where
  "shards_of = total mset"

definition balanced :: "int list gomap \<Rightarrow> bool" where
  "balanced gs \<longleftrightarrow> (\<forall>a \<in> keys gs. \<forall>b \<in> keys gs. length (getd gs a) \<le> length (getd gs b) + 1)"

definition is_map :: "'v gomap \<Rightarrow> bool" where
  "is_map m \<longleftrightarrow> distinct (map fst m)"

lemma getd_in: "is_map gs \<Longrightarrow> (g, ss) \<in> set gs \<Longrightarrow> getd gs g = ss"
  by (simp add: getd_def is_map_def map_of_is_SomeI)

lemma in_keys: "g \<in> keys gs \<longleftrightarrow> (\<exists>ss. (g, ss) \<in> set gs)"
  by (force simp: keys_def)

lemma keys_getd: "is_map gs \<Longrightarrow> g \<in> keys gs \<Longrightarrow> (g, getd gs g) \<in> set gs"
  using getd_in in_keys by metis

lemma is_map_update [simp]: "is_map gs \<Longrightarrow> is_map (AList.update k v gs)"
  by (simp add: is_map_def distinct_update)

lemma keys_empty_iff [simp]: "keys gs = {} \<longleftrightarrow> gs = []"
  by (simp add: keys_def)

lemma keys_simps [simp]: "keys [] = {}" "keys (p # m) = insert (fst p) (keys m)"
  by (simp_all add: keys_def)

lemma shards_of_update:
  "shards_of (AList.update k v gs) + mset (getd gs k) = shards_of gs + mset v"
  by (simp add: shards_of_def total_update)

lemma shards_of_getd: "mset (getd gs k) \<subseteq># shards_of gs"
  using total_split [of mset gs k] by (simp add: shards_of_def)

lemma length_getd_le: "length (getd gs k) \<le> size (shards_of gs)"
  using size_mset_mono [OF shards_of_getd [of gs k]] by simp

lemma small_groups:
  assumes "is_map gs" and "size (shards_of gs) \<le> NShards"
  shows "\<forall>(g, ss) \<in> set gs. length ss \<le> NShards"
proof clarify
  fix g ss assume "(g, ss) \<in> set gs"
  then show "length ss \<le> NShards"
    using getd_in [OF assms(1)] length_getd_le [of gs g] assms(2) by simp
qed

lemma min_max_lengths:
  assumes "is_map gs" and "g \<in> keys gs"
  shows "is_min gs m \<Longrightarrow> length (getd gs m) \<le> length (getd gs g)"
    and "is_max gs m \<Longrightarrow> length (getd gs g) \<le> length (getd gs m)"
proof -
  have g: "(g, getd gs g) \<in> set gs" by (rule keys_getd [OF assms])
  show "length (getd gs m) \<le> length (getd gs g)" if "is_min gs m"
  proof -
    from that obtain ss where ss: "(m, ss) \<in> set gs"
      "\<forall>(h, ts) \<in> set gs. length ss < length ts \<or> length ss = length ts \<and> m \<le> h"
      by (auto simp: is_min_def)
    show ?thesis using bspec [OF ss(2) g] getd_in [OF assms(1) ss(1)] by auto
  qed
  show "length (getd gs g) \<le> length (getd gs m)" if "is_max gs m"
  proof -
    from that obtain ss where ss: "(m, ss) \<in> set gs"
      "\<forall>(h, ts) \<in> set gs. length ts < length ss \<or> length ss = length ts \<and> h \<le> m"
      by (auto simp: is_max_def)
    show ?thesis using bspec [OF ss(2) g] getd_in [OF assms(1) ss(1)] by auto
  qed
qed

text \<open>One move keeps the groups and the shards.\<close>

lemma move_keeps:
  assumes "a \<noteq> b" and "getd gs a \<noteq> []"
  shows "shards_of (AList.update b (getd gs b @ [last (getd gs a)])
      (AList.update a (butlast (getd gs a)) gs)) = shards_of gs"
proof -
  let ?x = "last (getd gs a)" and ?gs = "AList.update a (butlast (getd gs a)) gs"
  have a: "mset (getd gs a) = mset (butlast (getd gs a)) + {#?x#}"
    using assms(2) by (metis append_butlast_last_id mset_append mset_single_iff_right)
  have "shards_of ?gs + mset (getd gs a) = shards_of gs + mset (butlast (getd gs a))"
    by (rule shards_of_update)
  then have 1: "shards_of ?gs + {#?x#} = shards_of gs" unfolding a by (simp add: ac_simps)
  have "shards_of (AList.update b (getd gs b @ [?x]) ?gs) + mset (getd gs b) =
      shards_of ?gs + mset (getd gs b @ [?x])"
    using shards_of_update [of b "getd gs b @ [?x]" ?gs] assms(1) by (simp add: getd_update)
  then show ?thesis using 1 by (simp add: ac_simps)
qed

lemma rebalanceLoop_correct:
  assumes "is_map gs" and "gs \<noteq> []" and "size (shards_of gs) \<le> NShards"
  shows "is_map (rebalanceLoop gs) \<and> keys (rebalanceLoop gs) = keys gs \<and>
    shards_of (rebalanceLoop gs) = shards_of gs \<and> balanced (rebalanceLoop gs)"
  using assms
proof (induction gs rule: rebalanceLoop.induct)
  case (1 gs)
  obtain gmin gmax where f: "findMinMaxGidL gs = (gmin, gmax)" by force
  have mm: "is_min gs gmin" "is_max gs gmax"
    using findMinMaxGidL_correct [OF small_groups [OF "1.prems"(1,3)] "1.prems"(2)] f by simp_all
  then have k: "gmin \<in> keys gs" "gmax \<in> keys gs" by (auto simp: is_min_def is_max_def in_keys)
  have len: "length (getd gs gmin) \<le> length (getd gs g)" "length (getd gs g) \<le> length (getd gs gmax)"
    if "g \<in> keys gs" for g
    using min_max_lengths [OF "1.prems"(1) that] mm by simp_all
  show ?case
  proof (cases "int (length (getd gs gmax)) - int (length (getd gs gmin)) \<le> 1")
    case True
    then have "rebalanceLoop gs = gs" using f by (simp add: rebalanceLoop.simps [of gs])
    moreover have "balanced gs"
      unfolding balanced_def
    proof (intro ballI)
      fix a b assume "a \<in> keys gs" "b \<in> keys gs"
      then show "length (getd gs a) \<le> length (getd gs b) + 1"
        using True len [of a] len [of b] by linarith
    qed
    ultimately show ?thesis using "1.prems" by simp
  next
    case False
    let ?gs = "AList.update gmin (getd gs gmin @ [last (getd gs gmax)])
      (AList.update gmax (butlast (getd gs gmax)) gs)"
    have eq: "rebalanceLoop gs = rebalanceLoop ?gs"
      using False f by (simp add: rebalanceLoop.simps [of gs] Let_def)
    have "gmax \<noteq> gmin" "getd gs gmax \<noteq> []" using False by auto
    then have keep: "shards_of ?gs = shards_of gs" by (rule move_keeps)
    have ks: "keys ?gs = keys gs" using k by auto
    have "?gs \<noteq> []" using ks "1.prems"(2) keys_empty_iff by metis
    then have "is_map (rebalanceLoop ?gs) \<and> keys (rebalanceLoop ?gs) = keys ?gs \<and>
        shards_of (rebalanceLoop ?gs) = shards_of ?gs \<and> balanced (rebalanceLoop ?gs)"
      using "1.IH" [OF f [symmetric] refl refl False refl refl refl] keep "1.prems" by simp
    then show ?thesis using eq ks keep by simp
  qed
qed

subsection \<open>Writing the assignment into the configuration\<close>

lemma assignShards_correct:
  assumes "\<forall>s \<in> set shards. 0 \<le> s \<and> s < int (length xs)"
  shows "\<exists>ys. assignShards gid shards xs = Inr ys \<and> length ys = length xs \<and>
    (\<forall>i < length xs. ys ! i = (if int i \<in> set shards then gid else xs ! i))"
  using assms
proof (induction shards arbitrary: xs)
  case (Cons s shards)
  have s: "0 \<le> s" "s < int (length xs)" using Cons.prems by auto
  then have st: "assignShards gid (s # shards) xs = assignShards gid shards (xs[nat s := gid])" by simp
  obtain ys where "assignShards gid shards (xs[nat s := gid]) = Inr ys" "length ys = length xs"
    "\<forall>i < length xs. ys ! i = (if int i \<in> set shards then gid else xs[nat s := gid] ! i)"
    using Cons.IH [of "xs[nat s := gid]"] Cons.prems by auto
  with st s show ?case by (auto simp: nth_list_update)
qed simp

lemma assignAll_correct:
  assumes "\<forall>(g, ss) \<in> set gs. \<forall>s \<in> set ss. 0 \<le> s \<and> s < int (length xs)"
  shows "\<exists>ys. assignAll gs xs = Inr ys \<and> length ys = length xs \<and>
    (\<forall>i < length xs. (ys ! i = xs ! i \<and> (\<forall>(g, ss) \<in> set gs. int i \<notin> set ss)) \<or>
       (\<exists>ss. (ys ! i, ss) \<in> set gs \<and> int i \<in> set ss))"
  using assms
proof (induction gs arbitrary: xs)
  case (Cons p gs)
  obtain g ss where p: "p = (g, ss)" by force
  obtain zs where z: "assignShards g ss xs = Inr zs" "length zs = length xs"
    "\<forall>i < length xs. zs ! i = (if int i \<in> set ss then g else xs ! i)"
    using assignShards_correct [of ss xs g] Cons.prems p by auto
  obtain ys where y: "assignAll gs zs = Inr ys" "length ys = length xs"
    "\<forall>i < length xs. (ys ! i = zs ! i \<and> (\<forall>(g, ss) \<in> set gs. int i \<notin> set ss)) \<or>
       (\<exists>ss. (ys ! i, ss) \<in> set gs \<and> int i \<in> set ss)"
    using Cons.IH [of zs] Cons.prems z(2) by auto
  have "(ys ! i = xs ! i \<and> (\<forall>(g, ss) \<in> set (p # gs). int i \<notin> set ss)) \<or>
       (\<exists>ss. (ys ! i, ss) \<in> set (p # gs) \<and> int i \<in> set ss)" if i: "i < length xs" for i
  proof (cases "\<exists>ss. (ys ! i, ss) \<in> set gs \<and> int i \<in> set ss")
    case True
    then show ?thesis by auto
  next
    case False
    then have "ys ! i = zs ! i" "\<forall>(g, ss) \<in> set gs. int i \<notin> set ss" using y(3) i by blast+
    then show ?thesis using z(3) i p by (cases "int i \<in> set ss") auto
  qed
  then show ?case using z y p by auto
qed simp

text \<open>The array gives every shard to the group that holds it.\<close>

definition owned :: "int list gomap \<Rightarrow> int list \<Rightarrow> bool" where
  "owned gs xs \<longleftrightarrow> length xs = NShards \<and>
     (\<forall>i < NShards. xs ! i \<in> keys gs \<and> int i \<in> set (getd gs (xs ! i)))"

lemma in_shards_of: "s \<in># shards_of gs \<longleftrightarrow> (\<exists>g \<in> keys gs. s \<in> set (getd gs g))"
  by (simp add: shards_of_def total_def set_mset_sum)

lemma set_allShards: "s \<in> set allShards \<longleftrightarrow> 0 \<le> s \<and> s < int NShards"
  by (auto simp: allShards_def image_iff intro!: bexI [of _ "nat s"])

lemma distinct_allShards: "distinct allShards"
  by (simp add: allShards_def distinct_map)

lemma assignAll_owned:
  assumes "is_map gs" and "shards_of gs = mset allShards" and "length xs = NShards"
  shows "\<exists>ys. assignAll gs xs = Inr ys \<and> owned gs ys"
proof -
  have "0 \<le> s \<and> s < int NShards" if "(g, ss) \<in> set gs" "s \<in> set ss" for g ss s
  proof -
    have "s \<in># shards_of gs" using that getd_in [OF assms(1)] in_keys in_shards_of by metis
    then show ?thesis using assms(2) set_allShards by simp
  qed
  then obtain ys where y: "assignAll gs xs = Inr ys" "length ys = NShards"
    "\<forall>i < NShards. (ys ! i = xs ! i \<and> (\<forall>(g, ss) \<in> set gs. int i \<notin> set ss)) \<or>
       (\<exists>ss. (ys ! i, ss) \<in> set gs \<and> int i \<in> set ss)"
    using assignAll_correct [of gs xs] assms(3) by fastforce
  have "ys ! i \<in> keys gs \<and> int i \<in> set (getd gs (ys ! i))" if i: "i < NShards" for i
  proof -
    have "int i \<in># shards_of gs" using assms(2) i set_allShards by simp
    then obtain g where g: "g \<in> keys gs" "int i \<in> set (getd gs g)" by (auto simp: in_shards_of)
    then have "\<not> (\<forall>(g, ss) \<in> set gs. int i \<notin> set ss)" using keys_getd [OF assms(1)] by blast
    then obtain ss where "(ys ! i, ss) \<in> set gs" "int i \<in> set ss" using y(3) i by blast
    then show ?thesis using getd_in [OF assms(1)] in_keys by blast
  qed
  with y show ?thesis by (auto simp: owned_def)
qed

lemma rebalanceL_correct:
  assumes "is_map gs" and "gs \<noteq> []" and "shards_of gs = mset allShards" and "length xs = NShards"
  shows "\<exists>gs' xs'. rebalanceL gs xs = Inr (gs', xs') \<and> is_map gs' \<and> keys gs' = keys gs \<and>
    shards_of gs' = mset allShards \<and> balanced gs' \<and> owned gs' xs'"
proof -
  have "size (shards_of gs) \<le> NShards" using assms(3) by (simp add: allShards_def)
  note r = rebalanceLoop_correct [OF assms(1,2) this]
  obtain ys where "assignAll (rebalanceLoop gs) xs = Inr ys" "owned (rebalanceLoop gs) ys"
    using assignAll_owned [of "rebalanceLoop gs" xs] r assms(3,4) by auto
  with r assms(3) show ?thesis by (auto simp: rebalanceL_def Let_def)
qed

text \<open>A shard has one owner.\<close>

lemma owner_unique:
  assumes "shards_of gs = mset allShards" and "s \<in> set (getd gs a)" and "s \<in> set (getd gs b)"
  shows "a = b"
proof (rule ccontr)
  assume ne: "a \<noteq> b"
  have b: "b \<in> keys gs" using assms(3) getd_outside [of b gs] by fastforce
  have "shards_of gs = mset (getd gs a) + (\<Sum>j \<in> keys gs - {a}. mset (getd gs j))"
    using total_split [of mset gs a] by (simp add: shards_of_def)
  moreover have "(\<Sum>j \<in> keys gs - {a}. mset (getd gs j)) =
      mset (getd gs b) + (\<Sum>j \<in> keys gs - {a} - {b}. mset (getd gs j))"
    using b ne by (intro sum.remove) auto
  ultimately have "mset allShards = mset (getd gs a) + (mset (getd gs b) + (\<Sum>j \<in> keys gs - {a} - {b}. mset (getd gs j)))"
    using assms(1) by simp
  then have "count (mset allShards) s \<ge> count (mset (getd gs a)) s + count (mset (getd gs b)) s" by simp
  moreover have "count (mset (getd gs a)) s \<ge> 1" "count (mset (getd gs b)) s \<ge> 1"
    using assms(2,3) by (simp_all only: count_greater_eq_one_iff set_mset_mset)
  moreover have "count (mset allShards) s \<le> 1"
    using distinct_allShards by (simp add: distinct_count_atmost_1)
  ultimately show False by linarith
qed

lemma owned_iff:
  assumes "owned gs xs" and "shards_of gs = mset allShards" and "i < NShards"
  shows "xs ! i = g \<longleftrightarrow> int i \<in> set (getd gs g)"
  using assms owner_unique [OF assms(2), of "int i" g "xs ! i"] by (auto simp: owned_def)

subsection \<open>The order of the maps does not matter\<close>

definition same_map :: "'v gomap \<Rightarrow> 'v gomap \<Rightarrow> bool" where
  "same_map m m' \<longleftrightarrow> is_map m \<and> is_map m' \<and> map_of m = map_of m'"

lemma same_mapD:
  assumes "same_map m m'"
  shows "is_map m" "is_map m'" "set m = set m'" "map_of m = map_of m'" "keys m = keys m'" "length m = length m'"
proof -
  show im: "is_map m" "is_map m'" "map_of m = map_of m'" using assms by (auto simp: same_map_def)
  show s: "set m = set m'" using im map_of_inject_set [of m m'] by (simp add: is_map_def)
  show "keys m = keys m'" using s by (simp add: keys_def)
  show "length m = length m'"
    using s im by (metis distinct_card distinct_map is_map_def)
qed

lemma same_map_getd: "same_map m m' \<Longrightarrow> getd m k = getd m' k"
  by (simp add: getd_def same_map_def)

lemma same_map_update: "same_map m m' \<Longrightarrow> same_map (AList.update k v m) (AList.update k v m')"
  by (simp add: same_map_def update_conv')

lemma same_map_delete: "same_map m m' \<Longrightarrow> same_map (AList.delete k m) (AList.delete k m')"
  by (simp add: same_map_def is_map_def delete_conv' distinct_delete)

lemma same_map_shards: "same_map m m' \<Longrightarrow> shards_of m = shards_of m'"
  using same_mapD(5) [of m m'] same_map_getd [of m m'] by (simp add: shards_of_def total_def)

lemma findMinMaxGidL_same:
  assumes "same_map gs gs'" and "size (shards_of gs) \<le> NShards"
  shows "findMinMaxGidL gs' = findMinMaxGidL gs"
  by (rule findMinMaxGidL_order [OF small_groups [OF same_mapD(1) [OF assms(1)] assms(2)]])
    (rule same_mapD(3) [OF assms(1), symmetric])

lemma rebalanceLoop_same:
  assumes "same_map gs gs'" and "size (shards_of gs) \<le> NShards"
  shows "same_map (rebalanceLoop gs) (rebalanceLoop gs')"
  using assms
proof (induction gs arbitrary: gs' rule: rebalanceLoop.induct)
  case (1 gs)
  obtain gmin gmax where f: "findMinMaxGidL gs = (gmin, gmax)" by force
  have f': "findMinMaxGidL gs' = (gmin, gmax)" using findMinMaxGidL_same "1.prems" f by simp
  note g = same_map_getd [OF "1.prems"(1)]
  show ?case
  proof (cases "int (length (getd gs gmax)) - int (length (getd gs gmin)) \<le> 1")
    case True
    then show ?thesis
      using f f' g "1.prems" by (simp add: rebalanceLoop.simps [of gs] rebalanceLoop.simps [of gs'])
  next
    case False
    let ?upd = "\<lambda>gs. AList.update gmin (getd gs gmin @ [last (getd gs gmax)])
      (AList.update gmax (butlast (getd gs gmax)) gs)"
    have eq: "rebalanceLoop gs = rebalanceLoop (?upd gs)" "rebalanceLoop gs' = rebalanceLoop (?upd gs')"
      using False f f' g
      by (simp_all add: rebalanceLoop.simps [of gs] rebalanceLoop.simps [of gs'] Let_def)
    have "same_map (?upd gs) (?upd gs')"
      using "1.prems"(1) g by (simp add: same_map_update)
    moreover have "gmax \<noteq> gmin" "getd gs gmax \<noteq> []" using False by auto
    then have "size (shards_of (?upd gs)) \<le> NShards" using move_keeps "1.prems"(2) by metis
    ultimately show ?thesis
      using "1.IH" [OF f [symmetric] refl refl False refl refl refl] eq by simp
  qed
qed

end
