(* ===== verification/Ctrler_Props.thy ===== *)
theory Ctrler_Props
  imports Ctrler_Balance
begin

text \<open>
  The properties of the shard controller: every configuration it makes is well formed and,
  after a Join or Leave, balanced; replicas that iterate over their maps in different orders
  make the same configurations; each operation of a client takes effect once; and which
  arguments end the process.
\<close>

subsection \<open>The invariant of the controller's state\<close>

fun good :: "cstate \<Rightarrow> bool" where
  "good (cs, gs) \<longleftrightarrow>
     cs \<noteq> [] \<and> (\<forall>i < length cs. Num (cs ! i) = int i) \<and>
     is_map gs \<and> is_map (Groups (last cs)) \<and> keys (Groups (last cs)) = keys gs \<and>
     length (Shards (last cs)) = NShards \<and>
     (if gs = [] then Shards (last cs) = replicate NShards 0
      else shards_of gs = mset allShards \<and> owned gs (Shards (last cs)))"

text \<open>The arguments for which the code is meant.\<close>

fun valid_op :: "Op \<Rightarrow> cstate \<Rightarrow> bool" where
  "valid_op op (cs, gs) \<longleftrightarrow>
     (OpType op = opJoin \<longrightarrow> is_map (Servers op) \<and> keys (Servers op) \<inter> keys gs = {} \<and>
        (gs = [] \<longrightarrow> Servers op \<noteq> [])) \<and>
     (OpType op = opLeave \<longrightarrow> distinct (GIDs op)) \<and>
     (OpType op = opMove \<longrightarrow> 0 \<le> Shard op \<and> Shard op < int NShards \<and> GID op \<in> keys gs) \<and>
     (OpType op = opQuery \<longrightarrow> -1 \<le> op_Num op)"

lemma ctrler_op_kinds: "opJoin \<noteq> opLeave" "opJoin \<noteq> opMove" "opJoin \<noteq> opQuery" "opLeave \<noteq> opMove"
  "opLeave \<noteq> opQuery" "opMove \<noteq> opQuery"
  by (simp_all add: opJoin_def opLeave_def opMove_def opQuery_def)

lemma idx_last: "cs \<noteq> [] \<Longrightarrow> idx cs (nowL cs) = Inr (last cs)"
  by (simp add: nowL_def last_conv_nth Suc_leI of_nat_diff [symmetric] nat_diff_distrib)

lemma addGroups:
  "is_map m \<Longrightarrow> is_map (fold (\<lambda>(k, v). AList.update k (f v)) ms m) \<and>
   keys (fold (\<lambda>(k, v). AList.update k (f v)) ms m) = keys m \<union> keys ms"
proof (induction ms arbitrary: m)
  case (Cons p ms)
  then show ?case by (cases p) auto
qed simp

lemmas addGroups_id = addGroups [where f = "\<lambda>v. v", simplified]

lemma addGroups_shards:
  assumes "\<forall>k \<in> keys ms. getd gs k = []"
  shows "shards_of (fold (\<lambda>(k, v). AList.update k []) ms gs) = shards_of gs"
  using assms
proof (induction ms arbitrary: gs)
  case (Cons p ms)
  obtain k v where p: "p = (k, v)" by force
  have "shards_of (AList.update k [] gs) = shards_of gs"
    using shards_of_update [of k "[]" gs] Cons.prems p by simp
  moreover have "\<forall>j \<in> keys ms. getd (AList.update k [] gs) j = []"
    using Cons.prems p by (auto simp: getd_update)
  ultimately show ?case using Cons.IH [of "AList.update k [] gs"] p by simp
qed simp

lemma map_of_add:
  assumes "is_map ms"
  shows "map_of (fold (\<lambda>(k, v). AList.update k (f v)) ms m) = map_of m ++ (map_option f \<circ> map_of ms)"
  using assms
proof (induction ms arbitrary: m)
  case (Cons p ms)
  obtain k v where p: "p = (k, v)" by force
  then have k: "is_map ms" "map_of ms k = None"
    using Cons.prems by (auto simp: is_map_def map_of_eq_None_iff)
  with Cons.IH [OF k(1), of "AList.update k (f v) m"] p show ?case
    by (auto simp: fun_eq_iff map_add_def update_conv' split: option.splits)
qed (simp add: fun_eq_iff map_add_def)

lemmas map_of_add_id = map_of_add [where f = "\<lambda>v. v", unfolded map_option.identity comp_def, simplified]

lemma makeNewConfigL_good:
  assumes "good (cs, gs)"
  shows "\<exists>groups. makeNewConfigL cs = Inr \<lparr>Num = int (length cs), Shards = Shards (last cs), Groups = groups\<rparr> \<and>
    is_map groups \<and> keys groups = keys gs \<and> map_of groups = map_of (Groups (last cs))"
  using assms addGroups_id [of "[]" "Groups (last cs)"] map_of_add_id [of "Groups (last cs)" "[]"]
  by (auto simp: makeNewConfigL_def idx_last) (auto simp: nowL_def is_map_def)

text \<open>Appending a new configuration to a good history.\<close>

lemma good_append:
  assumes "good (cs, gs)" and "Num c = int (length cs)" and "is_map gs'" and "is_map (Groups c)"
    and "keys (Groups c) = keys gs'" and "length (Shards c) = NShards"
    and "if gs' = [] then Shards c = replicate NShards 0
         else shards_of gs' = mset allShards \<and> owned gs' (Shards c)"
  shows "good (cs @ [c], gs')"
proof -
  have "Num ((cs @ [c]) ! i) = int i" if "i < length (cs @ [c])" for i
    using that assms(1,2) by (cases "i < length cs") (auto simp: nth_append less_Suc_eq)
  with assms show ?thesis by simp
qed

lemma findMin_in_keys:
  assumes "is_map gs" and "gs \<noteq> []" and "size (shards_of gs) \<le> NShards"
  shows "fst (findMinMaxGidL gs) \<in> keys gs"
  using findMinMaxGidL_correct(1) [OF small_groups [OF assms(1,3)] assms(2)]
  by (auto simp: is_min_def in_keys)

text \<open>The part that Join and Leave share: the shards are complete, and are rebalanced.\<close>

lemma rebalance_append:
  assumes "good (cs, gs)" and "is_map gs1" and "gs1 \<noteq> []" and "shards_of gs1 = mset allShards"
    and "is_map groups" and "keys groups = keys gs1"
    and "c = \<lparr>Num = int (length cs), Shards = Shards (last cs), Groups = groups\<rparr>"
  shows "\<exists>gs2 shards. rebalanceL gs1 (Shards c) = Inr (gs2, shards) \<and>
    good (cs @ [c\<lparr>Shards := shards\<rparr>], gs2) \<and> balanced gs2 \<and> keys gs2 = keys gs1"
proof -
  have "length (Shards c) = NShards" using assms(1,7) by simp
  from rebalanceL_correct [OF assms(2-4) this] obtain gs2 shards where
    r: "rebalanceL gs1 (Shards c) = Inr (gs2, shards)" "is_map gs2" "keys gs2 = keys gs1"
      "shards_of gs2 = mset allShards" "balanced gs2" "owned gs2 shards" by blast
  have "gs2 \<noteq> []" using r(3) assms(3) keys_empty_iff by metis
  then have "good (cs @ [c\<lparr>Shards := shards\<rparr>], gs2)"
    using r assms by (intro good_append [OF assms(1)]) (auto simp: owned_def)
  with r show ?thesis by blast
qed

lemma applyJoinL_good:
  assumes "good (cs, gs)" and "is_map (Servers op)" and "keys (Servers op) \<inter> keys gs = {}"
    and "gs = [] \<longrightarrow> Servers op \<noteq> []"
  shows "\<exists>c gs'. applyJoinL op (cs, gs) = Inr (cs @ [c], gs') \<and> good (cs @ [c], gs') \<and> balanced gs' \<and>
    keys gs' = keys gs \<union> keys (Servers op) \<and> map_of (Groups c) = map_of (Groups (last cs)) ++ map_of (Servers op)"
proof -
  obtain groups where c: "makeNewConfigL cs = Inr \<lparr>Num = int (length cs), Shards = Shards (last cs), Groups = groups\<rparr>"
    "is_map groups" "keys groups = keys gs" "map_of groups = map_of (Groups (last cs))" using makeNewConfigL_good [OF assms(1)] by blast
  define groups1 where "groups1 = fold (\<lambda>(k, v). AList.update k v) (Servers op) groups"
  define gs1 where "gs1 = fold (\<lambda>(k, v). AList.update k []) (Servers op) gs"
  define gs2 where "gs2 = (if gs = [] then AList.update (fst (findMinMaxGidL gs1)) allShards gs1 else gs1)"
  have im: "is_map gs" "cs \<noteq> []" using assms(1) by auto
  have g1: "is_map groups1" "keys groups1 = keys gs \<union> keys (Servers op)"
    using addGroups_id [OF c(2), of "Servers op"] c(3) by (auto simp: groups1_def)
  have s1: "is_map gs1" "keys gs1 = keys gs \<union> keys (Servers op)"
    using addGroups [OF im(1), of "\<lambda>_. []" "Servers op"] by (auto simp: gs1_def)
  have "\<forall>k \<in> keys (Servers op). getd gs k = []" using assms(3) getd_outside by blast
  then have sh1: "shards_of gs1 = shards_of gs" unfolding gs1_def by (rule addGroups_shards)
  have ne: "gs1 \<noteq> []" using s1(2) assms(4) keys_empty_iff by (metis Un_empty)
  have "is_map gs2 \<and> keys gs2 = keys gs1 \<and> shards_of gs2 = mset allShards"
  proof (cases "gs = []")
    case True
    then have z: "shards_of gs1 = {#}" using sh1 by (simp add: shards_of_def total_def)
    then have "fst (findMinMaxGidL gs1) \<in> keys gs1" using findMin_in_keys [OF s1(1) ne] by simp
    moreover have "getd gs1 k = []" for k using z shards_of_getd [of gs1 k] by simp
    then have "shards_of gs2 = mset allShards"
      using True z shards_of_update [of _ allShards gs1] by (simp add: gs2_def)
    ultimately show ?thesis using True s1 by (auto simp: gs2_def)
  next
    case False
    with s1 sh1 assms(1) show ?thesis by (simp add: gs2_def)
  qed
  note g2 = this
  have "gs2 \<noteq> []" using g2 ne keys_empty_iff by metis
  then obtain gs3 shards where r: "rebalanceL gs2 (Shards (last cs)) = Inr (gs3, shards)"
    "good (cs @ [\<lparr>Num = int (length cs), Shards = shards, Groups = groups1\<rparr>], gs3)"
    "balanced gs3" "keys gs3 = keys gs2"
    using rebalance_append [OF assms(1), of gs2 groups1, OF _ _ _ g1(1) _ refl] g2 g1(2) s1(2) by auto
  have "Groups (last cs) = [] \<longleftrightarrow> gs = []" using assms(1) keys_empty_iff by (metis good.simps)
  then have "applyJoinL op (cs, gs) =
      Inr (cs @ [\<lparr>Num = int (length cs), Shards = shards, Groups = groups1\<rparr>], gs3)"
    using r(1) c(1) im(2)
    by (cases "gs = []") (simp_all add: applyJoinL_def idx_last groups1_def gs1_def gs2_def Let_def)
  moreover have "keys gs3 = keys gs \<union> keys (Servers op)" using r(4) g2 s1(2) by simp
  moreover have "map_of groups1 = map_of (Groups (last cs)) ++ map_of (Servers op)"
    using map_of_add_id [OF assms(2), of groups] c(4) by (simp add: groups1_def)
  ultimately show ?thesis using r(2,3) by fastforce
qed

lemma keys_delete [simp]: "keys (AList.delete k m) = keys m - {k}"
  by (auto simp: keys_def AList.delete_eq)

lemma is_map_delete [simp]: "is_map m \<Longrightarrow> is_map (AList.delete k m)"
  by (simp add: is_map_def distinct_delete)

lemma getd_delete: "getd (AList.delete k m) j = (if j = k then [] else getd m j)"
  by (simp add: getd_def delete_conv')

lemma shards_of_delete: "shards_of (AList.delete k gs) + mset (getd gs k) = shards_of gs"
proof -
  have "shards_of (AList.delete k gs) = (\<Sum>j \<in> keys gs - {k}. mset (getd gs j))"
    unfolding shards_of_def total_def by (rule sum.cong) (auto simp: getd_delete)
  then show ?thesis using total_split [of mset gs k] by (simp add: shards_of_def ac_simps)
qed

lemma leave_fold:
  assumes "distinct gids" and "is_map groups" and "is_map removed" and "is_map gs"
    and "keys removed \<inter> set gids = {}"
  shows "\<exists>groups' removed' gs'. fold leaveStep gids (groups, removed, gs) = (groups', removed', gs') \<and>
    is_map groups' \<and> is_map removed' \<and> is_map gs' \<and> keys groups' = keys groups - set gids \<and>
    keys gs' = keys gs - set gids \<and> map_of groups' = map_of groups |` (- set gids) \<and> shards_of removed' + shards_of gs' = shards_of removed + shards_of gs"
  using assms
proof (induction gids arbitrary: groups removed gs)
  case (Cons g gids)
  let ?removed = "AList.update g (getd gs g) removed" and ?gs = "AList.delete g gs"
  have "shards_of ?removed = shards_of removed + mset (getd gs g)"
    using shards_of_update [of g "getd gs g" removed] getd_outside [of g removed] Cons.prems(5) by simp
  then have "shards_of ?removed + shards_of ?gs = shards_of removed + shards_of gs"
    using shards_of_delete [of g gs] by (simp add: ac_simps)
  moreover have "keys ?removed \<inter> set gids = {}" using Cons.prems(1,5) by auto
  ultimately show ?case
    using Cons.IH [of "AList.delete g groups" ?removed ?gs] Cons.prems
    by (auto simp: leaveStep_def delete_conv restrict_map_def fun_eq_iff)
qed (simp add: restrict_map_def)

lemma mset_concat_map: "is_map m \<Longrightarrow> mset (concat (map snd m)) = shards_of m"
proof (induction m)
  case (Cons p m)
  obtain k v where p: "p = (k, v)" by force
  then have k: "k \<notin> keys m" "is_map m" using Cons.prems by (auto simp: is_map_def keys_def)
  have "shards_of (AList.update k v m) = shards_of m + mset v"
    using shards_of_update [of k v m] getd_outside [OF k(1)] by simp
  moreover have "shards_of (p # m) = shards_of (AList.update k v m)"
    unfolding shards_of_def total_def
    by (rule sum.cong) (auto simp: p getd_def update_conv')
  ultimately show ?case using Cons.IH [OF k(2)] p by (simp add: ac_simps)
qed (simp add: shards_of_def total_def)

lemma applyLeaveL_good:
  assumes "good (cs, gs)" and "distinct (GIDs op)"
  shows "\<exists>c gs'. applyLeaveL op (cs, gs) = Inr (cs @ [c], gs') \<and> good (cs @ [c], gs') \<and> balanced gs' \<and>
    keys gs' = keys gs - set (GIDs op) \<and> map_of (Groups c) = map_of (Groups (last cs)) |` (- set (GIDs op))"
proof -
  obtain groups where c: "makeNewConfigL cs = Inr \<lparr>Num = int (length cs), Shards = Shards (last cs), Groups = groups\<rparr>"
    "is_map groups" "keys groups = keys gs" "map_of groups = map_of (Groups (last cs))" using makeNewConfigL_good [OF assms(1)] by blast
  obtain groups1 removed gs1 where f: "fold leaveStep (GIDs op) (groups, [], gs) = (groups1, removed, gs1)"
    and f1: "is_map groups1" "is_map removed" "is_map gs1" "keys groups1 = keys gs - set (GIDs op)"
      "keys gs1 = keys gs - set (GIDs op)" "map_of groups1 = map_of (Groups (last cs)) |` (- set (GIDs op))" and sh: "shards_of removed + shards_of gs1 = shards_of gs"
    using leave_fold [OF assms(2) c(2), of "[]" gs] assms(1) c(3,4)
    by (auto simp: is_map_def shards_of_def total_def)
  show ?thesis
  proof (cases "groups1 = []")
    case True
    then have e: "gs1 = []" using f1(4,5) keys_empty_iff by metis
    then have "good (cs @ [\<lparr>Num = int (length cs), Shards = replicate NShards 0, Groups = []\<rparr>], gs1)"
      by (intro good_append [OF assms(1)]) (auto simp: is_map_def)
    moreover have "balanced gs1" using e by (simp add: balanced_def)
    ultimately show ?thesis
      using True c(1) f e f1(5,6) by (auto simp: applyLeaveL_def Let_def)
  next
    case False
    then have ne: "gs1 \<noteq> []" using f1(4,5) keys_empty_iff by metis
    then have "gs \<noteq> []" using f1(5) keys_empty_iff by (metis empty_Diff)
    then have all: "shards_of removed + shards_of gs1 = mset allShards" using sh assms(1) by simp
    then have "size (shards_of gs1) \<le> size (mset allShards)" by (metis size_union le_add2)
    then have sz: "size (shards_of gs1) \<le> NShards" by (simp add: allShards_def)
    define g where "g = fst (findMinMaxGidL gs1)"
    define gs2 where "gs2 = AList.update g (getd gs1 g @ sort (concat (map snd removed))) gs1"
    have g: "g \<in> keys gs1" unfolding g_def by (rule findMin_in_keys [OF f1(3) ne sz])
    have "shards_of gs2 = mset allShards"
      using shards_of_update [of g "getd gs1 g @ sort (concat (map snd removed))" gs1] all
        mset_concat_map [OF f1(2)] by (simp add: gs2_def ac_simps)
    moreover have "is_map gs2" "keys gs2 = keys gs1" "gs2 \<noteq> []"
      using f1(3) g keys_empty_iff [of gs2] by (auto simp: gs2_def)
    ultimately obtain gs3 shards where r: "rebalanceL gs2 (Shards (last cs)) = Inr (gs3, shards)"
      "good (cs @ [\<lparr>Num = int (length cs), Shards = shards, Groups = groups1\<rparr>], gs3)"
      "balanced gs3" "keys gs3 = keys gs1"
      using rebalance_append [OF assms(1), of gs2 groups1, OF _ _ _ f1(1) _ refl] f1(4,5) by auto
    have "applyLeaveL op (cs, gs) =
        Inr (cs @ [\<lparr>Num = int (length cs), Shards = shards, Groups = groups1\<rparr>], gs3)"
      using r(1) c(1) f False by (simp add: applyLeaveL_def g_def gs2_def Let_def)
    then show ?thesis using r f1(5,6) by fastforce
  qed
qed

lemma takeShard_fst [simp]: "map fst (takeShard s gs) = map fst gs"
  by (induction s gs rule: takeShard.induct) auto

lemma keys_takeShard [simp]: "keys (takeShard s gs) = keys gs"
  by (metis image_set keys_def takeShard_fst)

lemma is_map_takeShard [simp]: "is_map (takeShard s gs) = is_map gs"
  by (simp add: is_map_def)

lemma mset_remove_right: "s \<notin># A \<Longrightarrow> A + (B - {#s#}) = A + B - {#s#}"
  by (rule multiset_eqI) (auto simp: not_in_iff)

lemma mset_remove_left: "s \<in># A \<Longrightarrow> A - {#s#} + B = A + B - {#s#}"
  by (metis add.commute diff_union_single_conv)

lemma takeShard_concat:
  "mset (concat (map snd (takeShard s gs))) = mset (concat (map snd gs)) - {#s#}"
  by (induction s gs rule: takeShard.induct)
    (simp_all add: mset_remove_right mset_remove_left del: mset_concat)

lemma takeShard_shards:
  assumes "is_map gs" and "s \<in># shards_of gs"
  shows "shards_of (takeShard s gs) + {#s#} = shards_of gs"
  using takeShard_concat [of s gs] mset_concat_map [of gs] mset_concat_map [of "takeShard s gs"] assms
  by simp

lemma getd_takeShard: "t \<noteq> s \<Longrightarrow> t \<in> set (getd (takeShard s gs) g) \<longleftrightarrow> t \<in> set (getd gs g)"
  by (induction s gs rule: takeShard.induct) (auto simp: getd_def)

lemma applyMoveL_good:
  assumes "good (cs, gs)" and "0 \<le> Shard op" and "Shard op < int NShards" and "GID op \<in> keys gs"
  shows "\<exists>c gs'. applyMoveL op (cs, gs) = Inr (cs @ [c], gs') \<and> good (cs @ [c], gs') \<and>
    Shards c = (Shards (last cs))[nat (Shard op) := GID op] \<and> keys gs' = keys gs \<and>
    map_of (Groups c) = map_of (Groups (last cs))"
proof -
  obtain groups where c: "makeNewConfigL cs = Inr \<lparr>Num = int (length cs), Shards = Shards (last cs), Groups = groups\<rparr>"
    "is_map groups" "keys groups = keys gs" "map_of groups = map_of (Groups (last cs))" using makeNewConfigL_good [OF assms(1)] by blast
  let ?s = "Shard op" and ?g = "GID op" and ?xs = "Shards (last cs)"
  define gs1 where "gs1 = takeShard ?s gs"
  define gs2 where "gs2 = AList.update ?g (getd gs1 ?g @ [?s]) gs1"
  have ne: "gs \<noteq> []" using assms(4) by auto
  have G: "is_map gs" "shards_of gs = mset allShards" "owned gs ?xs" "length ?xs = NShards"
    using assms(1) ne by auto
  have "?s \<in># shards_of gs" using G(2) assms(2,3) set_allShards by simp
  then have 1: "shards_of gs1 + {#?s#} = mset allShards"
    using takeShard_shards [OF G(1)] G(2) by (simp add: gs1_def)
  have k: "keys gs2 = keys gs" "is_map gs2" using assms(4) G(1) by (auto simp: gs1_def gs2_def)
  have "shards_of gs2 = mset allShards"
    using shards_of_update [of ?g "getd gs1 ?g @ [?s]" gs1] 1 by (simp add: gs2_def ac_simps)
  moreover have "owned gs2 (?xs[nat ?s := ?g])"
    unfolding owned_def
  proof (intro conjI allI impI)
    fix i assume i: "i < NShards"
    have o: "?xs ! i \<in> keys gs" "int i \<in> set (getd gs (?xs ! i))" using G(3) i by (auto simp: owned_def)
    show "?xs[nat ?s := ?g] ! i \<in> keys gs2" using o(1) k(1) assms(4) i G(4)
      by (cases "i = nat ?s") simp_all
    show "int i \<in> set (getd gs2 (?xs[nat ?s := ?g] ! i))"
    proof (cases "int i = ?s")
      case True
      then have "nat ?s = i" by simp
      then show ?thesis using True i G(4) by (simp add: gs2_def getd_update)
    next
      case False
      then have "int i \<in> set (getd gs1 (?xs ! i))" using getd_takeShard o(2) by (simp add: gs1_def)
      moreover have "?xs[nat ?s := ?g] ! i = ?xs ! i" using False assms(2) by (simp add: nth_list_update)
      ultimately show ?thesis by (auto simp: gs2_def getd_update)
    qed
  qed (use G(4) in simp)
  moreover have "gs2 \<noteq> []" using k(1) ne keys_empty_iff by metis
  ultimately have "good (cs @ [\<lparr>Num = int (length cs), Shards = ?xs[nat ?s := ?g], Groups = groups\<rparr>], gs2)"
    using k c G(4) by (intro good_append [OF assms(1)]) auto
  moreover have "applyMoveL op (cs, gs) =
      Inr (cs @ [\<lparr>Num = int (length cs), Shards = ?xs[nat ?s := ?g], Groups = groups\<rparr>], gs2)"
    using c(1) assms(2,3) G(4) by (simp add: applyMoveL_def gs1_def gs2_def Let_def)
  ultimately show ?thesis using k(1) c(4) by fastforce
qed

lemma good_log: "good (cs, gs) \<Longrightarrow> logGidShardsL (cs, gs) = Inr ()"
proof -
  assume g: "good (cs, gs)"
  have len: "length m = card (keys m)" if "is_map m" for m :: "'x gomap"
    using that distinct_card [of "map fst m"] by (simp add: is_map_def keys_def)
  show ?thesis using g len [of gs] len [of "Groups (last cs)"] by (auto simp: logGidShardsL_def idx_last)
qed

lemma applyQueryL_good:
  assumes "good (cs, gs)" and "-1 \<le> op_Num op"
  shows "applyQueryL op (cs, gs) =
    Inr (if 0 \<le> op_Num op \<and> op_Num op < int (length cs) then cs ! nat (op_Num op) else last cs)"
proof (cases "op_Num op \<noteq> -1 \<and> op_Num op \<le> nowL cs")
  case True
  then have n: "0 \<le> op_Num op" "op_Num op < int (length cs)" using assms(2) by (auto simp: nowL_def)
  with True show ?thesis by (simp add: applyQueryL_def)
next
  case False
  then have "applyQueryL op (cs, gs) = Inr (last cs)" using assms(1) by (auto simp: applyQueryL_def idx_last)
  then show ?thesis using False assms by (auto simp: nowL_def)
qed

declare good.simps [simp del]

subsection \<open>Every operation keeps the invariant\<close>

lemma ctrler_operations_total:
  assumes "good (cs, gs)" and "valid_op op (cs, gs)"
  shows "\<exists>c cs' gs'. switchL op (cs, gs) = Inr (c, cs', gs') \<and> good (cs', gs') \<and>
    logGidShardsL (cs', gs') = Inr () \<and> take (length cs) cs' = cs \<and>
    (OpType op \<in> {opJoin, opLeave, opMove} \<longrightarrow> length cs' = length cs + 1) \<and>
    (OpType op = opJoin \<longrightarrow> balanced gs' \<and> keys gs' = keys gs \<union> keys (Servers op) \<and>
       map_of (Groups (last cs')) = map_of (Groups (last cs)) ++ map_of (Servers op)) \<and>
    (OpType op = opLeave \<longrightarrow> balanced gs' \<and> keys gs' = keys gs - set (GIDs op) \<and>
       map_of (Groups (last cs')) = map_of (Groups (last cs)) |` (- set (GIDs op))) \<and>
    (OpType op = opMove \<longrightarrow> keys gs' = keys gs \<and> map_of (Groups (last cs')) = map_of (Groups (last cs)) \<and>
       Shards (last cs') = (Shards (last cs))[nat (Shard op) := GID op]) \<and>
    (OpType op = opQuery \<longrightarrow> cs' = cs \<and> gs' = gs \<and>
       c = (if 0 \<le> op_Num op \<and> op_Num op < int (length cs) then cs ! nat (op_Num op) else last cs))"
proof -
  consider "OpType op = opJoin" | "OpType op = opLeave" | "OpType op = opMove" | "OpType op = opQuery"
    | "OpType op \<notin> {opJoin, opLeave, opMove, opQuery}" by blast
  then show ?thesis
  proof cases
    case 1
    with assms(2) obtain c gs' where "applyJoinL op (cs, gs) = Inr (cs @ [c], gs')" "good (cs @ [c], gs')"
      "balanced gs'" "keys gs' = keys gs \<union> keys (Servers op)"
      "map_of (Groups c) = map_of (Groups (last cs)) ++ map_of (Servers op)"
      using applyJoinL_good [OF assms(1), of op] by auto
    with 1 ctrler_op_kinds good_log [of "cs @ [c]" gs'] show ?thesis by (simp add: switchL_def)
  next
    case 2
    with assms(2) obtain c gs' where "applyLeaveL op (cs, gs) = Inr (cs @ [c], gs')" "good (cs @ [c], gs')"
      "balanced gs'" "keys gs' = keys gs - set (GIDs op)"
      "map_of (Groups c) = map_of (Groups (last cs)) |` (- set (GIDs op))"
      using applyLeaveL_good [OF assms(1), of op] by auto
    with 2 ctrler_op_kinds good_log [of "cs @ [c]" gs'] show ?thesis by (simp add: switchL_def)
  next
    case 3
    with assms(2) obtain c gs' where "applyMoveL op (cs, gs) = Inr (cs @ [c], gs')" "good (cs @ [c], gs')"
      "Shards c = (Shards (last cs))[nat (Shard op) := GID op]" "keys gs' = keys gs"
      "map_of (Groups c) = map_of (Groups (last cs))"
      using applyMoveL_good [OF assms(1), of op] by auto
    with 3 ctrler_op_kinds good_log [of "cs @ [c]" gs'] show ?thesis by (simp add: switchL_def)
  next
    case 4
    then show ?thesis
      using applyQueryL_good [OF assms(1), of op] assms ctrler_op_kinds good_log [OF assms(1)] by (auto simp: switchL_def)
  next
    case 5
    then show ?thesis using assms(1) good_log [OF assms(1)] by (auto simp: switchL_def)
  qed
qed

text \<open>
  C14: the controller never produces a bad configuration. From a good state, an operation with
  sensible arguments does not end the process and leads to a good state: the configurations
  stay numbered from 0 on, old ones are kept, every shard belongs to exactly one existing group (to group 0 if there is
  none) and the new configuration's array agrees with \<open>gidShards\<close>. A Join, Leave or Move adds one configuration. In that of a
  Join the groups are the old ones and those of the request, each with its servers; in that of a Leave they are the old
  ones without those of the request, with their servers; and in both no group has two shards more than another. A Move
  changes the owner of its shard and of no other, and no group. A Query changes nothing and returns the configuration with the
  number that it asks for, or the latest one if it asks for -1 or for a number that does not exist yet.
\<close>

theorem ctrler_operations:
  assumes "good (cs, gs)" and "valid_op op (cs, gs)"
  shows "\<exists>c cs' gs'. switchL op (cs, gs) = Inr (c, cs', gs') \<and> good (cs', gs') \<and>
    logGidShardsL (cs', gs') = Inr () \<and> take (length cs) cs' = cs \<and>
    (OpType op \<in> {opJoin, opLeave, opMove} \<longrightarrow> length cs' = length cs + 1) \<and>
    (OpType op = opJoin \<longrightarrow> balanced gs' \<and> keys gs' = keys gs \<union> keys (Servers op) \<and>
       map_of (Groups (last cs')) = map_of (Groups (last cs)) ++ map_of (Servers op)) \<and>
    (OpType op = opLeave \<longrightarrow> balanced gs' \<and> keys gs' = keys gs - set (GIDs op) \<and>
       map_of (Groups (last cs')) = map_of (Groups (last cs)) |` (- set (GIDs op))) \<and>
    (OpType op = opMove \<longrightarrow> keys gs' = keys gs \<and> map_of (Groups (last cs')) = map_of (Groups (last cs)) \<and>
       Shards (last cs') = (Shards (last cs))[nat (Shard op) := GID op]) \<and>
    (OpType op = opQuery \<longrightarrow> cs' = cs \<and> gs' = gs \<and>
       c = (if 0 \<le> op_Num op \<and> op_Num op < int (length cs) then cs ! nat (op_Num op) else last cs))"
  by (rule ctrler_operations_total [OF assms])

definition join12 :: Op where
  "join12 = zeroOp\<lparr>OpType := opJoin, Servers := [(1, [''a'']), (2, [''b''])]\<rparr>"

lemma good_start: "good ([zeroConfig], [])"
  by (simp add: good.simps zeroConfig_def is_map_def)

lemma join12_valid: "valid_op join12 ([zeroConfig], [])"
  using ctrler_op_kinds by (simp add: join12_def zeroOp_def is_map_def)

theorem ctrler_operations_witness:
  "good ([zeroConfig], []) \<and>
   (\<exists>c cs' gs'. switchL join12 ([zeroConfig], []) = Inr (c, cs', gs') \<and> good (cs', gs') \<and>
      balanced gs' \<and> keys gs' = {1, 2} \<and> map_of (Groups (last cs')) = [1 \<mapsto> [''a''], 2 \<mapsto> [''b'']])"
  using ctrler_operations [OF good_start join12_valid] good_start
  by (auto simp: join12_def zeroOp_def zeroConfig_def fun_eq_iff)

text \<open>
  C16: the rebalancing loop ends, and it is a fair redistribution: for any distribution of the
  ten shards over at least one group it returns one over the same groups with the same
  shards, in which the sizes of two groups differ by at most one, and writes for every shard
  the group that holds it into the array.
\<close>

theorem rebalance_balances:
  assumes "is_map gs" and "gs \<noteq> []" and "shards_of gs = mset allShards" and "length xs = NShards"
  shows "\<exists>gs' xs'. rebalanceL gs xs = Inr (gs', xs') \<and> keys gs' = keys gs \<and>
    shards_of gs' = mset allShards \<and> balanced gs' \<and>
    (\<forall>i < NShards. \<forall>g. xs' ! i = g \<longleftrightarrow> int i \<in> set (getd gs' g))"
proof -
  obtain gs' xs' where "rebalanceL gs xs = Inr (gs', xs')" "keys gs' = keys gs"
    "shards_of gs' = mset allShards" "balanced gs'" "owned gs' xs'"
    using rebalanceL_correct [OF assms] by blast
  with owned_iff show ?thesis by blast
qed

theorem rebalance_balances_witness:
  "\<exists>gs' xs'. rebalanceL [(1, allShards), (2, []), (3, [])] (replicate NShards 0) = Inr (gs', xs') \<and>
     keys gs' = {1, 2, 3} \<and> balanced gs'"
proof -
  have "shards_of [(1, allShards), (2, []), (3, [])] = mset allShards"
    by (simp add: shards_of_def total_def getd_def)
  then show ?thesis
    using rebalance_balances [of "[(1, allShards), (2, []), (3, [])]" "replicate NShards 0"]
    by (auto simp: is_map_def)
qed

subsection \<open>Replicas agree whatever the order of their maps\<close>

definition same_config :: "Config \<Rightarrow> Config \<Rightarrow> bool" where
  "same_config c c' \<longleftrightarrow> Num c = Num c' \<and> Shards c = Shards c' \<and> same_map (Groups c) (Groups c')"

fun same_state :: "cstate \<Rightarrow> cstate \<Rightarrow> bool" where
  "same_state (cs, gs) (cs', gs') \<longleftrightarrow> list_all2 same_config cs cs' \<and> same_map gs gs'"

definition same_request :: "Op \<Rightarrow> Op \<Rightarrow> bool" where
  "same_request op op' \<longleftrightarrow> OpType op = OpType op' \<and> same_map (Servers op) (Servers op') \<and>
     GIDs op = GIDs op' \<and> Shard op = Shard op' \<and> GID op = GID op' \<and> op_Num op = op_Num op'"

lemma same_map_add:
  assumes "same_map m m'" and "same_map ms ms'"
  shows "same_map (fold (\<lambda>(k, v). AList.update k (f v)) ms m) (fold (\<lambda>(k, v). AList.update k (f v)) ms' m')"
  using assms addGroups [of m f ms] addGroups [of m' f ms'] map_of_add [of ms f m] map_of_add [of ms' f m']
  by (simp add: same_map_def)

lemma same_map_copy: "same_map m m' \<Longrightarrow>
    same_map (fold (\<lambda>(k, v). AList.update k v) m []) (fold (\<lambda>(k, v). AList.update k v) m' [])"
  using same_map_add [of "[]" "[]" m m' "\<lambda>v. v"] by (simp add: same_map_def is_map_def)

lemma same_map_refl: "is_map m \<Longrightarrow> same_map m m"
  by (simp add: same_map_def)

lemma same_map_Nil: "same_map m m' \<Longrightarrow> m = [] \<longleftrightarrow> m' = []"
  using same_mapD(6) by fastforce

lemma makeNewConfigL_same:
  assumes "list_all2 same_config cs cs'" and "makeNewConfigL cs = Inr c"
  shows "\<exists>c'. makeNewConfigL cs' = Inr c' \<and> same_config c c'"
proof -
  have len: "length cs = length cs'" by (rule list_all2_lengthD [OF assms(1)])
  from assms(2) obtain cur where cur: "idx cs (nowL cs) = Inr cur"
    "c = \<lparr>Num = nowL cs + 1, Shards = Shards cur, Groups = fold (\<lambda>(k, v). AList.update k v) (Groups cur) []\<rparr>"
    by (auto simp: makeNewConfigL_def)
  then have "cs \<noteq> []" by (auto simp: idx_def nowL_def)
  then have ne: "cs \<noteq> []" "cs' \<noteq> []" "cur = last cs" using len cur(1) idx_last [of cs] by auto
  have "same_config (last cs) (last cs')"
    using assms(1) len ne by (simp add: last_conv_nth list_all2_conv_all_nth)
  then show ?thesis
    using cur ne len idx_last [OF ne(2)]
    by (auto simp: makeNewConfigL_def same_config_def same_map_copy nowL_def)
qed

lemma rebalanceL_same:
  assumes "same_map gs gs'" and "gs \<noteq> []" and "shards_of gs = mset allShards" and "length xs = NShards"
    and "rebalanceL gs xs = Inr (gs1, ys)"
  shows "\<exists>gs1'. rebalanceL gs' xs = Inr (gs1', ys) \<and> same_map gs1 gs1'"
proof -
  have sh': "shards_of gs' = mset allShards" using same_map_shards [OF assms(1)] assms(3) by simp
  have ne': "gs' \<noteq> []" using same_map_Nil [OF assms(1)] assms(2) by simp
  obtain gs2 zs where r: "rebalanceL gs' xs = Inr (gs2, zs)" "owned gs2 zs" "shards_of gs2 = mset allShards"
    using rebalanceL_correct [OF same_mapD(2) [OF assms(1)] ne' sh' assms(4)] by blast
  have o: "owned gs1 ys" "shards_of gs1 = mset allShards"
    using rebalanceL_correct [OF same_mapD(1) [OF assms(1)] assms(2-4)] assms(5) by auto
  have "size (shards_of gs) \<le> NShards" using assms(3) by (simp add: allShards_def)
  then have same: "same_map gs1 gs2"
    using rebalanceLoop_same [OF assms(1)] assms(5) r(1) by (auto simp: rebalanceL_def Let_def)
  have "ys = zs"
  proof (rule nth_equalityI)
    show "length ys = length zs" using o r by (simp add: owned_def)
    fix i assume "i < length ys"
    then have i: "i < NShards" using o by (simp add: owned_def)
    show "ys ! i = zs ! i"
      using owned_iff [OF o i, of "zs ! i"] owned_iff [OF r(2,3) i, of "zs ! i"] same_map_getd [OF same]
      by simp
  qed
  with r(1) same show ?thesis by blast
qed

lemma map_of_takeShard:
  assumes "is_map gs" and "\<And>a b. s \<in> set (getd gs a) \<Longrightarrow> s \<in> set (getd gs b) \<Longrightarrow> a = b"
  shows "map_of (takeShard s gs) = (\<lambda>g. map_option (remove1 s) (map_of gs g))"
  using assms
proof (induction s gs rule: takeShard.induct)
  case (2 s gid shards gs)
  have k: "map_of gs gid = None" "is_map gs"
    using "2.prems"(1) by (auto simp: is_map_def map_of_eq_None_iff)
  have other: "getd gs a = getd ((gid, shards) # gs) a" if "a \<noteq> gid" for a
    using that by (simp add: getd_def)
  have none: "getd gs gid = []" using k(1) by (simp add: getd_def)
  show ?case
  proof (cases "s \<in> set shards")
    case True
    have "s \<notin> set ss" if "map_of gs g = Some ss" for g ss
    proof
      assume "s \<in> set ss"
      moreover have "g \<noteq> gid" using that k(1) by auto
      ultimately show False
        using "2.prems"(2) [of gid g] True that by (simp add: getd_def)
    qed
    then have "map_option (remove1 s) (map_of gs g) = map_of gs g" for g
      by (cases "map_of gs g") (auto simp: remove1_idem)
    with True show ?thesis by (auto simp: fun_eq_iff)
  next
    case False
    have "a = b" if "s \<in> set (getd gs a)" "s \<in> set (getd gs b)" for a b
      using that none other [of a] other [of b] "2.prems"(2) [of a b]
      by (cases "a = gid"; cases "b = gid") auto
    with "2.IH" [OF False k(2)] False show ?thesis by (auto simp: fun_eq_iff remove1_idem)
  qed
qed (simp add: fun_eq_iff)

lemma new_config_same:
  assumes "good (cs, gs)" and "same_state (cs, gs) (cs', gs')"
  obtains c c' where "makeNewConfigL cs = Inr c" "makeNewConfigL cs' = Inr c'" "same_config c c'"
    "Shards c = Shards (last cs)" "is_map (Groups c)" "keys (Groups c) = keys gs"
    "cs \<noteq> []" "cs' \<noteq> []" "same_config (last cs) (last cs')"
proof -
  note S = assms(2) [simplified] and G = assms(1) [unfolded good.simps]
  have "cs \<noteq> []" using G by blast
  moreover have len: "length cs = length cs'" using S by (blast dest: list_all2_lengthD)
  ultimately have ne: "cs \<noteq> []" "cs' \<noteq> []" by (metis length_0_conv)+
  have last: "same_config (last cs) (last cs')"
    using S ne len by (simp add: last_conv_nth list_all2_conv_all_nth)
  obtain c where c: "makeNewConfigL cs = Inr c" "Shards c = Shards (last cs)"
    "is_map (Groups c)" "keys (Groups c) = keys gs"
    using makeNewConfigL_good [OF assms(1)] by force
  moreover obtain c' where "makeNewConfigL cs' = Inr c'" "same_config c c'"
    using makeNewConfigL_same [OF _ c(1)] S by blast
  ultimately show ?thesis using that ne last by blast
qed

lemma applyJoinL_same:
  assumes "good (cs, gs)" and "same_state (cs, gs) (cs', gs')" and "same_map (Servers op) (Servers op')"
    and "keys (Servers op) \<inter> keys gs = {}" and "gs = [] \<longrightarrow> Servers op \<noteq> []"
    and "applyJoinL op (cs, gs) = Inr st"
  shows "\<exists>st'. applyJoinL op' (cs', gs') = Inr st' \<and> same_state st st'"
proof -
  note S = assms(2) [simplified] and G = assms(1) [unfolded good.simps]
  obtain c c' where c: "makeNewConfigL cs = Inr c" "Shards c = Shards (last cs)"
    and c': "makeNewConfigL cs' = Inr c'" "same_config c c'"
    and ne: "cs \<noteq> []" "cs' \<noteq> []" and last: "same_config (last cs) (last cs')"
    using new_config_same [OF assms(1,2)] by metis
  let ?add = "\<lambda>op gs. fold (\<lambda>(k, v). AList.update k []) (Servers op) gs"
  let ?start = "\<lambda>cs gs. if Groups (last cs) = [] then AList.update (fst (findMinMaxGidL gs)) allShards gs else gs"
  have e: "Groups (last cs) = [] \<longleftrightarrow> gs = []" using G keys_empty_iff by metis
  have e': "Groups (last cs') = [] \<longleftrightarrow> Groups (last cs) = []"
    using last same_map_Nil by (auto simp: same_config_def)
  have s1: "same_map (?add op gs) (?add op' gs')" using same_map_add [OF _ assms(3), of gs gs' "\<lambda>_. []"] S by simp
  have sh: "shards_of (?add op gs) = shards_of gs"
    using assms(4) getd_outside by (intro addGroups_shards) blast
  have k: "keys (?add op gs) = keys gs \<union> keys (Servers op)" using addGroups [of gs "\<lambda>_. []"] G by auto
  have ne1: "?add op gs \<noteq> []" using k assms(5) keys_empty_iff by (metis Un_empty)
  have sz: "size (shards_of (?add op gs)) \<le> NShards"
    using sh G by (cases "gs = []") (auto simp: shards_of_def total_def allShards_def)
  have s2: "same_map (?start cs (?add op gs)) (?start cs' (?add op' gs'))"
    using s1 e' findMinMaxGidL_same [OF s1 sz] by (simp add: same_map_update)
  have full: "shards_of (?start cs (?add op gs)) = mset allShards"
  proof (cases "gs = []")
    case True
    then have z: "shards_of (?add op gs) = {#}" using sh by (simp add: shards_of_def total_def)
    have "getd (?add op gs) k = []" for k using z shards_of_getd [of "?add op gs" k] by simp
    then show ?thesis
      using True e z shards_of_update [of "fst (findMinMaxGidL (?add op gs))" allShards "?add op gs"] by simp
  next
    case False
    with e sh G show ?thesis by simp
  qed
  have ne2: "?start cs (?add op gs) \<noteq> []" using ne1 keys_empty_iff [of "?start cs (?add op gs)"] by auto
  obtain gs3 ys where r: "rebalanceL (?start cs (?add op gs)) (Shards c) = Inr (gs3, ys)"
    and st: "st = (cs @ [c\<lparr>Groups := fold (\<lambda>(k, v). AList.update k v) (Servers op) (Groups c), Shards := ys\<rparr>], gs3)"
    using assms(6) c(1) ne by (auto simp: applyJoinL_def idx_last Let_def split: if_splits)
  have "length (Shards c) = NShards" using c(2) G by simp
  from rebalanceL_same [OF s2 ne2 full this r] obtain gs3' where
    r': "rebalanceL (?start cs' (?add op' gs')) (Shards c) = Inr (gs3', ys)" "same_map gs3 gs3'" by blast
  have g: "same_map (fold (\<lambda>(k, v). AList.update k v) (Servers op) (Groups c))
      (fold (\<lambda>(k, v). AList.update k v) (Servers op') (Groups c'))"
    using same_map_add [OF _ assms(3), of "Groups c" "Groups c'" "\<lambda>v. v"] c'(2) by (simp add: same_config_def)
  have "applyJoinL op' (cs', gs') = Inr (cs' @ [c'\<lparr>Groups := fold (\<lambda>(k, v). AList.update k v) (Servers op') (Groups c'),
      Shards := ys\<rparr>], gs3')"
    using r'(1) c' ne by (simp add: applyJoinL_def idx_last same_config_def)
  then show ?thesis
    using st r'(2) S c'(2) g by (auto simp: same_config_def intro: list_all2_appendI)
qed

lemma leave_fold_same:
  assumes "same_map groups groups'" and "same_map removed removed'" and "same_map gs gs'"
    and "fold leaveStep gids (groups, removed, gs) = (groups1, removed1, gs1)"
  shows "\<exists>groups1' removed1' gs1'. fold leaveStep gids (groups', removed', gs') = (groups1', removed1', gs1') \<and>
    same_map groups1 groups1' \<and> same_map removed1 removed1' \<and> same_map gs1 gs1'"
  using assms
proof (induction gids arbitrary: groups removed gs groups' removed' gs')
  case (Cons g gids)
  have "getd gs' g = getd gs g" using same_map_getd [OF Cons.prems(3)] by simp
  then show ?case
    using Cons.IH [OF same_map_delete [OF Cons.prems(1), of g] same_map_update [OF Cons.prems(2), of g "getd gs g"]
        same_map_delete [OF Cons.prems(3), of g]] Cons.prems(4) by (simp add: leaveStep_def)
qed auto

lemma sort_concat_same:
  assumes "same_map m m'"
  shows "sort (concat (map snd m)) = sort (concat (map snd m' :: int list list))"
proof -
  have "mset (concat (map snd m)) = mset (concat (map snd m'))"
    using mset_concat_map same_mapD(1,2) [OF assms] same_map_shards [OF assms] by metis
  then show ?thesis by (metis mset_sort properties_for_sort sorted_sort)
qed

lemma applyLeaveL_same:
  assumes "good (cs, gs)" and "same_state (cs, gs) (cs', gs')" and "GIDs op' = GIDs op"
    and "distinct (GIDs op)" and "applyLeaveL op (cs, gs) = Inr st"
  shows "\<exists>st'. applyLeaveL op' (cs', gs') = Inr st' \<and> same_state st st'"
proof -
  note S = assms(2) [simplified] and G = assms(1) [unfolded good.simps]
  obtain c c' where c: "makeNewConfigL cs = Inr c" "Shards c = Shards (last cs)"
      "is_map (Groups c)" "keys (Groups c) = keys gs"
    and c': "makeNewConfigL cs' = Inr c'" "same_config c c'"
    using new_config_same [OF assms(1,2)] by metis
  obtain groups removed gs1 where f: "fold leaveStep (GIDs op) (Groups c, [], gs) = (groups, removed, gs1)"
    and f1: "is_map gs1" "is_map removed" "keys groups = keys gs - set (GIDs op)" "keys gs1 = keys gs - set (GIDs op)"
      "shards_of removed + shards_of gs1 = shards_of gs"
    using leave_fold [OF assms(4) c(3), of "[]" gs] G c(4) by (auto simp: is_map_def shards_of_def total_def)
  obtain groups' removed' gs1' where f': "fold leaveStep (GIDs op) (Groups c', [], gs') = (groups', removed', gs1')"
    and same: "same_map groups groups'" "same_map removed removed'" "same_map gs1 gs1'"
    using leave_fold_same [OF _ _ _ f, of "Groups c'" "[]" gs'] c'(2) S by (auto simp: same_config_def same_map_def is_map_def)
  show ?thesis
  proof (cases "groups = []")
    case True
    then show ?thesis
      using assms(3,5) c(1) c' f f' same S same_map_Nil [OF same(1)]
      by (auto simp: applyLeaveL_def Let_def same_config_def intro!: list_all2_appendI)
  next
    case False
    have ne: "gs1 \<noteq> []" using f1(3,4) False keys_empty_iff by metis
    then have "gs \<noteq> []" using f1(4) keys_empty_iff by (metis empty_Diff)
    then have all: "shards_of removed + shards_of gs1 = mset allShards" using f1(5) G by simp
    then have "size (shards_of gs1) \<le> size (mset allShards)" by (metis size_union le_add2)
    then have sz: "size (shards_of gs1) \<le> NShards" by (simp add: allShards_def)
    define g where "g = fst (findMinMaxGidL gs1)"
    have g': "fst (findMinMaxGidL gs1') = g" using findMinMaxGidL_same [OF same(3) sz] by (simp add: g_def)
    define sh where "sh = sort (concat (map snd removed))"
    have sh': "sort (concat (map snd removed')) = sh" using sort_concat_same [OF same(2)] by (simp add: sh_def)
    let ?gs2 = "AList.update g (getd gs1 g @ sh) gs1" and ?gs2' = "AList.update g (getd gs1' g @ sh) gs1'"
    have s2: "same_map ?gs2 ?gs2'" using same(3) same_map_getd [OF same(3)] by (simp add: same_map_update)
    have full: "shards_of ?gs2 = mset allShards"
      using shards_of_update [of g "getd gs1 g @ sh" gs1] all mset_concat_map [OF f1(2)] by (simp add: sh_def ac_simps)
    obtain gs3 ys where r: "rebalanceL ?gs2 (Shards c) = Inr (gs3, ys)"
      and st: "st = (cs @ [c\<lparr>Groups := groups, Shards := ys\<rparr>], gs3)"
      using assms(5) c(1) f False by (auto simp: applyLeaveL_def g_def sh_def Let_def)
    have len: "length (Shards c) = NShards" using c(2) G by simp
    have ne2: "?gs2 \<noteq> []" using keys_empty_iff [of ?gs2] by auto
    obtain gs3' where r': "rebalanceL ?gs2' (Shards c) = Inr (gs3', ys)" "same_map gs3 gs3'"
      using rebalanceL_same [OF s2 ne2 full len r] by blast
    have "applyLeaveL op' (cs', gs') = Inr (cs' @ [c'\<lparr>Groups := groups', Shards := ys\<rparr>], gs3')"
      using r'(1) c' f' False same_map_Nil [OF same(1)] assms(3) g' sh'
      by (simp add: applyLeaveL_def same_config_def)
    then show ?thesis
      using st r'(2) S c'(2) same(1) by (auto simp: same_config_def intro: list_all2_appendI)
  qed
qed

lemma applyMoveL_same:
  assumes "good (cs, gs)" and "same_state (cs, gs) (cs', gs')" and "Shard op' = Shard op" and "GID op' = GID op"
    and "GID op \<in> keys gs" and "applyMoveL op (cs, gs) = Inr st"
  shows "\<exists>st'. applyMoveL op' (cs', gs') = Inr st' \<and> same_state st st'"
proof -
  note S = assms(2) [simplified] and G = assms(1) [unfolded good.simps]
  obtain c c' where c: "makeNewConfigL cs = Inr c" and c': "makeNewConfigL cs' = Inr c'" "same_config c c'"
    using new_config_same [OF assms(1,2)] by metis
  have sm: "same_map gs gs'" using S by simp
  have ne: "gs \<noteq> []" using assms(5) by auto
  have sh: "shards_of gs = mset allShards" "shards_of gs' = mset allShards"
    using G ne same_map_shards [OF sm] by auto
  have "same_map (takeShard (Shard op) gs) (takeShard (Shard op) gs')"
    using map_of_takeShard [of gs "Shard op"] map_of_takeShard [of gs' "Shard op"] same_mapD(1,2,4) [OF sm]
      owner_unique [OF sh(1)] owner_unique [OF sh(2)] by (simp add: same_map_def)
  note t = this
  obtain ys where y: "set_idx (Shards c) (Shard op) (GID op) = Inr ys"
    and st: "st = (cs @ [c\<lparr>Shards := ys\<rparr>],
      AList.update (GID op) (getd (takeShard (Shard op) gs) (GID op) @ [Shard op]) (takeShard (Shard op) gs))"
    using assms(6) c by (auto simp: applyMoveL_def Let_def)
  have "Shards c' = Shards c" using c'(2) by (simp add: same_config_def)
  then have "applyMoveL op' (cs', gs') = Inr (cs' @ [c'\<lparr>Shards := ys\<rparr>],
      AList.update (GID op) (getd (takeShard (Shard op) gs') (GID op) @ [Shard op]) (takeShard (Shard op) gs'))"
    using c'(1) y assms(3,4) by (simp add: applyMoveL_def Let_def)
  then show ?thesis
    using st S c'(2) same_map_update [OF t] same_map_getd [OF t]
    by (auto simp: same_config_def intro: list_all2_appendI)
qed

lemma applyQueryL_same:
  assumes "list_all2 same_config cs cs'" and "applyQueryL op (cs, gs) = Inr c" and "op_Num op' = op_Num op"
  shows "\<exists>c'. applyQueryL op' (cs', gs') = Inr c' \<and> same_config c c'"
proof -
  have len: "length cs' = length cs" using list_all2_lengthD [OF assms(1)] by simp
  have "\<exists>c'. idx cs' i = Inr c' \<and> same_config c c'" if "idx cs i = Inr c" for i
    using that assms(1) len by (auto simp: idx_def list_all2_conv_all_nth nat_less_iff split: if_splits)
  then show ?thesis using assms(2,3) len by (auto simp: applyQueryL_def nowL_def split: if_splits)
qed

text \<open>
  C15: replicas stay equal. Go's maps iterate in an unspecified order, and so may hold the same
  groups in another order on another replica, and get the servers of a Join in another order.
  Applied to states that agree up to those orders, an operation gives states that agree up
  to those orders, with equal shard arrays and equal answers to queries: the comment
  "should be deterministic" is kept.
\<close>

theorem ctrler_deterministic:
  assumes "good (cs, gs)" and "valid_op op (cs, gs)"
    and "same_state (cs, gs) (cs', gs')" and "same_request op op'"
  shows "\<exists>c st c' st'. switchL op (cs, gs) = Inr (c, st) \<and> switchL op' (cs', gs') = Inr (c', st') \<and>
    same_state st st' \<and> same_config c c'"
proof -
  note R = assms(4) [unfolded same_request_def]
  obtain c st where r: "switchL op (cs, gs) = Inr (c, st)"
    using ctrler_operations_total [OF assms(1,2)] by blast
  have zero: "same_config zeroConfig zeroConfig" by (simp add: same_config_def zeroConfig_def same_map_def is_map_def)
  consider "OpType op = opJoin" | "OpType op = opLeave" | "OpType op = opMove" | "OpType op = opQuery"
    | "OpType op \<notin> {opJoin, opLeave, opMove, opQuery}" by blast
  then show ?thesis
  proof cases
    case 1
    with r have a: "applyJoinL op (cs, gs) = Inr st" "c = zeroConfig" by (auto simp: switchL_def)
    from applyJoinL_same [OF assms(1,3) _ _ _ a(1), of op'] assms(2) 1 R
    obtain st' where "applyJoinL op' (cs', gs') = Inr st'" "same_state st st'" by auto
    with 1 r a(2) R zero show ?thesis by (auto simp: switchL_def)
  next
    case 2
    with r ctrler_op_kinds have a: "applyLeaveL op (cs, gs) = Inr st" "c = zeroConfig" by (auto simp: switchL_def)
    from applyLeaveL_same [OF assms(1,3) _ _ a(1), of op'] assms(2) 2 R
    obtain st' where "applyLeaveL op' (cs', gs') = Inr st'" "same_state st st'" by auto
    with 2 r a(2) R ctrler_op_kinds zero show ?thesis by (auto simp: switchL_def)
  next
    case 3
    with r ctrler_op_kinds have a: "applyMoveL op (cs, gs) = Inr st" "c = zeroConfig" by (auto simp: switchL_def)
    from applyMoveL_same [OF assms(1,3) _ _ _ a(1), of op'] assms(2) 3 R
    obtain st' where "applyMoveL op' (cs', gs') = Inr st'" "same_state st st'" by auto
    with 3 r a(2) R ctrler_op_kinds zero show ?thesis by (auto simp: switchL_def)
  next
    case 4
    with r ctrler_op_kinds have a: "applyQueryL op (cs, gs) = Inr c" "st = (cs, gs)" by (auto simp: switchL_def)
    from applyQueryL_same [OF _ a(1), of cs' op' gs'] assms(3) R
    obtain c' where "applyQueryL op' (cs', gs') = Inr c'" "same_config c c'" by auto
    with 4 r a(2) R ctrler_op_kinds assms(3) show ?thesis by (auto simp: switchL_def)
  next
    case 5
    with r R assms(3) zero show ?thesis by (auto simp: switchL_def)
  qed
qed

theorem ctrler_deterministic_witness:
  "\<exists>c st c' st'. switchL join12 ([zeroConfig], []) = Inr (c, st) \<and>
     switchL (join12\<lparr>Servers := [(2, [''b'']), (1, [''a''])]\<rparr>) ([zeroConfig], []) = Inr (c', st') \<and> same_state st st'"
proof -
  have "same_state ([zeroConfig], []) ([zeroConfig], [])"
    by (simp add: same_config_def zeroConfig_def same_map_def is_map_def)
  moreover have "same_request join12 (join12\<lparr>Servers := [(2, [''b'']), (1, [''a''])]\<rparr>)"
    by (auto simp: same_request_def join12_def zeroOp_def same_map_def is_map_def)
  ultimately show ?thesis using ctrler_deterministic [OF good_start join12_valid] by blast
qed

subsection \<open>Exactly once\<close>

definition sessionOps :: "ShardCtrler \<Rightarrow> int \<rightharpoonup> int" where
  "sessionOps sc = (\<lambda>c. case lastOps sc c of
     Some lo \<Rightarrow> if ClientId (lo_op lo) = c then Some (OpId (lo_op lo)) else None | None \<Rightarrow> None)"

definition execL :: "Op \<Rightarrow> cstate \<Rightarrow> cstate go" where
  "execL op st = gbind (switchL op st) (\<lambda>(c, st). gbind (logGidShardsL st) (\<lambda>_. Inr st))"

definition stepL :: "Op \<Rightarrow> ShardCtrler \<Rightarrow> ShardCtrler go" where
  "stepL op sc = gbind (applyOpL op sc) (\<lambda>(r, sc). Inr sc)"

definition cstate :: "ShardCtrler \<Rightarrow> cstate" where
  "cstate sc = (configs sc, gidShards sc)"

lemma ctrler_sameLastOp_iff: "sameLastOp op sc = None \<longleftrightarrow> sessionOps sc (ClientId op) \<noteq> Some (OpId op)"
  by (auto simp: sameLastOp_def sessionOps_def isSame_def split: option.splits)

lemma stepL_skip: "sessionOps sc (ClientId op) = Some (OpId op) \<Longrightarrow> stepL op sc = Inr sc"
  using ctrler_sameLastOp_iff [of op sc] by (auto simp: stepL_def applyOpL_def)

lemma stepL_run:
  assumes "sessionOps sc (ClientId op) \<noteq> Some (OpId op)"
  shows "stepL op sc = gbind (switchL op (cstate sc)) (\<lambda>(config, cs, gs).
     gbind (logGidShardsL (cs, gs)) (\<lambda>_. Inr (sc\<lparr>configs := cs, gidShards := gs,
       lastOps := (lastOps sc)(ClientId op \<mapsto> \<lparr>lo_op = op, queryResult = config\<rparr>)\<rparr>)))"
  using assms ctrler_sameLastOp_iff [of op sc]
  by (auto simp: stepL_def applyOpL_def cstate_def gbind_def Let_def split: sum.splits)

interpretation ctrler: session_service ClientId OpId execL stepL cstate sessionOps
proof unfold_locales
  fix sc op
  show "\<exists>sv'. stepL op sc = Inr sv' \<and> cstate sv' = cstate sc \<and> sessionOps sv' = sessionOps sc"
    if "sessionOps sc (ClientId op) = Some (OpId op)" using stepL_skip [OF that] by blast
  show "execL op (cstate sc) = Inl e"
    if "sessionOps sc (ClientId op) \<noteq> Some (OpId op)" "stepL op sc = Inl e" for e
    using that(2) unfolding stepL_run [OF that(1)] execL_def
    by (auto simp: gbind_def split: sum.splits)
  show "execL op (cstate sc) = Inr (cstate sc') \<and> sessionOps sc' = (sessionOps sc)(ClientId op \<mapsto> OpId op)"
    if "sessionOps sc (ClientId op) \<noteq> Some (OpId op)" "stepL op sc = Inr sc'" for sc'
    using that(2) unfolding stepL_run [OF that(1)] execL_def
    by (auto simp: cstate_def sessionOps_def fun_eq_iff)
qed

text \<open>
  Exactly once. A controller that starts with an empty session table and applies a log in
  which each client repeats a request only before its next one ends with the configurations
  that result from executing every request once, in the order of first occurrences.
\<close>

theorem ctrler_exactly_once:
  assumes "lastOps sc = Map.empty" and "in_order ClientId OpId ops" and "run stepL ops sc = Inr sc'"
  shows "run execL (firsts ClientId OpId {} ops) (configs sc, gidShards sc) = Inr (configs sc', gidShards sc')"
proof -
  have "sessionOps sc = Map.empty" using assms(1) by (simp add: sessionOps_def)
  from ctrler.exactly_once [OF this assms(2,3)] show ?thesis by (simp add: cstate_def)
qed

definition sc0 :: ShardCtrler where
  "sc0 = \<lparr>sc_me = 0, sc_rf = projr (Make \<lparr>now = 0, rand = 0\<rparr> \<lparr>now = 0, rand = 0\<rparr> 3 0 MakePersister),
     configs = [zeroConfig], gidShards = [], lastOps = Map.empty, resultChans = Map.empty, chans = 0\<rparr>"

theorem ctrler_exactly_once_witness:
  "\<exists>sc'. run stepL [join12, join12] sc0 = Inr sc' \<and>
     run execL [join12] ([zeroConfig], []) = Inr (configs sc', gidShards sc')"
proof -
  have l: "lastOps sc0 = Map.empty" "cstate sc0 = ([zeroConfig], [])" by (simp_all add: sc0_def cstate_def)
  obtain c cs gs where sw: "switchL join12 (cstate sc0) = Inr (c, cs, gs)" "logGidShardsL (cs, gs) = Inr ()"
    using ctrler_operations_total [OF good_start join12_valid] l(2) by force
  let ?sc = "sc0\<lparr>configs := cs, gidShards := gs,
    lastOps := (lastOps sc0)(ClientId join12 \<mapsto> \<lparr>lo_op = join12, queryResult = c\<rparr>)\<rparr>"
  have 1: "stepL join12 sc0 = Inr ?sc" using stepL_run [of sc0 join12] sw l(1) by (simp add: sessionOps_def)
  have 2: "stepL join12 ?sc = Inr ?sc" by (rule stepL_skip) (simp add: sessionOps_def)
  have r: "run stepL [join12, join12] sc0 = Inr ?sc" using 1 2 by simp
  have "in_order ClientId OpId [join12, join12]" by (simp add: same_op_def)
  from ctrler_exactly_once [OF l(1) this r] r l(2) show ?thesis by (auto simp: cstate_def)
qed

subsection \<open>Arguments that end the process\<close>

lemma length_keys: "is_map m \<Longrightarrow> length m = card (keys m)"
  using distinct_card [of "map fst m"] by (simp add: is_map_def keys_def)

text \<open>
  Four requests that end every replica, since each applies the same log. A Move to a group
  that has not joined, or a Join of no groups as the first one, makes \<open>gidShards\<close> differ from the
  groups, which is fatal; a Move of a shard that does not exist and a Query for a number below
  -1 index out of range.
\<close>

theorem ctrler_fatal_requests:
  assumes "good (cs, gs)"
  shows "(OpType op = opMove \<and> 0 \<le> Shard op \<and> Shard op < int NShards \<and> GID op \<notin> keys gs \<longrightarrow>
      execL op (cs, gs) = Inl (LogFatal ''Groups != gidShards!!!'')) \<and>
    (OpType op = opMove \<and> (Shard op < 0 \<or> int NShards \<le> Shard op) \<longrightarrow>
      execL op (cs, gs) = Inl IndexOutOfRange) \<and>
    (OpType op = opQuery \<and> op_Num op < -1 \<longrightarrow> execL op (cs, gs) = Inl IndexOutOfRange) \<and>
    (OpType op = opJoin \<and> gs = [] \<and> Servers op = [] \<longrightarrow>
      execL op (cs, gs) = Inl (LogFatal ''Groups != gidShards!!!''))"
proof -
  note G = assms [unfolded good.simps]
  obtain groups where c: "makeNewConfigL cs = Inr \<lparr>Num = int (length cs), Shards = Shards (last cs), Groups = groups\<rparr>"
    "is_map groups" "keys groups = keys gs" using makeNewConfigL_good [OF assms] by blast
  have L: "length groups = card (keys gs)" using length_keys [OF c(2)] c(3) by simp
  have ne: "cs \<noteq> []" and xs: "length (Shards (last cs)) = NShards" using G by auto
  have log: "logGidShardsL (cs @ [d], gs') = Inl (LogFatal ''Groups != gidShards!!!'')"
    if "length (Groups d) \<noteq> length gs'" for d gs'
    using that by (simp add: logGidShardsL_def idx_last)
  have move: "execL op (cs, gs) = Inl (LogFatal ''Groups != gidShards!!!'')"
    if "OpType op = opMove" "0 \<le> Shard op" "Shard op < int NShards" "GID op \<notin> keys gs"
  proof -
    let ?gs = "AList.update (GID op) (getd (takeShard (Shard op) gs) (GID op) @ [Shard op]) (takeShard (Shard op) gs)"
    have "is_map ?gs" "keys ?gs = insert (GID op) (keys gs)" using G by auto
    then have "length ?gs = Suc (card (keys gs))" using length_keys [of ?gs] that(4) by simp
    then show ?thesis
      using that c(1) L xs ctrler_op_kinds by (simp add: execL_def switchL_def applyMoveL_def Let_def log)
  qed
  have move_shard: "execL op (cs, gs) = Inl IndexOutOfRange"
    if "OpType op = opMove" "Shard op < 0 \<or> int NShards \<le> Shard op"
    using that c(1) xs ctrler_op_kinds by (auto simp: execL_def switchL_def applyMoveL_def Let_def set_idx_def)
  have query: "execL op (cs, gs) = Inl IndexOutOfRange" if "OpType op = opQuery" "op_Num op < -1"
    using that ctrler_op_kinds by (auto simp: execL_def switchL_def applyQueryL_def nowL_def idx_def)
  have join: "execL op (cs, gs) = Inl (LogFatal ''Groups != gidShards!!!'')"
    if "OpType op = opJoin" "gs = []" "Servers op = []"
  proof -
    have e: "Groups (last cs) = []" "groups = []" using G that(2) c(3) keys_empty_iff by (metis, metis)
    have "is_map [(NA, allShards)]" "shards_of [(NA, allShards)] = mset allShards"
      by (simp_all add: is_map_def shards_of_def total_def getd_def)
    then obtain gs' ys where r: "rebalanceL [(NA, allShards)] (Shards (last cs)) = Inr (gs', ys)"
      "keys gs' = {NA}"
      using rebalanceL_correct [of "[(NA, allShards)]" "Shards (last cs)"] xs by auto
    then have "gs' \<noteq> []" using keys_empty_iff [of gs'] by auto
    then show ?thesis
      using that e c(1) r(1) ne
      by (simp add: execL_def switchL_def applyJoinL_def idx_last findMinMaxGidL_def log)
  qed
  show ?thesis using move move_shard query join by blast
qed

theorem ctrler_fatal_requests_witness:
  "execL (zeroOp\<lparr>OpType := opQuery, op_Num := -2\<rparr>) ([zeroConfig], []) = Inl IndexOutOfRange \<and>
   execL (zeroOp\<lparr>OpType := opJoin\<rparr>) ([zeroConfig], []) = Inl (LogFatal ''Groups != gidShards!!!'')"
  using ctrler_fatal_requests [OF good_start, of "zeroOp\<lparr>OpType := opQuery, op_Num := -2\<rparr>"]
    ctrler_fatal_requests [OF good_start, of "zeroOp\<lparr>OpType := opJoin\<rparr>"] by (simp add: zeroOp_def)

text \<open>
  A group that joins again loses its shards. The code resets \<open>gidShards\<close> of every group in the
  request; for one that is already there its shards belong to no group from then on, so that
  later rebalancing cannot move them (the array of the configuration still names the group).
\<close>

theorem ctrler_rejoin_loses_shards:
  assumes "good (cs, gs)" and "g \<in> keys gs" and "Servers op = [(g, srv)]"
  shows "\<exists>c gs'. applyJoinL op (cs, gs) = Inr (cs @ [c], gs') \<and> keys gs' = keys gs \<and>
    shards_of gs' = mset allShards - mset (getd gs g)"
proof -
  note G = assms(1) [unfolded good.simps]
  have ne: "gs \<noteq> []" "cs \<noteq> []" using assms(2) G by auto
  then have all: "shards_of gs = mset allShards" and xs: "length (Shards (last cs)) = NShards" and im: "is_map gs"
    using G by auto
  obtain groups where c: "makeNewConfigL cs = Inr \<lparr>Num = int (length cs), Shards = Shards (last cs), Groups = groups\<rparr>"
    using makeNewConfigL_good [OF assms(1)] by blast
  let ?gs = "AList.update g [] gs"
  have sh: "shards_of ?gs = mset allShards - mset (getd gs g)"
    using shards_of_update [of g "[]" gs] all by (metis add_diff_cancel_right' add.right_neutral mset.simps(1))
  have "size (shards_of ?gs) \<le> size (mset allShards)" unfolding sh by (rule size_mset_mono) (rule diff_subset_eq_self)
  then have sz: "size (shards_of ?gs) \<le> NShards" by (simp add: allShards_def)
  have ne1: "?gs \<noteq> []" using keys_empty_iff [of ?gs] by auto
  note r = rebalanceLoop_correct [OF is_map_update [OF im] ne1 sz]
  have "0 \<le> s \<and> s < int NShards" if "(h, ss) \<in> set (rebalanceLoop ?gs)" "s \<in> set ss" for h ss s
  proof -
    have "s \<in># shards_of (rebalanceLoop ?gs)"
      using that getd_in [of "rebalanceLoop ?gs" h ss] r in_keys in_shards_of by metis
    then have "s \<in># mset allShards" using r sh by (metis in_diffD)
    then show ?thesis using set_allShards by simp
  qed
  then obtain ys where "assignAll (rebalanceLoop ?gs) (Shards (last cs)) = Inr ys"
    using assignAll_correct [of "rebalanceLoop ?gs" "Shards (last cs)"] xs by fastforce
  then have "rebalanceL ?gs (Shards (last cs)) = Inr (rebalanceLoop ?gs, ys)" by (simp add: rebalanceL_def Let_def)
  moreover have "Groups (last cs) \<noteq> []" using G ne(1) keys_empty_iff by metis
  moreover have "keys (rebalanceLoop ?gs) = keys gs" using r assms(2) by auto
  ultimately show ?thesis
    using c ne(2) assms(3) r sh by (simp add: applyJoinL_def idx_last)
qed

theorem ctrler_rejoin_loses_shards_witness:
  "\<exists>c gs'. applyJoinL (zeroOp\<lparr>OpType := opJoin, Servers := [(1, [''a''])]\<rparr>)
     ([zeroConfig, \<lparr>Num = 1, Shards = replicate NShards 1, Groups = [(1, [''a''])]\<rparr>], [(1, allShards)]) =
     Inr ([zeroConfig, \<lparr>Num = 1, Shards = replicate NShards 1, Groups = [(1, [''a''])]\<rparr>] @ [c], gs') \<and>
     shards_of gs' = {#}"
proof -
  have "shards_of [(1, allShards)] = mset allShards" by (simp add: shards_of_def total_def getd_def)
  moreover have "owned [(1, allShards)] (replicate NShards 1)"
    using set_allShards by (auto simp: owned_def getd_def)
  ultimately have "good ([zeroConfig, \<lparr>Num = 1, Shards = replicate NShards 1, Groups = [(1, [''a''])]\<rparr>], [(1, allShards)])"
    by (simp add: good.simps zeroConfig_def is_map_def less_Suc_eq nth_Cons')
  from ctrler_rejoin_loses_shards [OF this, of 1 "zeroOp\<lparr>OpType := opJoin, Servers := [(1, [''a''])]\<rparr>" "[''a'']"]
  show ?thesis by (auto simp: zeroOp_def getd_def)
qed

end
