(* ===== verification/ShardKV_Server.thy ===== *)
theory ShardKV_Server
  imports Ctrler_Server
begin

text \<open>
  The sharded key/value service of \<^verbatim>\<open>shardkv/\<close>: a server of a replica group, which
  serves the keys of some shards, gives shards away when the configuration says so and
  receives shards from other groups, and the clerk. Every stretch of code between two points
  where the lock is released is one function. Go maps are partial functions, except those over
  which the code iterates with effects in the body (\<open>gidShards\<close> and \<open>pendingHandoffs\<close>), which
  are lists. The server's Raft peer, its persister and its clerk of the controller are parts of
  its record.
\<close>

subsection \<open>Operations and replies\<close>

definition opPut :: string where "opPut = ''Put''"
definition opAppend :: string where "opAppend = ''Append''"
definition opGet :: string where "opGet = ''Get''"
definition opAddShards :: string where "opAddShards = ''AddShards''"
definition opRemoveShards :: string where "opRemoveShards = ''RemoveShards''"
definition opHandOffDone :: string where "opHandOffDone = ''HandOffDone''"

record PutAppendArgs =
  pa_Key :: string
  pa_Value :: string
  pa_Op :: string
  pa_ClientId :: int
  pa_OpId :: int

record GetArgs =
  ga_Key :: string
  ga_ClientId :: int
  ga_OpId :: int

record OpReply =
  or_Err :: Err
  or_Value :: string

record LastOp =
  lo_ClientId :: int
  lo_OpId :: int
  GetResult :: string

text \<open>
  A handoff holds a pointer to its slice of shards, and handoffs are the keys of a map: two of
  them are the same key only if their pointers are equal, whatever the slices contain. A
  pointer is an address with the slice it points to, which the code never changes; \<open>None\<close> is the
  nil pointer.
\<close>

record pointer =
  address :: nat
  slice :: "int list"

record Handoff =
  h_Gid :: int
  h_ConfigNum :: int
  h_Shards :: "pointer option"

definition sameKey :: "Handoff \<Rightarrow> Handoff \<Rightarrow> bool" where
  "sameKey h h' \<longleftrightarrow> h_Gid h = h_Gid h' \<and> h_ConfigNum h = h_ConfigNum h' \<and>
     map_option address (h_Shards h) = map_option address (h_Shards h')"

record Op =
  OpType :: string
  Key :: string
  Val :: string
  op_ConfigNum :: int
  op_Shards :: "int list"
  op_Gid :: int
  op_KVMap :: "string \<rightharpoonup> string"
  op_LastOps :: "int \<rightharpoonup> LastOp"
  op_Handoff :: Handoff
  ClientId :: int
  OpId :: int

definition zeroOp :: Op where
  "zeroOp = \<lparr>OpType = [], Key = [], Val = [], op_ConfigNum = 0, op_Shards = [], op_Gid = 0,
     op_KVMap = Map.empty, op_LastOps = Map.empty,
     op_Handoff = \<lparr>h_Gid = 0, h_ConfigNum = 0, h_Shards = None\<rparr>, ClientId = 0, OpId = 0\<rparr>"

definition isSame :: "Op \<Rightarrow> int \<Rightarrow> int \<Rightarrow> bool" where
  "isSame op clientId opId \<longleftrightarrow> ClientId op = clientId \<and> OpId op = opId"

record Result =
  res_err :: Err
  res_value :: string
  res_op :: "Op option"

record HandOffShardsArgs =
  hs_Gid :: int
  hs_Sid :: int
  hs_ConfigNum :: int
  hs_Shards :: "int list"
  hs_KVMap :: "string \<rightharpoonup> string"
  hs_LastOps :: "int \<rightharpoonup> LastOp"

record HandOffShardsReply =
  hr_Err :: Err

definition zeroReply :: OpReply where
  "zeroReply = \<lparr>or_Err = ErrNone, or_Value = []\<rparr>"

definition zeroResult :: Result where
  "zeroResult = \<lparr>res_err = ErrNone, res_value = [], res_op = None\<rparr>"

text \<open>The shard of a key: its first byte, modulo the number of shards.\<close>

definition key2shard :: "string \<Rightarrow> int" where
  "key2shard key =
     (let shard = (if length key > 0 then of_char (key ! 0) else 0) in shard mod int NShards)"

text \<open>
  \<open>copyKVMap\<close> and \<open>copyLastOps\<close> build new maps with the same entries, so that the arguments of
  an RPC do not change with the server's maps; maps are values here.
\<close>

definition copyKVMap :: "(string \<rightharpoonup> string) \<Rightarrow> string \<rightharpoonup> string" where
  "copyKVMap m = (\<lambda>k. case m k of Some v \<Rightarrow> Some v | None \<Rightarrow> None)"

definition copyLastOps :: "(int \<rightharpoonup> LastOp) \<Rightarrow> int \<rightharpoonup> LastOp" where
  "copyLastOps m = (\<lambda>k. case m k of Some v \<Rightarrow> Some v | None \<Rightarrow> None)"

subsection \<open>The server\<close>

datatype skvgob =
    GobKVMap "string \<rightharpoonup> string"
  | GobValid "int \<rightharpoonup> bool"
  | GobLastOps "int \<rightharpoonup> LastOp"
  | GobReceived "int \<rightharpoonup> int list list"
  | GobPending "Handoff list"

text \<open>\<open>heap\<close> is the next address for a pointer, \<open>chans\<close> the number of the next channel.\<close>

record ShardKV =
  kv_me :: int
  kv_gid :: int
  maxraftstate :: int
  kv_rf :: "(Op, skvgob) Raft"
  kvMap :: "string \<rightharpoonup> string"
  validShards :: "int \<rightharpoonup> bool"
  lastOps :: "int \<rightharpoonup> LastOp"
  receivedHandoffs :: "int \<rightharpoonup> int list list"
  pendingHandoffs :: "Handoff list"
  resultChans :: "int \<rightharpoonup> nat"
  ctrler :: Ctrler_Server.Clerk
  clientId :: int
  opId :: int
  chans :: nat
  heap :: nat

text \<open>Where a handler stands when it releases the lock: it has a reply, or it waits.\<close>

datatype 'r handler =
    Replied 'r
  | Waiting int nat Op

subsection \<open>Client RPC handlers\<close>

definition waitApplyL :: "int \<Rightarrow> ShardKV \<Rightarrow> nat \<times> ShardKV" where
  "waitApplyL commandIndex kv =
     (case resultChans kv commandIndex of
        Some ch \<Rightarrow> (ch, kv)
      | None \<Rightarrow> (chans kv, kv\<lparr>resultChans := (resultChans kv)(commandIndex \<mapsto> chans kv),
                              chans := chans kv + 1\<rparr>))"

definition timeoutResult :: Result where
  "timeoutResult = zeroResult\<lparr>res_err := ErrTimeout\<rparr>"

definition waitApplyEndL :: "int \<Rightarrow> Op \<Rightarrow> Result \<Rightarrow> ShardKV \<Rightarrow> (Result \<times> ShardKV) go" where
  "waitApplyEndL commandIndex op result kv =
     (let kv = kv\<lparr>resultChans := (resultChans kv)(commandIndex := None)\<rparr> in
      if res_err result = OK then
        (case res_op result of
           None \<Rightarrow> Inl NilDereference
         | Some op' \<Rightarrow>
             Inr (if \<not> isSame op (ClientId op') (OpId op')
                  then result\<lparr>res_err := ErrNotApplied\<rparr> else result, kv))
      else Inr (result, kv))"

definition sameLastOp :: "Op \<Rightarrow> ShardKV \<Rightarrow> LastOp option" where
  "sameLastOp op kv =
     (case lastOps kv (ClientId op) of
        Some lastOp \<Rightarrow> if isSame op (lo_ClientId lastOp) (lo_OpId lastOp) then Some lastOp else None
      | None \<Rightarrow> None)"

definition processOpL :: "Op \<Rightarrow> ShardKV \<Rightarrow> (OpReply handler \<times> ShardKV \<times> task list) go" where
  "processOpL op kv =
     (case sameLastOp op kv of
        Some lastOp \<Rightarrow>
          Inr (Replied (zeroReply\<lparr>or_Err := OK, or_Value := GetResult lastOp\<rparr>), kv, [])
      | None \<Rightarrow>
          gbind (Start op (kv_rf kv)) (\<lambda>((commandIndex, _, isLeader), rf, tasks).
          let kv = kv\<lparr>kv_rf := rf\<rparr> in
          if \<not> isLeader then Inr (Replied (zeroReply\<lparr>or_Err := ErrWrongLeader\<rparr>), kv, tasks)
          else case waitApplyL commandIndex kv of
            (ch, kv) \<Rightarrow> Inr (Waiting commandIndex ch op, kv, tasks)))"

definition processOpEndL :: "int \<Rightarrow> Op \<Rightarrow> Result \<Rightarrow> ShardKV \<Rightarrow> (OpReply \<times> ShardKV) go" where
  "processOpEndL commandIndex op result kv =
     gbind (waitApplyEndL commandIndex op result kv) (\<lambda>(result, kv).
     Inr (\<lparr>or_Err = res_err result, or_Value = res_value result\<rparr>, kv))"

definition Get :: "GetArgs \<Rightarrow> ShardKV \<Rightarrow> (OpReply handler \<times> ShardKV \<times> task list) go" where
  "Get args kv = processOpL (zeroOp\<lparr>OpType := opGet, Key := ga_Key args,
     ClientId := ga_ClientId args, OpId := ga_OpId args\<rparr>) kv"

definition PutAppend :: "PutAppendArgs \<Rightarrow> ShardKV \<Rightarrow> (OpReply handler \<times> ShardKV \<times> task list) go" where
  "PutAppend args kv = processOpL (zeroOp\<lparr>OpType := pa_Op args, Key := pa_Key args,
     Val := pa_Value args, ClientId := pa_ClientId args, OpId := pa_OpId args\<rparr>) kv"

subsection \<open>The applier\<close>

definition valid :: "ShardKV \<Rightarrow> int \<Rightarrow> bool" where
  "valid kv shard \<longleftrightarrow> validShards kv shard = Some True"

definition notNewShardsL :: "int \<Rightarrow> int list \<Rightarrow> ShardKV \<Rightarrow> bool" where
  "notNewShardsL configNum newShards kv =
     (case receivedHandoffs kv configNum of
        None \<Rightarrow> False
      | Some shardss \<Rightarrow> list_ex (\<lambda>shards. shards = newShards) shardss)"

text \<open>The entries of the received map for the shards, over the own map.\<close>

definition addKVMap :: "int list \<Rightarrow> (string \<rightharpoonup> string) \<Rightarrow> (string \<rightharpoonup> string) \<Rightarrow> string \<rightharpoonup> string" where
  "addKVMap shards received own =
     (\<lambda>k. case received k of
            Some v \<Rightarrow> if InSlice (key2shard k) shards then Some v else own k
          | None \<Rightarrow> own k)"

text \<open>A received session entry replaces the own one if its number is larger than the one read
  from the map, which is 0 for a client without an entry.\<close>

definition addLastOps :: "(int \<rightharpoonup> LastOp) \<Rightarrow> (int \<rightharpoonup> LastOp) \<Rightarrow> int \<rightharpoonup> LastOp" where
  "addLastOps received own =
     (\<lambda>c. case received c of
            Some lastOp \<Rightarrow>
              if lo_OpId lastOp > (case own c of Some l \<Rightarrow> lo_OpId l | None \<Rightarrow> 0)
              then Some lastOp else own c
          | None \<Rightarrow> own c)"

definition applyAddShardsL :: "Op \<Rightarrow> ShardKV \<Rightarrow> ShardKV" where
  "applyAddShardsL op kv =
     (if notNewShardsL (op_ConfigNum op) (op_Shards op) kv then kv
      else kv\<lparr>receivedHandoffs := (receivedHandoffs kv)(op_ConfigNum op \<mapsto>
                (case receivedHandoffs kv (op_ConfigNum op) of Some ss \<Rightarrow> ss | None \<Rightarrow> [])
                @ [op_Shards op]),
              validShards := fold (\<lambda>shard m. m(shard \<mapsto> True)) (op_Shards op) (validShards kv),
              kvMap := addKVMap (op_Shards op) (op_KVMap op) (kvMap kv),
              lastOps := addLastOps (op_LastOps op) (lastOps kv)\<rparr>)"

definition removed :: "Op \<Rightarrow> ShardKV \<Rightarrow> bool" where
  "removed op kv = list_ex (\<lambda>shard. \<not> valid kv shard) (op_Shards op)"

text \<open>Assigning to a key of \<open>pendingHandoffs\<close>, and deleting one.\<close>

definition addHandoff :: "Handoff \<Rightarrow> Handoff list \<Rightarrow> Handoff list" where
  "addHandoff h hs = (if list_ex (sameKey h) hs then hs else hs @ [h])"

definition deleteHandoff :: "Handoff \<Rightarrow> Handoff list \<Rightarrow> Handoff list" where
  "deleteHandoff h hs = filter (\<lambda>h'. \<not> sameKey h h') hs"

definition applyRemoveShardsL :: "Op \<Rightarrow> ShardKV \<Rightarrow> ShardKV" where
  "applyRemoveShardsL op kv =
     (if removed op kv then kv
      else kv\<lparr>validShards := fold (\<lambda>shard m. m(shard := None)) (op_Shards op) (validShards kv),
              pendingHandoffs := addHandoff
                \<lparr>h_Gid = op_Gid op, h_ConfigNum = op_ConfigNum op,
                 h_Shards = Some \<lparr>address = heap kv, slice = op_Shards op\<rparr>\<rparr> (pendingHandoffs kv),
              heap := heap kv + 1\<rparr>)"

definition applyOpL :: "Op \<Rightarrow> ShardKV \<Rightarrow> Result \<times> ShardKV" where
  "applyOpL op kv =
     (case sameLastOp op kv of
        Some lastOp \<Rightarrow> (zeroResult\<lparr>res_err := OK, res_value := GetResult lastOp\<rparr>, kv)
      | None \<Rightarrow>
          if OpType op \<noteq> opAddShards \<and> OpType op \<noteq> opRemoveShards \<and> \<not> valid kv (key2shard (Key op))
          then (zeroResult\<lparr>res_err := ErrWrongGroup\<rparr>, kv)
          else
            let value = (case kvMap kv (Key op) of Some v \<Rightarrow> v | None \<Rightarrow> []);
                result = zeroResult\<lparr>res_err := OK\<rparr>;
                (result, kv) =
                  (if OpType op = opPut
                   then (result\<lparr>res_value := Val op\<rparr>, kv\<lparr>kvMap := (kvMap kv)(Key op \<mapsto> Val op)\<rparr>)
                   else if OpType op = opAppend
                   then (result\<lparr>res_value := value @ Val op\<rparr>,
                         kv\<lparr>kvMap := (kvMap kv)(Key op \<mapsto> value @ Val op)\<rparr>)
                   else if OpType op = opGet
                   then (result\<lparr>res_value := value,
                                res_err := (if value = [] then ErrNoKey else OK)\<rparr>, kv)
                   else if OpType op = opAddShards then (result, applyAddShardsL op kv)
                   else if OpType op = opRemoveShards then (result, applyRemoveShardsL op kv)
                   else if OpType op = opHandOffDone
                   then (result, kv\<lparr>pendingHandoffs := deleteHandoff (op_Handoff op) (pendingHandoffs kv)\<rparr>)
                   else (result, kv))
            in (result, kv\<lparr>lastOps := (lastOps kv)(ClientId op \<mapsto>
                  \<lparr>lo_ClientId = ClientId op, lo_OpId = OpId op, GetResult = res_value result\<rparr>)\<rparr>))"

subsection \<open>Snapshots\<close>

definition encodeSnapshot :: "ShardKV \<Rightarrow> skvgob list" where
  "encodeSnapshot kv = [GobKVMap (kvMap kv), GobValid (validShards kv), GobLastOps (lastOps kv),
     GobReceived (receivedHandoffs kv), GobPending (pendingHandoffs kv)]"

definition snapshotL :: "int \<Rightarrow> ShardKV \<Rightarrow> ShardKV go" where
  "snapshotL index kv =
     gbind (Snapshot index (encodeSnapshot kv) (kv_rf kv)) (\<lambda>rf. Inr (kv\<lparr>kv_rf := rf\<rparr>))"

text \<open>
  Decoding a value with pointers allocates new ones; gob leaves out a pointer to an empty
  slice, which is nil after decoding.
\<close>

fun gobHandoff :: "nat \<Rightarrow> Handoff \<Rightarrow> Handoff" where
  "gobHandoff a h = h\<lparr>h_Shards :=
     (case h_Shards h of
        None \<Rightarrow> None
      | Some p \<Rightarrow> if slice p = [] then None else Some \<lparr>address = a, slice = slice p\<rparr>)\<rparr>"

definition gobHandoffs :: "nat \<Rightarrow> Handoff list \<Rightarrow> Handoff list" where
  "gobHandoffs a hs = map (\<lambda>(h, i). gobHandoff (a + i) h) (zip hs [0..<length hs])"

text \<open>An operation that reaches a follower through an RPC, or a server through its persister.\<close>

definition gobOp :: "nat \<Rightarrow> Op \<Rightarrow> Op" where
  "gobOp a op = op\<lparr>op_Handoff := gobHandoff a (op_Handoff op)\<rparr>"

fun decodeSnapshot :: "skvgob list \<Rightarrow>
    ((string \<rightharpoonup> string) \<times> (int \<rightharpoonup> bool) \<times> (int \<rightharpoonup> LastOp) \<times> (int \<rightharpoonup> int list list) \<times> Handoff list) option" where
  "decodeSnapshot (GobKVMap m # GobValid v # GobLastOps l # GobReceived r # GobPending p # _) =
     Some (m, v, l, r, p)"
| "decodeSnapshot _ = None"

definition readSnapshotL :: "skvgob list \<Rightarrow> ShardKV \<Rightarrow> ShardKV go" where
  "readSnapshotL snapshot kv =
     (if length snapshot < 1 then Inr kv
      else case decodeSnapshot snapshot of
        None \<Rightarrow> Inl (LogFatal ''readSnapshotL() failed!'')
      | Some (m, v, l, r, p) \<Rightarrow>
          Inr (kv\<lparr>kvMap := m, validShards := v, lastOps := l, receivedHandoffs := r,
                  pendingHandoffs := gobHandoffs (heap kv) p, heap := heap kv + length p\<rparr>))"

definition receiveEndL ::
    "(Op gobval list \<Rightarrow> int) \<Rightarrow> (Op, skvgob) ApplyMsg \<Rightarrow> ShardKV \<Rightarrow> ShardKV go" where
  "receiveEndL bytes msg kv =
     gbind (if CommandValid msg \<and> maxraftstate kv \<noteq> NA \<and>
               RaftStateSize bytes (persister (kv_rf kv)) \<ge> maxraftstate kv
            then snapshotL (CommandIndex msg) kv else Inr kv) (\<lambda>kv.
     if SnapshotValid msg then readSnapshotL (am_Snapshot msg) kv else Inr kv)"

definition receiveMsgL ::
    "(Op gobval list \<Rightarrow> int) \<Rightarrow> (Op, skvgob) ApplyMsg \<Rightarrow> ShardKV
       \<Rightarrow> ((nat \<times> Result) option \<times> ShardKV) go" where
  "receiveMsgL bytes msg kv =
     (if CommandValid msg then
        case am_Command msg of
          None \<Rightarrow> Inl TypeAssertion
        | Some op \<Rightarrow>
            (case applyOpL op kv of (result, kv) \<Rightarrow>
             case resultChans kv (CommandIndex msg) of
               Some ch \<Rightarrow> Inr (Some (ch, result\<lparr>res_op := Some op\<rparr>), kv)
             | None \<Rightarrow> gbind (receiveEndL bytes msg kv) (\<lambda>kv. Inr (None, kv)))
      else gbind (receiveEndL bytes msg kv) (\<lambda>kv. Inr (None, kv)))"

definition Kill_skv :: "ShardKV \<Rightarrow> ShardKV" where
  "Kill_skv kv = kv\<lparr>kv_rf := Kill (kv_rf kv)\<rparr>"

subsection \<open>Reconfiguration\<close>

text \<open>
  \<open>reconfigureL\<close> up to the point where it waits: \<open>None\<close> if it returns before, otherwise what it
  waits for. The caller goes on with \<open>waitApplyEndL\<close>, whose result the code ignores.
\<close>

definition reconfigureL :: "Op \<Rightarrow> ShardKV \<Rightarrow> ((int \<times> nat \<times> Op) option \<times> ShardKV \<times> task list) go" where
  "reconfigureL op kv =
     (let op = op\<lparr>ClientId := clientId kv, OpId := opId kv\<rparr>;
          kv = kv\<lparr>opId := opId kv + 1\<rparr>
      in case sameLastOp op kv of
           Some _ \<Rightarrow> Inr (None, kv, [])
         | None \<Rightarrow>
             gbind (Start op (kv_rf kv)) (\<lambda>((commandIndex, _, isLeader), rf, tasks).
             let kv = kv\<lparr>kv_rf := rf\<rparr> in
             if \<not> isLeader then Inr (None, kv, tasks)
             else case waitApplyL commandIndex kv of
               (ch, kv) \<Rightarrow> Inr (Some (commandIndex, ch, op), kv, tasks)))"

definition addShardsL where
  "addShardsL configNum shards kvs lops =
     reconfigureL (zeroOp\<lparr>OpType := opAddShards, op_ConfigNum := configNum, op_Shards := shards,
       op_KVMap := kvs, op_LastOps := lops\<rparr>)"

definition removeShardsL where
  "removeShardsL configNum shards gid =
     reconfigureL (zeroOp\<lparr>OpType := opRemoveShards, op_ConfigNum := configNum, op_Shards := shards,
       op_Gid := gid\<rparr>)"

definition handoffDoneL where
  "handoffDoneL handoff = reconfigureL (zeroOp\<lparr>OpType := opHandOffDone, op_Handoff := handoff\<rparr>)"

text \<open>The handler of the RPC by which another group hands shards over, and its end after the wait.\<close>

definition handOffReplyL :: "HandOffShardsArgs \<Rightarrow> ShardKV \<Rightarrow> HandOffShardsReply" where
  "handOffReplyL args kv =
     \<lparr>hr_Err = (if notNewShardsL (hs_ConfigNum args) (hs_Shards args) kv then OK else ErrNone)\<rparr>"

definition HandOffShards ::
    "HandOffShardsArgs \<Rightarrow> ShardKV \<Rightarrow> (HandOffShardsReply handler \<times> ShardKV \<times> task list) go" where
  "HandOffShards args kv =
     (if \<not> snd (GetState (kv_rf kv)) then Inr (Replied \<lparr>hr_Err = ErrWrongLeader\<rparr>, kv, [])
      else if notNewShardsL (hs_ConfigNum args) (hs_Shards args) kv
      then Inr (Replied \<lparr>hr_Err = OK\<rparr>, kv, [])
      else gbind (addShardsL (hs_ConfigNum args) (hs_Shards args) (hs_KVMap args) (hs_LastOps args) kv)
        (\<lambda>(waits, kv, tasks).
         case waits of
           None \<Rightarrow> Inr (Replied (handOffReplyL args kv), kv, tasks)
         | Some (index, ch, op) \<Rightarrow> Inr (Waiting index ch op, kv, tasks)))"

definition HandOffShardsEndL ::
    "HandOffShardsArgs \<Rightarrow> int \<Rightarrow> Op \<Rightarrow> Result \<Rightarrow> ShardKV \<Rightarrow> (HandOffShardsReply \<times> ShardKV) go" where
  "HandOffShardsEndL args commandIndex op result kv =
     gbind (waitApplyEndL commandIndex op result kv) (\<lambda>(_, kv). Inr (handOffReplyL args kv, kv))"

text \<open>
  \<open>pollConfig\<close> asks the controller without the lock, collects the shards that the group has to
  give away, by the group they go to, and proposes one removal for each. The list gives what
  the loop over \<open>gidShards\<close> passes to \<open>removeShardsL\<close>.
\<close>

definition queryCtrler ::
    "int \<Rightarrow> Ctrler_Server.OpReply option list \<Rightarrow> ShardKV \<Rightarrow> (Config option \<times> ShardKV) go" where
  "queryCtrler num rs kv =
     gbind (snd (Clerk_Query num rs (ctrler kv))) (\<lambda>(config, ck). Inr (config, kv\<lparr>ctrler := ck\<rparr>))"

definition pollStep :: "ShardKV \<Rightarrow> int \<times> int \<Rightarrow> int list gomap \<Rightarrow> int list gomap" where
  "pollStep kv = (\<lambda>(shard, gid) gidShards.
     if valid kv shard \<and> gid \<noteq> kv_gid kv
     then AList.update gid (getd gidShards gid @ [shard]) gidShards else gidShards)"

definition pollConfig :: "Config \<Rightarrow> ShardKV \<Rightarrow> (int \<times> int list \<times> int) list" where
  "pollConfig config kv =
     map (\<lambda>(gid, shards). (Num config, shards, gid))
       (fold (pollStep kv) (zip (map int [0..<length (Shards config)]) (Shards config)) [])"

text \<open>
  \<open>checkPendingHandoffs\<close> goes through the pending handoffs; for each it makes the arguments,
  hands the shards off and proposes that the handoff is done (\<open>handoffDoneL\<close>).
\<close>

definition handOffArgs :: "Handoff \<Rightarrow> ShardKV \<Rightarrow> HandOffShardsArgs go" where
  "handOffArgs handoff kv =
     (case h_Shards handoff of
        None \<Rightarrow> Inl NilDereference
      | Some p \<Rightarrow> Inr \<lparr>hs_Gid = kv_gid kv, hs_Sid = kv_me kv, hs_ConfigNum = h_ConfigNum handoff,
          hs_Shards = slice p, hs_KVMap = copyKVMap (kvMap kv), hs_LastOps = copyLastOps (lastOps kv)\<rparr>)"

definition checkPendingHandoffs :: "ShardKV \<Rightarrow> (int \<times> HandOffShardsArgs go) list" where
  "checkPendingHandoffs kv = map (\<lambda>h. (h_Gid h, handOffArgs h kv)) (pendingHandoffs kv)"

text \<open>
  \<open>handOffL\<close> loops over the servers of the other group until one replies OK, and the loop does
  not return otherwise. The fuel counts rounds of the inner or outer loop, \<open>rs\<close> lists what the
  calls return; the result is the number of the server that took the shards.
\<close>

fun handOffLoop :: "nat \<Rightarrow> string list \<Rightarrow> nat \<Rightarrow> HandOffShardsReply option list \<Rightarrow> nat option" where
  "handOffLoop 0 srvs si rs = None"
| "handOffLoop (Suc fuel) srvs si rs =
     (if si < length srvs then
        (case rs of
           [] \<Rightarrow> None
         | r # rs \<Rightarrow>
             if r = Some \<lparr>hr_Err = OK\<rparr> then Some si else handOffLoop fuel srvs (si + 1) rs)
      else handOffLoop fuel srvs 0 rs)"

definition handOffL :: "nat \<Rightarrow> Config \<Rightarrow> int \<Rightarrow> HandOffShardsReply option list \<Rightarrow> nat option" where
  "handOffL fuel config gid rs = handOffLoop fuel (getd (Groups config) gid) 0 rs"

subsection \<open>Start\<close>

definition init ::
    "clock \<Rightarrow> clock \<Rightarrow> nat \<Rightarrow> int \<Rightarrow> (Op, skvgob) Persister \<Rightarrow> int \<Rightarrow> int \<Rightarrow> Ctrler_Server.Clerk \<Rightarrow> ShardKV go" where
  "init clk clk' n m ps maxstate gid ck =
     gbind (Make clk clk' n m ps) (\<lambda>rf.
     Inr \<lparr>kv_me = m, kv_gid = gid, maxraftstate = maxstate, kv_rf = rf, kvMap = Map.empty,
          validShards = Map.empty, lastOps = Map.empty, receivedHandoffs = Map.empty,
          pendingHandoffs = [], resultChans = Map.empty, ctrler = ck, clientId = - gid, opId = 0,
          chans = 0, heap = 0\<rparr>)"

text \<open>
  \<open>firstConfigL\<close> asks for configuration 1 until there is one; the list gives the answers. Then
  the group serves the shards that this configuration gives it.
\<close>

fun firstConfig :: "Config list \<Rightarrow> Config option" where
  "firstConfig [] = None"
| "firstConfig (c # cs) = (if Num c = 0 then firstConfig cs else Some c)"

definition firstConfigL :: "Config \<Rightarrow> ShardKV \<Rightarrow> ShardKV" where
  "firstConfigL config kv =
     fold (\<lambda>(shard, gid) kv. if gid = kv_gid kv
             then kv\<lparr>validShards := (validShards kv)(shard \<mapsto> True)\<rparr> else kv)
       (zip (map int [0..<length (Shards config)]) (Shards config)) kv"

definition start_kv :: "Config list \<Rightarrow> ShardKV \<Rightarrow> ShardKV option go" where
  "start_kv cs kv =
     (case firstConfig cs of
        None \<Rightarrow> Inr None
      | Some config \<Rightarrow>
          gbind (readSnapshotL (ReadSnapshot (persister (kv_rf kv))) (firstConfigL config kv))
            (\<lambda>kv. Inr (Some kv)))"

subsection \<open>The clerk\<close>

record Clerk =
  sm :: Ctrler_Server.Clerk
  config :: Config
  ck_me :: int
  groupLeaders :: "int \<rightharpoonup> int"
  nextOpId :: int

definition leaderOf :: "Clerk \<Rightarrow> int \<Rightarrow> int" where
  "leaderOf ck gid = (case groupLeaders ck gid of Some l \<Rightarrow> l | None \<Rightarrow> 0)"

definition changeLeaderL :: "int \<Rightarrow> int \<Rightarrow> Clerk \<Rightarrow> Clerk" where
  "changeLeaderL gid nServers ck =
     (let ck = ck\<lparr>groupLeaders := (groupLeaders ck)(gid \<mapsto> leaderOf ck gid + 1)\<rparr> in
      if leaderOf ck gid \<ge> nServers then ck\<lparr>groupLeaders := (groupLeaders ck)(gid \<mapsto> 0)\<rparr> else ck)"

text \<open>Asking the controller for its configuration; \<open>False\<close> while the call still tries.\<close>

definition refresh :: "Ctrler_Server.OpReply option list \<Rightarrow> Clerk \<Rightarrow> (bool \<times> Clerk) go" where
  "refresh qs ck =
     gbind (snd (Clerk_Query NA qs (sm ck))) (\<lambda>(c, sm').
     case c of
       None \<Rightarrow> Inr (False, ck\<lparr>sm := sm'\<rparr>)
     | Some c \<Rightarrow> Inr (True, ck\<lparr>sm := sm', config := c\<rparr>))"

text \<open>
  \<open>_sendOpL\<close> calls itself until a reply is accepted. Each element of the list is what one round
  gets: the reply of the group's server, \<open>None\<close> if the call fails, and the replies of the
  controller if the round asks it for a new configuration. The result is \<open>None\<close> while the
  clerk still tries.
\<close>

fun sendOpL' ::
    "string \<Rightarrow> (OpReply option \<times> Ctrler_Server.OpReply option list) list \<Rightarrow> Clerk
       \<Rightarrow> (string option \<times> Clerk) go" where
  "sendOpL' key [] ck = Inr (None, ck)"
| "sendOpL' key ((r, qs) # rs) ck =
     (let retry = (\<lambda>(got, ck). if got then sendOpL' key rs ck else Inr (None, ck)) in
      gbind (idx (Shards (config ck)) (key2shard key)) (\<lambda>gid.
      case map_of (Groups (config ck)) gid of
        Some srvs \<Rightarrow>
          let ck = (if groupLeaders ck gid = None
                    then ck\<lparr>groupLeaders := (groupLeaders ck)(gid \<mapsto> 0)\<rparr> else ck) in
          gbind (idx srvs (leaderOf ck gid)) (\<lambda>_.
          case r of
            Some reply \<Rightarrow>
              if or_Err reply = OK \<or> or_Err reply = ErrNoKey then Inr (Some (or_Value reply), ck)
              else if or_Err reply = ErrWrongGroup then gbind (refresh qs ck) retry
              else sendOpL' key rs (changeLeaderL gid (int (length srvs)) ck)
          | None \<Rightarrow> sendOpL' key rs (changeLeaderL gid (int (length srvs)) ck))
      | None \<Rightarrow> gbind (refresh qs ck) retry))"

definition sendOpL where
  "sendOpL key rs ck = sendOpL' key rs (ck\<lparr>nextOpId := nextOpId ck + 1\<rparr>)"

definition Clerk_Get where
  "Clerk_Get key rs ck =
     (\<lparr>ga_Key = key, ga_ClientId = ck_me ck, ga_OpId = nextOpId ck\<rparr>, sendOpL key rs ck)"

definition Clerk_PutAppend where
  "Clerk_PutAppend key value op rs ck =
     (\<lparr>pa_Key = key, pa_Value = value, pa_Op = op, pa_ClientId = ck_me ck,
       pa_OpId = nextOpId ck\<rparr>, sendOpL key rs ck)"

definition Clerk_Put where "Clerk_Put key value = Clerk_PutAppend key value opPut"

definition Clerk_Append where "Clerk_Append key value = Clerk_PutAppend key value opAppend"

text \<open>
  \<open>MakeClerk\<close> makes a clerk of the controller, whose package counts its clients itself, and asks it
  for the configuration; \<open>qs\<close> lists the replies. \<open>None\<close> while that call still tries.
\<close>

definition MakeClerk ::
    "nat \<Rightarrow> Ctrler_Server.OpReply option list \<Rightarrow> int \<Rightarrow> int \<Rightarrow> ((Clerk option) \<times> int \<times> int) go" where
  "MakeClerk n qs ctrlerClientId cid =
     (case Ctrler_Server.MakeClerk n ctrlerClientId of (ck, ctrlerClientId) \<Rightarrow>
      gbind (snd (Clerk_Query NA qs ck)) (\<lambda>(c, ck).
      let cid = cid + 1 in
      Inr (map_option (\<lambda>c. \<lparr>sm = ck, config = c, ck_me = cid mod 100,
                            groupLeaders = Map.empty, nextOpId = 0\<rparr>) c, ctrlerClientId, cid)))"

text \<open>\<open>StartServer\<close> makes the server with \<open>init\<close> and runs \<open>start\<close> in a goroutine.\<close>

definition StartServer where
  "StartServer clk clk' n m ps maxstate gid nctrlers ctrlerClientId =
     (case Ctrler_Server.MakeClerk nctrlers ctrlerClientId of (ck, ctrlerClientId) \<Rightarrow>
      gbind (init clk clk' n m ps maxstate gid ck) (\<lambda>kv. Inr (kv, ctrlerClientId)))"

end
