(* ===== verification/ShardKV_Groups.thy ===== *)
theory ShardKV_Groups
  imports ShardKV_Server
begin

text \<open>
  The effect of a log on the replicated state of a group, why the replicas of a group agree,
  and the groups together: a relation in which clients' operations, removals, messages between
  groups and additions interleave in any order, messages are delayed and repeated, and leaders
  act on old states. The invariant shows that the groups together behave as one map.
\<close>

subsection \<open>What an operation changes\<close>

lemma skv_op_kinds [simp]:
  "opPut \<noteq> opAppend" "opPut \<noteq> opGet" "opPut \<noteq> opAddShards" "opPut \<noteq> opRemoveShards" "opPut \<noteq> opHandOffDone"
  "opAppend \<noteq> opPut" "opAppend \<noteq> opGet" "opAppend \<noteq> opAddShards" "opAppend \<noteq> opRemoveShards" "opAppend \<noteq> opHandOffDone"
  "opGet \<noteq> opPut" "opGet \<noteq> opAppend" "opGet \<noteq> opAddShards" "opGet \<noteq> opRemoveShards" "opGet \<noteq> opHandOffDone"
  "opAddShards \<noteq> opPut" "opAddShards \<noteq> opAppend" "opAddShards \<noteq> opGet" "opAddShards \<noteq> opRemoveShards"
  "opAddShards \<noteq> opHandOffDone" "opRemoveShards \<noteq> opPut" "opRemoveShards \<noteq> opAppend" "opRemoveShards \<noteq> opGet"
  "opRemoveShards \<noteq> opAddShards" "opRemoveShards \<noteq> opHandOffDone" "opHandOffDone \<noteq> opPut"
  "opHandOffDone \<noteq> opAppend" "opHandOffDone \<noteq> opGet" "opHandOffDone \<noteq> opAddShards" "opHandOffDone \<noteq> opRemoveShards"
  by (simp_all add: opPut_def opAppend_def opGet_def opAddShards_def opRemoveShards_def opHandOffDone_def)

text \<open>An operation is executed unless it repeats the client's last one or belongs elsewhere.\<close>

definition executed :: "Op \<Rightarrow> ShardKV \<Rightarrow> bool" where
  "executed op kv \<longleftrightarrow> sameLastOp op kv = None \<and>
     (OpType op \<in> {opAddShards, opRemoveShards} \<or> valid kv (key2shard (Key op)))"

definition apply1 :: "Op \<Rightarrow> ShardKV \<Rightarrow> ShardKV" where
  "apply1 op kv = snd (applyOpL op kv)"

definition applyLog :: "Op list \<Rightarrow> ShardKV \<Rightarrow> ShardKV" where
  "applyLog ops kv = fold apply1 ops kv"

lemma applyLog_simps [simp]:
  "applyLog [] kv = kv" "applyLog (ops @ [op]) kv = apply1 op (applyLog ops kv)"
  by (simp_all add: applyLog_def)

text \<open>Whether an operation adds shards, and whether it takes shards away.\<close>

definition adds :: "Op \<Rightarrow> ShardKV \<Rightarrow> bool" where
  "adds op kv \<longleftrightarrow> executed op kv \<and> OpType op = opAddShards \<and> \<not> notNewShardsL (op_ConfigNum op) (op_Shards op) kv"

definition takes :: "Op \<Rightarrow> ShardKV \<Rightarrow> bool" where
  "takes op kv \<longleftrightarrow> executed op kv \<and> OpType op = opRemoveShards \<and> \<not> removed op kv"

text \<open>What the client operations mean on a map of keys.\<close>

definition write_op :: "Op \<Rightarrow> (string \<rightharpoonup> string) \<Rightarrow> string \<rightharpoonup> string" where
  "write_op op m =
     (if OpType op = opPut then m(Key op \<mapsto> Val op)
      else if OpType op = opAppend
      then m(Key op \<mapsto> (case m (Key op) of Some v \<Rightarrow> v | None \<Rightarrow> []) @ Val op)
      else m)"

lemma apply1_not_executed: "\<not> executed op kv \<Longrightarrow> apply1 op kv = kv"
  by (auto simp: executed_def apply1_def applyOpL_def split: option.splits)

lemma apply1_executed:
  assumes "executed op kv"
  shows "apply1 op kv =
    (if OpType op = opPut \<or> OpType op = opAppend then kv\<lparr>kvMap := write_op op (kvMap kv)\<rparr>
     else if OpType op = opAddShards then applyAddShardsL op kv
     else if OpType op = opRemoveShards then applyRemoveShardsL op kv
     else if OpType op = opHandOffDone
     then kv\<lparr>pendingHandoffs := deleteHandoff (op_Handoff op) (pendingHandoffs kv)\<rparr>
     else kv)\<lparr>lastOps :=
       (lastOps (if OpType op = opAddShards then applyAddShardsL op kv else kv))(ClientId op \<mapsto>
        \<lparr>lo_ClientId = ClientId op, lo_OpId = OpId op, GetResult = res_value (fst (applyOpL op kv))\<rparr>)\<rparr>"
  using assms
  by (auto simp: executed_def apply1_def applyOpL_def applyRemoveShardsL_def write_op_def Let_def)

lemmas apply1_effect =
  apply1_not_executed apply1_executed adds_def takes_def applyAddShardsL_def applyRemoveShardsL_def write_op_def

lemma kvMap_apply1:
  "kvMap (apply1 op kv) =
     (if adds op kv then addKVMap (op_Shards op) (op_KVMap op) (kvMap kv)
      else if executed op kv then write_op op (kvMap kv) else kvMap kv)"
  by (cases "executed op kv") (auto simp: apply1_effect)

lemma validShards_apply1:
  "validShards (apply1 op kv) =
     (if adds op kv then fold (\<lambda>shard m. m(shard \<mapsto> True)) (op_Shards op) (validShards kv)
      else if takes op kv then fold (\<lambda>shard m. m(shard := None)) (op_Shards op) (validShards kv)
      else validShards kv)"
  by (cases "executed op kv") (auto simp: apply1_effect)

lemma receivedHandoffs_apply1:
  "receivedHandoffs (apply1 op kv) =
     (if adds op kv
      then (receivedHandoffs kv)(op_ConfigNum op \<mapsto>
        (case receivedHandoffs kv (op_ConfigNum op) of Some ss \<Rightarrow> ss | None \<Rightarrow> []) @ [op_Shards op])
      else receivedHandoffs kv)"
  by (cases "executed op kv") (auto simp: apply1_effect)

lemma lastOps_apply1:
  "lastOps (apply1 op kv) =
     (if executed op kv
      then (if adds op kv then addLastOps (op_LastOps op) (lastOps kv) else lastOps kv)(ClientId op \<mapsto>
        \<lparr>lo_ClientId = ClientId op, lo_OpId = OpId op, GetResult = res_value (fst (applyOpL op kv))\<rparr>)
      else lastOps kv)"
  by (cases "executed op kv") (auto simp: apply1_effect)

lemma pendingHandoffs_apply1:
  "pendingHandoffs (apply1 op kv) =
     (if takes op kv then addHandoff \<lparr>h_Gid = op_Gid op, h_ConfigNum = op_ConfigNum op,
        h_Shards = Some \<lparr>address = heap kv, slice = op_Shards op\<rparr>\<rparr> (pendingHandoffs kv)
      else if executed op kv \<and> OpType op = opHandOffDone then deleteHandoff (op_Handoff op) (pendingHandoffs kv)
      else pendingHandoffs kv)"
  by (cases "executed op kv") (auto simp: apply1_effect)

lemma kv_gid_apply1 [simp]: "kv_gid (apply1 op kv) = kv_gid kv"
  by (auto simp: apply1_def applyOpL_def applyAddShardsL_def applyRemoveShardsL_def Let_def split: option.splits)

text \<open>The answers of the client operations.\<close>

lemma answer_executed:
  assumes "executed op kv"
  shows "OpType op = opPut \<Longrightarrow> fst (applyOpL op kv) = zeroResult\<lparr>res_err := OK, res_value := Val op\<rparr>"
    and "OpType op = opAppend \<Longrightarrow> fst (applyOpL op kv) =
      zeroResult\<lparr>res_err := OK, res_value := (case kvMap kv (Key op) of Some v \<Rightarrow> v | None \<Rightarrow> []) @ Val op\<rparr>"
    and "OpType op = opGet \<Longrightarrow> fst (applyOpL op kv) =
      (let v = (case kvMap kv (Key op) of Some v \<Rightarrow> v | None \<Rightarrow> []) in
       zeroResult\<lparr>res_err := (if v = [] then ErrNoKey else OK), res_value := v\<rparr>)"
  using assms by (auto simp: executed_def applyOpL_def Let_def zeroResult_def)

lemma fold_valid:
  "fold (\<lambda>shard m. m(shard \<mapsto> True)) ss v s = (if s \<in> set ss then Some True else v s)"
  "fold (\<lambda>shard m. m(shard := None)) ss v s = (if s \<in> set ss then None else v s)"
  by (induction ss arbitrary: v) auto

lemma valid_apply1:
  "valid (apply1 op kv) s \<longleftrightarrow>
     (if adds op kv \<and> s \<in> set (op_Shards op) then True
      else if takes op kv \<and> s \<in> set (op_Shards op) then False else valid kv s)"
  by (auto simp: valid_def validShards_apply1 fold_valid adds_def takes_def)

lemma notNewShardsL_iff:
  "notNewShardsL n ss kv \<longleftrightarrow> (\<exists>l. receivedHandoffs kv n = Some l \<and> ss \<in> set l)"
  by (auto simp: notNewShardsL_def list_ex_iff split: option.splits)

lemma notNew_apply1:
  "notNewShardsL n ss (apply1 op kv) \<longleftrightarrow>
     notNewShardsL n ss kv \<or> adds op kv \<and> n = op_ConfigNum op \<and> ss = op_Shards op"
  by (cases "receivedHandoffs kv n") (auto simp: notNewShardsL_iff receivedHandoffs_apply1)

lemma takes_valid: "takes op kv \<Longrightarrow> s \<in> set (op_Shards op) \<Longrightarrow> valid kv s"
  by (auto simp: takes_def removed_def list_ex_iff)

subsection \<open>Replicas\<close>

text \<open>
  The replicated part of the state, and the handoffs that a replica still has to do, without
  their addresses.
\<close>

definition core :: "ShardKV \<Rightarrow> (string \<rightharpoonup> string) \<times> (int \<rightharpoonup> bool) \<times> (int \<rightharpoonup> LastOp) \<times> (int \<rightharpoonup> int list list)" where
  "core kv = (kvMap kv, validShards kv, lastOps kv, receivedHandoffs kv)"

type_synonym transfer = "int \<times> int list \<times> int"

definition transfer :: "Handoff \<Rightarrow> transfer option" where
  "transfer h = map_option (\<lambda>p. (h_ConfigNum h, slice p, h_Gid h)) (h_Shards h)"

text \<open>
  The states of a replica that starts in a state \<open>kv0\<close>, with the operations they stand for: it
  applies the log, where the handoff in an entry may have any address, and reads a snapshot of
  another replica or of its own earlier run.
\<close>

inductive replica :: "ShardKV \<Rightarrow> Op list \<Rightarrow> ShardKV \<Rightarrow> bool" for kv0 where
  start: "core kv = core kv0 \<Longrightarrow> kv_gid kv = kv_gid kv0 \<Longrightarrow> pendingHandoffs kv = [] \<Longrightarrow> replica kv0 [] kv"
| apply_op: "replica kv0 ops kv \<Longrightarrow> replica kv0 (ops @ [op]) (apply1 (op\<lparr>op_Handoff := h\<rparr>) kv)"
| snapshot: "replica kv0 ops kv \<Longrightarrow> replica kv0 ops' kv' \<Longrightarrow>
    readSnapshotL (encodeSnapshot kv) kv' = Inr kv'' \<Longrightarrow> replica kv0 ops kv''"

lemma executed_core:
  assumes "core kv = core kv'"
  shows "executed (op\<lparr>op_Handoff := h\<rparr>) kv = executed op kv'"
    and "adds (op\<lparr>op_Handoff := h\<rparr>) kv = adds op kv'" and "takes (op\<lparr>op_Handoff := h\<rparr>) kv = takes op kv'"
    and "fst (applyOpL (op\<lparr>op_Handoff := h\<rparr>) kv) = fst (applyOpL op kv')"
  using assms
  by (auto simp: core_def executed_def adds_def takes_def removed_def valid_def sameLastOp_def isSame_def
      notNewShardsL_def applyOpL_def Let_def split: option.splits)

lemma core_apply1:
  assumes "core kv = core kv'"
  shows "core (apply1 (op\<lparr>op_Handoff := h\<rparr>) kv) = core (apply1 op kv')"
  using assms executed_core [OF assms, where op = op and h = h]
  by (simp add: core_def kvMap_apply1 validShards_apply1 receivedHandoffs_apply1 lastOps_apply1 write_op_def)

text \<open>The transfers that a log starts: every removal that takes effect.\<close>

fun started :: "Op list \<Rightarrow> ShardKV \<Rightarrow> transfer set" where
  "started [] kv = {}"
| "started (op # ops) kv =
     (if takes op kv then {(op_ConfigNum op, op_Shards op, op_Gid op)} else {}) \<union> started ops (apply1 op kv)"

lemma started_snoc:
  "started (ops @ [op]) kv = started ops kv \<union>
     (if takes op (applyLog ops kv) then {(op_ConfigNum op, op_Shards op, op_Gid op)} else {})"
  by (induction ops arbitrary: kv) (auto simp: applyLog_def)

lemma addHandoff_set: "set (addHandoff h hs) \<subseteq> insert h (set hs)"
  by (auto simp: addHandoff_def)

lemma gobHandoffs_transfer:
  "h \<in> set (gobHandoffs a hs) \<Longrightarrow> transfer h = Some t \<Longrightarrow> \<exists>h' \<in> set hs. transfer h' = Some t"
proof -
  assume "h \<in> set (gobHandoffs a hs)" and t: "transfer h = Some t"
  then obtain b h' where h: "h' \<in> set hs" "h = gobHandoff b h'"
    by (auto simp: gobHandoffs_def simp del: gobHandoff.simps dest: set_zip_leftD)
  then have "transfer h' = Some t"
    using t by (auto simp: transfer_def split: option.splits if_splits)
  with h(1) show ?thesis by blast
qed

lemma replica_core:
  assumes "replica kv0 ops kv"
  shows "core kv = core (applyLog ops kv0)"
  using assms
proof induction
  case (apply_op ops kv op h)
  then show ?case using core_apply1 by simp
next
  case (snapshot ops kv ops' kv' kv'')
  then show ?case by (auto simp: readSnapshotL_def encodeSnapshot_def core_def)
qed simp

lemma replica_pending:
  assumes "replica kv0 ops kv" and "h \<in> set (pendingHandoffs kv)" and "transfer h = Some t"
  shows "t \<in> started ops kv0"
  using assms
proof (induction arbitrary: h t)
  case (apply_op ops kv op h0)
  let ?op = "op\<lparr>op_Handoff := h0\<rparr>"
  have t: "takes ?op kv = takes op (applyLog ops kv0)"
    by (rule executed_core [OF replica_core [OF apply_op.hyps]])
  consider "h \<in> set (pendingHandoffs kv)"
    | "takes op (applyLog ops kv0)" "transfer h = Some (op_ConfigNum op, op_Shards op, op_Gid op)"
    using apply_op.prems(1) unfolding pendingHandoffs_apply1 deleteHandoff_def t
    by (auto simp: transfer_def split: if_splits dest!: subsetD [OF addHandoff_set])
  then show ?case using apply_op.prems(2) apply_op.IH by cases (auto simp: started_snoc)
next
  case (snapshot ops kv ops' kv' kv'')
  then have "h \<in> set (gobHandoffs (heap kv') (pendingHandoffs kv))"
    by (auto simp: readSnapshotL_def encodeSnapshot_def)
  then show ?case using gobHandoffs_transfer snapshot.prems(2) snapshot.IH(1) by blast
qed simp

lemma replica_gid: "replica kv0 ops kv \<Longrightarrow> kv_gid kv = kv_gid kv0"
  by (induction rule: replica.induct) (auto simp: readSnapshotL_def encodeSnapshot_def)

subsection \<open>The groups together\<close>

text \<open>
  The committed log of every group, the handoff messages that were sent, each with the group it
  goes to, and the map that the clients see: the effect of all executed Puts and Appends, in the
  order of their commits, whichever group executes them.
\<close>

record world =
  logs :: "int \<Rightarrow> Op list"
  msgs :: "(int \<times> HandOffShardsArgs) set"
  store :: "string \<rightharpoonup> string"

definition gstate :: "(int \<Rightarrow> ShardKV) \<Rightarrow> world \<Rightarrow> int \<Rightarrow> ShardKV" where
  "gstate kv0 w g = applyLog (logs w g) (kv0 g)"

definition commit :: "(int \<Rightarrow> ShardKV) \<Rightarrow> int \<Rightarrow> Op \<Rightarrow> world \<Rightarrow> world" where
  "commit kv0 g op w = w\<lparr>logs := (logs w)(g := logs w g @ [op]),
     store := (if executed op (gstate kv0 w g) then write_op op (store w) else store w)\<rparr>"

definition clientOp :: "string \<Rightarrow> string \<Rightarrow> string \<Rightarrow> int \<Rightarrow> int \<Rightarrow> Op" where
  "clientOp t k v c i = zeroOp\<lparr>OpType := t, Key := k, Val := v, ClientId := c, OpId := i\<rparr>"

definition removeOp :: "int \<Rightarrow> int list \<Rightarrow> int \<Rightarrow> int \<Rightarrow> int \<Rightarrow> Op" where
  "removeOp num shards gid c i = zeroOp\<lparr>OpType := opRemoveShards, op_ConfigNum := num,
     op_Shards := shards, op_Gid := gid, ClientId := c, OpId := i\<rparr>"

definition addOp :: "HandOffShardsArgs \<Rightarrow> int \<Rightarrow> int \<Rightarrow> Op" where
  "addOp args c i = zeroOp\<lparr>OpType := opAddShards, op_ConfigNum := hs_ConfigNum args,
     op_Shards := hs_Shards args, op_KVMap := hs_KVMap args, op_LastOps := hs_LastOps args,
     ClientId := c, OpId := i\<rparr>"

definition doneOp :: "Handoff \<Rightarrow> int \<Rightarrow> int \<Rightarrow> Op" where
  "doneOp h c i = zeroOp\<lparr>OpType := opHandOffDone, op_Handoff := h, ClientId := c, OpId := i\<rparr>"

text \<open>
  The steps: a client's operation is committed, of any type since \<open>PutAppend\<close> does not check it;
  a leader, in the state of any prefix of the log, proposes the removals that some configuration
  asks for, or sends a pending handoff; a group that got a handoff commits the addition, any
  number of times; a handoff is reported as done.
\<close>

inductive group_step :: "(int \<Rightarrow> ShardKV) \<Rightarrow> world \<Rightarrow> world \<Rightarrow> bool" for kv0 where
  client: "group_step kv0 w (commit kv0 g (clientOp t k v c i) w)"
| remove: "replica (kv0 g) (take j (logs w g)) kv \<Longrightarrow> (num, shards, gid) \<in> set (pollConfig conf kv) \<Longrightarrow>
    group_step kv0 w (commit kv0 g (removeOp num shards gid (clientId kv) i) w)"
| send: "replica (kv0 g) (take j (logs w g)) kv \<Longrightarrow> h \<in> set (pendingHandoffs kv) \<Longrightarrow>
    handOffArgs h kv = Inr args \<Longrightarrow> group_step kv0 w (w\<lparr>msgs := insert (h_Gid h, args) (msgs w)\<rparr>)"
| add: "(g, args) \<in> msgs w \<Longrightarrow> group_step kv0 w (commit kv0 g (addOp args c i) w)"
| finish: "group_step kv0 w (commit kv0 g (doneOp h c i) w)"

definition fresh_group :: "Config \<Rightarrow> int \<Rightarrow> ShardKV \<Rightarrow> bool" where
  "fresh_group conf g kv \<longleftrightarrow> kv_gid kv = g \<and> kvMap kv = Map.empty \<and> receivedHandoffs kv = Map.empty \<and>
     (\<forall>s. valid kv s \<longleftrightarrow> 0 \<le> s \<and> s < int (length (Shards conf)) \<and> Shards conf ! nat s = g)"

definition world0 :: world where
  "world0 = \<lparr>logs = \<lambda>_. [], msgs = {}, store = Map.empty\<rparr>"

definition reachable_world :: "(int \<Rightarrow> ShardKV) \<Rightarrow> world \<Rightarrow> bool" where
  "reachable_world kv0 w \<longleftrightarrow> (group_step kv0)\<^sup>*\<^sup>* world0 w"

subsection \<open>The invariant of the groups\<close>

text \<open>
  A transfer is open from the removal until the other group has the shards. A shard is at a
  group that serves it or in an open transfer of a group.
\<close>

definition open_transfer :: "(int \<Rightarrow> ShardKV) \<Rightarrow> world \<Rightarrow> int \<Rightarrow> transfer \<Rightarrow> bool" where
  "open_transfer kv0 w g = (\<lambda>(n, ss, G).
     (n, ss, G) \<in> started (logs w g) (kv0 g) \<and> \<not> notNewShardsL n ss (gstate kv0 w G))"

datatype place = Owner int | Transit int transfer

fun located :: "(int \<Rightarrow> ShardKV) \<Rightarrow> world \<Rightarrow> int \<Rightarrow> place \<Rightarrow> bool" where
  "located kv0 w s (Owner g) = valid (gstate kv0 w g) s"
| "located kv0 w s (Transit g t) = (open_transfer kv0 w g t \<and> s \<in> set (fst (snd t)))"

definition one_place :: "(int \<Rightarrow> ShardKV) \<Rightarrow> world \<Rightarrow> bool" where
  "one_place kv0 w \<longleftrightarrow> (\<forall>s p q. located kv0 w s p \<longrightarrow> located kv0 w s q \<longrightarrow> p = q)"

definition owner_data :: "(int \<Rightarrow> ShardKV) \<Rightarrow> world \<Rightarrow> bool" where
  "owner_data kv0 w \<longleftrightarrow>
     (\<forall>g k. valid (gstate kv0 w g) (key2shard k) \<longrightarrow> kvMap (gstate kv0 w g) k = store w k)"

definition transit_data :: "(int \<Rightarrow> ShardKV) \<Rightarrow> world \<Rightarrow> bool" where
  "transit_data kv0 w \<longleftrightarrow>
     (\<forall>g j t k. t \<in> started (take j (logs w g)) (kv0 g) \<longrightarrow> open_transfer kv0 w g t \<longrightarrow>
        key2shard k \<in> set (fst (snd t)) \<longrightarrow> kvMap (applyLog (take j (logs w g)) (kv0 g)) k = store w k)"

definition no_more :: "(int \<Rightarrow> ShardKV) \<Rightarrow> world \<Rightarrow> bool" where
  "no_more kv0 w \<longleftrightarrow> (\<forall>g. dom (kvMap (gstate kv0 w g)) \<subseteq> dom (store w))"

definition message_data :: "(int \<Rightarrow> ShardKV) \<Rightarrow> world \<Rightarrow> bool" where
  "message_data kv0 w \<longleftrightarrow>
     (\<forall>G args. (G, args) \<in> msgs w \<longrightarrow>
       (\<exists>g. (hs_ConfigNum args, hs_Shards args, G) \<in> started (logs w g) (kv0 g) \<and>
         (open_transfer kv0 w g (hs_ConfigNum args, hs_Shards args, G) \<longrightarrow>
           (\<forall>k. key2shard k \<in> set (hs_Shards args) \<longrightarrow> hs_KVMap args k = store w k))))"

definition groups_inv :: "(int \<Rightarrow> ShardKV) \<Rightarrow> world \<Rightarrow> bool" where
  "groups_inv kv0 w \<longleftrightarrow> one_place kv0 w \<and> owner_data kv0 w \<and> transit_data kv0 w \<and>
     no_more kv0 w \<and> message_data kv0 w"

lemma one_placeD: "one_place kv0 w \<Longrightarrow> located kv0 w s p \<Longrightarrow> located kv0 w s q \<Longrightarrow> p = q"
  by (auto simp: one_place_def)

end
