(* ===== verification/ShardKV_Inv.thy ===== *)
theory ShardKV_Inv
  imports ShardKV_Groups
begin

text \<open>
  The invariant of the replica groups is kept by every step: a commit moves a shard from its
  owner into a transfer, from a transfer to its new owner, or not at all, and the data of the
  shard's keys moves along.
\<close>

subsection \<open>The operations that the servers propose\<close>

text \<open>The operations of the steps are those that the servers hand to Raft.\<close>

lemma reconfigureL_op:
  "reconfigureL op kv = Inr (Some (index, ch, op'), kv', tasks) \<Longrightarrow>
     op' = op\<lparr>ClientId := clientId kv, OpId := opId kv\<rparr> \<and> opId kv' = opId kv + 1"
  by (auto simp: reconfigureL_def Let_def waitApplyL_def gbind_Inr_iff split: option.splits if_splits)

lemma proposed_ops:
  "removeShardsL num shards gid kv = Inr (Some (index, ch, op), kv', tasks) \<Longrightarrow>
     op = removeOp num shards gid (clientId kv) (opId kv)"
  "addShardsL (hs_ConfigNum args) (hs_Shards args) (hs_KVMap args) (hs_LastOps args) kv =
     Inr (Some (index, ch, op), kv', tasks) \<Longrightarrow> op = addOp args (clientId kv) (opId kv)"
  "handoffDoneL h kv = Inr (Some (index, ch, op), kv', tasks) \<Longrightarrow> op = doneOp h (clientId kv) (opId kv)"
  unfolding removeShardsL_def addShardsL_def handoffDoneL_def
  by (auto dest!: reconfigureL_op simp: removeOp_def addOp_def doneOp_def zeroOp_def)

subsection \<open>What a commit changes\<close>

lemma started_take: "started (take i ops) kv \<subseteq> started ops kv"
proof (induction ops arbitrary: i kv)
  case (Cons op ops)
  then show ?case by (cases i) auto
qed simp

lemma commit_sel [simp]:
  "logs (commit kv0 g op w) = (logs w)(g := logs w g @ [op])" "msgs (commit kv0 g op w) = msgs w"
  by (simp_all add: commit_def)

lemma gstate_commit:
  "gstate kv0 (commit kv0 g op w) h = (if h = g then apply1 op (gstate kv0 w g) else gstate kv0 w h)"
  by (simp add: gstate_def)

definition moved :: "Op \<Rightarrow> transfer" where
  "moved op = (op_ConfigNum op, op_Shards op, op_Gid op)"

lemma started_commit:
  "started (logs (commit kv0 g op w) h) (kv0 h) =
     started (logs w h) (kv0 h) \<union> (if h = g \<and> takes op (gstate kv0 w g) then {moved op} else {})"
  by (simp add: started_snoc gstate_def moved_def)

lemma notNew_commit:
  "notNewShardsL n ss (gstate kv0 (commit kv0 g op w) G) \<longleftrightarrow>
     notNewShardsL n ss (gstate kv0 w G) \<or>
     G = g \<and> adds op (gstate kv0 w g) \<and> n = op_ConfigNum op \<and> ss = op_Shards op"
  by (auto simp: gstate_commit notNew_apply1)

lemma open_commitD:
  assumes "open_transfer kv0 (commit kv0 g op w) h t"
  shows "open_transfer kv0 w h t \<or> h = g \<and> takes op (gstate kv0 w g) \<and> t = moved op"
    and "\<not> (adds op (gstate kv0 w g) \<and> t = (op_ConfigNum op, op_Shards op, g))"
  using assms unfolding open_transfer_def started_commit notNew_commit by (auto split: if_splits)

lemma located_commit:
  assumes "located kv0 (commit kv0 g op w) s p"
  shows "located kv0 w s p \<or>
    s \<in> set (op_Shards op) \<and> (p = Owner g \<and> adds op (gstate kv0 w g) \<or>
      p = Transit g (moved op) \<and> takes op (gstate kv0 w g))"
  using assms
  by (cases p) (auto simp: gstate_commit valid_apply1 moved_def dest: open_commitD(1) split: if_splits)

lemma commit_store:
  "store (commit kv0 g op w) = (if executed op (gstate kv0 w g) then write_op op (store w) else store w)"
  by (simp add: commit_def)

text \<open>The map of the clients changes only at a key whose shard the committing group serves.\<close>

lemma store_commit:
  "store (commit kv0 g op w) k = store w k \<or>
     valid (gstate kv0 w g) (key2shard k) \<and> k = Key op \<and> executed op (gstate kv0 w g) \<and>
       (OpType op = opPut \<or> OpType op = opAppend)"
  by (auto simp: commit_def write_op_def executed_def)

lemma store_commit_mono: "store w k \<noteq> None \<Longrightarrow> store (commit kv0 g op w) k \<noteq> None"
  by (auto simp: commit_def write_op_def)

lemma adds_takes: "adds op kv \<Longrightarrow> \<not> takes op kv"
  by (auto simp: adds_def takes_def)

lemma write_other: "OpType op = opAddShards \<or> OpType op = opRemoveShards \<Longrightarrow> write_op op m = m"
  by (auto simp: write_op_def)

text \<open>
  What a commit has to satisfy: an addition that takes effect comes from an open transfer to
  this group and carries the data of its shards.
\<close>

definition sound_add :: "(int \<Rightarrow> ShardKV) \<Rightarrow> world \<Rightarrow> int \<Rightarrow> Op \<Rightarrow> bool" where
  "sound_add kv0 w g op \<longleftrightarrow>
     (adds op (gstate kv0 w g) \<longrightarrow> op_Shards op = [] \<or>
       (\<exists>h. open_transfer kv0 w h (op_ConfigNum op, op_Shards op, g)) \<and>
       (\<forall>k. key2shard k \<in> set (op_Shards op) \<longrightarrow> op_KVMap op k = store w k))"

lemma sound_addE:
  assumes "sound_add kv0 w g op" "adds op (gstate kv0 w g)" "s \<in> set (op_Shards op)"
  obtains h where "located kv0 w s (Transit h (op_ConfigNum op, op_Shards op, g))"
    "\<forall>k. key2shard k \<in> set (op_Shards op) \<longrightarrow> op_KVMap op k = store w k"
  using assms by (auto simp: sound_add_def)

lemma one_place_commit:
  assumes "one_place kv0 w" and "sound_add kv0 w g op"
  shows "one_place kv0 (commit kv0 g op w)"
proof -
  let ?w = "commit kv0 g op w" and ?kv = "gstate kv0 w g"
  have "p = q" if p: "located kv0 ?w s p" and q: "located kv0 ?w s q" for s p q
  proof (cases "s \<in> set (op_Shards op) \<and> (adds op ?kv \<or> takes op ?kv)")
    case False
    then show ?thesis using located_commit [OF p] located_commit [OF q] assms(1) by (auto dest: one_placeD)
  next
    case True
    then consider "adds op ?kv" "\<not> takes op ?kv" | "takes op ?kv" "\<not> adds op ?kv" using adds_takes by blast
    then show ?thesis
    proof cases
      case 1
      obtain h where h: "located kv0 w s (Transit h (op_ConfigNum op, op_Shards op, g))"
        using sound_addE [OF assms(2) 1(1)] True by blast
      have "r = Owner g" if r: "located kv0 ?w s r" for r
      proof (rule ccontr)
        assume "r \<noteq> Owner g"
        then have "r = Transit h (op_ConfigNum op, op_Shards op, g)"
          using located_commit [OF r] 1 one_placeD [OF assms(1) _ h] by blast
        with r show False using open_commitD(2) 1(1) by (metis located.simps(2))
      qed
      then show ?thesis using p q by blast
    next
      case 2
      have o: "located kv0 w s (Owner g)" using takes_valid [OF 2(1)] True by simp
      have no: "\<not> located kv0 ?w s (Owner g)" using 2 True by (simp add: gstate_commit valid_apply1)
      have "r = Transit g (moved op)" if r: "located kv0 ?w s r" for r
        using located_commit [OF r] 2 no r one_placeD [OF assms(1) _ o] by blast
      then show ?thesis using p q by blast
    qed
  qed
  then show ?thesis by (auto simp: one_place_def)
qed

text \<open>In an open transfer, neither the map of the clients nor the group's copy changes.\<close>

lemma store_in_transit:
  assumes "one_place kv0 w" and "open_transfer kv0 w h t" and "key2shard k \<in> set (fst (snd t))"
  shows "store (commit kv0 g op w) k = store w k"
proof (rule ccontr)
  assume "\<not> ?thesis"
  then have "located kv0 w (key2shard k) (Owner g)" using store_commit [of kv0 g op w k] by auto
  moreover have "located kv0 w (key2shard k) (Transit h t)" using assms(2,3) by simp
  ultimately show False using one_placeD [OF assms(1)] by blast
qed

lemma kvMap_in_transit:
  assumes "one_place kv0 w" and "sound_add kv0 w g op"
    and "open_transfer kv0 w g t" and "open_transfer kv0 (commit kv0 g op w) g t" and "key2shard k \<in> set (fst (snd t))"
  shows "kvMap (apply1 op (gstate kv0 w g)) k = kvMap (gstate kv0 w g) k"
proof -
  let ?kv = "gstate kv0 w g"
  have tr: "located kv0 w (key2shard k) (Transit g t)" using assms(3,5) by simp
  show ?thesis
  proof (cases "adds op ?kv")
    case True
    have "key2shard k \<notin> set (op_Shards op)"
    proof
      assume "key2shard k \<in> set (op_Shards op)"
      from sound_addE [OF assms(2) True this] one_placeD [OF assms(1) tr] open_commitD(2) [OF assms(4)] True
      show False by (metis place.inject(2))
    qed
    with True show ?thesis by (simp add: kvMap_apply1 addKVMap_def split: option.splits)
  next
    case False
    have "\<not> valid ?kv (key2shard k)" using one_placeD [OF assms(1) tr, of "Owner g"] by auto
    then have "write_op op (kvMap ?kv) k = kvMap ?kv k" if "executed op ?kv"
      using that by (auto simp: write_op_def executed_def)
    with False show ?thesis by (simp add: kvMap_apply1)
  qed
qed

lemma owner_data_commit:
  assumes "one_place kv0 w" and "owner_data kv0 w" and "no_more kv0 w" and "sound_add kv0 w g op"
  shows "owner_data kv0 (commit kv0 g op w)"
  unfolding owner_data_def
proof (intro allI impI)
  fix h k
  let ?kv = "gstate kv0 w g"
  assume v: "valid (gstate kv0 (commit kv0 g op w) h) (key2shard k)"
  have own: "kvMap (gstate kv0 w h') k = store w k" if "valid (gstate kv0 w h') (key2shard k)" for h'
    using that assms(2) by (simp add: owner_data_def)
  consider "h = g" "adds op ?kv" "key2shard k \<in> set (op_Shards op)"
    | "h = g" "valid ?kv (key2shard k)" "\<not> (adds op ?kv \<and> key2shard k \<in> set (op_Shards op))"
    | "h \<noteq> g" "valid (gstate kv0 w h) (key2shard k)"
    using v by (auto simp: gstate_commit valid_apply1 split: if_splits)
  then show "kvMap (gstate kv0 (commit kv0 g op w) h) k = store (commit kv0 g op w) k"
  proof cases
    case 1
    obtain d where "located kv0 w (key2shard k) d" "op_KVMap op k = store w k"
      using sound_addE [OF assms(4) 1(2,3)] 1(3) by metis
    moreover have "kvMap ?kv k = None" if "store w k = None"
      using that assms(3) by (auto simp: no_more_def)
    moreover have "store (commit kv0 g op w) k = store w k"
      using 1(2) store_commit [of kv0 g op w k] by (auto simp: adds_def)
    ultimately show ?thesis using 1 by (auto simp: gstate_commit kvMap_apply1 addKVMap_def split: option.splits)
  next
    case 2
    note k = own [OF 2(2)]
    show ?thesis
    proof (cases "adds op ?kv")
      case True
      then have "store (commit kv0 g op w) k = store w k"
        using store_commit [of kv0 g op w k] by (auto simp: adds_def)
      with True 2 k show ?thesis by (auto simp: gstate_commit kvMap_apply1 addKVMap_def split: option.splits)
    next
      case False
      then show ?thesis using k 2(1) by (auto simp: gstate_commit kvMap_apply1 commit_store write_op_def)
    qed
  next
    case 3
    have "\<not> valid ?kv (key2shard k)"
      using one_placeD [OF assms(1), of "key2shard k" "Owner g" "Owner h"] 3 by auto
    then have "store (commit kv0 g op w) k = store w k" using store_commit [of kv0 g op w k] by auto
    then show ?thesis using own [OF 3(2)] 3(1) by (simp add: gstate_commit)
  qed
qed

lemma transit_data_commit:
  assumes "one_place kv0 w" and "owner_data kv0 w" and "transit_data kv0 w" and "sound_add kv0 w g op"
  shows "transit_data kv0 (commit kv0 g op w)"
  unfolding transit_data_def
proof (intro allI impI)
  fix h j t k
  let ?w = "commit kv0 g op w" and ?kv = "gstate kv0 w g"
  assume t: "t \<in> started (take j (logs ?w h)) (kv0 h)" and o: "open_transfer kv0 ?w h t"
    and k: "key2shard k \<in> set (fst (snd t))"
  have old: "kvMap (applyLog (take i (logs w h)) (kv0 h)) k = store ?w k"
    if "t \<in> started (take i (logs w h)) (kv0 h)" "open_transfer kv0 w h t" for i
    using that assms(3) k store_in_transit [OF assms(1) that(2) k] unfolding transit_data_def by metis
  have was: "open_transfer kv0 w h t" if "t \<in> started (logs w h) (kv0 h)"
    using that o by (auto simp: open_transfer_def notNew_commit)
  have sub: "started (take i (logs w h)) (kv0 h) \<subseteq> started (logs w h) (kv0 h)" for i
    by (rule started_take)
  show "kvMap (applyLog (take j (logs ?w h)) (kv0 h)) k = store ?w k"
  proof (cases "h = g \<and> length (logs w g) < j")
    case False
    then have "take j (logs ?w h) = take j (logs w h)" by auto
    with t old [of j] was sub show ?thesis by auto
  next
    case True
    then have l: "take j (logs ?w h) = logs w g @ [op]" "h = g" by auto
    then have a: "applyLog (take j (logs ?w h)) (kv0 h) = apply1 op ?kv" by (simp add: gstate_def)
    show ?thesis
    proof (cases "t \<in> started (logs w g) (kv0 g)")
      case True
      with was l(2) have "open_transfer kv0 w g t" by simp
      from old [of "length (logs w g)"] True l(2) this kvMap_in_transit [OF assms(1,4) this _ k] o a
      show ?thesis by (simp add: gstate_def)
    next
      case False
      with t l have "takes op ?kv" "t = moved op" by (auto simp: started_snoc moved_def gstate_def split: if_splits)
      with k have v: "valid ?kv (key2shard k)" "OpType op = opRemoveShards"
        using takes_valid by (auto simp: moved_def takes_def)
      then have "kvMap (apply1 op ?kv) k = kvMap ?kv k" by (simp add: kvMap_apply1 adds_def write_other)
      moreover have "store ?w k = store w k" using store_commit [of kv0 g op w k] v(2) by auto
      ultimately show ?thesis using a v(1) assms(2) by (simp add: owner_data_def)
    qed
  qed
qed

lemma no_more_commit:
  assumes "no_more kv0 w" and "sound_add kv0 w g op"
  shows "no_more kv0 (commit kv0 g op w)"
proof -
  let ?w = "commit kv0 g op w" and ?kv = "gstate kv0 w g"
  have "store ?w k \<noteq> None" if has: "kvMap (gstate kv0 ?w h) k \<noteq> None" for h k
  proof -
    have old: "store w k \<noteq> None" if "kvMap (gstate kv0 w h') k \<noteq> None" for h'
      using that assms(1) by (auto simp: no_more_def)
    consider "kvMap (gstate kv0 w h) k \<noteq> None" | "adds op ?kv" "key2shard k \<in> set (op_Shards op)" "op_KVMap op k \<noteq> None"
      | "executed op ?kv" "k = Key op" "OpType op = opPut \<or> OpType op = opAppend"
      using has by (auto simp: gstate_commit kvMap_apply1 addKVMap_def write_op_def split: if_splits option.splits)
    then show ?thesis
    proof cases
      case 1
      then show ?thesis using old store_commit_mono by blast
    next
      case 2
      then have "store w k \<noteq> None" using sound_addE [OF assms(2) 2(1,2)] by metis
      then show ?thesis using store_commit_mono by blast
    next
      case 3
      then show ?thesis by (auto simp: commit_store write_op_def)
    qed
  qed
  then show ?thesis unfolding no_more_def by blast
qed

lemma message_dataE:
  assumes "message_data kv0 w" and "(G, args) \<in> msgs w"
  obtains h where "(hs_ConfigNum args, hs_Shards args, G) \<in> started (logs w h) (kv0 h)"
    "open_transfer kv0 w h (hs_ConfigNum args, hs_Shards args, G) \<longrightarrow>
      (\<forall>k. key2shard k \<in> set (hs_Shards args) \<longrightarrow> hs_KVMap args k = store w k)"
  using assms unfolding message_data_def by blast

lemma message_data_commit:
  assumes "one_place kv0 w" and "message_data kv0 w"
  shows "message_data kv0 (commit kv0 g op w)"
  unfolding message_data_def
proof (intro allI impI)
  fix G :: int and args :: HandOffShardsArgs
  let ?w = "commit kv0 g op w" and ?t = "(hs_ConfigNum args, hs_Shards args, G)"
  assume "(G, args) \<in> msgs ?w"
  then obtain h where h: "?t \<in> started (logs w h) (kv0 h)"
    "open_transfer kv0 w h ?t \<longrightarrow> (\<forall>k. key2shard k \<in> set (hs_Shards args) \<longrightarrow> hs_KVMap args k = store w k)"
    using message_dataE [OF assms(2)] by (metis commit_sel(2))
  have was: "open_transfer kv0 w h ?t" if "open_transfer kv0 ?w h ?t"
    using that h(1) by (auto simp: open_transfer_def notNew_commit)
  have "hs_KVMap args k = store ?w k" if "open_transfer kv0 ?w h ?t" "key2shard k \<in> set (hs_Shards args)" for k
    using that h(2) was store_in_transit [OF assms(1) was [OF that(1)], of k g op] by simp
  moreover have "?t \<in> started (logs ?w h) (kv0 h)" using h(1) unfolding started_commit by blast
  ultimately show "\<exists>h. ?t \<in> started (logs ?w h) (kv0 h) \<and> (open_transfer kv0 ?w h ?t \<longrightarrow>
      (\<forall>k. key2shard k \<in> set (hs_Shards args) \<longrightarrow> hs_KVMap args k = store ?w k))" by blast
qed

lemma groups_inv_commit:
  assumes "groups_inv kv0 w" and "sound_add kv0 w g op"
  shows "groups_inv kv0 (commit kv0 g op w)"
  using assms unfolding groups_inv_def
  by (intro conjI one_place_commit owner_data_commit transit_data_commit no_more_commit message_data_commit) auto

subsection \<open>Every step keeps the invariant\<close>

lemma sound_add_other: "OpType op \<noteq> opAddShards \<or> op_Shards op = [] \<Longrightarrow> sound_add kv0 w g op"
  by (auto simp: sound_add_def adds_def)

lemma op_sel [simp]:
  "op_Shards (clientOp t k v c i) = []" "OpType (removeOp n ss G c i) = opRemoveShards"
  "OpType (doneOp h c i) = opHandOffDone" "OpType (addOp args c i) = opAddShards"
  "op_Shards (addOp args c i) = hs_Shards args" "op_ConfigNum (addOp args c i) = hs_ConfigNum args"
  "op_KVMap (addOp args c i) = hs_KVMap args" "OpType (clientOp t k v c i) = t" "Key (clientOp t k v c i) = k"
  "Val (clientOp t k v c i) = v" "ClientId (clientOp t k v c i) = c" "OpId (clientOp t k v c i) = i"
  "op_Shards (removeOp n ss G c i) = ss" "op_ConfigNum (removeOp n ss G c i) = n" "op_Gid (removeOp n ss G c i) = G"
  "ClientId (removeOp n ss G c i) = c" "OpId (removeOp n ss G c i) = i" "ClientId (addOp args c i) = c"
  "OpId (addOp args c i) = i" "op_LastOps (addOp args c i) = hs_LastOps args"
  "op_Handoff (doneOp h c i) = h" "ClientId (doneOp h c i) = c" "OpId (doneOp h c i) = i"
  "Key (doneOp h c i) = []"
  by (simp_all add: clientOp_def removeOp_def doneOp_def addOp_def zeroOp_def)

lemma sound_add_message:
  assumes "groups_inv kv0 w" and "(g, args) \<in> msgs w"
  shows "sound_add kv0 w g (addOp args c i)"
proof -
  let ?t = "(hs_ConfigNum args, hs_Shards args, g)"
  obtain h where h: "?t \<in> started (logs w h) (kv0 h)"
    "open_transfer kv0 w h ?t \<longrightarrow> (\<forall>k. key2shard k \<in> set (hs_Shards args) \<longrightarrow> hs_KVMap args k = store w k)"
    using message_dataE [OF _ assms(2)] assms(1) unfolding groups_inv_def by metis
  have "open_transfer kv0 w h ?t" if "adds (addOp args c i) (gstate kv0 w g)"
    using that h(1) by (auto simp: adds_def open_transfer_def)
  with h(2) show ?thesis by (auto simp: sound_add_def)
qed

lemma groups_inv_send:
  assumes inv: "groups_inv kv0 w" and r: "replica (kv0 g) (take j (logs w g)) kv"
    and h: "h \<in> set (pendingHandoffs kv)" and args: "handOffArgs h kv = Inr args"
  shows "groups_inv kv0 (w\<lparr>msgs := insert (h_Gid h, args) (msgs w)\<rparr>)"
proof -
  let ?w = "w\<lparr>msgs := insert (h_Gid h, args) (msgs w)\<rparr>" and ?t = "(hs_ConfigNum args, hs_Shards args, h_Gid h)"
  have same: "gstate kv0 ?w = gstate kv0 w" "open_transfer kv0 ?w = open_transfer kv0 w"
    by (auto simp: gstate_def open_transfer_def fun_eq_iff)
  then have loc: "located kv0 ?w s p = located kv0 w s p" for s p by (cases p) simp_all
  have "transfer h = Some ?t" "hs_KVMap args = kvMap kv"
    using args by (auto simp: handOffArgs_def transfer_def copyKVMap_def fun_eq_iff split: option.splits)
  then have t: "?t \<in> started (take j (logs w g)) (kv0 g)" "hs_KVMap args = kvMap (applyLog (take j (logs w g)) (kv0 g))"
    using replica_pending [OF r h] replica_core [OF r] by (auto simp: core_def)
  then have "open_transfer kv0 w g ?t \<longrightarrow> (\<forall>k. key2shard k \<in> set (hs_Shards args) \<longrightarrow> hs_KVMap args k = store w k)"
    using inv unfolding groups_inv_def transit_data_def by (metis fst_conv snd_conv)
  moreover have "?t \<in> started (logs w g) (kv0 g)" using t(1) started_take by blast
  ultimately have "message_data kv0 ?w"
    using inv by (auto simp: groups_inv_def message_data_def same)
  then show ?thesis
    using inv by (simp add: groups_inv_def one_place_def owner_data_def transit_data_def no_more_def loc same)
qed

lemma groups_inv_step: "group_step kv0 w w' \<Longrightarrow> groups_inv kv0 w \<Longrightarrow> groups_inv kv0 w'"
proof (induction rule: group_step.induct)
  case (send g j w kv h args)
  then show ?case using groups_inv_send by blast
next
  case (add g args w c i)
  then show ?case using groups_inv_commit sound_add_message by blast
qed (auto intro!: groups_inv_commit sound_add_other)

lemma groups_inv_start:
  assumes "\<And>g. fresh_group conf g (kv0 g)"
  shows "groups_inv kv0 world0"
proof -
  note f = assms [unfolded fresh_group_def]
  have s: "gstate kv0 world0 g = kv0 g" for g by (simp add: gstate_def world0_def)
  have n: "\<not> open_transfer kv0 world0 g t" for g t by (auto simp: open_transfer_def world0_def)
  have "p = q" if "located kv0 world0 s p" "located kv0 world0 s q" for s p q
    using that f n by (cases p; cases q) (auto simp: s)
  then show ?thesis
    using f n
    by (auto simp: groups_inv_def one_place_def owner_data_def transit_data_def no_more_def message_data_def s)
       (auto simp: world0_def)
qed

lemma reachable_groups_inv:
  assumes "\<And>g. fresh_group conf g (kv0 g)" and "reachable_world kv0 w"
  shows "groups_inv kv0 w"
  using assms(2) unfolding reachable_world_def
  by (induction rule: rtranclp_induct) (auto intro: groups_inv_step groups_inv_start [OF assms(1)])

end
