(* ===== verification/ShardKV_Props.thy ===== *)
theory ShardKV_Props
  imports ShardKV_Inv
begin

text \<open>
  The properties of the sharded key/value service: the groups together are one map, replicas
  of a group agree, what a client is answered, how sessions move with the shards, and three
  ways in which a handoff goes wrong.
\<close>

subsection \<open>The start of a group\<close>

lemma firstConfig_fold:
  "fold (\<lambda>(shard, gid) kv. if gid = kv_gid kv
      then kv\<lparr>validShards := (validShards kv)(shard \<mapsto> True)\<rparr> else kv) xs kv =
   kv\<lparr>validShards := fold (\<lambda>(shard, gid) v. if gid = kv_gid kv then v(shard \<mapsto> True) else v) xs (validShards kv)\<rparr>"
  by (induction xs arbitrary: kv) auto

lemma fold_assigned:
  "fold (\<lambda>(shard, gid) v. if gid = g then v(shard \<mapsto> True) else v) xs v s =
     (if (s, g) \<in> set xs then Some True else v s)"
  by (induction xs arbitrary: v) (auto split: if_splits)

lemma in_assignment:
  "(s, g) \<in> set (zip (map int [0..<length xs]) xs) \<longleftrightarrow> 0 \<le> s \<and> s < int (length xs) \<and> xs ! nat s = g"
  by (force simp: in_set_zip)

lemma firstConfigL_fresh:
  assumes "kv_gid kv = g" "kvMap kv = Map.empty" "receivedHandoffs kv = Map.empty" "validShards kv = Map.empty"
  shows "fresh_group conf g (firstConfigL conf kv)"
  using assms
  by (simp add: fresh_group_def firstConfigL_def firstConfig_fold valid_def fold_assigned in_assignment)

text \<open>A server that is made with an empty persister starts as a member of a fresh group.\<close>

lemma start_fresh:
  assumes "init clk clk' n m ps maxstate gid ck = Inr kv" and "ReadSnapshot (persister (kv_rf kv)) = []"
    and "firstConfig cs = Some conf"
  shows "start_kv cs kv = Inr (Some (firstConfigL conf kv)) \<and> fresh_group conf gid (firstConfigL conf kv)"
proof -
  obtain rf where "Make clk clk' n m ps = Inr rf" and kv: "kv_gid kv = gid" "kvMap kv = Map.empty"
    "receivedHandoffs kv = Map.empty" "validShards kv = Map.empty"
    using assms(1) by (cases "Make clk clk' n m ps") (auto simp: init_def)
  then show ?thesis
    using assms firstConfigL_fresh [OF kv] by (simp add: start_kv_def readSnapshotL_def)
qed

subsection \<open>The groups as one map\<close>

text \<open>
  C3: no two groups serve the same shard, at any time: not while shards are handed over, not
  when messages are late or repeated, and not when a leader acts on an old configuration or
  an old state.
\<close>

theorem groups_one_owner:
  assumes "\<forall>g. fresh_group conf g (kv0 g)" and "reachable_world kv0 w"
    and "valid (gstate kv0 w g) s" and "valid (gstate kv0 w g') s"
  shows "g = g'"
proof -
  have "one_place kv0 w" using reachable_groups_inv [of conf kv0] assms(1,2) by (simp add: groups_inv_def)
  from one_placeD [OF this, of s "Owner g" "Owner g'"] assms(3,4) show ?thesis by simp
qed

text \<open>
  C2: the groups together are one key/value map. Whatever shards have moved before, an operation
  that a group executes is answered from the map that all executed operations of all groups
  have made in the order of their commits, and the group's copy of every key it serves is that
  of the map: a handoff loses no write and brings back no old value.
\<close>

theorem groups_one_map:
  assumes "\<forall>g. fresh_group conf g (kv0 g)" and "reachable_world kv0 w"
    and "executed op (gstate kv0 w g)" and "OpType op \<in> {opGet, opPut, opAppend}"
  shows "res_value (fst (applyOpL op (gstate kv0 w g))) =
      (case write_op op (store w) (Key op) of Some v \<Rightarrow> v | None \<Rightarrow> []) \<and>
    (\<forall>k. valid (gstate kv0 w g) (key2shard k) \<longrightarrow>
      kvMap (gstate kv0 w g) k = store w k \<and>
      kvMap (gstate kv0 (commit kv0 g op w) g) k = store (commit kv0 g op w) k)"
proof -
  let ?kv = "gstate kv0 w g"
  have inv: "owner_data kv0 w" using reachable_groups_inv [of conf kv0] assms(1,2) by (simp add: groups_inv_def)
  have v: "valid ?kv (key2shard (Key op))" using assms(3,4) by (auto simp: executed_def)
  then have k: "kvMap ?kv (Key op) = store w (Key op)" using inv by (simp add: owner_data_def)
  have "res_value (fst (applyOpL op ?kv)) = (case write_op op (store w) (Key op) of Some v \<Rightarrow> v | None \<Rightarrow> [])"
    using assms(4) answer_executed [OF assms(3)] k by (auto simp: write_op_def Let_def)
  moreover have "kvMap (gstate kv0 (commit kv0 g op w) g) k' = store (commit kv0 g op w) k'"
    if "kvMap ?kv k' = store w k'" for k'
    using that assms(3,4) by (auto simp: gstate_commit kvMap_apply1 adds_def commit_store write_op_def)
  ultimately show ?thesis using inv by (simp add: owner_data_def)
qed

text \<open>
  A run with two groups: group 1 serves all shards and executes a Put of key \<open>a\<close>, whose shard 7
  then moves to group 2, as configuration 2 asks for.
\<close>

definition conf1 :: Config where
  "conf1 = \<lparr>Num = 1, Shards = replicate NShards 1, Groups = [(1, [''a0'']), (2, [''b0''])]\<rparr>"

definition conf2 :: Config where
  "conf2 = conf1\<lparr>Num := 2, Shards := (Shards conf1)[7 := 2]\<rparr>"

definition member :: "int \<Rightarrow> ShardKV" where
  "member g = \<lparr>kv_me = 0, kv_gid = g, maxraftstate = NA,
     kv_rf = projr (Make \<lparr>now = 0, rand = 0\<rparr> \<lparr>now = 0, rand = 0\<rparr> 1 0 MakePersister), kvMap = Map.empty,
     validShards = Map.empty, lastOps = Map.empty, receivedHandoffs = Map.empty, pendingHandoffs = [],
     resultChans = Map.empty, ctrler = fst (Ctrler_Server.MakeClerk 1 NA), clientId = - g, opId = 0,
     chans = 0, heap = 0\<rparr>"

definition start2 :: "int \<Rightarrow> ShardKV" where
  "start2 g = firstConfigL conf1 (member g)"

definition putA :: Op where "putA = clientOp opPut ''a'' ''x'' 5 0"
definition getA :: Op where "getA = clientOp opGet ''a'' [] 5 1"

definition kvA :: ShardKV where "kvA = applyLog [putA, removeOp 2 [7] 2 (-1) 0] (start2 1)"

definition argsA :: HandOffShardsArgs where
  "argsA = \<lparr>hs_Gid = 1, hs_Sid = 0, hs_ConfigNum = 2, hs_Shards = [7],
     hs_KVMap = kvMap kvA, hs_LastOps = lastOps kvA\<rparr>"

definition worldA :: world where
  "worldA = commit start2 2 (addOp argsA (-2) 0)
     ((commit start2 1 (removeOp 2 [7] 2 (-1) 0) (commit start2 1 putA world0))\<lparr>msgs := {(2, argsA)}\<rparr>)"

lemma start2_fresh: "\<forall>g. fresh_group conf1 g (start2 g)"
  using firstConfigL_fresh [of "member g" g conf1 for g] by (simp add: start2_def member_def)

lemma replica_start: "replica kv0 [] (kv0\<lparr>pendingHandoffs := []\<rparr>)"
  by (rule replica.start) (simp_all add: core_def)

lemma start2_sel:
  "pendingHandoffs (start2 g) = []" "lastOps (start2 g) = Map.empty" "kvMap (start2 g) = Map.empty"
  "receivedHandoffs (start2 g) = Map.empty" "kv_gid (start2 g) = g" "kv_me (start2 g) = 0" "heap (start2 g) = 0"
  "clientId (start2 g) = - g"
  by (simp_all add: start2_def firstConfigL_def firstConfig_fold member_def)

lemma start2_valid: "valid (start2 g) s \<longleftrightarrow> 0 \<le> s \<and> s < 10 \<and> g = 1"
  using start2_fresh by (auto simp: fresh_group_def conf1_def NShards_def)

lemma shardA: "key2shard ''a'' = 7"
  by (simp add: key2shard_def NShards_def)

lemma apply1_frame [simp]: "kv_me (apply1 op kv) = kv_me kv" "clientId (apply1 op kv) = clientId kv"
  by (cases "executed op kv"; simp add: apply1_effect)+

lemma heap_apply1: "heap (apply1 op kv) = (if takes op kv then heap kv + 1 else heap kv)"
  by (cases "executed op kv") (auto simp: apply1_effect)

definition kvP :: ShardKV where "kvP = apply1 putA (start2 1)"

lemma executed_putA: "executed putA (start2 1)"
  by (simp add: executed_def putA_def sameLastOp_def start2_sel start2_valid shardA)

lemma kvP_sel:
  "kvMap kvP = [''a'' \<mapsto> ''x'']" "pendingHandoffs kvP = []" "valid kvP s \<longleftrightarrow> 0 \<le> s \<and> s < 10" "kv_gid kvP = 1"
  "lastOps kvP c = (if c = 5 then Some \<lparr>lo_ClientId = 5, lo_OpId = 0, GetResult = ''x''\<rparr> else None)"
  "clientId kvP = -1" "kv_me kvP = 0" "receivedHandoffs kvP = Map.empty"
  using executed_putA answer_executed(1) [OF executed_putA]
  by (auto simp: kvP_def kvMap_apply1 pendingHandoffs_apply1 valid_apply1 lastOps_apply1 receivedHandoffs_apply1
      adds_def takes_def write_op_def start2_sel start2_valid putA_def)

lemma takes_kvP: "takes (removeOp 2 [7] 2 (-1) 0) kvP" "executed (removeOp 2 [7] 2 (-1) 0) kvP"
  by (simp_all add: takes_def executed_def sameLastOp_def kvP_sel removed_def)

lemma kvA_eq: "kvA = apply1 (removeOp 2 [7] 2 (-1) 0) kvP"
  by (simp add: kvA_def kvP_def applyLog_def)

lemma kvA_sel:
  "kvMap kvA = [''a'' \<mapsto> ''x'']" "\<exists>a. pendingHandoffs kvA = [\<lparr>h_Gid = 2, h_ConfigNum = 2, h_Shards = Some \<lparr>address = a, slice = [7]\<rparr>\<rparr>]"
  "valid kvA s \<longleftrightarrow> 0 \<le> s \<and> s < 10 \<and> s \<noteq> 7" "kv_gid kvA = 1" "kv_me kvA = 0"
  using takes_kvP
  by (auto simp: kvA_eq kvMap_apply1 pendingHandoffs_apply1 valid_apply1 adds_def write_op_def kvP_sel
      addHandoff_def)

lemma replicaP: "replica (start2 1) [putA] kvP"
proof -
  have "replica (start2 1) ([] @ [putA]) (apply1 (putA\<lparr>op_Handoff := op_Handoff putA\<rparr>) (start2 1))"
    by (rule replica.apply_op, rule replica.start) (simp_all add: start2_sel)
  then show ?thesis by (simp add: kvP_def)
qed

lemma replicaA: "replica (start2 1) [putA, removeOp 2 [7] 2 (-1) 0] kvA"
proof -
  let ?op = "removeOp 2 [7] 2 (-1) 0"
  have "replica (start2 1) ([putA] @ [?op]) (apply1 (?op\<lparr>op_Handoff := op_Handoff ?op\<rparr>) kvP)"
    by (rule replica.apply_op [OF replicaP])
  then show ?thesis by (simp add: kvA_eq)
qed

lemma copy_id: "copyKVMap m = m" "copyLastOps l = l"
  by (simp_all add: copyKVMap_def copyLastOps_def fun_eq_iff split: option.splits)

lemma worldA_reachable: "reachable_world start2 worldA"
proof -
  let ?w1 = "commit start2 1 putA world0"
  let ?w2 = "commit start2 1 (removeOp 2 [7] 2 (-1) 0) ?w1"
  have l: "logs ?w1 1 = [putA]" "logs ?w2 1 = [putA, removeOp 2 [7] 2 (-1) 0]" by (simp_all add: world0_def)
  have 1: "group_step start2 world0 ?w1" unfolding putA_def by (rule group_step.client)
  have "(2, [7], 2) \<in> set (pollConfig conf2 kvP)"
    by (simp add: pollConfig_def pollStep_def conf2_def conf1_def NShards_def kvP_sel numeral_eq_Suc getd_def)
  with group_step.remove [of start2 1 1 ?w1 kvP 2 "[7]" 2 conf2 0] replicaP l(1)
  have 2: "group_step start2 ?w1 ?w2" by (simp add: kvP_sel)
  obtain h where h: "pendingHandoffs kvA = [h]" "h_Gid h = 2" "handOffArgs h kvA = Inr argsA"
  proof -
    obtain a where "pendingHandoffs kvA = [\<lparr>h_Gid = 2, h_ConfigNum = 2, h_Shards = Some \<lparr>address = a, slice = [7]\<rparr>\<rparr>]"
      using kvA_sel(2) by blast
    then show thesis by (rule that) (simp_all add: handOffArgs_def argsA_def copy_id kvA_sel(1,4,5))
  qed
  with group_step.send [of start2 1 2 ?w2 kvA h argsA] replicaA l(2)
  have 3: "group_step start2 ?w2 (?w2\<lparr>msgs := {(2, argsA)}\<rparr>)" by (simp add: world0_def)
  have 4: "group_step start2 (?w2\<lparr>msgs := {(2, argsA)}\<rparr>) worldA"
    unfolding worldA_def by (rule group_step.add) simp
  show ?thesis unfolding reachable_world_def
    by (rule converse_rtranclp_into_rtranclp, rule 1, rule converse_rtranclp_into_rtranclp, rule 2,
        rule converse_rtranclp_into_rtranclp, rule 3, rule r_into_rtranclp, rule 4)
qed

lemma worldA_group2: "gstate start2 worldA 2 = apply1 (addOp argsA (-2) 0) (start2 2)"
  by (simp add: worldA_def gstate_def world0_def applyLog_def)

lemma worldA_group1: "gstate start2 worldA 1 = kvA"
  by (simp add: worldA_def gstate_def world0_def kvA_def)

lemma adds_argsA: "adds (addOp argsA (-2) 0) (start2 2)"
  by (simp add: adds_def executed_def sameLastOp_def start2_sel notNewShardsL_def)

lemma worldA_state:
  "valid (gstate start2 worldA 2) s \<longleftrightarrow> s = 7" "executed getA (gstate start2 worldA 2)"
  "store worldA = [''a'' \<mapsto> ''x'']"
proof -
  show v: "valid (gstate start2 worldA 2) s \<longleftrightarrow> s = 7" for s
    using adds_argsA by (auto simp: worldA_group2 valid_apply1 takes_def start2_valid argsA_def)
  have l: "lastOps kvA 5 = Some \<lparr>lo_ClientId = 5, lo_OpId = 0, GetResult = ''x''\<rparr>"
    using takes_kvP by (simp add: kvA_eq lastOps_apply1 adds_def kvP_sel)
  then have "lastOps (gstate start2 worldA 2) 5 = None"
    using adds_argsA by (simp add: worldA_group2 lastOps_apply1 adds_def addLastOps_def argsA_def start2_sel)
  then show "executed getA (gstate start2 worldA 2)"
    using v by (simp add: executed_def sameLastOp_def getA_def shardA)
  show "store worldA = [''a'' \<mapsto> ''x'']"
    using executed_putA by (simp add: worldA_def commit_store gstate_def write_other) (simp add: world0_def write_op_def putA_def)
qed

theorem groups_one_owner_witness:
  "reachable_world start2 worldA \<and> valid (gstate start2 worldA 2) 7 \<and> \<not> valid (gstate start2 worldA 1) 7"
  using groups_one_owner [OF start2_fresh worldA_reachable, of 1 7 2] worldA_state(1) worldA_reachable by auto

theorem groups_one_map_witness:
  "reachable_world start2 worldA \<and> executed getA (gstate start2 worldA 2) \<and>
   res_value (fst (applyOpL getA (gstate start2 worldA 2))) = ''x''"
  using groups_one_map [OF start2_fresh worldA_reachable worldA_state(2)] worldA_reachable worldA_state(2,3)
  by (simp add: getA_def write_op_def)

subsection \<open>One group\<close>

text \<open>
  C27: the replicas of a group agree. Two servers that stand for the same operations, each by
  applying the log from its start or from a snapshot of any server, hold the same map, shards,
  sessions and received handoffs, and answer the next operation alike. This is so although
  their pending handoffs may differ, since those are keyed by addresses.
\<close>

theorem replicas_agree:
  assumes "replica kv0 ops kv" and "replica kv0 ops kv'"
  shows "kvMap kv = kvMap kv' \<and> validShards kv = validShards kv' \<and> lastOps kv = lastOps kv' \<and>
    receivedHandoffs kv = receivedHandoffs kv' \<and> fst (applyOpL op kv) = fst (applyOpL op kv')"
proof -
  have c: "core kv = core kv'" using replica_core [OF assms(1)] replica_core [OF assms(2)] by simp
  have "op\<lparr>op_Handoff := op_Handoff op\<rparr> = op" by simp
  with c executed_core(4) [OF c, where op = op and h = "op_Handoff op"] show ?thesis by (simp add: core_def)
qed

text \<open>A server that restarts from its own snapshot has new addresses in its pending handoffs.\<close>

definition kvR :: ShardKV where
  "kvR = projr (readSnapshotL (encodeSnapshot kvA) (start2 1))"

lemma replicaR: "replica (start2 1) [putA, removeOp 2 [7] 2 (-1) 0] kvR"
proof (rule replica.snapshot [OF replicaA])
  show "replica (start2 1) [] (start2 1)" by (rule replica.start) (simp_all add: start2_sel)
  show "readSnapshotL (encodeSnapshot kvA) (start2 1) = Inr kvR"
    by (simp add: kvR_def readSnapshotL_def encodeSnapshot_def)
qed

theorem replicas_agree_witness:
  "kvMap kvR = kvMap kvA \<and> lastOps kvR = lastOps kvA \<and> fst (applyOpL getA kvR) = fst (applyOpL getA kvA)"
  using replicas_agree [OF replicaR replicaA, of getA] by simp

definition value_of :: "ShardKV \<Rightarrow> string \<Rightarrow> string" where
  "value_of kv k = (case kvMap kv k of Some v \<Rightarrow> v | None \<Rightarrow> [])"

text \<open>
  What an operation is answered, on every branch. A repeated operation gets the remembered
  result and changes nothing; an operation for a shard that the group does not serve is refused
  and changes nothing, not even the session, so that the client can repeat it elsewhere; else
  Put and Append answer with the new value, and Get with the value or \<open>ErrNoKey\<close> if it is empty.
\<close>

theorem shardkv_answers:
  "(\<forall>lastOp. sameLastOp op kv = Some lastOp \<longrightarrow>
      applyOpL op kv = (\<lparr>res_err = OK, res_value = GetResult lastOp, res_op = None\<rparr>, kv)) \<and>
    (sameLastOp op kv = None \<and> OpType op \<notin> {opAddShards, opRemoveShards} \<and> \<not> valid kv (key2shard (Key op)) \<longrightarrow>
      applyOpL op kv = (\<lparr>res_err = ErrWrongGroup, res_value = [], res_op = None\<rparr>, kv)) \<and>
    (sameLastOp op kv = None \<and> valid kv (key2shard (Key op)) \<longrightarrow>
      (OpType op = opPut \<longrightarrow> fst (applyOpL op kv) = \<lparr>res_err = OK, res_value = Val op, res_op = None\<rparr> \<and>
        kvMap (snd (applyOpL op kv)) = (kvMap kv)(Key op \<mapsto> Val op)) \<and>
      (OpType op = opAppend \<longrightarrow>
        fst (applyOpL op kv) = \<lparr>res_err = OK, res_value = value_of kv (Key op) @ Val op, res_op = None\<rparr> \<and>
        kvMap (snd (applyOpL op kv)) = (kvMap kv)(Key op \<mapsto> value_of kv (Key op) @ Val op)) \<and>
      (OpType op = opGet \<longrightarrow> fst (applyOpL op kv) =
          \<lparr>res_err = (if value_of kv (Key op) = [] then ErrNoKey else OK), res_value = value_of kv (Key op), res_op = None\<rparr> \<and>
        kvMap (snd (applyOpL op kv)) = kvMap kv))"
  by (auto simp: applyOpL_def zeroResult_def Let_def value_of_def)

theorem shardkv_answers_witness:
  "applyOpL getA kvA = (\<lparr>res_err = ErrWrongGroup, res_value = [], res_op = None\<rparr>, kvA) \<and>
   fst (applyOpL getA kvP) = \<lparr>res_err = OK, res_value = ''x'', res_op = None\<rparr>"
proof -
  have "sameLastOp getA kvA = None"
    using takes_kvP by (simp add: sameLastOp_def isSame_def getA_def kvA_eq lastOps_apply1 adds_def kvP_sel)
  moreover have "sameLastOp getA kvP = None" by (simp add: sameLastOp_def isSame_def getA_def kvP_sel)
  ultimately show ?thesis
    using shardkv_answers [of getA kvA] shardkv_answers [of getA kvP] by (simp add: getA_def shardA kvA_sel kvP_sel value_of_def)
qed

subsection \<open>Sessions move with the shards\<close>

text \<open>
  A client's session moves with the shard. When a group adds shards whose former owner has
  executed the client's operation \<open>i\<close>, and \<open>i\<close> is larger than what the group knows of the client,
  then a repeated request is not executed again but gets the remembered answer, and the group's
  map has the data of the shard.
\<close>

theorem session_moves:
  assumes "adds (addOp args c' i') kv" and "hs_LastOps args c = Some \<lparr>lo_ClientId = c, lo_OpId = i, GetResult = r\<rparr>"
    and "i > (case lastOps kv c of Some l \<Rightarrow> lo_OpId l | None \<Rightarrow> 0)" and "c \<noteq> c'"
  shows "applyOpL (clientOp t k v c i) (apply1 (addOp args c' i') kv) =
    (\<lparr>res_err = OK, res_value = r, res_op = None\<rparr>, apply1 (addOp args c' i') kv)"
proof -
  have "lastOps (apply1 (addOp args c' i') kv) c = Some \<lparr>lo_ClientId = c, lo_OpId = i, GetResult = r\<rparr>"
    using assms by (auto simp: lastOps_apply1 addLastOps_def adds_def)
  then have "sameLastOp (clientOp t k v c i) (apply1 (addOp args c' i') kv) =
      Some \<lparr>lo_ClientId = c, lo_OpId = i, GetResult = r\<rparr>"
    by (simp add: sameLastOp_def isSame_def)
  then show ?thesis by (simp add: applyOpL_def zeroResult_def)
qed

definition argsS :: HandOffShardsArgs where
  "argsS = argsA\<lparr>hs_LastOps := [5 \<mapsto> \<lparr>lo_ClientId = 5, lo_OpId = 3, GetResult = ''x''\<rparr>]\<rparr>"

lemma adds_argsS: "adds (addOp argsS (-2) 0) (start2 2)"
  by (simp add: adds_def executed_def sameLastOp_def start2_sel notNewShardsL_def)

theorem session_moves_witness:
  "fst (applyOpL (clientOp opAppend ''a'' ''y'' 5 3) (apply1 (addOp argsS (-2) 0) (start2 2))) =
     \<lparr>res_err = OK, res_value = ''x'', res_op = None\<rparr>"
  using session_moves [OF adds_argsS, of 5 3 "''x''" opAppend "''a''" "''y''"]
  by (simp add: argsS_def start2_sel)

text \<open>
  C39: the first operation of a client is executed twice if its shard moves before the client has
  the answer. Clerks number their operations from 0, and \<open>applyAddShardsL\<close> takes over a session
  only if its number exceeds the one it reads for the client, which is 0 where there is none:
  an Append that the old group has executed is appended again by the new one.
\<close>

theorem first_append_twice:
  assumes "adds (addOp args c' i') kv" and "hs_Shards args = [key2shard k]"
    and "hs_KVMap args k = Some (x @ v)" and "lastOps kv c = None" and "c \<noteq> c'"
    and "hs_LastOps args c = Some \<lparr>lo_ClientId = c, lo_OpId = 0, GetResult = x @ v\<rparr>"
  shows "kvMap (applyLog [addOp args c' i', clientOp opAppend k v c 0] kv) k = Some (x @ v @ v)"
proof -
  let ?kv = "apply1 (addOp args c' i') kv" and ?op = "clientOp opAppend k v c 0"
  have "lastOps ?kv c = None" using assms by (auto simp: lastOps_apply1 addLastOps_def adds_def)
  moreover have "valid ?kv (key2shard k)" using assms(1,2) by (simp add: valid_apply1)
  ultimately have "executed ?op ?kv" by (simp add: executed_def sameLastOp_def)
  moreover have "kvMap ?kv k = Some (x @ v)" using assms(1-3) by (simp add: kvMap_apply1 addKVMap_def)
  ultimately have "kvMap (apply1 ?op ?kv) k = Some (x @ v @ v)"
    by (simp add: kvMap_apply1 adds_def write_op_def)
  then show ?thesis by (simp add: applyLog_def)
qed

definition argsT :: HandOffShardsArgs where
  "argsT = \<lparr>hs_Gid = 1, hs_Sid = 0, hs_ConfigNum = 2, hs_Shards = [7], hs_KVMap = [''a'' \<mapsto> ''x''],
     hs_LastOps = [5 \<mapsto> \<lparr>lo_ClientId = 5, lo_OpId = 0, GetResult = ''x''\<rparr>]\<rparr>"

lemma adds_argsT: "adds (addOp argsT (-2) 0) (start2 2)"
  by (simp add: adds_def executed_def sameLastOp_def start2_sel notNewShardsL_def)

theorem first_append_twice_witness:
  "kvMap (applyLog [addOp argsT (-2) 0, clientOp opAppend ''a'' ''x'' 5 0] (start2 2)) ''a'' = Some ''xx''"
  using first_append_twice [OF adds_argsT, of "''a''" "[]" "''x''" 5] by (simp add: argsT_def start2_sel shardA)

subsection \<open>Handoffs that fail\<close>

lemma handOffLoop_no_servers: "handOffLoop fuel [] si rs = None"
  by (induction fuel arbitrary: si) auto

lemma pollStep_fold_one:
  assumes "\<forall>(s, gid) \<in> set xs. gid = g" and "g \<noteq> kv_gid kv"
  shows "fold (pollStep kv) xs [(g, ss)] = [(g, ss @ filter (valid kv) (map fst xs))]"
  using assms by (induction xs arbitrary: ss) (auto simp: pollStep_def getd_def)

lemma pollStep_fold_start:
  assumes "\<forall>(s, gid) \<in> set xs. gid = g" and "g \<noteq> kv_gid kv"
  shows "fold (pollStep kv) xs [] =
    (if filter (valid kv) (map fst xs) = [] then [] else [(g, filter (valid kv) (map fst xs))])"
  using assms
proof (induction xs)
  case (Cons x xs)
  then show ?case using pollStep_fold_one [of xs g kv] by (auto simp: pollStep_def getd_def)
qed simp

text \<open>
  The servers of the last group hang when it leaves. The controller then assigns all shards to
  group 0, which has no servers; the group's leader removes its shards for group 0, and the
  loop of \<open>handOffL\<close> over no servers never ends, while it holds the server's lock.
\<close>

theorem last_leave_hangs:
  assumes "Shards conf = replicate NShards 0" and "Groups conf = []" and "kv_gid kv \<noteq> 0"
    and "0 \<le> s" and "s < int NShards" and "valid kv s"
  shows "pollConfig conf kv = [(Num conf, filter (valid kv) allShards, 0)] \<and>
    (\<forall>fuel rs. handOffL fuel conf 0 rs = None)"
proof -
  have z: "map fst (zip (map int [0..<NShards]) (replicate NShards (0 :: int))) = allShards"
    by (simp add: allShards_def)
  have "s \<in> set allShards" using assms(4,5) by (auto simp: allShards_def intro!: image_eqI [of _ _ "nat s"])
  then have "filter (valid kv) allShards \<noteq> []" using assms(6) by (auto simp: filter_empty_conv)
  moreover have "\<forall>(s, gid) \<in> set (zip (map int [0..<NShards]) (replicate NShards (0 :: int))). gid = 0"
    by (fastforce dest: set_zip_rightD)
  ultimately have "fold (pollStep kv) (zip (map int [0..<NShards]) (replicate NShards 0)) [] = [(0, filter (valid kv) allShards)]"
    using pollStep_fold_start [of "zip (map int [0..<NShards]) (replicate NShards 0)" 0 kv] assms(3)
    unfolding z by simp
  then show ?thesis
    using assms(1,2) by (simp add: pollConfig_def handOffL_def handOffLoop_no_servers getd_def)
qed

theorem last_leave_hangs_witness:
  "pollConfig \<lparr>Num = 2, Shards = replicate NShards 0, Groups = []\<rparr> (start2 1) = [(2, filter (valid (start2 1)) allShards, 0)]"
  using last_leave_hangs [of "\<lparr>Num = 2, Shards = replicate NShards 0, Groups = []\<rparr>" "start2 1" 0]
  by (simp add: start2_sel start2_valid NShards_def)

text \<open>
  A handoff that is done stays pending in two cases. The operation \<open>HandOffDone\<close> has the empty
  key, so that a group that does not serve shard 0 refuses it as one of a wrong group; and a
  server that got the operation from another one, or has read its handoffs from a snapshot, has
  other addresses in its keys, and deletes nothing. The leader then hands the shards off again in
  every round.
\<close>

theorem handoff_done_ineffective:
  assumes "\<forall>h' \<in> set (pendingHandoffs kv). \<forall>p. h_Shards h' = Some p \<longrightarrow> address p < heap kv"
    and "heap kv \<le> a" and "h_Shards h = Some p" and "slice p \<noteq> []"
  shows "(\<not> valid kv 0 \<longrightarrow> apply1 (doneOp h c i) kv = kv) \<and>
    pendingHandoffs (apply1 (gobOp a (doneOp h c i)) kv) = pendingHandoffs kv"
proof
  have "key2shard [] = 0" by (simp add: key2shard_def)
  then show "\<not> valid kv 0 \<longrightarrow> apply1 (doneOp h c i) kv = kv"
    by (auto intro!: apply1_not_executed simp: executed_def)
  have "\<not> sameKey (gobHandoff a h) h'" if "h' \<in> set (pendingHandoffs kv)" for h'
    using that assms by (cases "h_Shards h'") (auto simp: sameKey_def)
  then have "deleteHandoff (gobHandoff a h) (pendingHandoffs kv) = pendingHandoffs kv"
    by (auto simp: deleteHandoff_def filter_id_conv)
  then show "pendingHandoffs (apply1 (gobOp a (doneOp h c i)) kv) = pendingHandoffs kv"
    by (simp add: pendingHandoffs_apply1 takes_def gobOp_def del: gobHandoff.simps)
qed

definition handoffA :: Handoff where
  "handoffA = \<lparr>h_Gid = 2, h_ConfigNum = 2, h_Shards = Some \<lparr>address = 0, slice = [7]\<rparr>\<rparr>"

theorem handoff_done_ineffective_witness:
  "pendingHandoffs kvA = [handoffA] \<and>
   pendingHandoffs (apply1 (gobOp 1 (doneOp handoffA (-1) 1)) kvA) = [handoffA]"
proof -
  have "pendingHandoffs kvA = [handoffA]" "heap kvA = 1"
    using takes_kvP executed_putA start2_sel(7)
    by (simp_all add: kvA_eq kvP_def pendingHandoffs_apply1 heap_apply1 takes_def addHandoff_def putA_def start2_sel handoffA_def)
  with handoff_done_ineffective [of kvA 1 handoffA "\<lparr>address = 0, slice = [7]\<rparr>" "-1" 1] show ?thesis
    by (simp add: handoffA_def)
qed

subsection \<open>Old configurations\<close>

lemma lost_stays_lost:
  assumes "(group_step kv0)\<^sup>*\<^sup>* w w'" and "groups_inv kv0 w" and "\<forall>p. \<not> located kv0 w s p"
  shows "groups_inv kv0 w' \<and> (\<forall>p. \<not> located kv0 w' s p)"
  using assms
proof (induction rule: rtranclp_induct)
  case (step w1 w2)
  then have inv: "groups_inv kv0 w1" and lost: "\<forall>p. \<not> located kv0 w1 s p" by auto
  have commit: "\<forall>p. \<not> located kv0 (commit kv0 g op w1) s p" if "sound_add kv0 w1 g op" for g op
  proof (intro allI notI)
    fix p assume "located kv0 (commit kv0 g op w1) s p"
    from located_commit [OF this] lost have in_op: "s \<in> set (op_Shards op)"
      and "adds op (gstate kv0 w1 g) \<or> takes op (gstate kv0 w1 g)" by auto
    then show False
    proof (elim disjE)
      assume "adds op (gstate kv0 w1 g)"
      from sound_addE [OF that this in_op] lost show False by blast
    next
      assume "takes op (gstate kv0 w1 g)"
      from takes_valid [OF this in_op] lost [rule_format, of "Owner g"] show False by simp
    qed
  qed
  from step.hyps(2) have "\<forall>p. \<not> located kv0 w2 s p"
  proof cases
    case (send g j kv h args)
    have "located kv0 w2 s p = located kv0 w1 s p" for p
      by (cases p) (auto simp: send gstate_def open_transfer_def)
    then show ?thesis using lost by simp
  next
    case (add g args c i)
    then show ?thesis using commit sound_add_message [OF inv] by simp
  next
    case (client g t k v c i)
    then show ?thesis using commit [OF sound_add_other] by simp
  next
    case (remove g j kv num shards gid conf i)
    then show ?thesis using commit [OF sound_add_other] by simp
  next
    case (finish g h c i)
    then show ?thesis using commit [OF sound_add_other] by simp
  qed
  then show ?case using groups_inv_step [OF step.hyps(2) inv] by simp
qed simp

text \<open>
  A shard is lost if a leader acts on an old configuration. When a group serves a shard
  again that it had handed over earlier, and its leader then commits the removal of that earlier
  configuration once more, the other group answers the handoff as already received; from then
  on no group ever serves the shard.
\<close>

theorem stale_config_loses_shard:
  assumes "\<forall>g. fresh_group conf g (kv0 g)" and "reachable_world kv0 w"
    and "takes (removeOp n ss G c i) (gstate kv0 w g)" and "notNewShardsL n ss (gstate kv0 w G)"
    and "s \<in> set ss" and "(group_step kv0)\<^sup>*\<^sup>* (commit kv0 g (removeOp n ss G c i) w) w'"
  shows "\<not> valid (gstate kv0 w' h) s"
proof -
  let ?op = "removeOp n ss G c i" and ?w = "commit kv0 g (removeOp n ss G c i) w"
  have inv: "groups_inv kv0 w" using reachable_groups_inv [of conf kv0] assms(1,2) by simp
  then have inv': "groups_inv kv0 ?w" by (rule groups_inv_commit) (simp add: sound_add_other)
  have o: "located kv0 w s (Owner g)" using takes_valid [OF assms(3)] assms(5) by simp
  have "\<not> located kv0 ?w s p" for p
  proof
    assume p: "located kv0 ?w s p"
    have "p \<noteq> Owner g" using p assms(3,5) by (auto simp: gstate_commit valid_apply1 adds_def)
    moreover have "p \<noteq> Transit g (moved ?op)"
      using p assms(4) by (auto simp: open_transfer_def moved_def notNew_commit)
    ultimately have "located kv0 w s p" using located_commit [OF p] by blast
    with o inv \<open>p \<noteq> Owner g\<close> show False unfolding groups_inv_def by (blast dest: one_placeD)
  qed
  then have "\<not> located kv0 w' s (Owner h)" using lost_stays_lost [OF assms(6) inv'] by blast
  then show ?thesis by simp
qed

text \<open>The run above goes on: the shard moves back to group 1 by configuration 3.\<close>

definition conf3 :: Config where
  "conf3 = conf1\<lparr>Num := 3\<rparr>"

definition kvB :: ShardKV where "kvB = apply1 (addOp argsA (-2) 0) (start2 2)"

definition kvC :: ShardKV where "kvC = apply1 (removeOp 3 [7] 1 (-2) 1) kvB"

definition argsB :: HandOffShardsArgs where
  "argsB = \<lparr>hs_Gid = 2, hs_Sid = 0, hs_ConfigNum = 3, hs_Shards = [7],
     hs_KVMap = kvMap kvC, hs_LastOps = lastOps kvC\<rparr>"

definition worldB :: world where
  "worldB = commit start2 1 (addOp argsB (-1) 1)
     ((commit start2 2 (removeOp 3 [7] 1 (-2) 1) worldA)\<lparr>msgs := {(1, argsB), (2, argsA)}\<rparr>)"

lemma kvB_sel: "valid kvB s \<longleftrightarrow> s = 7" "kv_gid kvB = 2" "kv_me kvB = 0" "clientId kvB = -2" "pendingHandoffs kvB = []"
  "notNewShardsL 2 [7] kvB" "lastOps kvB (-2) = Some \<lparr>lo_ClientId = -2, lo_OpId = 0, GetResult = []\<rparr>"
proof -
  show "valid kvB s \<longleftrightarrow> s = 7" "notNewShardsL 2 [7] kvB"
    using adds_argsA worldA_state(1) by (auto simp: kvB_def notNew_apply1 worldA_group2 argsA_def)
  show "kv_gid kvB = 2" "kv_me kvB = 0" "clientId kvB = -2" by (simp_all add: kvB_def start2_sel)
  show "pendingHandoffs kvB = []" by (simp add: kvB_def pendingHandoffs_apply1 takes_def start2_sel)
  have "executed (addOp argsA (-2) 0) (start2 2)" using adds_argsA by (simp add: adds_def)
  then show "lastOps kvB (-2) = Some \<lparr>lo_ClientId = -2, lo_OpId = 0, GetResult = []\<rparr>"
    by (simp add: kvB_def lastOps_apply1 applyOpL_def executed_def zeroResult_def Let_def)
qed

lemma takes_kvB: "takes (removeOp 3 [7] 1 (-2) 1) kvB" "executed (removeOp 3 [7] 1 (-2) 1) kvB"
  by (simp_all add: takes_def executed_def sameLastOp_def isSame_def kvB_sel removed_def)

lemma replicaB: "replica (start2 2) [addOp argsA (-2) 0] kvB"
proof -
  let ?op = "addOp argsA (-2) 0"
  have "replica (start2 2) ([] @ [?op]) (apply1 (?op\<lparr>op_Handoff := op_Handoff ?op\<rparr>) (start2 2))"
    by (rule replica.apply_op, rule replica.start) (simp_all add: start2_sel)
  then show ?thesis by (simp add: kvB_def)
qed

lemma replicaC: "replica (start2 2) [addOp argsA (-2) 0, removeOp 3 [7] 1 (-2) 1] kvC"
proof -
  let ?op = "removeOp 3 [7] 1 (-2) 1"
  have "replica (start2 2) ([addOp argsA (-2) 0] @ [?op]) (apply1 (?op\<lparr>op_Handoff := op_Handoff ?op\<rparr>) kvB)"
    by (rule replica.apply_op [OF replicaB])
  then show ?thesis by (simp add: kvC_def)
qed

lemma worldB_reachable: "reachable_world start2 worldB"
proof -
  let ?r = "removeOp 3 [7] 1 (-2) 1"
  let ?w5 = "commit start2 2 ?r worldA"
  let ?w6 = "?w5\<lparr>msgs := {(1, argsB), (2, argsA)}\<rparr>"
  have l: "logs worldA 2 = [addOp argsA (-2) 0]" "logs ?w5 2 = [addOp argsA (-2) 0, ?r]"
    by (simp_all add: worldA_def world0_def)
  have m: "msgs worldA = {(2, argsA)}" by (simp add: worldA_def)
  have "(3, [7], 1) \<in> set (pollConfig conf3 kvB)"
    by (simp add: pollConfig_def pollStep_def conf3_def conf1_def NShards_def kvB_sel numeral_eq_Suc getd_def)
  with group_step.remove [of start2 2 1 worldA kvB 3 "[7]" 1 conf3 1] replicaB l(1)
  have 1: "group_step start2 worldA ?w5" by (simp add: kvB_sel)
  let ?h = "\<lparr>h_Gid = 1, h_ConfigNum = 3, h_Shards = Some \<lparr>address = heap kvB, slice = [7]\<rparr>\<rparr>"
  have "pendingHandoffs kvC = [?h]" "kv_gid kvC = 2" "kv_me kvC = 0"
    using takes_kvB by (simp_all add: kvC_def pendingHandoffs_apply1 kvB_sel addHandoff_def)
  then have "?h \<in> set (pendingHandoffs kvC)" "handOffArgs ?h kvC = Inr argsB"
    by (simp_all add: handOffArgs_def argsB_def copy_id)
  with group_step.send [of start2 2 2 ?w5 kvC ?h argsB] replicaC l(2)
  have 2: "group_step start2 ?w5 ?w6" by (simp add: m)
  have 3: "group_step start2 ?w6 worldB" unfolding worldB_def by (rule group_step.add) simp
  have "(group_step start2)\<^sup>*\<^sup>* worldA worldB"
    by (rule converse_rtranclp_into_rtranclp, rule 1, rule converse_rtranclp_into_rtranclp, rule 2,
        rule r_into_rtranclp, rule 3)
  then show ?thesis using worldA_reachable unfolding reachable_world_def by (rule rtranclp_trans [rotated])
qed

lemma worldB_states:
  "gstate start2 worldB 1 = apply1 (addOp argsB (-1) 1) kvA" "gstate start2 worldB 2 = kvC"
  by (simp_all add: worldB_def worldA_def gstate_def world0_def applyLog_def kvA_def kvC_def kvB_def)

lemma adds_argsB: "adds (addOp argsB (-1) 1) kvA"
proof -
  have "receivedHandoffs kvA = Map.empty" "lastOps kvA (-1) = Some \<lparr>lo_ClientId = -1, lo_OpId = 0, GetResult = []\<rparr>"
    using takes_kvP
    by (simp_all add: kvA_eq receivedHandoffs_apply1 lastOps_apply1 adds_def kvP_sel applyOpL_def executed_def zeroResult_def Let_def)
  then show ?thesis by (simp add: adds_def executed_def sameLastOp_def isSame_def notNewShardsL_def)
qed

lemma stale_removal:
  "takes (removeOp 2 [7] 2 (-1) 2) (gstate start2 worldB 1)" "notNewShardsL 2 [7] (gstate start2 worldB 2)"
proof -
  have "executed (addOp argsB (-1) 1) kvA" using adds_argsB by (simp add: adds_def)
  then have "\<exists>r. lastOps (gstate start2 worldB 1) (-1) = Some \<lparr>lo_ClientId = -1, lo_OpId = 1, GetResult = r\<rparr>"
    by (simp add: worldB_states lastOps_apply1)
  moreover have "valid (gstate start2 worldB 1) 7" using adds_argsB by (simp add: worldB_states valid_apply1 argsB_def)
  ultimately show "takes (removeOp 2 [7] 2 (-1) 2) (gstate start2 worldB 1)"
    by (auto simp: takes_def executed_def sameLastOp_def isSame_def removed_def)
  show "notNewShardsL 2 [7] (gstate start2 worldB 2)"
    by (simp add: worldB_states kvC_def notNew_apply1 kvB_sel)
qed

theorem stale_config_loses_shard_witness:
  "reachable_world start2 worldB \<and> valid (gstate start2 worldB 1) 7 \<and>
   \<not> valid (gstate start2 (commit start2 1 (removeOp 2 [7] 2 (-1) 2) worldB) 1) 7"
  using stale_config_loses_shard [OF start2_fresh worldB_reachable stale_removal, of 7 _ 1] worldB_reachable
    takes_valid [OF stale_removal(1), of 7] by simp

end
