(* ===== verification/Go_Strconv.thy ===== *)
theory Go_Strconv
  imports Main
begin

text \<open>
  Decimal numbers in strings, as \<^verbatim>\<open>strconv.Itoa\<close> and \<^verbatim>\<open>fmt\<close> print them: the names of files and of servers contain them, and
  different numbers give different names.
\<close>

text \<open>Decimal numbers, as \<open>fmt\<close> and \<open>strconv\<close> print them.\<close>

fun itoa :: "nat \<Rightarrow> string" where
  "itoa n = (if n < 10 then [char_of (48 + n)] else itoa (n div 10) @ [char_of (48 + n mod 10)])"

declare itoa.simps [simp del]

lemma itoa_digits: "c \<in> set (itoa n) \<Longrightarrow> 48 \<le> (of_char c :: nat) \<and> (of_char c :: nat) < 58"
proof (induction n rule: itoa.induct)
  case (1 n)
  show ?case
  proof (cases "n < 10")
    case True
    then show ?thesis using "1.prems" by (simp add: itoa.simps [of n])
  next
    case False
    then have "c \<in> set (itoa (n div 10)) \<or> c = char_of (48 + n mod 10)"
      using "1.prems" by (auto simp: itoa.simps [of n])
    then show ?thesis using "1.IH" [OF False] by (auto simp: less_le_trans [of "n mod 10" 10])
  qed
qed

fun atoi :: "string \<Rightarrow> nat \<Rightarrow> nat" where
  "atoi [] v = v"
| "atoi (c # cs) v = atoi cs (v * 10 + (of_char c - 48))"

lemma atoi_append: "atoi (xs @ ys) v = atoi ys (atoi xs v)"
  by (induction xs arbitrary: v) auto

lemma atoi_itoa: "atoi (itoa n) 0 = n"
proof (induction n rule: itoa.induct)
  case (1 n)
  then show ?case by (cases "n < 10") (simp_all add: itoa.simps [of n] atoi_append)
qed

lemma itoa_inj [simp]: "itoa m = itoa n \<longleftrightarrow> m = n"
  by (metis atoi_itoa)

lemma itoa_no_dash: "CHR ''-'' \<notin> set (itoa n)"
  using itoa_digits [of "CHR ''-''" n] by auto

lemma itoa_nonempty: "itoa n \<noteq> []"
  by (simp add: itoa.simps [of n])

lemma itoa_not_o: "itoa n = c # cs \<Longrightarrow> c \<noteq> CHR ''o''"
  using itoa_digits [of c n] by auto

lemma append_dash: "d \<notin> set b \<Longrightarrow> d \<notin> set b' \<Longrightarrow> a @ d # b = a' @ d # b' \<longleftrightarrow> a = a' \<and> b = b'"
  by (auto simp: append_eq_append_conv2 append_eq_Cons_conv Cons_eq_append_conv)

text \<open>\<open>strconv.Itoa\<close>, for a number that may be negative.\<close>

definition Itoa :: "int \<Rightarrow> string" where
  "Itoa i = (if i < 0 then CHR ''-'' # itoa (nat (- i)) else itoa (nat i))"

lemma Itoa_inj: "Itoa i = Itoa j \<longleftrightarrow> i = j"
proof -
  have "CHR ''-'' # xs \<noteq> itoa n" for xs n using itoa_no_dash [of n] by (metis list.set_intros(1))
  from this this [symmetric] show ?thesis by (auto simp: Itoa_def)
qed

end
