(* ===== verification/MR_Worker.thy ===== *)
theory MR_Worker
  imports Sessions Go_Strconv "HOL-Library.Word" "HOL-Library.AList" "HOL-Library.Char_ord" "HOL-Library.List_Lexorder"
    "HOL-Library.Sublist"
begin

text \<open>
  The MapReduce worker of \<^verbatim>\<open>mr/worker.go\<close>, the sequential program of
  \<^verbatim>\<open>main/mrsequential.go\<close> and the applications \<^verbatim>\<open>mrapps/wc.go\<close> and
  \<^verbatim>\<open>mrapps/indexer.go\<close>. Files are an association list from names to contents; a
  rename into place is one update. Temporary files are values that no other process sees. Strings are lists of bytes,
  compared as Go compares them. What the JSON decoder reads from a file is a parameter.
  Errors of the file system other than a missing input file are left out.
\<close>

unbundle bit_operations_syntax

subsection \<open>Keys, values and hashes\<close>

record KeyValue =
  Key :: string
  Value :: string

definition Less :: "KeyValue \<Rightarrow> KeyValue \<Rightarrow> bool" where
  "Less a b \<longleftrightarrow> Key a < Key b"

text \<open>The 32-bit FNV-1a hash of the standard library.\<close>

definition fnv32a :: "string \<Rightarrow> 32 word" where
  "fnv32a bytes = fold (\<lambda>b h. (h XOR of_char b) * 16777619) bytes 2166136261"

definition ihash :: "string \<Rightarrow> int" where
  "ihash key = uint (fnv32a key AND 0x7fffffff)"

subsection \<open>Files\<close>

text \<open>
  A file as it was written: by a JSON encoder from a sequence of pairs, or as a text of lines.
\<close>

datatype content = Json "KeyValue list" | Text "string list"

type_synonym files = "(string \<times> content) list"

definition interName :: "nat \<Rightarrow> nat \<Rightarrow> string" where
  "interName mapId reduceId = ''mr-'' @ itoa mapId @ ''-'' @ itoa reduceId"

definition outName :: "nat \<Rightarrow> string" where
  "outName reduceId = ''mr-out-'' @ itoa reduceId"

text \<open>The names that match \<open>mr-*-r\<close>, in the order in which \<open>Glob\<close> returns them.\<close>

definition glob :: "nat \<Rightarrow> files \<Rightarrow> string list" where
  "glob reduceId fs = sort (filter (\<lambda>name. prefix ''mr-'' name \<and> suffix (''-'' @ itoa reduceId) name \<and>
     length name \<ge> 3 + length (''-'' @ itoa reduceId)) (map fst fs))"

subsection \<open>Map tasks\<close>

text \<open>The loop that adds each pair to the file of its bucket.\<close>

fun encodeAll :: "int \<Rightarrow> KeyValue list \<Rightarrow> KeyValue list list \<Rightarrow> KeyValue list list go" where
  "encodeAll nReduce [] encs = Inr encs"
| "encodeAll nReduce (kv # kva) encs =
     (if nReduce = 0 then Inl DivideByZero
      else let i = ihash (Key kv) mod nReduce in
        gbind (idx encs i) (\<lambda>enc.
        gbind (set_idx encs i (enc @ [kv])) (encodeAll nReduce kva)))"

text \<open>The temporary files of a map task, and the step that renames one of them into place.\<close>

definition writeTemp :: "KeyValue list \<Rightarrow> nat \<Rightarrow> KeyValue list list go" where
  "writeTemp kva nReduce = encodeAll (int nReduce) kva (replicate nReduce [])"

definition renameTemp :: "nat \<Rightarrow> KeyValue list list \<Rightarrow> nat \<Rightarrow> files \<Rightarrow> files" where
  "renameTemp mapId encs i = AList.update (interName mapId i) (Json (encs ! i))"

definition writeIntermediateFile :: "KeyValue list \<Rightarrow> nat \<Rightarrow> nat \<Rightarrow> files \<Rightarrow> files go" where
  "writeIntermediateFile kva mapId nReduce fs =
     gbind (writeTemp kva nReduce) (\<lambda>encs. Inr (fold (renameTemp mapId encs) [0..<nReduce] fs))"

text \<open>\<open>_mapf\<close>; \<open>input\<close> gives the contents of the input files that can be read.\<close>

type_synonym mapfun = "string \<Rightarrow> string \<Rightarrow> KeyValue list"
type_synonym reducefun = "string \<Rightarrow> string list \<Rightarrow> string"

definition openInput :: "(string \<rightharpoonup> string) \<Rightarrow> string \<Rightarrow> string go" where
  "openInput input fileName =
     (case input fileName of None \<Rightarrow> Inl (LogFatal (''cannot open '' @ fileName)) | Some content \<Rightarrow> Inr content)"

definition mapf' :: "mapfun \<Rightarrow> (string \<rightharpoonup> string) \<Rightarrow> string \<Rightarrow> nat \<Rightarrow> nat \<Rightarrow> files \<Rightarrow> files go" where
  "mapf' mapf input fileName mapId nReduce fs =
     gbind (openInput input fileName) (\<lambda>content. writeIntermediateFile (mapf fileName content) mapId nReduce fs)"

subsection \<open>Reduce tasks\<close>

text \<open>
  The loop over groups of equal keys in a sorted list, which the worker and the sequential
  program share: \<open>j\<close> is where the group that starts at \<open>i\<close> ends.
\<close>

function reduceLoop :: "reducefun \<Rightarrow> KeyValue list \<Rightarrow> string list" where
  "reduceLoop reducef [] = []"
| "reduceLoop reducef (kv # kva) =
     (let same = takeWhile (\<lambda>kv'. Key kv' = Key kv) kva;
          values = Value kv # map Value same;
          output = reducef (Key kv) values
      in (Key kv @ '' '' @ output @ [CHR 0x0A]) # reduceLoop reducef (drop (length same) kva))"
  by pat_completeness auto
termination
  by (relation "measure (length \<circ> snd)") auto

text \<open>
  \<open>_reducef\<close>. The sort is not stable, so it is a parameter \<open>srt\<close>; \<open>dec\<close> is what the loop with the JSON decoder reads from
  a file before the first error. The pattern also matches the name of the output file of the same task, if there is one.
\<close>

definition readFile :: "(content \<Rightarrow> KeyValue list) \<Rightarrow> files \<Rightarrow> string \<Rightarrow> KeyValue list" where
  "readFile dec fs name = (case map_of fs name of Some c \<Rightarrow> dec c | None \<Rightarrow> [])"

definition reduceLines ::
    "(KeyValue list \<Rightarrow> KeyValue list) \<Rightarrow> (content \<Rightarrow> KeyValue list) \<Rightarrow> reducefun \<Rightarrow> nat \<Rightarrow> files \<Rightarrow> string list" where
  "reduceLines srt dec reducef reduceId fs =
     (let kva = concat (map (readFile dec fs) (glob reduceId fs));
          kva = srt kva
      in reduceLoop reducef kva)"

definition reducef' ::
    "(KeyValue list \<Rightarrow> KeyValue list) \<Rightarrow> (content \<Rightarrow> KeyValue list) \<Rightarrow> reducefun \<Rightarrow> nat \<Rightarrow> files \<Rightarrow> files" where
  "reducef' srt dec reducef reduceId fs =
     AList.update (outName reduceId) (Text (reduceLines srt dec reducef reduceId fs)) fs"

subsection \<open>The sequential program\<close>

text \<open>The \<open>main\<close> function of \<open>mrsequential\<close> after it has loaded the application; it returns the lines of
  its output file.\<close>

fun readAll :: "mapfun \<Rightarrow> (string \<rightharpoonup> string) \<Rightarrow> string list \<Rightarrow> KeyValue list \<Rightarrow> KeyValue list go" where
  "readAll mapf input [] intermediate = Inr intermediate"
| "readAll mapf input (filename # filenames) intermediate =
     (case input filename of
        None \<Rightarrow> Inl (LogFatal (''cannot open '' @ filename))
      | Some content \<Rightarrow> readAll mapf input filenames (intermediate @ mapf filename content))"

definition mrsequential ::
    "(KeyValue list \<Rightarrow> KeyValue list) \<Rightarrow> mapfun \<Rightarrow> reducefun \<Rightarrow> (string \<rightharpoonup> string) \<Rightarrow> string list \<Rightarrow> string list go" where
  "mrsequential srt mapf reducef input filenames =
     gbind (readAll mapf input filenames []) (\<lambda>intermediate. Inr (reduceLoop reducef (srt intermediate)))"

subsection \<open>Applications\<close>

text \<open>\<open>strings.FieldsFunc\<close> with \<open>unicode.IsLetter\<close>: the maximal runs of letters. \<open>isLetter\<close> is a
  parameter; texts are sequences of one-byte characters.\<close>

function fieldsFunc :: "(char \<Rightarrow> bool) \<Rightarrow> string \<Rightarrow> string list" where
  "fieldsFunc sep s =
     (case dropWhile sep s of
        [] \<Rightarrow> []
      | c # cs \<Rightarrow> (c # takeWhile (\<lambda>x. \<not> sep x) cs) # fieldsFunc sep (dropWhile (\<lambda>x. \<not> sep x) cs))"
  by pat_completeness auto
termination
proof (relation "measure (length \<circ> snd)")
  fix sep :: "char \<Rightarrow> bool" and s c cs
  assume "dropWhile sep s = c # cs"
  then have "length (c # cs) \<le> length s" by (metis length_dropWhile_le)
  then show "((sep, dropWhile (\<lambda>x. \<not> sep x) cs), sep, s) \<in> measure (length \<circ> snd)"
    using length_dropWhile_le [of "\<lambda>x. \<not> sep x" cs] by auto
qed auto

declare fieldsFunc.simps [simp del]

definition wc_Map :: "(char \<Rightarrow> bool) \<Rightarrow> mapfun" where
  "wc_Map isLetter filename contents =
     map (\<lambda>w. \<lparr>Key = w, Value = ''1''\<rparr>) (fieldsFunc (\<lambda>r. \<not> isLetter r) contents)"

definition wc_Reduce :: reducefun where
  "wc_Reduce key values = itoa (length values)"

text \<open>The set of words of a document, in some order of the map \<open>m\<close>; and the sorted documents.\<close>

definition indexer_Map :: "(char \<Rightarrow> bool) \<Rightarrow> mapfun" where
  "indexer_Map isLetter document value =
     map (\<lambda>w. \<lparr>Key = w, Value = document\<rparr>) (remdups (fieldsFunc (\<lambda>x. \<not> isLetter x) value))"

fun join :: "string \<Rightarrow> string list \<Rightarrow> string" where
  "join sep [] = []"
| "join sep [s] = s"
| "join sep (s # ss) = s @ sep @ join sep ss"

definition indexer_Reduce :: reducefun where
  "indexer_Reduce key values =
     (let values = sort values in itoa (length values) @ '' '' @ join '','' values)"

end
