(* ===== verification/MR_Equiv.thy ===== *)
theory MR_Equiv
  imports MR_Worker
begin

text \<open>
  Why the partition of the pairs into buckets does not change the result: the lines that the
  reduce loop prints depend only on which pairs there are, and every key is in one bucket. Also
  the facts on file names that keep the files of different tasks apart.
\<close>

subsection \<open>The lines of the output\<close>

definition values_of :: "string \<Rightarrow> KeyValue list \<Rightarrow> string list" where
  "values_of k kva = map Value (filter (\<lambda>kv. Key kv = k) kva)"

definition line :: "string \<Rightarrow> string \<Rightarrow> string" where
  "line k output = k @ '' '' @ output @ [CHR 0x0A]"

definition outlines :: "reducefun \<Rightarrow> KeyValue list \<Rightarrow> string multiset" where
  "outlines f kva = (\<Sum>k \<in> Key ` set kva. {# line k (f k (values_of k kva)) #})"

definition order_free :: "reducefun \<Rightarrow> bool" where
  "order_free f \<longleftrightarrow> (\<forall>k vs vs'. mset vs = mset vs' \<longrightarrow> f k vs = f k vs')"

definition sorts :: "(KeyValue list \<Rightarrow> KeyValue list) \<Rightarrow> bool" where
  "sorts srt \<longleftrightarrow> (\<forall>kva. mset (srt kva) = mset kva \<and> sorted (map Key (srt kva)))"

lemma reduceLoop_outlines:
  "sorted (map Key kva) \<Longrightarrow> mset (reduceLoop f kva) = outlines f kva"
proof (induction f kva rule: reduceLoop.induct)
  case (2 f kv kva)
  let ?same = "takeWhile (\<lambda>kv'. Key kv' = Key kv) kva" and ?rest = "dropWhile (\<lambda>kv'. Key kv' = Key kv) kva"
  have rest: "drop (length ?same) kva = ?rest" by (simp add: dropWhile_eq_drop)
  have kva: "kva = ?same @ ?rest" by simp
  have same: "\<forall>x \<in> set ?same. Key x = Key kv" by (auto dest: set_takeWhileD)
  have sorted: "sorted (map Key ?rest)" "\<forall>x \<in> set kva. Key kv \<le> Key x"
  proof -
    have "sorted (map Key kva)" "\<forall>x \<in> set kva. Key kv \<le> Key x" using 2(2) by auto
    moreover have "map Key ?rest = drop (length ?same) (map Key kva)" unfolding rest [symmetric] by (rule drop_map [symmetric])
    ultimately show "sorted (map Key ?rest)" "\<forall>x \<in> set kva. Key kv \<le> Key x" using sorted_wrt_drop by metis+
  qed
  have new: "Key x \<noteq> Key kv" if "x \<in> set ?rest" for x
  proof (cases ?rest)
    case (Cons y ys)
    then have "Key y \<noteq> Key kv" using hd_dropWhile [of "\<lambda>kv'. Key kv' = Key kv" kva] by simp
    moreover have "Key y \<le> Key x" using sorted(1) that Cons by auto
    moreover have "Key kv \<le> Key y" using sorted(2) kva Cons by (metis in_set_conv_decomp)
    ultimately show ?thesis by auto
  next
    case Nil
    then show ?thesis using that by (metis empty_iff list.set(1))
  qed
  have keys: "Key ` set (kv # kva) = insert (Key kv) (Key ` set ?rest)" "Key kv \<notin> Key ` set ?rest"
  proof -
    have "set kva = set ?same \<union> set ?rest" using kva set_append by metis
    then have "Key ` set kva = Key ` set ?same \<union> Key ` set ?rest" by (simp only: image_Un)
    moreover have "Key ` set ?same \<subseteq> {Key kv}" using same by blast
    ultimately show "Key ` set (kv # kva) = insert (Key kv) (Key ` set ?rest)" by auto
    show "Key kv \<notin> Key ` set ?rest" using new by (metis imageE)
  qed
  have v1: "values_of (Key kv) (kv # kva) = Value kv # map Value ?same"
  proof -
    have "filter (\<lambda>x. Key x = Key kv) ?rest = []" unfolding filter_empty_conv using new by blast
    moreover have "filter (\<lambda>x. Key x = Key kv) ?same = ?same" unfolding filter_id_conv using same by blast
    ultimately have "filter (\<lambda>x. Key x = Key kv) kva = ?same" by (metis append_Nil2 filter_append kva)
    then show ?thesis by (simp add: values_of_def)
  qed
  have v2: "values_of k (kv # kva) = values_of k ?rest" if "k \<in> Key ` set ?rest" for k
  proof -
    have "k \<noteq> Key kv" using that keys(2) by metis
    then have "filter (\<lambda>x. Key x = k) ?same = []" unfolding filter_empty_conv using same by metis
    then have "filter (\<lambda>x. Key x = k) kva = filter (\<lambda>x. Key x = k) ?rest" by (metis append_Nil filter_append kva)
    then show ?thesis using \<open>k \<noteq> Key kv\<close> by (auto simp: values_of_def)
  qed
  have "mset (reduceLoop f ?rest) = outlines f ?rest"
    using "2.IH" [OF refl refl refl] sorted(1) by (simp add: rest)
  moreover have "outlines f (kv # kva) =
      {# line (Key kv) (f (Key kv) (Value kv # map Value ?same)) #} + outlines f ?rest"
    unfolding outlines_def keys(1) using keys(2) v1 v2 by (simp cong: sum.cong)
  ultimately show ?case by (simp add: Let_def rest line_def)
qed (simp add: outlines_def)

lemma outlines_perm:
  assumes "order_free f" and "mset xs = mset ys"
  shows "outlines f xs = outlines f ys"
proof -
  have "mset (values_of k xs) = mset (values_of k ys)" for k
    using assms(2) by (simp add: values_of_def)
  then have "f k (values_of k xs) = f k (values_of k ys)" for k
    using assms(1) unfolding order_free_def by blast
  then show ?thesis unfolding outlines_def mset_eq_setD [OF assms(2)] by simp
qed

lemma outlines_sorted:
  assumes "order_free f" and "sorts srt"
  shows "mset (reduceLoop f (srt kva)) = outlines f kva"
proof -
  have "mset (srt kva) = mset kva" "sorted (map Key (srt kva))" using assms(2) by (auto simp: sorts_def)
  then show ?thesis using reduceLoop_outlines outlines_perm [OF assms(1)] by metis
qed

text \<open>Splitting the pairs by a function of their key splits the lines.\<close>

lemma outlines_buckets:
  assumes "\<And>k. h k < n"
  shows "outlines f kva = (\<Sum>r < (n :: nat). outlines f (filter (\<lambda>kv. h (Key kv) = r) kva))"
proof -
  let ?g = "\<lambda>k. {# line k (f k (values_of k kva)) #}"
  have "outlines f (filter (\<lambda>kv. h (Key kv) = r) kva) = sum ?g {k \<in> Key ` set kva. h k = r}" for r
  proof -
    have "Key ` set (filter (\<lambda>kv. h (Key kv) = r) kva) = {k \<in> Key ` set kva. h k = r}" by auto
    moreover have "values_of k (filter (\<lambda>kv. h (Key kv) = r) kva) = values_of k kva" if "h k = r" for k
      using that by (auto simp: values_of_def intro!: arg_cong [of _ _ "map Value"] filter_cong)
    ultimately show ?thesis unfolding outlines_def by (auto intro: sum.cong)
  qed
  moreover have "(\<Sum>r < n. sum ?g {k \<in> Key ` set kva. h k = r}) = sum ?g (Key ` set kva)"
    using sum.group [of "Key ` set kva" "{..<n}" h ?g] assms by auto
  ultimately show ?thesis by (simp add: outlines_def)
qed

subsection \<open>Names\<close>

lemma interName_inj [simp]: "interName m r = interName m' r' \<longleftrightarrow> m = m' \<and> r = r'"
  using append_dash [OF itoa_no_dash itoa_no_dash, of "''mr-'' @ itoa m" r "''mr-'' @ itoa m'" r']
  by (simp add: interName_def)

lemma outName_inj [simp]: "outName r = outName r' \<longleftrightarrow> r = r'"
  by (simp add: outName_def)

lemma interName_outName [simp]: "interName m r \<noteq> outName r'" "outName r' \<noteq> interName m r"
  using itoa_nonempty [of m] itoa_not_o [of m] by (cases "itoa m"; auto simp: interName_def outName_def)+

definition matches :: "nat \<Rightarrow> string \<Rightarrow> bool" where
  "matches reduceId name \<longleftrightarrow> prefix ''mr-'' name \<and> suffix (''-'' @ itoa reduceId) name \<and>
     length name \<ge> 3 + length (''-'' @ itoa reduceId)"

lemma matches_interName [simp]: "matches R (interName m r) \<longleftrightarrow> r = R"
proof
  assume "matches R (interName m r)"
  then obtain zs where "interName m r = zs @ CHR ''-'' # itoa R" by (auto simp: matches_def suffix_def)
  then show "r = R"
    using append_dash [OF itoa_no_dash itoa_no_dash, of "''mr-'' @ itoa m" r zs R] by (simp add: interName_def)
next
  assume "r = R"
  moreover have "suffix (CHR ''-'' # itoa R) (interName m R)"
    unfolding suffix_def by (rule exI [of _ "''mr-'' @ itoa m"]) (simp add: interName_def)
  ultimately show "matches R (interName m r)" by (simp add: matches_def) (simp add: interName_def)
qed

lemma set_glob: "set (glob r fs) = {name \<in> fst ` set fs. matches r name}"
  by (auto simp: glob_def matches_def)

lemma distinct_glob: "distinct (map fst fs) \<Longrightarrow> distinct (glob r fs)"
  by (simp add: glob_def)

subsection \<open>Buckets\<close>

definition bucket :: "nat \<Rightarrow> string \<Rightarrow> nat" where
  "bucket n k = nat (ihash k mod int n)"

lemma ihash_bounds: "0 \<le> ihash k \<and> ihash k < 2 ^ 31"
proof -
  have "fnv32a k AND 0x7fffffff = take_bit 31 (fnv32a k)"
    by (simp add: take_bit_eq_mask mask_eq_exp_minus_1)
  then have "ihash k = take_bit 31 (uint (fnv32a k))" by (simp add: ihash_def unsigned_take_bit_eq)
  then show ?thesis using take_bit_int_less_exp [of 31 "uint (fnv32a k)"] by simp
qed

lemma bucket_less: "0 < n \<Longrightarrow> bucket n k < n"
  by (simp add: bucket_def nat_less_iff)

lemma encodeAll_buckets:
  assumes "0 < n" and "length encs = n"
  shows "encodeAll (int n) kva encs = Inr (map (\<lambda>i. encs ! i @ filter (\<lambda>kv. bucket n (Key kv) = i) kva) [0..<n])"
  using assms(2)
proof (induction kva arbitrary: encs)
  case Nil
  then show ?case using map_nth [of encs] by simp
next
  case (Cons kv kva)
  let ?i = "bucket n (Key kv)"
  have i: "ihash (Key kv) mod int n = int ?i" "?i < n" using assms(1) bucket_less by (auto simp: bucket_def)
  have "encodeAll (int n) (kv # kva) encs = encodeAll (int n) kva (encs[?i := encs ! ?i @ [kv]])"
    using assms(1) i Cons.prems by (simp add: Let_def idx_def set_idx_def)
  also have "\<dots> = Inr (map (\<lambda>i. encs[?i := encs ! ?i @ [kv]] ! i @ filter (\<lambda>kv. bucket n (Key kv) = i) kva) [0..<n])"
    using Cons.IH Cons.prems by simp
  also have "\<dots> = Inr (map (\<lambda>i. encs ! i @ filter (\<lambda>kv. bucket n (Key kv) = i) (kv # kva)) [0..<n])"
    using Cons.prems by (auto simp: nth_list_update)
  finally show ?case .
qed

end
