(* ===== verification/MR_Coordinator.thy ===== *)
theory MR_Coordinator
  imports Go_Util
begin

text \<open>
  The MapReduce coordinator of \<^verbatim>\<open>mr/coordinator.go\<close>: it hands out map tasks and then reduce
  tasks, takes a task back ten seconds after it was given if it is not completed, and counts
  the completed ones. Tasks are pointers in the code; here a task is named by its type and its
  position in the list of that type. The server loop that listens for RPCs is not modelled.
\<close>

datatype TaskType = MapTask | ReduceTask | NoIdle | Exit

datatype TaskState = Idle | InProgress | Completed

record Task =
  taskType :: TaskType
  taskState :: TaskState
  taskId :: int
  fileName :: string
  workerId :: int

text \<open>The maps of the coordinator have the keys \<open>MapTask\<close> and \<open>ReduceTask\<close>; reading another key
  gives the zero value.\<close>

record Coordinator =
  task :: "TaskType \<Rightarrow> Task list"
  remain :: "TaskType \<Rightarrow> int"
  nReduce :: int

record GetTaskArgs =
  ga_WorkerId :: int

record GetTaskReply =
  gr_TaskType :: TaskType
  gr_TaskId :: int
  gr_FileName :: string
  gr_NReduce :: int

record ReportTaskDoneArgs =
  ra_TaskType :: TaskType
  ra_TaskId :: int
  ra_WorkerId :: int

text \<open>\<open>chooseTask\<close> returns the first idle task; \<open>None\<close> stands for the task of type \<open>NoIdle\<close>.\<close>

fun chooseTask :: "Task list \<Rightarrow> nat option" where
  "chooseTask [] = None"
| "chooseTask (t # ts) =
     (if taskState t = Idle then Some 0 else map_option Suc (chooseTask ts))"

definition updateTask :: "TaskType \<Rightarrow> nat \<Rightarrow> (Task \<Rightarrow> Task) \<Rightarrow> Coordinator \<Rightarrow> Coordinator" where
  "updateTask ty i f c = c\<lparr>task := (task c)(ty := (task c ty)[i := f (task c ty ! i)])\<rparr>"

definition emptyReply :: "TaskType \<Rightarrow> GetTaskReply" where
  "emptyReply ty = \<lparr>gr_TaskType = ty, gr_TaskId = 0, gr_FileName = [], gr_NReduce = 0\<rparr>"

text \<open>
  The handler of \<open>GetTask\<close>. It gives the reply, the new state, and the task for which it starts
  the goroutine \<open>waitTaskDone\<close>.
\<close>

definition giveTask ::
    "TaskType \<Rightarrow> GetTaskArgs \<Rightarrow> Coordinator \<Rightarrow> GetTaskReply \<times> Coordinator \<times> (TaskType \<times> nat) option" where
  "giveTask ty args c =
     (case chooseTask (task c ty) of
        None \<Rightarrow> (emptyReply NoIdle, c, None)
      | Some i \<Rightarrow>
          let c = updateTask ty i (\<lambda>t. t\<lparr>taskState := InProgress, workerId := ga_WorkerId args\<rparr>) c;
              t = task c ty ! i
          in (\<lparr>gr_TaskType = taskType t, gr_TaskId = taskId t, gr_FileName = fileName t, gr_NReduce = nReduce c\<rparr>,
              c, Some (ty, i)))"

definition GetTask ::
    "GetTaskArgs \<Rightarrow> Coordinator \<Rightarrow> GetTaskReply \<times> Coordinator \<times> (TaskType \<times> nat) option" where
  "GetTask args c =
     (if remain c MapTask > 0 then giveTask MapTask args c
      else if remain c ReduceTask > 0 then giveTask ReduceTask args c
      else (emptyReply Exit, c, None))"

text \<open>\<open>waitTaskDone\<close> after its sleep.\<close>

definition waitTaskDone :: "TaskType \<times> nat \<Rightarrow> Coordinator \<Rightarrow> Coordinator" where
  "waitTaskDone = (\<lambda>(ty, i) c.
     if taskState (task c ty ! i) \<noteq> Completed
     then updateTask ty i (\<lambda>t. t\<lparr>taskState := Idle, workerId := NA\<rparr>) c else c)"

definition ReportTaskDone :: "ReportTaskDoneArgs \<Rightarrow> Coordinator \<Rightarrow> Coordinator go" where
  "ReportTaskDone args c =
     (let ty = ra_TaskType args in
      gbind (idx (task c ty) (ra_TaskId args)) (\<lambda>t.
      let i = nat (ra_TaskId args) in
      if taskState t = InProgress
      then Inr ((updateTask ty i (\<lambda>t. t\<lparr>taskState := Completed\<rparr>) c)
                 \<lparr>remain := (remain c)(ty := remain c ty - 1)\<rparr>)
      else Inr (updateTask ty i (\<lambda>t. t\<lparr>taskState := Idle\<rparr>) c)))"

definition Done :: "Coordinator \<Rightarrow> bool" where
  "Done c \<longleftrightarrow> remain c MapTask \<le> 0 \<and> remain c ReduceTask \<le> 0"

definition mapTask :: "int \<Rightarrow> string \<Rightarrow> Task" where
  "mapTask i file = \<lparr>taskType = MapTask, taskState = Idle, taskId = i, fileName = file, workerId = NA\<rparr>"

definition reduceTask :: "int \<Rightarrow> Task" where
  "reduceTask i = \<lparr>taskType = ReduceTask, taskState = Idle, taskId = i, fileName = [], workerId = NA\<rparr>"

definition MakeCoordinator :: "string list \<Rightarrow> nat \<Rightarrow> Coordinator" where
  "MakeCoordinator files n =
     \<lparr>task = (\<lambda>ty. case ty of
        MapTask \<Rightarrow> map (\<lambda>(i, file). mapTask (int i) file) (zip [0..<length files] files)
      | ReduceTask \<Rightarrow> map (\<lambda>i. reduceTask (int i)) [0..<n]
      | _ \<Rightarrow> []),
      remain = (\<lambda>ty. case ty of MapTask \<Rightarrow> int (length files) | ReduceTask \<Rightarrow> int n | _ \<Rightarrow> 0),
      nReduce = int n\<rparr>"

subsection \<open>The coordinator and its workers\<close>

text \<open>
  A state of the job: the coordinator, the timers that wait, and which tasks were ever reported
  as done, by a worker that had been given them. The steps: a worker asks for a task; a timer
  fires, whenever it likes; a worker reports a task that it was given.
\<close>

record job =
  coord :: Coordinator
  timers :: "(TaskType \<times> nat) list"
  given :: "(int \<times> TaskType \<times> nat) set"
  reported :: "(TaskType \<times> nat) set"

definition job0 :: "string list \<Rightarrow> nat \<Rightarrow> job" where
  "job0 files n = \<lparr>coord = MakeCoordinator files n, timers = [], given = {}, reported = {}\<rparr>"

definition askStep :: "int \<Rightarrow> job \<Rightarrow> job" where
  "askStep worker j =
     (case GetTask \<lparr>ga_WorkerId = worker\<rparr> (coord j) of
        (reply, c, None) \<Rightarrow> j\<lparr>coord := c\<rparr>
      | (reply, c, Some t) \<Rightarrow> j\<lparr>coord := c, timers := t # timers j, given := insert (worker, t) (given j)\<rparr>)"

definition reportStep :: "int \<Rightarrow> TaskType \<times> nat \<Rightarrow> job \<Rightarrow> job go" where
  "reportStep worker = (\<lambda>(ty, i) j.
     gbind (ReportTaskDone \<lparr>ra_TaskType = ty, ra_TaskId = int i, ra_WorkerId = worker\<rparr> (coord j)) (\<lambda>c.
     Inr (j\<lparr>coord := c, reported := insert (ty, i) (reported j)\<rparr>)))"

inductive mr_step :: "job \<Rightarrow> job \<Rightarrow> bool" where
  ask: "mr_step j (askStep worker j)"
| timer: "t \<in> set (timers j) \<Longrightarrow>
    mr_step j (j\<lparr>coord := waitTaskDone t (coord j), timers := remove1 t (timers j)\<rparr>)"
| report: "(worker, t) \<in> given j \<Longrightarrow> reportStep worker t j = Inr j' \<Longrightarrow> mr_step j j'"

text \<open>A report is on time if the task is in progress when it arrives.\<close>

definition on_time :: "TaskType \<times> nat \<Rightarrow> job \<Rightarrow> bool" where
  "on_time = (\<lambda>(ty, i) j. taskState (task (coord j) ty ! i) = InProgress)"

inductive timely_step :: "job \<Rightarrow> job \<Rightarrow> bool" where
  ask: "timely_step j (askStep worker j)"
| timer: "t \<in> set (timers j) \<Longrightarrow>
    timely_step j (j\<lparr>coord := waitTaskDone t (coord j), timers := remove1 t (timers j)\<rparr>)"
| report: "(worker, t) \<in> given j \<Longrightarrow> on_time t j \<Longrightarrow> reportStep worker t j = Inr j' \<Longrightarrow> timely_step j j'"

end
