(* ===== verification/MR_Props.thy ===== *)
theory MR_Props
  imports MR_Coordinator
begin

text \<open>
  What the coordinator guarantees when reports arrive on time, and what goes wrong when a task
  is reported twice.
\<close>

subsection \<open>Counting\<close>

definition unfinished :: "Task list \<Rightarrow> nat" where
  "unfinished ts = length (filter (\<lambda>t. taskState t \<noteq> Completed) ts)"

lemma unfinished_update:
  assumes "i < length ts"
  shows "unfinished (ts[i := t]) + (if taskState (ts ! i) \<noteq> Completed then 1 else 0) =
    unfinished ts + (if taskState t \<noteq> Completed then 1 else 0)"
  using assms
proof (induction ts arbitrary: i)
  case (Cons x xs)
  then show ?case by (cases i) (auto simp: unfinished_def)
qed simp

lemma unfinished_zero: "unfinished ts = 0 \<longleftrightarrow> (\<forall>t \<in> set ts. taskState t = Completed)"
  by (auto simp: unfinished_def filter_empty_conv)

lemma chooseTask_Some:
  "chooseTask ts = Some i \<Longrightarrow> i < length ts \<and> taskState (ts ! i) = Idle \<and> (\<forall>j < i. taskState (ts ! j) \<noteq> Idle)"
proof (induction ts arbitrary: i)
  case (Cons t ts)
  then show ?case by (cases i) (auto simp: less_Suc_eq_0_disj split: if_splits)
qed simp

lemma updateTask_sel [simp]:
  "task (updateTask ty i f c) ty' = (if ty' = ty then (task c ty)[i := f (task c ty ! i)] else task c ty')"
  "remain (updateTask ty i f c) = remain c" "nReduce (updateTask ty i f c) = nReduce c"
  by (simp_all add: updateTask_def)

subsection \<open>The invariant of timely runs\<close>

text \<open>
  The counters are exact, completed tasks were reported, and no reduce task has been given out
  unless every map task is completed. The names in timers and in workers' hands are those of
  tasks that exist.
\<close>

definition job_inv :: "job \<Rightarrow> bool" where
  "job_inv j \<longleftrightarrow>
     (\<forall>ty. remain (coord j) ty = int (unfinished (task (coord j) ty))) \<and>
     (\<forall>ty i. i < length (task (coord j) ty) \<longrightarrow> taskState (task (coord j) ty ! i) = Completed \<longrightarrow> (ty, i) \<in> reported j) \<and>
     (\<forall>ty i. (ty, i) \<in> set (timers j) \<longrightarrow> i < length (task (coord j) ty)) \<and>
     (\<forall>w ty i. (w, ty, i) \<in> given j \<longrightarrow> i < length (task (coord j) ty)) \<and>
     (\<forall>w i. (w, ReduceTask, i) \<in> given j \<longrightarrow> unfinished (task (coord j) MapTask) = 0)"

lemma job_inv_start: "job_inv (job0 files n)"
proof -
  have idle: "taskState t = Idle" if "t \<in> set (task (MakeCoordinator files n) ty)" for t ty
    using that by (auto simp: MakeCoordinator_def mapTask_def reduceTask_def split: TaskType.splits)
  then have "unfinished (task (MakeCoordinator files n) ty) = length (task (MakeCoordinator files n) ty)" for ty
    by (simp add: unfinished_def idle)
  moreover have "int (length (task (MakeCoordinator files n) ty)) = remain (MakeCoordinator files n) ty" for ty
    by (simp add: MakeCoordinator_def split: TaskType.splits)
  moreover have "taskState (task (MakeCoordinator files n) ty ! i) \<noteq> Completed"
    if "i < length (task (MakeCoordinator files n) ty)" for ty i
    using idle [OF nth_mem [OF that]] by simp
  ultimately show ?thesis by (simp add: job_inv_def job0_def)
qed

lemma job_inv_give:
  assumes inv: "job_inv j" and g: "giveTask ty args (coord j) = (reply, c, r)"
    and w: "ty = ReduceTask \<Longrightarrow> remain (coord j) MapTask \<le> 0"
  shows "job_inv (case r of None \<Rightarrow> j\<lparr>coord := c\<rparr>
    | Some t \<Rightarrow> j\<lparr>coord := c, timers := t # timers j, given := insert (worker, t) (given j)\<rparr>)"
proof (cases "chooseTask (task (coord j) ty)")
  case None
  then show ?thesis using inv g by (auto simp: giveTask_def)
next
  case (Some i)
  let ?f = "\<lambda>t. t\<lparr>taskState := InProgress, workerId := ga_WorkerId args\<rparr>"
  have i: "i < length (task (coord j) ty)" "taskState (task (coord j) ty ! i) = Idle"
    using chooseTask_Some [OF Some] by auto
  have c: "c = updateTask ty i ?f (coord j)" "r = Some (ty, i)"
    using g Some by (auto simp: giveTask_def Let_def)
  have u: "unfinished (task c ty') = unfinished (task (coord j) ty')" for ty'
    using unfinished_update [OF i(1), of "?f (task (coord j) ty ! i)"] i(2) by (simp add: c)
  have l: "length (task c ty') = length (task (coord j) ty')" for ty' by (simp add: c)
  have s: "taskState (task c ty' ! k) = Completed \<Longrightarrow> k < length (task c ty') \<Longrightarrow> taskState (task (coord j) ty' ! k) = Completed"
    for ty' k by (cases "k = i") (auto simp: c split: if_splits)
  show ?thesis
    using inv w i u l s by (auto simp: job_inv_def c(2)) (auto simp: c(1))
qed

lemma job_inv_ask: "job_inv j \<Longrightarrow> job_inv (askStep worker j)"
proof -
  assume inv: "job_inv j"
  obtain reply c r where g: "GetTask \<lparr>ga_WorkerId = worker\<rparr> (coord j) = (reply, c, r)" by (metis prod_cases3)
  consider "giveTask MapTask \<lparr>ga_WorkerId = worker\<rparr> (coord j) = (reply, c, r)"
    | "remain (coord j) MapTask \<le> 0" "giveTask ReduceTask \<lparr>ga_WorkerId = worker\<rparr> (coord j) = (reply, c, r)"
    | "c = coord j" "r = None"
    using g by (auto simp: GetTask_def split: if_splits)
  then have "job_inv (case r of None \<Rightarrow> j\<lparr>coord := c\<rparr>
    | Some t \<Rightarrow> j\<lparr>coord := c, timers := t # timers j, given := insert (worker, t) (given j)\<rparr>)"
    using inv by cases (auto intro!: job_inv_give)
  then show ?thesis using g by (auto simp: askStep_def split: option.splits)
qed

lemma job_inv_timer:
  assumes inv: "job_inv j" and t: "t \<in> set (timers j)"
  shows "job_inv (j\<lparr>coord := waitTaskDone t (coord j), timers := remove1 t (timers j)\<rparr>)"
proof -
  obtain ty i where ti: "t = (ty, i)" by fastforce
  then have i: "i < length (task (coord j) ty)" using inv t by (auto simp: job_inv_def)
  let ?f = "\<lambda>t. t\<lparr>taskState := Idle, workerId := NA\<rparr>" and ?c = "waitTaskDone t (coord j)"
  have u: "unfinished (task ?c ty') = unfinished (task (coord j) ty')" for ty'
    using unfinished_update [OF i, of "?f (task (coord j) ty ! i)"] by (auto simp: waitTaskDone_def ti)
  have s: "taskState (task ?c ty' ! k) = Completed \<Longrightarrow> k < length (task (coord j) ty') \<Longrightarrow> taskState (task (coord j) ty' ! k) = Completed"
    for ty' k by (cases "k = i") (auto simp: waitTaskDone_def ti split: if_splits)
  have l: "length (task ?c ty') = length (task (coord j) ty')" "remain ?c = remain (coord j)" for ty'
    by (simp_all add: waitTaskDone_def ti)
  have sub: "set (remove1 t (timers j)) \<subseteq> set (timers j)" by (rule set_remove1_subset)
  show ?thesis
    using inv u s l sub unfolding job_inv_def by simp blast
qed

lemma job_inv_report:
  assumes inv: "job_inv j" and g: "(worker, t) \<in> given j" and o: "on_time t j" and r: "reportStep worker t j = Inr j'"
  shows "job_inv j'"
proof -
  obtain ty i where ti: "t = (ty, i)" by fastforce
  then have i: "i < length (task (coord j) ty)" using inv g by (auto simp: job_inv_def)
  let ?f = "\<lambda>t. t\<lparr>taskState := Completed\<rparr>"
  let ?c = "(updateTask ty i ?f (coord j))\<lparr>remain := (remain (coord j))(ty := remain (coord j) ty - 1)\<rparr>"
  have j': "j' = j\<lparr>coord := ?c, reported := insert t (reported j)\<rparr>"
    using r o i by (simp add: reportStep_def ti ReportTaskDone_def on_time_def)
  have u: "unfinished (task ?c ty) + 1 = unfinished (task (coord j) ty)" "ty' \<noteq> ty \<Longrightarrow> task ?c ty' = task (coord j) ty'" for ty'
    using unfinished_update [OF i, of "?f (task (coord j) ty ! i)"] o by (simp_all add: on_time_def ti)
  have l: "length (task ?c ty') = length (task (coord j) ty')" for ty' by simp
  have s: "(ty', k) \<in> insert t (reported j)" if "taskState (task ?c ty' ! k) = Completed" "k < length (task (coord j) ty')" for ty' k
    using that inv by (cases "ty' = ty \<and> k = i") (auto simp: job_inv_def ti nth_list_update split: if_splits)
  have z: "unfinished (task ?c MapTask) = 0" if "unfinished (task (coord j) MapTask) = 0"
    using that u by (cases "ty = MapTask") auto
  have m: "remain ?c ty' = int (unfinished (task ?c ty'))" for ty'
    using inv u by (cases "ty' = ty") (auto simp: job_inv_def)
  show ?thesis
    using inv m l s z unfolding job_inv_def j' by (simp del: updateTask_sel)
qed

text \<open>A report for a task that a timer has made idle changes nothing but the record of reports.\<close>

lemma job_inv_report_idle:
  assumes inv: "job_inv j" and g: "(worker, t) \<in> given j" and o: "taskState (task (coord j) (fst t) ! snd t) = Idle"
    and r: "reportStep worker t j = Inr j'"
  shows "job_inv j'"
proof -
  obtain ty i where ti: "t = (ty, i)" by fastforce
  then have i: "i < length (task (coord j) ty)" using inv g by (auto simp: job_inv_def)
  have "updateTask ty i (\<lambda>t. t\<lparr>taskState := Idle\<rparr>) (coord j) = coord j"
  proof -
    have "(task (coord j) ty ! i)\<lparr>taskState := Idle\<rparr> = task (coord j) ty ! i"
      using o ti by (cases "task (coord j) ty ! i") simp
    then show ?thesis by (cases "coord j") (simp add: updateTask_def)
  qed
  then have "j' = j\<lparr>reported := insert t (reported j)\<rparr>"
    using r o i by (simp add: reportStep_def ti ReportTaskDone_def)
  then show ?thesis using inv by (simp add: job_inv_def)
qed

lemma timely_inv: "timely_step\<^sup>*\<^sup>* (job0 files n) j \<Longrightarrow> job_inv j"
proof (induction rule: rtranclp_induct)
  case (step j1 j2)
  from step.hyps(2) step.IH show ?case
    by cases (auto intro: job_inv_ask job_inv_timer job_inv_report)
qed (rule job_inv_start)

text \<open>
  C31: when every report arrives while its task is in progress, the coordinator keeps exact books:
  the counters are the numbers of unfinished tasks, the job is \<open>Done\<close> exactly when every task is
  completed, every completed task was reported by a worker that had been given it, and a
  worker is given a reduce task only after every map task was reported. Timers may take tasks
  back and hand them to other workers at any time.
\<close>

theorem coordinator_counts:
  assumes "timely_step\<^sup>*\<^sup>* (job0 files n) j"
  shows "(Done (coord j) \<longleftrightarrow> (\<forall>ty \<in> {MapTask, ReduceTask}. \<forall>t \<in> set (task (coord j) ty). taskState t = Completed)) \<and>
    (\<forall>ty. remain (coord j) ty = int (unfinished (task (coord j) ty))) \<and>
    (\<forall>ty i. i < length (task (coord j) ty) \<longrightarrow> taskState (task (coord j) ty ! i) = Completed \<longrightarrow> (ty, i) \<in> reported j) \<and>
    (\<forall>w i. (w, ReduceTask, i) \<in> given j \<longrightarrow>
      (\<forall>k < length (task (coord j) MapTask). (MapTask, k) \<in> reported j))"
proof -
  note inv = timely_inv [OF assms, unfolded job_inv_def]
  have "Done (coord j) \<longleftrightarrow> unfinished (task (coord j) MapTask) = 0 \<and> unfinished (task (coord j) ReduceTask) = 0"
    using inv by (simp add: Done_def)
  moreover have "(MapTask, k) \<in> reported j"
    if "(w, ReduceTask, i) \<in> given j" "k < length (task (coord j) MapTask)" for w i k
    using that inv unfinished_zero [of "task (coord j) MapTask"] by (metis nth_mem)
  ultimately show ?thesis using inv by (simp add: unfinished_zero)
qed

definition job1 :: job where
  "job1 = projr (reportStep 7 (MapTask, 0) (askStep 7 (job0 [''f''] 1)))"

lemma job1_run: "timely_step\<^sup>*\<^sup>* (job0 [''f''] 1) (askStep 8 job1)" and job1_given: "given (askStep 8 job1) = {(8, ReduceTask, 0), (7, MapTask, 0)}"
proof -
  let ?j = "askStep 7 (job0 [''f''] 1)"
  have g: "(7, MapTask, 0) \<in> given ?j" "on_time (MapTask, 0) ?j" "reportStep 7 (MapTask, 0) ?j = Inr job1"
    by (simp_all add: askStep_def job0_def GetTask_def giveTask_def MakeCoordinator_def mapTask_def Let_def
        on_time_def job1_def reportStep_def ReportTaskDone_def updateTask_def idx_def)
  have "timely_step (job0 [''f''] 1) ?j" "timely_step ?j job1" "timely_step job1 (askStep 8 job1)"
    using g by (auto intro: timely_step.intros)
  then show "timely_step\<^sup>*\<^sup>* (job0 [''f''] 1) (askStep 8 job1)" by (meson converse_rtranclp_into_rtranclp rtranclp.rtrancl_refl)
  show "given (askStep 8 job1) = {(8, ReduceTask, 0), (7, MapTask, 0)}"
    by (simp add: askStep_def job0_def GetTask_def giveTask_def MakeCoordinator_def mapTask_def reduceTask_def Let_def
        job1_def reportStep_def ReportTaskDone_def updateTask_def idx_def)
qed

theorem coordinator_counts_witness:
  "(8, ReduceTask, 0) \<in> given (askStep 8 job1) \<and> (MapTask, 0) \<in> reported (askStep 8 job1)"
proof -
  have "length (task (coord (askStep 8 job1)) MapTask) = 1"
    by (simp add: askStep_def job0_def GetTask_def giveTask_def MakeCoordinator_def mapTask_def reduceTask_def Let_def
        job1_def reportStep_def ReportTaskDone_def updateTask_def idx_def)
  then show ?thesis using coordinator_counts [OF job1_run] job1_given by force
qed

subsection \<open>Reports that are late\<close>

text \<open>The run: task 0 is given to worker 1, taken back, given to worker 2, and both report it; then it
  is given to worker 3, who reports it again; the reduce task is given to worker 4, who reports it.\<close>

definition late1 :: "string \<Rightarrow> string \<Rightarrow> job" where
  "late1 f0 f1 = askStep 1 (job0 [f0, f1] 1)"

definition late2 :: "string \<Rightarrow> string \<Rightarrow> job" where
  "late2 f0 f1 = (let j = late1 f0 f1 in
     j\<lparr>coord := waitTaskDone (MapTask, 0) (coord j), timers := remove1 (MapTask, 0) (timers j)\<rparr>)"

definition late3 :: "string \<Rightarrow> string \<Rightarrow> job" where
  "late3 f0 f1 = projr (reportStep 2 (MapTask, 0) (projr (reportStep 1 (MapTask, 0) (askStep 2 (late2 f0 f1)))))"

definition late4 :: "string \<Rightarrow> string \<Rightarrow> job" where
  "late4 f0 f1 = projr (reportStep 3 (MapTask, 0) (askStep 3 (late3 f0 f1)))"

definition late5 :: "string \<Rightarrow> string \<Rightarrow> job" where
  "late5 f0 f1 = projr (reportStep 4 (ReduceTask, 0) (askStep 4 (late4 f0 f1)))"

lemmas late_defs =
  late1_def late2_def late3_def late4_def late5_def askStep_def job0_def GetTask_def giveTask_def MakeCoordinator_def
  mapTask_def reduceTask_def Let_def reportStep_def ReportTaskDone_def updateTask_def idx_def waitTaskDone_def

lemma late_run: "mr_step\<^sup>*\<^sup>* (job0 [f0, f1] 1) (late5 f0 f1)"
proof -
  let ?j3 = "askStep 2 (late2 f0 f1)" and ?j4 = "projr (reportStep 1 (MapTask, 0) (askStep 2 (late2 f0 f1)))"
  have "mr_step (job0 [f0, f1] 1) (late1 f0 f1)" unfolding late1_def by (rule mr_step.ask)
  moreover have "mr_step (late1 f0 f1) (late2 f0 f1)"
    unfolding late2_def Let_def by (rule mr_step.timer) (simp add: late_defs)
  moreover have "mr_step (late2 f0 f1) ?j3" by (rule mr_step.ask)
  moreover have "mr_step ?j3 ?j4" by (rule mr_step.report [of 1 "(MapTask, 0)"]) (simp_all add: late_defs)
  moreover have "mr_step ?j4 (late3 f0 f1)" by (rule mr_step.report [of 2 "(MapTask, 0)"]) (simp_all add: late_defs)
  moreover have "mr_step (late3 f0 f1) (askStep 3 (late3 f0 f1))" by (rule mr_step.ask)
  moreover have "mr_step (askStep 3 (late3 f0 f1)) (late4 f0 f1)"
    by (rule mr_step.report [of 3 "(MapTask, 0)"]) (simp_all add: late_defs)
  moreover have "mr_step (late4 f0 f1) (askStep 4 (late4 f0 f1))" by (rule mr_step.ask)
  moreover have "mr_step (askStep 4 (late4 f0 f1)) (late5 f0 f1)"
    by (rule mr_step.report [of 4 "(ReduceTask, 0)"]) (simp_all add: late_defs)
  ultimately show ?thesis by (meson converse_rtranclp_into_rtranclp rtranclp.rtrancl_refl)
qed

text \<open>
  A late report makes the job end with a file left out. Two workers report the same task, the
  second time it becomes idle again although it was counted, and when it is done and counted
  once more the counter is at 0 with the other map task never given out. With two input files
  and one reduce task the coordinator is \<open>Done\<close> and the second file was given to nobody.
\<close>

theorem late_report_skips_file:
  "\<exists>j. mr_step\<^sup>*\<^sup>* (job0 [f0, f1] 1) j \<and> Done (coord j) \<and> (\<forall>w. (w, MapTask, 1) \<notin> given j) \<and>
     taskState (task (coord j) MapTask ! 1) = Idle"
  using late_run by (intro exI [of _ "late5 f0 f1"]) (simp add: late_defs Done_def)

end
