(* ===== verification/MR_Job.thy ===== *)
theory MR_Job
  imports MR_Equiv MR_Props
begin

text \<open>
  The whole MapReduce job: the coordinator, workers that run the tasks they are given, rename their
  files into place one by one and report them, and the files they share, of which there are none at the start. When the
  coordinator is done and no task was reported after it was completed, the output files together have the lines of the
  sequential program.
\<close>

subsection \<open>Workers\<close>

text \<open>
  What a job is about: the application's functions, the input files that can be read, the sort
  of the standard library, and what its JSON decoder reads from a file.
\<close>

record app =
  mapf :: mapfun
  reducef :: reducefun
  input :: "string \<rightharpoonup> string"
  srt :: "KeyValue list \<Rightarrow> KeyValue list"
  dec :: "content \<Rightarrow> KeyValue list"

text \<open>
  One round of \<open>Worker\<close> after a reply of the coordinator, if nothing else happens meanwhile: whether it goes on, the task
  that it reports, and the files.
\<close>

definition workerRound :: "app \<Rightarrow> GetTaskReply \<Rightarrow> files \<Rightarrow> (bool \<times> (TaskType \<times> int) option \<times> files) go" where
  "workerRound a reply fs =
     (case gr_TaskType reply of
        Exit \<Rightarrow> Inr (False, None, fs)
      | NoIdle \<Rightarrow> Inr (True, None, fs)
      | MapTask \<Rightarrow>
          gbind (mapf' (mapf a) (input a) (gr_FileName reply) (nat (gr_TaskId reply)) (nat (gr_NReduce reply)) fs)
            (\<lambda>fs. Inr (True, Some (MapTask, gr_TaskId reply), fs))
      | ReduceTask \<Rightarrow>
          Inr (True, Some (ReduceTask, gr_TaskId reply),
               reducef' (srt a) (dec a) (reducef a) (nat (gr_TaskId reply)) fs))"

text \<open>
  The same round in steps that others can see: what a worker has to do when its temporary files are written, which is
  to rename them, the files of a map task from the given number on.
\<close>

datatype work = Renaming nat "KeyValue list list" nat | Writing nat "string list"

definition startTask :: "app \<Rightarrow> GetTaskReply \<Rightarrow> files \<Rightarrow> work option go" where
  "startTask a reply fs =
     (case gr_TaskType reply of
        MapTask \<Rightarrow>
          gbind (openInput (input a) (gr_FileName reply)) (\<lambda>content.
          gbind (writeTemp (mapf a (gr_FileName reply) content) (nat (gr_NReduce reply))) (\<lambda>encs.
          Inr (Some (Renaming (nat (gr_TaskId reply)) encs 0))))
      | ReduceTask \<Rightarrow>
          Inr (Some (Writing (nat (gr_TaskId reply))
            (reduceLines (srt a) (dec a) (reducef a) (nat (gr_TaskId reply)) fs)))
      | _ \<Rightarrow> Inr None)"

fun stepTask :: "work \<Rightarrow> files \<Rightarrow> work option \<times> files" where
  "stepTask (Renaming mapId encs i) fs =
     (if i < length encs then (Some (Renaming mapId encs (Suc i)), renameTemp mapId encs i fs) else (None, fs))"
| "stepTask (Writing reduceId ls) fs = (None, AList.update (outName reduceId) (Text ls) fs)"

text \<open>All steps of a worker in a row are its round.\<close>

fun left :: "work \<Rightarrow> nat" where
  "left (Renaming mapId encs i) = Suc (length encs - i)"
| "left (Writing reduceId ls) = 1"

lemma stepTask_left: "stepTask w fs = (Some w', fs') \<Longrightarrow> left w' < left w"
  by (cases w) (auto split: if_splits)

function runTask :: "work \<Rightarrow> files \<Rightarrow> files" where
  "runTask w fs = (case stepTask w fs of (None, fs) \<Rightarrow> fs | (Some w, fs) \<Rightarrow> runTask w fs)"
  by pat_completeness auto
termination
  by (relation "measure (left \<circ> fst)") (auto dest!: stepTask_left [OF sym])

declare runTask.simps [simp del]

lemma runTask_renames: "runTask (Renaming m encs i) fs = fold (renameTemp m encs) [i..<length encs] fs"
proof (induction "length encs - i" arbitrary: i fs)
  case 0
  then show ?case by (simp add: runTask.simps [of "Renaming m encs i"])
next
  case (Suc k)
  then have "i < length encs" by linarith
  with Suc.hyps show ?case
    using Suc.hyps(1) [of "Suc i" "renameTemp m encs i fs"]
    by (simp add: runTask.simps [of "Renaming m encs i"] upt_conv_Cons)
qed

lemma encodeAll_length: "encodeAll n kva encs = Inr encs' \<Longrightarrow> length encs' = length encs"
  by (induction n kva encs rule: encodeAll.induct)
    (auto simp: Let_def gbind_Inr_iff set_idx_def split: if_splits)

lemma workerRound_steps:
  assumes "startTask a reply fs = Inr (Some w)"
  shows "workerRound a reply fs = Inr (True, Some (gr_TaskType reply, gr_TaskId reply), runTask w fs)"
proof (cases "gr_TaskType reply")
  case MapTask
  with assms show ?thesis
    using encodeAll_length
    by (fastforce simp: startTask_def workerRound_def mapf'_def writeIntermediateFile_def writeTemp_def gbind_Inr_iff
        runTask_renames)
next
  case ReduceTask
  with assms show ?thesis
    by (auto simp: startTask_def workerRound_def reducef'_def runTask.simps [of "Writing _ _"])
qed (use assms in \<open>simp_all add: startTask_def\<close>)

text \<open>The reply by which a task is given out; it does not change later.\<close>

definition replyOf :: "Coordinator \<Rightarrow> TaskType \<Rightarrow> nat \<Rightarrow> GetTaskReply" where
  "replyOf c ty i = (let t = task c ty ! i in
     \<lparr>gr_TaskType = taskType t, gr_TaskId = taskId t, gr_FileName = fileName t, gr_NReduce = nReduce c\<rparr>)"

record mrsys =
  sys_job :: job
  sys_files :: files
  working :: "(int \<times> (TaskType \<times> nat) \<times> work) set"
  finished :: "(int \<times> TaskType \<times> nat) set"
  again :: bool

definition sys0 :: "string list \<Rightarrow> nat \<Rightarrow> mrsys" where
  "sys0 files n = \<lparr>sys_job = job0 files n, sys_files = [], working = {}, finished = {}, again = False\<rparr>"

text \<open>
  A worker may start a task at any time after it was given, more than once and long after another worker has reported
  it; it may stop between two renames, and others see what it has renamed. It reports a task only after it has finished
  it, at any time: while the task is in progress, after a timer has made it idle, or after another worker's report has
  completed it. Whether this last case ever occurred is recorded in \<open>again\<close>.
\<close>

definition completed :: "TaskType \<times> nat \<Rightarrow> job \<Rightarrow> bool" where
  "completed = (\<lambda>(ty, i) j. taskState (task (coord j) ty ! i) = Completed)"

inductive sys_step :: "app \<Rightarrow> mrsys \<Rightarrow> mrsys \<Rightarrow> bool" for a where
  ask: "sys_step a s (s\<lparr>sys_job := askStep worker (sys_job s)\<rparr>)"
| timer: "t \<in> set (timers (sys_job s)) \<Longrightarrow>
    sys_step a s (s\<lparr>sys_job := (sys_job s)\<lparr>coord := waitTaskDone t (coord (sys_job s)),
      timers := remove1 t (timers (sys_job s))\<rparr>\<rparr>)"
| start: "(worker, ty, i) \<in> given (sys_job s) \<Longrightarrow>
    startTask a (replyOf (coord (sys_job s)) ty i) (sys_files s) = Inr (Some w) \<Longrightarrow>
    sys_step a s (s\<lparr>working := insert (worker, (ty, i), w) (working s)\<rparr>)"
| move: "(worker, t, w) \<in> working s \<Longrightarrow> stepTask w (sys_files s) = (Some w', fs) \<Longrightarrow>
    sys_step a s (s\<lparr>sys_files := fs, working := insert (worker, t, w') (working s - {(worker, t, w)})\<rparr>)"
| finish: "(worker, t, w) \<in> working s \<Longrightarrow> stepTask w (sys_files s) = (None, fs) \<Longrightarrow>
    sys_step a s (s\<lparr>sys_files := fs, working := working s - {(worker, t, w)},
      finished := insert (worker, t) (finished s)\<rparr>)"
| report: "(worker, t) \<in> finished s \<Longrightarrow> reportStep worker t (sys_job s) = Inr j \<Longrightarrow>
    sys_step a s (s\<lparr>sys_job := j, again := again s \<or> completed t (sys_job s)\<rparr>)"

lemma GetTask_reply: "GetTask args c = (reply, c', Some (ty, i)) \<Longrightarrow> reply = replyOf c' ty i"
  by (auto simp: GetTask_def giveTask_def replyOf_def Let_def split: if_splits option.splits)

subsection \<open>The fixed part of the coordinator\<close>

definition shape :: "Coordinator \<Rightarrow> (TaskType \<Rightarrow> (TaskType \<times> int \<times> string) list) \<times> int" where
  "shape c = (\<lambda>ty. map (\<lambda>t. (taskType t, taskId t, fileName t)) (task c ty), nReduce c)"

lemma shape_updateTask:
  assumes "\<And>t. taskType (f t) = taskType t \<and> taskId (f t) = taskId t \<and> fileName (f t) = fileName t"
  shows "shape (updateTask ty i f c) = shape c"
proof -
  have "map (\<lambda>t. (taskType t, taskId t, fileName t)) (xs[i := f (xs ! i)]) =
      map (\<lambda>t. (taskType t, taskId t, fileName t)) xs" for xs
  proof (rule nth_equalityI)
    fix k
    assume "k < length (map (\<lambda>t. (taskType t, taskId t, fileName t)) (xs[i := f (xs ! i)]))"
    then show "map (\<lambda>t. (taskType t, taskId t, fileName t)) (xs[i := f (xs ! i)]) ! k =
        map (\<lambda>t. (taskType t, taskId t, fileName t)) xs ! k"
      using assms by (cases "k = i") auto
  qed simp
  then show ?thesis by (auto simp: shape_def fun_eq_iff)
qed

lemma shape_remain [simp]: "shape (c\<lparr>remain := r\<rparr>) = shape c"
  by (simp add: shape_def)

lemma shape_ask: "shape (coord (askStep w j)) = shape (coord j)"
  by (auto simp: askStep_def GetTask_def giveTask_def Let_def shape_updateTask split: option.splits if_splits)

lemma shape_wait: "shape (waitTaskDone t c) = shape c"
  by (auto simp: waitTaskDone_def shape_updateTask split: prod.splits)

lemma shape_report: "reportStep w t j = Inr j' \<Longrightarrow> shape (coord j') = shape (coord j)"
  by (auto simp: reportStep_def ReportTaskDone_def Let_def shape_updateTask split: prod.splits if_splits)

lemma shape_eqD:
  assumes "shape c = shape (MakeCoordinator files n)"
  shows "length (task c MapTask) = length files" "length (task c ReduceTask) = n" "task c NoIdle = []" "task c Exit = []"
    "nReduce c = int n"
    "i < length files \<Longrightarrow> replyOf c MapTask i = \<lparr>gr_TaskType = MapTask, gr_TaskId = int i, gr_FileName = files ! i, gr_NReduce = int n\<rparr>"
    "i < n \<Longrightarrow> replyOf c ReduceTask i = \<lparr>gr_TaskType = ReduceTask, gr_TaskId = int i, gr_FileName = [], gr_NReduce = int n\<rparr>"
proof -
  let ?p = "\<lambda>t. (taskType t, taskId t, fileName t)"
  have s: "map ?p (task c ty) = map ?p (task (MakeCoordinator files n) ty)" "nReduce c = nReduce (MakeCoordinator files n)" for ty
    using assms by (auto simp: shape_def fun_eq_iff)
  show len: "length (task c MapTask) = length files" "length (task c ReduceTask) = n" "task c NoIdle = []" "task c Exit = []"
    using map_eq_imp_length_eq [OF s(1) [of MapTask]] map_eq_imp_length_eq [OF s(1) [of ReduceTask]]
      map_eq_imp_length_eq [OF s(1) [of NoIdle]] map_eq_imp_length_eq [OF s(1) [of Exit]]
    by (simp_all add: MakeCoordinator_def)
  show n: "nReduce c = int n" using s(2) by (simp add: MakeCoordinator_def)
  have p: "?p (task c ty ! i) = ?p (task (MakeCoordinator files n) ty ! i)" if "i < length (task c ty)" for ty
    using arg_cong [OF s(1) [of ty], of "\<lambda>xs. xs ! i"] that map_eq_imp_length_eq [OF s(1) [of ty]] by simp
  show "replyOf c MapTask i = \<lparr>gr_TaskType = MapTask, gr_TaskId = int i, gr_FileName = files ! i, gr_NReduce = int n\<rparr>"
    if "i < length files" using p [of MapTask] that n len by (simp add: replyOf_def MakeCoordinator_def mapTask_def)
  show "replyOf c ReduceTask i = \<lparr>gr_TaskType = ReduceTask, gr_TaskId = int i, gr_FileName = [], gr_NReduce = int n\<rparr>"
    if "i < n" using p [of ReduceTask] that n len by (simp add: replyOf_def MakeCoordinator_def reduceTask_def)
qed

subsection \<open>JSON\<close>

text \<open>
  What the code relies on of \<open>encoding/json\<close>. The decoder reads back what the encoder wrote, if the strings are valid
  UTF-8 (other bytes are replaced). Into a struct without a further error it reads only objects and \<open>null\<close>: it reads nothing from a
  text that begins otherwise after white space.
\<close>

fun valid_utf8 :: "nat list \<Rightarrow> bool" where
  "valid_utf8 [] = True"
| "valid_utf8 (b # bs) =
     (let cont = (\<lambda>b. 0x80 \<le> b \<and> b \<le> 0xBF) in
      if b < 0x80 then valid_utf8 bs
      else case bs of
        [] \<Rightarrow> False
      | b1 # bs1 \<Rightarrow>
          if 0xC2 \<le> b \<and> b \<le> 0xDF then cont b1 \<and> valid_utf8 bs1
          else (case bs1 of
            [] \<Rightarrow> False
          | b2 # bs2 \<Rightarrow>
              if 0xE0 \<le> b \<and> b \<le> 0xEF then
                cont b1 \<and> (b = 0xE0 \<longrightarrow> 0xA0 \<le> b1) \<and> (b = 0xED \<longrightarrow> b1 \<le> 0x9F) \<and> cont b2 \<and> valid_utf8 bs2
              else (case bs2 of
                [] \<Rightarrow> False
              | b3 # bs3 \<Rightarrow>
                  0xF0 \<le> b \<and> b \<le> 0xF4 \<and> cont b1 \<and> (b = 0xF0 \<longrightarrow> 0x90 \<le> b1) \<and> (b = 0xF4 \<longrightarrow> b1 \<le> 0x8F) \<and>
                  cont b2 \<and> cont b3 \<and> valid_utf8 bs3)))"

definition utf8_pair :: "KeyValue \<Rightarrow> bool" where
  "utf8_pair kv \<longleftrightarrow> valid_utf8 (map of_char (Key kv)) \<and> valid_utf8 (map of_char (Value kv))"

definition json_space :: "char \<Rightarrow> bool" where
  "json_space c \<longleftrightarrow> c \<in> {CHR '' '', CHR 0x09, CHR 0x0A, CHR 0x0D}"

definition struct_start :: "string \<Rightarrow> bool" where
  "struct_start text = (let s = dropWhile json_space text in prefix ''{'' s \<or> prefix ''null'' s)"

definition json_ok :: "(content \<Rightarrow> KeyValue list) \<Rightarrow> bool" where
  "json_ok decode \<longleftrightarrow> (\<forall>kva. list_all utf8_pair kva \<longrightarrow> decode (Json kva) = kva) \<and>
     (\<forall>ls. \<not> struct_start (concat ls) \<longrightarrow> decode (Text ls) = [])"

text \<open>A key with which a line can begin that the decoder does not take for an object or \<open>null\<close>.\<close>

definition plain_key :: "string \<Rightarrow> bool" where
  "plain_key k = (let s = dropWhile json_space k in s \<noteq> [] \<and> \<not> prefix ''{'' s \<and> \<not> prefix ''null'' s)"

lemma plain_line:
  assumes "plain_key k"
  shows "\<not> struct_start (k @ CHR '' '' # xs)"
proof -
  let ?s = "dropWhile json_space k"
  have s: "?s \<noteq> []" "\<not> prefix ''{'' ?s" "\<not> prefix ''null'' ?s" using assms by (auto simp: plain_key_def Let_def)
  then have "dropWhile json_space (k @ CHR '' '' # xs) = ?s @ CHR '' '' # xs"
    by (metis dropWhile_append dropWhile_eq_Nil_conv)
  moreover have "\<not> prefix ''{'' (?s @ CHR '' '' # xs)" using s(1,2) by (cases ?s) auto
  moreover have "\<not> prefix ''null'' (?s @ CHR '' '' # xs)"
    using s(1,3) by (auto simp: prefix_append append_eq_Cons_conv Cons_eq_append_conv)
  ultimately show ?thesis by (simp add: struct_start_def)
qed

lemma plain_text:
  assumes "\<And>kv. kv \<in> set kva \<Longrightarrow> plain_key (Key kv)"
  shows "\<not> struct_start (concat (reduceLoop f kva))"
proof (cases kva)
  case (Cons kv kvs)
  then show ?thesis using plain_line [of "Key kv"] assms [of kv] by (simp add: Let_def)
qed (simp add: struct_start_def)

subsection \<open>The invariant of the job\<close>

text \<open>The pairs of the map tasks, and those of them that belong to a reduce task.\<close>

definition pairs :: "app \<Rightarrow> string list \<Rightarrow> nat \<Rightarrow> KeyValue list" where
  "pairs a files m = mapf a (files ! m) (the (input a (files ! m)))"

definition all_pairs :: "app \<Rightarrow> string list \<Rightarrow> KeyValue list" where
  "all_pairs a files = concat (map (pairs a files) [0..<length files])"

definition in_bucket :: "nat \<Rightarrow> nat \<Rightarrow> KeyValue list \<Rightarrow> KeyValue list" where
  "in_bucket n r kva = filter (\<lambda>kv. bucket n (Key kv) = r) kva"

text \<open>
  The files are those of tasks, with the contents that they should have, every finished task has its files, and
  workers are about to rename what they should.
\<close>

definition result_lines :: "app \<Rightarrow> string list \<Rightarrow> nat \<Rightarrow> nat \<Rightarrow> string list \<Rightarrow> bool" where
  "result_lines a files n r ls \<longleftrightarrow>
     mset ls = outlines (reducef a) (in_bucket n r (all_pairs a files)) \<and> \<not> struct_start (concat ls)"

definition files_ok :: "app \<Rightarrow> string list \<Rightarrow> nat \<Rightarrow> files \<Rightarrow> bool" where
  "files_ok a files n fs \<longleftrightarrow> distinct (map fst fs) \<and>
     (\<forall>name c. map_of fs name = Some c \<longrightarrow>
       (\<exists>m < length files. \<exists>r < n. name = interName m r \<and> c = Json (in_bucket n r (pairs a files m))) \<or>
       (\<exists>r < n. \<exists>ls. name = outName r \<and> c = Text ls \<and> result_lines a files n r ls))"

fun work_ok :: "app \<Rightarrow> string list \<Rightarrow> nat \<Rightarrow> files \<Rightarrow> TaskType \<times> nat \<Rightarrow> work \<Rightarrow> bool" where
  "work_ok a files n fs t (Renaming m encs i) \<longleftrightarrow>
     t = (MapTask, m) \<and> m < length files \<and> encs = map (\<lambda>r. in_bucket n r (pairs a files m)) [0..<n] \<and>
     (\<forall>r < i. r < n \<longrightarrow> interName m r \<in> dom (map_of fs))"
| "work_ok a files n fs t (Writing r ls) \<longleftrightarrow> t = (ReduceTask, r) \<and> r < n \<and> result_lines a files n r ls"

fun task_files :: "nat \<Rightarrow> TaskType \<times> nat \<Rightarrow> string set" where
  "task_files n (MapTask, m) = interName m ` {..<n}"
| "task_files n (ReduceTask, r) = {outName r}"
| "task_files n _ = {}"

definition sys_inv :: "app \<Rightarrow> string list \<Rightarrow> nat \<Rightarrow> mrsys \<Rightarrow> bool" where
  "sys_inv a files n s \<longleftrightarrow>
     job_inv (sys_job s) \<and> shape (coord (sys_job s)) = shape (MakeCoordinator files n) \<and>
     (\<forall>w t k. (w, t, k) \<in> working s \<longrightarrow> (w, t) \<in> given (sys_job s) \<and> work_ok a files n (sys_files s) t k) \<and>
     finished s \<subseteq> given (sys_job s) \<and> (\<forall>t \<in> reported (sys_job s). \<exists>w. (w, t) \<in> finished s) \<and>
     files_ok a files n (sys_files s) \<and> (\<forall>w t. (w, t) \<in> finished s \<longrightarrow> task_files n t \<subseteq> dom (map_of (sys_files s)))"

text \<open>What the application and the standard library have to satisfy.\<close>

definition good_app :: "app \<Rightarrow> string list \<Rightarrow> bool" where
  "good_app a files \<longleftrightarrow> order_free (reducef a) \<and> sorts (srt a) \<and> json_ok (dec a) \<and>
     (\<forall>f \<in> set files. input a f \<noteq> None) \<and>
     (\<forall>kv \<in> set (all_pairs a files). utf8_pair kv \<and> plain_key (Key kv))"

lemma all_pairs_mem: "m < length files \<Longrightarrow> kv \<in> set (pairs a files m) \<Longrightarrow> kv \<in> set (all_pairs a files)"
  by (auto simp: all_pairs_def)

text \<open>A reduce task that finds the files of all map tasks reads exactly the pairs of its bucket.\<close>

lemma reduce_reads_bucket:
  assumes app: "good_app a files" and ok: "files_ok a files n fs" and R: "R < n"
    and all: "\<And>m. m < length files \<Longrightarrow> interName m R \<in> dom (map_of fs)"
  shows "mset (concat (map (readFile (dec a) fs) (glob R fs))) = mset (in_bucket n R (all_pairs a files))"
proof -
  let ?rd = "\<lambda>name. mset (readFile (dec a) fs name)" and ?I = "(\<lambda>m. interName m R) ` {..<length files}"
  have dec: "json_ok (dec a)" using app by (simp add: good_app_def)
  have inter: "readFile (dec a) fs (interName m R) = in_bucket n R (pairs a files m)" if m: "m < length files" for m
  proof -
    obtain c where c: "map_of fs (interName m R) = Some c" using all [OF m] by auto
    then have "c = Json (in_bucket n R (pairs a files m))" using ok by (fastforce simp: files_ok_def)
    moreover have "list_all utf8_pair (in_bucket n R (pairs a files m))"
      using app all_pairs_mem [OF m] by (fastforce simp: good_app_def list_all_iff in_bucket_def)
    ultimately show ?thesis using c dec by (simp add: readFile_def json_ok_def)
  qed
  have dom: "fst ` set fs = dom (map_of fs)" by (simp add: dom_map_of_conv_image_fst)
  have sub: "?I \<subseteq> set (glob R fs)" using all by (auto simp: set_glob dom)
  have other: "?rd name = {#}" if name: "name \<in> set (glob R fs) - ?I" for name
  proof -
    obtain c where c: "map_of fs name = Some c" "matches R name" using name by (auto simp: set_glob dom)
    then consider m r where "m < length files" "name = interName m r" | ls where "c = Text ls" "\<not> struct_start (concat ls)"
      using ok unfolding files_ok_def result_lines_def by blast
    then show ?thesis
    proof cases
      case (1 m r)
      then show ?thesis using name c(2) by auto
    next
      case (2 ls)
      then show ?thesis using c(1) dec by (simp add: readFile_def json_ok_def)
    qed
  qed
  have "mset (concat (map (readFile (dec a) fs) (glob R fs))) = sum_list (map ?rd (glob R fs))"
    by (simp add: mset_concat comp_def)
  also have "\<dots> = sum ?rd (set (glob R fs))"
    using ok by (intro sum_list_distinct_conv_sum_set distinct_glob) (simp add: files_ok_def)
  also have "\<dots> = sum ?rd ?I"
    by (rule sum.mono_neutral_right) (use sub other in auto)
  also have "\<dots> = (\<Sum>m < length files. mset (in_bucket n R (pairs a files m)))"
    by (subst sum.reindex) (auto simp: inj_on_def inter)
  also have "\<dots> = sum_list (map (\<lambda>m. mset (in_bucket n R (pairs a files m))) [0..<length files])"
    by (simp add: sum_list_distinct_conv_sum_set lessThan_atLeast0)
  also have "\<dots> = mset (in_bucket n R (all_pairs a files))"
    by (simp add: in_bucket_def all_pairs_def filter_concat mset_concat comp_def)
  finally show ?thesis .
qed

lemma reduceLines_result:
  assumes "good_app a files" and "files_ok a files n fs" and "R < n"
    and "\<And>m. m < length files \<Longrightarrow> interName m R \<in> dom (map_of fs)"
  shows "result_lines a files n R (reduceLines (srt a) (dec a) (reducef a) R fs)"
proof -
  let ?kva = "concat (map (readFile (dec a) fs) (glob R fs))"
  have app: "order_free (reducef a)" "sorts (srt a)" using assms(1) by (auto simp: good_app_def)
  have kva: "mset ?kva = mset (in_bucket n R (all_pairs a files))" by (rule reduce_reads_bucket [OF assms])
  moreover have "mset (srt a ?kva) = mset ?kva" using app(2) by (simp add: sorts_def)
  ultimately have "set (srt a ?kva) = set (in_bucket n R (all_pairs a files))" by (metis set_mset_mset)
  then have "plain_key (Key kv)" if "kv \<in> set (srt a ?kva)" for kv
    using assms(1) that by (auto simp: good_app_def in_bucket_def)
  moreover have "mset (reduceLoop (reducef a) (srt a ?kva)) = outlines (reducef a) (in_bucket n R (all_pairs a files))"
    using outlines_sorted [OF app] outlines_perm [OF app(1) kva] by metis
  ultimately show ?thesis by (simp add: result_lines_def reduceLines_def plain_text)
qed

subsection \<open>Every step keeps the invariant\<close>

lemma files_ok_update:
  assumes "files_ok a files n fs"
    and "(\<exists>m < length files. \<exists>r < n. name = interName m r \<and> c = Json (in_bucket n r (pairs a files m))) \<or>
      (\<exists>r < n. \<exists>ls. name = outName r \<and> c = Text ls \<and> result_lines a files n r ls)"
  shows "files_ok a files n (AList.update name c fs)"
  using assms by (simp add: files_ok_def distinct_update update_conv')

lemma work_ok_mono: "work_ok a files n fs t k \<Longrightarrow> dom (map_of fs) \<subseteq> dom (map_of fs') \<Longrightarrow> work_ok a files n fs' t k"
  by (cases k) (simp_all, blast)

lemma stepTask_ok:
  assumes "work_ok a files n fs t k" and "files_ok a files n fs" and "stepTask k fs = (k', fs')"
  shows "files_ok a files n fs' \<and> dom (map_of fs) \<subseteq> dom (map_of fs') \<and>
    (case k' of None \<Rightarrow> task_files n t \<subseteq> dom (map_of fs') | Some k' \<Rightarrow> work_ok a files n fs' t k')"
proof (cases k)
  case (Renaming m encs i)
  then have w: "t = (MapTask, m)" "m < length files" "encs = map (\<lambda>r. in_bucket n r (pairs a files m)) [0..<n]"
    "\<forall>r < i. r < n \<longrightarrow> interName m r \<in> dom (map_of fs)" using assms(1) by auto
  show ?thesis
  proof (cases "i < n")
    case True
    then have k: "k' = Some (Renaming m encs (Suc i))" "fs' = AList.update (interName m i) (Json (encs ! i)) fs"
      using assms(3) w Renaming by (auto simp: renameTemp_def)
    have "files_ok a files n fs'"
      unfolding k(2) by (rule files_ok_update [OF assms(2)]) (use w True in auto)
    then show ?thesis using w k by (auto simp: update_conv' less_Suc_eq)
  next
    case False
    then show ?thesis using assms w Renaming by (auto simp: image_subset_iff)
  qed
next
  case (Writing r ls)
  then show ?thesis using assms by (auto simp: update_conv' intro!: files_ok_update)
qed

lemma maps_finished:
  assumes inv: "sys_inv a files n s" and g: "(w, ReduceTask, i) \<in> given (sys_job s)" and m: "m < length files" and r: "r < n"
  shows "interName m r \<in> dom (map_of (sys_files s))"
proof -
  have j: "job_inv (sys_job s)" and sh: "shape (coord (sys_job s)) = shape (MakeCoordinator files n)"
    using inv by (auto simp: sys_inv_def)
  have "unfinished (task (coord (sys_job s)) MapTask) = 0" using j g by (auto simp: job_inv_def)
  then have "taskState (task (coord (sys_job s)) MapTask ! m) = Completed"
    using m shape_eqD(1) [OF sh] by (simp add: unfinished_zero)
  then have "(MapTask, m) \<in> reported (sys_job s)" using j m shape_eqD(1) [OF sh] by (auto simp: job_inv_def)
  then obtain w' where "(w', MapTask, m) \<in> finished s" using inv by (auto simp: sys_inv_def)
  then have "task_files n (MapTask, m) \<subseteq> dom (map_of (sys_files s))" using inv unfolding sys_inv_def by blast
  then show ?thesis using r by auto
qed

lemma startTask_ok:
  assumes inv: "sys_inv a files n s" and app: "good_app a files" and n: "0 < n"
    and g: "(w, ty, i) \<in> given (sys_job s)"
    and r: "startTask a (replyOf (coord (sys_job s)) ty i) (sys_files s) = Inr (Some k)"
  shows "work_ok a files n (sys_files s) (ty, i) k"
proof -
  have j: "job_inv (sys_job s)" and sh: "shape (coord (sys_job s)) = shape (MakeCoordinator files n)"
    and ok: "files_ok a files n (sys_files s)" using inv by (auto simp: sys_inv_def)
  have i: "i < length (task (coord (sys_job s)) ty)" using j g by (auto simp: job_inv_def)
  show ?thesis
  proof (cases ty)
    case MapTask
    then have i: "i < length files" using i shape_eqD(1) [OF sh] by simp
    then obtain content where c: "input a (files ! i) = Some content" using app by (fastforce simp: good_app_def)
    then have "writeTemp (pairs a files i) n = Inr (map (\<lambda>r. in_bucket n r (pairs a files i)) [0..<n])"
      using n encodeAll_buckets [of n "replicate n []" "pairs a files i"]
      by (simp add: writeTemp_def in_bucket_def)
    then show ?thesis
      using r i c MapTask shape_eqD(6) [OF sh i] by (auto simp: startTask_def openInput_def pairs_def)
  next
    case ReduceTask
    then have i: "i < n" using i shape_eqD(2) [OF sh] by simp
    have "result_lines a files n i (reduceLines (srt a) (dec a) (reducef a) i (sys_files s))"
      by (rule reduceLines_result [OF app ok i]) (use maps_finished [OF inv _ _ i] g ReduceTask in blast)
    then show ?thesis using r i ReduceTask shape_eqD(7) [OF sh i] by (auto simp: startTask_def)
  qed (use i shape_eqD(3,4) [OF sh] in simp_all)
qed

lemma sys_inv_job:
  assumes "sys_inv a files n s" and "job_inv j" and "shape (coord j) = shape (coord (sys_job s))"
    and "given (sys_job s) \<subseteq> given j" and "\<forall>t \<in> reported j. \<exists>w. (w, t) \<in> finished s"
  shows "sys_inv a files n (s\<lparr>sys_job := j\<rparr>)"
  using assms unfolding sys_inv_def by auto

lemma sys_inv_again [simp]: "sys_inv a files n (s\<lparr>again := b\<rparr>) = sys_inv a files n s"
  by (simp add: sys_inv_def)

lemma ask_sel: "given j \<subseteq> given (askStep w j)" "reported (askStep w j) = reported j"
  by (auto simp: askStep_def split: option.splits prod.splits)

lemma report_sel: "reportStep w t j = Inr j' \<Longrightarrow> given j' = given j \<and> reported j' = insert t (reported j)"
  by (auto simp: reportStep_def split: prod.splits)

lemma sys_inv_stepTask:
  assumes inv: "sys_inv a files n s" and k: "(w, t, k) \<in> working s" "stepTask k (sys_files s) = (k', fs)"
    and W: "W \<subseteq> working s \<union> {(w, t, k'') | k''. k' = Some k''}"
    and F: "F = (if k' = None then insert (w, t) (finished s) else finished s)"
  shows "sys_inv a files n (s\<lparr>sys_files := fs, working := W, finished := F\<rparr>)"
proof -
  have ok: "work_ok a files n (sys_files s) t k" "files_ok a files n (sys_files s)" "(w, t) \<in> given (sys_job s)"
    using inv k(1) unfolding sys_inv_def by blast+
  note st = stepTask_ok [OF ok(1,2) k(2)]
  have "(w', t') \<in> given (sys_job s) \<and> work_ok a files n fs t' k''" if "(w', t', k'') \<in> W" for w' t' k''
  proof (cases "(w', t', k'') \<in> working s")
    case True
    then have "(w', t') \<in> given (sys_job s)" "work_ok a files n (sys_files s) t' k''"
      using inv unfolding sys_inv_def by blast+
    then show ?thesis using work_ok_mono st by blast
  next
    case False
    then show ?thesis using that W st ok(3) by auto
  qed
  moreover have "task_files n t' \<subseteq> dom (map_of fs)" if "(w', t') \<in> F" for w' t'
  proof (cases "(w', t') \<in> finished s")
    case True
    then have "task_files n t' \<subseteq> dom (map_of (sys_files s))" using inv unfolding sys_inv_def by blast
    then show ?thesis using st by blast
  next
    case False
    then show ?thesis using that st by (cases k') (auto simp: F)
  qed
  moreover have "\<forall>t' \<in> reported (sys_job s). \<exists>w'. (w', t') \<in> F" using inv unfolding sys_inv_def F by fastforce
  moreover have "F \<subseteq> given (sys_job s)" using inv ok(3) unfolding sys_inv_def F by auto
  ultimately show ?thesis using inv st by (simp add: sys_inv_def)
qed

lemma sys_inv_step:
  assumes "sys_step a s s'" and "sys_inv a files n s" and "good_app a files" and "0 < n" and "\<not> again s'"
  shows "sys_inv a files n s'"
  using assms(1)
proof cases
  case (ask worker)
  have "job_inv (sys_job s)" using assms(2) by (simp add: sys_inv_def)
  then show ?thesis
    unfolding ask using assms(2) ask_sel
    by (intro sys_inv_job) (auto simp: job_inv_ask shape_ask sys_inv_def)
next
  case (timer t)
  have "job_inv (sys_job s)" using assms(2) by (simp add: sys_inv_def)
  from job_inv_timer [OF this timer(2)] show ?thesis
    unfolding timer using assms(2) by (intro sys_inv_job) (auto simp: shape_wait sys_inv_def)
next
  case (start worker ty i w)
  then show ?thesis using assms(2) startTask_ok [OF assms(2-4) start(2,3)] by (auto simp: sys_inv_def)
next
  case (move worker t w w' fs)
  then show ?thesis
    using sys_inv_stepTask [OF assms(2) move(2,3), of "insert (worker, t, w') (working s - {(worker, t, w)})" "finished s"]
    by auto
next
  case (finish worker t w fs)
  then show ?thesis
    using sys_inv_stepTask [OF assms(2) finish(2,3), of "working s - {(worker, t, w)}" "insert (worker, t) (finished s)"]
    by auto
next
  case (report worker t j)
  have inv: "job_inv (sys_job s)" "(worker, t) \<in> given (sys_job s)" using assms(2) report(2) by (auto simp: sys_inv_def)
  have "\<not> completed t (sys_job s)" using assms(5) report by simp
  then have "job_inv j"
    using job_inv_report [OF inv _ report(3)] job_inv_report_idle [OF inv _ report(3)]
    by (cases "taskState (task (coord (sys_job s)) (fst t) ! snd t)") (auto simp: completed_def on_time_def split: prod.splits)
  then have "sys_inv a files n (s\<lparr>sys_job := j\<rparr>)"
    using assms(2) report(2) report_sel [OF report(3)] shape_report [OF report(3)]
    by (intro sys_inv_job) (auto simp: sys_inv_def)
  then show ?thesis unfolding report by simp
qed

lemma sys_inv_start: "sys_inv a files n (sys0 files n)"
  using job_inv_start by (simp add: sys_inv_def sys0_def files_ok_def) (simp add: job0_def)

lemma again_step: "sys_step a s s' \<Longrightarrow> again s \<Longrightarrow> again s'"
  by (cases rule: sys_step.cases) auto

lemma sys_inv_run:
  assumes "(sys_step a)\<^sup>*\<^sup>* (sys0 files n) s" and "good_app a files" and "0 < n" and "\<not> again s"
  shows "sys_inv a files n s"
  using assms(1,4)
  by (induction rule: rtranclp_induct) (auto intro: sys_inv_start sys_inv_step [OF _ _ assms(2,3)] dest: again_step)

subsection \<open>The result\<close>

lemma readAll_pairs:
  assumes "\<forall>f \<in> set files. input a f \<noteq> None"
  shows "readAll (mapf a) (input a) files acc =
    Inr (acc @ concat (map (\<lambda>f. mapf a f (the (input a f))) files))"
  using assms by (induction files arbitrary: acc) auto

lemma sequential_lines:
  assumes "good_app a files"
  shows "\<exists>ls. mrsequential (srt a) (mapf a) (reducef a) (input a) files = Inr ls \<and>
    mset ls = outlines (reducef a) (all_pairs a files)"
proof -
  have "concat (map (\<lambda>f. mapf a f (the (input a f))) files) = all_pairs a files"
    using map_nth [of files] unfolding all_pairs_def pairs_def by (metis (no_types, lifting) map_map comp_def map_eq_conv)
  then show ?thesis
    using assms readAll_pairs [of files a "[]"] outlines_sorted [of "reducef a" "srt a"]
    by (simp add: mrsequential_def good_app_def)
qed

definition outputOf :: "files \<Rightarrow> nat \<Rightarrow> string list" where
  "outputOf fs r = (case map_of fs (outName r) of Some (Text ls) \<Rightarrow> ls | _ \<Rightarrow> [])"

text \<open>
  C4: MapReduce computes what the sequential program computes. Tasks may be spread over workers, taken back, given out
  again and run several times at once, workers may stop between two renames, and reports may be lost or come after
  the task was taken back. If the coordinator is done and no report came for a task that another report had
  completed already, then the lines of the output files \<open>mr-out-0\<close> to \<open>mr-out-(n-1)\<close> together are the lines that
  \<open>mrsequential\<close> prints for the same application and files. Required are input files that can be read, a Reduce that does not
  depend on the order of its values, a sort that sorts, pairs in UTF-8, and keys with which a line of output does not look
  like a JSON object or \<open>null\<close>, because a reduce task that is run again also reads its own earlier output with the JSON
  decoder, which then reads nothing from it. (Without the condition on reports the result can be wrong:
  \<open>late_report_skips_file\<close>.)
\<close>

theorem mapreduce_correct:
  assumes "(sys_step a)\<^sup>*\<^sup>* (sys0 files n) s" and "good_app a files" and "0 < n" and "Done (coord (sys_job s))"
    and "\<not> again s"
  shows "\<exists>ls. mrsequential (srt a) (mapf a) (reducef a) (input a) files = Inr ls \<and>
    mset (concat (map (outputOf (sys_files s)) [0..<n])) = mset ls"
proof -
  have inv: "sys_inv a files n s" by (rule sys_inv_run [OF assms(1-3,5)])
  then have j: "job_inv (sys_job s)" and sh: "shape (coord (sys_job s)) = shape (MakeCoordinator files n)"
    and ok: "files_ok a files n (sys_files s)" by (auto simp: sys_inv_def)
  have out: "mset (outputOf (sys_files s) r) = outlines (reducef a) (in_bucket n r (all_pairs a files))" if r: "r < n" for r
  proof -
    have "unfinished (task (coord (sys_job s)) ReduceTask) = 0" using assms(4) j by (simp add: Done_def job_inv_def)
    then have "taskState (task (coord (sys_job s)) ReduceTask ! r) = Completed"
      using r shape_eqD(2) [OF sh] by (simp add: unfinished_zero)
    then have "(ReduceTask, r) \<in> reported (sys_job s)" using j r shape_eqD(2) [OF sh] by (auto simp: job_inv_def)
    then obtain w where "(w, ReduceTask, r) \<in> finished s" using inv by (auto simp: sys_inv_def)
    then have "task_files n (ReduceTask, r) \<subseteq> dom (map_of (sys_files s))" using inv unfolding sys_inv_def by blast
    then obtain c where c: "map_of (sys_files s) (outName r) = Some c" by auto
    then obtain ls where "c = Text ls" "result_lines a files n r ls" using ok by (fastforce simp: files_ok_def)
    then show ?thesis using c by (simp add: outputOf_def result_lines_def)
  qed
  have "mset (concat (map (outputOf (sys_files s)) [0..<n])) = (\<Sum>r < n. mset (outputOf (sys_files s) r))"
    by (simp add: mset_concat comp_def sum_list_distinct_conv_sum_set lessThan_atLeast0)
  also have "\<dots> = outlines (reducef a) (all_pairs a files)"
    using outlines_buckets [of "bucket n" n "reducef a" "all_pairs a files"] bucket_less [OF assms(3)] out
    by (simp add: in_bucket_def)
  finally show ?thesis using sequential_lines [OF assms(2)] by metis
qed

lemma order_free_apps: "order_free wc_Reduce" "order_free indexer_Reduce"
proof -
  show "order_free wc_Reduce"
    unfolding order_free_def wc_Reduce_def by (metis size_mset)
  show "order_free indexer_Reduce"
    unfolding order_free_def
  proof (intro allI impI)
    fix k and vs vs' :: "string list"
    assume "mset vs = mset vs'"
    then have "sort vs = sort vs'" by (intro properties_for_sort) simp_all
    then show "indexer_Reduce k vs = indexer_Reduce k vs'" by (simp add: indexer_Reduce_def)
  qed
qed

lemma sorts_sort_key: "sorts (sort_key Key)"
  by (simp add: sorts_def)

text \<open>
  A decoder with the documented behaviour, and the word count of a small file. Worker 7 runs the map task, worker 8 the
  reduce task, and worker 8 runs it once more, when the output of the first time is there.
\<close>

fun jsonDecode :: "content \<Rightarrow> KeyValue list" where
  "jsonDecode (Json kva) = kva"
| "jsonDecode (Text ls) = (if struct_start (concat ls) then [\<lparr>Key = [], Value = []\<rparr>] else [])"

text \<open>
  Why the keys must be plain: a reduce task that is run a second time reads its own output, and a line that begins with
  \<open>null\<close> gives a pair with an empty key, so that a line is added.
\<close>

lemma null_read_again:
  assumes "fs1 = reducef' (sort_key Key) jsonDecode wc_Reduce 0 [(interName 0 0, Json [\<lparr>Key = ''null'', Value = ''1''\<rparr>])]"
  shows "outputOf fs1 0 = [''null 1'' @ [CHR 0x0A]] \<and>
    outputOf (reducef' (sort_key Key) jsonDecode wc_Reduce 0 fs1) 0 = ['' 1'' @ [CHR 0x0A], ''null 1'' @ [CHR 0x0A]]"
  unfolding assms by code_simp

definition wcApp :: app where
  "wcApp = \<lparr>mapf = wc_Map (\<lambda>c. c \<noteq> CHR '' ''), reducef = wc_Reduce, input = [''f'' \<mapsto> ''a b a''],
     srt = sort_key Key, dec = jsonDecode\<rparr>"

lemma wcApp_pairs: "all_pairs wcApp [''f''] = map (\<lambda>w. \<lparr>Key = w, Value = ''1''\<rparr>) [''a'', ''b'', ''a'']"
proof -
  have "fieldsFunc (\<lambda>r. \<not> r \<noteq> CHR '' '') ''a b a'' = [''a'', ''b'', ''a'']" by code_simp
  then show ?thesis by (simp add: all_pairs_def pairs_def wcApp_def wc_Map_def)
qed

lemma wcApp_good: "good_app wcApp [''f'']"
proof -
  have "\<forall>kv \<in> set (all_pairs wcApp [''f'']). utf8_pair kv \<and> plain_key (Key kv)"
    by (simp add: wcApp_pairs utf8_pair_def plain_key_def json_space_def of_char_def)
  moreover have "json_ok (dec wcApp)" by (simp add: json_ok_def wcApp_def)
  moreover have "\<forall>f \<in> set [''f'']. input wcApp f \<noteq> None" by (simp add: wcApp_def)
  ultimately show ?thesis using order_free_apps sorts_sort_key unfolding good_app_def by (simp add: wcApp_def)
qed

definition wcEncs :: "KeyValue list list" where "wcEncs = [all_pairs wcApp [''f'']]"

definition wcF1 :: files where "wcF1 = renameTemp 0 wcEncs 0 []"

definition wcLines :: "files \<Rightarrow> string list" where
  "wcLines fs = reduceLines (srt wcApp) (dec wcApp) (reducef wcApp) 0 fs"

definition wcF2 :: files where "wcF2 = AList.update (outName 0) (Text (wcLines wcF1)) wcF1"

definition wcF3 :: files where "wcF3 = AList.update (outName 0) (Text (wcLines wcF2)) wcF2"

definition wc1 :: mrsys where "wc1 = (sys0 [''f''] 1)\<lparr>sys_job := askStep 7 (job0 [''f''] 1)\<rparr>"

definition wc2 :: mrsys where "wc2 = wc1\<lparr>sys_files := wcF1, finished := {(7, MapTask, 0)}\<rparr>"

definition wc3 :: mrsys where "wc3 = wc2\<lparr>sys_job := askStep 8 job1\<rparr>"

definition wc4 :: mrsys where "wc4 = wc3\<lparr>sys_files := wcF2, finished := {(8, ReduceTask, 0), (7, MapTask, 0)}\<rparr>"

definition wc5 :: mrsys where "wc5 = wc4\<lparr>sys_files := wcF3, finished := {(8, ReduceTask, 0), (7, MapTask, 0)}\<rparr>"

definition wc6 :: mrsys where "wc6 = wc5\<lparr>sys_job := projr (reportStep 8 (ReduceTask, 0) (askStep 8 job1))\<rparr>"

lemmas wc_eval =
  askStep_def job0_def GetTask_def giveTask_def MakeCoordinator_def mapTask_def reduceTask_def Let_def on_time_def
  job1_def reportStep_def ReportTaskDone_def updateTask_def idx_def replyOf_def workerRound_def sys0_def

lemma wc_map_run: "(sys_step wcApp)\<^sup>*\<^sup>* wc1 wc2"
proof -
  let ?w = "\<lambda>i. (7, (MapTask, 0), Renaming 0 wcEncs i)"
  let ?s = "\<lambda>i fs. wc1\<lparr>sys_files := fs, working := {?w i}\<rparr>"
  have n: "bucket 1 k = 0" for k using bucket_less [of 1 k] by simp
  then have n: "filter (\<lambda>kv. bucket (Suc 0) (Key kv) = 0) kva = kva" for kva by simp
  have "writeTemp (all_pairs wcApp [''f'']) 1 = Inr wcEncs"
    using encodeAll_buckets [of 1 "[[]]" "all_pairs wcApp [''f'']"] by (simp add: writeTemp_def wcEncs_def n)
  then have "startTask wcApp (replyOf (coord (sys_job wc1)) MapTask 0) (sys_files wc1) = Inr (Some (Renaming 0 wcEncs 0))"
    by (simp add: startTask_def openInput_def wcApp_def all_pairs_def pairs_def wc1_def wc_eval)
  from sys_step.start [OF _ this, of 7] have 1: "sys_step wcApp wc1 (?s 0 [])"
    by (simp add: wc1_def wc_eval)
  have 2: "sys_step wcApp (?s 0 []) (?s 1 wcF1)"
    using sys_step.move [of 7 "(MapTask, 0)" "Renaming 0 wcEncs 0" "?s 0 []" "Renaming 0 wcEncs 1" wcF1 wcApp]
    by (simp add: wcF1_def wcEncs_def)
  have 3: "sys_step wcApp (?s 1 wcF1) wc2"
    using sys_step.finish [of 7 "(MapTask, 0)" "Renaming 0 wcEncs 1" "?s 1 wcF1" wcF1 wcApp]
    by (simp add: wcEncs_def wc2_def) (simp add: wc1_def wc_eval)
  show ?thesis using 1 2 3 by (meson converse_rtranclp_into_rtranclp rtranclp.rtrancl_refl)
qed

lemma wc_reduce_run:
  assumes "sys_job s = askStep 8 job1" and "working s = {}" and "sys_files s = fs"
    and "F = insert (8, ReduceTask, 0) (finished s)" and "fs' = AList.update (outName 0) (Text (wcLines fs)) fs"
  shows "(sys_step wcApp)\<^sup>*\<^sup>* s (s\<lparr>sys_files := fs', finished := F\<rparr>)"
proof -
  let ?w = "Writing 0 (wcLines fs)"
  have "startTask wcApp (replyOf (coord (sys_job s)) ReduceTask 0) fs = Inr (Some ?w)"
    by (simp add: assms(1) startTask_def wcLines_def wc_eval)
  then have 1: "sys_step wcApp s (s\<lparr>working := {(8, (ReduceTask, 0), ?w)}\<rparr>)"
    using sys_step.start [of 8 ReduceTask 0 s wcApp ?w] by (simp add: assms(1-3) job1_given)
  have 2: "sys_step wcApp (s\<lparr>working := {(8, (ReduceTask, 0), ?w)}\<rparr>) (s\<lparr>sys_files := fs', finished := F\<rparr>)"
    using sys_step.finish [of 8 "(ReduceTask, 0)" ?w "s\<lparr>working := {(8, (ReduceTask, 0), ?w)}\<rparr>" fs' wcApp] assms
    by (cases s) simp
  show ?thesis using 1 2 by (meson converse_rtranclp_into_rtranclp rtranclp.rtrancl_refl)
qed

lemma wc_run: "(sys_step wcApp)\<^sup>*\<^sup>* (sys0 [''f''] 1) wc6"
proof -
  let ?s = "wc2\<lparr>sys_job := job1\<rparr>"
  have 1: "sys_step wcApp (sys0 [''f''] 1) wc1" unfolding wc1_def
    using sys_step.ask [of wcApp "sys0 [''f''] 1" 7] by (simp add: sys0_def)
  have 2: "sys_step wcApp wc2 ?s"
    using sys_step.report [of 7 "(MapTask, 0)" wc2 job1 wcApp]
    by (simp add: wc2_def wc1_def completed_def wc_eval)
  have 3: "sys_step wcApp ?s wc3" using sys_step.ask [of wcApp ?s 8] by (simp add: wc3_def)
  have 4: "(sys_step wcApp)\<^sup>*\<^sup>* wc3 wc4"
    unfolding wc4_def by (rule wc_reduce_run) (simp_all add: wc3_def wc2_def wc1_def sys0_def wcF2_def)
  have 5: "(sys_step wcApp)\<^sup>*\<^sup>* wc4 wc5"
    unfolding wc5_def by (rule wc_reduce_run) (simp_all add: wc4_def wc3_def wc2_def wc1_def sys0_def wcF3_def)
  have 6: "sys_step wcApp wc5 wc6"
    using sys_step.report [of 8 "(ReduceTask, 0)" wc5 "projr (reportStep 8 (ReduceTask, 0) (askStep 8 job1))" wcApp]
    by (simp add: wc6_def wc5_def wc4_def wc3_def completed_def wc_eval)
  show ?thesis using 1 wc_map_run 2 3 4 5 6 by (meson converse_rtranclp_into_rtranclp rtranclp_trans r_into_rtranclp)
qed

theorem mapreduce_correct_witness:
  "\<exists>ls. mrsequential (srt wcApp) (mapf wcApp) (reducef wcApp) (input wcApp) [''f''] = Inr ls \<and>
     mset (outputOf (sys_files wc6) 0) = mset ls"
proof -
  have "Done (coord (sys_job wc6))" by (simp add: wc6_def Done_def wc_eval)
  moreover have "\<not> again wc6" by (simp add: wc6_def wc5_def wc4_def wc3_def wc2_def wc1_def sys0_def)
  ultimately show ?thesis using mapreduce_correct [OF wc_run wcApp_good] by simp
qed

end
