(* ===== verification/Porcupine_Bitset.thy ===== *)
theory Porcupine_Bitset
  imports Go_Util "HOL-Library.Word"
begin

text \<open>
  The bit sets of \<^verbatim>\<open>porcupine/bitset.go\<close>, slices of 64-bit words. The locale states what
  the checker relies on: a set of positions below a bound with insertion, deletion, membership
  and an equality test, and a hash that equal sets share.
\<close>

unbundle bit_operations_syntax

type_synonym bitset = "64 word list"

definition newBitset :: "nat \<Rightarrow> bitset" where
  "newBitset bits =
     (let extra = (if bits mod 64 \<noteq> 0 then 1 else 0);
          chunks = bits div 64 + extra
      in replicate chunks 0)"

definition clone :: "bitset \<Rightarrow> bitset" where
  "clone b = go_copy (replicate (length b) 0) b"

definition bitsetIndex :: "nat \<Rightarrow> nat \<times> nat" where
  "bitsetIndex pos = (pos div 64, pos mod 64)"

definition set_bs :: "nat \<Rightarrow> bitset \<Rightarrow> bitset go" where
  "set_bs pos b =
     (case bitsetIndex pos of (major, minor) \<Rightarrow>
      gbind (idx b (int major)) (\<lambda>v. set_idx b (int major) (v OR push_bit minor 1)))"

definition clear_bs :: "nat \<Rightarrow> bitset \<Rightarrow> bitset go" where
  "clear_bs pos b =
     (case bitsetIndex pos of (major, minor) \<Rightarrow>
      gbind (idx b (int major)) (\<lambda>v. set_idx b (int major) (v AND NOT (push_bit minor 1))))"

definition get_bs :: "nat \<Rightarrow> bitset \<Rightarrow> bool go" where
  "get_bs pos b =
     (case bitsetIndex pos of (major, minor) \<Rightarrow>
      gbind (idx b (int major)) (\<lambda>v. Inr (v AND push_bit minor 1 \<noteq> 0)))"

text \<open>\<open>bits.OnesCount64\<close>.\<close>

definition onesCount64 :: "64 word \<Rightarrow> nat" where
  "onesCount64 v = length (filter (bit v) [0..<64])"

definition popcnt :: "bitset \<Rightarrow> nat" where
  "popcnt b = fold (\<lambda>v total. total + onesCount64 v) b 0"

definition hash :: "bitset \<Rightarrow> 64 word" where
  "hash b = fold (\<lambda>v h. h XOR v) b (word_of_nat (popcnt b))"

fun equals_from :: "nat \<Rightarrow> bitset \<Rightarrow> bitset \<Rightarrow> bool" where
  "equals_from i [] b2 = True"
| "equals_from i (v # b) b2 = (if v \<noteq> b2 ! i then False else equals_from (Suc i) b b2)"

definition equals :: "bitset \<Rightarrow> bitset \<Rightarrow> bool" where
  "equals b b2 = (if length b \<noteq> length b2 then False else equals_from 0 b b2)"

subsection \<open>The set that a bit set stands for\<close>

definition members :: "bitset \<Rightarrow> nat set" where
  "members b = {pos. pos div 64 < length b \<and> bit (b ! (pos div 64)) (pos mod 64)}"

lemma equals_iff [simp]: "equals b b2 \<longleftrightarrow> b = b2"
proof -
  have "equals_from i b b2 \<longleftrightarrow> b = drop i b2" if "length b + i = length b2" for i
    using that
  proof (induction b arbitrary: i)
    case (Cons v b)
    then have "i < length b2" by simp
    then have "drop i b2 = b2 ! i # drop (Suc i) b2" by (simp add: Cons_nth_drop_Suc)
    with Cons show ?case by auto
  qed simp
  from this [of 0] show ?thesis by (auto simp: equals_def)
qed

lemma clone_bs [simp]: "clone b = b"
  by (simp add: clone_def go_copy_def)

lemma members_new [simp]: "members (newBitset n) = {}"
  by (auto simp: members_def newBitset_def Let_def nth_replicate)

lemma length_new: "length (newBitset n) = (n + 63) div 64"
proof -
  have "(n + 63) div 64 = n div 64 + (if n mod 64 \<noteq> 0 then 1 else 0)"
  proof (cases "n mod 64 = 0")
    case True
    then obtain k where "n = 64 * k" by (metis mod_0_imp_dvd dvdE)
    then show ?thesis by simp
  next
    case False
    define k r where "k = n div 64" and "r = n mod 64"
    have n: "n = 64 * k + r" "0 < r" "r < 64" using False by (simp_all add: k_def r_def)
    then have "(n + 63) div 64 = k + (r + 63) div 64" by simp
    moreover have "(r + 63) div 64 = 1" using n(2,3) by (simp add: div_nat_eqI)
    ultimately show ?thesis using False by (simp add: k_def)
  qed
  then show ?thesis by (simp add: newBitset_def Let_def)
qed

lemma same_chunk: "p div 64 = pos div 64 \<Longrightarrow> p mod 64 = pos mod 64 \<Longrightarrow> p = (pos :: nat)"
  by (metis div_mult_mod_eq)

lemma bit_single: "bit (push_bit (pos mod 64) (1 :: 64 word)) (p mod 64) \<longleftrightarrow> p mod 64 = pos mod 64"
  by (auto simp: bit_exp_iff)

lemma in_members_update:
  assumes "pos div 64 < length b"
  shows "p \<in> members (b[pos div 64 := v]) \<longleftrightarrow>
    (if p div 64 = pos div 64 then bit v (p mod 64) else p \<in> members b)"
  using assms by (cases "p div 64 = pos div 64") (auto simp: members_def)

lemma set_bs_members:
  assumes "pos div 64 < length b"
  shows "\<exists>b'. set_bs pos b = Inr b' \<and> length b' = length b \<and> members b' = insert pos (members b)"
proof -
  let ?b = "b[pos div 64 := b ! (pos div 64) OR push_bit (pos mod 64) 1]"
  have "set_bs pos b = Inr ?b" using assms by (simp add: set_bs_def bitsetIndex_def idx_def set_idx_def)
  moreover have "p \<in> members ?b \<longleftrightarrow> p \<in> insert pos (members b)" for p
    unfolding in_members_update [OF assms] bit_or_iff bit_single
    using assms by (cases "p div 64 = pos div 64") (auto simp: members_def dest: same_chunk)
  ultimately show ?thesis by (metis length_list_update set_eqI)
qed

lemma clear_bs_members:
  assumes "pos div 64 < length b"
  shows "\<exists>b'. clear_bs pos b = Inr b' \<and> length b' = length b \<and> members b' = members b - {pos}"
proof -
  let ?b = "b[pos div 64 := b ! (pos div 64) AND NOT (push_bit (pos mod 64) 1)]"
  have "clear_bs pos b = Inr ?b" using assms by (simp add: clear_bs_def bitsetIndex_def idx_def set_idx_def)
  moreover have "p \<in> members ?b \<longleftrightarrow> p \<in> members b - {pos}" for p
    unfolding in_members_update [OF assms] bit_and_iff bit_not_iff bit_single
    using assms by (cases "p div 64 = pos div 64") (auto simp: members_def dest: same_chunk)
  ultimately show ?thesis by (metis length_list_update set_eqI)
qed

lemma get_bs_members:
  assumes "pos div 64 < length b"
  shows "get_bs pos b = Inr (pos \<in> members b)"
proof -
  have "(v AND push_bit (pos mod 64) 1 \<noteq> 0) = bit v (pos mod 64)" for v :: "64 word"
    unfolding bit_eq_iff [of _ "0 :: 64 word"] by (auto simp: bit_and_iff bit_exp_iff intro: exI [of _ "pos mod 64"])
  then show ?thesis using assms by (simp add: get_bs_def bitsetIndex_def idx_def members_def)
qed

text \<open>Bit sets of the same length are equal exactly when they have the same members.\<close>

lemma members_inject:
  assumes "length b = length b'"
  shows "members b = members b' \<longleftrightarrow> b = b'"
proof
  assume m: "members b = members b'"
  have "bit (b ! i) j = bit (b' ! i) j" if "i < length b" "j < 64" for i j
  proof -
    have "(i * 64 + j) div 64 = i" "(i * 64 + j) mod 64 = j" using that(2) by auto
    moreover have "i * 64 + j \<in> members b \<longleftrightarrow> i * 64 + j \<in> members b'" using m by simp
    ultimately show ?thesis using that(1) assms by (simp add: members_def)
  qed
  then have "b ! i = b' ! i" if "i < length b" for i
    using that by (intro bit_word_eqI) simp
  then show "b = b'" using assms by (simp add: nth_equalityI)
qed simp

lemma members_finite: "finite (members b)"
proof (rule finite_subset)
  show "members b \<subseteq> {..<64 * length b}" by (auto simp: members_def)
qed simp

subsection \<open>The interface\<close>

locale finite_sets =
  fixes empty :: "nat \<Rightarrow> 's"
    and add :: "nat \<Rightarrow> 's \<Rightarrow> 's go"
    and remove :: "nat \<Rightarrow> 's \<Rightarrow> 's go"
    and has :: "nat \<Rightarrow> 's \<Rightarrow> bool go"
    and same :: "'s \<Rightarrow> 's \<Rightarrow> bool"
    and digest :: "'s \<Rightarrow> 'h"
    and elems :: "'s \<Rightarrow> nat set"
    and room :: "nat \<Rightarrow> 's \<Rightarrow> bool"
  assumes empty: "elems (empty n) = {}" "room n (empty n)"
    and add: "i < n \<Longrightarrow> room n s \<Longrightarrow> \<exists>s'. add i s = Inr s' \<and> room n s' \<and> elems s' = insert i (elems s)"
    and remove: "i < n \<Longrightarrow> room n s \<Longrightarrow> \<exists>s'. remove i s = Inr s' \<and> room n s' \<and> elems s' = elems s - {i}"
    and has: "i < n \<Longrightarrow> room n s \<Longrightarrow> has i s = Inr (i \<in> elems s)"
    and same: "room n s \<Longrightarrow> room n s' \<Longrightarrow> same s s' \<longleftrightarrow> elems s = elems s'"
    and digest: "same s s' \<Longrightarrow> digest s = digest s'"
begin

text \<open>Taking out what was just put in gives the same set back.\<close>

lemma add_remove:
  assumes "i < n" and "room n s" and "i \<notin> elems s" and "add i s = Inr s1" and "remove i s1 = Inr s2"
  shows "same s2 s"
proof -
  have 1: "room n s1" "elems s1 = insert i (elems s)" using add [OF assms(1,2)] assms(4) by auto
  have "room n s2" "elems s2 = elems s1 - {i}" using remove [OF assms(1) 1(1)] assms(5) by auto
  then show ?thesis using same [of n s2 s] 1 assms(2,3) by auto
qed

end

text \<open>A bit set has room for \<open>n\<close> positions if it has as many words as \<open>newBitset\<close> makes for them.\<close>

definition fits :: "nat \<Rightarrow> bitset \<Rightarrow> bool" where
  "fits n b \<longleftrightarrow> length b = length (newBitset n)"

lemma fits_chunk: "fits n b \<Longrightarrow> i < n \<Longrightarrow> i div 64 < length b"
  by (simp add: fits_def length_new)

interpretation bs: finite_sets newBitset set_bs clear_bs get_bs equals hash members fits
proof
  show "members (newBitset n) = {}" "fits n (newBitset n)" for n by (simp_all add: fits_def)
  show "\<exists>s'. set_bs i s = Inr s' \<and> fits n s' \<and> members s' = insert i (members s)" if "i < n" "fits n s" for i n s
    using set_bs_members [OF fits_chunk [OF that(2,1)]] that(2) by (auto simp: fits_def)
  show "\<exists>s'. clear_bs i s = Inr s' \<and> fits n s' \<and> members s' = members s - {i}" if "i < n" "fits n s" for i n s
    using clear_bs_members [OF fits_chunk [OF that(2,1)]] that(2) by (auto simp: fits_def)
  show "get_bs i s = Inr (i \<in> members s)" if "i < n" "fits n s" for i n s
    by (rule get_bs_members [OF fits_chunk [OF that(2,1)]])
  show "equals s s' \<longleftrightarrow> members s = members s'" if "fits n s" "fits n s'" for n s s'
    using that members_inject by (auto simp: fits_def)
qed simp

end
