(* ===== verification/Porcupine_List.thy ===== *)
theory Porcupine_List
  imports Porcupine_Bitset
begin

text \<open>
  The histories of \<^verbatim>\<open>porcupine/model.go\<close> and the entries of
  \<^verbatim>\<open>porcupine/checker.go\<close>. The checker keeps the remaining entries of a history in a doubly
  linked list that it changes in place; the model has an explicit store of nodes. The values of type
  \<open>interface{}\<close> are typed by the inputs, outputs and states of a model.
\<close>

subsection \<open>Histories\<close>

record ('i, 'o) Operation =
  op_ClientId :: int
  Input :: 'i
  Call :: int
  Output :: 'o
  Return :: int

datatype EventKind = CallEvent | ReturnEvent

record ('i, 'o) Event =
  ev_ClientId :: int
  ev_Kind :: EventKind
  ev_Value :: "'i + 'o"
  ev_Id :: int

record ('s, 'i, 'o) Model =
  Partition :: "('i, 'o) Operation list \<Rightarrow> ('i, 'o) Operation list list"
  PartitionEvent :: "('i, 'o) Event list \<Rightarrow> ('i, 'o) Event list list"
  Init :: 's
  Step :: "'s \<Rightarrow> 'i \<Rightarrow> 'o \<Rightarrow> bool \<times> 's"
  Equal :: "'s \<Rightarrow> 's \<Rightarrow> bool"

definition NoPartition :: "('i, 'o) Operation list \<Rightarrow> ('i, 'o) Operation list list" where
  "NoPartition history = [history]"

definition NoPartitionEvent :: "('i, 'o) Event list \<Rightarrow> ('i, 'o) Event list list" where
  "NoPartitionEvent history = [history]"

definition ShallowEqual :: "'s \<Rightarrow> 's \<Rightarrow> bool" where
  "ShallowEqual state1 state2 \<longleftrightarrow> state1 = state2"

datatype entryKind = callEntry | returnEntry

record ('i, 'o) entry =
  kind :: entryKind
  e_value :: "'i + 'o"
  e_id :: nat
  e_time :: int
  e_clientId :: int

text \<open>The order of entries: by time, and calls before returns at the same time.\<close>

definition byTime_Less :: "('i, 'o) entry \<Rightarrow> ('i, 'o) entry \<Rightarrow> bool" where
  "byTime_Less a b =
     (if e_time a \<noteq> e_time b then e_time a < e_time b
      else kind a = callEntry \<and> kind b = returnEntry)"

text \<open>The entries of a history before they are sorted; the sort is a parameter, since the code's
  is not stable.\<close>

fun entriesFrom :: "nat \<Rightarrow> ('i, 'o) Operation list \<Rightarrow> ('i, 'o) entry list" where
  "entriesFrom k [] = []"
| "entriesFrom k (elem # history) =
     \<lparr>kind = callEntry, e_value = Inl (Input elem), e_id = k, e_time = Call elem, e_clientId = op_ClientId elem\<rparr> #
     \<lparr>kind = returnEntry, e_value = Inr (Output elem), e_id = k, e_time = Return elem, e_clientId = op_ClientId elem\<rparr> #
     entriesFrom (k + 1) history"

definition makeEntries ::
    "(('i, 'o) entry list \<Rightarrow> ('i, 'o) entry list) \<Rightarrow> ('i, 'o) Operation list \<Rightarrow> ('i, 'o) entry list" where
  "makeEntries srt history = srt (entriesFrom 0 history)"

text \<open>Events name their operation by an arbitrary number; they are renumbered from 0 on.\<close>

fun renumberFrom :: "(int \<rightharpoonup> nat) \<Rightarrow> nat \<Rightarrow> ('i, 'o) Event list \<Rightarrow> (('i, 'o) Event \<times> nat) list" where
  "renumberFrom m k [] = []"
| "renumberFrom m k (v # events) =
     (case m (ev_Id v) of
        Some r \<Rightarrow> (v, r) # renumberFrom m k events
      | None \<Rightarrow> (v, k) # renumberFrom (m(ev_Id v \<mapsto> k)) (k + 1) events)"

definition renumber :: "('i, 'o) Event list \<Rightarrow> (('i, 'o) Event \<times> nat) list" where
  "renumber events = renumberFrom Map.empty 0 events"

definition convertEntries :: "(('i, 'o) Event \<times> nat) list \<Rightarrow> ('i, 'o) entry list" where
  "convertEntries events =
     map (\<lambda>((elem, k), i).
       \<lparr>kind = (if ev_Kind elem = ReturnEvent then returnEntry else callEntry), e_value = ev_Value elem,
        e_id = k, e_time = int i, e_clientId = ev_ClientId elem\<rparr>)
       (zip events [0..<length events])"

subsection \<open>The linked list\<close>

text \<open>A node has an address; the head of the list is at address 0 and the node of the entry at
  position \<open>i\<close> of the history at \<open>i + 1\<close>.\<close>

record ('i, 'o) node =
  n_value :: "('i + 'o) option"
  n_match :: "nat option"
  n_id :: int
  n_next :: "nat option"
  n_prev :: "nat option"

type_synonym ('i, 'o) store = "nat \<Rightarrow> ('i, 'o) node"

definition newNode :: "('i + 'o) option \<Rightarrow> nat option \<Rightarrow> int \<Rightarrow> ('i, 'o) node" where
  "newNode v m k = \<lparr>n_value = v, n_match = m, n_id = k, n_next = None, n_prev = None\<rparr>"

definition setNext :: "nat \<Rightarrow> nat option \<Rightarrow> ('i, 'o) store \<Rightarrow> ('i, 'o) store" where
  "setNext a p h = h(a := (h a)\<lparr>n_next := p\<rparr>)"

definition setPrev :: "nat \<Rightarrow> nat option \<Rightarrow> ('i, 'o) store \<Rightarrow> ('i, 'o) store" where
  "setPrev a p h = h(a := (h a)\<lparr>n_prev := p\<rparr>)"

definition deref :: "nat option \<Rightarrow> nat go" where
  "deref p = (case p of None \<Rightarrow> Inl NilDereference | Some a \<Rightarrow> Inr a)"

definition insertBefore :: "nat \<Rightarrow> nat option \<Rightarrow> ('i, 'o) store \<Rightarrow> ('i, 'o) store" where
  "insertBefore n mark h =
     (case mark of
        None \<Rightarrow> h
      | Some m \<Rightarrow>
          let beforeMark = n_prev (h m);
              h = setPrev m (Some n) h;
              h = setNext n (Some m) h
          in case beforeMark of
               None \<Rightarrow> h
             | Some b \<Rightarrow> setNext b (Some n) (setPrev n (Some b) h))"

text \<open>The loop of \<open>makeLinkedEntries\<close> goes from the last entry to the first; \<open>a\<close> is the address of the
  first entry of the list. The result is the store, the map \<open>match\<close> and the root.\<close>

fun linkLoop :: "nat \<Rightarrow> ('i, 'o) entry list \<Rightarrow> ('i, 'o) store \<Rightarrow> ('i, 'o) store \<times> (nat \<rightharpoonup> nat) \<times> nat option" where
  "linkLoop a [] h = (h, Map.empty, None)"
| "linkLoop a (elem # entries) h =
     (case linkLoop (a + 1) entries h of (h, match, root) \<Rightarrow>
      if kind elem = returnEntry then
        let h = h(a := newNode (Some (e_value elem)) None (int (e_id elem)))
        in (insertBefore a root h, match(e_id elem \<mapsto> a), Some a)
      else
        let h = h(a := newNode (Some (e_value elem)) (match (e_id elem)) (int (e_id elem)))
        in (insertBefore a root h, match, Some a))"

definition emptyStore :: "('i, 'o) store" where
  "emptyStore = (\<lambda>_. newNode None None (-1))"

definition makeLinkedEntries :: "('i, 'o) entry list \<Rightarrow> ('i, 'o) store \<times> nat option" where
  "makeLinkedEntries entries = (case linkLoop 1 entries emptyStore of (h, _, root) \<Rightarrow> (h, root))"

text \<open>The length of a list, by a walk; the fuel bounds it, and \<open>None\<close> is a list that is longer.\<close>

fun length_ll :: "nat \<Rightarrow> ('i, 'o) store \<Rightarrow> nat option \<Rightarrow> nat option" where
  "length_ll fuel h None = Some 0"
| "length_ll 0 h (Some n) = None"
| "length_ll (Suc fuel) h (Some n) = map_option Suc (length_ll fuel h (n_next (h n)))"

definition lift :: "nat \<Rightarrow> ('i, 'o) store \<Rightarrow> ('i, 'o) store go" where
  "lift entry h =
     gbind (deref (n_prev (h entry))) (\<lambda>p.
     let h = setNext p (n_next (h entry)) h in
     gbind (deref (n_next (h entry))) (\<lambda>n.
     let h = setPrev n (n_prev (h entry)) h in
     gbind (deref (n_match (h entry))) (\<lambda>match.
     gbind (deref (n_prev (h match))) (\<lambda>q.
     let h = setNext q (n_next (h match)) h in
     case n_next (h match) of
       None \<Rightarrow> Inr h
     | Some r \<Rightarrow> Inr (setPrev r (n_prev (h match)) h)))))"

definition unlift :: "nat \<Rightarrow> ('i, 'o) store \<Rightarrow> ('i, 'o) store go" where
  "unlift entry h =
     gbind (deref (n_match (h entry))) (\<lambda>match.
     gbind (deref (n_prev (h match))) (\<lambda>q.
     let h = setNext q (Some match) h;
         h = (case n_next (h match) of None \<Rightarrow> h | Some r \<Rightarrow> setPrev r (Some match) h)
     in gbind (deref (n_prev (h entry))) (\<lambda>p.
        let h = setNext p (Some entry) h in
        gbind (deref (n_next (h entry))) (\<lambda>n.
        Inr (setPrev n (Some entry) h)))))"


end
