(* ===== verification/Porcupine_Links.thy ===== *)
theory Porcupine_Links
  imports Porcupine_List
begin

text \<open>
  The linked list of the checker: what its nodes hold, that lifting an entry takes the entry and its
  match out of the list, and that \<open>unlift\<close> puts the store back as it was.
\<close>

subsection \<open>Segments of the list\<close>

fun seg :: "('i, 'o) store \<Rightarrow> nat list \<Rightarrow> bool" where
  "seg h (a # b # xs) \<longleftrightarrow> n_next (h a) = Some b \<and> n_prev (h b) = Some a \<and> seg h (b # xs)"
| "seg h _ \<longleftrightarrow> True"

definition chain :: "('i, 'o) store \<Rightarrow> nat list \<Rightarrow> bool" where
  "chain h xs \<longleftrightarrow> distinct xs \<and> seg h xs \<and> (xs \<noteq> [] \<longrightarrow> n_next (h (last xs)) = None)"

text \<open>What the links do not touch.\<close>

definition same_data :: "('i, 'o) store \<Rightarrow> ('i, 'o) store \<Rightarrow> bool" where
  "same_data h h' \<longleftrightarrow>
     (\<forall>a. n_value (h' a) = n_value (h a) \<and> n_match (h' a) = n_match (h a) \<and> n_id (h' a) = n_id (h a))"

lemma same_data_refl [simp, intro]: "same_data h h"
  by (simp add: same_data_def)

lemma same_data_trans [trans]: "same_data h h' \<Longrightarrow> same_data h' h'' \<Longrightarrow> same_data h h''"
  by (simp add: same_data_def)

lemma same_data_link [simp, intro]: "same_data h (setNext a p h)" "same_data h (setPrev a p h)"
  by (simp_all add: same_data_def setNext_def setPrev_def)

lemma link_simps [simp]:
  "n_next (setNext a p h b) = (if b = a then p else n_next (h b))"
  "n_prev (setNext a p h b) = n_prev (h b)"
  "n_next (setPrev a p h b) = n_next (h b)"
  "n_prev (setPrev a p h b) = (if b = a then p else n_prev (h b))"
  "n_value (setNext a p h b) = n_value (h b)" "n_value (setPrev a p h b) = n_value (h b)"
  "n_match (setNext a p h b) = n_match (h b)" "n_match (setPrev a p h b) = n_match (h b)"
  "n_id (setNext a p h b) = n_id (h b)" "n_id (setPrev a p h b) = n_id (h b)"
  by (simp_all add: setNext_def setPrev_def)

lemma seg_append: "seg h (xs @ a # ys) \<longleftrightarrow> seg h (xs @ [a]) \<and> seg h (a # ys)"
proof (induction xs)
  case (Cons x xs)
  then show ?case by (cases xs) auto
qed (cases ys, auto)

lemma seg_cong:
  assumes "\<And>a. a \<in> set (butlast xs) \<Longrightarrow> n_next (h' a) = n_next (h a)"
    and "\<And>a. a \<in> set (tl xs) \<Longrightarrow> n_prev (h' a) = n_prev (h a)"
  shows "seg h' xs \<longleftrightarrow> seg h xs"
  using assms
proof (induction h xs rule: seg.induct)
  case (1 h a b xs)
  have "seg h' (b # xs) \<longleftrightarrow> seg h (b # xs)"
  proof (rule "1.IH")
    show "n_next (h' x) = n_next (h x)" if "x \<in> set (butlast (b # xs))" for x
      using that by (intro 1) (auto split: if_splits)
    show "n_prev (h' x) = n_prev (h x)" if "x \<in> set (tl (b # xs))" for x
      using that by (intro 1) auto
  qed
  with 1(2) [of a] 1(3) [of b] show ?case by simp
qed auto

subsection \<open>Taking out one node\<close>

definition unlink :: "nat \<Rightarrow> ('i, 'o) store \<Rightarrow> ('i, 'o) store" where
  "unlink e h =
     (let h' = setNext (the (n_prev (h e))) (n_next (h e)) h
      in case n_next (h' e) of None \<Rightarrow> h' | Some n \<Rightarrow> setPrev n (n_prev (h' e)) h')"

definition relink :: "nat \<Rightarrow> ('i, 'o) store \<Rightarrow> ('i, 'o) store" where
  "relink e h =
     (let h' = setNext (the (n_prev (h e))) (Some e) h
      in case n_next (h' e) of None \<Rightarrow> h' | Some n \<Rightarrow> setPrev n (Some e) h')"

lemma same_data_unlink [simp, intro]: "same_data h (unlink e h)"
  by (auto simp: unlink_def Let_def same_data_def split: option.split)

lemma chain_around:
  assumes "chain h (A @ p # e # B)"
  shows "n_prev (h e) = Some p" "n_next (h p) = Some e"
    "n_next (h e) = (case B of [] \<Rightarrow> None | b # _ \<Rightarrow> Some b)"
    "B = b # B' \<Longrightarrow> n_prev (h b) = Some e"
proof -
  have s: "seg h (p # e # B)" "n_next (h (last (e # B))) = None"
    using assms by (simp_all add: chain_def seg_append [of h A p "e # B"])
  then show "n_prev (h e) = Some p" "n_next (h p) = Some e" by simp_all
  show "n_next (h e) = (case B of [] \<Rightarrow> None | b # _ \<Rightarrow> Some b)"
    using s by (cases B) simp_all
  show "n_prev (h b) = Some e" if "B = b # B'" using s that by simp
qed

lemma unlink_eq:
  assumes "chain h (A @ p # e # B)"
  shows "unlink e h =
    (case B of [] \<Rightarrow> setNext p None h | b # _ \<Rightarrow> setPrev b (Some p) (setNext p (Some b) h))"
proof -
  have "e \<noteq> p" using assms by (auto simp: chain_def)
  then show ?thesis using chain_around [OF assms] by (cases B) (simp_all add: unlink_def)
qed

lemma unlink_chain:
  assumes "chain h (A @ p # e # B)"
  shows "chain (unlink e h) (A @ p # B)"
proof -
  let ?h = "unlink e h"
  have d: "distinct (A @ p # e # B)" and s: "seg h (A @ [p])" "seg h (e # B)" "n_next (h (last (e # B))) = None"
    using assms by (auto simp: chain_def seg_append [of h A p "e # B"])
  have "seg ?h (A @ [p]) \<longleftrightarrow> seg h (A @ [p])"
    using d by (intro seg_cong) (auto simp: unlink_eq [OF assms] butlast_append tl_append split: list.splits)
  moreover have "seg ?h (p # B) \<and> n_next (?h (last (p # B))) = None"
  proof (cases B)
    case (Cons b B')
    have "seg ?h (b # B') \<longleftrightarrow> seg h (b # B')"
    proof (rule seg_cong)
      show "n_next (?h x) = n_next (h x)" if "x \<in> set (butlast (b # B'))" for x
        using that d Cons by (auto simp: unlink_eq [OF assms] dest: in_set_butlastD split: if_splits)
    qed (use d Cons in \<open>auto simp: unlink_eq [OF assms]\<close>)
    moreover have "n_next (?h (last (b # B'))) = None"
    proof -
      have "last (b # B') \<in> set B" using Cons by (metis last_in_set list.distinct(1))
      then have "last (b # B') \<noteq> p" using d by auto
      then show ?thesis using s(3) Cons by (simp add: unlink_eq [OF assms])
    qed
    ultimately show ?thesis using s(2) Cons d by (auto simp: unlink_eq [OF assms])
  qed (simp add: unlink_eq [OF assms])
  ultimately show ?thesis using d s(1) by (auto simp: chain_def seg_append [of ?h A p B])
qed

lemma relink_unlink:
  assumes "chain h (A @ p # e # B)"
  shows "relink e (unlink e h) = h"
proof -
  note a = chain_around [OF assms]
  have d: "distinct (A @ p # e # B)" using assms by (simp add: chain_def)
  have u: "unlink e h e = h e" using d
    by (auto simp: unlink_eq [OF assms] setNext_def setPrev_def split: list.split)
  have "relink e (unlink e h) x = h x" for x
  proof (cases B)
    case Nil
    have "h p = (h p)\<lparr>n_next := Some e\<rparr>" using a(2) by simp
    then show ?thesis using a(1,3) Nil d u by (simp add: relink_def unlink_eq [OF assms] setNext_def)
  next
    case (Cons b B')
    have "(h p)\<lparr>n_next := Some e\<rparr> = h p" "(h b)\<lparr>n_prev := Some e\<rparr> = h b" using a(2,4) Cons by simp_all
    then show ?thesis using a(1,3) Cons d u
      by (simp add: relink_def unlink_eq [OF assms] setNext_def setPrev_def)
  qed
  then show ?thesis by blast
qed

subsection \<open>Lifting an entry and its match\<close>

lemma lift_chain:
  assumes "chain h (A @ p # e # M @ m # B)" and "n_match (h e) = Some m"
  defines "h' \<equiv> unlink m (unlink e h)"
  shows "lift e h = Inr h'" "chain h' (A @ p # M @ B)" "same_data h h'" "unlift e h' = Inr h"
proof -
  let ?h1 = "unlink e h"
  have c1: "chain ?h1 (A @ p # M @ m # B)" using unlink_chain [OF assms(1)] .
  obtain C q where q: "A @ p # M = C @ [q]" by (metis append_is_Nil_conv list.distinct(1) rev_exhaust)
  have C: "A @ p # M @ m # B = C @ q # m # B" using q by (metis append.assoc append_Cons append_Nil)
  have c1': "chain ?h1 (C @ q # m # B)" using c1 C by simp
  have ne: "m \<noteq> e" using assms(1) by (auto simp: chain_def)
  note a = chain_around [OF assms(1)] and a1 = chain_around [OF c1']
  have m: "n_match (?h1 e) = Some m" using assms(2) same_data_unlink [of h e] by (simp add: same_data_def)
  obtain b where b: "n_next (h e) = Some b" using a(3) by (cases M) auto
  have ep: "e \<noteq> p" using assms(1) by (simp add: chain_def)
  have e1: "?h1 = setPrev b (n_prev (h e)) (setNext p (n_next (h e)) h)"
    using ep b a(1) by (simp add: unlink_def)
  have "lift e h = gbind (deref (n_match (?h1 e))) (\<lambda>match. gbind (deref (n_prev (?h1 match))) (\<lambda>q.
      let h = setNext q (n_next (?h1 match)) ?h1 in
      case n_next (h match) of None \<Rightarrow> Inr h | Some r \<Rightarrow> Inr (setPrev r (n_prev (h match)) h)))"
    unfolding e1 lift_def Let_def using a(1) b ep by (simp add: deref_def cong: option.case_cong)
  then show "lift e h = Inr h'"
    using m a1(1) by (simp add: deref_def h'_def unlink_def [of m] Let_def split: option.split)
  have "chain h' (C @ q # B)" unfolding h'_def by (rule unlink_chain [OF c1'])
  then show "chain h' (A @ p # M @ B)" using q by (metis append.assoc append_Cons append_Nil)
  show "same_data h h'" unfolding h'_def by (rule same_data_trans) auto
  have r1: "relink m h' = ?h1" unfolding h'_def by (rule relink_unlink [OF c1'])
  have r: "relink e ?h1 = h" by (rule relink_unlink [OF assms(1)])
  have m': "n_match (h' e) = Some m" "n_prev (h' m) = Some q"
    using m a1 ne c1' by (auto simp: h'_def unlink_eq [OF c1'] chain_def split: list.split)
  have u1: "n_prev (?h1 e) = Some p" "n_next (?h1 e) = Some b"
    using a(1) b ep assms(1) by (auto simp: e1 chain_def)
  have r1': "(case n_next (setNext q (Some m) h' m) of None \<Rightarrow> setNext q (Some m) h'
      | Some r \<Rightarrow> setPrev r (Some m) (setNext q (Some m) h')) = ?h1"
    using r1 m'(2) by (simp only: relink_def Let_def option.sel)
  have "unlift e h' = gbind (deref (n_prev (?h1 e))) (\<lambda>p.
      gbind (deref (n_next (setNext p (Some e) ?h1 e))) (\<lambda>n. Inr (setPrev n (Some e) (setNext p (Some e) ?h1))))"
    by (simp only: unlift_def m' deref_def option.case gbind_simps Let_def r1')
  also have "\<dots> = Inr (relink e ?h1)" using u1 ep by (simp add: relink_def deref_def)
  finally show "unlift e h' = Inr h" using r by simp
qed

subsection \<open>Building the list\<close>

text \<open>The position of the first return of an operation, and its address in a list that starts at \<open>a\<close>.\<close>

definition isReturn :: "nat \<Rightarrow> ('i, 'o) entry \<Rightarrow> bool" where
  "isReturn k e \<longleftrightarrow> kind e = returnEntry \<and> e_id e = k"

definition firstAt :: "('e \<Rightarrow> bool) \<Rightarrow> 'e list \<Rightarrow> nat" where
  "firstAt P es = length (takeWhile (\<lambda>e. \<not> P e) es)"

definition matchOf :: "nat \<Rightarrow> ('i, 'o) entry list \<Rightarrow> nat \<rightharpoonup> nat" where
  "matchOf a es k = (if firstAt (isReturn k) es < length es then Some (a + firstAt (isReturn k) es) else None)"

definition node_of :: "nat \<Rightarrow> ('i, 'o) entry list \<Rightarrow> ('i, 'o) node \<Rightarrow> nat \<Rightarrow> bool" where
  "node_of a es nd i \<longleftrightarrow> n_value nd = Some (e_value (es ! i)) \<and> n_id nd = int (e_id (es ! i)) \<and>
     n_match nd = (if kind (es ! i) = returnEntry then None
                   else matchOf (a + Suc i) (drop (Suc i) es) (e_id (es ! i)))"

lemma matchOf_Cons:
  "matchOf a (e # es) = (if kind e = returnEntry then (matchOf (Suc a) es)(e_id e \<mapsto> a) else matchOf (Suc a) es)"
  by (auto simp: matchOf_def firstAt_def isReturn_def fun_eq_iff)

lemma linkLoop_Cons:
  "linkLoop a (e # es) h =
     (case linkLoop (a + 1) es h of (h, match, root) \<Rightarrow>
        (insertBefore a root (h(a := newNode (Some (e_value e))
           (if kind e = returnEntry then None else match (e_id e)) (int (e_id e)))),
         if kind e = returnEntry then match(e_id e \<mapsto> a) else match, Some a))"
  by (simp split: prod.split)

lemma chain_insertBefore:
  assumes "chain h [Suc a..<Suc a + l]" and "l \<noteq> 0 \<Longrightarrow> n_prev (h (Suc a)) = None"
    and "n_next nd = None" "n_prev nd = None"
  defines "h' \<equiv> insertBefore a (if l = 0 then None else Some (Suc a)) (h(a := nd))"
  shows "chain h' [a..<a + Suc l]" "n_prev (h' a) = None"
    "x \<noteq> a \<Longrightarrow> n_value (h' x) = n_value (h x) \<and> n_id (h' x) = n_id (h x) \<and> n_match (h' x) = n_match (h x)"
    "n_value (h' a) = n_value nd" "n_id (h' a) = n_id nd" "n_match (h' a) = n_match nd"
    "x < a \<Longrightarrow> h' x = h x"
proof -
  have h': "h' = (if l = 0 then h(a := nd) else setNext a (Some (Suc a)) (setPrev (Suc a) (Some a) (h(a := nd))))"
    using assms(2) by (simp add: h'_def insertBefore_def)
  then show "n_prev (h' a) = None"
    "x \<noteq> a \<Longrightarrow> n_value (h' x) = n_value (h x) \<and> n_id (h' x) = n_id (h x) \<and> n_match (h' x) = n_match (h x)"
    "n_value (h' a) = n_value nd" "n_id (h' a) = n_id nd" "n_match (h' a) = n_match nd"
    "x < a \<Longrightarrow> h' x = h x"
    using assms(4) by (auto simp: setNext_def setPrev_def)
  show "chain h' [a..<a + Suc l]"
  proof (cases l)
    case (Suc k)
    have u: "[a..<a + Suc l] = a # Suc a # [Suc (Suc a)..<a + Suc l]" "[Suc a..<Suc a + l] = Suc a # [Suc (Suc a)..<a + Suc l]"
      using Suc by (simp_all add: upt_conv_Cons)
    have "seg h' [Suc a..<Suc a + l] \<longleftrightarrow> seg h [Suc a..<Suc a + l]"
      unfolding u(2) by (rule seg_cong) (auto simp: h' simp del: upt_Suc dest: in_set_butlastD split: if_splits)
    moreover have "last (a # Suc a # [Suc (Suc a)..<a + Suc l]) = last [Suc a..<Suc a + l]" using Suc by (simp add: u)
    moreover have "last [Suc a..<Suc a + l] \<noteq> a" using Suc by (simp add: last_upt)
    then have "n_next (h' (last [Suc a..<Suc a + l])) = n_next (h (last [Suc a..<Suc a + l]))"
      using Suc by (simp add: h')
    ultimately show ?thesis using assms(1) Suc unfolding chain_def u by (auto simp: h')
  qed (use assms(3) in \<open>simp add: h' chain_def\<close>)
qed

lemma linkLoop_spec:
  "\<exists>h'. linkLoop a es h = (h', matchOf a es, if es = [] then None else Some a) \<and>
     chain h' [a..<a + length es] \<and> (es \<noteq> [] \<longrightarrow> n_prev (h' a) = None) \<and>
     (\<forall>i<length es. node_of a es (h' (a + i)) i) \<and> (\<forall>x<a. h' x = h x)"
proof (induction es arbitrary: a)
  case Nil
  show ?case by (rule exI [of _ h]) (simp add: matchOf_def fun_eq_iff chain_def)
next
  case (Cons e es)
  obtain h1 where 1: "linkLoop (Suc a) es h = (h1, matchOf (Suc a) es, if es = [] then None else Some (Suc a))"
    "chain h1 [Suc a..<Suc a + length es]" "es \<noteq> [] \<longrightarrow> n_prev (h1 (Suc a)) = None"
    "\<forall>i<length es. node_of (Suc a) es (h1 (Suc a + i)) i" "\<forall>x<Suc a. h1 x = h x"
    using Cons.IH [of "Suc a"] by blast
  let ?nd = "newNode (Some (e_value e)) (if kind e = returnEntry then None else matchOf (Suc a) es (e_id e)) (int (e_id e))"
  let ?h = "insertBefore a (if length es = 0 then None else Some (Suc a)) (h1(a := ?nd))"
  note c = chain_insertBefore [where h = h1 and a = a and l = "length es" and nd = ?nd, OF 1(2)]
  have prems: "length es \<noteq> 0 \<Longrightarrow> n_prev (h1 (Suc a)) = None" "n_next ?nd = None" "n_prev ?nd = None"
    using 1(3) by (auto simp: newNode_def)
  have "linkLoop a (e # es) h = (?h, matchOf a (e # es), Some a)"
    using 1(1) by (simp add: linkLoop_Cons matchOf_Cons del: linkLoop.simps)
  moreover have "node_of a (e # es) (?h (a + i)) i" if "i < length (e # es)" for i
  proof (cases i)
    case 0
    then show ?thesis using c(4-6) [OF prems] by (simp add: node_of_def newNode_def)
  next
    case (Suc j)
    then show ?thesis using 1(4) that c(3) [OF prems, of "a + i"] by (simp add: node_of_def)
  qed
  ultimately show ?case using c(1,2) [OF prems] c(7) [OF prems] 1(5) by fastforce
qed

end
