(* ===== verification/Porcupine_Checker.thy ===== *)
theory Porcupine_Checker
  imports Porcupine_List
begin

text \<open>
  The search of \<^verbatim>\<open>porcupine/checker.go\<close> for an order of the operations of a history: a
  depth-first search with a cache of the configurations it has tried, and the collection of the
  results of the parts of a history.
\<close>

subsection \<open>The cache\<close>

record 's cacheEntry =
  linearized_ce :: bitset
  state_ce :: 's

type_synonym 's cache = "64 word \<Rightarrow> 's cacheEntry list"

definition cacheContains :: "('s, 'i, 'o) Model \<Rightarrow> 's cache \<Rightarrow> 's cacheEntry \<Rightarrow> bool" where
  "cacheContains model cache entry =
     list_ex (\<lambda>elem. equals (linearized_ce entry) (linearized_ce elem) \<and>
       Equal model (state_ce entry) (state_ce elem)) (cache (hash (linearized_ce entry)))"

subsection \<open>The search\<close>

text \<open>
  The variables of \<open>checkSingle\<close>; the stack \<open>calls\<close> has its top first. \<open>longest\<close> has for each operation
  the longest partial linearization found with it. A call entry holds an input, its match an output.
\<close>

type_synonym longest = "int list option list"

record ('s, 'i, 'o) search =
  s_store :: "('i, 'o) store"
  s_entry :: "nat option"
  s_state :: 's
  s_linearized :: bitset
  s_cache :: "'s cache"
  s_calls :: "(nat \<times> 's) list"
  s_longest :: longest

definition inputOf :: "('i, 'o) node \<Rightarrow> 'i go" where
  "inputOf n = (case n_value n of Some (Inl v) \<Rightarrow> Inr v | _ \<Rightarrow> Inl TypeAssertion)"

definition outputOf :: "('i, 'o) node \<Rightarrow> 'o go" where
  "outputOf n = (case n_value n of Some (Inr v) \<Rightarrow> Inr v | _ \<Rightarrow> Inl TypeAssertion)"

definition callIds :: "('s, 'i, 'o) search \<Rightarrow> int list" where
  "callIds s = map (\<lambda>v. n_id (s_store s (fst v))) (rev (s_calls s))"

fun recordLongest :: "int list \<Rightarrow> int list \<Rightarrow> longest \<Rightarrow> longest go" where
  "recordLongest seq [] longest = Inr longest"
| "recordLongest seq (v # vs) longest =
     gbind (idx longest v) (\<lambda>l.
     if (case l of None \<Rightarrow> True | Some l \<Rightarrow> length seq > length l)
     then gbind (set_idx longest v (Some seq)) (recordLongest seq vs)
     else recordLongest seq vs longest)"

text \<open>One round of the loop, without the test of \<open>kill\<close>; \<open>Inl\<close> is what the code returns.\<close>

definition checkRound ::
    "('s, 'i, 'o) Model \<Rightarrow> bool \<Rightarrow> ('s, 'i, 'o) search \<Rightarrow> (bool \<times> longest + ('s, 'i, 'o) search) go" where
  "checkRound model computePartial s =
     (let h = s_store s in
      if n_next (h 0) = None then Inr (Inl (True, replicate (length (s_longest s)) (Some (callIds s))))
      else gbind (deref (s_entry s)) (\<lambda>entry.
        case n_match (h entry) of
          Some matching \<Rightarrow>
            gbind (inputOf (h entry)) (\<lambda>inp.
            gbind (outputOf (h matching)) (\<lambda>out.
            case Step model (s_state s) inp out of (ok, newState) \<Rightarrow>
            if ok then
              gbind (set_bs (nat (n_id (h entry))) (clone (s_linearized s))) (\<lambda>newLinearized.
              let newCacheEntry = \<lparr>linearized_ce = newLinearized, state_ce = newState\<rparr> in
              if \<not> cacheContains model (s_cache s) newCacheEntry then
                gbind (set_bs (nat (n_id (h entry))) (s_linearized s)) (\<lambda>linearized.
                gbind (lift entry h) (\<lambda>h'.
                Inr (Inr (s\<lparr>s_cache := (s_cache s)(hash newLinearized :=
                              s_cache s (hash newLinearized) @ [newCacheEntry]),
                            s_calls := (entry, s_state s) # s_calls s, s_state := newState,
                            s_linearized := linearized, s_store := h', s_entry := n_next (h' 0)\<rparr>))))
              else Inr (Inr (s\<lparr>s_entry := n_next (h entry)\<rparr>)))
            else Inr (Inr (s\<lparr>s_entry := n_next (h entry)\<rparr>))))
        | None \<Rightarrow>
            (case s_calls s of
               [] \<Rightarrow> Inr (Inl (False, s_longest s))
             | (callsTop, state) # calls \<Rightarrow>
                 gbind (if computePartial then recordLongest (callIds s) (callIds s) (s_longest s)
                        else Inr (s_longest s)) (\<lambda>longest.
                 gbind (clear_bs (nat (n_id (h callsTop))) (s_linearized s)) (\<lambda>linearized.
                 gbind (unlift callsTop h) (\<lambda>h'.
                 Inr (Inr (s\<lparr>s_entry := n_next (h' callsTop), s_state := state, s_linearized := linearized,
                             s_calls := calls, s_store := h', s_longest := longest\<rparr>))))))))"

text \<open>\<open>kill\<close> tells for each round, counted down, whether the flag is set; \<open>None\<close> is no result yet.\<close>

fun checkLoop :: "nat \<Rightarrow> (nat \<Rightarrow> bool) \<Rightarrow> ('s, 'i, 'o) Model \<Rightarrow> bool \<Rightarrow> ('s, 'i, 'o) search \<Rightarrow> (bool \<times> longest) option go" where
  "checkLoop 0 kill model computePartial s = Inr None"
| "checkLoop (Suc fuel) kill model computePartial s =
     (if n_next (s_store s 0) \<noteq> None \<and> kill fuel then Inr (Some (False, s_longest s))
      else gbind (checkRound model computePartial s) (\<lambda>r.
        case r of Inl b \<Rightarrow> Inr (Some b) | Inr s \<Rightarrow> checkLoop fuel kill model computePartial s))"

definition startSearch :: "('s, 'i, 'o) Model \<Rightarrow> ('i, 'o) store \<Rightarrow> nat option \<Rightarrow> nat \<Rightarrow> ('s, 'i, 'o) search" where
  "startSearch model h entry n =
     \<lparr>s_store = insertBefore 0 entry (h(0 := newNode None None (-1))), s_entry = entry,
      s_state = Init model, s_linearized = newBitset n, s_cache = (\<lambda>_. []), s_calls = [],
      s_longest = replicate n None\<rparr>"

definition checkSingle ::
    "nat \<Rightarrow> (nat \<Rightarrow> bool) \<Rightarrow> ('s, 'i, 'o) Model \<Rightarrow> ('i, 'o) entry list \<Rightarrow> bool \<Rightarrow> (bool \<times> longest) option go" where
  "checkSingle fuel kill model history computePartial =
     (case makeLinkedEntries history of (h, entry) \<Rightarrow>
      case length_ll fuel h entry of
        None \<Rightarrow> Inr None
      | Some l \<Rightarrow> checkLoop fuel kill model computePartial (startSearch model h entry (l div 2)))"

subsection \<open>The parts of a history\<close>

text \<open>A model as the caller gives it may leave functions out.\<close>

record ('s, 'i, 'o) ModelArg =
  Partition_arg :: "(('i, 'o) Operation list \<Rightarrow> ('i, 'o) Operation list list) option"
  PartitionEvent_arg :: "(('i, 'o) Event list \<Rightarrow> ('i, 'o) Event list list) option"
  Init_arg :: 's
  Step_arg :: "'s \<Rightarrow> 'i \<Rightarrow> 'o \<Rightarrow> bool \<times> 's"
  Equal_arg :: "('s \<Rightarrow> 's \<Rightarrow> bool) option"

definition fillDefault :: "('s, 'i, 'o) ModelArg \<Rightarrow> ('s, 'i, 'o) Model" where
  "fillDefault model =
     \<lparr>Partition = (case Partition_arg model of None \<Rightarrow> NoPartition | Some f \<Rightarrow> f),
      PartitionEvent = (case PartitionEvent_arg model of None \<Rightarrow> NoPartitionEvent | Some f \<Rightarrow> f),
      Init = Init_arg model, Step = Step_arg model,
      Equal = (case Equal_arg model of None \<Rightarrow> ShallowEqual | Some f \<Rightarrow> f)\<rparr>"

datatype CheckResult = Unknown | Ok | Illegal

text \<open>
  The loop that collects the results of the goroutines: what it receives is the result of some part,
  or the timeout. It stops at a result \<open>False\<close> unless the partial linearizations are wanted, at the last
  result, or at the timeout; \<open>None\<close> is a loop that still waits. The flag \<open>kill\<close> is set only by a step
  that also leaves the loop, so the results that count come from searches that were not cut short.
\<close>

datatype received = Result bool | TimedOut

fun collect :: "bool \<Rightarrow> nat \<Rightarrow> nat \<Rightarrow> bool \<Rightarrow> received list \<Rightarrow> (bool \<times> bool) option" where
  "collect computeInfo len got ok [] = None"
| "collect computeInfo len got ok (TimedOut # rs) = Some (ok, True)"
| "collect computeInfo len got ok (Result result # rs) =
     (let got = got + 1; ok = (ok \<and> result) in
      if \<not> ok \<and> \<not> computeInfo then Some (ok, False)
      else if got \<ge> len then Some (ok, False)
      else collect computeInfo len got ok rs)"

definition verdict :: "bool \<times> bool \<Rightarrow> CheckResult" where
  "verdict = (\<lambda>(ok, timedOut). if \<not> ok then Illegal else if timedOut then Unknown else Ok)"

text \<open>The order in which the searches of the parts end, and whether the timer fires among them.\<close>

datatype arrival = Part nat | Timer

fun deliver :: "(nat \<Rightarrow> (bool \<times> longest) option go) \<Rightarrow> arrival list \<Rightarrow> received list option go" where
  "deliver res [] = Inr (Some [])"
| "deliver res (Timer # ars) = Inr (Some [TimedOut])"
| "deliver res (Part i # ars) =
     gbind (res i) (\<lambda>r. case r of
       None \<Rightarrow> Inr None
     | Some (b, _) \<Rightarrow> gbind (deliver res ars) (\<lambda>rs. Inr (map_option ((#) (Result b)) rs)))"

text \<open>
  When the information for the visualization is wanted, the searches that have not ended yet are waited
  for too; they may have been told to stop, \<open>kills i\<close> in the part \<open>i\<close>. The lists of a part are a set, for
  the code goes through a map of them.
\<close>

record ('i, 'o) linearizationInfo =
  li_history :: "('i, 'o) entry list list"
  partialLinearizations :: "int list set list"

definition partials :: "longest \<Rightarrow> int list set" where
  "partials longest = set (map the (filter (\<lambda>v. v \<noteq> None) longest))"

fun gatherInfo :: "(nat \<Rightarrow> (bool \<times> longest) option go) \<Rightarrow> nat list \<Rightarrow> int list set list option go" where
  "gatherInfo res [] = Inr (Some [])"
| "gatherInfo res (i # is) =
     gbind (res i) (\<lambda>r. case r of
       None \<Rightarrow> Inr None
     | Some (_, longest) \<Rightarrow> gbind (gatherInfo res is) (\<lambda>ps. Inr (map_option ((#) (partials longest)) ps)))"

definition inTime :: "arrival list \<Rightarrow> nat \<Rightarrow> bool" where
  "inTime ars i \<longleftrightarrow> Part i \<in> set (takeWhile (\<lambda>a. a \<noteq> Timer) ars)"

definition checkParallel ::
    "nat \<Rightarrow> (nat \<Rightarrow> nat \<Rightarrow> bool) \<Rightarrow> ('s, 'i, 'o) Model \<Rightarrow> ('i, 'o) entry list list \<Rightarrow> bool \<Rightarrow> arrival list \<Rightarrow>
     (CheckResult \<times> ('i, 'o) linearizationInfo) option go" where
  "checkParallel fuel kills model history computeInfo ars =
     (let single = (\<lambda>kill i. checkSingle fuel kill model (history ! i) computeInfo) in
      gbind (deliver (single (\<lambda>_. False)) ars) (\<lambda>rs. case rs of
        None \<Rightarrow> Inr None
      | Some rs \<Rightarrow>
          (case collect computeInfo (length history) 0 True rs of
             None \<Rightarrow> Inr None
           | Some res \<Rightarrow>
               if computeInfo then
                 gbind (gatherInfo (\<lambda>i. single (if inTime ars i then (\<lambda>_. False) else kills i) i) [0..<length history]) (\<lambda>ps.
                   Inr (map_option (\<lambda>ps. (verdict res, \<lparr>li_history = history, partialLinearizations = ps\<rparr>)) ps))
               else Inr (Some (verdict res, \<lparr>li_history = [], partialLinearizations = []\<rparr>)))))"

definition checkEvents ::
    "nat \<Rightarrow> (nat \<Rightarrow> nat \<Rightarrow> bool) \<Rightarrow> ('s, 'i, 'o) ModelArg \<Rightarrow> ('i, 'o) Event list \<Rightarrow> bool \<Rightarrow> arrival list \<Rightarrow>
     (CheckResult \<times> ('i, 'o) linearizationInfo) option go" where
  "checkEvents fuel kills model history verbose ars =
     (let model = fillDefault model;
          partitions = PartitionEvent model history;
          l = map (\<lambda>subhistory. convertEntries (renumber subhistory)) partitions
      in checkParallel fuel kills model l verbose ars)"

definition checkOperations ::
    "nat \<Rightarrow> (nat \<Rightarrow> nat \<Rightarrow> bool) \<Rightarrow> (('i, 'o) entry list \<Rightarrow> ('i, 'o) entry list) \<Rightarrow> ('s, 'i, 'o) ModelArg \<Rightarrow>
     ('i, 'o) Operation list \<Rightarrow> bool \<Rightarrow> arrival list \<Rightarrow> (CheckResult \<times> ('i, 'o) linearizationInfo) option go" where
  "checkOperations fuel kills srt model history verbose ars =
     (let model = fillDefault model;
          partitions = Partition model history;
          l = map (makeEntries srt) partitions
      in checkParallel fuel kills model l verbose ars)"

text \<open>The exported functions; without a timeout no timer fires.\<close>

definition CheckOperations where
  "CheckOperations fuel kills srt model history parts =
     gbind (checkOperations fuel kills srt model history False (map Part parts)) (\<lambda>res. Inr (map_option (\<lambda>(r, _). r = Ok) res))"

definition CheckOperationsTimeout where
  "CheckOperationsTimeout fuel kills srt model history ars =
     gbind (checkOperations fuel kills srt model history False ars) (\<lambda>res. Inr (map_option fst res))"

definition CheckOperationsVerbose where
  "CheckOperationsVerbose fuel kills srt model history ars = checkOperations fuel kills srt model history True ars"

definition CheckEvents where
  "CheckEvents fuel kills model history parts =
     gbind (checkEvents fuel kills model history False (map Part parts)) (\<lambda>res. Inr (map_option (\<lambda>(r, _). r = Ok) res))"

definition CheckEventsTimeout where
  "CheckEventsTimeout fuel kills model history ars =
     gbind (checkEvents fuel kills model history False ars) (\<lambda>res. Inr (map_option fst res))"

definition CheckEventsVerbose where
  "CheckEventsVerbose fuel kills model history ars = checkEvents fuel kills model history True ars"

end
