(* ===== verification/Porcupine_History.thy ===== *)
theory Porcupine_History
  imports Porcupine_Links Porcupine_Checker
begin

text \<open>
  What the search looks for, and the linked list of a history. A linearization is an order of the
  operations that respects real time and that the model can take. The list that is left when a set
  of operations is lifted has the entries of the others, in the order of the history.
\<close>

subsection \<open>Linearizations\<close>

fun legal :: "('s, 'i, 'o) Model \<Rightarrow> (nat \<Rightarrow> 'i) \<Rightarrow> (nat \<Rightarrow> 'o) \<Rightarrow> 's \<Rightarrow> nat list \<Rightarrow> bool" where
  "legal model inp out s [] \<longleftrightarrow> True"
| "legal model inp out s (k # ks) \<longleftrightarrow>
     (case Step model s (inp k) (out k) of (ok, s') \<Rightarrow> ok \<and> legal model inp out s' ks)"

definition final :: "('s, 'i, 'o) Model \<Rightarrow> (nat \<Rightarrow> 'i) \<Rightarrow> (nat \<Rightarrow> 'o) \<Rightarrow> 's \<Rightarrow> nat list \<Rightarrow> 's" where
  "final model inp out s ks = fold (\<lambda>k s. snd (Step model s (inp k) (out k))) ks s"

text \<open>\<open>before j k\<close> means that \<open>j\<close> returned before \<open>k\<close> was called.\<close>

definition linearization ::
    "nat \<Rightarrow> (nat \<Rightarrow> nat \<Rightarrow> bool) \<Rightarrow> ('s, 'i, 'o) Model \<Rightarrow> (nat \<Rightarrow> 'i) \<Rightarrow> (nat \<Rightarrow> 'o) \<Rightarrow> nat list \<Rightarrow> bool" where
  "linearization n before model inp out seq \<longleftrightarrow>
     distinct seq \<and> set seq = {..<n} \<and> sorted_wrt (\<lambda>j k. \<not> before k j) seq \<and> legal model inp out (Init model) seq"

lemma legal_append:
  "legal model inp out s (ks @ ls) \<longleftrightarrow>
     legal model inp out s ks \<and> legal model inp out (final model inp out s ks) ls"
  by (induction ks arbitrary: s) (auto simp: final_def split: prod.splits)

lemma legal_snoc:
  "legal model inp out s (ks @ [k]) \<longleftrightarrow>
     legal model inp out s ks \<and> fst (Step model (final model inp out s ks) (inp k) (out k))"
  by (simp add: legal_append split: prod.split)

lemma final_snoc [simp]:
  "final model inp out s (ks @ [k]) = snd (Step model (final model inp out s ks) (inp k) (out k))"
  by (simp add: final_def)

text \<open>A configuration is the set of operations that are linearized and the state they lead to. An
  operation is enabled if all that returned before its call are linearized.\<close>

definition enabled :: "nat \<Rightarrow> (nat \<Rightarrow> nat \<Rightarrow> bool) \<Rightarrow> nat set \<Rightarrow> nat \<Rightarrow> bool" where
  "enabled n before L k \<longleftrightarrow> k < n \<and> k \<notin> L \<and> (\<forall>j<n. j \<notin> L \<longrightarrow> \<not> before j k)"

definition closed_at ::
    "nat \<Rightarrow> (nat \<Rightarrow> nat \<Rightarrow> bool) \<Rightarrow> ('s, 'i, 'o) Model \<Rightarrow> (nat \<Rightarrow> 'i) \<Rightarrow> (nat \<Rightarrow> 'o) \<Rightarrow> (nat set \<times> 's) set \<Rightarrow> nat set \<Rightarrow> 's \<Rightarrow> bool" where
  "closed_at n before model inp out C L s \<longleftrightarrow>
     (\<forall>k s'. enabled n before L k \<longrightarrow> Step model s (inp k) (out k) = (True, s') \<longrightarrow> (insert k L, s') \<in> C)"

text \<open>A set of configurations that has the initial one and is closed under steps has the end of
  every linearization.\<close>

lemma closed_has_linearization:
  assumes C: "\<And>L s. (L, s) \<in> insert ({}, Init model) C \<Longrightarrow> closed_at n before model inp out C L s"
    and lin: "linearization n before model inp out seq" and irrefl: "\<And>k. k < n \<Longrightarrow> \<not> before k k"
  shows "({..<n}, final model inp out (Init model) seq) \<in> insert ({}, Init model) C"
proof -
  have "(set ks, final model inp out (Init model) ks) \<in> insert ({}, Init model) C" if "seq = ks @ rest" for ks rest
    using that
  proof (induction ks arbitrary: rest rule: rev_induct)
    case (snoc k ks)
    let ?s = "final model inp out (Init model) ks"
    have "distinct (ks @ k # rest)" and set: "set (ks @ k # rest) = {..<n}"
      and srt: "sorted_wrt (\<lambda>j k. \<not> before k j) (ks @ k # rest)"
      and leg: "legal model inp out (Init model) (ks @ k # rest)"
      using lin snoc.prems by (simp_all add: linearization_def)
    have k: "k < n" using set by auto
    have "\<not> before j k" if "j < n" "j \<notin> set ks" for j
    proof -
      have "j = k \<or> j \<in> set rest" using that set by auto
      then show ?thesis using srt irrefl k by (auto simp: sorted_wrt_append)
    qed
    then have "enabled n before (set ks) k"
      using k \<open>distinct (ks @ k # rest)\<close> by (auto simp: enabled_def)
    moreover have "legal model inp out (Init model) (ks @ [k])"
      using leg by (auto simp: legal_append split: prod.splits)
    then have "Step model ?s (inp k) (out k) = (True, snd (Step model ?s (inp k) (out k)))"
      by (simp add: legal_snoc prod_eq_iff)
    moreover have "closed_at n before model inp out C (set ks) ?s"
      using C snoc.IH [of "k # rest"] snoc.prems by simp
    ultimately show ?case by (auto simp: closed_at_def)
  qed (simp add: final_def)
  from this [of seq "[]"] have "(set seq, final model inp out (Init model) seq) \<in> insert ({}, Init model) C" by simp
  moreover have "set seq = {..<n}" using lin by (simp add: linearization_def)
  ultimately show ?thesis by (simp only:)
qed

subsection \<open>The addresses of the entries of a history\<close>

definition isCall :: "nat \<Rightarrow> ('i, 'o) entry \<Rightarrow> bool" where
  "isCall k e \<longleftrightarrow> kind e = callEntry \<and> e_id e = k"

definition nOps :: "('i, 'o) entry list \<Rightarrow> nat" where
  "nOps hs = length hs div 2"

definition callAddr :: "('i, 'o) entry list \<Rightarrow> nat \<Rightarrow> nat" where
  "callAddr hs k = Suc (firstAt (isCall k) hs)"

definition returnAddr :: "('i, 'o) entry list \<Rightarrow> nat \<Rightarrow> nat" where
  "returnAddr hs k = Suc (firstAt (isReturn k) hs)"

definition inputAt :: "('i, 'o) entry list \<Rightarrow> nat \<Rightarrow> 'i" where
  "inputAt hs k = projl (e_value (hs ! firstAt (isCall k) hs))"

definition outputAt :: "('i, 'o) entry list \<Rightarrow> nat \<Rightarrow> 'o" where
  "outputAt hs k = projr (e_value (hs ! firstAt (isReturn k) hs))"

text \<open>A history is well formed if every operation has one call and one return, in this order.\<close>

definition wf_history :: "('i, 'o) entry list \<Rightarrow> bool" where
  "wf_history hs \<longleftrightarrow>
     distinct (map (\<lambda>e. (kind e, e_id e)) hs) \<and>
     set (map (\<lambda>e. (kind e, e_id e)) hs) = {callEntry, returnEntry} \<times> {..<nOps hs} \<and>
     list_all (\<lambda>e. isl (e_value e) \<longleftrightarrow> kind e = callEntry) hs \<and>
     (\<forall>k\<in>{..<nOps hs}. callAddr hs k < returnAddr hs k)"

lemma firstAt_bound: "e \<in> set hs \<Longrightarrow> P e \<Longrightarrow> firstAt P hs < length hs \<and> P (hs ! firstAt P hs)"
proof (induction hs)
  case (Cons x hs)
  then show ?case by (cases "P x") (auto simp: firstAt_def)
qed simp

lemma wf_historyD:
  assumes "wf_history hs"
  shows "distinct (map (\<lambda>e. (kind e, e_id e)) hs)"
    "(\<lambda>e. (kind e, e_id e)) ` set hs = {callEntry, returnEntry} \<times> {..<nOps hs}"
    "e \<in> set hs \<Longrightarrow> isl (e_value e) \<longleftrightarrow> kind e = callEntry"
    "k < nOps hs \<Longrightarrow> callAddr hs k < returnAddr hs k"
  using assms unfolding wf_history_def set_map list_all_iff lessThan_iff by blast+

lemma wf_unique:
  assumes "wf_history hs" and "i < length hs" "j < length hs" "kind (hs ! i) = kind (hs ! j)" "e_id (hs ! i) = e_id (hs ! j)"
  shows "i = j"
  using assms(2-) nth_eq_iff_index_eq [OF wf_historyD(1) [OF assms(1)], of i j] by simp

lemma wf_firstAt:
  assumes "wf_history hs" and "i < length hs"
  shows "isCall k (hs ! i) \<Longrightarrow> firstAt (isCall k) hs = i" "isReturn k (hs ! i) \<Longrightarrow> firstAt (isReturn k) hs = i"
proof -
  note b = firstAt_bound [OF nth_mem [OF assms(2)]]
  show "firstAt (isCall k) hs = i" if "isCall k (hs ! i)"
    using wf_unique [OF assms(1) _ assms(2), of "firstAt (isCall k) hs"] b [of "isCall k"] that by (simp add: isCall_def)
  show "firstAt (isReturn k) hs = i" if "isReturn k (hs ! i)"
    using wf_unique [OF assms(1) _ assms(2), of "firstAt (isReturn k) hs"] b [of "isReturn k"] that by (simp add: isReturn_def)
qed

lemma wf_call:
  assumes "wf_history hs" and "k < nOps hs"
  shows "firstAt (isCall k) hs < length hs" "isCall k (hs ! firstAt (isCall k) hs)"
    "firstAt (isReturn k) hs < length hs" "isReturn k (hs ! firstAt (isReturn k) hs)"
    "firstAt (isCall k) hs < firstAt (isReturn k) hs"
proof -
  have ex: "\<exists>e\<in>set hs. kind e = t \<and> e_id e = k" for t
  proof -
    have "(t, k) \<in> (\<lambda>e. (kind e, e_id e)) ` set hs"
      unfolding wf_historyD(2) [OF assms(1)] using assms(2) by (cases t) auto
    then show ?thesis by auto
  qed
  obtain e e' where "e \<in> set hs" "isCall k e" "e' \<in> set hs" "isReturn k e'"
    using ex [of callEntry] ex [of returnEntry] unfolding isCall_def isReturn_def by blast
  then show "firstAt (isCall k) hs < length hs" "isCall k (hs ! firstAt (isCall k) hs)"
    "firstAt (isReturn k) hs < length hs" "isReturn k (hs ! firstAt (isReturn k) hs)"
    using firstAt_bound [of e hs "isCall k"] firstAt_bound [of e' hs "isReturn k"] by simp_all
  show "firstAt (isCall k) hs < firstAt (isReturn k) hs"
    using wf_historyD(4) [OF assms] by (simp add: callAddr_def returnAddr_def)
qed

lemma addr_bounds:
  assumes "wf_history hs" and "k < nOps hs"
  shows "0 < callAddr hs k" "callAddr hs k < returnAddr hs k" "returnAddr hs k \<le> length hs" "callAddr hs k \<le> length hs"
  using wf_call [OF assms] by (simp_all add: callAddr_def returnAddr_def)

lemma addr_cases:
  assumes "wf_history hs" and "0 < a" and "a \<le> length hs"
  obtains k where "k < nOps hs" "a = callAddr hs k" | k where "k < nOps hs" "a = returnAddr hs k"
proof -
  let ?e = "hs ! (a - 1)"
  have e: "?e \<in> set hs" using assms(2,3) by simp
  then have "(kind ?e, e_id ?e) \<in> {callEntry, returnEntry} \<times> {..<nOps hs}"
    unfolding wf_historyD(2) [OF assms(1), symmetric] by blast
  then have k: "e_id ?e < nOps hs" by simp
  note w = wf_call [OF assms(1) k]
  show ?thesis
  proof (cases "kind ?e")
    case callEntry
    then have "firstAt (isCall (e_id ?e)) hs = a - 1"
      using assms(2,3) by (intro wf_firstAt [OF assms(1)]) (simp_all add: isCall_def)
    then show ?thesis using that(1) [OF k] assms(2) by (simp add: callAddr_def)
  next
    case returnEntry
    then have "firstAt (isReturn (e_id ?e)) hs = a - 1"
      using assms(2,3) by (intro wf_firstAt [OF assms(1)]) (simp_all add: isReturn_def)
    then show ?thesis using that(2) [OF k] assms(2) by (simp add: returnAddr_def)
  qed
qed

lemma addr_inject:
  assumes "wf_history hs" and "j < nOps hs" and "k < nOps hs"
  shows "callAddr hs j = callAddr hs k \<longleftrightarrow> j = k" "returnAddr hs j = returnAddr hs k \<longleftrightarrow> j = k"
    "callAddr hs j \<noteq> returnAddr hs k"
proof -
  have id: "e_id (hs ! (callAddr hs i - 1)) = i" "kind (hs ! (callAddr hs i - 1)) = callEntry"
    "e_id (hs ! (returnAddr hs i - 1)) = i" "kind (hs ! (returnAddr hs i - 1)) = returnEntry" if "i < nOps hs" for i
    using wf_call [OF assms(1) that] by (simp_all add: callAddr_def returnAddr_def isCall_def isReturn_def)
  show "callAddr hs j = callAddr hs k \<longleftrightarrow> j = k" "returnAddr hs j = returnAddr hs k \<longleftrightarrow> j = k"
    "callAddr hs j \<noteq> returnAddr hs k"
    using id [OF assms(2)] id [OF assms(3)] by (metis entryKind.distinct(1))+
qed

subsection \<open>The store of a history\<close>

definition data_ok :: "('i, 'o) entry list \<Rightarrow> ('i, 'o) store \<Rightarrow> bool" where
  "data_ok hs h \<longleftrightarrow> (\<forall>k<nOps hs.
     n_match (h (callAddr hs k)) = Some (returnAddr hs k) \<and> n_match (h (returnAddr hs k)) = None \<and>
     n_id (h (callAddr hs k)) = int k \<and> n_value (h (callAddr hs k)) = Some (Inl (inputAt hs k)) \<and>
     n_value (h (returnAddr hs k)) = Some (Inr (outputAt hs k)))"

lemma data_okD:
  assumes "data_ok hs h" and "k < nOps hs"
  shows "n_match (h (callAddr hs k)) = Some (returnAddr hs k)" "n_match (h (returnAddr hs k)) = None"
    "n_id (h (callAddr hs k)) = int k" "n_value (h (callAddr hs k)) = Some (Inl (inputAt hs k))"
    "n_value (h (returnAddr hs k)) = Some (Inr (outputAt hs k))"
  using assms by (simp_all add: data_ok_def)

lemma data_ok_same: "same_data h h' \<Longrightarrow> data_ok hs h \<Longrightarrow> data_ok hs h'"
  by (simp add: same_data_def data_ok_def)

lemma firstAt_drop:
  assumes "\<And>e. e \<in> set (take i hs) \<Longrightarrow> \<not> P e"
  shows "firstAt P hs = min i (length hs) + firstAt P (drop i hs)"
proof -
  have "takeWhile (\<lambda>e. \<not> P e) (take i hs @ drop i hs) = take i hs @ takeWhile (\<lambda>e. \<not> P e) (drop i hs)"
    using assms by (intro takeWhile_append2) auto
  then show ?thesis by (simp add: firstAt_def min.commute)
qed

lemma wf_matchOf:
  assumes "wf_history hs" and "k < nOps hs"
  defines "i \<equiv> firstAt (isCall k) hs"
  shows "matchOf (1 + Suc i) (drop (Suc i) hs) k = Some (returnAddr hs k)"
proof -
  note w = wf_call [OF assms(1,2)]
  have "firstAt (isReturn k) hs = min (Suc i) (length hs) + firstAt (isReturn k) (drop (Suc i) hs)"
  proof (rule firstAt_drop)
    fix e assume "e \<in> set (take (Suc i) hs)"
    then obtain j where j: "j < Suc i" "j < length hs" "e = hs ! j" by (auto simp: in_set_conv_nth)
    show "\<not> isReturn k e"
    proof
      assume "isReturn k e"
      then have "j = firstAt (isReturn k) hs" using wf_firstAt(2) [OF assms(1) j(2)] j(3) by simp
      then show False using w(5) j(1) by (simp add: i_def)
    qed
  qed
  then show ?thesis using w by (auto simp: matchOf_def returnAddr_def i_def)
qed

definition initStore :: "('i, 'o) entry list \<Rightarrow> ('i, 'o) store" where
  "initStore hs = (case makeLinkedEntries hs of (h, root) \<Rightarrow> insertBefore 0 root (h(0 := newNode None None (-1))))"

lemma makeLinkedEntries_root: "snd (makeLinkedEntries hs) = (if hs = [] then None else Some 1)"
  using linkLoop_spec [of 1 hs emptyStore] by (auto simp: makeLinkedEntries_def)

lemma initStore_ok:
  assumes "wf_history hs"
  shows "chain (initStore hs) (0 # [1..<Suc (length hs)])" "data_ok hs (initStore hs)"
proof -
  obtain h where h: "linkLoop 1 hs emptyStore = (h, matchOf 1 hs, if hs = [] then None else Some 1)"
    "chain h [1..<1 + length hs]" "hs \<noteq> [] \<longrightarrow> n_prev (h 1) = None" "\<forall>i<length hs. node_of 1 hs (h (1 + i)) i"
    using linkLoop_spec [of 1 hs emptyStore] by blast
  let ?nd = "newNode None None (-1) :: ('a, 'b) node"
  have i: "initStore hs = insertBefore 0 (if length hs = 0 then None else Some (Suc 0)) (h(0 := ?nd))"
    using h(1) by (simp add: initStore_def makeLinkedEntries_def)
  have prems: "chain h [Suc 0..<Suc 0 + length hs]" "length hs \<noteq> 0 \<Longrightarrow> n_prev (h (Suc 0)) = None"
    "n_next ?nd = None" "n_prev ?nd = None" using h(2,3) by (simp_all add: newNode_def)
  note c = chain_insertBefore [OF prems, folded i]
  have "[0..<0 + Suc (length hs)] = 0 # [1..<Suc (length hs)]" by (simp add: upt_conv_Cons del: upt_Suc)
  then show "chain (initStore hs) (0 # [1..<Suc (length hs)])" using c(1) by (simp add: upt_conv_Cons del: upt_Suc)
  show "data_ok hs (initStore hs)"
    unfolding data_ok_def
  proof (intro allI impI)
    fix k assume k: "k < nOps hs"
    note w = wf_call [OF assms k] and d = c(3) [of "callAddr hs k"] c(3) [of "returnAddr hs k"]
    have nodes: "node_of 1 hs (h (callAddr hs k)) (firstAt (isCall k) hs)"
      "node_of 1 hs (h (returnAddr hs k)) (firstAt (isReturn k) hs)"
      using h(4) w(1,3) by (simp_all add: callAddr_def returnAddr_def)
    have v: "isl (e_value (hs ! firstAt (isCall k) hs))" "\<not> isl (e_value (hs ! firstAt (isReturn k) hs))"
      using wf_historyD(3) [OF assms nth_mem [OF w(1)]] wf_historyD(3) [OF assms nth_mem [OF w(3)]] w(2,4)
      by (simp_all add: isCall_def isReturn_def)
    have "e_id (hs ! firstAt (isCall k) hs) = k" "kind (hs ! firstAt (isCall k) hs) = callEntry"
      "kind (hs ! firstAt (isReturn k) hs) = returnEntry"
      using w(2,4) by (simp_all add: isCall_def isReturn_def)
    then show "n_match (initStore hs (callAddr hs k)) = Some (returnAddr hs k) \<and> n_match (initStore hs (returnAddr hs k)) = None \<and>
      n_id (initStore hs (callAddr hs k)) = int k \<and> n_value (initStore hs (callAddr hs k)) = Some (Inl (inputAt hs k)) \<and>
      n_value (initStore hs (returnAddr hs k)) = Some (Inr (outputAt hs k))"
      using nodes wf_matchOf [OF assms k] addr_bounds [OF assms k] d v
      by (auto simp: node_of_def inputAt_def outputAt_def)
  qed
qed

subsection \<open>The entries that remain\<close>

definition remaining :: "('i, 'o) entry list \<Rightarrow> nat set \<Rightarrow> nat list" where
  "remaining hs L = filter (\<lambda>a. \<forall>k\<in>L. a \<noteq> callAddr hs k \<and> a \<noteq> returnAddr hs k) [1..<Suc (length hs)]"

lemma remaining_empty [simp]: "remaining hs {} = [1..<Suc (length hs)]"
  by (simp add: remaining_def del: upt_Suc)

lemma remaining_insert:
  "remaining hs (insert k L) = filter (\<lambda>a. a \<noteq> callAddr hs k \<and> a \<noteq> returnAddr hs k) (remaining hs L)"
  unfolding remaining_def by (simp add: conj_commute del: upt_Suc)

lemma remaining_sorted: "sorted_wrt (<) (remaining hs L)" "distinct (remaining hs L)"
  unfolding remaining_def by (simp_all add: sorted_wrt_filter del: upt_Suc)

lemma remaining_iff:
  assumes "wf_history hs" and "k < nOps hs" and "L \<subseteq> {..<nOps hs}"
  shows "callAddr hs k \<in> set (remaining hs L) \<longleftrightarrow> k \<notin> L" "returnAddr hs k \<in> set (remaining hs L) \<longleftrightarrow> k \<notin> L"
proof -
  have ne: "callAddr hs k \<noteq> returnAddr hs j" "returnAddr hs k \<noteq> callAddr hs j"
    "callAddr hs k = callAddr hs j \<longleftrightarrow> k = j" "returnAddr hs k = returnAddr hs j \<longleftrightarrow> k = j" if "j \<in> L" for j
    using addr_inject [OF assms(1,2), of j] addr_inject(3) [OF assms(1) _ assms(2), of j] assms(3) that by auto
  have "a \<in> set (remaining hs L) \<longleftrightarrow> 0 < a \<and> a \<le> length hs \<and> (\<forall>k\<in>L. a \<noteq> callAddr hs k \<and> a \<noteq> returnAddr hs k)" for a
    by (auto simp: remaining_def)
  then show "callAddr hs k \<in> set (remaining hs L) \<longleftrightarrow> k \<notin> L" "returnAddr hs k \<in> set (remaining hs L) \<longleftrightarrow> k \<notin> L"
    using addr_bounds [OF assms(1,2)] ne by auto
qed

lemma remaining_cases:
  assumes "wf_history hs" and "L \<subseteq> {..<nOps hs}" and "a \<in> set (remaining hs L)"
  obtains k where "k < nOps hs" "k \<notin> L" "a = callAddr hs k" | k where "k < nOps hs" "k \<notin> L" "a = returnAddr hs k"
proof -
  have "0 < a" "a \<le> length hs" using assms(3) by (auto simp: remaining_def)
  from assms(1) this show ?thesis
    by (rule addr_cases) (use remaining_iff [OF assms(1) _ assms(2)] assms(3) that in blast)+
qed

lemma remaining_Nil:
  assumes "wf_history hs" and "L \<subseteq> {..<nOps hs}"
  shows "remaining hs L = [] \<longleftrightarrow> L = {..<nOps hs}"
proof
  assume "remaining hs L = []"
  then show "L = {..<nOps hs}" using remaining_iff(1) [OF assms(1) _ assms(2)] assms(2) by auto
next
  assume L: "L = {..<nOps hs}"
  show "remaining hs L = []"
  proof (rule ccontr)
    assume "remaining hs L \<noteq> []"
    then obtain a where "a \<in> set (remaining hs L)" by fastforce
    then show False by (rule remaining_cases [OF assms]) (auto simp: L)
  qed
qed

lemma sorted_split_two:
  assumes "sorted_wrt (<) xs" and "a \<in> set xs" "b \<in> set xs" "a < (b :: nat)"
  obtains A M B where "xs = A @ a # M @ b # B"
proof -
  obtain A Y where Y: "xs = A @ a # Y" using assms(2) by (meson split_list)
  then have "b \<in> set Y" using assms(1,3,4) by (auto simp: sorted_wrt_append)
  then show ?thesis using that Y by (metis split_list)
qed

lemma lift_remaining:
  assumes wf: "wf_history hs" and L: "L \<subseteq> {..<nOps hs}" and k: "k < nOps hs" "k \<notin> L"
    and h: "chain h (0 # remaining hs L)" "data_ok hs h"
  obtains h' where "lift (callAddr hs k) h = Inr h'" "chain h' (0 # remaining hs (insert k L))" "data_ok hs h'"
    "unlift (callAddr hs k) h' = Inr h"
proof -
  let ?c = "callAddr hs k" and ?r = "returnAddr hs k"
  have "?c \<in> set (remaining hs L)" "?r \<in> set (remaining hs L)" using remaining_iff [OF wf k(1) L] k(2) by simp_all
  then obtain X M B where X: "remaining hs L = X @ ?c # M @ ?r # B"
    using addr_bounds(2) [OF wf k(1)] by (rule sorted_split_two [OF remaining_sorted(1)])
  obtain A p where A: "0 # X = A @ [p]" by (metis list.distinct(1) rev_exhaust)
  have X': "0 # remaining hs L = A @ p # ?c # M @ ?r # B" using X A by (metis append.assoc append_Cons append_Nil)
  note l = lift_chain [OF h(1) [unfolded X'] data_okD(1) [OF h(2) k(1)]]
  have d: "distinct (X @ ?c # M @ ?r # B)" using remaining_sorted(2) [of hs L] X by simp
  have "filter (\<lambda>a. a \<noteq> ?c \<and> a \<noteq> ?r) Y = Y" if "?c \<notin> set Y" "?r \<notin> set Y" for Y
    using that by (intro filter_True) auto
  then have "remaining hs (insert k L) = X @ M @ B" using d by (simp add: remaining_insert X)
  then have "0 # remaining hs (insert k L) = A @ p # M @ B" using A by (metis append.assoc append_Cons append_Nil)
  then show ?thesis using that [OF l(1)] l(2,4) data_ok_same [OF l(3) h(2)] by simp
qed

text \<open>The next entry is the first that remains after an entry.\<close>

lemma next_remaining:
  assumes h: "chain h (0 # xs)" and s: "sorted_wrt (<) (0 # xs)" and a: "a \<in> set (0 # xs)"
  shows "n_next (h a) = (case filter (\<lambda>x. a < x) xs of [] \<Rightarrow> None | x # _ \<Rightarrow> Some x)"
proof -
  obtain A B where A: "0 # xs = A @ a # B" using a by (meson split_list)
  have "seg h (a # B)" "n_next (h (last (a # B))) = None"
    using h unfolding chain_def A seg_append [of h A a B] by auto
  moreover have "filter (\<lambda>x. a < x) (0 # xs) = B"
    using s unfolding A by (auto simp: sorted_wrt_append filter_empty_conv intro!: filter_True)
  then have "filter (\<lambda>x. a < x) xs = B" by simp
  ultimately show ?thesis by (cases B) auto
qed

end
