(* ===== verification/Porcupine_Search.thy ===== *)
theory Porcupine_Search
  imports Porcupine_History
begin

text \<open>
  The search finds a linearization exactly when there is one. It keeps: the linked list has the
  operations that are not on the stack, the operations before the current entry were tried, and every
  configuration in the cache is on the stack or has all its successors in the cache.
\<close>

subsection \<open>The cache as a set of configurations\<close>

definition cfgs :: "'s cache \<Rightarrow> (nat set \<times> 's) set" where
  "cfgs cache = {(members (linearized_ce e), state_ce e) |e. \<exists>x. e \<in> set (cache x)}"

definition cache_ok :: "nat \<Rightarrow> 's cache \<Rightarrow> bool" where
  "cache_ok n cache \<longleftrightarrow> (\<forall>x. \<forall>e\<in>set (cache x). hash (linearized_ce e) = x \<and> fits n (linearized_ce e))"

lemma cacheContains_iff:
  assumes "cache_ok n cache" and "fits n b" and "Equal model = (=)"
  shows "cacheContains model cache \<lparr>linearized_ce = b, state_ce = s\<rparr> \<longleftrightarrow> (members b, s) \<in> cfgs cache"
proof -
  have "(\<exists>x. e \<in> set (cache x)) \<and> members (linearized_ce e) = members b \<longleftrightarrow> e \<in> set (cache (hash b)) \<and> linearized_ce e = b" for e
    using assms(1,2) bs.same [of n "linearized_ce e" b] unfolding cache_ok_def equals_iff by metis
  then show ?thesis
    using assms(3) by (auto simp: cacheContains_def cfgs_def list_ex_iff) metis+
qed

definition remember :: "bitset \<Rightarrow> 's \<Rightarrow> 's cache \<Rightarrow> 's cache" where
  "remember b s cache = cache(hash b := cache (hash b) @ [\<lparr>linearized_ce = b, state_ce = s\<rparr>])"

lemma cfgs_remember: "cfgs (remember b s cache) = insert (members b, s) (cfgs cache)"
  by (auto simp: cfgs_def remember_def split: if_splits) (metis Un_iff cacheEntry.select_convs insert_iff list.set_intros(1))+

lemma cache_ok_remember: "cache_ok n cache \<Longrightarrow> fits n b \<Longrightarrow> cache_ok n (remember b s cache)"
  by (auto simp: cache_ok_def remember_def)

subsection \<open>The invariant\<close>

text \<open>The next state of an operation of a history, if the model can take it.\<close>

definition stepAt :: "('s, 'i, 'o) Model \<Rightarrow> ('i, 'o) entry list \<Rightarrow> 's \<Rightarrow> nat \<Rightarrow> bool \<times> 's" where
  "stepAt model hs s k = Step model s (inputAt hs k) (outputAt hs k)"

definition before :: "('i, 'o) entry list \<Rightarrow> nat \<Rightarrow> nat \<Rightarrow> bool" where
  "before hs j k \<longleftrightarrow> returnAddr hs j < callAddr hs k"

definition tried :: "('s, 'i, 'o) Model \<Rightarrow> ('i, 'o) entry list \<Rightarrow> (nat set \<times> 's) set \<Rightarrow> nat set \<Rightarrow> 's \<Rightarrow> nat \<Rightarrow> bool" where
  "tried model hs C L s e \<longleftrightarrow>
     (\<forall>k s'. k < nOps hs \<longrightarrow> k \<notin> L \<longrightarrow> callAddr hs k < e \<longrightarrow> stepAt model hs s k = (True, s') \<longrightarrow> (insert k L, s') \<in> C)"

text \<open>The stack as operations with the states they were called in, the top first.\<close>

fun stack_ok :: "('s, 'i, 'o) Model \<Rightarrow> ('i, 'o) entry list \<Rightarrow> (nat set \<times> 's) set \<Rightarrow> (nat \<times> 's) list \<Rightarrow> 's \<Rightarrow> ('i, 'o) store \<Rightarrow> bool" where
  "stack_ok model hs C [] s h \<longleftrightarrow> s = Init model \<and> chain h (0 # remaining hs {}) \<and> data_ok hs h"
| "stack_ok model hs C ((k, x) # st) s h \<longleftrightarrow>
     k < nOps hs \<and> k \<notin> fst ` set st \<and> (\<forall>j<nOps hs. j \<notin> fst ` set st \<longrightarrow> callAddr hs k < returnAddr hs j) \<and>
     tried model hs C (fst ` set st) x (callAddr hs k) \<and> stepAt model hs x k = (True, s) \<and>
     (insert k (fst ` set st), s) \<in> C \<and>
     chain h (0 # remaining hs (insert k (fst ` set st))) \<and> data_ok hs h \<and>
     (\<exists>h'. unlift (callAddr hs k) h = Inr h' \<and> stack_ok model hs C st x h')"

fun configs_of :: "(nat \<times> 's) list \<Rightarrow> 's \<Rightarrow> (nat set \<times> 's) set" where
  "configs_of [] s = {({}, s)}"
| "configs_of ((k, x) # st) s = insert (insert k (fst ` set st), s) (configs_of st x)"

definition all_configs :: "('s, 'i, 'o) Model \<Rightarrow> ('i, 'o) entry list \<Rightarrow> (nat set \<times> 's) set" where
  "all_configs model hs = (\<lambda>seq. (set seq, final model (inputAt hs) (outputAt hs) (Init model) seq)) `
     {seq. set seq \<subseteq> {..<nOps hs} \<and> distinct seq}"

abbreviation lin_of :: "(nat \<times> 's) list \<Rightarrow> nat set" where
  "lin_of st \<equiv> fst ` set st"

text \<open>The lists in \<open>longest\<close> are partial linearizations with the operation they are listed for.\<close>

definition partial_lin :: "('s, 'i, 'o) Model \<Rightarrow> ('i, 'o) entry list \<Rightarrow> int list \<Rightarrow> bool" where
  "partial_lin model hs ids \<longleftrightarrow> (\<exists>seq. ids = map int seq \<and> distinct seq \<and> set seq \<subseteq> {..<nOps hs} \<and>
     sorted_wrt (\<lambda>j k. \<not> before hs k j) seq \<and> legal model (inputAt hs) (outputAt hs) (Init model) seq)"

definition longest_ok :: "('s, 'i, 'o) Model \<Rightarrow> ('i, 'o) entry list \<Rightarrow> longest \<Rightarrow> bool" where
  "longest_ok model hs lg \<longleftrightarrow> length lg = nOps hs \<and>
     (\<forall>i<nOps hs. \<forall>ids. lg ! i = Some ids \<longrightarrow> partial_lin model hs ids \<and> int i \<in> set ids)"

definition search_inv :: "('s, 'i, 'o) Model \<Rightarrow> ('i, 'o) entry list \<Rightarrow> ('s, 'i, 'o) search \<Rightarrow> (nat \<times> 's) list \<Rightarrow> bool" where
  "search_inv model hs s st \<longleftrightarrow>
     s_calls s = map (\<lambda>(k, x). (callAddr hs k, x)) st \<and>
     stack_ok model hs (cfgs (s_cache s)) st (s_state s) (s_store s) \<and>
     members (s_linearized s) = lin_of st \<and> fits (nOps hs) (s_linearized s) \<and>
     cache_ok (nOps hs) (s_cache s) \<and> longest_ok model hs (s_longest s) \<and>
     cfgs (s_cache s) \<subseteq> all_configs model hs \<and>
     (remaining hs (lin_of st) \<noteq> [] \<longrightarrow>
        (\<exists>e. s_entry s = Some e \<and> e \<in> set (remaining hs (lin_of st)) \<and>
             (\<forall>j<nOps hs. j \<notin> lin_of st \<longrightarrow> e \<le> returnAddr hs j) \<and>
             tried model hs (cfgs (s_cache s)) (lin_of st) (s_state s) e) \<and>
        (\<forall>x. ({..<nOps hs}, x) \<notin> cfgs (s_cache s))) \<and>
     (\<forall>(L, x)\<in>cfgs (s_cache s). (L, x) \<in> configs_of st (s_state s) \<or>
        closed_at (nOps hs) (before hs) model (inputAt hs) (outputAt hs) (cfgs (s_cache s)) L x)"

lemma stack_lin: "stack_ok model hs C st s h \<Longrightarrow> lin_of st \<subseteq> {..<nOps hs}"
  by (induction model hs C st s h rule: stack_ok.induct) auto

lemma stack_chain:
  assumes "stack_ok model hs C st s h"
  shows "chain h (0 # remaining hs (lin_of st))" "data_ok hs h"
  using assms by (induction model hs C st s h rule: stack_ok.induct) auto

lemma tried_mono: "tried model hs C L s e \<Longrightarrow> C \<subseteq> C' \<Longrightarrow> tried model hs C' L s e"
  unfolding tried_def by blast

lemma stack_mono: "stack_ok model hs C st s h \<Longrightarrow> C \<subseteq> C' \<Longrightarrow> stack_ok model hs C' st s h"
proof (induction model hs C st s h rule: stack_ok.induct)
  case (2 model hs C k x st s h)
  then show ?case using tried_mono [of model hs C "lin_of st" x _ C'] by auto
qed simp

text \<open>The stack is a partial linearization that leads to the current state.\<close>

lemma stack_before:
  assumes "stack_ok model hs C st s h" and "k < nOps hs" "k \<notin> lin_of st" "j \<in> lin_of st"
  shows "\<not> before hs k j"
  using assms
proof (induction model hs C st s h rule: stack_ok.induct)
  case (2 model hs C i x st s h)
  then show ?case by (cases "j = i") (auto simp: before_def not_less less_imp_le)
qed simp

lemma stack_partial:
  assumes "stack_ok model hs C st s h"
  shows "distinct (map fst st)" "sorted_wrt (\<lambda>j k. \<not> before hs k j) (rev (map fst st))"
    "legal model (inputAt hs) (outputAt hs) (Init model) (rev (map fst st)) \<and>
     final model (inputAt hs) (outputAt hs) (Init model) (rev (map fst st)) = s"
proof -
  show "distinct (map fst st)"
    using assms by (induction model hs C st s h rule: stack_ok.induct) auto
  show "sorted_wrt (\<lambda>j k. \<not> before hs k j) (rev (map fst st))"
    using assms
  proof (induction st arbitrary: s h)
    case (Cons p st)
    obtain i x where p: "p = (i, x)" by fastforce
    then obtain h' where h': "stack_ok model hs C st x h'" and i: "i < nOps hs" "i \<notin> lin_of st"
      using Cons.prems by auto
    have "\<forall>j\<in>lin_of st. \<not> before hs i j" using stack_before [OF h' i] by simp
    then show ?case using Cons.IH [OF h'] by (simp add: sorted_wrt_append p)
  qed simp
  show "legal model (inputAt hs) (outputAt hs) (Init model) (rev (map fst st)) \<and>
      final model (inputAt hs) (outputAt hs) (Init model) (rev (map fst st)) = s"
    using assms
  proof (induction model hs C st s h rule: stack_ok.induct)
    case (2 model hs C i x st s h)
    then show ?case by (auto simp: legal_snoc stepAt_def)
  qed (simp add: final_def)
qed

lemma stack_config:
  assumes "stack_ok model hs C st s h"
  shows "(lin_of st, s) \<in> all_configs model hs"
  unfolding all_configs_def
  by (rule image_eqI [of _ _ "rev (map fst st)"]) (use stack_partial [OF assms] stack_lin [OF assms] in auto)

subsection \<open>The rounds of the loop\<close>

lemma next_entry:
  assumes "chain h (0 # remaining hs L)" and "a \<in> set (0 # remaining hs L)" and "b \<in> set (remaining hs L)" and "a < b"
  shows "\<exists>e. n_next (h a) = Some e \<and> e \<in> set (remaining hs L) \<and> a < e \<and> (\<forall>x\<in>set (remaining hs L). a < x \<longrightarrow> e \<le> x)"
proof -
  let ?F = "filter (\<lambda>x. a < x) (remaining hs L)"
  have s: "sorted_wrt (<) (0 # remaining hs L)" using remaining_sorted(1) [of hs L] by (auto simp: remaining_def)
  have "b \<in> set ?F" using assms(3,4) by simp
  then obtain e F where F: "?F = e # F" by (cases ?F) auto
  have "sorted_wrt (<) (e # F)" using sorted_wrt_filter [OF remaining_sorted(1), of "\<lambda>x. a < x" hs L] F by simp
  then have "\<forall>x\<in>set ?F. e \<le> x" using F by (auto simp: less_imp_le)
  moreover have "e \<in> set ?F" using F by simp
  moreover have "n_next (h a) = Some e" using next_remaining [OF assms(1) s assms(2)] F by simp
  moreover have "x \<in> set ?F \<longleftrightarrow> x \<in> set (remaining hs L) \<and> a < x" for x by auto
  ultimately show ?thesis by blast
qed

lemma next_None:
  assumes "chain h (0 # remaining hs L)"
  shows "n_next (h 0) = None \<longleftrightarrow> remaining hs L = []"
proof (cases "remaining hs L")
  case Nil
  then show ?thesis using assms by (simp add: chain_def)
next
  case (Cons a xs)
  then show ?thesis using assms by (simp add: chain_def)
qed

text \<open>Going on to the next entry when an operation was tried.\<close>

lemma advance:
  assumes wf: "wf_history hs" and L: "L \<subseteq> {..<nOps hs}" and h: "chain h (0 # remaining hs L)"
    and k: "k < nOps hs" "k \<notin> L" and ret: "\<forall>j<nOps hs. j \<notin> L \<longrightarrow> callAddr hs k < returnAddr hs j"
    and tr: "tried model hs C L x (callAddr hs k)"
    and now: "\<forall>s'. stepAt model hs x k = (True, s') \<longrightarrow> (insert k L, s') \<in> C"
  shows "\<exists>e. n_next (h (callAddr hs k)) = Some e \<and> callAddr hs k < e \<and> e \<in> set (remaining hs L) \<and>
    (\<forall>j<nOps hs. j \<notin> L \<longrightarrow> e \<le> returnAddr hs j) \<and> tried model hs C L x e"
proof -
  note r = remaining_iff [OF wf _ L]
  obtain e where e: "n_next (h (callAddr hs k)) = Some e" "e \<in> set (remaining hs L)" "callAddr hs k < e"
      "\<forall>x\<in>set (remaining hs L). callAddr hs k < x \<longrightarrow> e \<le> x"
    using next_entry [OF h, of "callAddr hs k" "returnAddr hs k"] r [OF k(1)] k(2) ret k(1) by auto
  have "e \<le> returnAddr hs j" if "j < nOps hs" "j \<notin> L" for j using e(4) ret r(2) [OF that(1)] that by blast
  moreover have "(insert j L, s') \<in> C"
    if "j < nOps hs" "j \<notin> L" "callAddr hs j < e" "stepAt model hs x j = (True, s')" for j s'
  proof (cases "callAddr hs j < callAddr hs k")
    case True
    then show ?thesis using tr that unfolding tried_def by blast
  next
    case False
    then have "callAddr hs j = callAddr hs k" using e(4) r(1) [OF that(1)] that(2,3) by (meson leD linorder_neqE_nat)
    then show ?thesis using addr_inject(1) [OF wf that(1) k(1)] now that(4) by simp
  qed
  ultimately show ?thesis using e unfolding tried_def by blast
qed

lemma callIds_eq:
  assumes "search_inv model hs s st"
  shows "callIds s = map int (rev (map fst st))"
proof -
  have c: "s_calls s = map (\<lambda>(k, x). (callAddr hs k, x)) st"
    and k: "stack_ok model hs (cfgs (s_cache s)) st (s_state s) (s_store s)"
    using assms by (simp_all add: search_inv_def)
  have "n_id (s_store s (callAddr hs (fst p))) = int (fst p)" if "p \<in> set st" for p
    using that stack_lin [OF k] by (intro data_okD(3) [OF stack_chain(2) [OF k]]) auto
  then show ?thesis by (simp add: callIds_def c rev_map split_beta)
qed

lemma stack_partial_lin:
  assumes "search_inv model hs s st"
  shows "partial_lin model hs (callIds s)"
proof -
  have k: "stack_ok model hs (cfgs (s_cache s)) st (s_state s) (s_store s)" using assms by (simp add: search_inv_def)
  show ?thesis unfolding partial_lin_def callIds_eq [OF assms]
    using stack_partial [OF k] stack_lin [OF k] by (intro exI [of _ "rev (map fst st)"]) simp
qed

lemma recordLongest_ok:
  assumes "partial_lin model hs seq" and "set vs \<subseteq> set seq" and "longest_ok model hs l"
  shows "\<exists>l'. recordLongest seq vs l = Inr l' \<and> longest_ok model hs l'"
  using assms(2,3)
proof (induction vs arbitrary: l)
  case (Cons v vs)
  obtain i where i: "v = int i" "i < nOps hs" using assms(1) Cons.prems(1) by (fastforce simp: partial_lin_def)
  have "longest_ok model hs (l[i := Some seq])"
    using Cons.prems assms(1) i by (auto simp: longest_ok_def nth_list_update split: if_splits)
  then show ?case using Cons.IH [of l] Cons.IH [of "l[i := Some seq]"] Cons.prems i by (simp add: longest_ok_def)
qed simp

lemma longest_ok_found:
  assumes "linearization (nOps hs) (before hs) model (inputAt hs) (outputAt hs) seq"
  shows "longest_ok model hs (replicate (nOps hs) (Some (map int seq)))"
  using assms by (auto simp: longest_ok_def partial_lin_def linearization_def)

text \<open>Nothing remains: the stack is a linearization.\<close>

lemma round_done:
  assumes wf: "wf_history hs" and inv: "search_inv model hs s st" and r: "remaining hs (lin_of st) = []"
  shows "checkRound model cp s = Inr (Inl (True, replicate (nOps hs) (Some (map int (rev (map fst st))))))"
    "linearization (nOps hs) (before hs) model (inputAt hs) (outputAt hs) (rev (map fst st))"
proof -
  have k: "stack_ok model hs (cfgs (s_cache s)) st (s_state s) (s_store s)" and l: "length (s_longest s) = nOps hs"
    using inv by (simp_all add: search_inv_def longest_ok_def)
  show "checkRound model cp s = Inr (Inl (True, replicate (nOps hs) (Some (map int (rev (map fst st))))))"
    using next_None [OF stack_chain(1) [OF k]] r l callIds_eq [OF inv] by (simp add: checkRound_def)
  show "linearization (nOps hs) (before hs) model (inputAt hs) (outputAt hs) (rev (map fst st))"
    using stack_partial [OF k] remaining_Nil [OF wf stack_lin [OF k]] r by (simp add: linearization_def)
qed

text \<open>The parts of the invariant.\<close>

lemma search_invD:
  assumes "search_inv model hs s st"
  shows "s_calls s = map (\<lambda>(k, x). (callAddr hs k, x)) st"
    "stack_ok model hs (cfgs (s_cache s)) st (s_state s) (s_store s)"
    "members (s_linearized s) = lin_of st" "fits (nOps hs) (s_linearized s)"
    "cache_ok (nOps hs) (s_cache s)" "longest_ok model hs (s_longest s)" "cfgs (s_cache s) \<subseteq> all_configs model hs"
    "(L, x) \<in> cfgs (s_cache s) \<Longrightarrow> (L, x) \<in> configs_of st (s_state s) \<or>
       closed_at (nOps hs) (before hs) model (inputAt hs) (outputAt hs) (cfgs (s_cache s)) L x"
  using assms unfolding search_inv_def by blast+

lemma search_inv_entry:
  assumes "search_inv model hs s st" and "remaining hs (lin_of st) \<noteq> []"
  obtains e where "s_entry s = Some e" "e \<in> set (remaining hs (lin_of st))"
    "\<forall>j<nOps hs. j \<notin> lin_of st \<longrightarrow> e \<le> returnAddr hs j"
    "tried model hs (cfgs (s_cache s)) (lin_of st) (s_state s) e" "\<And>x. ({..<nOps hs}, x) \<notin> cfgs (s_cache s)"
  using assms unfolding search_inv_def by blast

lemma search_inv_move:
  assumes "search_inv model hs s st" and "remaining hs (lin_of st) \<noteq> []"
    and "e \<in> set (remaining hs (lin_of st))" "\<forall>j<nOps hs. j \<notin> lin_of st \<longrightarrow> e \<le> returnAddr hs j"
    "tried model hs (cfgs (s_cache s)) (lin_of st) (s_state s) e"
  shows "search_inv model hs (s\<lparr>s_entry := Some e\<rparr>) st"
  using assms unfolding search_inv_def by simp

text \<open>An operation that cannot go next, or leads to a known configuration, is passed over.\<close>

lemma round_skip:
  assumes wf: "wf_history hs" and eq: "Equal model = (=)" and inv: "search_inv model hs s st"
    and k: "s_entry s = Some (callAddr hs k)" "k < nOps hs" "k \<notin> lin_of st"
    and ret: "\<forall>j<nOps hs. j \<notin> lin_of st \<longrightarrow> callAddr hs k < returnAddr hs j"
    and tr: "tried model hs (cfgs (s_cache s)) (lin_of st) (s_state s) (callAddr hs k)"
    and now: "\<forall>s'. stepAt model hs (s_state s) k = (True, s') \<longrightarrow> (insert k (lin_of st), s') \<in> cfgs (s_cache s)"
  shows "\<exists>e. checkRound model cp s = Inr (Inr (s\<lparr>s_entry := Some e\<rparr>)) \<and>
    search_inv model hs (s\<lparr>s_entry := Some e\<rparr>) st \<and> callAddr hs k < e \<and> e \<le> length hs"
proof -
  note i = search_invD [OF inv]
  note c = stack_chain [OF i(2)] and L = stack_lin [OF i(2)]
  obtain e where e: "n_next (s_store s (callAddr hs k)) = Some e" "callAddr hs k < e" "e \<in> set (remaining hs (lin_of st))"
    "\<forall>j<nOps hs. j \<notin> lin_of st \<longrightarrow> e \<le> returnAddr hs j" "tried model hs (cfgs (s_cache s)) (lin_of st) (s_state s) e"
    using advance [OF wf L c(1) k(2,3) ret tr now] by blast
  have ne: "remaining hs (lin_of st) \<noteq> []" using e(3) by auto
  obtain b where b: "set_bs k (s_linearized s) = Inr b" "fits (nOps hs) b" "members b = insert k (lin_of st)"
    using bs.add [OF k(2) i(4)] i(3) by auto
  have "checkRound model cp s = Inr (Inr (s\<lparr>s_entry := Some e\<rparr>))"
    using next_None [OF c(1)] ne k data_okD [OF c(2) k(2)] e(1) b now
      cacheContains_iff [OF i(5) b(2) eq, of "snd (stepAt model hs (s_state s) k)"]
    by (auto simp: checkRound_def Let_def deref_def inputOf_def outputOf_def stepAt_def split: prod.split)
  moreover have "e \<le> length hs" using e(3) by (auto simp: remaining_def)
  ultimately show ?thesis using search_inv_move [OF inv ne e(3-5)] e(2) by blast
qed

text \<open>An operation that leads to a new configuration is called.\<close>

lemma closed_mono: "closed_at n bf model inp out C L x \<Longrightarrow> C \<subseteq> C' \<Longrightarrow> closed_at n bf model inp out C' L x"
  unfolding closed_at_def by blast

lemma first_entry:
  assumes wf: "wf_history hs" and L: "L \<subseteq> {..<nOps hs}" and h: "chain h (0 # remaining hs L)" and ne: "remaining hs L \<noteq> []"
  shows "\<exists>e. n_next (h 0) = Some e \<and> e \<in> set (remaining hs L) \<and>
    (\<forall>j<nOps hs. j \<notin> L \<longrightarrow> e \<le> returnAddr hs j) \<and> tried model hs C L x e"
proof -
  obtain b where b: "b \<in> set (remaining hs L)" using ne by fastforce
  have pos: "0 < a" if "a \<in> set (remaining hs L)" for a using that by (auto simp: remaining_def)
  obtain e where e: "n_next (h 0) = Some e" "e \<in> set (remaining hs L)" "\<forall>a\<in>set (remaining hs L). e \<le> a"
    using next_entry [OF h _ b pos [OF b]] pos by auto
  have "e \<le> callAddr hs j \<and> e \<le> returnAddr hs j" if "j < nOps hs" "j \<notin> L" for j
    using e(3) remaining_iff [OF wf that(1) L] that(2) by blast
  then show ?thesis using e(1,2) unfolding tried_def by (meson leD)
qed

lemma round_push:
  assumes wf: "wf_history hs" and eq: "Equal model = (=)" and inv: "search_inv model hs s st"
    and k: "s_entry s = Some (callAddr hs k)" "k < nOps hs" "k \<notin> lin_of st"
    and ret: "\<forall>j<nOps hs. j \<notin> lin_of st \<longrightarrow> callAddr hs k < returnAddr hs j"
    and tr: "tried model hs (cfgs (s_cache s)) (lin_of st) (s_state s) (callAddr hs k)"
    and new: "stepAt model hs (s_state s) k = (True, s')" "(insert k (lin_of st), s') \<notin> cfgs (s_cache s)"
  shows "\<exists>s2. checkRound model cp s = Inr (Inr s2) \<and> search_inv model hs s2 ((k, s_state s) # st) \<and>
    cfgs (s_cache s2) = insert (insert k (lin_of st), s') (cfgs (s_cache s))"
proof -
  let ?L = "insert k (lin_of st)"
  note i = search_invD [OF inv]
  note c = stack_chain [OF i(2)] and L = stack_lin [OF i(2)]
  have L': "?L \<subseteq> {..<nOps hs}" using L k(2) by simp
  have ne: "remaining hs (lin_of st) \<noteq> []" using remaining_iff(1) [OF wf k(2) L] k(3) by auto
  obtain b where b: "set_bs k (s_linearized s) = Inr b" "fits (nOps hs) b" "members b = ?L"
    using bs.add [OF k(2) i(4)] i(3) by auto
  obtain h' where h': "lift (callAddr hs k) (s_store s) = Inr h'" "chain h' (0 # remaining hs ?L)" "data_ok hs h'"
    "unlift (callAddr hs k) h' = Inr (s_store s)"
    by (rule lift_remaining [OF wf L k(2,3) c])
  let ?cache = "remember b s' (s_cache s)"
  let ?s = "s\<lparr>s_cache := ?cache, s_calls := (callAddr hs k, s_state s) # s_calls s, s_state := s',
    s_linearized := b, s_store := h', s_entry := n_next (h' 0)\<rparr>"
  have C: "cfgs ?cache = insert (?L, s') (cfgs (s_cache s))" using b(3) by (simp add: cfgs_remember)
  then have sub: "cfgs (s_cache s) \<subseteq> cfgs ?cache" by auto
  have "checkRound model cp s = Inr (Inr ?s)"
    using next_None [OF c(1)] ne k data_okD [OF c(2) k(2)] b new h'(1) cacheContains_iff [OF i(5) b(2) eq, of s']
    by (simp add: checkRound_def Let_def deref_def inputOf_def outputOf_def stepAt_def remember_def)
  moreover have stk: "stack_ok model hs (cfgs ?cache) ((k, s_state s) # st) s' h'"
    using k(2,3) ret tried_mono [OF tr sub] new(1) C h'(2-4) stack_mono [OF i(2) sub] by auto
  have "search_inv model hs ?s ((k, s_state s) # st)"
    unfolding search_inv_def
  proof (intro conjI impI ballI)
    assume r: "remaining hs (lin_of ((k, s_state s) # st)) \<noteq> []"
    then show "\<exists>e. s_entry ?s = Some e \<and> e \<in> set (remaining hs (lin_of ((k, s_state s) # st))) \<and>
        (\<forall>j<nOps hs. j \<notin> lin_of ((k, s_state s) # st) \<longrightarrow> e \<le> returnAddr hs j) \<and>
        tried model hs (cfgs (s_cache ?s)) (lin_of ((k, s_state s) # st)) (s_state ?s) e"
      using first_entry [OF wf L' h'(2)] by simp
    show "\<forall>x. ({..<nOps hs}, x) \<notin> cfgs (s_cache ?s)"
      using search_inv_entry [OF inv ne] remaining_Nil [OF wf L'] r C by auto
  next
    show "case p of (L, x) \<Rightarrow> (L, x) \<in> configs_of ((k, s_state s) # st) (s_state ?s) \<or>
        closed_at (nOps hs) (before hs) model (inputAt hs) (outputAt hs) (cfgs (s_cache ?s)) L x"
      if "p \<in> cfgs (s_cache ?s)" for p
    proof (cases "p = (?L, s')")
      case False
      obtain L x where p: "p = (L, x)" by fastforce
      then have "(L, x) \<in> cfgs (s_cache s)" using that False C by auto
      from i(8) [OF this] show ?thesis using closed_mono [where model = model, OF _ sub] by (auto simp: p)
    qed simp
    show "cfgs (s_cache ?s) \<subseteq> all_configs model hs" using stack_config [OF stk] i(7) C by simp
  qed (use stk i b cache_ok_remember in simp_all)
  ultimately show ?thesis using C by (intro exI [of _ ?s]) simp
qed

text \<open>At a return every enabled operation was tried.\<close>

lemma return_closed:
  assumes wf: "wf_history hs" and j: "j < nOps hs" "j \<notin> L" and tr: "tried model hs C L x (returnAddr hs j)"
  shows "closed_at (nOps hs) (before hs) model (inputAt hs) (outputAt hs) C L x"
  unfolding closed_at_def
proof (intro allI impI)
  fix k s' assume k: "enabled (nOps hs) (before hs) L k" and s': "Step model x (inputAt hs k) (outputAt hs k) = (True, s')"
  have "\<not> before hs j k" using k j by (simp add: enabled_def)
  then have "callAddr hs k < returnAddr hs j"
    using addr_inject(3) [OF wf _ j(1), of k] k by (auto simp: before_def enabled_def)
  then show "(insert k L, s') \<in> C" using tr k s' by (simp add: tried_def stepAt_def enabled_def)
qed

lemma round_fail:
  assumes wf: "wf_history hs" and inv: "search_inv model hs s []" and ne: "remaining hs {} \<noteq> []"
    and j: "s_entry s = Some (returnAddr hs j)" "j < nOps hs" and tr: "tried model hs (cfgs (s_cache s)) {} (s_state s) (returnAddr hs j)"
  shows "checkRound model cp s = Inr (Inl (False, s_longest s))"
    "\<not> linearization (nOps hs) (before hs) model (inputAt hs) (outputAt hs) seq"
proof -
  note i = search_invD [OF inv]
  note c = stack_chain [OF i(2)]
  show "checkRound model cp s = Inr (Inl (False, s_longest s))"
    using next_None [OF c(1)] ne j data_okD(2) [OF c(2) j(2)] i(1) by (simp add: checkRound_def Let_def deref_def)
  have cl: "closed_at (nOps hs) (before hs) model (inputAt hs) (outputAt hs) (cfgs (s_cache s)) {} (Init model)"
    using return_closed [OF wf j(2) _ tr] i(2) by simp
  show "\<not> linearization (nOps hs) (before hs) model (inputAt hs) (outputAt hs) seq"
  proof
    assume lin: "linearization (nOps hs) (before hs) model (inputAt hs) (outputAt hs) seq"
    have "({..<nOps hs}, final model (inputAt hs) (outputAt hs) (Init model) seq) \<in> insert ({}, Init model) (cfgs (s_cache s))"
    proof (rule closed_has_linearization [OF _ lin])
      show "closed_at (nOps hs) (before hs) model (inputAt hs) (outputAt hs) (cfgs (s_cache s)) L x"
        if "(L, x) \<in> insert ({}, Init model) (cfgs (s_cache s))" for L x
        using that cl i(2,8) by auto
      show "\<not> before hs k k" if "k < nOps hs" for k using addr_bounds(2) [OF wf that] by (simp add: before_def)
    qed
    moreover have "{..<nOps hs} \<noteq> {}" using remaining_Nil [OF wf, of "{}"] ne by auto
    moreover obtain "\<And>x. ({..<nOps hs}, x) \<notin> cfgs (s_cache s)" using search_inv_entry [OF inv] ne by auto
    ultimately show False by auto
  qed
qed

lemma round_pop:
  assumes wf: "wf_history hs" and inv: "search_inv model hs s ((k, x) # st)" and ne: "remaining hs (insert k (lin_of st)) \<noteq> []"
    and j: "s_entry s = Some (returnAddr hs j)" "j < nOps hs" "j \<notin> insert k (lin_of st)"
    and tr: "tried model hs (cfgs (s_cache s)) (insert k (lin_of st)) (s_state s) (returnAddr hs j)"
  shows "\<exists>s2. checkRound model cp s = Inr (Inr s2) \<and> search_inv model hs s2 st \<and> s_cache s2 = s_cache s"
proof -
  note i = search_invD [OF inv]
  note c = stack_chain [OF i(2)] and L = stack_lin [OF i(2)]
  obtain h' where h': "unlift (callAddr hs k) (s_store s) = Inr h'" "stack_ok model hs (cfgs (s_cache s)) st x h'"
    and k: "k < nOps hs" "k \<notin> lin_of st" "\<forall>j<nOps hs. j \<notin> lin_of st \<longrightarrow> callAddr hs k < returnAddr hs j"
    "tried model hs (cfgs (s_cache s)) (lin_of st) x (callAddr hs k)" "stepAt model hs x k = (True, s_state s)"
    "(insert k (lin_of st), s_state s) \<in> cfgs (s_cache s)"
    using i(2) by auto
  note c' = stack_chain [OF h'(2)] and L' = stack_lin [OF h'(2)]
  obtain e where e: "n_next (h' (callAddr hs k)) = Some e" "e \<in> set (remaining hs (lin_of st))"
    "\<forall>j<nOps hs. j \<notin> lin_of st \<longrightarrow> e \<le> returnAddr hs j" "tried model hs (cfgs (s_cache s)) (lin_of st) x e"
    using advance [OF wf L' c'(1) k(1-4)] k(5,6) by auto
  obtain b where b: "clear_bs k (s_linearized s) = Inr b" "fits (nOps hs) b" "members b = lin_of st"
    using bs.remove [OF k(1) i(4)] i(3) k(2) by auto
  obtain l where l: "recordLongest (callIds s) (callIds s) (s_longest s) = Inr l" "longest_ok model hs l"
    using recordLongest_ok [OF stack_partial_lin [OF inv] subset_refl i(6)] by blast
  let ?s = "s\<lparr>s_entry := Some e, s_state := x, s_linearized := b, s_calls := map (\<lambda>(k, x). (callAddr hs k, x)) st,
    s_store := h', s_longest := (if cp then l else s_longest s)\<rparr>"
  have "checkRound model cp s = Inr (Inr ?s)"
    using next_None [OF c(1)] ne j(1) data_okD(2) [OF c(2) j(2)] data_okD(3) [OF c(2) k(1)] i(1) l(1) b(1) h'(1) e(1)
    by (simp add: checkRound_def Let_def deref_def)
  moreover have "search_inv model hs ?s st"
    unfolding search_inv_def
  proof (intro conjI impI ballI)
    show "\<forall>x. ({..<nOps hs}, x) \<notin> cfgs (s_cache ?s)" using search_inv_entry [OF inv] ne by auto
    show "case p of (L, y) \<Rightarrow> (L, y) \<in> configs_of st (s_state ?s) \<or>
        closed_at (nOps hs) (before hs) model (inputAt hs) (outputAt hs) (cfgs (s_cache ?s)) L y"
      if "p \<in> cfgs (s_cache ?s)" for p
      using that i(8) return_closed [OF wf j(2,3) tr] by (cases p) auto
  qed (use h' i b l e in simp_all)
  ultimately show ?thesis by (intro exI [of _ ?s]) simp
qed

subsection \<open>The loop\<close>

text \<open>What a result says: a linearization for \<open>True\<close>, which \<open>longest\<close> has for every operation, and that
  there is none for \<open>False\<close>.\<close>

definition found :: "('s, 'i, 'o) Model \<Rightarrow> ('i, 'o) entry list \<Rightarrow> longest \<Rightarrow> bool" where
  "found model hs l \<longleftrightarrow> (\<exists>seq. linearization (nOps hs) (before hs) model (inputAt hs) (outputAt hs) seq \<and>
     l = replicate (nOps hs) (Some (map int seq)))"

definition linearizable :: "('s, 'i, 'o) Model \<Rightarrow> ('i, 'o) entry list \<Rightarrow> bool" where
  "linearizable model hs \<longleftrightarrow> (\<exists>seq. linearization (nOps hs) (before hs) model (inputAt hs) (outputAt hs) seq)"

definition rank :: "('s, 'i, 'o) Model \<Rightarrow> ('i, 'o) entry list \<Rightarrow> ('s, 'i, 'o) search \<Rightarrow> (nat \<times> 's) list \<Rightarrow> nat \<times> nat \<times> nat" where
  "rank model hs s st =
     (card (all_configs model hs - cfgs (s_cache s)), length st, Suc (length hs) - the (s_entry s))"

abbreviation smaller :: "((nat \<times> nat \<times> nat) \<times> (nat \<times> nat \<times> nat)) set" where
  "smaller \<equiv> less_than <*lex*> less_than <*lex*> less_than"

lemma all_configs_finite: "finite (all_configs model hs)"
  unfolding all_configs_def by (intro finite_imageI finite_subset_distinct) simp

lemma round_cases:
  assumes wf: "wf_history hs" and eq: "Equal model = (=)" and inv: "search_inv model hs s st"
  shows "(\<exists>l. checkRound model cp s = Inr (Inl (True, l)) \<and> found model hs l) \<or>
    (\<exists>l. checkRound model cp s = Inr (Inl (False, l)) \<and> \<not> linearizable model hs \<and> longest_ok model hs l) \<or>
    (\<exists>s' st'. checkRound model cp s = Inr (Inr s') \<and> search_inv model hs s' st' \<and> (rank model hs s' st', rank model hs s st) \<in> smaller)"
proof (cases "remaining hs (lin_of st) = []")
  case True
  then show ?thesis using round_done [OF wf inv] unfolding found_def by blast
next
  case ne: False
  note i = search_invD [OF inv]
  note L = stack_lin [OF i(2)]
  obtain e where e: "s_entry s = Some e" "e \<in> set (remaining hs (lin_of st))"
    "\<forall>j<nOps hs. j \<notin> lin_of st \<longrightarrow> e \<le> returnAddr hs j"
    "tried model hs (cfgs (s_cache s)) (lin_of st) (s_state s) e"
    using search_inv_entry [OF inv ne] by metis
  from wf L e(2) show ?thesis
  proof (rule remaining_cases)
    fix k assume k: "k < nOps hs" "k \<notin> lin_of st" and ek: "e = callAddr hs k"
    have ret: "\<forall>j<nOps hs. j \<notin> lin_of st \<longrightarrow> callAddr hs k < returnAddr hs j"
      using e(3) addr_inject(3) [OF wf k(1)] unfolding ek by (metis le_neq_implies_less)
    note pre = wf eq inv e(1) [unfolded ek] k ret e(4) [unfolded ek]
    show ?thesis
    proof (cases "\<exists>s'. stepAt model hs (s_state s) k = (True, s') \<and> (insert k (lin_of st), s') \<notin> cfgs (s_cache s)")
      case True
      then obtain s' where s': "stepAt model hs (s_state s) k = (True, s')" "(insert k (lin_of st), s') \<notin> cfgs (s_cache s)" by blast
      obtain s2 where s2: "checkRound model cp s = Inr (Inr s2)" "search_inv model hs s2 ((k, s_state s) # st)"
        "cfgs (s_cache s2) = insert (insert k (lin_of st), s') (cfgs (s_cache s))"
        using round_push [OF pre s'] by blast
      have "all_configs model hs - cfgs (s_cache s2) \<subset> all_configs model hs - cfgs (s_cache s)"
        using s'(2) s2(3) search_invD(7) [OF s2(2)] by auto
      from psubset_card_mono [OF finite_Diff [OF all_configs_finite] this]
      have "(rank model hs s2 ((k, s_state s) # st), rank model hs s st) \<in> smaller" by (simp add: rank_def)
      then show ?thesis using s2(1,2) by blast
    next
      case False
      then obtain e' where e': "checkRound model cp s = Inr (Inr (s\<lparr>s_entry := Some e'\<rparr>))"
        "search_inv model hs (s\<lparr>s_entry := Some e'\<rparr>) st" "callAddr hs k < e'" "e' \<le> length hs"
        using round_skip [OF pre] by blast
      have "(rank model hs (s\<lparr>s_entry := Some e'\<rparr>) st, rank model hs s st) \<in> smaller"
        using e'(3,4) e(1) ek by (auto simp: rank_def)
      then show ?thesis using e'(1,2) by blast
    qed
  next
    fix j assume j: "j < nOps hs" "j \<notin> lin_of st" and ej: "e = returnAddr hs j"
    show ?thesis
    proof (cases st)
      case Nil
      have "checkRound model cp s = Inr (Inl (False, s_longest s))" "\<not> linearizable model hs"
        using round_fail [OF wf, of model s j] inv ne e j unfolding Nil ej linearizable_def by auto
      then show ?thesis using i(6) by blast
    next
      case (Cons p st0)
      obtain k x where st: "st = (k, x) # st0" using Cons by (cases p) auto
      obtain s2 where s2: "checkRound model cp s = Inr (Inr s2)" "search_inv model hs s2 st0" "s_cache s2 = s_cache s"
        using round_pop [OF wf, of model s k x st0 j cp] inv ne e j unfolding st ej by auto
      then have "(rank model hs s2 st0, rank model hs s st) \<in> smaller" by (auto simp: rank_def st)
      then show ?thesis using s2(1,2) by blast
    qed
  qed
qed

text \<open>Whenever the flag is set, the loop does not panic, and what it finds is a linearization.\<close>

lemma checkLoop_sound:
  assumes "wf_history hs" and "Equal model = (=)" and "search_inv model hs s st"
  shows "\<exists>r. checkLoop fuel kill model cp s = Inr r \<and> (\<forall>l. r = Some (True, l) \<longrightarrow> found model hs l) \<and>
    (\<forall>b l. r = Some (b, l) \<longrightarrow> longest_ok model hs l)"
  using assms(3)
proof (induction fuel arbitrary: s st)
  case (Suc fuel)
  show ?case
  proof (cases "n_next (s_store s 0) \<noteq> None \<and> kill fuel")
    case False
    have step: "checkLoop (Suc fuel) kill model cp s = gbind (checkRound model cp s)
      (\<lambda>r. case r of Inl b \<Rightarrow> Inr (Some b) | Inr s \<Rightarrow> checkLoop fuel kill model cp s)" using False by auto
    from round_cases [OF assms(1,2) Suc.prems, of cp] show ?thesis
    proof (elim disjE exE conjE)
      fix s' st' assume "checkRound model cp s = Inr (Inr s')" "search_inv model hs s' st'"
      then show ?thesis using Suc.IH step by simp
    qed (auto simp: step found_def intro: longest_ok_found simp del: checkLoop.simps)
  qed (use search_invD(6) [OF Suc.prems] in simp)
qed simp

text \<open>Without the flag it gives a result, and the result is right.\<close>

lemma checkLoop_total:
  assumes "wf_history hs" and "Equal model = (=)" and "search_inv model hs s st"
  shows "\<exists>fuel0 r l. (\<forall>fuel\<ge>fuel0. checkLoop fuel (\<lambda>_. False) model cp s = Inr (Some (r, l))) \<and>
    (if r then found model hs l else \<not> linearizable model hs)"
proof -
  have "wf smaller" by auto
  from this assms(3) show ?thesis
  proof (induction "rank model hs s st" arbitrary: s st rule: wf_induct_rule)
    case (less s st)
    let ?kill = "\<lambda>_ :: nat. False"
    have step: "checkLoop fuel ?kill model cp s = gbind (checkRound model cp s)
        (\<lambda>r. case r of Inl b \<Rightarrow> Inr (Some b) | Inr s \<Rightarrow> checkLoop (fuel - 1) ?kill model cp s)" if "1 \<le> fuel" for fuel
      using that by (cases fuel) auto
    from round_cases [OF assms(1,2) less.prems, of cp] consider
        l where "checkRound model cp s = Inr (Inl (True, l))" "found model hs l"
      | l where "checkRound model cp s = Inr (Inl (False, l))" "\<not> linearizable model hs"
      | s' st' where "checkRound model cp s = Inr (Inr s')" "search_inv model hs s' st'" "(rank model hs s' st', rank model hs s st) \<in> smaller"
      by blast
    then show ?case
    proof cases
      case (1 l)
      then show ?thesis using step by (intro exI [of _ 1] exI [of _ True] exI [of _ l]) simp
    next
      case (2 l)
      then show ?thesis using step by (intro exI [of _ 1] exI [of _ False] exI [of _ l]) simp
    next
      case (3 s' st')
      from less.hyps [OF this(3) this(2)] obtain fuel0 r l where
        f: "\<forall>fuel\<ge>fuel0. checkLoop fuel ?kill model cp s' = Inr (Some (r, l))" "if r then found model hs l else \<not> linearizable model hs"
        by blast
      then show ?thesis using step 3(1) by (intro exI [of _ "Suc fuel0"] exI [of _ r] exI [of _ l]) simp
    qed
  qed
qed

text \<open>A search that is told to stop ends no later.\<close>

lemma checkLoop_kill:
  "checkLoop fuel (\<lambda>_. False) model cp s = Inr (Some x) \<Longrightarrow> checkLoop fuel kill model cp s = Inr r \<Longrightarrow> r \<noteq> None"
proof (induction fuel arbitrary: s)
  case (Suc fuel)
  show ?case
  proof (cases "n_next (s_store s 0) \<noteq> None \<and> kill fuel")
    case False
    obtain a where a: "checkRound model cp s = Inr a" using Suc.prems(1) by (auto simp: gbind_Inr_iff)
    show ?thesis
    proof (cases a)
      case (Inl b)
      then show ?thesis using Suc.prems(2) a False by (auto split: if_splits)
    next
      case (Inr s')
      then show ?thesis using Suc.IH [of s'] Suc.prems a False by (simp split: if_splits)
    qed
  qed (use Suc.prems in auto)
qed simp

subsection \<open>A whole search\<close>

lemma length_ll_chain:
  assumes "seg h (a # xs)" and "n_next (h (last (a # xs))) = None" and "length (a # xs) \<le> fuel"
  shows "length_ll fuel h (Some a) = Some (length (a # xs))"
  using assms
proof (induction xs arbitrary: a fuel)
  case Nil
  then show ?case by (cases fuel) auto
next
  case (Cons b xs)
  then show ?case by (cases fuel) auto
qed

lemma length_ll_mono: "length_ll fuel h p = Some l \<Longrightarrow> fuel \<le> fuel' \<Longrightarrow> length_ll fuel' h p = Some l"
proof (induction fuel h p arbitrary: l fuel' rule: length_ll.induct)
  case (3 fuel h n)
  obtain l' f where l': "length_ll fuel h (n_next (h n)) = Some l'" "l = Suc l'" "fuel' = Suc f" "fuel \<le> f"
    using "3.prems" by (cases fuel') auto
  from "3.IH" [OF l'(1,4)] l'(2,3) show ?case by simp
qed auto

lemma length_ll_linked:
  assumes "makeLinkedEntries hs = (h, root)" and "length hs \<le> fuel"
  shows "length_ll fuel h root = Some (length hs)"
proof (cases "hs = []")
  case True
  then show ?thesis using assms(1) by (simp add: makeLinkedEntries_def)
next
  case False
  obtain h' where "linkLoop 1 hs emptyStore = (h', matchOf 1 hs, Some 1)" "chain h' [1..<1 + length hs]"
    using linkLoop_spec [of 1 hs emptyStore] False by auto
  moreover have u: "[1..<1 + length hs] = 1 # [2..<1 + length hs]" 
    using False by (simp add: upt_conv_Cons numeral_2_eq_2 Suc_le_eq del: upt_Suc)
  ultimately have "h = h'" "root = Some 1" "seg h (1 # [2..<1 + length hs])" "n_next (h (last (1 # [2..<1 + length hs]))) = None"
    using assms(1) by (auto simp: makeLinkedEntries_def chain_def)
  moreover have "length (1 # [2..<1 + length hs]) = length hs"
    using False by (cases hs) (simp_all del: upt_Suc)
  ultimately show ?thesis using length_ll_chain [of h 1 "[2..<1 + length hs]" fuel] assms(2) by simp
qed

lemma start_inv:
  assumes wf: "wf_history hs" and m: "makeLinkedEntries hs = (h, root)"
  shows "search_inv model hs (startSearch model h root (nOps hs)) []"
proof -
  let ?s = "startSearch model h root (nOps hs)"
  have st: "s_store ?s = initStore hs" using m by (simp add: startSearch_def initStore_def)
  have c: "cfgs (s_cache ?s) = {}" by (simp add: startSearch_def cfgs_def)
  have rt: "root = (if hs = [] then None else Some 1)" using makeLinkedEntries_root [of hs] m by simp
  have "\<not> callAddr hs j < Suc 0" "Suc 0 \<le> returnAddr hs j" if "j < nOps hs" for j
    using addr_bounds [OF wf that] by simp_all
  then have "\<forall>j<nOps hs. Suc 0 \<le> returnAddr hs j" "tried model hs {} {} (Init model) (Suc 0)"
    unfolding tried_def by blast+
  then show ?thesis using initStore_ok [OF wf] rt
    unfolding search_inv_def st c
    by (auto simp: startSearch_def cache_ok_def bs.empty longest_ok_def)
qed

lemma checkSingle_sound:
  assumes "wf_history hs" and "Equal model = (=)"
  shows "\<exists>r. checkSingle fuel kill model hs cp = Inr r \<and> (\<forall>l. r = Some (True, l) \<longrightarrow> found model hs l) \<and>
    (\<forall>b l. r = Some (b, l) \<longrightarrow> longest_ok model hs l)"
proof -
  obtain h root where m: "makeLinkedEntries hs = (h, root)" by fastforce
  show ?thesis
  proof (cases "length_ll fuel h root")
    case (Some l)
    then have "l = length hs"
      using length_ll_linked [OF m, of "max fuel (length hs)"] length_ll_mono [of fuel h root l "max fuel (length hs)"] by simp
    then show ?thesis
      using checkLoop_sound [OF assms start_inv [OF assms(1) m]] Some m
      by (simp add: checkSingle_def nOps_def)
  qed (simp add: checkSingle_def m)
qed

lemma checkSingle_total:
  assumes "wf_history hs" and "Equal model = (=)"
  shows "\<exists>fuel0 r l. (\<forall>fuel\<ge>fuel0. checkSingle fuel (\<lambda>_. False) model hs cp = Inr (Some (r, l))) \<and>
    (if r then found model hs l else \<not> linearizable model hs)"
proof -
  obtain h root where m: "makeLinkedEntries hs = (h, root)" by fastforce
  obtain fuel0 r l where f: "\<forall>fuel\<ge>fuel0. checkLoop fuel (\<lambda>_. False) model cp (startSearch model h root (nOps hs)) = Inr (Some (r, l))"
    "if r then found model hs l else \<not> linearizable model hs"
    using checkLoop_total [OF assms start_inv [OF assms(1) m]] by blast
  have "checkSingle fuel (\<lambda>_. False) model hs cp = Inr (Some (r, l))" if "max fuel0 (length hs) \<le> fuel" for fuel
    using f(1) that length_ll_linked [OF m, of fuel] m by (simp add: checkSingle_def nOps_def)
  then show ?thesis using f(2) by blast
qed

lemma checkSingle_kill:
  assumes "checkSingle fuel (\<lambda>_. False) model hs cp = Inr (Some x)" and "checkSingle fuel kill model hs cp = Inr r"
  shows "r \<noteq> None"
proof -
  obtain h root where m: "makeLinkedEntries hs = (h, root)" by fastforce
  obtain l where l: "length_ll fuel h root = Some l" using assms(1) m by (auto simp: checkSingle_def split: option.splits)
  show ?thesis using assms checkLoop_kill [of fuel model cp "startSearch model h root (l div 2)" x kill r] m l
    by (simp add: checkSingle_def)
qed

end
