(* ===== verification/Porcupine_Ops.thy ===== *)
theory Porcupine_Ops
  imports Porcupine_Search
begin

text \<open>
  From the entries back to the operations: the entries of a history of operations are well formed,
  real time is the order of the times of returns and calls, and the results of the parts of a history
  are put together. Linearizability is stated here on operations.
\<close>

subsection \<open>Linearizable histories of operations\<close>

fun legal_ops :: "('s, 'i, 'o) Model \<Rightarrow> 's \<Rightarrow> ('i, 'o) Operation list \<Rightarrow> bool" where
  "legal_ops model s [] \<longleftrightarrow> True"
| "legal_ops model s (v # vs) \<longleftrightarrow>
     (case Step model s (Input v) (Output v) of (ok, s') \<Rightarrow> ok \<and> legal_ops model s' vs)"

definition real_time :: "('i, 'o) Operation list \<Rightarrow> bool" where
  "real_time vs \<longleftrightarrow> sorted_wrt (\<lambda>v w. \<not> Return w < Call v) vs"

text \<open>Some order of the operations respects real time and is one that the model can take.\<close>

definition op_linearizable :: "('s, 'i, 'o) Model \<Rightarrow> ('i, 'o) Operation list \<Rightarrow> bool" where
  "op_linearizable model history \<longleftrightarrow>
     (\<exists>vs. mset vs = mset history \<and> real_time vs \<and> legal_ops model (Init model) vs)"

definition valid_times :: "('i, 'o) Operation list \<Rightarrow> bool" where
  "valid_times history \<longleftrightarrow> list_all (\<lambda>v. Call v \<le> Return v) history"

text \<open>What \<open>sort.Sort\<close> gives for the order \<open>byTime\<close>.\<close>

definition sorts_by_time :: "(('i, 'o) entry list \<Rightarrow> ('i, 'o) entry list) \<Rightarrow> bool" where
  "sorts_by_time srt \<longleftrightarrow> (\<forall>es. mset (srt es) = mset es \<and> sorted_wrt (\<lambda>a b. \<not> byTime_Less b a) (srt es))"

subsection \<open>The entries of a history\<close>

definition callOf :: "nat \<Rightarrow> ('i, 'o) Operation \<Rightarrow> ('i, 'o) entry" where
  "callOf k v = \<lparr>kind = callEntry, e_value = Inl (Input v), e_id = k, e_time = Call v, e_clientId = op_ClientId v\<rparr>"

definition returnOf :: "nat \<Rightarrow> ('i, 'o) Operation \<Rightarrow> ('i, 'o) entry" where
  "returnOf k v = \<lparr>kind = returnEntry, e_value = Inr (Output v), e_id = k, e_time = Return v, e_clientId = op_ClientId v\<rparr>"

lemmas entry_of_defs = callOf_def returnOf_def

lemma entriesFrom_set:
  "set (entriesFrom k history) = (\<Union>i<length history. {callOf (k + i) (history ! i), returnOf (k + i) (history ! i)})"
proof (induction history arbitrary: k)
  case (Cons v history)
  have "(\<Union>i<length (v # history). {callOf (k + i) ((v # history) ! i), returnOf (k + i) ((v # history) ! i)}) =
      {callOf k v, returnOf k v} \<union> (\<Union>i<length history. {callOf (k + Suc i) (history ! i), returnOf (k + Suc i) (history ! i)})"
    by (simp add: lessThan_Suc_eq_insert_0)
  then show ?case using Cons [of "k + 1"] by (simp add: entry_of_defs)
qed simp

lemma entriesFrom_length: "length (entriesFrom k history) = 2 * length history"
  by (induction history arbitrary: k) auto

lemma entriesFrom_distinct: "distinct (map (\<lambda>e. (kind e, e_id e)) (entriesFrom k history))"
proof (induction history arbitrary: k)
  case (Cons v history)
  have "k < e_id e" if "e \<in> set (entriesFrom (k + 1) history)" for e
    using that by (auto simp: entriesFrom_set entry_of_defs)
  then show ?case using Cons [of "k + 1"] by fastforce
qed simp

lemma makeEntries_mset:
  assumes "sorts_by_time srt"
  shows "mset (makeEntries srt history) = mset (entriesFrom 0 history)"
    "sorted_wrt (\<lambda>a b. \<not> byTime_Less b a) (makeEntries srt history)"
  using assms by (simp_all add: makeEntries_def sorts_by_time_def)

lemma makeEntries_set:
  assumes "sorts_by_time srt"
  shows "e \<in> set (makeEntries srt history) \<longleftrightarrow> (\<exists>i<length history. e = callOf i (history ! i) \<or> e = returnOf i (history ! i))"
  using mset_eq_setD [OF makeEntries_mset(1) [OF assms]] by (auto simp: entriesFrom_set)

lemma makeEntries_nOps:
  assumes "sorts_by_time srt"
  shows "nOps (makeEntries srt history) = length history"
  using mset_eq_length [OF makeEntries_mset(1) [OF assms]] by (simp add: nOps_def entriesFrom_length)

lemma makeEntries_at:
  assumes "sorts_by_time srt" and "k < length history"
  defines "hs \<equiv> makeEntries srt history"
  shows "firstAt (isCall k) hs < length hs" "hs ! firstAt (isCall k) hs = callOf k (history ! k)"
    "firstAt (isReturn k) hs < length hs" "hs ! firstAt (isReturn k) hs = returnOf k (history ! k)"
proof -
  note set = makeEntries_set [OF assms(1), of _ history, folded hs_def]
  have "callOf k (history ! k) \<in> set hs" "returnOf k (history ! k) \<in> set hs" using assms(2) by (auto simp: set)
  moreover have "isCall k (callOf k (history ! k))" "isReturn k (returnOf k (history ! k))"
    by (simp_all add: isCall_def isReturn_def entry_of_defs)
  ultimately have b: "firstAt (isCall k) hs < length hs" "isCall k (hs ! firstAt (isCall k) hs)"
    "firstAt (isReturn k) hs < length hs" "isReturn k (hs ! firstAt (isReturn k) hs)"
    using firstAt_bound [of _ hs "isCall k"] firstAt_bound [of _ hs "isReturn k"] by auto
  show "firstAt (isCall k) hs < length hs" "firstAt (isReturn k) hs < length hs" by (fact b)+
  show "hs ! firstAt (isCall k) hs = callOf k (history ! k)"
    using b(2) set [of "hs ! firstAt (isCall k) hs"] nth_mem [OF b(1)] by (auto simp: isCall_def entry_of_defs)
  show "hs ! firstAt (isReturn k) hs = returnOf k (history ! k)"
    using b(4) set [of "hs ! firstAt (isReturn k) hs"] nth_mem [OF b(3)] by (auto simp: isReturn_def entry_of_defs)
qed

lemma makeEntries_order:
  assumes "sorts_by_time srt" and "j < length history" "k < length history"
  defines "hs \<equiv> makeEntries srt history"
  shows "returnAddr hs j < callAddr hs k \<longleftrightarrow> Return (history ! j) < Call (history ! k)"
proof -
  note j = makeEntries_at [OF assms(1,2), folded hs_def] and k = makeEntries_at [OF assms(1,3), folded hs_def]
  have s: "\<not> byTime_Less (hs ! q) (hs ! p)" if "p < q" "q < length hs" for p q
    using sorted_wrt_nth_less [OF makeEntries_mset(2) [OF assms(1)]] that unfolding hs_def by blast
  have ne: "firstAt (isReturn j) hs \<noteq> firstAt (isCall k) hs" using j(4) k(2) by (auto simp: entry_of_defs)
  show ?thesis
  proof (cases "firstAt (isReturn j) hs < firstAt (isCall k) hs")
    case True
    from s [OF this k(1)] show ?thesis using True
      by (auto simp: j(4) k(2) byTime_Less_def entry_of_defs returnAddr_def callAddr_def split: if_splits)
  next
    case False
    then have "firstAt (isCall k) hs < firstAt (isReturn j) hs" using ne by simp
    from s [OF this j(3)] show ?thesis using False
      by (auto simp: j(4) k(2) byTime_Less_def entry_of_defs returnAddr_def callAddr_def split: if_splits)
  qed
qed

lemma makeEntries_wf:
  assumes "sorts_by_time srt" and "valid_times history"
  shows "wf_history (makeEntries srt history)"
  unfolding wf_history_def makeEntries_nOps [OF assms(1)]
proof (intro conjI ballI)
  let ?hs = "makeEntries srt history"
  have "mset (map (\<lambda>e. (kind e, e_id e)) ?hs) = mset (map (\<lambda>e. (kind e, e_id e)) (entriesFrom 0 history))"
    using makeEntries_mset(1) [OF assms(1)] by simp
  then show "distinct (map (\<lambda>e. (kind e, e_id e)) ?hs)"
    using entriesFrom_distinct mset_eq_imp_distinct_iff by blast
  show "set (map (\<lambda>e. (kind e, e_id e)) ?hs) = {callEntry, returnEntry} \<times> {..<length history}"
    by (force simp: image_iff makeEntries_set [OF assms(1)] entry_of_defs)
  show "list_all (\<lambda>e. isl (e_value e) \<longleftrightarrow> kind e = callEntry) ?hs"
    by (auto simp: list_all_iff makeEntries_set [OF assms(1)] entry_of_defs)
  fix k assume k: "k \<in> {..<length history}"
  have "Call (history ! k) \<le> Return (history ! k)" using assms(2) k by (auto simp: valid_times_def list_all_iff)
  then have "\<not> returnAddr ?hs k < callAddr ?hs k" using makeEntries_order [OF assms(1)] k by simp
  moreover have "returnAddr ?hs k \<noteq> callAddr ?hs k"
    using makeEntries_at(2,4) [OF assms(1), of k history] k by (auto simp: returnAddr_def callAddr_def entry_of_defs)
  ultimately show "callAddr ?hs k < returnAddr ?hs k" by simp
qed

subsection \<open>Linearizations of entries and of operations\<close>

lemma legal_map:
  assumes "\<forall>k\<in>set seq. inp k = Input (history ! k) \<and> out k = Output (history ! k)"
  shows "legal model inp out s seq \<longleftrightarrow> legal_ops model s (map ((!) history) seq)"
  using assms by (induction seq arbitrary: s) (auto split: prod.split)

lemma mset_map_preimage:
  assumes "mset ys = image_mset f A"
  obtains xs where "mset xs = A" "map f xs = ys"
  using assms
proof (induction ys arbitrary: A thesis)
  case (Cons y ys)
  then have "y \<in># image_mset f A" by (metis list.set_intros(1) set_mset_mset)
  then obtain x where x: "x \<in># A" "y = f x" by auto
  obtain A' where A': "A = add_mset x A'" using x(1) by (meson multi_member_split)
  then have "mset ys = image_mset f A'" using Cons.prems(2) x(2) by simp
  then obtain xs where "mset xs = A'" "map f xs = ys" using Cons.IH by metis
  then show ?case using Cons.prems(1) [of "x # xs"] x(2) A' by simp
qed simp

lemma linearizable_ops:
  assumes "sorts_by_time srt"
  shows "linearizable model (makeEntries srt history) \<longleftrightarrow> op_linearizable model history"
proof -
  let ?hs = "makeEntries srt history" and ?n = "length history"
  note n = makeEntries_nOps [OF assms] and at = makeEntries_at [OF assms]
  have io: "inputAt ?hs k = Input (history ! k)" "outputAt ?hs k = Output (history ! k)" if "k < ?n" for k
    using at [OF that] by (simp_all add: inputAt_def outputAt_def entry_of_defs)
  have lin: "linearization (nOps ?hs) (before ?hs) model (inputAt ?hs) (outputAt ?hs) seq \<longleftrightarrow>
      mset seq = mset [0..<?n] \<and> real_time (map ((!) history) seq) \<and> legal_ops model (Init model) (map ((!) history) seq)" for seq
  proof -
    have perm: "mset seq = mset [0..<?n] \<longleftrightarrow> distinct seq \<and> set seq = {..<?n}"
      by (metis atLeast_upt distinct_upt mset_eq_imp_distinct_iff mset_eq_setD set_eq_iff_mset_eq_distinct)
    have "sorted_wrt (\<lambda>j k. \<not> before ?hs k j) seq \<longleftrightarrow> real_time (map ((!) history) seq)" if "set seq = {..<?n}"
      unfolding real_time_def sorted_wrt_map before_def
      using makeEntries_order [OF assms] that by (intro iffI; elim sorted_wrt_mono_rel [rotated]) auto
    moreover have "legal model (inputAt ?hs) (outputAt ?hs) (Init model) seq \<longleftrightarrow> legal_ops model (Init model) (map ((!) history) seq)"
      if "set seq = {..<?n}" using io that by (intro legal_map) auto
    ultimately show ?thesis unfolding linearization_def n perm by blast
  qed
  have img: "image_mset ((!) history) (mset [0..<?n]) = mset history"
    by (metis map_nth mset_map)
  show ?thesis
  proof
    assume "linearizable model ?hs"
    then obtain seq where "mset seq = mset [0..<?n]" "real_time (map ((!) history) seq)" "legal_ops model (Init model) (map ((!) history) seq)"
      using lin unfolding linearizable_def by blast
    then show "op_linearizable model history"
      unfolding op_linearizable_def using img by (metis mset_map)
  next
    assume "op_linearizable model history"
    then obtain vs where vs: "mset vs = mset history" "real_time vs" "legal_ops model (Init model) vs"
      unfolding op_linearizable_def by blast
    obtain seq where "mset seq = mset [0..<?n]" "map ((!) history) seq = vs"
      using mset_map_preimage [of vs "(!) history" "mset [0..<?n]"] vs(1) img by metis
    then show "linearizable model ?hs" using lin vs unfolding linearizable_def by blast
  qed
qed

subsection \<open>Putting the results together\<close>

lemma collect_Ok:
  assumes "collect ci len got ok rs = Some (True, False)"
  shows "ok \<and> (\<exists>m rest. rs = replicate m (Result True) @ rest \<and> len \<le> got + m)"
  using assms
proof (induction ci len got ok rs rule: collect.induct)
  case (3 ci len got ok result rs)
  show ?case
  proof (cases "len \<le> got + 1")
    case True
    then show ?thesis using 3 by (auto simp: Let_def split: if_splits intro!: exI [of _ 1])
  next
    case False
    have "\<not> (\<not> (ok \<and> result) \<and> \<not> ci)" "collect ci len (got + 1) (ok \<and> result) rs = Some (True, False)"
      using "3.prems" False by (auto simp: Let_def split: if_splits)
    from "3.IH" [OF refl refl this(1) _ this(2)] False obtain m rest where
      "ok" "result" "rs = replicate m (Result True) @ rest" "len \<le> got + 1 + m" by auto
    then show ?thesis by (auto intro!: exI [of _ "Suc m"])
  qed
qed auto

lemma collect_False:
  assumes "collect ci len got ok rs = Some (False, t)"
  shows "\<not> ok \<or> Result False \<in> set rs"
  using assms
proof (induction ci len got ok rs rule: collect.induct)
  case (3 ci len got ok result rs)
  then show ?case by (cases result) (auto simp: Let_def split: if_splits)
qed auto

lemma collect_all:
  assumes "bs \<noteq> []" and "len = got + length bs"
  shows "collect ci len got ok (map Result bs) = Some (ok \<and> (\<forall>b\<in>set bs. b), False)"
  using assms
proof (induction bs arbitrary: got ok)
  case (Cons b bs)
  show ?case
  proof (cases "bs = []")
    case False
    have "collect ci len (got + 1) (ok \<and> b) (map Result bs) = Some ((ok \<and> b) \<and> (\<forall>b\<in>set bs. b), False)"
      using Cons.IH [OF False] Cons.prems(2) by simp
    then show ?thesis using Cons.prems(2) False by (auto simp: Let_def)
  qed (use Cons.prems in \<open>simp add: Let_def\<close>)
qed simp

text \<open>A schedule delivers each part at most once; a full one delivers all of them and no timeout.\<close>

fun partsOf :: "arrival list \<Rightarrow> nat list" where
  "partsOf [] = []"
| "partsOf (Part i # ars) = i # partsOf ars"
| "partsOf (Timer # ars) = partsOf ars"

definition schedule :: "nat \<Rightarrow> arrival list \<Rightarrow> bool" where
  "schedule len ars \<longleftrightarrow> distinct (partsOf ars) \<and> list_all (\<lambda>i. i < len) (partsOf ars)"

definition full_schedule :: "nat \<Rightarrow> arrival list \<Rightarrow> bool" where
  "full_schedule len ars \<longleftrightarrow> schedule len ars \<and> length (partsOf ars) = len \<and> Timer \<notin> set ars"

fun arrived :: "(nat \<Rightarrow> bool) \<Rightarrow> arrival list \<Rightarrow> received list" where
  "arrived b [] = []"
| "arrived b (Timer # ars) = [TimedOut]"
| "arrived b (Part i # ars) = Result (b i) # arrived b ars"

lemma deliver_ok:
  assumes "\<And>i. i \<in> set (partsOf ars) \<Longrightarrow> \<exists>l. res i = Inr (Some (b i, l))"
  shows "deliver res ars = Inr (Some (arrived b ars))"
  using assms
proof (induction res ars rule: deliver.induct)
  case (3 res i ars)
  obtain l where "res i = Inr (Some (b i, l))" using "3.prems" [of i] by auto
  then show ?case using 3 by simp
qed simp_all

lemma arrived_True:
  assumes "arrived b ars = replicate m (Result True) @ rest"
  shows "\<exists>is ars'. ars = map Part is @ ars' \<and> length is = m \<and> list_all b is"
  using assms
proof (induction m arbitrary: ars)
  case (Suc m)
  then obtain i ars' where ars: "ars = Part i # ars'" "b i" "arrived b ars' = replicate m (Result True) @ rest"
    by (cases "(b, ars)" rule: arrived.cases) auto
  from Suc.IH [OF ars(3)] obtain js ars'' where "ars' = map Part js @ ars''" "length js = m" "list_all b js" by blast
  then show ?case using ars by (intro exI [of _ "i # js"] exI [of _ ars'']) simp
qed simp

lemma arrived_False: "Result False \<in> set (arrived b ars) \<Longrightarrow> \<exists>i\<in>set (partsOf ars). \<not> b i"
  by (induction b ars rule: arrived.induct) auto

lemma arrived_all: "Timer \<notin> set ars \<Longrightarrow> arrived b ars = map Result (map b (partsOf ars))"
  by (induction b ars rule: arrived.induct) auto

lemma partsOf_append [simp]: "partsOf (map Part is @ ars) = is @ partsOf ars"
  by (induction "is") auto

lemma inTime_append: "i \<in> set is \<Longrightarrow> inTime (map Part is @ ars) i"
  by (induction "is") (auto simp: inTime_def)

lemma inTime_parts: "inTime ars i \<Longrightarrow> i \<in> set (partsOf ars)"
  unfolding inTime_def by (induction ars rule: partsOf.induct) (auto split: if_splits)

text \<open>Enough fuel for every part.\<close>

lemma checkSingle_all:
  assumes "\<forall>hs\<in>set l. wf_history hs" and "Equal model = (=)"
  shows "\<exists>fuel0. \<forall>fuel\<ge>fuel0. \<forall>hs\<in>set l. \<exists>lg. checkSingle fuel (\<lambda>_. False) model hs cp = Inr (Some (linearizable model hs, lg))"
  using assms(1)
proof (induction l)
  case (Cons hs l)
  obtain f1 where 1: "\<forall>fuel\<ge>f1. \<forall>hs\<in>set l. \<exists>lg. checkSingle fuel (\<lambda>_. False) model hs cp = Inr (Some (linearizable model hs, lg))"
    using Cons by auto
  obtain f2 r lg where 2: "\<forall>fuel\<ge>f2. checkSingle fuel (\<lambda>_. False) model hs cp = Inr (Some (r, lg))"
    "if r then found model hs lg else \<not> linearizable model hs"
    using checkSingle_total [OF _ assms(2)] Cons.prems by (metis list.set_intros(1))
  have "r \<longleftrightarrow> linearizable model hs" using 2(2) by (auto simp: found_def linearizable_def split: if_splits)
  then show ?case using 1 2(1) by (intro exI [of _ "max f1 f2"]) auto
qed simp

definition right_result :: "bool \<Rightarrow> bool \<Rightarrow> CheckResult option \<Rightarrow> bool" where
  "right_result all_done lin r \<longleftrightarrow>
     (r = Some Ok \<longrightarrow> lin) \<and> (r = Some Illegal \<longrightarrow> \<not> lin) \<and> (all_done \<longrightarrow> r = Some (if lin then Ok else Illegal))"

lemma collect_right:
  fixes b :: "nat \<Rightarrow> bool" and n :: nat and ci :: bool
  assumes sch: "schedule n ars"
  defines "r \<equiv> map_option verdict (collect ci n 0 True (arrived b ars))"
  shows "right_result (full_schedule n ars \<and> n \<noteq> 0) (\<forall>i<n. b i) r" "r = Some Ok \<Longrightarrow> i < n \<Longrightarrow> inTime ars i"
proof -
  have parts: "distinct (partsOf ars)" "set (partsOf ars) \<subseteq> {..<n}"
    using sch by (auto simp: schedule_def list_all_iff)
  have ok: "(\<forall>i<n. b i \<and> inTime ars i)" if "r = Some Ok"
  proof -
    from that have "collect ci n 0 True (arrived b ars) = Some (True, False)"
      by (auto simp: r_def verdict_def split: if_splits prod.splits)
    from collect_Ok [OF this] obtain m rest where m: "arrived b ars = replicate m (Result True) @ rest" "n \<le> m" by auto
    from arrived_True [OF m(1)] obtain js ars' where js: "ars = map Part js @ ars'" "length js = m" "list_all b js" by blast
    have d: "distinct js" "set js \<subseteq> {..<n}" using parts unfolding js(1) by auto
    then have "card (set js) = m" using js(2) distinct_card by auto
    then have "set js = {..<n}" using card_seteq [OF finite_lessThan d(2)] m(2) by simp
    then show ?thesis using js inTime_append by (auto simp: list_all_iff)
  qed
  show "r = Some Ok \<Longrightarrow> i < n \<Longrightarrow> inTime ars i" using ok by blast
  have "\<not> (\<forall>i<n. b i)" if "r = Some Illegal"
  proof -
    from that obtain t where "collect ci n 0 True (arrived b ars) = Some (False, t)"
      by (auto simp: r_def verdict_def split: if_splits prod.splits)
    from collect_False [OF this] show ?thesis using arrived_False parts(2) by fastforce
  qed
  moreover have "r = Some (if \<forall>i<n. b i then Ok else Illegal)" if full: "full_schedule n ars \<and> n \<noteq> 0"
  proof -
    have len: "length (partsOf ars) = n" and t: "Timer \<notin> set ars" using full by (simp_all add: full_schedule_def)
    then have "card (set (partsOf ars)) = n" using distinct_card [OF parts(1)] by simp
    then have st: "set (partsOf ars) = {..<n}" using card_subset_eq [OF finite_lessThan parts(2)] by simp
    have "map b (partsOf ars) \<noteq> []" using full len by auto
    from collect_all [OF this, of n 0 ci True] have "collect ci n 0 True (arrived b ars) = Some (\<forall>i<n. b i, False)"
      using st len by (auto simp: arrived_all [OF t])
    then show ?thesis by (simp add: r_def verdict_def)
  qed
  ultimately show "right_result (full_schedule n ars \<and> n \<noteq> 0) (\<forall>i<n. b i) r"
    using ok unfolding right_result_def by blast
qed

text \<open>The lists for the visualization are partial linearizations, and whole ones when the result is \<open>Ok\<close>.\<close>

definition right_info :: "('s, 'i, 'o) Model \<Rightarrow> ('i, 'o) entry list list \<Rightarrow> CheckResult \<Rightarrow> ('i, 'o) linearizationInfo \<Rightarrow> bool" where
  "right_info model l r info \<longleftrightarrow> li_history info = l \<and> length (partialLinearizations info) = length l \<and>
     (\<forall>i<length l. \<forall>ids\<in>partialLinearizations info ! i.
        partial_lin model (l ! i) ids \<and> (r = Ok \<longrightarrow> length ids = nOps (l ! i)))"

lemma gatherInfo_ok:
  assumes "\<And>i. i \<in> set is \<Longrightarrow> res i = Inr (Some (b i, lg i))"
  shows "gatherInfo res is = Inr (Some (map (\<lambda>i. partials (lg i)) is))"
  using assms by (induction "is") auto

lemma partials_ok:
  assumes "longest_ok model hs lg" and "ids \<in> partials lg"
  shows "partial_lin model hs ids"
proof -
  obtain i where "i < length lg" "lg ! i = Some ids" using assms(2) by (auto simp: partials_def in_set_conv_nth)
  then show ?thesis using assms(1) by (simp add: longest_ok_def)
qed

lemma found_partials:
  assumes "found model hs lg" and "ids \<in> partials lg"
  shows "length ids = nOps hs"
proof -
  obtain seq where seq: "linearization (nOps hs) (before hs) model (inputAt hs) (outputAt hs) seq"
    "lg = replicate (nOps hs) (Some (map int seq))" using assms(1) by (auto simp: found_def)
  have "length seq = nOps hs" using seq(1) distinct_card [of seq] by (simp add: linearization_def)
  moreover have "ids = map int seq" using assms(2) seq(2) by (auto simp: partials_def)
  ultimately show ?thesis by simp
qed

lemma checkParallel_correct:
  assumes wf: "\<forall>hs\<in>set l. wf_history hs" and eq: "Equal model = (=)" and sch: "schedule (length l) ars"
  shows "\<exists>fuel0. \<forall>fuel\<ge>fuel0. \<exists>r. checkParallel fuel kills model l ci ars = Inr r \<and>
    right_result (full_schedule (length l) ars \<and> l \<noteq> []) (\<forall>hs\<in>set l. linearizable model hs) (map_option fst r) \<and>
    (\<forall>v info. ci \<and> r = Some (v, info) \<longrightarrow> right_info model l v info)"
proof -
  let ?n = "length l" and ?b = "\<lambda>i. linearizable model (l ! i)"
  obtain fuel0 where f: "\<forall>fuel\<ge>fuel0. \<forall>hs\<in>set l. \<exists>lg. checkSingle fuel (\<lambda>_. False) model hs ci = Inr (Some (linearizable model hs, lg))"
    using checkSingle_all [OF wf eq] by blast
  let ?c = "collect ci ?n 0 True (arrived ?b ars)"
  note right = collect_right [OF sch, where b = ?b and ci = ci]
  have all: "(\<forall>hs\<in>set l. linearizable model hs) \<longleftrightarrow> (\<forall>i<?n. ?b i)" by (simp add: all_set_conv_all_nth)
  have run: "\<exists>r. checkParallel fuel kills model l ci ars = Inr r \<and> map_option fst r = map_option verdict ?c \<and>
      (\<forall>v info. ci \<and> r = Some (v, info) \<longrightarrow> right_info model l v info)" if "fuel0 \<le> fuel" for fuel
  proof -
    let ?single = "\<lambda>i. checkSingle fuel (if inTime ars i then (\<lambda>_. False) else kills i) model (l ! i) ci"
    have d: "deliver (\<lambda>i. checkSingle fuel (\<lambda>_. False) model (l ! i) ci) ars = Inr (Some (arrived ?b ars))"
      using f that sch by (intro deliver_ok) (auto simp: schedule_def list_all_iff)
    have "\<exists>b lg. ?single i = Inr (Some (b, lg)) \<and> longest_ok model (l ! i) lg \<and> (inTime ars i \<and> ?b i \<longrightarrow> found model (l ! i) lg)"
      if i: "i < ?n" for i
    proof -
      have wfi: "wf_history (l ! i)" using wf i by simp
      obtain lg where lg: "checkSingle fuel (\<lambda>_. False) model (l ! i) ci = Inr (Some (?b i, lg))"
        using f \<open>fuel0 \<le> fuel\<close> i by force
      obtain r where r: "?single i = Inr r" "\<forall>lg. r = Some (True, lg) \<longrightarrow> found model (l ! i) lg"
        "\<forall>b lg. r = Some (b, lg) \<longrightarrow> longest_ok model (l ! i) lg"
        using checkSingle_sound [OF wfi eq] by blast
      have "r \<noteq> None" using checkSingle_kill [OF lg r(1)] .
      moreover have "r = Some (?b i, lg)" if "inTime ars i" using r(1) lg that by simp
      ultimately show ?thesis using r by auto
    qed
    then obtain b lg where single: "\<And>i. i < ?n \<Longrightarrow> ?single i = Inr (Some (b i, lg i))"
      "\<And>i. i < ?n \<Longrightarrow> longest_ok model (l ! i) (lg i)"
      "\<And>i. i < ?n \<Longrightarrow> inTime ars i \<Longrightarrow> ?b i \<Longrightarrow> found model (l ! i) (lg i)"
      by metis
    have g: "gatherInfo ?single [0..<?n] = Inr (Some (map (\<lambda>i. partials (lg i)) [0..<?n]))"
      using single(1) by (intro gatherInfo_ok) simp
    let ?info = "\<lparr>li_history = l, partialLinearizations = map (\<lambda>i. partials (lg i)) [0..<?n]\<rparr>"
    have "right_info model l (verdict c) ?info" if c: "?c = Some c" for c
    proof -
      have "length ids = nOps (l ! i)" if "verdict c = Ok" "i < ?n" "ids \<in> partials (lg i)" for i ids
        using right c that by (intro found_partials [OF single(3)]) (simp_all add: right_result_def)
      moreover have "partial_lin model (l ! i) ids" if "i < ?n" "ids \<in> partials (lg i)" for i ids
        by (rule partials_ok [OF single(2) [OF that(1)] that(2)])
      ultimately show ?thesis by (simp add: right_info_def)
    qed
    then show ?thesis using d g by (cases ?c) (auto simp: checkParallel_def)
  qed
  have res: "right_result (full_schedule ?n ars \<and> l \<noteq> []) (\<forall>hs\<in>set l. linearizable model hs) (map_option verdict ?c)"
    using right(1) unfolding all by simp
  show ?thesis
  proof (intro exI [of _ fuel0] allI impI)
    fix fuel assume "fuel0 \<le> fuel"
    from run [OF this] obtain r where "checkParallel fuel kills model l ci ars = Inr r" "map_option fst r = map_option verdict ?c"
      "\<forall>v info. ci \<and> r = Some (v, info) \<longrightarrow> right_info model l v info" by blast
    then show "\<exists>r. checkParallel fuel kills model l ci ars = Inr r \<and>
        right_result (full_schedule ?n ars \<and> l \<noteq> []) (\<forall>hs\<in>set l. linearizable model hs) (map_option fst r) \<and>
        (\<forall>v info. ci \<and> r = Some (v, info) \<longrightarrow> right_info model l v info)"
      using res by (intro exI [of _ r]) simp
  qed
qed

end
