(* ===== verification/Porcupine_KV.thy ===== *)
theory Porcupine_KV
  imports Porcupine_Ops "HOL-Library.AList" "HOL-Library.Char_ord" "HOL-Library.List_Lexorder"
begin

text \<open>
  The model of the key/value service, \<^verbatim>\<open>models/kv.go\<close>: the state of one key, with the history split
  by key. A history is linearizable for a store with all keys exactly when every part is for one key.
\<close>

record KvInput =
  kv_Op :: "8 word"
  kv_Key :: string
  kv_Value :: string

record KvOutput =
  kv_Out :: string

type_synonym kvOperation = "(KvInput, KvOutput) Operation"

definition getKey :: "(string \<times> kvOperation list) list \<Rightarrow> string \<Rightarrow> kvOperation list" where
  "getKey m k = (case map_of m k of None \<Rightarrow> [] | Some vs \<Rightarrow> vs)"

text \<open>The map from keys to operations is an association list; its keys are sorted before they are used.\<close>

definition KvPartition :: "kvOperation list \<Rightarrow> kvOperation list list" where
  "KvPartition history =
     (let m = fold (\<lambda>v m. let key = kv_Key (Input v) in AList.update key (getKey m key @ [v]) m) history [];
          keys = sort (map fst m)
      in map (getKey m) keys)"

definition KvStep :: "string \<Rightarrow> KvInput \<Rightarrow> KvOutput \<Rightarrow> bool \<times> string" where
  "KvStep st inp out =
     (if kv_Op inp = 0 then (kv_Out out = st, st)
      else if kv_Op inp = 1 then (True, kv_Value inp)
      else (True, st @ kv_Value inp))"

definition KvModel :: "(string, KvInput, KvOutput) ModelArg" where
  "KvModel = \<lparr>Partition_arg = Some KvPartition, PartitionEvent_arg = None, Init_arg = '''',
     Step_arg = KvStep, Equal_arg = None\<rparr>"

subsection \<open>The partition\<close>

abbreviation keyOf :: "kvOperation \<Rightarrow> string" where
  "keyOf v \<equiv> kv_Key (Input v)"

lemma getKey_update: "getKey (AList.update k vs m) k' = (if k' = k then vs else getKey m k')"
  by (simp add: getKey_def update_conv')

lemma KvPartition_loop:
  fixes history :: "kvOperation list"
  defines "m \<equiv> fold (\<lambda>v m. let key = keyOf v in AList.update key (getKey m key @ [v]) m) history []"
  shows "getKey m k = filter (\<lambda>v. keyOf v = k) history" "distinct (map fst m)" "set (map fst m) = keyOf ` set history"
  unfolding m_def
  by (induction history rule: rev_induct) (auto simp: getKey_update Let_def distinct_update dom_update, simp add: getKey_def)

definition keysOf :: "kvOperation list \<Rightarrow> string list" where
  "keysOf history = sort (remdups (map keyOf history))"

lemma KvPartition_eq: "KvPartition history = map (\<lambda>k. filter (\<lambda>v. keyOf v = k) history) (keysOf history)"
proof -
  let ?m = "fold (\<lambda>v m. let key = keyOf v in AList.update key (getKey m key @ [v]) m) history []"
  have "sort (map fst ?m) = keysOf history"
    unfolding keysOf_def using KvPartition_loop(2,3) [of history]
    by (intro sorted_distinct_set_unique) auto
  moreover have "getKey ?m = (\<lambda>k. filter (\<lambda>v. keyOf v = k) history)" using KvPartition_loop(1) by blast
  ultimately show ?thesis by (simp add: KvPartition_def Let_def)
qed

lemma keysOf_simps [simp]: "set (keysOf history) = keyOf ` set history" "distinct (keysOf history)"
  by (simp_all add: keysOf_def)

subsection \<open>A store with all keys\<close>

definition kvStore :: "(string \<Rightarrow> string, KvInput, KvOutput) Model" where
  "kvStore = \<lparr>Partition = NoPartition, PartitionEvent = NoPartitionEvent, Init = (\<lambda>_. ''''),
     Step = (\<lambda>m inp out. case KvStep (m (kv_Key inp)) inp out of (ok, st) \<Rightarrow> (ok, m(kv_Key inp := st))), Equal = (=)\<rparr>"

lemma legal_store:
  "legal_ops kvStore m vs \<longleftrightarrow> (\<forall>k. legal_ops (fillDefault KvModel) (m k) (filter (\<lambda>v. keyOf v = k) vs))"
proof (induction vs arbitrary: m)
  case (Cons v vs)
  obtain ok st where s: "KvStep (m (keyOf v)) (Input v) (Output v) = (ok, st)" by fastforce
  have "legal_ops kvStore m (v # vs) \<longleftrightarrow> ok \<and> legal_ops kvStore (m(keyOf v := st)) vs"
    using s by (simp add: kvStore_def)
  also have "\<dots> \<longleftrightarrow> (\<forall>k. legal_ops (fillDefault KvModel) (m k) (filter (\<lambda>w. keyOf w = k) (v # vs)))"
    unfolding Cons using s by (auto simp: fillDefault_def KvModel_def)
  finally show ?case .
qed simp

subsection \<open>Points of linearization\<close>

text \<open>In an order that respects real time every operation can be given a point between its call and
  its return so that the points do not decrease.\<close>

fun withPoints :: "int \<Rightarrow> ('i, 'o) Operation list \<Rightarrow> (('i, 'o) Operation \<times> int) list" where
  "withPoints t [] = []"
| "withPoints t (v # vs) = (v, max t (Call v)) # withPoints (max t (Call v)) vs"

lemma withPoints_fst [simp]: "map fst (withPoints t vs) = vs"
  by (induction vs arbitrary: t) auto

lemma withPoints_ok:
  assumes "real_time vs" and "\<forall>v\<in>set vs. Call v \<le> Return v \<and> t \<le> Return v"
  shows "sorted (map snd (withPoints t vs)) \<and>
    (\<forall>(v, p)\<in>set (withPoints t vs). t \<le> p \<and> Call v \<le> p \<and> p \<le> Return v)"
  using assms
proof (induction vs arbitrary: t)
  case (Cons v vs)
  let ?t = "max t (Call v)"
  have "sorted (map snd (withPoints ?t vs)) \<and> (\<forall>(v, p)\<in>set (withPoints ?t vs). ?t \<le> p \<and> Call v \<le> p \<and> p \<le> Return v)"
    using Cons.prems by (intro Cons.IH) (auto simp: real_time_def)
  then show ?case using Cons.prems(2) by fastforce
qed simp

lemma points_exist:
  assumes "real_time vs" and "valid_times vs"
  shows "\<exists>ps. map fst ps = vs \<and> sorted (map snd ps) \<and> (\<forall>(v, p)\<in>set ps. Call v \<le> p \<and> p \<le> Return v)"
proof (cases vs)
  case (Cons v vs')
  have "sorted (map snd (withPoints (Call v) vs)) \<and> (\<forall>(w, p)\<in>set (withPoints (Call v) vs). Call v \<le> p \<and> Call w \<le> p \<and> p \<le> Return w)"
    using assms by (intro withPoints_ok) (auto simp: Cons real_time_def valid_times_def list_all_iff not_less)
  then show ?thesis by (intro exI [of _ "withPoints (Call v) vs"]) auto
qed simp

subsection \<open>The parts and the whole\<close>

lemma concat_single: "distinct ks \<Longrightarrow> concat (map (\<lambda>k'. if k' = k then xs else []) ks) = (if k \<in> set ks then xs else [])"
  by (induction ks) auto

lemma filter_merged:
  assumes "distinct ks" and "\<And>k v p. (v, p) \<in> set (ps k) \<Longrightarrow> keyOf v = k" and "sorted (map snd (ps k))" and "k \<notin> set ks \<Longrightarrow> ps k = []"
  shows "filter (\<lambda>v. keyOf v = k) (map fst (sort_key snd (concat (map ps ks)))) = map fst (ps k)"
proof -
  have part: "filter ((\<lambda>v. keyOf v = k) \<circ> fst) (ps k') = (if k' = k then ps k else [])" for k'
    using assms(2) by (auto simp: filter_empty_conv intro!: filter_True)
  have "filter (\<lambda>v. keyOf v = k) (map fst (sort_key snd (concat (map ps ks)))) =
      map fst (sort_key snd (concat (map (\<lambda>k'. if k' = k then ps k else []) ks)))"
    by (simp add: filter_map filter_sort filter_concat part comp_def [of "filter _" ps])
  also have "\<dots> = map fst (sort_key snd (ps k))" using concat_single [OF assms(1), of k "ps k"] assms(4) by auto
  finally show ?thesis using assms(3) by (simp add: sort_key_id_if_sorted)
qed

lemma mset_by_key:
  assumes "\<And>k. mset (filter (\<lambda>v. keyOf v = k) vs) = mset (filter (\<lambda>v. keyOf v = k) ws)"
  shows "mset vs = mset ws"
proof (rule multiset_eqI)
  fix v
  have "count (filter_mset (\<lambda>w. keyOf w = keyOf v) (mset vs)) v = count (filter_mset (\<lambda>w. keyOf w = keyOf v) (mset ws)) v"
    using assms [of "keyOf v"] by (metis mset_filter)
  then show "count (mset vs) v = count (mset ws) v" by simp
qed

text \<open>An order of the operations of one key with points.\<close>

definition points_of :: "kvOperation list \<Rightarrow> string \<Rightarrow> (kvOperation \<times> int) list \<Rightarrow> bool" where
  "points_of history k ps \<longleftrightarrow>
     mset (map fst ps) = mset (filter (\<lambda>v. keyOf v = k) history) \<and> legal_ops (fillDefault KvModel) '''' (map fst ps) \<and>
     sorted (map snd ps) \<and> (\<forall>x\<in>set ps. Call (fst x) \<le> snd x \<and> snd x \<le> Return (fst x))"

lemma points_of_part:
  assumes "valid_times history" and "op_linearizable (fillDefault KvModel) (filter (\<lambda>v. keyOf v = k) history)"
  shows "\<exists>ps. points_of history k ps"
proof -
  obtain vs where vs: "mset vs = mset (filter (\<lambda>v. keyOf v = k) history)" "real_time vs" "legal_ops (fillDefault KvModel) '''' vs"
    using assms(2) by (auto simp: op_linearizable_def fillDefault_def KvModel_def)
  have "valid_times vs" using assms(1) mset_eq_setD [OF vs(1)] by (simp add: valid_times_def list_all_iff)
  from points_exist [OF vs(2) this] obtain ps where
    "map fst ps = vs" "sorted (map snd ps)" "\<forall>(v, p)\<in>set ps. Call v \<le> p \<and> p \<le> Return v" by blast
  then show ?thesis unfolding points_of_def using vs by (intro exI [of _ ps]) auto
qed

lemma points_of_key:
  assumes "points_of history k ps"
  shows "x \<in> set ps \<Longrightarrow> keyOf (fst x) = k" "k \<notin> set (keysOf history) \<Longrightarrow> ps = []"
proof -
  have m: "mset (map fst ps) = mset (filter (\<lambda>v. keyOf v = k) history)" using assms by (simp add: points_of_def)
  show "keyOf (fst x) = k" if "x \<in> set ps"
  proof -
    have "fst x \<in> set (map fst ps)" using that by simp
    then show ?thesis unfolding mset_eq_setD [OF m] by simp
  qed
  show "ps = []" if "k \<notin> set (keysOf history)"
  proof -
    have "filter (\<lambda>v. keyOf v = k) history = []" using that by (auto simp: filter_empty_conv)
    then have "mset (map fst ps) = {#}" using m by simp
    then show ?thesis by simp
  qed
qed

text \<open>All operations in the order of their points.\<close>

lemma merge_points:
  assumes ps: "\<And>k. points_of history k (ps k)"
  defines "merged \<equiv> sort_key snd (concat (map ps (keysOf history)))"
  shows "mset (map fst merged) = mset history" "legal_ops kvStore (Init kvStore) (map fst merged)" "real_time (map fst merged)"
proof -
  have f: "filter (\<lambda>v. keyOf v = k) (map fst merged) = map fst (ps k)" for k
    unfolding merged_def
  proof (rule filter_merged)
    show "keyOf v = k" if "(v, p) \<in> set (ps k)" for k v p using points_of_key(1) [OF ps that] by simp
    show "sorted (map snd (ps k))" using ps [of k] by (simp add: points_of_def)
    show "ps k = []" if "k \<notin> set (keysOf history)" by (rule points_of_key(2) [OF ps that])
  qed simp
  show "mset (map fst merged) = mset history"
    by (rule mset_by_key) (use ps in \<open>simp only: f points_of_def\<close>)
  show "legal_ops kvStore (Init kvStore) (map fst merged)"
    unfolding legal_store f using ps by (simp add: kvStore_def points_of_def)
  have pt: "Call (fst x) \<le> snd x \<and> snd x \<le> Return (fst x)" if "x \<in> set merged" for x
  proof -
    from that obtain k where k: "x \<in> set (ps k)" unfolding merged_def by auto
    from ps [of k] show ?thesis using k unfolding points_of_def by blast
  qed
  have "sorted_wrt (\<lambda>x y. snd x \<le> snd y) merged"
    using sorted_sort_key [of snd "concat (map ps (keysOf history))"] by (simp only: merged_def sorted_map)
  then show "real_time (map fst merged)" unfolding real_time_def sorted_wrt_map
  proof (rule sorted_wrt_mono_rel [rotated])
    fix x y assume "x \<in> set merged" "y \<in> set merged" "snd x \<le> snd y"
    then show "\<not> Return (fst y) < Call (fst x)" using pt [of x] pt [of y] by linarith
  qed
qed

lemma merge_parts:
  assumes "valid_times history" and "\<And>k. op_linearizable (fillDefault KvModel) (filter (\<lambda>v. keyOf v = k) history)"
  shows "op_linearizable kvStore history"
proof -
  have "\<forall>k. \<exists>ps. points_of history k ps" using points_of_part assms by blast
  then obtain ps where "\<And>k. points_of history k (ps k)" by metis
  from merge_points [OF this] show ?thesis unfolding op_linearizable_def by blast
qed

lemma split_whole:
  assumes "op_linearizable kvStore history"
  shows "op_linearizable (fillDefault KvModel) (filter (\<lambda>v. keyOf v = k) history)"
proof -
  obtain vs where vs: "mset vs = mset history" "real_time vs" "legal_ops kvStore (Init kvStore) vs"
    using assms by (auto simp: op_linearizable_def)
  have "legal_ops (fillDefault KvModel) (Init kvStore k) (filter (\<lambda>v. keyOf v = k) vs)" using vs(3) unfolding legal_store by blast
  moreover have "real_time (filter (\<lambda>v. keyOf v = k) vs)" using vs(2) by (simp add: real_time_def sorted_wrt_filter)
  moreover have "mset (filter (\<lambda>v. keyOf v = k) vs) = mset (filter (\<lambda>v. keyOf v = k) history)" using vs(1) by (metis mset_filter)
  ultimately show ?thesis unfolding op_linearizable_def
    by (intro exI [of _ "filter (\<lambda>v. keyOf v = k) vs"]) (simp add: kvStore_def fillDefault_def KvModel_def)
qed

lemma locality:
  assumes "valid_times history"
  shows "(\<forall>part\<in>set (KvPartition history). op_linearizable (fillDefault KvModel) part) \<longleftrightarrow> op_linearizable kvStore history"
proof
  assume p: "\<forall>part\<in>set (KvPartition history). op_linearizable (fillDefault KvModel) part"
  have "op_linearizable (fillDefault KvModel) (filter (\<lambda>v. keyOf v = k) history)" for k
  proof (cases "k \<in> keyOf ` set history")
    case False
    then have "filter (\<lambda>v. keyOf v = k) history = []" by (auto simp: filter_empty_conv)
    then show ?thesis by (auto simp: op_linearizable_def real_time_def intro!: exI [of _ "[]"])
  qed (use p in \<open>auto simp: KvPartition_eq\<close>)
  then show "op_linearizable kvStore history" by (rule merge_parts [OF assms])
next
  assume "op_linearizable kvStore history"
  then show "\<forall>part\<in>set (KvPartition history). op_linearizable (fillDefault KvModel) part"
    using split_whole by (auto simp: KvPartition_eq)
qed

end
