(* ===== verification/Porcupine_Props.thy ===== *)
theory Porcupine_Props
  imports Porcupine_KV "HOL-Library.Product_Lexorder"
begin

text \<open>
  The properties of the linearizability checker and of its use with the key/value model.
\<close>

text \<open>A sort by time: at the same time calls come before returns.\<close>

definition byTimeSort :: "('i, 'o) entry list \<Rightarrow> ('i, 'o) entry list" where
  "byTimeSort = sort_key (\<lambda>e. (e_time e, if kind e = callEntry then 0 else (1 :: nat)))"

lemma sorts_byTimeSort: "sorts_by_time byTimeSort"
proof -
  let ?k = "\<lambda>e :: ('a, 'b) entry. (e_time e, if kind e = callEntry then 0 else (1 :: nat))"
  have less: "\<not> byTime_Less b a \<longleftrightarrow> ?k a \<le> ?k b" for a b :: "('a, 'b) entry"
    by (cases "kind a"; cases "kind b") (auto simp: byTime_Less_def)
  have "sorted_wrt (\<lambda>a b. ?k a \<le> ?k b) (sort_key ?k es)" for es :: "('a, 'b) entry list"
    using sorted_sort_key [of ?k es] by (simp add: sorted_map)
  then show ?thesis unfolding sorts_by_time_def byTimeSort_def less by (simp only: mset_sort simp_thms)
qed

lemma fillDefault_Kv: "Equal (fillDefault KvModel) = (=)" "Partition (fillDefault KvModel) = KvPartition"
  by (auto simp: fillDefault_def KvModel_def ShallowEqual_def fun_eq_iff)

lemma KvPartition_Nil: "KvPartition history = [] \<longleftrightarrow> history = []"
  by (metis KvPartition_eq keysOf_simps(1) Nil_is_map_conv image_is_empty set_empty)

lemma valid_times_part: "valid_times history \<Longrightarrow> part \<in> set (KvPartition history) \<Longrightarrow> valid_times part"
  by (auto simp: KvPartition_eq valid_times_def list_all_iff)

text \<open>The check of all parts, with the results of the searches put together by locality.\<close>

lemma kv_check_correct:
  assumes "sorts_by_time srt" and "valid_times history" and "schedule (length (KvPartition history)) ars"
  shows "\<exists>fuel0. \<forall>fuel\<ge>fuel0. \<exists>r. checkOperations fuel kills srt KvModel history verbose ars = Inr r \<and>
    (map_option fst r = Some Ok \<longrightarrow> op_linearizable kvStore history) \<and>
    (map_option fst r = Some Illegal \<longrightarrow> \<not> op_linearizable kvStore history) \<and>
    (full_schedule (length (KvPartition history)) ars \<and> history \<noteq> [] \<longrightarrow>
       map_option fst r = Some (if op_linearizable kvStore history then Ok else Illegal)) \<and>
    (\<forall>v info. verbose \<and> r = Some (v, info) \<longrightarrow>
       right_info (fillDefault KvModel) (map (makeEntries srt) (KvPartition history)) v info)"
proof -
  let ?l = "map (makeEntries srt) (KvPartition history)"
  have wf: "\<forall>hs\<in>set ?l. wf_history hs"
    using makeEntries_wf [OF assms(1)] valid_times_part [OF assms(2)] by auto
  have sch: "schedule (length ?l) ars" using assms(3) by simp
  have lin: "(\<forall>hs\<in>set ?l. linearizable (fillDefault KvModel) hs) \<longleftrightarrow> op_linearizable kvStore history"
    using linearizable_ops [OF assms(1)] locality [OF assms(2)] by auto
  show ?thesis
    using checkParallel_correct [OF wf fillDefault_Kv(1) sch, of kills verbose]
    unfolding checkOperations_def fillDefault_Kv right_result_def lin Let_def by (simp add: KvPartition_Nil)
qed

text \<open>
  C5: the check of a history of the key/value service is right: if the searches of the parts have
  enough rounds, \<open>Ok\<close> means that the history is linearizable for a store with all keys and \<open>Illegal\<close> that
  it is not, in whatever order the parts finish and whether the timer fires or not; when all parts
  finish, the result is one of the two. The lists it gives for the visualization are partial
  linearizations of their parts, and whole ones when the result is \<open>Ok\<close>.
\<close>

theorem kv_check_right:
  assumes "sorts_by_time srt" and "valid_times history" and "schedule (length (KvPartition history)) ars"
  shows "\<exists>fuel0. \<forall>fuel\<ge>fuel0. \<exists>r. checkOperations fuel kills srt KvModel history verbose ars = Inr r \<and>
    (map_option fst r = Some Ok \<longrightarrow> op_linearizable kvStore history) \<and>
    (map_option fst r = Some Illegal \<longrightarrow> \<not> op_linearizable kvStore history) \<and>
    (full_schedule (length (KvPartition history)) ars \<and> history \<noteq> [] \<longrightarrow>
       map_option fst r = Some (if op_linearizable kvStore history then Ok else Illegal)) \<and>
    (\<forall>v info. verbose \<and> r = Some (v, info) \<longrightarrow>
       right_info (fillDefault KvModel) (map (makeEntries srt) (KvPartition history)) v info)"
  by (rule kv_check_correct [OF assms])

text \<open>A put of x and a get that overlaps it and sees the old value, on one key, and a put on another.\<close>

definition demoHistory :: "kvOperation list" where
  "demoHistory =
     [\<lparr>op_ClientId = 0, Input = \<lparr>kv_Op = 1, kv_Key = ''a'', kv_Value = ''x''\<rparr>, Call = 0, Output = \<lparr>kv_Out = ''''\<rparr>, Return = 9\<rparr>,
      \<lparr>op_ClientId = 1, Input = \<lparr>kv_Op = 0, kv_Key = ''a'', kv_Value = ''''\<rparr>, Call = 4, Output = \<lparr>kv_Out = ''''\<rparr>, Return = 6\<rparr>,
      \<lparr>op_ClientId = 2, Input = \<lparr>kv_Op = 2, kv_Key = ''b'', kv_Value = ''y''\<rparr>, Call = 1, Output = \<lparr>kv_Out = ''''\<rparr>, Return = 2\<rparr>]"

lemma demo_parts: "length (KvPartition demoHistory) = 2"
  by (simp add: KvPartition_eq keysOf_def demoHistory_def)

lemma demo_linearizable: "op_linearizable kvStore demoHistory"
  unfolding op_linearizable_def
  by (rule exI [of _ "[demoHistory ! 2, demoHistory ! 1, demoHistory ! 0]"])
    (simp add: demoHistory_def real_time_def kvStore_def KvStep_def)

theorem kv_check_right_witness:
  "\<exists>fuel0. \<forall>fuel\<ge>fuel0. \<exists>info. checkOperations fuel (\<lambda>_ _. False) byTimeSort KvModel demoHistory True [Part 1, Part 0] = Inr (Some (Ok, info)) \<and>
     right_info (fillDefault KvModel) (map (makeEntries byTimeSort) (KvPartition demoHistory)) Ok info"
proof -
  let ?ars = "[Part 1, Part 0]"
  have s: "schedule (length (KvPartition demoHistory)) ?ars" "full_schedule (length (KvPartition demoHistory)) ?ars"
    by (simp_all add: demo_parts schedule_def full_schedule_def)
  have h: "valid_times demoHistory" "demoHistory \<noteq> []" by (simp_all add: demoHistory_def valid_times_def)
  from kv_check_right [OF sorts_byTimeSort h(1) s(1), of "\<lambda>_ _. False" True] demo_linearizable s(2) h(2)
  show ?thesis by (auto elim!: ex_forward all_forward imp_forward)
qed

text \<open>
  C6: a search of one part ends, without a panic; it gives \<open>True\<close> exactly when the entries have a
  linearization, and then the list it returns for every operation is one.
\<close>

theorem checkSingle_right:
  assumes "wf_history hs" and "Equal model = (=)"
  shows "\<exists>fuel0 r lg. (\<forall>fuel\<ge>fuel0. checkSingle fuel (\<lambda>_. False) model hs computePartial = Inr (Some (r, lg))) \<and>
    (r \<longleftrightarrow> (\<exists>seq. linearization (nOps hs) (before hs) model (inputAt hs) (outputAt hs) seq)) \<and>
    (r \<longrightarrow> (\<exists>seq. linearization (nOps hs) (before hs) model (inputAt hs) (outputAt hs) seq \<and>
       lg = replicate (nOps hs) (Some (map int seq))))"
proof -
  obtain fuel0 r lg where "\<forall>fuel\<ge>fuel0. checkSingle fuel (\<lambda>_. False) model hs computePartial = Inr (Some (r, lg))"
    "if r then found model hs lg else \<not> linearizable model hs"
    using checkSingle_total [OF assms] by blast
  then show ?thesis by (intro exI [of _ fuel0] exI [of _ r] exI [of _ lg]) (auto simp: found_def linearizable_def split: if_splits)
qed

theorem checkSingle_right_witness:
  "\<exists>fuel0 r lg. (\<forall>fuel\<ge>fuel0. checkSingle fuel (\<lambda>_. False) (fillDefault KvModel) (makeEntries byTimeSort (take 1 demoHistory)) True = Inr (Some (r, lg))) \<and> r"
proof -
  let ?hs = "makeEntries byTimeSort (take 1 demoHistory)"
  have wf: "wf_history ?hs"
    by (rule makeEntries_wf [OF sorts_byTimeSort]) (simp add: demoHistory_def valid_times_def)
  have "op_linearizable (fillDefault KvModel) (take 1 demoHistory)" unfolding op_linearizable_def
    by (rule exI [of _ "take 1 demoHistory"]) (simp add: demoHistory_def real_time_def fillDefault_def KvModel_def KvStep_def)
  then have "linearizable (fillDefault KvModel) ?hs" by (simp add: linearizable_ops [OF sorts_byTimeSort])
  then show ?thesis
    using checkSingle_right [OF wf fillDefault_Kv(1), of True] unfolding linearizable_def by blast
qed

text \<open>
  A search that is told to stop at any moment still does not panic, and does not claim a
  linearization that it has not found.
\<close>

theorem checkSingle_killed:
  assumes "wf_history hs" and "Equal model = (=)" and "\<not> linearizable model hs"
  shows "\<exists>r. checkSingle fuel kill model hs computePartial = Inr r \<and> (\<forall>lg. r \<noteq> Some (True, lg))"
  using checkSingle_sound [OF assms(1,2), of fuel kill computePartial] assms(3)
  unfolding found_def linearizable_def by blast

text \<open>A get that sees a value nobody wrote.\<close>

definition badHistory :: "kvOperation list" where
  "badHistory = [\<lparr>op_ClientId = 0, Input = \<lparr>kv_Op = 0, kv_Key = ''a'', kv_Value = ''''\<rparr>, Call = 0, Output = \<lparr>kv_Out = ''z''\<rparr>, Return = 1\<rparr>]"

theorem checkSingle_killed_witness:
  "\<exists>r. checkSingle 3 (\<lambda>i. i = 1) (fillDefault KvModel) (makeEntries byTimeSort badHistory) False = Inr r \<and> (\<forall>lg. r \<noteq> Some (True, lg))"
proof (rule checkSingle_killed)
  show "wf_history (makeEntries byTimeSort badHistory)"
    by (rule makeEntries_wf [OF sorts_byTimeSort]) (simp add: badHistory_def valid_times_def)
  show "\<not> linearizable (fillDefault KvModel) (makeEntries byTimeSort badHistory)"
    unfolding linearizable_ops [OF sorts_byTimeSort]
    by (auto simp: op_linearizable_def badHistory_def fillDefault_def KvModel_def KvStep_def)
qed (rule fillDefault_Kv)

text \<open>
  Lifting a call takes its two entries out of the linked list and leaves the rest in order, and
  \<open>unlift\<close> then puts every node back as it was.
\<close>

theorem lift_unlift:
  assumes "chain h (A @ p # e # M @ m # B)" and "n_match (h e) = Some m"
  shows "\<exists>h'. lift e h = Inr h' \<and> chain h' (A @ p # M @ B) \<and> unlift e h' = Inr h"
  using lift_chain [OF assms] by blast

theorem lift_unlift_witness:
  "\<exists>h'. lift 1 (initStore (makeEntries byTimeSort badHistory)) = Inr h' \<and> chain h' [0] \<and>
     unlift 1 h' = Inr (initStore (makeEntries byTimeSort badHistory))"
proof -
  let ?h = "initStore (makeEntries byTimeSort badHistory)"
  have wf: "wf_history (makeEntries byTimeSort badHistory)"
    by (rule makeEntries_wf [OF sorts_byTimeSort]) (simp add: badHistory_def valid_times_def)
  have e: "length (makeEntries byTimeSort badHistory) = 2" "callAddr (makeEntries byTimeSort badHistory) 0 = 1"
      "returnAddr (makeEntries byTimeSort badHistory) 0 = 2" "nOps (makeEntries byTimeSort badHistory) = 1"
    by (simp_all add: makeEntries_def badHistory_def byTimeSort_def callAddr_def returnAddr_def firstAt_def isCall_def isReturn_def nOps_def)
  have "n_match (?h 1) = Some 2" using data_okD(1) [OF initStore_ok(2) [OF wf], of 0] e by simp
  moreover have "chain ?h ([] @ 0 # 1 # [] @ 2 # [])" using initStore_ok(1) [OF wf] e by (simp add: numeral_2_eq_2)
  ultimately show ?thesis using lift_unlift [of ?h "[]" 0 1 "[]" 2 "[]"] by simp
qed

text \<open>
  C40: the check of an empty history hangs. Without a timeout, the check of a history can return, for some fuel and some
  order in which its parts finish, exactly if the history is not empty: an empty one has no parts, and the loop that collects
  the results waits for one that never comes. With a timeout the result is \<open>Unknown\<close> once the timer has fired, although the
  empty history is linearizable.
\<close>

theorem empty_history_hangs:
  assumes "sorts_by_time srt" and "valid_times history"
  shows "((\<exists>fuel parts b. schedule (length (KvPartition history)) (map Part parts) \<and>
       CheckOperations fuel kills srt KvModel history parts = Inr (Some b)) \<longleftrightarrow> history \<noteq> []) \<and>
    (\<forall>fuel ars. schedule (length (KvPartition [])) ars \<longrightarrow>
       CheckOperationsTimeout fuel kills srt KvModel [] ars = Inr (if Timer \<in> set ars then Some Unknown else None)) \<and>
    op_linearizable kvStore []"
proof (intro conjI)
  have nil: "CheckOperationsTimeout fuel kills srt KvModel [] ars = Inr (if Timer \<in> set ars then Some Unknown else None)"
    if "schedule (length (KvPartition [])) ars" for fuel ars
  proof -
    have p: "partsOf ars = []" using that by (cases "partsOf ars") (auto simp: schedule_def KvPartition_eq keysOf_def)
    then have "ars = [] \<or> (\<exists>ars'. ars = Timer # ars')" by (cases ars rule: partsOf.cases) auto
    then show ?thesis
      by (auto simp: CheckOperationsTimeout_def checkOperations_def fillDefault_Kv KvPartition_eq keysOf_def
          checkParallel_def verdict_def)
  qed
  then show "\<forall>fuel ars. schedule (length (KvPartition [])) ars \<longrightarrow>
      CheckOperationsTimeout fuel kills srt KvModel [] ars = Inr (if Timer \<in> set ars then Some Unknown else None)"
    by blast
  show "(\<exists>fuel parts b. schedule (length (KvPartition history)) (map Part parts) \<and>
      CheckOperations fuel kills srt KvModel history parts = Inr (Some b)) \<longleftrightarrow> history \<noteq> []"
  proof (rule iffI)
    assume "\<exists>fuel parts b. schedule (length (KvPartition history)) (map Part parts) \<and>
      CheckOperations fuel kills srt KvModel history parts = Inr (Some b)"
    then obtain fuel parts b where c: "schedule (length (KvPartition history)) (map Part parts)"
      "CheckOperations fuel kills srt KvModel history parts = Inr (Some b)" by blast
    show "history \<noteq> []"
    proof
      assume h: "history = []"
      then have "parts = []" using c(1) by (cases parts) (auto simp: schedule_def KvPartition_eq keysOf_def)
      then show False
        using c(2) h by (simp add: CheckOperations_def checkOperations_def fillDefault_Kv KvPartition_eq keysOf_def checkParallel_def)
    qed
  next
    assume h: "history \<noteq> []"
    let ?n = "length (KvPartition history)"
    have p: "partsOf (map Part is) = is" for "is" using partsOf_append [of "is" "[]"] by simp
    have s: "schedule ?n (map Part [0..<?n])" "full_schedule ?n (map Part [0..<?n])"
      by (auto simp: schedule_def full_schedule_def p list_all_iff)
    obtain fuel r where "checkOperations fuel kills srt KvModel history False (map Part [0..<?n]) = Inr r"
      "map_option fst r = Some (if op_linearizable kvStore history then Ok else Illegal)"
      using kv_check_correct [OF assms s(1), of kills False] s(2) h by blast
    then have "\<exists>b. CheckOperations fuel kills srt KvModel history [0..<?n] = Inr (Some b)"
      by (auto simp: CheckOperations_def)
    then show "\<exists>fuel parts b. schedule ?n (map Part parts) \<and> CheckOperations fuel kills srt KvModel history parts = Inr (Some b)"
      using s(1) by blast
  qed
  show "op_linearizable kvStore []" by (simp add: op_linearizable_def real_time_def)
qed

theorem empty_history_hangs_witness:
  "(\<exists>fuel parts b. CheckOperations fuel (\<lambda>_ _. False) byTimeSort KvModel demoHistory parts = Inr (Some b)) \<and>
   CheckOperationsTimeout 5 (\<lambda>_ _. False) byTimeSort KvModel [] [Timer] = Inr (Some Unknown)"
proof -
  have h: "valid_times demoHistory" "demoHistory \<noteq> []" by (simp_all add: demoHistory_def valid_times_def)
  have s: "schedule (length (KvPartition [])) [Timer]" by (simp add: schedule_def)
  show ?thesis
    using empty_history_hangs [OF sorts_byTimeSort h(1), of "\<lambda>_ _. False"] h(2) s by force
qed

end
