(* ===== verification/Porcupine_Viz.thy ===== *)
theory Porcupine_Viz
  imports Porcupine_Props
begin

text \<open>
  The data of the visualization, \<^verbatim>\<open>porcupine/visualization.go\<close>. The code runs every partial
  linearization again and panics if the model does not take a step; what the checker gives it never
  leads there.
\<close>

record historyElement =
  he_ClientId :: int
  he_Start :: int
  he_End :: int
  he_Description :: string

record linearizationStep =
  Index :: int
  StateDescription :: string

record partitionVisualizationData =
  History :: "historyElement list"
  PartialLinearizations :: "linearizationStep list list"
  Largest :: "int \<rightharpoonup> int"

text \<open>The functions of a model that describe its operations and states.\<close>

record ('s, 'i, 'o) describe =
  DescribeOperation :: "'i \<Rightarrow> 'o \<Rightarrow> string"
  DescribeState :: "'s \<Rightarrow> string"

type_synonym ('i, 'o) vals = "int \<rightharpoonup> 'i + 'o"

definition inputVal :: "('i, 'o) vals \<Rightarrow> int \<Rightarrow> 'i go" where
  "inputVal vs k = (case vs k of Some (Inl v) \<Rightarrow> Inr v | _ \<Rightarrow> Inl TypeAssertion)"

definition outputVal :: "('i + 'o) option \<Rightarrow> 'o go" where
  "outputVal v = (case v of Some (Inr v) \<Rightarrow> Inr v | _ \<Rightarrow> Inl TypeAssertion)"

definition emptyElement :: historyElement where
  "emptyElement = \<lparr>he_ClientId = 0, he_Start = 0, he_End = 0, he_Description = ''''\<rparr>"

text \<open>The loop over the entries fills the elements and the maps of inputs and outputs.\<close>

fun vizLoop ::
    "('s, 'i, 'o) describe \<Rightarrow> ('i, 'o) entry list \<Rightarrow> historyElement list \<Rightarrow> ('i, 'o) vals \<Rightarrow> ('i, 'o) vals \<Rightarrow>
     (historyElement list \<times> ('i, 'o) vals \<times> ('i, 'o) vals) go" where
  "vizLoop d [] history callValue returnValue = Inr (history, callValue, returnValue)"
| "vizLoop d (elem # es) history callValue returnValue =
     gbind (idx history (int (e_id elem))) (\<lambda>e.
     case kind elem of
       callEntry \<Rightarrow>
         gbind (set_idx history (int (e_id elem)) (e\<lparr>he_ClientId := e_clientId elem, he_Start := e_time elem\<rparr>)) (\<lambda>history.
         vizLoop d es history (callValue(int (e_id elem) \<mapsto> e_value elem)) returnValue)
     | returnEntry \<Rightarrow>
         gbind (inputVal callValue (int (e_id elem))) (\<lambda>inp.
         gbind (outputVal (Some (e_value elem))) (\<lambda>out.
         gbind (set_idx history (int (e_id elem)) (e\<lparr>he_End := e_time elem, he_Description := DescribeOperation d inp out\<rparr>)) (\<lambda>history.
         vizLoop d es history callValue (returnValue(int (e_id elem) \<mapsto> e_value elem))))))"

text \<open>The loop over one partial linearization, with the maps \<open>largestIndex\<close> and \<open>largestSize\<close>.\<close>

fun vizSteps ::
    "('s, 'i, 'o) Model \<Rightarrow> ('s, 'i, 'o) describe \<Rightarrow> ('i, 'o) vals \<Rightarrow> ('i, 'o) vals \<Rightarrow> int \<Rightarrow> int \<Rightarrow> int list \<Rightarrow> 's \<Rightarrow>
     (int \<rightharpoonup> int) \<times> (int \<Rightarrow> int) \<Rightarrow> (linearizationStep list \<times> (int \<rightharpoonup> int) \<times> (int \<Rightarrow> int)) go" where
  "vizSteps model d callValue returnValue i len [] state (largestIndex, largestSize) = Inr ([], largestIndex, largestSize)"
| "vizSteps model d callValue returnValue i len (histId # partial) state (largestIndex, largestSize) =
     gbind (inputVal callValue histId) (\<lambda>inp.
     gbind (outputVal (returnValue histId)) (\<lambda>out.
     case Step model state inp out of (ok, state) \<Rightarrow>
     if \<not> ok then Inl (Panic ''valid partial linearization returned non-ok result from model step'')
     else
       let large = (if largestSize histId < len then (largestIndex(histId \<mapsto> i), largestSize(histId := len))
                    else (largestIndex, largestSize)) in
       gbind (vizSteps model d callValue returnValue i len partial state large) (\<lambda>(steps, large).
       Inr (\<lparr>Index = histId, StateDescription = DescribeState d state\<rparr> # steps, large))))"

fun vizPartials ::
    "('s, 'i, 'o) Model \<Rightarrow> ('s, 'i, 'o) describe \<Rightarrow> ('i, 'o) vals \<Rightarrow> ('i, 'o) vals \<Rightarrow> int \<Rightarrow> int list list \<Rightarrow>
     (int \<rightharpoonup> int) \<times> (int \<Rightarrow> int) \<Rightarrow> (linearizationStep list list \<times> (int \<rightharpoonup> int)) go" where
  "vizPartials model d callValue returnValue i [] large = Inr ([], fst large)"
| "vizPartials model d callValue returnValue i (partial # parts) large =
     gbind (vizSteps model d callValue returnValue i (int (length partial)) partial (Init model) large) (\<lambda>(linearization, large).
     gbind (vizPartials model d callValue returnValue (i + 1) parts large) (\<lambda>(linearizations, largest).
     Inr (linearization # linearizations, largest)))"

text \<open>\<open>order\<close> is the order of the lists of a part after they are sorted by length, the longest first.\<close>

definition vizPartition ::
    "(int list set \<Rightarrow> int list list) \<Rightarrow> ('s, 'i, 'o) Model \<Rightarrow> ('s, 'i, 'o) describe \<Rightarrow> ('i, 'o) entry list \<Rightarrow> int list set \<Rightarrow>
     partitionVisualizationData go" where
  "vizPartition order model d hs ps =
     gbind (vizLoop d hs (replicate (length hs div 2) emptyElement) Map.empty Map.empty) (\<lambda>(history, callValue, returnValue).
     gbind (vizPartials model d callValue returnValue 0 (order ps) (Map.empty, \<lambda>_. 0)) (\<lambda>(linearizations, largest).
     Inr \<lparr>History = history, PartialLinearizations = linearizations, Largest = largest\<rparr>))"

fun vizAll where
  "vizAll order model d [] ps = Inr []"
| "vizAll order model d (hs # hss) ps =
     gbind (idx ps 0) (\<lambda>p.
     gbind (vizPartition order model d hs p) (\<lambda>v.
     gbind (vizAll order model d hss (tl ps)) (\<lambda>vs. Inr (v # vs))))"

definition computeVisualizationData ::
    "(int list set \<Rightarrow> int list list) \<Rightarrow> ('s, 'i, 'o) ModelArg \<Rightarrow> ('s, 'i, 'o) describe \<Rightarrow> ('i, 'o) linearizationInfo \<Rightarrow>
     partitionVisualizationData list go" where
  "computeVisualizationData order model d info =
     vizAll order (fillDefault model) d (li_history info) (partialLinearizations info)"

text \<open>How the key/value model describes an operation; its states are strings, which the default function
  shows as they are.\<close>

definition KvDescribeOperation :: "KvInput \<Rightarrow> KvOutput \<Rightarrow> string" where
  "KvDescribeOperation inp out =
     (if kv_Op inp = 0 then ''get('' @ [CHR 0x27] @ kv_Key inp @ [CHR 0x27] @ '') -> '' @ [CHR 0x27] @ kv_Out out @ [CHR 0x27]
      else if kv_Op inp = 1 then ''put('' @ [CHR 0x27] @ kv_Key inp @ [CHR 0x27] @ '', '' @ [CHR 0x27] @ kv_Value inp @ [CHR 0x27] @ '')''
      else if kv_Op inp = 2 then ''append('' @ [CHR 0x27] @ kv_Key inp @ [CHR 0x27] @ '', '' @ [CHR 0x27] @ kv_Value inp @ [CHR 0x27] @ '')''
      else ''<invalid>'')"

definition KvDescribe :: "(string, KvInput, KvOutput) describe" where
  "KvDescribe = \<lparr>DescribeOperation = KvDescribeOperation, DescribeState = (\<lambda>s. s)\<rparr>"

subsection \<open>The elements and the values\<close>

definition values_ok :: "('i, 'o) entry list \<Rightarrow> nat \<Rightarrow> ('i, 'o) vals \<Rightarrow> ('i, 'o) vals \<Rightarrow> bool" where
  "values_ok hs j cv rv \<longleftrightarrow> (\<forall>k<nOps hs.
     (firstAt (isCall k) hs < j \<longrightarrow> cv (int k) = Some (Inl (inputAt hs k))) \<and>
     (firstAt (isReturn k) hs < j \<longrightarrow> rv (int k) = Some (Inr (outputAt hs k))))"

definition elements_ok :: "('i, 'o) entry list \<Rightarrow> nat \<Rightarrow> historyElement list \<Rightarrow> bool" where
  "elements_ok hs j history \<longleftrightarrow> length history = nOps hs \<and> (\<forall>k<nOps hs.
     (firstAt (isCall k) hs < j \<longrightarrow> he_Start (history ! k) = e_time (hs ! firstAt (isCall k) hs)) \<and>
     (firstAt (isReturn k) hs < j \<longrightarrow> he_End (history ! k) = e_time (hs ! firstAt (isReturn k) hs)))"

lemma wf_entry:
  assumes "wf_history hs" and "j < length hs"
  shows "e_id (hs ! j) < nOps hs"
    "kind (hs ! j) = callEntry \<Longrightarrow> firstAt (isCall (e_id (hs ! j))) hs = j \<and> e_value (hs ! j) = Inl (inputAt hs (e_id (hs ! j)))"
    "kind (hs ! j) = returnEntry \<Longrightarrow> firstAt (isReturn (e_id (hs ! j))) hs = j \<and> e_value (hs ! j) = Inr (outputAt hs (e_id (hs ! j)))"
proof -
  let ?e = "hs ! j"
  have e: "?e \<in> set hs" using assms(2) by simp
  then have "(kind ?e, e_id ?e) \<in> {callEntry, returnEntry} \<times> {..<nOps hs}"
    unfolding wf_historyD(2) [OF assms(1), symmetric] by blast
  then show "e_id ?e < nOps hs" by simp
  note v = wf_historyD(3) [OF assms(1) e]
  show "firstAt (isCall (e_id ?e)) hs = j \<and> e_value ?e = Inl (inputAt hs (e_id ?e))" if "kind ?e = callEntry"
  proof -
    have f: "firstAt (isCall (e_id ?e)) hs = j"
      using that by (intro wf_firstAt(1) [OF assms]) (simp add: isCall_def)
    then show ?thesis using v that by (simp add: inputAt_def)
  qed
  show "firstAt (isReturn (e_id ?e)) hs = j \<and> e_value ?e = Inr (outputAt hs (e_id ?e))" if "kind ?e = returnEntry"
  proof -
    have f: "firstAt (isReturn (e_id ?e)) hs = j"
      using that by (intro wf_firstAt(2) [OF assms]) (simp add: isReturn_def)
    then show ?thesis using v that by (simp add: outputAt_def)
  qed
qed

lemma vizLoop_ok:
  assumes wf: "wf_history hs" and "j \<le> length hs" and "values_ok hs j cv rv" and "elements_ok hs j history"
  shows "\<exists>history' cv' rv'. vizLoop d (drop j hs) history cv rv = Inr (history', cv', rv') \<and>
    values_ok hs (length hs) cv' rv' \<and> elements_ok hs (length hs) history'"
  using assms(2-)
proof (induction "length hs - j" arbitrary: j history cv rv)
  case 0
  then show ?case by simp
next
  case (Suc n)
  then have j: "j < length hs" by simp
  let ?e = "hs ! j"
  let ?k = "e_id ?e"
  note w = wf_entry [OF wf j]
  have drop: "drop j hs = ?e # drop (Suc j) hs" using j by (simp add: Cons_nth_drop_Suc)
  have k: "?k < length history" using w(1) Suc.prems(3) by (simp add: elements_ok_def)
  have call: "firstAt (isCall i) hs < Suc j \<longleftrightarrow> firstAt (isCall i) hs < j \<or> i = ?k \<and> kind ?e = callEntry" if "i < nOps hs" for i
    using wf_call(2) [OF wf that] w(2) by (auto simp: isCall_def less_Suc_eq)
  have ret: "firstAt (isReturn i) hs < Suc j \<longleftrightarrow> firstAt (isReturn i) hs < j \<or> i = ?k \<and> kind ?e = returnEntry" if "i < nOps hs" for i
    using wf_call(4) [OF wf that] w(3) by (auto simp: isReturn_def less_Suc_eq)
  have step: "n = length hs - Suc j" "Suc j \<le> length hs" using Suc.hyps(2) j by simp_all
  show ?case
  proof (cases "kind ?e")
    case callEntry
    let ?h = "history[?k := (history ! ?k)\<lparr>he_ClientId := e_clientId ?e, he_Start := e_time ?e\<rparr>]"
    have "values_ok hs (Suc j) (cv(int ?k \<mapsto> e_value ?e)) rv"
      using Suc.prems(2) w(2) callEntry by (auto simp: values_ok_def call ret)
    moreover have "elements_ok hs (Suc j) ?h"
      using Suc.prems(3) w(2) callEntry k by (auto simp: elements_ok_def call ret nth_list_update)
    ultimately show ?thesis using Suc.hyps(1) [OF step] k callEntry by (simp add: drop)
  next
    case returnEntry
    have "firstAt (isCall ?k) hs < j" using wf_call(5) [OF wf w(1)] w(3) [OF returnEntry] by simp
    then have cv: "cv (int ?k) = Some (Inl (inputAt hs ?k))" using Suc.prems(2) w(1) by (simp add: values_ok_def)
    let ?h = "history[?k := (history ! ?k)\<lparr>he_End := e_time ?e, he_Description := DescribeOperation d (inputAt hs ?k) (outputAt hs ?k)\<rparr>]"
    have "values_ok hs (Suc j) cv (rv(int ?k \<mapsto> e_value ?e))"
      using Suc.prems(2) w(3) returnEntry by (auto simp: values_ok_def call ret)
    moreover have "elements_ok hs (Suc j) ?h"
      using Suc.prems(3) w(3) returnEntry k by (auto simp: elements_ok_def call ret nth_list_update)
    ultimately show ?thesis using Suc.hyps(1) [OF step] k returnEntry cv w(3)
      by (simp add: drop inputVal_def outputVal_def)
  qed
qed

subsection \<open>The partial linearizations\<close>

definition enlarge :: "int \<Rightarrow> int list \<Rightarrow> (int \<rightharpoonup> int) \<times> (int \<Rightarrow> int) \<Rightarrow> int \<Rightarrow> (int \<rightharpoonup> int) \<times> (int \<Rightarrow> int)" where
  "enlarge i ids large len =
     ((\<lambda>k. if k \<in> set ids \<and> snd large k < len then Some i else fst large k),
      (\<lambda>k. if k \<in> set ids \<and> snd large k < len then len else snd large k))"

lemma vizSteps_ok:
  assumes "legal model (inputAt hs) (outputAt hs) s seq" and "set seq \<subseteq> {..<nOps hs}" and "values_ok hs (length hs) cv rv" and "wf_history hs"
  shows "\<exists>steps. vizSteps model d cv rv i len (map int seq) s large = Inr (steps, enlarge i (map int seq) large len) \<and>
    map Index steps = map int seq"
  using assms(1,2)
proof (induction seq arbitrary: s large)
  case Nil
  then show ?case by (cases large) (simp add: enlarge_def)
next
  case (Cons k seq)
  have k: "k < nOps hs" using Cons.prems(2) by simp
  have v: "cv (int k) = Some (Inl (inputAt hs k))" "rv (int k) = Some (Inr (outputAt hs k))"
    using assms(3) k wf_call [OF assms(4) k] by (simp_all add: values_ok_def)
  obtain s' where s': "Step model s (inputAt hs k) (outputAt hs k) = (True, s')" "legal model (inputAt hs) (outputAt hs) s' seq"
    using Cons.prems(1) by (auto split: prod.splits)
  obtain li ls where large: "large = (li, ls)" by fastforce
  let ?large = "if ls (int k) < len then (li(int k \<mapsto> i), ls(int k := len)) else (li, ls)"
  obtain steps where "vizSteps model d cv rv i len (map int seq) s' ?large = Inr (steps, enlarge i (map int seq) ?large len)"
    "map Index steps = map int seq" using Cons.IH [OF s'(2), of ?large] Cons.prems(2) by force
  moreover have "enlarge i (map int seq) ?large len = enlarge i (map int (k # seq)) large len"
    by (auto simp: enlarge_def large fun_eq_iff)
  ultimately show ?case using v s'(1) by (simp add: large inputVal_def outputVal_def Let_def)
qed

text \<open>The index of a longest list with an operation.\<close>

definition largest_ok :: "int list list \<Rightarrow> nat \<Rightarrow> (int \<rightharpoonup> int) \<times> (int \<Rightarrow> int) \<Rightarrow> bool" where
  "largest_ok ps j large \<longleftrightarrow> (\<forall>k. case fst large k of
       None \<Rightarrow> snd large k = 0 \<and> (\<forall>i<j. k \<notin> set (ps ! i))
     | Some i \<Rightarrow> 0 \<le> i \<and> nat i < j \<and> k \<in> set (ps ! nat i) \<and> snd large k = int (length (ps ! nat i)) \<and>
         (\<forall>i'<j. k \<in> set (ps ! i') \<longrightarrow> length (ps ! i') \<le> length (ps ! nat i)))"

lemma largest_ok_enlarge:
  assumes "largest_ok ps j large"
  shows "largest_ok ps (Suc j) (enlarge (int j) (ps ! j) large (int (length (ps ! j))))"
  unfolding largest_ok_def
proof
  fix k
  note a = assms [unfolded largest_ok_def, rule_format, of k]
  show "case fst (enlarge (int j) (ps ! j) large (int (length (ps ! j)))) k of
       None \<Rightarrow> snd (enlarge (int j) (ps ! j) large (int (length (ps ! j)))) k = 0 \<and> (\<forall>i<Suc j. k \<notin> set (ps ! i))
     | Some i \<Rightarrow> 0 \<le> i \<and> nat i < Suc j \<and> k \<in> set (ps ! nat i) \<and>
         snd (enlarge (int j) (ps ! j) large (int (length (ps ! j)))) k = int (length (ps ! nat i)) \<and>
         (\<forall>i'<Suc j. k \<in> set (ps ! i') \<longrightarrow> length (ps ! i') \<le> length (ps ! nat i))"
  proof (cases "k \<in> set (ps ! j) \<and> snd large k < int (length (ps ! j))")
    case True
    have "length (ps ! i') \<le> length (ps ! j)" if "i' < j" "k \<in> set (ps ! i')" for i'
      using a that True by (cases "fst large k") force+
    then show ?thesis using True by (auto simp: enlarge_def less_Suc_eq)
  next
    case False
    have "0 < length (ps ! j)" if "k \<in> set (ps ! j)" using that by (cases "ps ! j") auto
    then show ?thesis using a False by (cases "fst large k") (auto simp: enlarge_def less_Suc_eq)
  qed
qed

lemma vizPartials_ok:
  assumes wf: "wf_history hs" and "\<forall>p\<in>set ps. partial_lin model hs p" and "values_ok hs (length hs) cv rv"
    and "j \<le> length ps" and "largest_ok ps j large"
  shows "\<exists>ls lg n. vizPartials model d cv rv (int j) (drop j ps) large = Inr (ls, lg) \<and>
    map (map Index) ls = drop j ps \<and> largest_ok ps (length ps) (lg, n)"
  using assms(4-)
proof (induction "length ps - j" arbitrary: j large)
  case 0
  then show ?case by (intro exI [of _ "[]"] exI [of _ "fst large"] exI [of _ "snd large"]) simp
next
  case (Suc n)
  then have j: "j < length ps" by simp
  have drop: "drop j ps = ps ! j # drop (Suc j) ps" using j by (simp add: Cons_nth_drop_Suc)
  obtain seq where seq: "ps ! j = map int seq" "set seq \<subseteq> {..<nOps hs}"
    "legal model (inputAt hs) (outputAt hs) (Init model) seq"
    using assms(2) j by (auto simp: partial_lin_def dest!: bspec [OF _ nth_mem])
  obtain steps where s: "vizSteps model d cv rv (int j) (int (length (ps ! j))) (ps ! j) (Init model) large =
      Inr (steps, enlarge (int j) (ps ! j) large (int (length (ps ! j))))" "map Index steps = ps ! j"
    using vizSteps_ok [OF seq(3,2) assms(3) wf] unfolding seq(1) by blast
  have "n = length ps - Suc j" "Suc j \<le> length ps" using Suc.hyps(2) j by simp_all
  from Suc.hyps(1) [OF this largest_ok_enlarge [OF Suc.prems(2)]] obtain ls lg m where
    "vizPartials model d cv rv (int (Suc j)) (drop (Suc j) ps) (enlarge (int j) (ps ! j) large (int (length (ps ! j)))) = Inr (ls, lg)"
    "map (map Index) ls = drop (Suc j) ps" "largest_ok ps (length ps) (lg, m)" by blast
  then show ?case using s by (intro exI [of _ "steps # ls"] exI [of _ lg] exI [of _ m]) (simp add: drop add.commute)
qed

subsection \<open>All parts\<close>

text \<open>What the page is about: the lists of a part in some order, the times of its operations, and for
  each operation a longest list that has it.\<close>

definition viz_ok :: "('i, 'o) entry list \<Rightarrow> int list list \<Rightarrow> partitionVisualizationData \<Rightarrow> bool" where
  "viz_ok hs ps v \<longleftrightarrow> map (map Index) (PartialLinearizations v) = ps \<and> elements_ok hs (length hs) (History v) \<and>
     (\<exists>n. largest_ok ps (length ps) (Largest v, n))"

lemma vizPartition_ok:
  assumes wf: "wf_history hs" and ps: "\<forall>p\<in>ps. partial_lin model hs p" and order: "set (order ps) = ps"
  shows "\<exists>v. vizPartition order model d hs ps = Inr v \<and> viz_ok hs (order ps) v"
proof -
  have "values_ok hs 0 Map.empty Map.empty" "elements_ok hs 0 (replicate (length hs div 2) emptyElement)"
    by (simp_all add: values_ok_def elements_ok_def nOps_def)
  from vizLoop_ok [OF wf _ this, of d] obtain history cv rv where
    1: "vizLoop d hs (replicate (length hs div 2) emptyElement) Map.empty Map.empty = Inr (history, cv, rv)"
    "values_ok hs (length hs) cv rv" "elements_ok hs (length hs) history" by auto
  have "largest_ok (order ps) 0 (Map.empty, \<lambda>_. 0)" by (simp add: largest_ok_def)
  from vizPartials_ok [OF wf _ 1(2) _ this, of model d] obtain ls lg n where
    "vizPartials model d cv rv 0 (order ps) (Map.empty, \<lambda>_. 0) = Inr (ls, lg)" "map (map Index) ls = order ps"
    "largest_ok (order ps) (length (order ps)) (lg, n)"
    using ps order by auto
  then show ?thesis using 1 by (auto simp: vizPartition_def viz_ok_def)
qed

lemma vizAll_ok:
  assumes "\<forall>hs\<in>set l. wf_history hs" and "length pss = length l" and "\<forall>i<length l. \<forall>p\<in>pss ! i. partial_lin model (l ! i) p"
    and order: "\<And>ps. ps \<in> set pss \<Longrightarrow> set (order ps) = ps"
  shows "\<exists>vs. vizAll order model d l pss = Inr vs \<and> length vs = length l \<and> (\<forall>i<length l. viz_ok (l ! i) (order (pss ! i)) (vs ! i))"
  using assms
proof (induction l arbitrary: pss)
  case (Cons hs l)
  obtain ps pss' where pss: "pss = ps # pss'" using Cons.prems(2) by (cases pss) auto
  have 1: "\<forall>p\<in>ps. partial_lin model hs p" using Cons.prems(3) [rule_format, of 0] by (simp add: pss)
  obtain v where v: "vizPartition order model d hs ps = Inr v" "viz_ok hs (order ps) v"
    using vizPartition_ok [OF _ 1, of order d] Cons.prems(1,4) pss by auto
  have "\<forall>i<length l. \<forall>p\<in>pss' ! i. partial_lin model (l ! i) p"
    using Cons.prems(3) [rule_format, of "Suc _"] by (simp add: pss)
  with Cons.IH [of pss'] obtain vs where vs: "vizAll order model d l pss' = Inr vs" "length vs = length l"
    "\<forall>i<length l. viz_ok (l ! i) (order (pss' ! i)) (vs ! i)" using Cons.prems(1,2,4) pss by auto
  then show ?case using v by (auto simp: pss less_Suc_eq_0_disj)
qed simp

lemma gatherInfo_finite: "gatherInfo res is = Inr (Some ps) \<Longrightarrow> p \<in> set ps \<Longrightarrow> finite p"
  by (induction "is" arbitrary: ps) (auto simp: gbind_Inr_iff partials_def split: option.splits prod.splits)

lemma checkParallel_finite:
  assumes "checkParallel fuel kills model l ci ars = Inr (Some (v, info))" and "p \<in> set (partialLinearizations info)"
  shows "finite p"
  using assms gatherInfo_finite
  by (fastforce simp: checkParallel_def gbind_Inr_iff split: option.splits if_splits)

text \<open>
  The visualization of a check of the key/value service does not panic: the lists that the check
  gives run again. For every part the page shows the lists, the times of the operations, and for each
  operation a longest list with it.
\<close>

theorem visualize_no_panic:
  assumes "sorts_by_time srt" and "valid_times history" and "schedule (length (KvPartition history)) ars"
    and order: "\<And>ps. finite ps \<Longrightarrow> set (order ps) = ps"
  shows "\<exists>fuel0. \<forall>fuel\<ge>fuel0. \<forall>res info. CheckOperationsVerbose fuel kills srt KvModel history ars = Inr (Some (res, info)) \<longrightarrow>
    (\<exists>vs. computeVisualizationData order KvModel d info = Inr vs \<and> length vs = length (KvPartition history) \<and>
       (\<forall>i<length vs. viz_ok (makeEntries srt (KvPartition history ! i)) (order (partialLinearizations info ! i)) (vs ! i)))"
proof -
  let ?l = "map (makeEntries srt) (KvPartition history)"
  have wf: "\<forall>hs\<in>set ?l. wf_history hs"
    using makeEntries_wf [OF assms(1)] valid_times_part [OF assms(2)] by auto
  have sch: "schedule (length ?l) ars" using assms(3) by simp
  obtain fuel0 where f: "\<And>fuel. fuel \<ge> fuel0 \<Longrightarrow> \<exists>r. checkParallel fuel kills (fillDefault KvModel) ?l True ars = Inr r \<and>
      (\<forall>v info. r = Some (v, info) \<longrightarrow> right_info (fillDefault KvModel) ?l v info)"
    using checkParallel_correct [OF wf fillDefault_Kv(1) sch, of kills True] by blast
  show ?thesis
  proof (intro exI [of _ fuel0] allI impI)
    fix fuel res info
    assume "fuel0 \<le> fuel" and r: "CheckOperationsVerbose fuel kills srt KvModel history ars = Inr (Some (res, info))"
    then have p: "checkParallel fuel kills (fillDefault KvModel) ?l True ars = Inr (Some (res, info))"
      by (simp add: CheckOperationsVerbose_def checkOperations_def fillDefault_Kv)
    have i: "right_info (fillDefault KvModel) ?l res info" using f [OF \<open>fuel0 \<le> fuel\<close>] p by auto
    have o: "set (order ps) = ps" if "ps \<in> set (partialLinearizations info)" for ps
      by (rule order [OF checkParallel_finite [OF p that]])
    show "\<exists>vs. computeVisualizationData order KvModel d info = Inr vs \<and> length vs = length (KvPartition history) \<and>
       (\<forall>i<length vs. viz_ok (makeEntries srt (KvPartition history ! i)) (order (partialLinearizations info ! i)) (vs ! i))"
      using vizAll_ok [OF wf, of "partialLinearizations info" "fillDefault KvModel" order d] i o
      by (auto simp: right_info_def computeVisualizationData_def)
  qed
qed

theorem visualize_no_panic_witness:
  "\<exists>fuel0. \<forall>fuel\<ge>fuel0. \<forall>res info. CheckOperationsVerbose fuel (\<lambda>_ _. False) byTimeSort KvModel demoHistory [Part 1, Part 0] = Inr (Some (res, info)) \<longrightarrow>
     (\<exists>vs. computeVisualizationData sorted_list_of_set KvModel KvDescribe info = Inr vs \<and> length vs = 2)"
proof -
  have s: "schedule (length (KvPartition demoHistory)) [Part 1, Part 0]" by (simp add: demo_parts schedule_def)
  have h: "valid_times demoHistory" by (simp add: demoHistory_def valid_times_def)
  show ?thesis
    using visualize_no_panic [OF sorts_byTimeSort h s set_sorted_list_of_set, of "\<lambda>_ _. False" KvDescribe] demo_parts
    by (metis (no_types, lifting))
qed

end
