(* ===== verification/LabRPC.thy ===== *)
theory LabRPC
  imports Go_Util "HOL-Library.Word"
begin

text \<open>
  The simulated network of \<^verbatim>\<open>labrpc/labrpc.go\<close>. A call sends a request to the network, which
  looks up the server that the end is connected to, runs its handler in a goroutine of its own and
  passes the reply on, unless it drops the request or the reply or the server has been deleted. Times
  and delays are left out: whatever is delayed may happen at any later step. Servers are objects that
  the code compares by their pointers, so they have addresses.

  The encoding of arguments and replies, \<open>labgob\<close>, is a parameter. \<open>dec\<close> decodes bytes into a variable:
  from the value the variable has to the one it has afterwards, with whether there was no error. \<open>zero\<close>
  is the value that \<open>reflect.New\<close> gives. A handler is a function of its receiver and its argument, and
  runs in one step.
\<close>

record ('v, 'b) codec =
  enc :: "'v \<Rightarrow> 'b list"
  dec :: "'b list \<Rightarrow> 'v \<Rightarrow> 'v \<times> bool"
  zero :: 'v

record ('e, 'b) reqMsg =
  rq_endname :: 'e
  rq_svcMeth :: string
  rq_args :: "'b list"

record 'b replyMsg =
  rp_ok :: bool
  rp_reply :: "'b list"

subsection \<open>Services and servers\<close>

record methodType =
  PkgPath :: string
  NumIn :: nat
  In2_is_Ptr :: bool
  NumOut :: nat

type_synonym ('st, 'v) func = "'st \<Rightarrow> 'v \<Rightarrow> 'st \<times> 'v"

record ('st, 'v) rpc_method =
  mt_Name :: string
  mt_Type :: methodType
  mt_Func :: "('st, 'v) func"

record ('st, 'v) Service =
  svc_name :: string
  rcvr :: 'st
  svc_methods :: "string \<rightharpoonup> ('st, 'v) func"

definition MakeService :: "string \<Rightarrow> 'st \<Rightarrow> ('st, 'v) rpc_method list \<Rightarrow> ('st, 'v) Service" where
  "MakeService typeName obj ms =
     \<lparr>svc_name = typeName, rcvr = obj,
      svc_methods = fold (\<lambda>m methods.
        if PkgPath (mt_Type m) \<noteq> '''' \<or> NumIn (mt_Type m) \<noteq> 3 \<or> \<not> In2_is_Ptr (mt_Type m) \<or> NumOut (mt_Type m) \<noteq> 0
        then methods else methods(mt_Name m \<mapsto> mt_Func m)) ms Map.empty\<rparr>"

definition Service_dispatch ::
    "('v, 'b) codec \<Rightarrow> string \<Rightarrow> ('e, 'b) reqMsg \<Rightarrow> ('st, 'v) Service \<Rightarrow> ('b replyMsg \<times> ('st, 'v) Service) go" where
  "Service_dispatch c methname req svc =
     (case svc_methods svc methname of
        Some meth \<Rightarrow>
          let args = fst (dec c (rq_args req) (zero c));
              (st, replyv) = meth (rcvr svc) args
          in Inr (\<lparr>rp_ok = True, rp_reply = enc c replyv\<rparr>, svc\<lparr>rcvr := st\<rparr>)
      | None \<Rightarrow> Inl (LogFatal ''labrpc.Service.dispatch(): unknown method''))"

record ('st, 'v) Server =
  services :: "string \<rightharpoonup> ('st, 'v) Service"
  srv_count :: int

definition MakeServer :: "('st, 'v) Server" where
  "MakeServer = \<lparr>services = Map.empty, srv_count = 0\<rparr>"

definition AddService :: "('st, 'v) Service \<Rightarrow> ('st, 'v) Server \<Rightarrow> ('st, 'v) Server" where
  "AddService svc rs = rs\<lparr>services := (services rs)(svc_name svc \<mapsto> svc)\<rparr>"

text \<open>\<open>strings.LastIndex\<close> for one character: the position of its last occurrence, or \<open>-1\<close>.\<close>

fun lastIndexFrom :: "int \<Rightarrow> char \<Rightarrow> string \<Rightarrow> int \<Rightarrow> int" where
  "lastIndexFrom i c [] found = found"
| "lastIndexFrom i c (x # xs) found = lastIndexFrom (i + 1) c xs (if x = c then i else found)"

definition lastIndex :: "char \<Rightarrow> string \<Rightarrow> int" where
  "lastIndex c s = lastIndexFrom 0 c s (-1)"

definition Server_dispatch ::
    "('v, 'b) codec \<Rightarrow> ('e, 'b) reqMsg \<Rightarrow> ('st, 'v) Server \<Rightarrow> ('b replyMsg \<times> ('st, 'v) Server) go" where
  "Server_dispatch c req rs =
     (let rs = rs\<lparr>srv_count := srv_count rs + 1\<rparr>;
          dot = lastIndex CHR ''.'' (rq_svcMeth req)
      in gbind (slice_to (rq_svcMeth req) dot) (\<lambda>serviceName.
         gbind (slice_from (rq_svcMeth req) (dot + 1)) (\<lambda>methodName.
         case services rs serviceName of
           Some service \<Rightarrow>
             gbind (Service_dispatch c methodName req service) (\<lambda>(reply, service).
             Inr (reply, rs\<lparr>services := (services rs)(serviceName \<mapsto> service)\<rparr>))
         | None \<Rightarrow> Inl (LogFatal ''labrpc.Server.dispatch(): unknown service''))))"

definition Server_GetCount :: "('st, 'v) Server \<Rightarrow> int" where
  "Server_GetCount rs = srv_count rs"

subsection \<open>The network\<close>

record 'e ClientEnd =
  ce_endname :: 'e

record ('e, 'n) Network =
  reliable :: bool
  longDelays :: bool
  longReordering :: bool
  ends :: "'e \<rightharpoonup> 'e ClientEnd"
  enabled :: "'e \<rightharpoonup> bool"
  servers :: "'n \<rightharpoonup> nat"
  connections :: "'e \<rightharpoonup> 'n"
  done_closed :: bool
  rn_count :: "32 word"
  rn_bytes :: "64 word"

definition MakeNetwork :: "('e, 'n) Network" where
  "MakeNetwork = \<lparr>reliable = True, longDelays = False, longReordering = False, ends = Map.empty, enabled = Map.empty,
     servers = Map.empty, connections = Map.empty, done_closed = False, rn_count = 0, rn_bytes = 0\<rparr>"

definition Cleanup :: "('e, 'n) Network \<Rightarrow> ('e, 'n) Network go" where
  "Cleanup rn = (if done_closed rn then Inl (Panic ''close of closed channel'') else Inr (rn\<lparr>done_closed := True\<rparr>))"

definition Reliable :: "bool \<Rightarrow> ('e, 'n) Network \<Rightarrow> ('e, 'n) Network" where
  "Reliable yes rn = rn\<lparr>reliable := yes\<rparr>"

definition LongReordering :: "bool \<Rightarrow> ('e, 'n) Network \<Rightarrow> ('e, 'n) Network" where
  "LongReordering yes rn = rn\<lparr>longReordering := yes\<rparr>"

definition LongDelays :: "bool \<Rightarrow> ('e, 'n) Network \<Rightarrow> ('e, 'n) Network" where
  "LongDelays yes rn = rn\<lparr>longDelays := yes\<rparr>"

text \<open>A map without an entry gives the zero value: an end that is not enabled, no server.\<close>

definition isEnabled :: "('e, 'n) Network \<Rightarrow> 'e \<Rightarrow> bool" where
  "isEnabled rn endname = (case enabled rn endname of None \<Rightarrow> False | Some b \<Rightarrow> b)"

definition readEndnameInfo :: "'e \<Rightarrow> ('e, 'n) Network \<Rightarrow> bool \<times> 'n option \<times> nat option \<times> bool \<times> bool" where
  "readEndnameInfo endname rn =
     (let servername = connections rn endname;
          server = (case servername of None \<Rightarrow> None | Some n \<Rightarrow> servers rn n)
      in (isEnabled rn endname, servername, server, reliable rn, longReordering rn))"

definition isServerDead :: "'e \<Rightarrow> 'n \<Rightarrow> nat \<Rightarrow> ('e, 'n) Network \<Rightarrow> bool" where
  "isServerDead endname servername server rn =
     (if \<not> isEnabled rn endname \<or> servers rn servername \<noteq> Some server then True else False)"

definition MakeEnd :: "'e \<Rightarrow> ('e, 'n) Network \<Rightarrow> ('e ClientEnd \<times> ('e, 'n) Network) go" where
  "MakeEnd endname rn =
     (if ends rn endname \<noteq> None then Inl (LogFatal ''MakeEnd: already exists'')
      else let e = \<lparr>ce_endname = endname\<rparr>
           in Inr (e, rn\<lparr>ends := (ends rn)(endname \<mapsto> e), enabled := (enabled rn)(endname \<mapsto> False),
                         connections := (connections rn)(endname := None)\<rparr>))"

definition AddServer :: "'n \<Rightarrow> nat \<Rightarrow> ('e, 'n) Network \<Rightarrow> ('e, 'n) Network" where
  "AddServer servername rs rn = rn\<lparr>servers := (servers rn)(servername \<mapsto> rs)\<rparr>"

definition DeleteServer :: "'n \<Rightarrow> ('e, 'n) Network \<Rightarrow> ('e, 'n) Network" where
  "DeleteServer servername rn = rn\<lparr>servers := (servers rn)(servername := None)\<rparr>"

definition Connect :: "'e \<Rightarrow> 'n \<Rightarrow> ('e, 'n) Network \<Rightarrow> ('e, 'n) Network" where
  "Connect endname servername rn = rn\<lparr>connections := (connections rn)(endname \<mapsto> servername)\<rparr>"

definition Enable :: "'e \<Rightarrow> bool \<Rightarrow> ('e, 'n) Network \<Rightarrow> ('e, 'n) Network" where
  "Enable endname yes rn = rn\<lparr>enabled := (enabled rn)(endname \<mapsto> yes)\<rparr>"

definition GetCount :: "'n \<Rightarrow> (nat \<Rightarrow> ('st, 'v) Server) \<Rightarrow> ('e, 'n) Network \<Rightarrow> int go" where
  "GetCount servername heap rn =
     (case servers rn servername of None \<Rightarrow> Inl NilDereference | Some svr \<Rightarrow> Inr (Server_GetCount (heap svr)))"

definition GetTotalCount :: "('e, 'n) Network \<Rightarrow> int" where
  "GetTotalCount rn = sint (rn_count rn)"

definition GetTotalBytes :: "('e, 'n) Network \<Rightarrow> int" where
  "GetTotalBytes rn = sint (rn_bytes rn)"

subsection \<open>Requests\<close>

text \<open>
  Where \<open>Call\<close>, the goroutine of \<open>processReq\<close> and the goroutine of the handler are with a request. A
  request that waits has the values that \<open>processReq\<close> read at its start: the name and the address of
  the server, and whether the network is reliable and reorders replies.
\<close>

datatype ('n, 'b) place =
    Sending
  | Taken
  | Waiting 'n nat bool bool
  | Replying "'b replyMsg"
  | Returned "'b replyMsg"

datatype 'b handler =
    NotStarted
  | Running nat
  | Finished nat "'b replyMsg"

record ('e, 'n, 'b) request =
  r_req :: "('e, 'b) reqMsg"
  r_at :: "('n, 'b) place"
  r_handler :: "'b handler"

definition noReply :: "'b replyMsg" where
  "noReply = \<lparr>rp_ok = False, rp_reply = []\<rparr>"

definition newRequest :: "'e ClientEnd \<Rightarrow> ('v, 'b) codec \<Rightarrow> string \<Rightarrow> 'v \<Rightarrow> ('e, 'n, 'b) request" where
  "newRequest e c svcMeth args =
     \<lparr>r_req = \<lparr>rq_endname = ce_endname e, rq_svcMeth = svcMeth, rq_args = enc c args\<rparr>, r_at = Sending, r_handler = NotStarted\<rparr>"

text \<open>The end of \<open>Call\<close>, which decodes into the variable \<open>reply\<close> of the caller: a reply that cannot be
  decoded ends the process.\<close>

definition callResult :: "('v, 'b) codec \<Rightarrow> 'b replyMsg \<Rightarrow> 'v \<Rightarrow> (bool \<times> 'v) go" where
  "callResult c rep reply =
     (if rp_ok rep then (case dec c (rp_reply rep) reply of
        (reply, ok) \<Rightarrow> if ok then Inr (True, reply) else Inl (LogFatal ''ClientEnd.Call(): decode reply''))
      else Inr (False, reply))"

text \<open>The start of \<open>processReq\<close>; \<open>lose\<close> is what the random number says.\<close>

definition startReq :: "bool \<Rightarrow> ('e, 'n) Network \<Rightarrow> ('e, 'n, 'b) request \<Rightarrow> ('e, 'n, 'b) request" where
  "startReq lose rn r =
     (case readEndnameInfo (rq_endname (r_req r)) rn of
        (True, Some servername, Some server, rel, longreordering) \<Rightarrow>
          if \<not> rel \<and> lose then r\<lparr>r_at := Replying noReply\<rparr>
          else r\<lparr>r_at := Waiting servername server rel longreordering, r_handler := Running server\<rparr>
      | _ \<Rightarrow> r\<lparr>r_at := Replying noReply\<rparr>)"

text \<open>The wait for the handler stops when the server is dead.\<close>

definition pollReq :: "('e, 'n) Network \<Rightarrow> ('e, 'n, 'b) request \<Rightarrow> ('e, 'n, 'b) request" where
  "pollReq rn r =
     (case r_at r of
        Waiting servername server rel longreordering \<Rightarrow>
          if isServerDead (rq_endname (r_req r)) servername server rn then r\<lparr>r_at := Replying noReply\<rparr> else r
      | _ \<Rightarrow> r)"

text \<open>The end of \<open>processReq\<close> when the handler has a reply.\<close>

definition endReq :: "bool \<Rightarrow> ('e, 'n) Network \<Rightarrow> 'b replyMsg \<Rightarrow> ('e, 'n, 'b) request \<Rightarrow> ('e, 'n, 'b) request" where
  "endReq lose rn reply r =
     (case r_at r of
        Waiting servername server rel longreordering \<Rightarrow>
          if isServerDead (rq_endname (r_req r)) servername server rn then r\<lparr>r_at := Replying noReply\<rparr>
          else if \<not> rel \<and> lose then r\<lparr>r_at := Replying noReply\<rparr>
          else r\<lparr>r_at := Replying reply\<rparr>
      | _ \<Rightarrow> r)"

subsection \<open>Steps\<close>

record ('e, 'n, 'b, 'st, 'v) net =
  network :: "('e, 'n) Network"
  heap :: "nat \<Rightarrow> ('st, 'v) Server"
  reqs :: "('e, 'n, 'b) request list"
  stopped :: bool
  executed :: "(nat \<times> nat \<times> 'b replyMsg) list"

definition setReq :: "nat \<Rightarrow> ('e, 'n, 'b) request \<Rightarrow> ('e, 'n, 'b, 'st, 'v) net \<Rightarrow> ('e, 'n, 'b, 'st, 'v) net" where
  "setReq k r s = s\<lparr>reqs := (reqs s)[k := r]\<rparr>"

definition addBytes :: "'b list \<Rightarrow> ('e, 'n) Network \<Rightarrow> ('e, 'n) Network" where
  "addBytes bs rn = rn\<lparr>rn_bytes := rn_bytes rn + word_of_nat (length bs)\<rparr>"

text \<open>\<open>executed\<close> records which server ran the handler of which request; the program has no such list.\<close>

inductive net_step :: "('v, 'b) codec \<Rightarrow> ('e, 'n, 'b, 'st, 'v) net \<Rightarrow> ('e, 'n, 'b, 'st, 'v) net \<Rightarrow> bool"
  for c :: "('v, 'b) codec"
where
  call: "net_step c s (s\<lparr>reqs := reqs s @ [newRequest e c svcMeth args]\<rparr>)"
| gone: "k < length (reqs s) \<Longrightarrow> r_at (reqs s ! k) = Sending \<Longrightarrow> done_closed (network s) \<Longrightarrow>
     net_step c s (setReq k ((reqs s ! k)\<lparr>r_at := Returned noReply\<rparr>) s)"
| take: "k < length (reqs s) \<Longrightarrow> r_at (reqs s ! k) = Sending \<Longrightarrow> \<not> stopped s \<Longrightarrow>
     net_step c s (setReq k ((reqs s ! k)\<lparr>r_at := Taken\<rparr>)
       (s\<lparr>network := addBytes (rq_args (r_req (reqs s ! k))) ((network s)\<lparr>rn_count := rn_count (network s) + 1\<rparr>)\<rparr>))"
| stop: "done_closed (network s) \<Longrightarrow> net_step c s (s\<lparr>stopped := True\<rparr>)"
| start: "k < length (reqs s) \<Longrightarrow> r_at (reqs s ! k) = Taken \<Longrightarrow>
     net_step c s (setReq k (startReq lose (network s) (reqs s ! k)) s)"
| handle: "k < length (reqs s) \<Longrightarrow> r_handler (reqs s ! k) = Running server \<Longrightarrow>
     Server_dispatch c (r_req (reqs s ! k)) (heap s server) = Inr (reply, svr) \<Longrightarrow>
     net_step c s (setReq k ((reqs s ! k)\<lparr>r_handler := Finished server reply\<rparr>)
       (s\<lparr>heap := (heap s)(server := svr), executed := executed s @ [(k, server, reply)]\<rparr>))"
| poll: "k < length (reqs s) \<Longrightarrow> net_step c s (setReq k (pollReq (network s) (reqs s ! k)) s)"
| finish: "k < length (reqs s) \<Longrightarrow> r_handler (reqs s ! k) = Finished server reply \<Longrightarrow>
     net_step c s (setReq k (endReq lose (network s) reply (reqs s ! k)) s)"
| reply: "k < length (reqs s) \<Longrightarrow> r_at (reqs s ! k) = Replying rep \<Longrightarrow>
     net_step c s (setReq k ((reqs s ! k)\<lparr>r_at := Returned rep\<rparr>) (s\<lparr>network := addBytes (rp_reply rep) (network s)\<rparr>))"
| admin: "rn' \<in> {Reliable b (network s), LongReordering b (network s), LongDelays b (network s), DeleteServer name (network s),
       Connect endname name (network s), Enable endname b (network s)} \<Longrightarrow> net_step c s (s\<lparr>network := rn'\<rparr>)"
| addServer: "net_step c s (s\<lparr>network := AddServer name server (network s)\<rparr>)"
| makeEnd: "MakeEnd endname (network s) = Inr (e, rn') \<Longrightarrow> net_step c s (s\<lparr>network := rn'\<rparr>)"
| cleanup: "Cleanup (network s) = Inr rn' \<Longrightarrow> net_step c s (s\<lparr>network := rn'\<rparr>)"

definition startNet :: "(nat \<Rightarrow> ('st, 'v) Server) \<Rightarrow> ('e, 'n, 'b, 'st, 'v) net" where
  "startNet h = \<lparr>network = MakeNetwork, heap = h, reqs = [], stopped = False, executed = []\<rparr>"

definition net_reachable :: "('v, 'b) codec \<Rightarrow> ('e, 'n, 'b, 'st, 'v) net \<Rightarrow> bool" where
  "net_reachable c s \<longleftrightarrow> (\<exists>h. (net_step c)\<^sup>*\<^sup>* (startNet h) s)"

end
