(* ===== verification/LabRPC_Props.thy ===== *)
theory LabRPC_Props
  imports LabRPC
begin

text \<open>
  What a caller can rely on: a handler runs at most once for a call, a positive reply is the reply of
  that run, a server that was deleted before its handler ran never answers, and a call that is not
  answered can go on.
\<close>

subsection \<open>Where a request is\<close>

definition positive :: "('n, 'b) place \<Rightarrow> bool" where
  "positive p = (case p of Replying rep \<Rightarrow> rp_ok rep | Returned rep \<Rightarrow> rp_ok rep | _ \<Rightarrow> False)"

definition negative :: "('n, 'b) place \<Rightarrow> bool" where
  "negative p = (case p of Replying rep \<Rightarrow> \<not> rp_ok rep | Returned rep \<Rightarrow> \<not> rp_ok rep | _ \<Rightarrow> False)"

definition waits_for :: "nat \<Rightarrow> ('n, 'b) place \<Rightarrow> bool" where
  "waits_for server p = (case p of Waiting _ server' _ _ \<Rightarrow> server' = server | _ \<Rightarrow> False)"

definition answers :: "'b replyMsg \<Rightarrow> ('n, 'b) place \<Rightarrow> bool" where
  "answers rep p \<longleftrightarrow> p = Replying rep \<or> p = Returned rep"

lemmas place_defs = positive_def negative_def waits_for_def answers_def noReply_def

definition req_ok :: "nat \<Rightarrow> ('e, 'n, 'b) request \<Rightarrow> (nat \<times> nat \<times> 'b replyMsg) list \<Rightarrow> bool" where
  "req_ok k r ex =
     (case r_handler r of
        NotStarted \<Rightarrow> k \<notin> fst ` set ex \<and> (r_at r = Sending \<or> r_at r = Taken \<or> negative (r_at r))
      | Running server \<Rightarrow> k \<notin> fst ` set ex \<and> (waits_for server (r_at r) \<or> negative (r_at r))
      | Finished server reply \<Rightarrow> (k, server, reply) \<in> set ex \<and> (waits_for server (r_at r) \<or> negative (r_at r) \<or> answers reply (r_at r)))"

definition net_inv :: "('e, 'n, 'b, 'st, 'v) net \<Rightarrow> bool" where
  "net_inv s \<longleftrightarrow> distinct (map fst (executed s)) \<and> (\<forall>(k, server, reply)\<in>set (executed s). k < length (reqs s) \<and> rp_ok reply) \<and>
     (\<forall>k<length (reqs s). req_ok k (reqs s ! k) (executed s))"

lemma reply_ok: "Server_dispatch c req rs = Inr (reply, rs') \<Longrightarrow> rp_ok reply"
  by (auto simp: Server_dispatch_def Service_dispatch_def Let_def split: option.splits prod.splits)

text \<open>A step that changes one request and not the list of runs keeps the invariant if it keeps it for
  the request.\<close>

lemma net_inv_setReq:
  assumes "net_inv s" and "k < length (reqs s) \<Longrightarrow> req_ok k r (executed s)"
  shows "net_inv (setReq k r s)"
  using assms by (cases "k < length (reqs s)") (auto simp: net_inv_def setReq_def nth_list_update)

lemma net_inv_network: "net_inv s \<Longrightarrow> net_inv (s\<lparr>network := n\<rparr>)"
  by (simp add: net_inv_def)

lemma start_ok: "req_ok k r ex \<Longrightarrow> r_at r = Taken \<Longrightarrow> req_ok k (startReq lose n r) ex"
  by (auto simp: req_ok_def startReq_def place_defs split: handler.splits option.splits bool.splits prod.splits)

lemma poll_ok: "req_ok k r ex \<Longrightarrow> req_ok k (pollReq n r) ex"
  by (auto simp: req_ok_def pollReq_def place_defs split: handler.splits place.splits)

lemma end_ok: "req_ok k r ex \<Longrightarrow> r_handler r = Finished server reply \<Longrightarrow> req_ok k (endReq lose n reply r) ex"
  by (auto simp: req_ok_def endReq_def place_defs split: place.splits)

lemma gone_ok: "req_ok k r ex \<Longrightarrow> r_at r = Sending \<Longrightarrow> req_ok k (r\<lparr>r_at := Returned noReply\<rparr>) ex"
  by (auto simp: req_ok_def place_defs split: handler.splits)

lemma take_ok: "req_ok k r ex \<Longrightarrow> r_at r = Sending \<Longrightarrow> req_ok k (r\<lparr>r_at := Taken\<rparr>) ex"
  by (auto simp: req_ok_def place_defs split: handler.splits)

lemma return_ok: "req_ok k r ex \<Longrightarrow> r_at r = Replying rep \<Longrightarrow> req_ok k (r\<lparr>r_at := Returned rep\<rparr>) ex"
  by (auto simp: req_ok_def place_defs split: handler.splits)

lemma net_inv_req: "net_inv s \<Longrightarrow> k < length (reqs s) \<Longrightarrow> req_ok k (reqs s ! k) (executed s)"
  by (simp add: net_inv_def)

lemma net_inv_step: "net_step c s s' \<Longrightarrow> net_inv s \<Longrightarrow> net_inv s'"
proof (induction rule: net_step.induct)
  case (call s e svcMeth args)
  have "length (reqs s) \<notin> fst ` set (executed s)" using call by (auto simp: net_inv_def)
  then show ?case using call by (fastforce simp: net_inv_def req_ok_def newRequest_def nth_append less_Suc_eq)
next
  case (gone k s)
  then show ?case by (intro net_inv_setReq gone_ok net_inv_req)
next
  case (take k s)
  then show ?case by (intro net_inv_setReq net_inv_network) (simp_all add: take_ok net_inv_req)
next
  case (handle k s server reply svr)
  have q: "req_ok k (reqs s ! k) (executed s)" using handle by (simp add: net_inv_def)
  then have k: "k \<notin> fst ` set (executed s)" using handle.hyps(2) by (simp add: req_ok_def)
  have "req_ok j (reqs s ! j) (executed s @ [(k, server, reply)])" if "j < length (reqs s)" "j \<noteq> k" for j
    using handle.prems that by (auto simp: net_inv_def req_ok_def split: handler.splits)
  moreover have "req_ok k ((reqs s ! k)\<lparr>r_handler := Finished server reply\<rparr>) (executed s @ [(k, server, reply)])"
    using q handle.hyps(2) by (auto simp: req_ok_def)
  ultimately show ?case using handle k reply_ok [OF handle.hyps(3)]
    by (auto simp: net_inv_def setReq_def nth_list_update)
next
  case (start k s lose)
  then show ?case by (intro net_inv_setReq start_ok net_inv_req)
next
  case (poll k s)
  then show ?case by (intro net_inv_setReq poll_ok net_inv_req)
next
  case (finish k s server reply lose)
  then show ?case by (intro net_inv_setReq end_ok net_inv_req)
next
  case (reply k s rep)
  then show ?case by (intro net_inv_setReq net_inv_network) (simp_all add: return_ok net_inv_req)
qed (auto simp: net_inv_def)

lemma reachable_net_inv: "net_reachable c s \<Longrightarrow> net_inv s"
proof -
  have "(net_step c)\<^sup>*\<^sup>* s s' \<Longrightarrow> net_inv s \<Longrightarrow> net_inv s'" for s s'
    by (induction rule: rtranclp_induct) (auto intro: net_inv_step)
  moreover have "net_inv (startNet h)" for h by (simp add: net_inv_def startNet_def)
  ultimately show "net_reachable c s \<Longrightarrow> net_inv s" by (auto simp: net_reachable_def)
qed

text \<open>
  C9: in every reachable state of the network, the handler of a request has run at most once, and a
  call that has returned with a reply got the reply of that run.
\<close>

theorem rpc_at_most_once:
  assumes "net_reachable c s"
  shows "distinct (map fst (executed s)) \<and>
    (\<forall>k<length (reqs s). \<forall>rep. r_at (reqs s ! k) = Returned rep \<and> rp_ok rep \<longrightarrow>
       (\<exists>server. (k, server, rep) \<in> set (executed s)))"
proof -
  have inv: "net_inv s" by (rule reachable_net_inv [OF assms])
  have "\<exists>server. (k, server, rep) \<in> set (executed s)"
    if "k < length (reqs s)" "r_at (reqs s ! k) = Returned rep" "rp_ok rep" for k rep
    using net_inv_req [OF inv that(1)] that(2,3) by (auto simp: req_ok_def place_defs split: handler.splits)
  then show ?thesis using inv by (auto simp: net_inv_def)
qed

subsection \<open>A server that was deleted\<close>

definition ran_on :: "nat \<Rightarrow> nat \<Rightarrow> ('e, 'n, 'b, 'st, 'v) net \<Rightarrow> bool" where
  "ran_on k server s \<longleftrightarrow> (\<exists>rep. (k, server, rep) \<in> set (executed s))"

definition registered :: "nat \<Rightarrow> ('e, 'n, 'b, 'st, 'v) net \<Rightarrow> bool" where
  "registered server s \<longleftrightarrow> server \<in> ran (servers (network s))"

lemma executed_mono: "net_step c s s' \<Longrightarrow> set (executed s) \<subseteq> set (executed s')"
  by (induction rule: net_step.induct) (auto simp: setReq_def)

lemma ran_on_unique:
  assumes "net_inv s" and "ran_on k p s" and "ran_on k q s"
  shows "p = q"
proof -
  obtain r r' where "(k, p, r) \<in> set (executed s)" "(k, q, r') \<in> set (executed s)" using assms(2,3) by (auto simp: ran_on_def)
  moreover have "distinct (map fst (executed s))" using assms(1) by (simp add: net_inv_def)
  ultimately have "(p, r) = (q, r')" by (metis map_of_eq_Some_iff option.inject)
  then show ?thesis by simp
qed

lemma positive_ran:
  assumes "net_inv s" and "k < length (reqs s)" and "positive (r_at (reqs s ! k))"
  shows "\<exists>server. ran_on k server s"
  using net_inv_req [OF assms(1,2)] assms(3)
  by (auto simp: req_ok_def place_defs ran_on_def split: handler.splits place.splits)

text \<open>A request gets a positive reply only from a server that is registered at that moment.\<close>

lemma becomes_positive:
  assumes "net_step c s s'" and "net_inv s" and "k < length (reqs s')" and "positive (r_at (reqs s' ! k))"
  shows "k < length (reqs s) \<and> (positive (r_at (reqs s ! k)) \<or> (\<exists>server. ran_on k server s \<and> registered server s))"
  using assms
proof (induction rule: net_step.induct)
  case (call s e svcMeth args)
  then show ?case by (auto simp: newRequest_def nth_append less_Suc_eq place_defs)
next
  case (start j s lose)
  then show ?case
    by (cases "j = k") (auto simp: setReq_def startReq_def place_defs split: option.splits bool.splits prod.splits if_splits)
next
  case (poll j s)
  then show ?case by (cases "j = k") (auto simp: setReq_def pollReq_def place_defs split: place.splits if_splits)
next
  case (finish j s server reply lose)
  show ?case
  proof (cases "j = k \<and> \<not> positive (r_at (reqs s ! k))")
    case True
    then obtain n q rel lr where w: "r_at (reqs s ! k) = Waiting n q rel lr" "servers (network s) n = Some q"
      using finish by (auto simp: setReq_def endReq_def isServerDead_def place_defs split: place.splits if_splits)
    moreover have "ran_on k q s"
      using net_inv_req [OF finish.prems(1) finish.hyps(1)] finish.hyps(2) w(1) True
      by (auto simp: req_ok_def place_defs ran_on_def)
    ultimately show ?thesis using finish.hyps(1) True by (auto simp: registered_def ran_def)
  next
    case False
    then show ?thesis using finish.prems by (auto simp: setReq_def)
  qed
next
  case (handle j s server reply svr)
  then show ?case by (cases "j = k") (auto simp: setReq_def)
qed (auto simp: setReq_def nth_list_update place_defs split: if_splits)

lemma silent_step:
  assumes "net_step c s s'" and "net_inv s" and "\<not> registered server s"
    and silent: "k < length (reqs s) \<Longrightarrow> ran_on k server s \<Longrightarrow> \<not> positive (r_at (reqs s ! k))"
    and k: "k < length (reqs s')" "ran_on k server s'"
  shows "\<not> positive (r_at (reqs s' ! k))"
proof
  assume pos: "positive (r_at (reqs s' ! k))"
  have mono: "ran_on k q s \<Longrightarrow> ran_on k q s'" for q using executed_mono [OF assms(1)] by (auto simp: ran_on_def)
  have same: "q = server" if "ran_on k q s" for q
    using ran_on_unique [OF net_inv_step [OF assms(1,2)] mono [OF that] k(2)] .
  from becomes_positive [OF assms(1,2) k(1) pos] have kl: "k < length (reqs s)"
    and "positive (r_at (reqs s ! k)) \<or> (\<exists>q. ran_on k q s \<and> registered q s)" by auto
  then show False
  proof (elim disjE exE conjE)
    assume p: "positive (r_at (reqs s ! k))"
    obtain q where "ran_on k q s" using positive_ran [OF assms(2) kl p] by blast
    then show False using same silent [OF kl] p by blast
  qed (use same assms(3) in blast)
qed

text \<open>
  C10: if a server is deleted before it has run the handler of a request, and it is not added again, the
  request never gets a positive reply from it, even if the handler runs later.
\<close>

theorem deleted_server_silent:
  assumes "net_reachable c s" and "\<not> registered server s" and "\<not> ran_on k server s"
    and "(\<lambda>x y. net_step c x y \<and> \<not> registered server y)\<^sup>*\<^sup>* s s'" and "k < length (reqs s')" and "ran_on k server s'"
  shows "\<not> positive (r_at (reqs s' ! k))"
proof -
  have "net_inv s' \<and> \<not> registered server s' \<and> (k < length (reqs s') \<longrightarrow> ran_on k server s' \<longrightarrow> \<not> positive (r_at (reqs s' ! k)))"
    using assms(4)
  proof (induction rule: rtranclp_induct)
    case base
    then show ?case using reachable_net_inv [OF assms(1)] assms(2,3) by blast
  next
    case (step y z)
    then show ?case using net_inv_step silent_step by blast
  qed
  then show ?thesis using assms(5,6) by blast
qed

subsection \<open>A call that is not answered can go on\<close>

text \<open>
  The hypothesis of the lemmas: the request names a handler of the server that it has reached or that its end leads to.
\<close>

definition reaches :: "nat \<Rightarrow> ('e, 'n, 'b, 'st, 'v) net \<Rightarrow> nat \<Rightarrow> bool" where
  "reaches k s server \<longleftrightarrow> r_handler (reqs s ! k) = Running server \<or>
     (\<exists>name. connections (network s) (rq_endname (r_req (reqs s ! k))) = Some name \<and> servers (network s) name = Some server)"

definition dispatches :: "('v, 'b) codec \<Rightarrow> nat \<Rightarrow> ('e, 'n, 'b, 'st, 'v) net \<Rightarrow> bool" where
  "dispatches c k s \<longleftrightarrow> (\<forall>server. reaches k s server \<longrightarrow> (\<exists>x. Server_dispatch c (r_req (reqs s ! k)) (heap s server) = Inr x))"

definition returned_at :: "nat \<Rightarrow> ('e, 'n, 'b, 'st, 'v) net \<Rightarrow> bool" where
  "returned_at k s \<longleftrightarrow> k < length (reqs s) \<and> (\<exists>rep. r_at (reqs s ! k) = Returned rep)"

definition can_return :: "('v, 'b) codec \<Rightarrow> nat \<Rightarrow> ('e, 'n, 'b, 'st, 'v) net \<Rightarrow> bool" where
  "can_return c k s \<longleftrightarrow> (\<exists>s'. (net_step c)\<^sup>*\<^sup>* s s' \<and> returned_at k s')"

lemma can_return_step: "net_step c s s' \<Longrightarrow> can_return c k s' \<Longrightarrow> can_return c k s"
  by (auto simp: can_return_def intro: converse_rtranclp_into_rtranclp)

lemma can_return_now: "returned_at k s \<Longrightarrow> can_return c k s"
  by (auto simp: can_return_def)

lemma replying_returns: "k < length (reqs s) \<Longrightarrow> r_at (reqs s ! k) = Replying rep \<Longrightarrow> can_return c k s"
  by (rule can_return_step [OF net_step.reply can_return_now]) (auto simp: returned_at_def setReq_def)

lemma endReq_replies: "r_at r = Waiting n q rel lr \<Longrightarrow> \<exists>rep. r_at (endReq lose rn reply r) = Replying rep"
  by (simp add: endReq_def)

lemma finished_returns:
  assumes "k < length (reqs s)" and "r_at (reqs s ! k) = Waiting n q rel lr" and "r_handler (reqs s ! k) = Finished q reply"
  shows "can_return c k s"
proof -
  obtain rep where "r_at (endReq False (network s) reply (reqs s ! k)) = Replying rep" using endReq_replies [OF assms(2)] by blast
  then show ?thesis using assms(1)
    by (intro can_return_step [OF net_step.finish [OF assms(1,3), of c False]] replying_returns [where rep = rep])
       (simp_all add: setReq_def)
qed

lemma running_returns:
  assumes "k < length (reqs s)" and "r_at (reqs s ! k) = Waiting n q rel lr" and "r_handler (reqs s ! k) = Running q"
    and "dispatches c k s"
  shows "can_return c k s"
proof -
  obtain reply svr where d: "Server_dispatch c (r_req (reqs s ! k)) (heap s q) = Inr (reply, svr)"
    using assms(3,4) by (metis dispatches_def reaches_def surj_pair)
  show ?thesis using assms(1,2)
    by (intro can_return_step [OF net_step.handle [OF assms(1,3) d]] finished_returns [where reply = reply and q = q])
       (auto simp: setReq_def)
qed

lemma startReq_cases:
  "(\<exists>rep. r_at (startReq lose rn r) = Replying rep) \<or>
   (\<exists>n q rel lr. r_at (startReq lose rn r) = Waiting n q rel lr \<and> r_handler (startReq lose rn r) = Running q \<and>
      r_req (startReq lose rn r) = r_req r \<and> connections rn (rq_endname (r_req r)) = Some n \<and> servers rn n = Some q)"
  by (auto simp: startReq_def readEndnameInfo_def Let_def split: option.splits bool.splits prod.splits)

lemma taken_returns:
  assumes "k < length (reqs s)" and "r_at (reqs s ! k) = Taken" and "dispatches c k s"
  shows "can_return c k s"
proof (rule can_return_step [OF net_step.start [OF assms(1,2), of c False]])
  let ?s = "setReq k (startReq False (network s) (reqs s ! k)) s"
  show "can_return c k ?s" using startReq_cases [of False "network s" "reqs s ! k"]
  proof (elim disjE exE conjE)
    fix rep assume "r_at (startReq False (network s) (reqs s ! k)) = Replying rep"
    then show ?thesis using assms(1) by (intro replying_returns [where rep = rep]) (simp_all add: setReq_def)
  next
    fix n q rel lr
    assume "r_at (startReq False (network s) (reqs s ! k)) = Waiting n q rel lr"
      "r_handler (startReq False (network s) (reqs s ! k)) = Running q"
      "r_req (startReq False (network s) (reqs s ! k)) = r_req (reqs s ! k)"
      "connections (network s) (rq_endname (r_req (reqs s ! k))) = Some n" "servers (network s) n = Some q"
    then show ?thesis using assms(1,3)
      by (intro running_returns [where n = n and q = q and rel = rel and lr = lr])
         (auto simp: setReq_def dispatches_def reaches_def)
  qed
qed

text \<open>The goroutine of the network ends only after \<open>Cleanup\<close>.\<close>

lemma stopped_closed_step: "net_step c s s' \<Longrightarrow> (stopped s \<longrightarrow> done_closed (network s)) \<Longrightarrow> stopped s' \<longrightarrow> done_closed (network s')"
  by (induction rule: net_step.induct)
     (auto simp: setReq_def addBytes_def Reliable_def LongReordering_def LongDelays_def DeleteServer_def Connect_def
        Enable_def AddServer_def MakeEnd_def Cleanup_def Let_def split: if_splits)

lemma stopped_closed: "net_reachable c s \<Longrightarrow> stopped s \<Longrightarrow> done_closed (network s)"
proof -
  have "(net_step c)\<^sup>*\<^sup>* s s' \<Longrightarrow> (stopped s \<longrightarrow> done_closed (network s)) \<Longrightarrow> stopped s' \<longrightarrow> done_closed (network s')" for s s'
    by (induction rule: rtranclp_induct) (auto dest: stopped_closed_step)
  then show "net_reachable c s \<Longrightarrow> stopped s \<Longrightarrow> done_closed (network s)" by (fastforce simp: net_reachable_def startNet_def)
qed

lemma sending_returns:
  assumes "net_reachable c s" and "k < length (reqs s)" and "r_at (reqs s ! k) = Sending" and "dispatches c k s"
  shows "can_return c k s"
proof (cases "stopped s")
  case True
  then show ?thesis using assms
    by (intro can_return_step [OF net_step.gone [OF assms(2,3)] can_return_now])
       (auto simp: stopped_closed setReq_def returned_at_def)
next
  case False
  then show ?thesis using assms
    by (intro can_return_step [OF net_step.take [OF assms(2,3)] taken_returns]) (auto simp: setReq_def addBytes_def dispatches_def reaches_def)
qed

text \<open>
  C28: in every reachable state of the network, whatever ends are disabled and servers deleted, every
  call whose request names a handler of the server that it has reached, or to which its end leads, can still return: no
  request is lost so that its caller waits forever.
\<close>

theorem rpc_can_return:
  assumes "net_reachable c s" and "k < length (reqs s)" and "dispatches c k s"
  shows "\<exists>s'. (net_step c)\<^sup>*\<^sup>* s s' \<and> (\<exists>rep. r_at (reqs s' ! k) = Returned rep)"
proof -
  have q: "req_ok k (reqs s ! k) (executed s)" by (rule net_inv_req [OF reachable_net_inv [OF assms(1)] assms(2)])
  have "can_return c k s"
  proof (cases "r_at (reqs s ! k)")
    case (Waiting n server rel lr)
    then show ?thesis using q running_returns [OF assms(2) Waiting _ assms(3)] finished_returns [OF assms(2) Waiting]
      by (auto simp: req_ok_def place_defs split: handler.splits)
  next
    case (Returned rep)
    then show ?thesis using assms(2) by (simp add: can_return_now returned_at_def)
  qed (use assms in \<open>auto intro: sending_returns taken_returns replying_returns\<close>)
  then show ?thesis by (auto simp: can_return_def returned_at_def)
qed

subsection \<open>Which handler runs\<close>

lemma lastIndexFrom_none: "c \<notin> set xs \<Longrightarrow> lastIndexFrom i c xs found = found"
  by (induction xs arbitrary: i) auto

lemma lastIndexFrom_append: "lastIndexFrom i c (xs @ ys) found = lastIndexFrom (i + int (length xs)) c ys (lastIndexFrom i c xs found)"
  by (induction xs arbitrary: i found) (auto simp: algebra_simps)

lemma lastIndex_last: "c \<notin> set ys \<Longrightarrow> lastIndex c (xs @ c # ys) = int (length xs)"
  by (simp add: lastIndex_def lastIndexFrom_append lastIndexFrom_none)

text \<open>
  C29: a request for the method \<open>m\<close> of a service, sent with arguments that the codec can carry, runs
  that method of the service on the arguments that were sent and nothing else of the server, counts one
  request, and its caller gets the method's reply, provided that it calls with a new variable for it.
\<close>

theorem rpc_runs_method:
  assumes codec: "\<And>v. dec c (enc c v) (zero c) = (v, True)"
    and "services rs svcName = Some svc" and "svc_methods svc m = Some f" and "CHR ''.'' \<notin> set m"
    and "f (rcvr svc) args = (st, v)"
  shows "\<exists>rep. Server_dispatch c (r_req (newRequest e c (svcName @ ''.'' @ m) args)) rs =
      Inr (rep, rs\<lparr>services := (services rs)(svcName \<mapsto> svc\<lparr>rcvr := st\<rparr>), srv_count := srv_count rs + 1\<rparr>) \<and>
    callResult c rep (zero c) = Inr (True, v)"
proof -
  have "nat (int (length svcName) + 1) = Suc (length svcName)" by simp
  then have "Server_dispatch c (r_req (newRequest e c (svcName @ ''.'' @ m) args)) rs = Inr (\<lparr>rp_ok = True, rp_reply = enc c v\<rparr>,
      rs\<lparr>services := (services rs)(svcName \<mapsto> svc\<lparr>rcvr := st\<rparr>), srv_count := srv_count rs + 1\<rparr>)"
    using assms by (simp add: Server_dispatch_def Service_dispatch_def newRequest_def lastIndex_last)
  moreover have "callResult c \<lparr>rp_ok = True, rp_reply = enc c v\<rparr> (zero c) = Inr (True, v)" by (simp add: callResult_def codec)
  ultimately show ?thesis by blast
qed

text \<open>A name without a dot, or one of a service or method that the server does not have, ends the process of
  the server.\<close>

lemma dispatch_no_dot: "CHR ''.'' \<notin> set (rq_svcMeth req) \<Longrightarrow> Server_dispatch c req rs = Inl SliceOutOfRange"
  by (simp add: Server_dispatch_def lastIndex_def lastIndexFrom_none slice_to_def)

lemma dispatch_unknown:
  assumes "rq_svcMeth req = svcName @ ''.'' @ m" and "CHR ''.'' \<notin> set m"
    and "case services rs svcName of None \<Rightarrow> True | Some svc \<Rightarrow> svc_methods svc m = None"
  shows "\<exists>msg. Server_dispatch c req rs = Inl (LogFatal msg)"
proof -
  have "nat (int (length svcName) + 1) = Suc (length svcName)" by simp
  then show ?thesis using assms
    by (auto simp: Server_dispatch_def Service_dispatch_def lastIndex_last split: option.splits)
qed

text \<open>\<open>MakeService\<close> offers exactly the exported methods with an argument, a pointer for the reply and no
  result.\<close>

definition suitable :: "('st, 'v) rpc_method \<Rightarrow> bool" where
  "suitable m \<longleftrightarrow> PkgPath (mt_Type m) = '''' \<and> NumIn (mt_Type m) = 3 \<and> In2_is_Ptr (mt_Type m) \<and> NumOut (mt_Type m) = 0"

lemma MakeService_methods:
  assumes "distinct (map mt_Name ms)"
  shows "svc_methods (MakeService typeName obj ms) nm = Some f \<longleftrightarrow> (\<exists>m\<in>set ms. suitable m \<and> mt_Name m = nm \<and> mt_Func m = f)"
  using assms
proof (induction ms rule: rev_induct)
  case Nil
  then show ?case by (simp add: MakeService_def)
next
  case (snoc m ms)
  then show ?case by (auto simp: MakeService_def suitable_def image_iff)
qed

lemma GetCount_deleted: "GetCount name h (DeleteServer name rn) = Inl NilDereference"
  by (simp add: GetCount_def DeleteServer_def)

subsection \<open>A run\<close>

text \<open>A server with one service, a counter that returns its old value plus the argument, and a call to it.\<close>

definition demoCodec :: "(nat, nat) codec" where
  "demoCodec = \<lparr>enc = (\<lambda>v. [v]), dec = (\<lambda>bs v. case bs of [x] \<Rightarrow> (x, True) | _ \<Rightarrow> (v, False)), zero = 0\<rparr>"

definition demoService :: "(nat, nat) Service" where
  "demoService = MakeService ''Counter'' 5
     [\<lparr>mt_Name = ''Add'', mt_Type = \<lparr>PkgPath = '''', NumIn = 3, In2_is_Ptr = True, NumOut = 0\<rparr>, mt_Func = (\<lambda>st v. (st + v, st + v))\<rparr>,
      \<lparr>mt_Name = ''Get'', mt_Type = \<lparr>PkgPath = '''', NumIn = 1, In2_is_Ptr = False, NumOut = 1\<rparr>, mt_Func = (\<lambda>st v. (st, st))\<rparr>]"

definition demoServer :: "(nat, nat) Server" where
  "demoServer = AddService demoService MakeServer"

definition demoEnd :: "nat ClientEnd" where
  "demoEnd = \<lparr>ce_endname = 0\<rparr>"

definition demoReply :: "nat replyMsg" where
  "demoReply = \<lparr>rp_ok = True, rp_reply = [7]\<rparr>"

lemma demo_dispatch:
  "Server_dispatch demoCodec (r_req (newRequest demoEnd demoCodec ''Counter.Add'' 2)) demoServer =
     Inr (demoReply, demoServer\<lparr>services := [''Counter'' \<mapsto> demoService\<lparr>rcvr := 7\<rparr>], srv_count := 1\<rparr>)"
  by (simp add: Server_dispatch_def Service_dispatch_def newRequest_def demoServer_def demoService_def demoCodec_def
      demoEnd_def demoReply_def AddService_def MakeServer_def MakeService_def lastIndex_def)

lemma net_reachable_step: "net_reachable c s \<Longrightarrow> net_step c s s' \<Longrightarrow> net_reachable c s'"
  by (auto simp: net_reachable_def intro: rtranclp.rtrancl_into_rtrancl)

text \<open>The request is at the server, whose handler has not run.\<close>

definition demoNetwork :: "(nat, string) Network" where
  "demoNetwork = Enable 0 True (AddServer ''s'' 0 (Connect 0 ''s'' (snd (projr (MakeEnd 0 MakeNetwork)))))"

definition demoSent :: "(nat, string, nat, nat, nat) net" where
  "demoSent = (startNet (\<lambda>_. demoServer))\<lparr>network := demoNetwork, reqs := [newRequest demoEnd demoCodec ''Counter.Add'' 2]\<rparr>"

definition demoTaken :: "(nat, string, nat, nat, nat) net" where
  "demoTaken = setReq 0 ((reqs demoSent ! 0)\<lparr>r_at := Taken\<rparr>)
     (demoSent\<lparr>network := addBytes (rq_args (r_req (reqs demoSent ! 0))) ((network demoSent)\<lparr>rn_count := rn_count (network demoSent) + 1\<rparr>)\<rparr>)"

definition demoRunning :: "(nat, string, nat, nat, nat) net" where
  "demoRunning = setReq 0 (startReq False (network demoTaken) (reqs demoTaken ! 0)) demoTaken"

lemmas demo_defs = demoNetwork_def demoSent_def demoTaken_def demoRunning_def startNet_def setReq_def addBytes_def
  startReq_def readEndnameInfo_def isEnabled_def Enable_def AddServer_def Connect_def MakeEnd_def MakeNetwork_def
  newRequest_def demoEnd_def Let_def

lemma demo_sent_reachable: "net_reachable demoCodec demoSent"
proof -
  let ?s0 = "startNet (\<lambda>_. demoServer) :: (nat, string, nat, nat, nat) net"
  let ?n1 = "snd (projr (MakeEnd 0 MakeNetwork)) :: (nat, string) Network"
  have "net_reachable demoCodec ?s0" by (auto simp: net_reachable_def)
  then have "net_reachable demoCodec (?s0\<lparr>network := ?n1\<rparr>)"
    by (rule net_reachable_step [OF _ net_step.makeEnd [where endname = 0 and e = demoEnd]])
       (simp add: startNet_def MakeEnd_def MakeNetwork_def demoEnd_def Let_def)
  then have "net_reachable demoCodec (?s0\<lparr>network := Connect 0 ''s'' ?n1\<rparr>)"
    using net_reachable_step [OF _ net_step.admin [where endname = 0 and name = "''s''"]] by fastforce
  then have "net_reachable demoCodec (?s0\<lparr>network := AddServer ''s'' 0 (Connect 0 ''s'' ?n1)\<rparr>)"
    using net_reachable_step [OF _ net_step.addServer [where name = "''s''" and server = 0]] by fastforce
  then have "net_reachable demoCodec (?s0\<lparr>network := demoNetwork\<rparr>)"
    using net_reachable_step [OF _ net_step.admin [where endname = 0 and b = True]] by (fastforce simp: demoNetwork_def)
  then have "net_reachable demoCodec (?s0\<lparr>network := demoNetwork, reqs := reqs ?s0 @ [newRequest demoEnd demoCodec ''Counter.Add'' 2]\<rparr>)"
    using net_reachable_step [OF _ net_step.call [where e = demoEnd and svcMeth = "''Counter.Add''" and args = 2]] by fastforce
  then show ?thesis by (simp add: demoSent_def startNet_def)
qed

lemma demo_running_reachable: "net_reachable demoCodec demoRunning"
proof -
  have "net_reachable demoCodec demoTaken" unfolding demoTaken_def
    by (rule net_reachable_step [OF demo_sent_reachable net_step.take]) (simp_all add: demoSent_def startNet_def newRequest_def)
  then show ?thesis unfolding demoRunning_def
    by (rule net_reachable_step [OF _ net_step.start]) (simp_all add: demoTaken_def demoSent_def startNet_def newRequest_def setReq_def)
qed

text \<open>The handler runs, \<open>processReq\<close> passes its reply on, and the call returns.\<close>

definition demoHandle :: "(nat, string, nat, nat, nat) net \<Rightarrow> (nat, string, nat, nat, nat) net" where
  "demoHandle s = setReq 0 ((reqs s ! 0)\<lparr>r_handler := Finished 0 demoReply\<rparr>)
     (s\<lparr>heap := (heap s)(0 := demoServer\<lparr>services := [''Counter'' \<mapsto> demoService\<lparr>rcvr := 7\<rparr>], srv_count := 1\<rparr>),
        executed := executed s @ [(0, 0, demoReply)]\<rparr>)"

definition demoFinish :: "(nat, string, nat, nat, nat) net \<Rightarrow> (nat, string, nat, nat, nat) net" where
  "demoFinish s = setReq 0 (endReq False (network s) demoReply (reqs s ! 0)) s"

definition demoReturned :: "(nat, string, nat, nat, nat) net" where
  "demoReturned = (let s = demoFinish (demoHandle demoRunning) in
     setReq 0 ((reqs s ! 0)\<lparr>r_at := Returned demoReply\<rparr>) (s\<lparr>network := addBytes (rp_reply demoReply) (network s)\<rparr>))"

definition demoDeleted :: "(nat, string, nat, nat, nat) net" where
  "demoDeleted = demoRunning\<lparr>network := DeleteServer ''s'' (network demoRunning)\<rparr>"

lemma demo_running:
  "reqs demoRunning = [(newRequest demoEnd demoCodec ''Counter.Add'' 2)\<lparr>r_at := Waiting ''s'' 0 True False, r_handler := Running 0\<rparr>]"
  "heap demoRunning = (\<lambda>_. demoServer)" "executed demoRunning = []" "servers (network demoRunning) = [''s'' \<mapsto> 0]"
  "isEnabled (network demoRunning) 0" "stopped demoRunning = False"
  by (simp_all add: demo_defs)

lemma demo_handle_step:
  assumes "reqs s = [(newRequest demoEnd demoCodec ''Counter.Add'' 2)\<lparr>r_at := p, r_handler := Running 0\<rparr>]" and "heap s 0 = demoServer"
  shows "net_step demoCodec s (demoHandle s)"
  unfolding demoHandle_def using assms demo_dispatch by (intro net_step.handle) auto

lemma demo_finish_step: "length (reqs s) = 1 \<Longrightarrow> r_handler (reqs s ! 0) = Finished 0 demoReply \<Longrightarrow> net_step demoCodec s (demoFinish s)"
  unfolding demoFinish_def by (rule net_step.finish) auto

lemma demo_returned_reachable: "net_reachable demoCodec demoReturned"
proof -
  have "net_reachable demoCodec (demoHandle demoRunning)"
    by (rule net_reachable_step [OF demo_running_reachable demo_handle_step]) (simp_all add: demo_running)
  then have r: "net_reachable demoCodec (demoFinish (demoHandle demoRunning))"
    by (rule net_reachable_step [OF _ demo_finish_step]) (simp_all add: demoHandle_def setReq_def demo_running)
  show ?thesis unfolding demoReturned_def Let_def
    by (rule net_reachable_step [OF r net_step.reply])
       (simp_all add: demoFinish_def demoHandle_def setReq_def demo_running endReq_def isServerDead_def isEnabled_def
          demoReply_def newRequest_def demoEnd_def demo_defs)
qed

theorem rpc_at_most_once_witness:
  "net_reachable demoCodec demoReturned \<and> r_at (reqs demoReturned ! 0) = Returned demoReply \<and>
   distinct (map fst (executed demoReturned)) \<and> (\<exists>server. (0, server, demoReply) \<in> set (executed demoReturned))"
proof -
  have "length (reqs demoReturned) = 1" "r_at (reqs demoReturned ! 0) = Returned demoReply" "rp_ok demoReply"
    by (simp_all add: demoReturned_def demoFinish_def demoHandle_def setReq_def demo_running Let_def demoReply_def)
  then show ?thesis using rpc_at_most_once [OF demo_returned_reachable] demo_returned_reachable by auto
qed

theorem deleted_server_silent_witness:
  "net_reachable demoCodec demoDeleted \<and> ran_on 0 0 (demoFinish (demoHandle demoDeleted)) \<and>
   \<not> positive (r_at (reqs (demoFinish (demoHandle demoDeleted)) ! 0))"
proof -
  let ?h = "demoHandle demoDeleted"
  let ?R = "\<lambda>x y. net_step demoCodec x y \<and> \<not> registered 0 y"
  have r: "net_reachable demoCodec demoDeleted" unfolding demoDeleted_def
    by (rule net_reachable_step [OF demo_running_reachable net_step.admin]) blast
  have u: "\<not> registered 0 demoDeleted" "\<not> registered 0 ?h" "\<not> registered 0 (demoFinish ?h)" "\<not> ran_on 0 0 demoDeleted"
    by (simp_all add: registered_def ran_on_def demoDeleted_def demoHandle_def demoFinish_def DeleteServer_def setReq_def demo_running)
  have "?R demoDeleted ?h" using demo_handle_step u by (simp add: demoDeleted_def demo_running)
  moreover have "?R ?h (demoFinish ?h)" using demo_finish_step u by (simp add: demoHandle_def demoDeleted_def demo_running setReq_def)
  ultimately have steps: "?R\<^sup>*\<^sup>* demoDeleted (demoFinish ?h)" by (rule converse_rtranclp_into_rtranclp [OF _ r_into_rtranclp])
  have ran: "ran_on 0 0 (demoFinish ?h)" by (auto simp: ran_on_def demoFinish_def demoHandle_def setReq_def)
  have "0 < length (reqs (demoFinish ?h))" by (simp add: demoFinish_def demoHandle_def demoDeleted_def setReq_def demo_running)
  then show ?thesis using deleted_server_silent [OF r u(1,4) steps _ ran] r ran by blast
qed

theorem rpc_can_return_witness:
  "net_reachable demoCodec demoDeleted \<and>
   (\<exists>s'. (net_step demoCodec)\<^sup>*\<^sup>* demoDeleted s' \<and> (\<exists>rep. r_at (reqs s' ! 0) = Returned rep))"
proof -
  have r: "net_reachable demoCodec demoDeleted" unfolding demoDeleted_def
    by (rule net_reachable_step [OF demo_running_reachable net_step.admin]) blast
  have "0 < length (reqs demoDeleted)" "dispatches demoCodec 0 demoDeleted"
    using demo_dispatch by (auto simp: demoDeleted_def dispatches_def demo_running)
  then show ?thesis using rpc_can_return [OF r] r by blast
qed

theorem rpc_runs_method_witness:
  "\<exists>rep. Server_dispatch demoCodec (r_req (newRequest demoEnd demoCodec ''Counter.Add'' 2)) demoServer =
      Inr (rep, demoServer\<lparr>services := (services demoServer)(''Counter'' \<mapsto> demoService\<lparr>rcvr := 7\<rparr>), srv_count := srv_count demoServer + 1\<rparr>) \<and>
    callResult demoCodec rep (zero demoCodec) = Inr (True, 7)"
  using rpc_runs_method [of demoCodec demoServer "''Counter''" demoService "''Add''" "\<lambda>st v. (st + v, st + v)" 2 7 7 demoEnd]
  by (simp add: demoCodec_def demoServer_def demoService_def AddService_def MakeServer_def MakeService_def)

end
