(* ===== verification/Config_Base.thy ===== *)
theory Config_Base
  imports LabRPC Raft_Server
begin

text \<open>
  What the test configurations \<^verbatim>\<open>raft/config.go\<close>, \<^verbatim>\<open>kvraft/config.go\<close>, \<^verbatim>\<open>shardctrler/config.go\<close> and
  \<^verbatim>\<open>shardkv/config.go\<close> share: persisters that are copied so that an old instance of a server cannot
  write to the state that the next one starts from, and tables of the names of the ends by which
  the servers talk to each other.
\<close>

subsection \<open>Persisters\<close>

text \<open>The persisters are objects, so that an instance and the configuration can hold the same one.\<close>

record ('c, 's) disk =
  cell :: "nat \<Rightarrow> ('c, 's) Persister"
  used :: nat

definition newPersister :: "('c, 's) Persister \<Rightarrow> ('c, 's) disk \<Rightarrow> nat \<times> ('c, 's) disk" where
  "newPersister p d = (used d, \<lparr>cell = (cell d)(used d := p), used = used d + 1\<rparr>)"

text \<open>The persisters of the servers of one group, by number, with \<open>None\<close> for \<open>nil\<close>.\<close>

type_synonym ('c, 's) slots = "nat option list \<times> ('c, 's) disk"

definition copySaved :: "nat \<Rightarrow> ('c, 's) slots \<Rightarrow> ('c, 's) slots go" where
  "copySaved i = (\<lambda>(saved, d).
     gbind (idx saved (int i)) (\<lambda>p. case p of
       None \<Rightarrow> Inr (saved, d)
     | Some a \<Rightarrow> (case newPersister (Persister_Copy (cell d a)) d of (b, d) \<Rightarrow> Inr (saved[i := Some b], d))))"

definition copyOrMakeSaved :: "nat \<Rightarrow> ('c, 's) slots \<Rightarrow> ('c, 's) slots go" where
  "copyOrMakeSaved i = (\<lambda>(saved, d).
     gbind (idx saved (int i)) (\<lambda>p. case p of
       None \<Rightarrow> (case newPersister MakePersister d of (b, d) \<Rightarrow> Inr (saved[i := Some b], d))
     | Some a \<Rightarrow> copySaved i (saved, d)))"

text \<open>The write of an instance to the persister that it was given.\<close>

definition writeCell :: "nat \<Rightarrow> ('c, 's) Persister \<Rightarrow> ('c, 's) disk \<Rightarrow> ('c, 's) disk" where
  "writeCell a p d = d\<lparr>cell := (cell d)(a := p)\<rparr>"

definition writeAll :: "(nat \<times> ('c, 's) Persister) list \<Rightarrow> ('c, 's) disk \<Rightarrow> ('c, 's) disk" where
  "writeAll ws d = fold (\<lambda>(a, p). writeCell a p) ws d"

lemma writeAll_keep:
  "used (writeAll ws d) = used d \<and> (b \<notin> fst ` set ws \<longrightarrow> cell (writeAll ws d) b = cell d b)"
  unfolding writeAll_def by (induction ws arbitrary: d) (auto simp: writeCell_def)

text \<open>
  What the configurations promise of the persister of server \<open>i\<close>: when the server is shut down and when it
  is started, its persister is a new object with the content of the old one.
\<close>

locale renewed_storage =
  fixes shutdown :: "nat \<Rightarrow> 'cfg \<Rightarrow> 'cfg go"
    and begin_server :: "nat \<Rightarrow> 'cfg \<Rightarrow> 'cfg go"
    and slot :: "nat \<Rightarrow> 'cfg \<Rightarrow> nat option"
    and storage :: "'cfg \<Rightarrow> ('c, 's) disk"
    and update :: "('c, 's) disk \<Rightarrow> 'cfg \<Rightarrow> 'cfg"
  assumes shutdown_slot: "shutdown i cfg = Inr cfg' \<Longrightarrow> slot i cfg = Some a \<Longrightarrow> a < used (storage cfg) \<Longrightarrow>
      \<exists>b. slot i cfg' = Some b \<and> used (storage cfg) \<le> b \<and> b < used (storage cfg') \<and> cell (storage cfg') b = cell (storage cfg) a"
    and begin_slot: "begin_server i cfg = Inr cfg' \<Longrightarrow> slot i cfg = Some a \<Longrightarrow> a < used (storage cfg) \<Longrightarrow>
      \<exists>b. slot i cfg' = Some b \<and> used (storage cfg) \<le> b \<and> b < used (storage cfg') \<and> cell (storage cfg') b = cell (storage cfg) a"
    and slot_update: "slot i (update d cfg) = slot i cfg"
    and storage_update: "storage (update d cfg) = d"
begin

text \<open>Whatever instances that were started before the shutdown write after it, the next instance starts from the
  content that the persister had at the shutdown, in a persister of its own.\<close>

lemma restart:
  assumes "shutdown i cfg = Inr cfg1" and "slot i cfg = Some a" and "a < used (storage cfg)"
    and "\<forall>(c, p)\<in>set ws. c < used (storage cfg)" and "begin_server i (update (writeAll ws (storage cfg1)) cfg1) = Inr cfg2"
  shows "\<exists>b. slot i cfg2 = Some b \<and> used (storage cfg) \<le> b \<and> cell (storage cfg2) b = cell (storage cfg) a"
proof -
  obtain b where b: "slot i cfg1 = Some b" "used (storage cfg) \<le> b" "b < used (storage cfg1)"
    "cell (storage cfg1) b = cell (storage cfg) a"
    using shutdown_slot [OF assms(1-3)] by blast
  let ?cfg = "update (writeAll ws (storage cfg1)) cfg1"
  have "b \<notin> fst ` set ws" using assms(4) b(2) by force
  then have w: "slot i ?cfg = Some b" "used (storage ?cfg) = used (storage cfg1)" "cell (storage ?cfg) b = cell (storage cfg1) b"
    using writeAll_keep [of ws "storage cfg1" b] b(1) by (simp_all add: slot_update storage_update)
  from begin_slot [OF assms(5) w(1)] b(3) w(2) obtain d where d: "slot i cfg2 = Some d" "used (storage cfg1) \<le> d"
    "cell (storage cfg2) d = cell (storage ?cfg) b" by auto
  moreover have "used (storage cfg) \<le> d" using d(2) b(2,3) by simp
  ultimately show ?thesis using w(3) b(4) by auto
qed

end

lemma Persister_Copy_id [simp]: "Persister_Copy p = p"
  by (simp add: Persister_Copy_def MakePersister_def)

lemma copySaved_slot:
  assumes "copySaved i (saved, d) = Inr (saved', d')" and "saved ! i = Some a" and "a < used d"
  shows "i < length saved \<and> saved' = saved[i := Some (used d)] \<and> used d' = used d + 1 \<and> cell d' = (cell d)(used d := cell d a)"
  using assms by (auto simp: copySaved_def newPersister_def idx_Inr_iff)

lemma copyOrMakeSaved_slot:
  assumes "copyOrMakeSaved i (saved, d) = Inr (saved', d')" and "saved ! i = Some a" and "a < used d"
  shows "i < length saved \<and> saved' = saved[i := Some (used d)] \<and> used d' = used d + 1 \<and> cell d' = (cell d)(used d := cell d a)"
  using assms by (auto simp: copyOrMakeSaved_def idx_Inr_iff copySaved_slot)

definition slotOf :: "nat \<Rightarrow> ('c, 's) slots \<Rightarrow> nat option" where
  "slotOf i = (\<lambda>(saved, d). if i < length saved then saved ! i else None)"

interpretation slots: renewed_storage copySaved copyOrMakeSaved slotOf snd "\<lambda>d (saved, _). (saved, d)"
proof unfold_locales
  fix i and cfg cfg' :: "('c, 's) slots" and a
  assume a: "slotOf i cfg = Some a" "a < used (snd cfg)"
  obtain saved d saved' d' where c: "cfg = (saved, d)" "cfg' = (saved', d')" by (metis surj_pair)
  let ?new = "\<exists>b. slotOf i cfg' = Some b \<and> used (snd cfg) \<le> b \<and> b < used (snd cfg') \<and> cell (snd cfg') b = cell (snd cfg) a"
  show "copySaved i cfg = Inr cfg' \<Longrightarrow> ?new"
    using a c copySaved_slot [of i saved d saved' d' a] by (auto simp: slotOf_def split: if_splits)
  show "copyOrMakeSaved i cfg = Inr cfg' \<Longrightarrow> ?new"
    using a c copyOrMakeSaved_slot [of i saved d saved' d' a] by (auto simp: slotOf_def split: if_splits)
qed (auto simp: slotOf_def)

subsection \<open>Ends\<close>

text \<open>\<open>endnames[i][j]\<close>, which panics for a server that was never started.\<close>

definition endname :: "string list option list \<Rightarrow> nat \<Rightarrow> nat \<Rightarrow> string go" where
  "endname tab i j = gbind (idx tab (int i)) (\<lambda>row. idx (case row of None \<Rightarrow> [] | Some names \<Rightarrow> names) (int j))"

definition isStarted :: "string list option list \<Rightarrow> nat \<Rightarrow> bool go" where
  "isStarted tab i = gbind (idx tab (int i)) (\<lambda>row. Inr (row \<noteq> None))"

text \<open>A loop that enables or disables the ends of those servers for which a condition holds.\<close>

definition enableWhere ::
    "bool \<Rightarrow> (nat \<Rightarrow> bool go) \<Rightarrow> (nat \<Rightarrow> string go) \<Rightarrow> nat list \<Rightarrow> (string, 'n) Network \<Rightarrow> (string, 'n) Network go" where
  "enableWhere b cond name = gfold (\<lambda>j rn.
     gbind (cond j) (\<lambda>c. if c then gbind (name j) (\<lambda>e. Inr (Enable e b rn)) else Inr rn))"

text \<open>A loop that makes an end for each name and connects it.\<close>

definition makeEnds :: "(string \<times> 'n) list \<Rightarrow> (string, 'n) Network \<Rightarrow> (string, 'n) Network go" where
  "makeEnds = gfold (\<lambda>(name, server) rn. gbind (MakeEnd name rn) (\<lambda>(_, rn). Inr (Connect name server rn)))"

text \<open>The part of a network that the loops leave alone.\<close>

definition sameButEnds :: "('e, 'n) Network \<Rightarrow> ('e, 'n) Network \<Rightarrow> bool" where
  "sameButEnds rn rn' \<longleftrightarrow> rn'\<lparr>ends := ends rn, enabled := enabled rn, connections := connections rn\<rparr> = rn"

lemma sameButEnds_refl [simp]: "sameButEnds rn rn"
  by (simp add: sameButEnds_def)

lemma sameButEnds_trans: "sameButEnds a b \<Longrightarrow> sameButEnds b c \<Longrightarrow> sameButEnds a c"
  by (cases a; cases b; cases c) (simp add: sameButEnds_def)

lemma sameButEnds_servers: "sameButEnds a b \<Longrightarrow> LabRPC.servers b = LabRPC.servers a"
  by (cases a; cases b) (simp add: sameButEnds_def)

lemma sameButEnds_reliable: "sameButEnds a b \<Longrightarrow> reliable b = reliable a \<and> longReordering b = longReordering a"
  by (cases a; cases b) (simp add: sameButEnds_def)

lemma sameButEnds_Enable: "sameButEnds rn (Enable e b rn)"
  by (simp add: sameButEnds_def Enable_def)

lemma isEnabled_Enable [simp]: "isEnabled (Enable e b rn) e' = (if e' = e then b else isEnabled rn e')"
  by (simp add: isEnabled_def Enable_def)

lemma Enable_sel [simp]: "ends (Enable e b rn) = ends rn" "connections (Enable e b rn) = connections rn"
  by (simp_all add: Enable_def)

lemma enableWhere_effect:
  assumes "enableWhere b cond name js rn = Inr rn'"
  shows "sameButEnds rn rn' \<and> ends rn' = ends rn \<and> connections rn' = connections rn \<and>
    (\<forall>e. isEnabled rn' e = (if \<exists>j\<in>set js. cond j = Inr True \<and> name j = Inr e then b else isEnabled rn e))"
  using assms
proof (induction js arbitrary: rn)
  case Nil
  then show ?case by (simp add: enableWhere_def)
next
  case (Cons j js)
  then obtain c rn1 where c: "cond j = Inr c"
    and rn1: "(if c then gbind (name j) (\<lambda>e. Inr (Enable e b rn)) else Inr rn) = Inr rn1"
    and rest: "enableWhere b cond name js rn1 = Inr rn'" by (auto simp: enableWhere_def)
  show ?case
  proof (cases c)
    case True
    then obtain e1 where e1: "name j = Inr e1" "rn1 = Enable e1 b rn" using rn1 by auto
    show ?thesis using Cons.IH [OF rest] c True e1 sameButEnds_trans [OF sameButEnds_Enable, of e1 b rn rn'] by auto
  next
    case False
    then show ?thesis using Cons.IH [OF rest] c rn1 by auto
  qed
qed

lemma makeEnds_effect:
  assumes "makeEnds xs rn = Inr rn'"
  shows "sameButEnds rn rn' \<and> distinct (map fst xs) \<and> (\<forall>e\<in>fst ` set xs. e \<notin> dom (ends rn)) \<and>
    dom (ends rn') = dom (ends rn) \<union> fst ` set xs \<and>
    (\<forall>e. isEnabled rn' e = (e \<notin> fst ` set xs \<and> isEnabled rn e)) \<and>
    (\<forall>e. connections rn' e = (case map_of xs e of Some s \<Rightarrow> Some s | None \<Rightarrow> connections rn e))"
  using assms
proof (induction xs arbitrary: rn)
  case Nil
  then show ?case by (simp add: makeEnds_def)
next
  case (Cons x xs)
  obtain name server where x: "x = (name, server)" by force
  obtain e rn1 where m: "MakeEnd name rn = Inr (e, rn1)" and rest: "makeEnds xs (Connect name server rn1) = Inr rn'"
    using Cons.prems x by (auto simp: makeEnds_def)
  let ?rn = "Connect name server rn1"
  have fresh: "name \<notin> dom (ends rn)" using m by (auto simp: MakeEnd_def split: if_splits)
  have rn: "sameButEnds rn ?rn" "dom (ends ?rn) = insert name (dom (ends rn))"
    "\<And>e. isEnabled ?rn e = (e \<noteq> name \<and> isEnabled rn e)" "\<And>e. connections ?rn e = (if e = name then Some server else connections rn e)"
    using m by (auto simp: MakeEnd_def Connect_def Let_def sameButEnds_def isEnabled_def split: if_splits)
  note IH = Cons.IH [OF rest]
  have new: "name \<notin> fst ` set xs" using IH unfolding rn(2) by auto
  have "sameButEnds rn rn'" by (rule sameButEnds_trans [OF rn(1)]) (rule conjunct1 [OF IH])
  moreover have "distinct (map fst (x # xs))" using IH new x by simp
  moreover have "\<forall>e\<in>fst ` set (x # xs). e \<notin> dom (ends rn)" using IH fresh unfolding rn(2) x by simp
  moreover have "dom (ends rn') = dom (ends rn) \<union> fst ` set (x # xs)" using IH unfolding rn(2) x by simp
  moreover have "isEnabled rn' e = (e \<notin> fst ` set (x # xs) \<and> isEnabled rn e)" for e using IH rn(3) x by auto
  moreover have "connections rn' e = (case map_of (x # xs) e of Some s \<Rightarrow> Some s | None \<Rightarrow> connections rn e)" for e
    using IH rn(4) x map_of_eq_None_iff [of xs name] new by (cases "e = name"; cases "map_of xs e") simp_all
  ultimately show ?case by blast
qed

subsection \<open>Tables of ends\<close>

text \<open>The end by which server \<open>i\<close> talks to server \<open>j\<close>, if \<open>i\<close> has been started.\<close>

definition named :: "string list option list \<Rightarrow> nat \<Rightarrow> string \<Rightarrow> nat \<Rightarrow> nat \<Rightarrow> bool" where
  "named tab n e i j \<longleftrightarrow> i < n \<and> j < n \<and> tab ! i \<noteq> None \<and> e = the (tab ! i) ! j"

text \<open>Different pairs of servers have different ends, which exist and lead to the right server.\<close>

definition tab_inv :: "(nat \<Rightarrow> 'n) \<Rightarrow> string list option list \<Rightarrow> nat \<Rightarrow> (string, 'n) Network \<Rightarrow> bool" where
  "tab_inv target tab n rn \<longleftrightarrow> length tab = n \<and> (\<forall>i<n. \<forall>r. tab ! i = Some r \<longrightarrow> length r = n) \<and>
     (\<forall>e i j i' j'. named tab n e i j \<longrightarrow> named tab n e i' j' \<longrightarrow> i = i' \<and> j = j') \<and>
     (\<forall>e i j. named tab n e i j \<longrightarrow> e \<in> dom (ends rn) \<and> connections rn e = Some (target j))"

lemma tab_invI:
  assumes "length tab = n" and "\<And>i r. i < n \<Longrightarrow> tab ! i = Some r \<Longrightarrow> length r = n"
    and "\<And>e i j i' j'. named tab n e i j \<Longrightarrow> named tab n e i' j' \<Longrightarrow> i = i' \<and> j = j'"
    and "\<And>e i j. named tab n e i j \<Longrightarrow> e \<in> dom (ends rn) \<and> connections rn e = Some (target j)"
  shows "tab_inv target tab n rn"
  unfolding tab_inv_def using assms by blast

lemma tab_invD:
  assumes "tab_inv target tab n rn"
  shows "length tab = n" and "\<And>i r. i < n \<Longrightarrow> tab ! i = Some r \<Longrightarrow> length r = n"
    and "\<And>e i j i' j'. named tab n e i j \<Longrightarrow> named tab n e i' j' \<Longrightarrow> i = i' \<and> j = j'"
    and "\<And>e i j. named tab n e i j \<Longrightarrow> e \<in> dom (ends rn)"
    and "\<And>e i j. named tab n e i j \<Longrightarrow> connections rn e = Some (target j)"
  using assms unfolding tab_inv_def by blast+

lemma tab_inv_cong: "tab_inv target tab n rn \<Longrightarrow> ends rn' = ends rn \<Longrightarrow> connections rn' = connections rn \<Longrightarrow> tab_inv target tab n rn'"
  by (simp add: tab_inv_def)

lemma endname_named:
  assumes "tab_inv target tab n rn" and "i < n" and "j < n"
  shows "endname tab i j = Inr e \<longleftrightarrow> named tab n e i j"
  using assms(2,3) tab_invD(1,2) [OF assms(1)] by (auto simp: endname_def named_def idx_Inr_iff split: option.splits)

lemma isStarted_named: "tab_inv target tab n rn \<Longrightarrow> i < n \<Longrightarrow> isStarted tab i = Inr (tab ! i \<noteq> None)"
  using tab_invD(1) [of target tab n rn] by (auto simp: isStarted_def)

lemma zip_targets: "zip (map names [0..<n]) (map target [0..<n]) = map (\<lambda>j. (names j, target j)) [0..<n]"
  by (rule nth_equalityI) simp_all

text \<open>A row of new ends, for a server that is started.\<close>

lemma tab_inv_newEnds:
  assumes inv: "tab_inv target tab n rn" and i: "i < n"
    and m: "makeEnds (zip (map names [0..<n]) (map target [0..<n])) rn = Inr rn'"
  shows "tab_inv target (tab[i := Some (map names [0..<n])]) n rn'" and "\<And>j. j < n \<Longrightarrow> names j \<notin> dom (ends rn)"
    and "\<And>e. isEnabled rn' e = (e \<notin> names ` {..<n} \<and> isEnabled rn e)" and "sameButEnds rn rn'"
proof -
  let ?tab = "tab[i := Some (map names [0..<n])]" and ?xs = "map (\<lambda>j. (names j, target j)) [0..<n]"
  have fst: "map fst ?xs = map names [0..<n]" "fst ` set ?xs = names ` {..<n}" by (auto simp: image_image)
  note eff = makeEnds_effect [OF m, unfolded zip_targets fst]
  note D = tab_invD [OF inv]
  show fresh: "\<And>j. j < n \<Longrightarrow> names j \<notin> dom (ends rn)" using eff by blast
  show "isEnabled rn' e = (e \<notin> names ` {..<n} \<and> isEnabled rn e)" for e using eff by blast
  show "sameButEnds rn rn'" using eff by blast
  have dist: "distinct (map names [0..<n])" using eff by blast
  have inj: "a < n \<Longrightarrow> b < n \<Longrightarrow> names a = names b \<Longrightarrow> a = b" for a b
    using dist by (simp add: distinct_map inj_on_def)
  have cur: "named ?tab n e a b \<longleftrightarrow> (if a = i then b < n \<and> e = names b else named tab n e a b)" for e a b
    using i D(1) by (auto simp: named_def)
  have old: "named tab n e a b \<Longrightarrow> e \<notin> names ` {..<n}" for e a b using D(4) fresh by blast
  have at: "map_of ?xs (names b) = Some (target b)" if "b < n" for b
    by (rule map_of_is_SomeI) (use that dist in \<open>auto simp: comp_def\<close>)
  show "tab_inv target ?tab n rn'"
  proof (rule tab_invI)
    show "length ?tab = n" using D(1) by simp
    show "a < n \<Longrightarrow> ?tab ! a = Some r \<Longrightarrow> length r = n" for a r using D(1,2) by (cases "a = i") auto
    show "a = a' \<and> b = b'" if "named ?tab n e a b" "named ?tab n e a' b'" for e a b a' b'
    proof (cases "a = i \<or> a' = i")
      case True
      then have "e \<in> names ` {..<n}" using that unfolding cur by (auto split: if_splits)
      then have "a = i \<and> a' = i" using that old unfolding cur by (metis (full_types))
      then show ?thesis using that inj unfolding cur by simp
    next
      case False
      then show ?thesis using that D(3) unfolding cur by simp
    qed
    show "e \<in> dom (ends rn') \<and> connections rn' e = Some (target b)" if "named ?tab n e a b" for e a b
    proof (cases "a = i")
      case True
      then have b: "b < n" "e = names b" using that unfolding cur by simp_all
      then have "connections rn' e = (case map_of ?xs (names b) of Some s \<Rightarrow> Some s | None \<Rightarrow> connections rn e)" using eff by blast
      then show ?thesis using b eff at [OF b(1)] by simp
    next
      case False
      then have c: "named tab n e a b" using that unfolding cur by simp
      then have "map_of ?xs e = None" using old [OF c] fst(2) by (metis map_of_eq_None_iff)
      moreover have "connections rn' e = (case map_of ?xs e of Some s \<Rightarrow> Some s | None \<Rightarrow> connections rn e)" using eff by blast
      ultimately show ?thesis using eff D(4,5) [OF c] by simp
    qed
  qed
qed

end
