(* ===== verification/Raft_Config.thy ===== *)
theory Raft_Config
  imports Config_Base "HOL-Library.AList"
begin

text \<open>
  The test configuration of Raft, \<^verbatim>\<open>raft/config.go\<close>: it starts, crashes and restarts the peers,
  connects them to the network and disconnects them, and checks what they apply and who leads.

  The peers are objects: \<open>objects\<close> has them by address, each with the address of its persister, and the
  network has a server for each under the same address. Random names of ends, clocks and the decoding of
  a snapshot are arguments. A message that the code formats is its constant part.
\<close>

record ('c, 's) raft_object =
  in_raft :: "('c, 's) Raft"
  in_disk :: nat

record ('c, 's) config =
  finished :: bool
  cfg_net :: "(string, nat) Network"
  cfg_n :: nat
  rafts :: "nat option list"
  applyErr :: "string list"
  connected :: "bool list"
  saved :: "nat option list"
  endnames :: "string list option list"
  logs :: "(int \<rightharpoonup> 'c option) list"
  cfg_lastApplied :: "int list"
  rpcs0 :: int
  cmds0 :: int
  bytes0 :: int
  maxIndex :: int
  maxIndex0 :: int
  objects :: "nat \<Rightarrow> ('c, 's) raft_object"
  nobjects :: nat
  cfg_disk :: "('c, 's) disk"

type_synonym ('c, 's) decoder = "'s list \<Rightarrow> (int \<times> 'c option list) option"

subsection \<open>Connections\<close>

definition connect :: "nat \<Rightarrow> ('c, 's) config \<Rightarrow> ('c, 's) config go" where
  "connect i cfg =
     gbind (set_idx (connected cfg) (int i) True) (\<lambda>conn.
     gbind (enableWhere True (\<lambda>j. idx conn (int j)) (\<lambda>j. endname (endnames cfg) i j) [0..<cfg_n cfg] (cfg_net cfg)) (\<lambda>rn.
     gbind (enableWhere True (\<lambda>j. idx conn (int j)) (\<lambda>j. endname (endnames cfg) j i) [0..<cfg_n cfg] rn) (\<lambda>rn.
     Inr (cfg\<lparr>connected := conn, cfg_net := rn\<rparr>))))"

definition disconnect :: "nat \<Rightarrow> ('c, 's) config \<Rightarrow> ('c, 's) config go" where
  "disconnect i cfg =
     gbind (set_idx (connected cfg) (int i) False) (\<lambda>conn.
     gbind (enableWhere False (\<lambda>j. isStarted (endnames cfg) i) (\<lambda>j. endname (endnames cfg) i j) [0..<cfg_n cfg] (cfg_net cfg)) (\<lambda>rn.
     gbind (enableWhere False (\<lambda>j. isStarted (endnames cfg) j) (\<lambda>j. endname (endnames cfg) j i) [0..<cfg_n cfg] rn) (\<lambda>rn.
     Inr (cfg\<lparr>connected := conn, cfg_net := rn\<rparr>))))"

definition setunreliable :: "bool \<Rightarrow> ('c, 's) config \<Rightarrow> ('c, 's) config" where
  "setunreliable unrel cfg = cfg\<lparr>cfg_net := Reliable (\<not> unrel) (cfg_net cfg)\<rparr>"

definition setlongreordering :: "bool \<Rightarrow> ('c, 's) config \<Rightarrow> ('c, 's) config" where
  "setlongreordering longrel cfg = cfg\<lparr>cfg_net := LongReordering longrel (cfg_net cfg)\<rparr>"

definition rpcTotal :: "('c, 's) config \<Rightarrow> int" where
  "rpcTotal cfg = GetTotalCount (cfg_net cfg)"

definition bytesTotal :: "('c, 's) config \<Rightarrow> int" where
  "bytesTotal cfg = GetTotalBytes (cfg_net cfg)"

definition rpcCount :: "nat \<Rightarrow> (nat \<Rightarrow> ('st, 'v) Server) \<Rightarrow> ('c, 's) config \<Rightarrow> int go" where
  "rpcCount server srvs cfg = GetCount server srvs (cfg_net cfg)"

subsection \<open>Crash and restart\<close>

text \<open>\<open>rf.Kill()\<close> for the instance at an address.\<close>

definition killObject :: "nat \<Rightarrow> ('c, 's) config \<Rightarrow> ('c, 's) config" where
  "killObject a cfg = cfg\<lparr>objects := (objects cfg)(a := (objects cfg a)\<lparr>in_raft := Kill (in_raft (objects cfg a))\<rparr>)\<rparr>"

definition killRaft :: "nat \<Rightarrow> ('c, 's) config \<Rightarrow> ('c, 's) config go" where
  "killRaft i cfg =
     gbind (idx (rafts cfg) (int i)) (\<lambda>rf. case rf of
       None \<Rightarrow> Inr cfg
     | Some a \<Rightarrow> Inr ((killObject a cfg)\<lparr>rafts := (rafts cfg)[i := None]\<rparr>))"

text \<open>The end of \<open>crash1\<close>: another new persister with what the copy holds.\<close>

definition resave :: "nat \<Rightarrow> ('c, 's) slots \<Rightarrow> ('c, 's) slots go" where
  "resave i = (\<lambda>(saved, d).
     gbind (idx saved (int i)) (\<lambda>p. case p of
       None \<Rightarrow> Inr (saved, d)
     | Some a \<Rightarrow>
         let raftlog = ReadRaftState (cell d a);
             snapshot = ReadSnapshot (cell d a)
         in case newPersister MakePersister d of
              (b, d) \<Rightarrow> Inr (saved[i := Some b], writeCell b (SaveStateAndSnapshot raftlog snapshot (cell d b)) d)))"

definition crash1 :: "nat \<Rightarrow> ('c, 's) config \<Rightarrow> ('c, 's) config go" where
  "crash1 i cfg =
     gbind (disconnect i cfg) (\<lambda>cfg.
     let cfg = cfg\<lparr>cfg_net := DeleteServer i (cfg_net cfg)\<rparr> in
     gbind (copySaved i (saved cfg, cfg_disk cfg)) (\<lambda>(sv, d).
     let cfg = cfg\<lparr>saved := sv, cfg_disk := d\<rparr> in
     gbind (killRaft i cfg) (\<lambda>cfg.
     gbind (resave i (saved cfg, cfg_disk cfg)) (\<lambda>(sv, d).
     Inr (cfg\<lparr>saved := sv, cfg_disk := d\<rparr>)))))"

text \<open>\<open>ingestSnap\<close> returns the empty string, or an error. A slice of bytes that is \<open>nil\<close> is an empty list.\<close>

fun logFrom :: "int \<Rightarrow> 'a list \<Rightarrow> (int \<rightharpoonup> 'a)" where
  "logFrom j [] = Map.empty"
| "logFrom j (x # xs) = (logFrom (j + 1) xs)(j \<mapsto> x)"

definition ingestSnap ::
    "('c, 's) decoder \<Rightarrow> nat \<Rightarrow> 's list \<Rightarrow> int \<Rightarrow> ('c, 's) config \<Rightarrow> (string \<times> ('c, 's) config) go" where
  "ingestSnap decode i snapshot index cfg =
     (if snapshot = [] then Inl (LogFatal ''nil snapshot'')
      else case decode snapshot of
        None \<Rightarrow> Inl (LogFatal ''snapshot decode error'')
      | Some (lastIncludedIndex, xlog) \<Rightarrow>
          if index \<noteq> -1 \<and> index \<noteq> lastIncludedIndex
          then Inr (''snapshot doesn't match m.SnapshotIndex'', cfg)
          else
            gbind (set_idx (logs cfg) (int i) (logFrom 0 xlog)) (\<lambda>ls.
            gbind (set_idx (cfg_lastApplied cfg) (int i) lastIncludedIndex) (\<lambda>la.
            Inr ('''', cfg\<lparr>logs := ls, cfg_lastApplied := la\<rparr>))))"

text \<open>The persister of the new instance, and the log that its snapshot holds.\<close>

definition restoreSaved :: "('c, 's) decoder \<Rightarrow> nat \<Rightarrow> ('c, 's) config \<Rightarrow> ('c, 's) config go" where
  "restoreSaved decode i cfg =
     gbind (idx (saved cfg) (int i)) (\<lambda>p.
     gbind (copyOrMakeSaved i (saved cfg, cfg_disk cfg)) (\<lambda>(sv, d).
     let cfg = cfg\<lparr>saved := sv, cfg_disk := d\<rparr> in
     if p = None then Inr cfg
     else
       gbind (idx sv (int i)) (\<lambda>q.
       let snapshot = ReadSnapshot (cell d (the q)) in
       if length snapshot > 0 then
         gbind (ingestSnap decode i snapshot (-1) cfg) (\<lambda>(err, cfg).
         if err \<noteq> '''' then Inl (TestFatal err) else Inr cfg)
       else Inr cfg)))"

text \<open>\<open>names\<close> are the random names of the new ends. The goroutine that reads the apply channel is not part
  of this step: its messages are the steps \<open>applier\<close> and \<open>applierSnap\<close> below.\<close>

definition start1 ::
    "('c, 's) decoder \<Rightarrow> (nat \<Rightarrow> string) \<Rightarrow> clock \<Rightarrow> clock \<Rightarrow> nat \<Rightarrow> ('c, 's) config \<Rightarrow> ('c, 's) config go" where
  "start1 decode names clk clk' i cfg =
     gbind (crash1 i cfg) (\<lambda>cfg.
     gbind (set_idx (endnames cfg) (int i) (Some (map names [0..<cfg_n cfg]))) (\<lambda>tab.
     gbind (makeEnds (zip (map names [0..<cfg_n cfg]) [0..<cfg_n cfg]) (cfg_net cfg)) (\<lambda>rn.
     gbind (set_idx (cfg_lastApplied cfg) (int i) 0) (\<lambda>la.
     gbind (restoreSaved decode i (cfg\<lparr>endnames := tab, cfg_net := rn, cfg_lastApplied := la\<rparr>)) (\<lambda>cfg.
     gbind (idx (saved cfg) (int i)) (\<lambda>p.
     gbind (Make clk clk' (cfg_n cfg) (int i) (cell (cfg_disk cfg) (the p))) (\<lambda>rf.
     gbind (set_idx (rafts cfg) (int i) (Some (nobjects cfg))) (\<lambda>rs.
     Inr (cfg\<lparr>rafts := rs, objects := (objects cfg)(nobjects cfg := \<lparr>in_raft = rf, in_disk = the p\<rparr>),
       nobjects := nobjects cfg + 1, cfg_net := AddServer i (nobjects cfg) (cfg_net cfg)\<rparr>)))))))))"

text \<open>A step of an instance, dead or alive, that changes its state and writes to its own persister.\<close>

definition runObject :: "nat \<Rightarrow> ('c, 's) Raft \<Rightarrow> ('c, 's) config \<Rightarrow> ('c, 's) config" where
  "runObject a rf cfg =
     cfg\<lparr>objects := (objects cfg)(a := (objects cfg a)\<lparr>in_raft := rf\<rparr>),
         cfg_disk := writeCell (in_disk (objects cfg a)) (persister rf) (cfg_disk cfg)\<rparr>"

definition emptyConfig :: "nat \<Rightarrow> ('c, 's) config" where
  "emptyConfig n = \<lparr>finished = False, cfg_net = MakeNetwork, cfg_n = n, rafts = replicate n None, applyErr = replicate n '''',
     connected = replicate n False, saved = replicate n None, endnames = replicate n None, logs = replicate n Map.empty,
     cfg_lastApplied = replicate n 0, rpcs0 = 0, cmds0 = 0, bytes0 = 0, maxIndex = 0, maxIndex0 = 0,
     objects = (\<lambda>_. undefined), nobjects = 0, cfg_disk = \<lparr>cell = (\<lambda>_. MakePersister), used = 0\<rparr>\<rparr>"

definition make_config ::
    "('c, 's) decoder \<Rightarrow> (nat \<Rightarrow> nat \<Rightarrow> string) \<Rightarrow> clock \<Rightarrow> nat \<Rightarrow> bool \<Rightarrow> ('c, 's) config go" where
  "make_config decode names clk n unreliable =
     (let cfg = setunreliable unreliable (emptyConfig n);
          cfg = cfg\<lparr>cfg_net := LongDelays True (cfg_net cfg)\<rparr>
      in gbind (gfold (\<lambda>i cfg. start1 decode (names i) clk clk i (cfg\<lparr>logs := (logs cfg)[i := Map.empty]\<rparr>)) [0..<n] cfg) (\<lambda>cfg.
         gfold connect [0..<n] cfg))"

definition checkTimeout :: "bool \<Rightarrow> bool \<Rightarrow> unit go" where
  "checkTimeout failed late = (if \<not> failed \<and> late then Inl (TestFatal ''test took longer than 120 seconds'') else Inr ())"

definition checkFinished :: "('c, 's) config \<Rightarrow> bool" where
  "checkFinished cfg = finished cfg"

definition cleanup :: "bool \<Rightarrow> bool \<Rightarrow> ('c, 's) config \<Rightarrow> ('c, 's) config go" where
  "cleanup failed late cfg =
     (let cfg = cfg\<lparr>finished := True\<rparr>;
          cfg = fold (\<lambda>rf cfg. case rf of None \<Rightarrow> cfg | Some a \<Rightarrow> killObject a cfg) (rafts cfg) cfg
      in gbind (Cleanup (cfg_net cfg)) (\<lambda>rn.
         gbind (checkTimeout failed late) (\<lambda>_. Inr (cfg\<lparr>cfg_net := rn\<rparr>))))"

subsection \<open>What the peers apply\<close>

fun otherValue :: "int \<Rightarrow> 'c option \<Rightarrow> (int \<rightharpoonup> 'c option) list \<Rightarrow> bool" where
  "otherValue index v [] = False"
| "otherValue index v (lg # lgs) = ((case lg index of None \<Rightarrow> False | Some old \<Rightarrow> old \<noteq> v) \<or> otherValue index v lgs)"

definition checkLogs :: "nat \<Rightarrow> ('c, 's) ApplyMsg \<Rightarrow> ('c, 's) config \<Rightarrow> ((string \<times> bool) \<times> ('c, 's) config) go" where
  "checkLogs i m cfg =
     (let v = am_Command m;
          err_msg = (if otherValue (CommandIndex m) v (logs cfg) then ''commit index'' else '''')
      in gbind (idx (logs cfg) (int i)) (\<lambda>lg.
         let prevok = (lg (CommandIndex m - 1) \<noteq> None);
             cfg = cfg\<lparr>logs := (logs cfg)[i := lg(CommandIndex m \<mapsto> v)]\<rparr>;
             cfg = (if CommandIndex m > maxIndex cfg then cfg\<lparr>maxIndex := CommandIndex m\<rparr> else cfg)
         in Inr ((err_msg, prevok), cfg)))"

definition applier :: "nat \<Rightarrow> ('c, 's) ApplyMsg \<Rightarrow> ('c, 's) config \<Rightarrow> ('c, 's) config go" where
  "applier i m cfg =
     (if \<not> CommandValid m then Inr cfg
      else
        gbind (checkLogs i m cfg) (\<lambda>((err_msg, prevok), cfg).
        let err_msg = (if CommandIndex m > 1 \<and> \<not> prevok then ''apply out of order'' else err_msg)
        in if err_msg \<noteq> '''' then Inl (LogFatal err_msg) else Inr cfg))"

definition SnapShotInterval :: int where
  "SnapShotInterval = 10"

text \<open>The entries that \<open>applierSnap\<close> puts into a snapshot: an index without an entry gives \<open>nil\<close>.\<close>

definition xlogOf :: "(int \<rightharpoonup> 'c option) \<Rightarrow> int \<Rightarrow> 'c option list" where
  "xlogOf lg index = map (\<lambda>j. case lg j of None \<Rightarrow> None | Some v \<Rightarrow> v) [0..index]"

definition applierSnap ::
    "('c, 's) decoder \<Rightarrow> (int \<times> 'c option list \<Rightarrow> 's list) \<Rightarrow> nat \<Rightarrow> nat \<Rightarrow> ('c, 's) ApplyMsg \<Rightarrow> ('c, 's) config \<Rightarrow> ('c, 's) config go" where
  "applierSnap decode encode a i m cfg =
     gbind
       (if SnapshotValid m then
          if CondInstallSnapshot (SnapshotTerm m) (SnapshotIndex m) (am_Snapshot m) (in_raft (objects cfg a))
          then ingestSnap decode i (am_Snapshot m) (SnapshotIndex m) cfg
          else Inr ('''', cfg)
        else if CommandValid m then
          gbind (idx (cfg_lastApplied cfg) (int i)) (\<lambda>la.
          gbind (if CommandIndex m \<noteq> la + 1 then Inr (''apply out of order, expected index'', cfg)
                 else gbind (checkLogs i m cfg) (\<lambda>((err_msg, prevok), cfg).
                   Inr (if CommandIndex m > 1 \<and> \<not> prevok then ''apply out of order'' else err_msg, cfg))) (\<lambda>(err_msg, cfg).
          let cfg = cfg\<lparr>cfg_lastApplied := (cfg_lastApplied cfg)[i := CommandIndex m]\<rparr> in
          if (CommandIndex m + 1) mod SnapShotInterval = 0 then
            gbind (idx (logs cfg) (int i)) (\<lambda>lg.
            gbind (Snapshot (CommandIndex m) (encode (CommandIndex m, xlogOf lg (CommandIndex m))) (in_raft (objects cfg a))) (\<lambda>rf.
            Inr (err_msg, runObject a rf cfg)))
          else Inr (err_msg, cfg)))
        else Inr ('''', cfg)) (\<lambda>(err_msg, cfg).
     if err_msg \<noteq> '''' then Inl (LogFatal err_msg) else Inr cfg)"

subsection \<open>Who leads\<close>

text \<open>
  \<open>cfg.rafts[i].GetState()\<close> is called at some moment: \<open>states a\<close> is what it returns for the instance at
  address \<open>a\<close>. A call on \<open>nil\<close> panics.
\<close>

type_synonym states = "nat \<Rightarrow> int \<times> bool"

definition stateOf :: "states \<Rightarrow> nat \<Rightarrow> ('c, 's) config \<Rightarrow> (int \<times> bool) go" where
  "stateOf states i cfg =
     gbind (idx (rafts cfg) (int i)) (\<lambda>rf. case rf of None \<Rightarrow> Inl NilDereference | Some a \<Rightarrow> Inr (states a))"

text \<open>The map from terms to their leaders, and what one round of \<open>checkOneLeader\<close> finds in it. The loop over
  the map goes by the order in which the terms were put into it; the code fails in every order if it fails
  in one, and finds the same term otherwise.\<close>

definition addLeader :: "int \<Rightarrow> nat \<Rightarrow> (int \<times> nat list) list \<Rightarrow> (int \<times> nat list) list" where
  "addLeader term i leaders =
     AList.update term ((case map_of leaders term of None \<Rightarrow> [] | Some is \<Rightarrow> is) @ [i]) leaders"

definition leadersOf :: "states \<Rightarrow> ('c, 's) config \<Rightarrow> (int \<times> nat list) list go" where
  "leadersOf states cfg = gfold (\<lambda>i leaders.
     gbind (idx (connected cfg) (int i)) (\<lambda>c.
     if c then gbind (stateOf states i cfg) (\<lambda>(term, leader). Inr (if leader then addLeader term i leaders else leaders))
     else Inr leaders)) [0..<cfg_n cfg] []"

fun lastTerm :: "(int \<times> nat list) list \<Rightarrow> int \<Rightarrow> int go" where
  "lastTerm [] lastTermWithLeader = Inr lastTermWithLeader"
| "lastTerm ((term, is) # leaders) lastTermWithLeader =
     (if length is > 1 then Inl (TestFatal ''term has (>1) leaders'')
      else lastTerm leaders (if term > lastTermWithLeader then term else lastTermWithLeader))"

definition leaderRound :: "states \<Rightarrow> ('c, 's) config \<Rightarrow> nat option go" where
  "leaderRound states cfg =
     gbind (leadersOf states cfg) (\<lambda>leaders.
     gbind (lastTerm leaders (-1)) (\<lambda>lastTermWithLeader.
     if leaders \<noteq> [] then
       gbind (idx (case map_of leaders lastTermWithLeader of None \<Rightarrow> [] | Some is \<Rightarrow> is) 0) (\<lambda>i. Inr (Some i))
     else Inr None))"

text \<open>Each of the ten rounds sees the instances at a later time.\<close>

fun checkOneLeader :: "states list \<Rightarrow> ('c, 's) config \<Rightarrow> nat go" where
  "checkOneLeader [] cfg = Inl (TestFatal ''expected one leader, got none'')"
| "checkOneLeader (states # later) cfg =
     gbind (leaderRound states cfg) (\<lambda>l. case l of Some i \<Rightarrow> Inr i | None \<Rightarrow> checkOneLeader later cfg)"

definition checkTerms :: "states \<Rightarrow> ('c, 's) config \<Rightarrow> int go" where
  "checkTerms states cfg = gfold (\<lambda>i term.
     gbind (idx (connected cfg) (int i)) (\<lambda>c.
     if c then gbind (stateOf states i cfg) (\<lambda>(xterm, _).
       if term = -1 then Inr xterm else if term \<noteq> xterm then Inl (TestFatal ''servers disagree on term'') else Inr term)
     else Inr term)) [0..<cfg_n cfg] (-1)"

definition checkNoLeader :: "states \<Rightarrow> ('c, 's) config \<Rightarrow> unit go" where
  "checkNoLeader states cfg = gfold (\<lambda>i u.
     gbind (idx (connected cfg) (int i)) (\<lambda>c.
     if c then gbind (stateOf states i cfg) (\<lambda>(_, is_leader).
       if is_leader then Inl (TestFatal ''expected no leader among connected servers'') else Inr u)
     else Inr u)) [0..<cfg_n cfg] ()"

subsection \<open>Agreement\<close>

text \<open>How many servers have an entry, and the entry; \<open>nil\<close> as well if there is none.\<close>

definition nCommitted :: "int \<Rightarrow> ('c, 's) config \<Rightarrow> (int \<times> 'c option) go" where
  "nCommitted index cfg = gfold (\<lambda>i (count, cmd).
     gbind (idx (applyErr cfg) (int i)) (\<lambda>err.
     if err \<noteq> '''' then Inl (TestFatal err)
     else
       gbind (idx (logs cfg) (int i)) (\<lambda>lg.
       case lg index of
         None \<Rightarrow> Inr (count, cmd)
       | Some cmd1 \<Rightarrow>
           if count > 0 \<and> cmd \<noteq> cmd1 then Inl (TestFatal ''committed values do not match'')
           else Inr (count + 1, cmd1)))) [0..<length (rafts cfg)] (0, None)"

text \<open>
  \<open>wait\<close> looks at the configuration up to thirty times, and at the terms of all instances after each time.
  It returns \<open>-1\<close>, here \<open>None\<close>, if the term has moved on.
\<close>

definition movedOn :: "int \<Rightarrow> states \<Rightarrow> ('c, 's) config \<Rightarrow> bool go" where
  "movedOn startTerm states cfg = gfold (\<lambda>i moved.
     if moved then Inr True else gbind (stateOf states i cfg) (\<lambda>(t, _). Inr (t > startTerm))) [0..<length (rafts cfg)] False"

fun wait :: "int \<Rightarrow> int \<Rightarrow> int \<Rightarrow> (('c, 's) config \<times> states) list \<Rightarrow> ('c, 's) config \<Rightarrow> 'c option option go" where
  "wait index n startTerm [] cfg =
     gbind (nCommitted index cfg) (\<lambda>(nd, cmd).
     if nd < n then Inl (TestFatal ''only some decided'') else Inr (Some cmd))"
| "wait index n startTerm ((seen, states) # later) cfg =
     gbind (nCommitted index seen) (\<lambda>(nd, _).
     if nd \<ge> n then wait index n startTerm [] cfg
     else if startTerm > -1 then
       gbind (movedOn startTerm states seen) (\<lambda>moved.
       if moved then Inr None else wait index n startTerm later cfg)
     else wait index n startTerm later cfg)"

text \<open>
  One round of \<open>one\<close>: from the server after \<open>starts\<close> on, the first that is connected and accepts the command,
  with its index, or \<open>-1\<close>. \<open>Start\<close> changes the instance and its persister.
\<close>

fun submit :: "nat \<Rightarrow> 'c \<Rightarrow> nat \<Rightarrow> ('c, 's) config \<Rightarrow> (int \<times> nat \<times> ('c, 's) config) go" where
  "submit 0 cmd starts cfg = Inr (-1, starts, cfg)"
| "submit (Suc si) cmd starts cfg =
     (let starts = (starts + 1) mod cfg_n cfg in
      gbind (idx (connected cfg) (int starts)) (\<lambda>c.
      gbind (if c then idx (rafts cfg) (int starts) else Inr None) (\<lambda>rf. case rf of
        None \<Rightarrow> submit si cmd starts cfg
      | Some a \<Rightarrow>
          gbind (Start cmd (in_raft (objects cfg a))) (\<lambda>((index1, _, ok), rf, _).
          let cfg = runObject a rf cfg in
          if ok then Inr (index1, starts, cfg) else submit si cmd starts cfg))))"

text \<open>The wait for agreement: the configurations that are seen within two seconds.\<close>

fun agreed :: "'c \<Rightarrow> int \<Rightarrow> int \<Rightarrow> ('c, 's) config list \<Rightarrow> bool go" where
  "agreed cmd expectedServers index [] = Inr False"
| "agreed cmd expectedServers index (seen # later) =
     gbind (nCommitted index seen) (\<lambda>(nd, cmd1).
     if nd > 0 \<and> nd \<ge> expectedServers \<and> cmd1 = Some cmd then Inr True
     else agreed cmd expectedServers index later)"

text \<open>
  \<open>one\<close>: each round has the configuration at its start, which is not finished, and those seen while it waits. The
  rounds end after ten seconds or when the test is finished.
\<close>

fun one :: "'c \<Rightarrow> int \<Rightarrow> bool \<Rightarrow> (('c, 's) config \<times> ('c, 's) config list) list \<Rightarrow> ('c, 's) config \<Rightarrow> nat \<Rightarrow> int go" where
  "one cmd expectedServers retry [] cfg starts =
     (if \<not> checkFinished cfg then Inl (TestFatal ''one failed to reach agreement'') else Inr (-1))"
| "one cmd expectedServers retry ((begun, seen) # rounds) cfg starts =
     gbind (submit (cfg_n begun) cmd starts begun) (\<lambda>(index, starts, _).
     if index \<noteq> -1 then
       gbind (agreed cmd expectedServers index seen) (\<lambda>ok.
       if ok then Inr index
       else if \<not> retry then Inl (TestFatal ''one failed to reach agreement'')
       else one cmd expectedServers retry rounds cfg starts)
     else one cmd expectedServers retry rounds cfg starts)"

subsection \<open>Statistics\<close>

definition begin_test :: "('c, 's) config \<Rightarrow> ('c, 's) config" where
  "begin_test cfg = cfg\<lparr>rpcs0 := rpcTotal cfg, bytes0 := bytesTotal cfg, cmds0 := 0, maxIndex0 := maxIndex cfg\<rparr>"

text \<open>The numbers that \<open>end\<close> prints if the test has not failed: peers, RPCs, bytes and agreements.\<close>

definition end_test :: "bool \<Rightarrow> bool \<Rightarrow> ('c, 's) config \<Rightarrow> (nat \<times> int \<times> int \<times> int) option go" where
  "end_test failed late cfg =
     gbind (checkTimeout failed late) (\<lambda>_.
     Inr (if \<not> failed then Some (cfg_n cfg, rpcTotal cfg - rpcs0 cfg, bytesTotal cfg - bytes0 cfg, maxIndex cfg - maxIndex0 cfg)
          else None))"

definition LogSize :: "('c gobval list \<Rightarrow> int) \<Rightarrow> ('c, 's) config \<Rightarrow> int go" where
  "LogSize bytes cfg = gfold (\<lambda>i logsize.
     gbind (idx (saved cfg) (int i)) (\<lambda>p. case p of
       None \<Rightarrow> Inl NilDereference
     | Some a \<Rightarrow> (let n = RaftStateSize bytes (cell (cfg_disk cfg) a) in Inr (if n > logsize then n else logsize)))) [0..<cfg_n cfg] 0"

end
