(* ===== verification/Raft_Config_Props.thy ===== *)
theory Raft_Config_Props
  imports Raft_Config Raft_Props
begin

text \<open>
  What the tests of Raft rely on: which servers can talk to each other, from which state a server
  restarts, and which faults the checks of the configuration find.
\<close>

subsection \<open>Connections\<close>

text \<open>The end by which the current instance of server \<open>i\<close> talks to server \<open>j\<close>.\<close>

definition current :: "('c, 's) config \<Rightarrow> string \<Rightarrow> nat \<Rightarrow> nat \<Rightarrow> bool" where
  "current cfg e i j \<longleftrightarrow> i < cfg_n cfg \<and> j < cfg_n cfg \<and> endnames cfg ! i \<noteq> None \<and> e = the (endnames cfg ! i) ! j"

definition conn_inv :: "('c, 's) config \<Rightarrow> bool" where
  "conn_inv cfg \<longleftrightarrow>
     length (connected cfg) = cfg_n cfg \<and> length (endnames cfg) = cfg_n cfg \<and> length (rafts cfg) = cfg_n cfg \<and>
     (\<forall>i<cfg_n cfg. \<forall>r. endnames cfg ! i = Some r \<longrightarrow> length r = cfg_n cfg) \<and>
     (\<forall>e i j i' j'. current cfg e i j \<longrightarrow> current cfg e i' j' \<longrightarrow> i = i' \<and> j = j') \<and>
     (\<forall>e i j. current cfg e i j \<longrightarrow> e \<in> dom (ends (cfg_net cfg)) \<and> connections (cfg_net cfg) e = Some j) \<and>
     (\<forall>e. isEnabled (cfg_net cfg) e \<longleftrightarrow> (\<exists>i j. current cfg e i j \<and> connected cfg ! i \<and> connected cfg ! j)) \<and>
     (\<forall>i<cfg_n cfg. connected cfg ! i \<longrightarrow> endnames cfg ! i \<noteq> None) \<and>
     (\<forall>j. LabRPC.servers (cfg_net cfg) j = (if j < cfg_n cfg then rafts cfg ! j else None))"

lemma conn_invI:
  assumes "length (connected cfg) = cfg_n cfg" and "length (endnames cfg) = cfg_n cfg" and "length (rafts cfg) = cfg_n cfg"
    and "\<And>i r. i < cfg_n cfg \<Longrightarrow> endnames cfg ! i = Some r \<Longrightarrow> length r = cfg_n cfg"
    and "\<And>e i j i' j'. current cfg e i j \<Longrightarrow> current cfg e i' j' \<Longrightarrow> i = i' \<and> j = j'"
    and "\<And>e i j. current cfg e i j \<Longrightarrow> e \<in> dom (ends (cfg_net cfg)) \<and> connections (cfg_net cfg) e = Some j"
    and "\<And>e. isEnabled (cfg_net cfg) e \<longleftrightarrow> (\<exists>i j. current cfg e i j \<and> connected cfg ! i \<and> connected cfg ! j)"
    and "\<And>i. i < cfg_n cfg \<Longrightarrow> connected cfg ! i \<Longrightarrow> endnames cfg ! i \<noteq> None"
    and "\<And>j. LabRPC.servers (cfg_net cfg) j = (if j < cfg_n cfg then rafts cfg ! j else None)"
  shows "conn_inv cfg"
  unfolding conn_inv_def using assms by blast

lemma current_named: "current cfg = named (endnames cfg) (cfg_n cfg)"
  by (simp add: current_def named_def fun_eq_iff)

lemma conn_inv_tab: "conn_inv cfg \<Longrightarrow> tab_inv (\<lambda>j. j) (endnames cfg) (cfg_n cfg) (cfg_net cfg)"
  unfolding conn_inv_def tab_inv_def current_named by blast

lemma endname_current:
  assumes "conn_inv cfg" and "i < cfg_n cfg" and "j < cfg_n cfg"
  shows "endname (endnames cfg) i j = Inr e \<longleftrightarrow> current cfg e i j"
  using endname_named [OF conn_inv_tab [OF assms(1)] assms(2,3)] by (simp add: current_named)

lemma isStarted_iff: "conn_inv cfg \<Longrightarrow> i < cfg_n cfg \<Longrightarrow> isStarted (endnames cfg) i = Inr True \<longleftrightarrow> endnames cfg ! i \<noteq> None"
  by (simp add: isStarted_named [OF conn_inv_tab])

lemma current_cong: "endnames cfg' = endnames cfg \<Longrightarrow> cfg_n cfg' = cfg_n cfg \<Longrightarrow> current cfg' = current cfg"
  by (simp add: current_def fun_eq_iff)

lemma conn_inv_connect:
  assumes inv: "conn_inv cfg" and "connect i cfg = Inr cfg'"
  shows "conn_inv cfg'"
proof -
  let ?conn = "(connected cfg)[i := True]"
  obtain rn1 rn2 where i: "i < length (connected cfg)"
    and rn1: "enableWhere True (\<lambda>j. idx ?conn (int j)) (\<lambda>j. endname (endnames cfg) i j) [0..<cfg_n cfg] (cfg_net cfg) = Inr rn1"
    and rn2: "enableWhere True (\<lambda>j. idx ?conn (int j)) (\<lambda>j. endname (endnames cfg) j i) [0..<cfg_n cfg] rn1 = Inr rn2"
    and cfg': "cfg' = cfg\<lparr>connected := ?conn, cfg_net := rn2\<rparr>"
    using assms(2) by (auto simp: connect_def set_idx_Inr_iff)
  have len: "length (connected cfg) = cfg_n cfg" using inv by (simp add: conn_inv_def)
  then have il: "i < cfg_n cfg" using i by simp
  have e2: "isEnabled rn2 e \<longleftrightarrow> (\<exists>j<cfg_n cfg. ?conn ! j \<and> (current cfg e i j \<or> current cfg e j i)) \<or> isEnabled (cfg_net cfg) e" for e
    using enableWhere_effect [OF rn1] enableWhere_effect [OF rn2] endname_current [OF inv] il len
    by (auto simp: idx_Inr_iff)
  have st: "endnames cfg ! i \<noteq> None"
  proof
    assume none: "endnames cfg ! i = None"
    have "[0..<cfg_n cfg] = [0..<i] @ i # [Suc i..<cfg_n cfg]" using il by (metis upt_add_eq_append upt_conv_Cons le_add_diff_inverse less_imp_le zero_le)
    then show False using rn1 none i inv il by (auto simp: enableWhere_def endname_def conn_inv_def idx_def)
  qed
  have same: "sameButEnds (cfg_net cfg) rn2" "ends rn2 = ends (cfg_net cfg)" "connections rn2 = connections (cfg_net cfg)"
    using enableWhere_effect [OF rn1] enableWhere_effect [OF rn2] sameButEnds_trans by auto
  have old: "isEnabled (cfg_net cfg) e \<longleftrightarrow> (\<exists>i j. current cfg e i j \<and> connected cfg ! i \<and> connected cfg ! j)" for e
    using inv by (simp add: conn_inv_def)
  have bound: "current cfg e a b \<Longrightarrow> a < cfg_n cfg \<and> b < cfg_n cfg" for e a b by (simp add: current_def)
  have "isEnabled rn2 e \<longleftrightarrow> (\<exists>a b. current cfg e a b \<and> ?conn ! a \<and> ?conn ! b)" for e
    unfolding e2 old using bound i len by (auto simp: nth_list_update; metis)
  moreover have "current cfg' = current cfg" by (rule current_cong) (simp_all add: cfg')
  ultimately show ?thesis using inv cfg' same sameButEnds_servers [OF same(1)] st il
    by (auto simp: conn_inv_def nth_list_update)
qed

lemma conn_inv_disconnect:
  assumes inv: "conn_inv cfg" and "disconnect i cfg = Inr cfg'"
  shows "conn_inv cfg' \<and> i < cfg_n cfg \<and> \<not> connected cfg' ! i \<and> (\<exists>conn rn. cfg' = cfg\<lparr>connected := conn, cfg_net := rn\<rparr>)"
proof -
  let ?conn = "(connected cfg)[i := False]"
  obtain rn1 rn2 where i: "i < length (connected cfg)"
    and rn1: "enableWhere False (\<lambda>j. isStarted (endnames cfg) i) (\<lambda>j. endname (endnames cfg) i j) [0..<cfg_n cfg] (cfg_net cfg) = Inr rn1"
    and rn2: "enableWhere False (\<lambda>j. isStarted (endnames cfg) j) (\<lambda>j. endname (endnames cfg) j i) [0..<cfg_n cfg] rn1 = Inr rn2"
    and cfg': "cfg' = cfg\<lparr>connected := ?conn, cfg_net := rn2\<rparr>"
    using assms(2) by (auto simp: disconnect_def set_idx_Inr_iff)
  have len: "length (connected cfg) = cfg_n cfg" using inv by (simp add: conn_inv_def)
  then have il: "i < cfg_n cfg" using i by simp
  have row: "(\<exists>j\<in>set [0..<cfg_n cfg]. isStarted (endnames cfg) i = Inr True \<and> endname (endnames cfg) i j = Inr e) \<longleftrightarrow>
      (\<exists>j. current cfg e i j)" for e
    using endname_current [OF inv il, of _ e] isStarted_iff [OF inv il] by (auto simp: current_def)
  have col: "(\<exists>j\<in>set [0..<cfg_n cfg]. isStarted (endnames cfg) j = Inr True \<and> endname (endnames cfg) j i = Inr e) \<longleftrightarrow>
      (\<exists>j. current cfg e j i)" for e
    using endname_current [OF inv _ il, of _ e] isStarted_iff [OF inv] by (auto simp: current_def)
  have e1: "isEnabled rn1 e \<longleftrightarrow> \<not> (\<exists>j. current cfg e i j) \<and> isEnabled (cfg_net cfg) e" for e
    using enableWhere_effect [OF rn1] unfolding row by auto
  have e2: "isEnabled rn2 e \<longleftrightarrow> \<not> (\<exists>j. current cfg e j i) \<and> isEnabled rn1 e" for e
    using enableWhere_effect [OF rn2] unfolding col by auto
  have same: "sameButEnds (cfg_net cfg) rn2" "ends rn2 = ends (cfg_net cfg)" "connections rn2 = connections (cfg_net cfg)"
    using enableWhere_effect [OF rn1] enableWhere_effect [OF rn2] sameButEnds_trans by auto
  have old: "isEnabled (cfg_net cfg) e \<longleftrightarrow> (\<exists>i j. current cfg e i j \<and> connected cfg ! i \<and> connected cfg ! j)" for e
    using inv by (simp add: conn_inv_def)
  have uniq: "current cfg e a b \<Longrightarrow> current cfg e a' b' \<Longrightarrow> a = a' \<and> b = b'" for e a b a' b'
    using inv unfolding conn_inv_def by blast
  have conn: "?conn ! a \<longleftrightarrow> a \<noteq> i \<and> connected cfg ! a" for a using i by (simp add: nth_list_update)
  have "isEnabled rn2 e \<longleftrightarrow> (\<exists>a b. current cfg e a b \<and> ?conn ! a \<and> ?conn ! b)" for e
    unfolding e2 e1 old conn using uniq by blast
  moreover have "current cfg' = current cfg" by (rule current_cong) (simp_all add: cfg')
  ultimately have "conn_inv cfg'" using inv cfg' same sameButEnds_servers [OF same(1)]
    by (simp add: conn_inv_def conn)
  then show ?thesis using cfg' il i by auto
qed

text \<open>Steps that leave the network and its tables alone keep the invariant.\<close>

lemma conn_inv_cong:
  assumes "conn_inv cfg" and "cfg_net cfg' = cfg_net cfg" and "endnames cfg' = endnames cfg" and "cfg_n cfg' = cfg_n cfg"
    and "connected cfg' = connected cfg" and "rafts cfg' = rafts cfg"
  shows "conn_inv cfg'"
  using assms current_cong [OF assms(3,4)] by (simp add: conn_inv_def)

lemma conn_inv_update [simp]:
  "conn_inv (cfg\<lparr>logs := ls\<rparr>) = conn_inv cfg" "conn_inv (cfg\<lparr>cfg_lastApplied := la\<rparr>) = conn_inv cfg"
  "conn_inv (cfg\<lparr>maxIndex := mx\<rparr>) = conn_inv cfg" "conn_inv (cfg\<lparr>objects := obs\<rparr>) = conn_inv cfg"
  "conn_inv (cfg\<lparr>saved := sv\<rparr>) = conn_inv cfg" "conn_inv (cfg\<lparr>cfg_disk := d\<rparr>) = conn_inv cfg"
  by (rule iffI; erule conn_inv_cong; simp)+

lemma conn_inv_server:
  assumes "conn_inv cfg" and "i < cfg_n cfg"
    and "cfg_net cfg' = (cfg_net cfg)\<lparr>servers := (LabRPC.servers (cfg_net cfg))(i := a)\<rparr>" and "rafts cfg' = (rafts cfg)[i := a]"
    and "endnames cfg' = endnames cfg" and "cfg_n cfg' = cfg_n cfg" and "connected cfg' = connected cfg"
  shows "conn_inv cfg'"
proof -
  have "isEnabled (cfg_net cfg') e = isEnabled (cfg_net cfg) e" for e using assms(3) by (simp add: isEnabled_def)
  then show ?thesis using assms current_cong [OF assms(5,6)] by (simp add: conn_inv_def nth_list_update)
qed

lemma killRaft_effect:
  fixes cfg :: "('c, 's) config"
  assumes "killRaft i cfg = Inr cfg'"
  shows "i < length (rafts cfg) \<and> (\<exists>obs. cfg' = cfg\<lparr>rafts := (rafts cfg)[i := None], objects := obs\<rparr>)"
proof -
  obtain rf where i: "i < length (rafts cfg)" "rafts cfg ! i = rf"
    and rf: "(case rf of None \<Rightarrow> Inr cfg | Some a \<Rightarrow> Inr ((killObject a cfg)\<lparr>rafts := (rafts cfg)[i := None]\<rparr>)) = (Inr cfg' :: ('c, 's) config go)"
    using assms by (auto simp: killRaft_def idx_Inr_iff)
  show ?thesis
  proof (cases rf)
    case None
    then have "cfg' = cfg\<lparr>rafts := (rafts cfg)[i := None], objects := objects cfg\<rparr>" using rf i list_update_id [of "rafts cfg" i] by simp
    then show ?thesis using i by blast
  next
    case (Some a)
    then show ?thesis using rf i by (cases cfg) (auto simp: killObject_def)
  qed
qed

lemma conn_inv_crash1:
  assumes inv: "conn_inv cfg" and "crash1 i cfg = Inr cfg'"
  shows "conn_inv cfg' \<and> i < cfg_n cfg \<and> \<not> connected cfg' ! i \<and> cfg_n cfg' = cfg_n cfg \<and> endnames cfg' = endnames cfg \<and>
    rafts cfg' ! i = None"
proof -
  obtain cfg1 sv d cfg2 sv' d' where c1: "disconnect i cfg = Inr cfg1"
    and c2: "killRaft i (cfg1\<lparr>cfg_net := DeleteServer i (cfg_net cfg1), saved := sv, cfg_disk := d\<rparr>) = Inr cfg2"
    and cfg': "cfg' = cfg2\<lparr>saved := sv', cfg_disk := d'\<rparr>"
    using assms(2) by (auto simp: crash1_def)
  note d1 = conn_inv_disconnect [OF inv c1] and k = killRaft_effect [OF c2]
  obtain conn rn where n: "cfg1 = cfg\<lparr>connected := conn, cfg_net := rn\<rparr>" using d1 by blast
  obtain obs where f: "cfg' = cfg1\<lparr>cfg_net := DeleteServer i (cfg_net cfg1), rafts := (rafts cfg1)[i := None], objects := obs,
      saved := sv', cfg_disk := d'\<rparr>" using k cfg' by auto
  have "conn_inv cfg'" by (rule conn_inv_server [of cfg1 i cfg' None]) (use d1 f n in \<open>simp_all add: DeleteServer_def\<close>)
  then show ?thesis using d1 f n k by (simp add: nth_list_update)
qed

lemma ingestSnap_effect:
  assumes "ingestSnap decode i snapshot index cfg = Inr (err, cfg')"
  shows "\<exists>ls la. cfg' = cfg\<lparr>logs := ls, cfg_lastApplied := la\<rparr>"
proof (cases "err = ''''")
  case True
  then show ?thesis using assms by (auto simp: ingestSnap_def split: if_splits option.splits; blast)
next
  case False
  then have "cfg' = cfg\<lparr>logs := logs cfg, cfg_lastApplied := cfg_lastApplied cfg\<rparr>"
    using assms by (auto simp: ingestSnap_def split: if_splits option.splits)
  then show ?thesis by blast
qed

lemma restoreSaved_effect:
  assumes "restoreSaved decode i cfg = Inr cfg'"
  shows "\<exists>sv d ls la. cfg' = cfg\<lparr>saved := sv, cfg_disk := d, logs := ls, cfg_lastApplied := la\<rparr> \<and>
    copyOrMakeSaved i (saved cfg, cfg_disk cfg) = Inr (sv, d)"
proof -
  obtain p sv d where c: "copyOrMakeSaved i (saved cfg, cfg_disk cfg) = Inr (sv, d)"
    and cfg': "cfg' = cfg\<lparr>saved := sv, cfg_disk := d\<rparr> \<or>
      (\<exists>snapshot. ingestSnap decode i snapshot (-1) (cfg\<lparr>saved := sv, cfg_disk := d\<rparr>) = Inr (p, cfg'))"
    using assms by (auto simp: restoreSaved_def Let_def split: if_splits; blast)
  from cfg' show ?thesis
  proof (elim disjE exE)
    assume "cfg' = cfg\<lparr>saved := sv, cfg_disk := d\<rparr>"
    then have "cfg' = cfg\<lparr>saved := sv, cfg_disk := d, logs := logs cfg, cfg_lastApplied := cfg_lastApplied cfg\<rparr>" by simp
    then show ?thesis using c by blast
  next
    fix snapshot assume "ingestSnap decode i snapshot (-1) (cfg\<lparr>saved := sv, cfg_disk := d\<rparr>) = Inr (p, cfg')"
    then show ?thesis using c ingestSnap_effect by blast
  qed
qed

text \<open>New ends of a server that is not connected.\<close>

lemma conn_inv_newEnds:
  assumes inv: "conn_inv cfg" and i: "i < cfg_n cfg" "\<not> connected cfg ! i"
    and m: "makeEnds (zip (map names [0..<cfg_n cfg]) [0..<cfg_n cfg]) (cfg_net cfg) = Inr rn"
  shows "conn_inv (cfg\<lparr>endnames := (endnames cfg)[i := Some (map names [0..<cfg_n cfg])], cfg_net := rn\<rparr>)"
proof -
  let ?cfg = "cfg\<lparr>endnames := (endnames cfg)[i := Some (map names [0..<cfg_n cfg])], cfg_net := rn\<rparr>"
  have m': "makeEnds (zip (map names [0..<cfg_n cfg]) (map (\<lambda>j. j) [0..<cfg_n cfg])) (cfg_net cfg) = Inr rn" using m by simp
  note T = tab_inv_newEnds [OF conn_inv_tab [OF inv] i(1) m'] and D = tab_invD [OF conn_inv_tab [OF inv]]
  have len: "length (endnames cfg) = cfg_n cfg" by (rule D(1))
  have cur: "current ?cfg e a b \<longleftrightarrow> (if a = i then b < cfg_n cfg \<and> e = names b else current cfg e a b)" for e a b
    using i(1) len by (auto simp: current_def)
  have old: "current cfg e a b \<Longrightarrow> e \<notin> names ` {..<cfg_n cfg}" for e a b using D(4) T(2) unfolding current_named by blast
  have tab: "tab_inv (\<lambda>j. j) (endnames ?cfg) (cfg_n ?cfg) rn" using T(1) by simp
  have "isEnabled rn e \<longleftrightarrow> (\<exists>a b. current ?cfg e a b \<and> connected cfg ! a \<and> connected cfg ! b)" for e
  proof -
    have "isEnabled rn e \<longleftrightarrow> e \<notin> names ` {..<cfg_n cfg} \<and> isEnabled (cfg_net cfg) e" by (rule T(3))
    also have "isEnabled (cfg_net cfg) e \<longleftrightarrow> (\<exists>a b. current cfg e a b \<and> connected cfg ! a \<and> connected cfg ! b)"
      using inv by (simp add: conn_inv_def)
    finally have "isEnabled rn e \<longleftrightarrow> (\<exists>a b. current cfg e a b \<and> connected cfg ! a \<and> connected cfg ! b)" using old by blast
    moreover have "current ?cfg e a b \<and> connected cfg ! a \<longleftrightarrow> current cfg e a b \<and> connected cfg ! a" for a b
      using cur i(2) by (cases "a = i") auto
    ultimately show ?thesis by blast
  qed
  then have en: "isEnabled (cfg_net ?cfg) e \<longleftrightarrow> (\<exists>a b. current ?cfg e a b \<and> connected ?cfg ! a \<and> connected ?cfg ! b)" for e by simp
  show ?thesis
  proof (rule conn_invI)
    show "LabRPC.servers (cfg_net ?cfg) j = (if j < cfg_n ?cfg then rafts ?cfg ! j else None)" for j
      using sameButEnds_servers [OF T(4)] inv by (simp add: conn_inv_def)
    show "endnames ?cfg ! j \<noteq> None" if "j < cfg_n ?cfg" "connected ?cfg ! j" for j
      using inv i that by (cases "j = i") (simp_all add: conn_inv_def)
    show "e \<in> dom (ends (cfg_net ?cfg)) \<and> connections (cfg_net ?cfg) e = Some b" if "current ?cfg e a b" for e a b
      using tab_invD(4,5) [OF tab] that unfolding current_named by simp
    show "a = a' \<and> b = b'" if "current ?cfg e a b" "current ?cfg e a' b'" for e a b a' b'
      using tab_invD(3) [OF tab] that unfolding current_named by blast
    show "length r = cfg_n ?cfg" if "j < cfg_n ?cfg" "endnames ?cfg ! j = Some r" for j r by (rule tab_invD(2) [OF tab that])
  qed (rule en | (use inv in \<open>simp add: conn_inv_def\<close>))+
qed

lemma conn_inv_start1:
  assumes inv: "conn_inv cfg" and "start1 decode names clk clk' i cfg = Inr cfg'"
  shows "conn_inv cfg'"
proof -
  obtain cfg1 rn la cfg2 rs obs n' where c1: "crash1 i cfg = Inr cfg1"
    and m: "makeEnds (zip (map names [0..<cfg_n cfg1]) [0..<cfg_n cfg1]) (cfg_net cfg1) = Inr rn"
    and c2: "restoreSaved decode i (cfg1\<lparr>endnames := (endnames cfg1)[i := Some (map names [0..<cfg_n cfg1])], cfg_net := rn, cfg_lastApplied := la\<rparr>) = Inr cfg2"
    and rs: "rs = (rafts cfg2)[i := Some (nobjects cfg2)]"
    and cfg': "cfg' = cfg2\<lparr>rafts := rs, objects := obs, nobjects := n', cfg_net := AddServer i (nobjects cfg2) (cfg_net cfg2)\<rparr>"
    using assms(2) by (auto simp: start1_def set_idx_Inr_iff)
  note k = conn_inv_crash1 [OF inv c1]
  have "conn_inv (cfg1\<lparr>endnames := (endnames cfg1)[i := Some (map names [0..<cfg_n cfg1])], cfg_net := rn\<rparr>)"
    by (rule conn_inv_newEnds) (use k m in auto)
  moreover obtain sv d ls la' where "cfg2 = cfg1\<lparr>endnames := (endnames cfg1)[i := Some (map names [0..<cfg_n cfg1])],
      cfg_net := rn, cfg_lastApplied := la, saved := sv, cfg_disk := d, logs := ls, cfg_lastApplied := la'\<rparr>"
    using restoreSaved_effect [OF c2] by blast
  ultimately have "conn_inv cfg2 \<and> cfg_n cfg2 = cfg_n cfg1" by (auto intro: conn_inv_cong)
  then show ?thesis using k cfg' rs by (intro conn_inv_server [of cfg2 i cfg' "Some (nobjects cfg2)"]) (simp_all add: AddServer_def)
qed

subsection \<open>Runs of a test\<close>

text \<open>
  The steps of a test, which the applier goroutines and the instances, old and new, interleave with. What
  an instance does to its own state is arbitrary here.
\<close>

inductive cfg_step :: "('c, 's) decoder \<Rightarrow> (int \<times> 'c option list \<Rightarrow> 's list) \<Rightarrow> ('c, 's) config \<Rightarrow> ('c, 's) config \<Rightarrow> bool"
  for decode encode
where
  connect: "connect i cfg = Inr cfg' \<Longrightarrow> cfg_step decode encode cfg cfg'"
| disconnect: "disconnect i cfg = Inr cfg' \<Longrightarrow> cfg_step decode encode cfg cfg'"
| crash: "crash1 i cfg = Inr cfg' \<Longrightarrow> cfg_step decode encode cfg cfg'"
| start: "start1 decode names clk clk' i cfg = Inr cfg' \<Longrightarrow> cfg_step decode encode cfg cfg'"
| run: "cfg_step decode encode cfg (runObject a rf cfg)"
| applied: "applier i m cfg = Inr cfg' \<Longrightarrow> cfg_step decode encode cfg cfg'"
| appliedSnap: "applierSnap decode encode a i m cfg = Inr cfg' \<Longrightarrow> cfg_step decode encode cfg cfg'"
| unreliable: "cfg_step decode encode cfg (setunreliable b cfg)"
| reordering: "cfg_step decode encode cfg (setlongreordering b cfg)"
| begin_test: "cfg_step decode encode cfg (begin_test cfg)"

definition cfg_reachable :: "('c, 's) decoder \<Rightarrow> (int \<times> 'c option list \<Rightarrow> 's list) \<Rightarrow> ('c, 's) config \<Rightarrow> bool" where
  "cfg_reachable decode encode cfg \<longleftrightarrow>
     (\<exists>names clk n unreliable cfg0. make_config decode names clk n unreliable = Inr cfg0 \<and> (cfg_step decode encode)\<^sup>*\<^sup>* cfg0 cfg)"

lemma checkLogs_effect:
  "checkLogs i m cfg = Inr (r, cfg') \<Longrightarrow> \<exists>ls mx. cfg' = cfg\<lparr>logs := ls, maxIndex := mx\<rparr>"
  by (cases cfg) (auto simp: checkLogs_def Let_def split: if_splits)

lemma conn_inv_checkLogs: "conn_inv cfg \<Longrightarrow> checkLogs i m cfg = Inr (r, cfg') \<Longrightarrow> conn_inv cfg'"
  by (drule checkLogs_effect) (auto intro: conn_inv_cong)

lemma conn_inv_ingestSnap: "conn_inv cfg \<Longrightarrow> ingestSnap decode i snapshot index cfg = Inr (err, cfg') \<Longrightarrow> conn_inv cfg'"
  by (drule ingestSnap_effect) (auto intro: conn_inv_cong)

lemma conn_inv_applierSnap: "conn_inv cfg \<Longrightarrow> applierSnap decode encode a i m cfg = Inr cfg' \<Longrightarrow> conn_inv cfg'"
  by (auto simp: applierSnap_def runObject_def Let_def split: if_splits;
      meson conn_inv_checkLogs conn_inv_ingestSnap)

lemma conn_inv_network:
  assumes "conn_inv cfg" and "LabRPC.servers rn = LabRPC.servers (cfg_net cfg)"
    and "ends rn = ends (cfg_net cfg)" and "enabled rn = enabled (cfg_net cfg)" and "connections rn = connections (cfg_net cfg)"
  shows "conn_inv (cfg\<lparr>cfg_net := rn\<rparr>)"
proof -
  have "current (cfg\<lparr>cfg_net := rn\<rparr>) = current cfg" by (rule current_cong) simp_all
  moreover have "isEnabled rn e = isEnabled (cfg_net cfg) e" for e using assms(4) by (simp add: isEnabled_def)
  ultimately show ?thesis using assms(1-3,5) by (simp add: conn_inv_def)
qed

lemma conn_inv_step: "cfg_step decode encode cfg cfg' \<Longrightarrow> conn_inv cfg \<Longrightarrow> conn_inv cfg'"
proof (induction rule: cfg_step.induct)
  case (run cfg a rf)
  then show ?case by (rule conn_inv_cong) (simp_all add: runObject_def)
next
  case (applied i m cfg cfg')
  then show ?case by (auto simp: applier_def Let_def split: if_splits dest: conn_inv_checkLogs)
next
  case (unreliable cfg b)
  then show ?case unfolding setunreliable_def by (rule conn_inv_network) (simp_all add: Reliable_def)
next
  case (reordering cfg b)
  then show ?case unfolding setlongreordering_def by (rule conn_inv_network) (simp_all add: LongReordering_def)
next
  case (begin_test cfg)
  then show ?case by (rule conn_inv_cong) (simp_all add: begin_test_def)
qed (auto dest: conn_inv_connect conn_inv_disconnect conn_inv_crash1 conn_inv_start1 conn_inv_applierSnap)

lemma conn_inv_start:
  fixes cfg :: "('c, 's) config"
  assumes "make_config decode names clk n unreliable = Inr cfg"
  shows "conn_inv cfg"
proof -
  let ?c0 = "setunreliable unreliable (emptyConfig n) :: ('c, 's) config"
  let ?c1 = "?c0\<lparr>cfg_net := LongDelays True (cfg_net ?c0)\<rparr>"
  obtain cfg1 where f1: "gfold (\<lambda>i cfg. start1 decode (names i) clk clk i (cfg\<lparr>logs := (logs cfg)[i := Map.empty]\<rparr>)) [0..<n] ?c1 = Inr cfg1"
    and f2: "gfold connect [0..<n] cfg1 = Inr cfg"
    using assms by (auto simp: make_config_def Let_def)
  have "conn_inv ?c1"
    by (auto simp: conn_inv_def current_def emptyConfig_def setunreliable_def Reliable_def LongDelays_def MakeNetwork_def isEnabled_def)
  then have "conn_inv cfg1"
  proof (rule gfold_inv [OF f1])
    fix i and s s' :: "('c, 's) config"
    assume "conn_inv s" "start1 decode (names i) clk clk i (s\<lparr>logs := (logs s)[i := Map.empty]\<rparr>) = Inr s'"
    then show "conn_inv s'" using conn_inv_start1 [of "s\<lparr>logs := (logs s)[i := Map.empty]\<rparr>"] by simp
  qed
  then show ?thesis by (rule gfold_inv [OF f2]) (rule conn_inv_connect)
qed

lemma reachable_conn_inv: "cfg_reachable decode encode cfg \<Longrightarrow> conn_inv cfg"
proof -
  have "(cfg_step decode encode)\<^sup>*\<^sup>* cfg0 cfg \<Longrightarrow> conn_inv cfg0 \<Longrightarrow> conn_inv cfg" for cfg0
    by (induction rule: rtranclp_induct) (auto intro: conn_inv_step)
  then show "cfg_reachable decode encode cfg \<Longrightarrow> conn_inv cfg" by (auto simp: cfg_reachable_def dest: conn_inv_start)
qed

text \<open>
  C17: at every moment of a test, whatever was connected, disconnected, crashed and restarted before, a
  request that the current instance of server \<open>i\<close> sends to server \<open>j\<close> reaches the current instance of \<open>j\<close> if
  both servers are connected, and nobody otherwise; and a request by any other end, such as one of an
  instance that has crashed, reaches nobody.
\<close>

theorem raft_connectivity:
  assumes "cfg_reachable decode encode cfg"
  shows "(i < cfg_n cfg \<and> j < cfg_n cfg \<and> endnames cfg ! i = Some names \<longrightarrow>
      readEndnameInfo (names ! j) (cfg_net cfg) =
        (connected cfg ! i \<and> connected cfg ! j, Some j, rafts cfg ! j, reliable (cfg_net cfg), longReordering (cfg_net cfg))) \<and>
    ((\<nexists>i names. i < cfg_n cfg \<and> endnames cfg ! i = Some names \<and> e \<in> set names) \<longrightarrow> \<not> fst (readEndnameInfo e (cfg_net cfg)))"
proof -
  have inv: "conn_inv cfg" by (rule reachable_conn_inv [OF assms])
  have en: "isEnabled (cfg_net cfg) e \<longleftrightarrow> (\<exists>i j. current cfg e i j \<and> connected cfg ! i \<and> connected cfg ! j)" for e
    using inv by (simp add: conn_inv_def)
  have sv: "LabRPC.servers (cfg_net cfg) j = (if j < cfg_n cfg then rafts cfg ! j else None)" for j
    using inv by (simp add: conn_inv_def)
  have uniq: "current cfg e a b \<Longrightarrow> current cfg e a' b' \<Longrightarrow> a = a' \<and> b = b'" for e a b a' b'
    using inv unfolding conn_inv_def by blast
  have "readEndnameInfo (names ! j) (cfg_net cfg) =
      (connected cfg ! i \<and> connected cfg ! j, Some j, rafts cfg ! j, reliable (cfg_net cfg), longReordering (cfg_net cfg))"
    if "i < cfg_n cfg" "j < cfg_n cfg" "endnames cfg ! i = Some names"
  proof -
    have c: "current cfg (names ! j) i j" using that by (simp add: current_def)
    then have "isEnabled (cfg_net cfg) (names ! j) \<longleftrightarrow> connected cfg ! i \<and> connected cfg ! j" using en uniq by blast
    moreover have "connections (cfg_net cfg) (names ! j) = Some j" using c inv unfolding conn_inv_def by blast
    ultimately show ?thesis using sv that(2) by (simp add: readEndnameInfo_def)
  qed
  moreover have known: "current cfg e a b \<Longrightarrow> \<exists>i names. i < cfg_n cfg \<and> endnames cfg ! i = Some names \<and> e \<in> set names" for a b
    using inv by (auto simp: current_def conn_inv_def)
  moreover have "fst (readEndnameInfo e (cfg_net cfg)) = isEnabled (cfg_net cfg) e" by (simp add: readEndnameInfo_def Let_def)
  moreover have "\<not> isEnabled (cfg_net cfg) e" if "\<nexists>i names. i < cfg_n cfg \<and> endnames cfg ! i = Some names \<and> e \<in> set names"
    using that known en by blast
  ultimately show ?thesis by blast
qed

subsection \<open>The state of a restart\<close>

text \<open>The address of every persister that the configuration holds has been given out.\<close>

lemma crash1_storage:
  assumes "crash1 i cfg = Inr cfg'" and "saved cfg ! i = Some a" and "a < used (cfg_disk cfg)"
  shows "\<exists>b. i < length (saved cfg') \<and> saved cfg' ! i = Some b \<and> used (cfg_disk cfg) \<le> b \<and> b < used (cfg_disk cfg') \<and>
    cell (cfg_disk cfg') b = cell (cfg_disk cfg) a"
proof -
  obtain conn rn sv d obs rs sv' d' where c: "copySaved i (saved cfg, cfg_disk cfg) = Inr (sv, d)"
    and r: "resave i (sv, d) = Inr (sv', d')" and cfg': "saved cfg' = sv'" "cfg_disk cfg' = d'"
    using assms(1) by (auto simp: crash1_def disconnect_def dest!: killRaft_effect)
  have "i < length (saved cfg)" "sv = (saved cfg)[i := Some (used (cfg_disk cfg))]" "used d = used (cfg_disk cfg) + 1"
    "cell d = (cell (cfg_disk cfg))(used (cfg_disk cfg) := cell (cfg_disk cfg) a)"
    using copySaved_slot [OF c assms(2,3)] by auto
  then show ?thesis using r unfolding cfg'
    by (auto simp: resave_def newPersister_def writeCell_def SaveStateAndSnapshot_def ReadRaftState_def ReadSnapshot_def
        MakePersister_def Let_def idx_Inr_iff)
qed

lemma Make_persister: "Make clk clk' n m ps = Inr rf \<Longrightarrow> persister rf = ps"
  by (auto simp: Make_def initL_def readPersist_def resetElectionTimeoutL_def Let_def split: if_splits option.splits)

lemma start1_storage:
  assumes "start1 decode names clk clk' i cfg = Inr cfg'" and "saved cfg ! i = Some a" and "a < used (cfg_disk cfg)"
  shows "\<exists>b. i < length (saved cfg') \<and> saved cfg' ! i = Some b \<and> used (cfg_disk cfg) \<le> b \<and> b < used (cfg_disk cfg') \<and>
    cell (cfg_disk cfg') b = cell (cfg_disk cfg) a \<and>
    (\<exists>o'. rafts cfg' ! i = Some o' \<and> in_disk (objects cfg' o') = b \<and> persister (in_raft (objects cfg' o')) = cell (cfg_disk cfg) a)"
proof -
  obtain cfg1 tab rn la cfg2 rf p where c1: "crash1 i cfg = Inr cfg1"
    and c2: "restoreSaved decode i (cfg1\<lparr>endnames := tab, cfg_net := rn, cfg_lastApplied := la\<rparr>) = Inr cfg2"
    and rf: "Make clk clk' (cfg_n cfg2) (int i) (cell (cfg_disk cfg2) (the p)) = Inr rf" and p: "saved cfg2 ! i = p"
    and cfg': "saved cfg' = saved cfg2" "cfg_disk cfg' = cfg_disk cfg2"
      "rafts cfg' = (rafts cfg2)[i := Some (nobjects cfg2)]" "i < length (rafts cfg2)"
      "objects cfg' = (objects cfg2)(nobjects cfg2 := \<lparr>in_raft = rf, in_disk = the p\<rparr>)"
    using assms(1) by (auto simp: start1_def set_idx_Inr_iff idx_Inr_iff)
  obtain b where b: "saved cfg1 ! i = Some b" "used (cfg_disk cfg) \<le> b" "b < used (cfg_disk cfg1)"
    "cell (cfg_disk cfg1) b = cell (cfg_disk cfg) a"
    using crash1_storage [OF c1 assms(2,3)] by blast
  have "copyOrMakeSaved i (saved cfg1, cfg_disk cfg1) = Inr (saved cfg2, cfg_disk cfg2)"
    using restoreSaved_effect [OF c2] by auto
  note s = copyOrMakeSaved_slot [OF this b(1,3)]
  then have "p = Some (used (cfg_disk cfg1))" "cell (cfg_disk cfg2) (used (cfg_disk cfg1)) = cell (cfg_disk cfg) a"
    using p b(4) by auto
  then show ?thesis using cfg' s b Make_persister [OF rf] by auto
qed

interpretation raft_storage: renewed_storage crash1 "start1 decode names clk clk'"
  "\<lambda>i cfg. if i < length (saved cfg) then saved cfg ! i else None" cfg_disk "\<lambda>d cfg. cfg\<lparr>cfg_disk := d\<rparr>"
  for decode :: "('c, 's) decoder" and names clk clk'
proof unfold_locales
  fix i and cfg cfg' :: "('c, 's) config" and a
  assume a: "(if i < length (saved cfg) then saved cfg ! i else None) = Some a" "a < used (cfg_disk cfg)"
  show "crash1 i cfg = Inr cfg' \<Longrightarrow> \<exists>b. (if i < length (saved cfg') then saved cfg' ! i else None) = Some b \<and>
      used (cfg_disk cfg) \<le> b \<and> b < used (cfg_disk cfg') \<and> cell (cfg_disk cfg') b = cell (cfg_disk cfg) a"
    using a crash1_storage [of i cfg cfg' a] by (auto split: if_splits)
  show "start1 decode names clk clk' i cfg = Inr cfg' \<Longrightarrow> \<exists>b. (if i < length (saved cfg') then saved cfg' ! i else None) = Some b \<and>
      used (cfg_disk cfg) \<le> b \<and> b < used (cfg_disk cfg') \<and> cell (cfg_disk cfg') b = cell (cfg_disk cfg) a"
    using a start1_storage [of decode names clk clk' i cfg cfg' a] by (auto split: if_splits)
qed simp_all

text \<open>
  C18: a server that is crashed and started again starts from what its persister held at the crash, even if
  the old instance, which is not really stopped, goes on to write to its persister; and the new instance
  writes to a persister that no old one has.
\<close>

theorem raft_restart_state:
  assumes "crash1 i cfg = Inr cfg1" and "i < length (saved cfg)" and "saved cfg ! i = Some a" and "a < used (cfg_disk cfg)"
    and "\<forall>(c, p)\<in>set ws. c < used (cfg_disk cfg)"
    and "start1 decode names clk clk' i (cfg1\<lparr>cfg_disk := writeAll ws (cfg_disk cfg1)\<rparr>) = Inr cfg2"
  shows "\<exists>o'. rafts cfg2 ! i = Some o' \<and> persister (in_raft (objects cfg2 o')) = cell (cfg_disk cfg) a \<and>
    used (cfg_disk cfg) \<le> in_disk (objects cfg2 o')"
proof -
  obtain b where b: "saved cfg2 ! i = Some b" "used (cfg_disk cfg) \<le> b" "cell (cfg_disk cfg2) b = cell (cfg_disk cfg) a"
    using raft_storage.restart [OF assms(1) _ assms(4,5,6)] assms(2,3) by (auto split: if_splits)
  obtain c where c: "saved cfg1 ! i = Some c" "c < used (cfg_disk cfg1)" using crash1_storage [OF assms(1,3,4)] by blast
  have "used (writeAll ws (cfg_disk cfg1)) = used (cfg_disk cfg1)" using writeAll_keep by blast
  then obtain o' where "rafts cfg2 ! i = Some o'" "in_disk (objects cfg2 o') = b"
    "persister (in_raft (objects cfg2 o')) = cell (cfg_disk cfg2) b"
    using start1_storage [OF assms(6)] c b(1) by fastforce
  then show ?thesis using b by auto
qed

subsection \<open>Two tests\<close>

definition demoNames :: "nat \<Rightarrow> nat \<Rightarrow> string" where
  "demoNames i j = [char_of (i + 97), char_of (j + 97)]"

definition demoClock :: clock where
  "demoClock = \<lparr>now = 0, rand = 0\<rparr>"

lemma demo_make:
  "case make_config (\<lambda>_. None) demoNames demoClock 2 False :: (nat, nat) config go of
     Inl _ \<Rightarrow> False
   | Inr cfg \<Rightarrow> cfg_n cfg = 2 \<and> connected cfg = [True, True] \<and> rafts cfg = [Some 0, Some 1] \<and>
       endnames cfg = [Some [''aa'', ''ab''], Some [''ba'', ''bb'']]"
  by code_simp

theorem raft_connectivity_witness:
  "\<exists>cfg :: (nat, nat) config. cfg_reachable (\<lambda>_. None) (\<lambda>_. []) cfg \<and> endnames cfg ! 0 = Some [''aa'', ''ab''] \<and>
     readEndnameInfo ''ab'' (cfg_net cfg) = (True, Some 1, Some 1, reliable (cfg_net cfg), longReordering (cfg_net cfg)) \<and>
     \<not> fst (readEndnameInfo ''zz'' (cfg_net cfg))"
proof -
  obtain cfg :: "(nat, nat) config" where cfg: "make_config (\<lambda>_. None) demoNames demoClock 2 False = Inr cfg"
    "cfg_n cfg = 2" "connected cfg = [True, True]" "rafts cfg = [Some 0, Some 1]"
    "endnames cfg = [Some [''aa'', ''ab''], Some [''ba'', ''bb'']]"
    using demo_make by (auto split: sum.splits)
  have r: "cfg_reachable (\<lambda>_. None) (\<lambda>_. []) cfg" unfolding cfg_reachable_def using cfg(1) by blast
  have "\<nexists>i names. i < cfg_n cfg \<and> endnames cfg ! i = Some names \<and> ''zz'' \<in> set names"
    using cfg(2,5) by (auto simp: less_Suc_eq numeral_2_eq_2 nth_Cons split: nat.splits)
  then show ?thesis using raft_connectivity [OF r, of 0 1 "[''aa'', ''ab'']" "''zz''"] r cfg by (intro exI [of _ cfg]) simp
qed

definition demoDown :: "(nat, nat) config" where
  "demoDown = (emptyConfig 1)\<lparr>saved := [Some 0], cfg_disk := \<lparr>cell = (\<lambda>_. MakePersister), used = 1\<rparr>\<rparr>"

definition demoWrites :: "(nat \<times> (nat, nat) Persister) list" where
  "demoWrites = [(0, \<lparr>raftstate = [GobInt 7], ps_snapshot = []\<rparr>)]"

text \<open>The old instance writes to its persister between the crash and the restart.\<close>

theorem raft_restart_state_witness:
  "\<exists>cfg1 cfg2 o'. crash1 0 demoDown = Inr cfg1 \<and>
     start1 (\<lambda>_. None) (demoNames 5) demoClock demoClock 0 (cfg1\<lparr>cfg_disk := writeAll demoWrites (cfg_disk cfg1)\<rparr>) = Inr cfg2 \<and>
     rafts cfg2 ! 0 = Some o' \<and> persister (in_raft (objects cfg2 o')) = MakePersister"
proof -
  let ?start = "\<lambda>cfg. start1 (\<lambda>_. None) (demoNames 5) demoClock demoClock 0 cfg"
  have "case crash1 0 demoDown of Inl _ \<Rightarrow> False | Inr cfg1 \<Rightarrow> \<not> isl (?start (cfg1\<lparr>cfg_disk := writeAll demoWrites (cfg_disk cfg1)\<rparr>))"
    by (simp add: crash1_def disconnect_def enableWhere_def isStarted_def copySaved_def newPersister_def killRaft_def resave_def
        start1_def makeEnds_def MakeEnd_def Connect_def Enable_def DeleteServer_def AddServer_def restoreSaved_def copyOrMakeSaved_def
        Make_def initL_def readPersist_def writeAll_def writeCell_def demoDown_def demoWrites_def emptyConfig_def MakeNetwork_def
        MakePersister_def ReadRaftState_def ReadSnapshot_def SaveStateAndSnapshot_def Persister_Copy_def Let_def)
  then obtain cfg1 cfg2 where c: "crash1 0 demoDown = Inr cfg1" "?start (cfg1\<lparr>cfg_disk := writeAll demoWrites (cfg_disk cfg1)\<rparr>) = Inr cfg2"
    by (auto simp: isl_def split: sum.splits) (metis sum.exhaust)
  have "\<exists>o'. rafts cfg2 ! 0 = Some o' \<and> persister (in_raft (objects cfg2 o')) = cell (cfg_disk demoDown) 0 \<and>
      used (cfg_disk demoDown) \<le> in_disk (objects cfg2 o')"
    by (rule raft_restart_state [OF c(1) _ _ _ _ c(2)]) (simp_all add: demoDown_def demoWrites_def)
  then show ?thesis using c by (auto simp: demoDown_def)
qed

end
