(* ===== verification/Raft_Config_Checks.thy ===== *)
theory Raft_Config_Checks
  imports Raft_Config_Props
begin

text \<open>
  Which faults the checks of \<^verbatim>\<open>raft/config.go\<close> find: the check of what the servers apply, the count of servers
  that have an entry, the check for one leader, which never finds two in a run of the cluster, and the
  agreement on a command.
\<close>

subsection \<open>Terms\<close>

lemma quiet_term: "quiet rf rf' \<Longrightarrow> currentTerm rf \<le> currentTerm rf'"
  by (auto simp: quiet_def)

lemma term_mono_setPeer: "currentTerm (peer s i) \<le> currentTerm rf \<Longrightarrow> currentTerm (peer s k) \<le> currentTerm (peer (setPeer i rf s) k)"
  by simp

lemma term_mono_step:
  assumes "cluster_step s s'" and inv: "election_inv s"
  shows "currentTerm (peer s k) \<le> currentTerm (peer s' k)"
proof -
  note I = election_invD [OF inv]
  have snd: "sound (peer s i)" if "i < size s" for i using peers_invD(3) [OF I(1) that] .
  from assms(1) show ?thesis
  proof cases
    case (idle_tick i clk rf tasks)
    then show ?thesis using idle_tick_quiet [OF idle_tick(3,4)] by simp
  next
    case (election_tick i clk rf tasks)
    then have "currentTerm (peer s i) \<le> currentTerm rf"
      using soundD(1) [OF snd [OF election_tick(2)]] by (auto simp: tick_def becomeCandidateL_eq candidate_def)
    then show ?thesis unfolding election_tick(1) by simp
  next
    case (vote_request c v args clk rf reply)
    have v: "v < size s" using net_invD(1) [OF I(2) vote_request(2)] by simp
    have "currentTerm (peer s v) \<le> currentTerm rf"
      using vote_request(3) unfolding RequestVote_eq [OF soundD(1) [OF snd [OF v]]] by (auto simp: stepDown_role split: if_splits)
    then show ?thesis unfolding vote_request(1) by simp
  next
    case (vote_reply c v args reply rf vs tasks)
    have c: "c < size s" using net_invD(1) [OF I(2) vote_reply(2)] by simp
    have "currentTerm (peer s c) \<le> currentTerm rf"
      using vote_reply(3) unfolding processRequestReplyL_eq [OF soundD(1) [OF snd [OF c]]] by (auto simp: stepDown_role split: if_splits)
    then show ?thesis unfolding vote_reply(1) by simp
  next
    case (append_request l f args clk rf reply)
    have "wf_append args" using net_invD(1) [OF I(2) append_request(2)] by simp
    then show ?thesis unfolding append_request(1)
      using quiet_term [OF quiet_AppendEntries [OF snd [OF append_request(3)] _ append_request(4)]] by simp
  next
    case (append_reply l f args reply rf)
    then show ?thesis using quiet_term [OF quiet_processAppendReplyL [OF snd [OF append_reply(3)] append_reply(4)]] by simp
  next
    case (install_request l f args clk rf reply')
    then show ?thesis using quiet_term [OF quiet_InstallSnapshot [OF snd [OF install_request(3)] install_request(4)]] by simp
  next
    case (install_reply l f args reply' rf)
    then show ?thesis using quiet_term [OF quiet_processInstallReplyL [OF snd [OF install_reply(3)] install_reply(4)]] by simp
  next
    case (client_start i c res rf tasks)
    then show ?thesis using quiet_term [OF quiet_Start [OF snd [OF client_start(2)] client_start(3)]] by simp
  next
    case (service_snapshot i index data rf)
    then show ?thesis using quiet_term [OF quiet_Snapshot [OF snd [OF service_snapshot(2)] service_snapshot(3)]] by simp
  next
    case (applier i rf out')
    then show ?thesis using quiet_term [OF quiet_applyStep [OF snd [OF applier(2)] applier(3)]] by simp
  next
    case (restart i clk clk' rf)
    then have "quiet (peer s i) rf"
      using quiet_restart [OF snd, of i clk clk' rf] peers_invD(1,2) [OF I(1)] by simp
    then show ?thesis unfolding restart(1) by (simp add: quiet_term)
  qed simp_all
qed

lemma term_mono_steps:
  assumes "reachable n s" and "cluster_steps s s'"
  shows "currentTerm (peer s k) \<le> currentTerm (peer s' k)"
  using assms(2) unfolding cluster_steps_def
proof (induction rule: rtranclp_induct)
  case (step y z)
  have "reachable n y" using reachable_steps [OF assms(1)] step(1) by (simp add: cluster_steps_def)
  then have "currentTerm (peer y k) \<le> currentTerm (peer z k)" by (intro term_mono_step [OF step(2)] reachable_inv)
  then show ?case using step(3) by simp
qed simp

text \<open>
  C23: the term of a server never decreases, in every run of a cluster with loss, reordering, crashes and
  restarts.
\<close>

theorem terms_never_decrease:
  assumes "reachable n s" and "cluster_steps s s'"
  shows "currentTerm (peer s k) \<le> currentTerm (peer s' k)"
  by (rule term_mono_steps [OF assms])

theorem terms_never_decrease_witness:
  "reachable 3 run3 \<and> currentTerm (peer run0 0) \<le> currentTerm (peer run3 0)"
proof -
  have "reachable 3 run0" using run0_start by (auto simp: reachable_def cluster_steps_def)
  moreover have "cluster_steps run0 run3" unfolding cluster_steps_def
    using run1_step run2_step run3_step by (meson converse_rtranclp_into_rtranclp rtranclp.rtrancl_refl)
  ultimately show ?thesis using terms_never_decrease run3_reachable by blast
qed

lemma reachable_size: "reachable n s \<Longrightarrow> size s = n"
  using size_steps by (auto simp: reachable_def startCluster_def)

lemma Make_term: "Make clk clk' n m MakePersister = Inr rf \<Longrightarrow> currentTerm rf = 0"
  by (auto simp: Make_def initL_def readPersist_def ReadRaftState_def MakePersister_def resetElectionTimeoutL_def Let_def)

lemma term_nonneg:
  assumes "reachable n s" and "k < n"
  shows "0 \<le> currentTerm (peer s k)"
proof -
  obtain s0 where s0: "startCluster n s0" "cluster_steps s0 s" using assms(1) by (auto simp: reachable_def)
  then obtain clk clk' where "Make clk clk' n (int k) MakePersister = Inr (peer s0 k)"
    using assms(2) unfolding startCluster_def by blast
  then have "currentTerm (peer s0 k) = 0" by (rule Make_term)
  moreover have "reachable n s0" using s0(1) by (auto simp: reachable_def cluster_steps_def)
  ultimately show ?thesis using term_mono_steps [OF _ s0(2), of n k] by simp
qed

subsection \<open>What the servers apply\<close>

text \<open>What the appliers of all servers receive, in one order; \<open>allowed\<close> is what the tests demand of a message.\<close>

type_synonym ('c, 's) event = "nat \<times> ('c, 's) ApplyMsg"

definition allowed :: "('c, 's) event list \<Rightarrow> ('c, 's) event \<Rightarrow> bool" where
  "allowed before = (\<lambda>(i, m). CommandValid m \<longrightarrow>
     (CommandIndex m > 1 \<longrightarrow> (\<exists>(i', m')\<in>set before. i' = i \<and> CommandValid m' \<and> CommandIndex m' = CommandIndex m - 1)) \<and>
     (\<forall>(i', m')\<in>set before. CommandValid m' \<and> CommandIndex m' = CommandIndex m \<longrightarrow> am_Command m' = am_Command m))"

definition has_applied :: "('c, 's) event list \<Rightarrow> nat \<Rightarrow> int \<Rightarrow> 'c option \<Rightarrow> bool" where
  "has_applied es i k v \<longleftrightarrow> (\<exists>m. (i, m) \<in> set es \<and> CommandValid m \<and> CommandIndex m = k \<and> am_Command m = v)"

definition logs_of :: "nat \<Rightarrow> ('c, 's) event list \<Rightarrow> ('c, 's) config \<Rightarrow> bool" where
  "logs_of n es cfg \<longleftrightarrow> length (logs cfg) = n \<and> (\<forall>i<n. \<forall>k v. (logs cfg ! i) k = Some v \<longleftrightarrow> has_applied es i k v) \<and>
     (\<forall>(i, m)\<in>set es. i < n)"

lemma has_applied_snoc [simp]:
  "has_applied (es @ [(i, m)]) j k v \<longleftrightarrow>
     has_applied es j k v \<or> j = i \<and> CommandValid m \<and> CommandIndex m = k \<and> am_Command m = v"
  by (auto simp: has_applied_def)

lemma otherValue_iff: "otherValue k v lgs \<longleftrightarrow> (\<exists>lg\<in>set lgs. \<exists>old. lg k = Some old \<and> old \<noteq> v)"
  by (induction k v lgs rule: otherValue.induct) (auto split: option.splits)

lemma allowed_iff:
  assumes "logs_of n es cfg" and "i < n" and "CommandValid m"
  shows "allowed es (i, m) \<longleftrightarrow> \<not> otherValue (CommandIndex m) (am_Command m) (logs cfg) \<and>
    (CommandIndex m > 1 \<longrightarrow> (logs cfg ! i) (CommandIndex m - 1) \<noteq> None)"
proof -
  have len: "length (logs cfg) = n" and app: "\<And>j k v. j < n \<Longrightarrow> (logs cfg ! j) k = Some v \<longleftrightarrow> has_applied es j k v"
    and small: "\<forall>(j, m)\<in>set es. j < n" using assms(1) by (auto simp: logs_of_def)
  have "otherValue (CommandIndex m) (am_Command m) (logs cfg) \<longleftrightarrow>
      (\<exists>j<n. \<exists>old. has_applied es j (CommandIndex m) old \<and> old \<noteq> am_Command m)"
    unfolding otherValue_iff using len app by (metis in_set_conv_nth)
  moreover have "(logs cfg ! i) (CommandIndex m - 1) \<noteq> None \<longleftrightarrow> (\<exists>v. has_applied es i (CommandIndex m - 1) v)"
    using app [OF assms(2)] by (metis not_None_eq)
  ultimately show ?thesis using assms(3) small by (auto simp: allowed_def has_applied_def; blast)
qed

lemma applier_step:
  assumes "logs_of n es cfg" and "i < n"
  shows "(\<exists>cfg'. applier i m cfg = Inr cfg') \<longleftrightarrow> allowed es (i, m)"
    and "applier i m cfg = Inr cfg' \<Longrightarrow> logs_of n (es @ [(i, m)]) cfg' \<and> applyErr cfg' = applyErr cfg \<and> rafts cfg' = rafts cfg"
proof -
  have len: "length (logs cfg) = n" using assms(1) by (simp add: logs_of_def)
  have ex: "checkLogs i m cfg = Inr (
      (if otherValue (CommandIndex m) (am_Command m) (logs cfg) then ''commit index'' else '''', (logs cfg ! i) (CommandIndex m - 1) \<noteq> None),
      (let cfg = cfg\<lparr>logs := (logs cfg)[i := (logs cfg ! i)(CommandIndex m \<mapsto> am_Command m)]\<rparr>
       in if CommandIndex m > maxIndex cfg then cfg\<lparr>maxIndex := CommandIndex m\<rparr> else cfg))"
    using assms(2) len by (simp add: checkLogs_def Let_def)
  show iff: "(\<exists>cfg'. applier i m cfg = Inr cfg') \<longleftrightarrow> allowed es (i, m)"
  proof (cases "CommandValid m")
    case True
    then show ?thesis unfolding allowed_iff [OF assms True] applier_def ex by (simp add: Let_def)
  next
    case False
    then show ?thesis by (simp add: applier_def allowed_def)
  qed
  assume run: "applier i m cfg = Inr cfg'"
  show "logs_of n (es @ [(i, m)]) cfg' \<and> applyErr cfg' = applyErr cfg \<and> rafts cfg' = rafts cfg"
  proof (cases "CommandValid m")
    case False
    then show ?thesis using run assms by (auto simp: applier_def logs_of_def)
  next
    case True
    have al: "allowed es (i, m)" using run iff by blast
    have cfg': "logs cfg' = (logs cfg)[i := (logs cfg ! i)(CommandIndex m \<mapsto> am_Command m)]" "applyErr cfg' = applyErr cfg" "rafts cfg' = rafts cfg"
      using run True unfolding applier_def ex by (auto simp: Let_def split: if_splits)
    have "v = am_Command m" if "has_applied es i (CommandIndex m) v" for v
      using al that True by (auto simp: allowed_def has_applied_def)
    then have "\<forall>j<n. \<forall>k v. (logs cfg' ! j) k = Some v \<longleftrightarrow> has_applied (es @ [(i, m)]) j k v"
      using assms len True unfolding cfg'(1) by (auto simp: logs_of_def nth_list_update)
    then show ?thesis using assms cfg' len by (auto simp: logs_of_def)
  qed
qed

lemma splits_snoc:
  "(\<forall>before x after. xs @ [y] = before @ x # after \<longrightarrow> P before x) \<longleftrightarrow>
   (\<forall>before x after. xs = before @ x # after \<longrightarrow> P before x) \<and> P xs y"
proof (intro iffI conjI allI impI)
  fix before x after
  assume all: "\<forall>before x after. xs @ [y] = before @ x # after \<longrightarrow> P before x" and "xs = before @ x # after"
  then have "xs @ [y] = before @ x # (after @ [y])" by simp
  with all show "P before x" by blast
next
  fix before x after
  assume "(\<forall>before x after. xs = before @ x # after \<longrightarrow> P before x) \<and> P xs y" and "xs @ [y] = before @ x # after"
  then show "P before x" by (cases after rule: rev_cases) (auto simp flip: append_assoc append_Cons)
qed blast

lemma applier_run:
  assumes "logs_of n [] cfg" and "\<forall>(i, m)\<in>set es. i < n"
  shows "(\<exists>cfg'. gfold (\<lambda>(i, m). applier i m) es cfg = Inr cfg') \<longleftrightarrow> (\<forall>before e after. es = before @ e # after \<longrightarrow> allowed before e)"
    and "gfold (\<lambda>(i, m). applier i m) es cfg = Inr cfg' \<Longrightarrow> logs_of n es cfg' \<and> applyErr cfg' = applyErr cfg \<and> rafts cfg' = rafts cfg"
proof -
  let ?run = "\<lambda>es. gfold (\<lambda>(i, m). applier i m) es cfg"
  have inv: "?run es = Inr cfg' \<Longrightarrow> logs_of n es cfg' \<and> applyErr cfg' = applyErr cfg \<and> rafts cfg' = rafts cfg"
    if "\<forall>(i, m)\<in>set es. i < n" for es cfg'
    using that
  proof (induction es arbitrary: cfg' rule: rev_induct)
    case (snoc e es)
    obtain i m where e: "e = (i, m)" by force
    obtain cfg1 where c: "?run es = Inr cfg1" "applier i m cfg1 = Inr cfg'" using snoc.prems(1) e by auto
    have "i < n" using snoc.prems(2) e by auto
    then show ?case using applier_step(2) [OF _ _ c(2), of n es] snoc.IH [OF c(1)] snoc.prems(2) e by auto
  qed (use assms(1) in simp)
  then show "?run es = Inr cfg' \<Longrightarrow> logs_of n es cfg' \<and> applyErr cfg' = applyErr cfg \<and> rafts cfg' = rafts cfg" for cfg'
    using assms(2) by blast
  show "(\<exists>cfg'. ?run es = Inr cfg') \<longleftrightarrow> (\<forall>before e after. es = before @ e # after \<longrightarrow> allowed before e)"
    using assms(2)
  proof (induction es rule: rev_induct)
    case (snoc e es)
    obtain i m where e: "e = (i, m)" by force
    have small: "\<forall>(i, m)\<in>set es. i < n" "i < n" using snoc.prems e by auto
    have "(\<exists>cfg'. ?run (es @ [e]) = Inr cfg') \<longleftrightarrow> (\<exists>cfg1. ?run es = Inr cfg1 \<and> (\<exists>cfg'. applier i m cfg1 = Inr cfg'))"
      using e by (auto simp: gbind_Inr_iff)
    also have "\<dots> \<longleftrightarrow> (\<exists>cfg1. ?run es = Inr cfg1) \<and> allowed es e"
      using applier_step(1) [OF _ small(2)] inv [OF small(1)] e by blast
    also have "\<dots> \<longleftrightarrow> (\<forall>before e' after. es @ [e] = before @ e' # after \<longrightarrow> allowed before e')"
      unfolding snoc.IH [OF small(1)] splits_snoc ..
    finally show ?case .
  qed simp
qed

text \<open>
  C30: the appliers of a test accept a sequence of messages exactly if every command of a server comes after
  the one before it, and all servers apply the same command at an index: they accept nothing else, and
  refuse nothing that is right.
\<close>

theorem applier_checks:
  assumes "logs cfg = replicate n Map.empty" and "\<forall>(i, m)\<in>set es. i < n"
  shows "(\<exists>cfg'. gfold (\<lambda>(i, m). applier i m) es cfg = Inr cfg') \<longleftrightarrow> (\<forall>before e after. es = before @ e # after \<longrightarrow> allowed before e)"
  by (rule applier_run(1) [OF _ assms(2)]) (simp add: logs_of_def has_applied_def assms(1))

definition counts :: "('c, 's) event list \<Rightarrow> int \<Rightarrow> nat \<Rightarrow> int" where
  "counts es k j = int (card {i. i < j \<and> (\<exists>v. has_applied es i k v)})"

lemma counts_Suc: "counts es k (Suc j) = counts es k j + (if \<exists>v. has_applied es j k v then 1 else 0)"
proof -
  have "{i. i < Suc j \<and> (\<exists>v. has_applied es i k v)} =
      (if \<exists>v. has_applied es j k v then insert j else (\<lambda>x. x)) {i. i < j \<and> (\<exists>v. has_applied es i k v)}"
    by (auto simp: less_Suc_eq)
  then show ?thesis by (simp add: counts_def)
qed

lemma nCommitted_run:
  assumes inv: "logs_of n es cfg" and err: "applyErr cfg = replicate n ''''" and "length (rafts cfg) = n"
    and same: "\<And>i j v w. has_applied es i k v \<Longrightarrow> has_applied es j k w \<Longrightarrow> v = w"
  shows "\<exists>cmd. nCommitted k cfg = Inr (counts es k n, cmd) \<and> (\<forall>i<n. \<forall>v. has_applied es i k v \<longrightarrow> v = cmd)"
proof -
  let ?f = "\<lambda>i (count, cmd). gbind (idx (applyErr cfg) (int i)) (\<lambda>err. if err \<noteq> '''' then Inl (TestFatal err)
     else gbind (idx (logs cfg) (int i)) (\<lambda>lg. case lg k of None \<Rightarrow> Inr (count, cmd)
       | Some cmd1 \<Rightarrow> if count > 0 \<and> cmd \<noteq> cmd1 then Inl (TestFatal ''committed values do not match'') else Inr (count + 1, cmd1)))"
  have "j \<le> n \<Longrightarrow> \<exists>cmd. gfold ?f [0..<j] (0, None) = Inr (counts es k j, cmd) \<and> (\<forall>i<j. \<forall>v. has_applied es i k v \<longrightarrow> v = cmd)" for j
  proof (induction j)
    case 0
    then show ?case by (simp add: counts_def)
  next
    case (Suc j)
    then obtain cmd where cmd: "gfold ?f [0..<j] (0, None) = Inr (counts es k j, cmd)" "\<forall>i<j. \<forall>v. has_applied es i k v \<longrightarrow> v = cmd" by auto
    have j: "j < n" using Suc.prems by simp
    have lg: "(logs cfg ! j) k = Some v \<longleftrightarrow> has_applied es j k v" for v using inv j by (simp add: logs_of_def)
    have len: "length (logs cfg) = n" using inv by (simp add: logs_of_def)
    show ?case
    proof (cases "(logs cfg ! j) k")
      case None
      then have "\<nexists>v. has_applied es j k v" using lg by (metis option.discI)
      then show ?thesis using cmd j len err None by (intro exI [of _ cmd]) (auto simp: counts_Suc less_Suc_eq)
    next
      case (Some v)
      then have v: "has_applied es j k v" using lg by simp
      have "cmd = v" if "counts es k j > 0"
      proof -
        have "{i. i < j \<and> (\<exists>v. has_applied es i k v)} \<noteq> {}" using that by (intro notI) (simp only: counts_def card.empty of_nat_0)
        then show ?thesis using cmd(2) same [OF v] by blast
      qed
      then show ?thesis using cmd j len err Some v same by (intro exI [of _ v]) (auto simp: counts_Suc less_Suc_eq)
    qed
  qed
  from this [of n] show ?thesis unfolding nCommitted_def assms(3) by simp
qed

text \<open>
  After messages that the appliers have accepted, \<open>nCommitted\<close> does not fail: it returns the number of
  servers that have applied a command at the index, and the command that all of them have applied.
\<close>

theorem nCommitted_counts:
  assumes "logs cfg = replicate n Map.empty" and "applyErr cfg = replicate n ''''" and "length (rafts cfg) = n"
    and "\<forall>(i, m)\<in>set es. i < n" and "gfold (\<lambda>(i, m). applier i m) es cfg = Inr cfg'"
  shows "\<exists>cmd. nCommitted k cfg' = Inr (int (card {i. i < n \<and> (\<exists>v. has_applied es i k v)}), cmd) \<and>
    (\<forall>i<n. \<forall>v. has_applied es i k v \<longrightarrow> v = cmd)"
proof -
  have l: "logs_of n [] cfg" by (simp add: logs_of_def has_applied_def assms(1))
  note run = applier_run [OF l assms(4)]
  have al: "\<forall>before e after. es = before @ e # after \<longrightarrow> allowed before e" using run(1) assms(5) by blast
  have same: "am_Command m = am_Command m'"
    if "(i, m) \<in> set es" "(j, m') \<in> set es" "CommandValid m" "CommandValid m'" "CommandIndex m = CommandIndex m'" for i j m m'
    using al that
  proof (induction es rule: rev_induct)
    case (snoc e es)
    have "\<forall>before e after. es = before @ e # after \<longrightarrow> allowed before e" "allowed es e"
      using snoc.prems(1) unfolding splits_snoc by blast+
    note before = this(1) and here = this(2)
    show ?case
    proof (cases "(i, m) = e \<or> (j, m') = e")
      case True
      then show ?thesis using here snoc.prems(2-6) unfolding allowed_def by fastforce
    next
      case False
      then show ?thesis using snoc.IH [OF before] snoc.prems(2-6) by simp
    qed
  qed simp
  have "\<exists>cmd. nCommitted k cfg' = Inr (counts es k n, cmd) \<and> (\<forall>i<n. \<forall>v. has_applied es i k v \<longrightarrow> v = cmd)"
  proof (rule nCommitted_run)
    show "v = w" if h: "has_applied es i k v" "has_applied es j k w" for i j v w
    proof -
      obtain m m' where "(i, m) \<in> set es" "CommandValid m" "CommandIndex m = k" "am_Command m = v"
        "(j, m') \<in> set es" "CommandValid m'" "CommandIndex m' = k" "am_Command m' = w" using h unfolding has_applied_def by blast
      then show ?thesis using same [of i m j m'] by simp
    qed
  qed (use run(2) [OF assms(5)] assms(2,3) in simp_all)
  then show ?thesis by (simp add: counts_def)
qed

subsection \<open>Leaders\<close>

text \<open>Server \<open>i\<close> is connected and says that it leads term \<open>t\<close>.\<close>

definition lead :: "states \<Rightarrow> ('c, 's) config \<Rightarrow> nat \<Rightarrow> int \<Rightarrow> bool" where
  "lead states cfg i t \<longleftrightarrow> connected cfg ! i \<and> (\<exists>a. rafts cfg ! i = Some a \<and> states a = (t, True))"

definition running :: "('c, 's) config \<Rightarrow> bool" where
  "running cfg \<longleftrightarrow> length (connected cfg) = cfg_n cfg \<and> length (rafts cfg) = cfg_n cfg \<and>
     (\<forall>i<cfg_n cfg. connected cfg ! i \<longrightarrow> rafts cfg ! i \<noteq> None)"

definition leadersAt :: "(int \<times> nat list) list \<Rightarrow> int \<Rightarrow> nat list" where
  "leadersAt L t = (case map_of L t of None \<Rightarrow> [] | Some is \<Rightarrow> is)"

lemma addLeader_spec:
  assumes "distinct (map fst L)" and "\<forall>(t, is)\<in>set L. is \<noteq> []"
  shows "distinct (map fst (addLeader t i L))" and "\<forall>(t, is)\<in>set (addLeader t i L). is \<noteq> []"
    and "leadersAt (addLeader t i L) u = leadersAt L u @ (if u = t then [i] else [])"
proof -
  let ?L = "addLeader t i L"
  show d: "distinct (map fst ?L)" using assms(1) by (simp add: addLeader_def distinct_update)
  have m: "map_of ?L = (map_of L)(t \<mapsto> leadersAt L t @ [i])" by (simp add: addLeader_def update_conv' leadersAt_def)
  then show "leadersAt ?L u = leadersAt L u @ (if u = t then [i] else [])" by (simp add: leadersAt_def)
  show "\<forall>(t, is)\<in>set ?L. is \<noteq> []"
  proof clarify
    fix u assume "(u, []) \<in> set ?L"
    then have "map_of ?L u = Some []" using d by simp
    then have "map_of L u = Some []" using m by (auto split: if_splits)
    then show False using assms map_of_SomeD by fastforce
  qed
qed

lemma leadersOf_spec:
  assumes "running cfg"
  shows "\<exists>L. leadersOf states cfg = Inr L \<and> distinct (map fst L) \<and> (\<forall>(t, is)\<in>set L. is \<noteq> []) \<and>
    (\<forall>t. leadersAt L t = filter (\<lambda>i. lead states cfg i t) [0..<cfg_n cfg])"
proof -
  let ?f = "\<lambda>i leaders. gbind (idx (connected cfg) (int i)) (\<lambda>c.
     if c then gbind (stateOf states i cfg) (\<lambda>(term, leader). Inr (if leader then addLeader term i leaders else leaders)) else Inr leaders)"
  have "j \<le> cfg_n cfg \<Longrightarrow> \<exists>L. gfold ?f [0..<j] [] = Inr L \<and> distinct (map fst L) \<and> (\<forall>(t, is)\<in>set L. is \<noteq> []) \<and>
      (\<forall>t. leadersAt L t = filter (\<lambda>i. lead states cfg i t) [0..<j])" for j
  proof (induction j)
    case 0
    then show ?case by (simp add: leadersAt_def)
  next
    case (Suc j)
    then obtain L where L: "gfold ?f [0..<j] [] = Inr L" "distinct (map fst L)" "\<forall>(t, is)\<in>set L. is \<noteq> []"
      "\<And>t. leadersAt L t = filter (\<lambda>i. lead states cfg i t) [0..<j]" by auto
    have j: "j < cfg_n cfg" using Suc.prems by simp
    show ?case
    proof (cases "connected cfg ! j")
      case False
      then show ?thesis using L j assms by (auto simp: running_def lead_def)
    next
      case True
      then obtain a where a: "rafts cfg ! j = Some a" using assms j by (auto simp: running_def)
      obtain t b where tb: "states a = (t, b)" by force
      have step: "?f j L = Inr (if b then addLeader t j L else L)"
        using True a tb j assms by (simp add: running_def stateOf_def)
      have "lead states cfg j u \<longleftrightarrow> b \<and> u = t" for u using True a tb by (auto simp: lead_def)
      then have "leadersAt (if b then addLeader t j L else L) u = filter (\<lambda>i. lead states cfg i u) [0..<Suc j]" for u
        using L(4) addLeader_spec(3) [OF L(2,3)] by simp
      then show ?thesis using L(1-3) step addLeader_spec(1,2) [OF L(2,3)]
        by (intro exI [of _ "if b then addLeader t j L else L"]) simp
    qed
  qed
  from this [of "cfg_n cfg"] show ?thesis unfolding leadersOf_def by simp
qed

lemma lastTerm_max:
  "\<forall>(t, is)\<in>set L. length is \<le> 1 \<Longrightarrow>
   \<exists>T. lastTerm L m = Inr T \<and> m \<le> T \<and> (\<forall>t\<in>fst ` set L. t \<le> T) \<and> (T = m \<or> T \<in> fst ` set L)"
proof (induction L m rule: lastTerm.induct)
  case (2 t "is" L m)
  let ?m = "if t > m then t else m"
  obtain T where "lastTerm L ?m = Inr T" "?m \<le> T" "\<forall>t\<in>fst ` set L. t \<le> T" "T = ?m \<or> T \<in> fst ` set L"
    using 2 by auto
  then show ?case using 2 by (intro exI [of _ T]) (auto split: if_splits)
qed simp

lemma leaderRound_spec:
  fixes cfg :: "('c, 's) config"
  assumes run: "running cfg"
    and uniq: "\<And>i j t. i < cfg_n cfg \<Longrightarrow> j < cfg_n cfg \<Longrightarrow> lead states cfg i t \<Longrightarrow> lead states cfg j t \<Longrightarrow> i = j"
    and nonneg: "\<And>i t. i < cfg_n cfg \<Longrightarrow> lead states cfg i t \<Longrightarrow> 0 \<le> t"
  shows "(\<exists>i T. leaderRound states cfg = Inr (Some i) \<and> i < cfg_n cfg \<and> lead states cfg i T \<and>
      (\<forall>j<cfg_n cfg. \<forall>t. lead states cfg j t \<longrightarrow> t \<le> T)) \<or>
    (leaderRound states cfg = Inr None \<and> (\<forall>j<cfg_n cfg. \<forall>t. \<not> lead states cfg j t))"
proof -
  obtain L where L: "leadersOf states cfg = Inr L" "distinct (map fst L)" "\<forall>(t, is)\<in>set L. is \<noteq> []"
    and at: "\<And>t. leadersAt L t = filter (\<lambda>i. lead states cfg i t) [0..<cfg_n cfg]"
    using leadersOf_spec [OF run] by blast
  have mem: "i \<in> set (leadersAt L t) \<longleftrightarrow> i < cfg_n cfg \<and> lead states cfg i t" for i t by (simp add: at)
  have key: "leadersAt L t = is" if "(t, is) \<in> set L" for t "is" using that L(2) by (simp add: leadersAt_def)
  have one: "length is \<le> 1" if "(t, is) \<in> set L" for t "is"
  proof (rule ccontr)
    assume "\<not> length is \<le> 1"
    then have l: "0 < length is" "1 < length is" by auto
    have "distinct is" using key [OF that] at [of t] by (metis distinct_filter distinct_upt)
    then have "is ! 0 \<noteq> is ! 1" "is ! 0 \<in> set is" "is ! 1 \<in> set is" using l nth_eq_iff_index_eq [of "is" 0 1] by auto
    then show False using uniq [of "is ! 0" "is ! 1" t] mem [of _ t] key [OF that] by blast
  qed
  then obtain T where T: "lastTerm L (-1) = Inr T" "\<forall>t\<in>fst ` set L. t \<le> T" "T = -1 \<or> T \<in> fst ` set L" using lastTerm_max [of L "-1"] by blast
  have terms: "t \<in> fst ` set L \<longleftrightarrow> (\<exists>i<cfg_n cfg. lead states cfg i t)" for t
  proof
    assume "t \<in> fst ` set L"
    then obtain "is" where "(t, is) \<in> set L" by force
    then have "hd is \<in> set (leadersAt L t)" using key L(3) by auto
    then show "\<exists>i<cfg_n cfg. lead states cfg i t" using mem by blast
  next
    assume "\<exists>i<cfg_n cfg. lead states cfg i t"
    then obtain i where "i \<in> set (leadersAt L t)" using mem by blast
    then have "leadersAt L t \<noteq> []" by auto
    then show "t \<in> fst ` set L" by (auto simp: leadersAt_def split: option.splits dest: map_of_SomeD intro!: rev_image_eqI)
  qed
  show ?thesis
  proof (cases "L = []")
    case True
    then show ?thesis using L(1) terms T(1) by (auto simp: leaderRound_def)
  next
    case False
    then have "T \<in> fst ` set L" using T(2,3) terms nonneg by (metis (no_types) image_is_empty set_empty ex_in_conv le_minus_one_simps(3) order_trans)
    then obtain "is" where "(T, is) \<in> set L" by force
    then have ne: "is \<noteq> []" and k: "leadersAt L T = is" using L(3) key by auto
    then have hd: "is ! 0 < cfg_n cfg" "lead states cfg (is ! 0) T" using mem [of "is ! 0" T] by simp_all
    have "leaderRound states cfg = Inr (Some (is ! 0))"
      using L(1) T(1) False k ne by (simp add: leaderRound_def leadersAt_def [symmetric])
    then show ?thesis using hd T(2) terms by blast
  qed
qed

text \<open>
  The calls of \<open>GetState\<close> in one round of a test happen one after the other while the cluster runs: server \<open>i\<close>
  is asked in the state \<open>asked i\<close>.
\<close>

definition sampled :: "(nat \<Rightarrow> ('c, 's) cluster) \<Rightarrow> ('c, 's) config \<Rightarrow> states \<Rightarrow> bool" where
  "sampled asked cfg states \<longleftrightarrow>
     (\<forall>i<cfg_n cfg. reachable (cfg_n cfg) (asked i)) \<and> (\<forall>i j. i \<le> j \<and> j < cfg_n cfg \<longrightarrow> cluster_steps (asked i) (asked j)) \<and>
     (\<forall>i<cfg_n cfg. \<forall>a. rafts cfg ! i = Some a \<longrightarrow> states a = GetState (peer (asked i) i))"

lemma lead_elected:
  assumes "sampled asked cfg states" and "i < cfg_n cfg" and "lead states cfg i t" and "i \<le> k" and "k < cfg_n cfg"
  shows "(i, t) \<in> elected (asked k)"
proof -
  have r: "reachable (cfg_n cfg) (asked i)" and "cluster_steps (asked i) (asked k)"
    using assms by (auto simp: sampled_def)
  moreover have "(i, t) \<in> elected (asked i)"
    using leader_elected [OF reachable_inv [OF r]] reachable_size [OF r] assms(1-3)
    by (auto simp: lead_def sampled_def GetState_def)
  ultimately show ?thesis using elected_mono by blast
qed

lemma sampled_unique:
  assumes "sampled asked cfg states" and "i < cfg_n cfg" and "j < cfg_n cfg" and "lead states cfg i t" and "lead states cfg j t"
  shows "i = j"
proof -
  have "(i, t) \<in> elected (asked (max i j))" "(j, t) \<in> elected (asked (max i j))"
    using lead_elected [OF assms(1)] assms(2-5) by auto
  moreover have "election_inv (asked (max i j))" using assms(1-3) by (auto simp: sampled_def max_def intro!: reachable_inv)
  ultimately show ?thesis using elected_unique by blast
qed

lemma sampled_nonneg:
  assumes "sampled asked cfg states" and "i < cfg_n cfg" and "lead states cfg i t"
  shows "0 \<le> t"
  using assms term_nonneg [of "cfg_n cfg" "asked i" i] by (auto simp: sampled_def lead_def GetState_def)

text \<open>
  C11: while a cluster of Raft servers runs, with any loss, delay, crash or restart, \<open>checkOneLeader\<close> never finds
  two leaders of a term and does not panic. If it returns a server, the server was connected and led the
  highest term that a connected server led in that round; if it fails, no connected server led in any
  round. Other connected servers may lead an older term in the same round: the code does not look for them, although
  its comment promises that no other connected server thinks otherwise (\<open>leaderRound_two_leaders\<close>).
\<close>

theorem checkOneLeader_right:
  assumes "running cfg" and "\<forall>states\<in>set sts. \<exists>asked. sampled asked cfg states"
  shows "case checkOneLeader sts cfg of
      Inr i \<Rightarrow> i < cfg_n cfg \<and> (\<exists>states\<in>set sts. \<exists>T. lead states cfg i T \<and> (\<forall>j<cfg_n cfg. \<forall>t. lead states cfg j t \<longrightarrow> t \<le> T))
    | Inl e \<Rightarrow> e = TestFatal ''expected one leader, got none'' \<and> (\<forall>states\<in>set sts. \<forall>j<cfg_n cfg. \<forall>t. \<not> lead states cfg j t)"
  using assms(2)
proof (induction sts)
  case (Cons states sts)
  then obtain asked where at: "sampled asked cfg states" by auto
  have "(\<exists>i T. leaderRound states cfg = Inr (Some i) \<and> i < cfg_n cfg \<and> lead states cfg i T \<and>
      (\<forall>j<cfg_n cfg. \<forall>t. lead states cfg j t \<longrightarrow> t \<le> T)) \<or>
    (leaderRound states cfg = Inr None \<and> (\<forall>j<cfg_n cfg. \<forall>t. \<not> lead states cfg j t))"
    by (rule leaderRound_spec [OF assms(1)]) (use sampled_unique [OF at] sampled_nonneg [OF at] in auto)
  then show ?case
  proof (elim disjE exE conjE)
    fix i T assume "leaderRound states cfg = Inr (Some i)" "i < cfg_n cfg" "lead states cfg i T"
      "\<forall>j<cfg_n cfg. \<forall>t. lead states cfg j t \<longrightarrow> t \<le> T"
    then show ?thesis by auto
  next
    assume "leaderRound states cfg = Inr None" "\<forall>j<cfg_n cfg. \<forall>t. \<not> lead states cfg j t"
    then show ?thesis using Cons by (auto split: sum.splits)
  qed
qed simp

subsection \<open>Agreement\<close>

lemma agreed_iff:
  "agreed cmd expectedServers index seen = Inr True \<Longrightarrow>
   \<exists>cfg\<in>set seen. \<exists>nd. nCommitted index cfg = Inr (nd, Some cmd) \<and> 0 < nd \<and> expectedServers \<le> nd"
proof (induction seen)
  case (Cons cfg seen)
  then obtain nd cmd1 where n: "nCommitted index cfg = Inr (nd, cmd1)" by auto
  show ?case
  proof (cases "nd > 0 \<and> nd \<ge> expectedServers \<and> cmd1 = Some cmd")
    case True
    then show ?thesis using n by auto
  next
    case False
    then have "agreed cmd expectedServers index seen = Inr True" using Cons.prems n by (auto split: if_splits)
    then show ?thesis using Cons.IH by auto
  qed
qed simp

text \<open>
  When \<open>one\<close> returns an index other than \<open>-1\<close>, a connected server had accepted the command at that
  index, and afterwards at least the expected number of servers had applied this command there.
\<close>

theorem one_agrees:
  assumes "one cmd expectedServers retry rounds cfg starts = Inr index" and "index \<noteq> -1"
  shows "\<exists>(begun, seen)\<in>set rounds. (\<exists>from to cfg'. submit (cfg_n begun) cmd from begun = Inr (index, to, cfg')) \<and>
    (\<exists>cfg'\<in>set seen. \<exists>nd. nCommitted index cfg' = Inr (nd, Some cmd) \<and> 0 < nd \<and> expectedServers \<le> nd)"
  using assms
proof (induction rounds arbitrary: starts)
  case Nil
  then show ?case by (auto split: if_splits)
next
  case (Cons r rounds)
  obtain begun seen where r: "r = (begun, seen)" by force
  obtain i to cfg' where s: "submit (cfg_n begun) cmd starts begun = Inr (i, to, cfg')" using Cons.prems(1) r by auto
  show ?case
  proof (cases "i \<noteq> -1 \<and> agreed cmd expectedServers i seen = Inr True")
    case True
    then have "index = i" using Cons.prems(1) s r by simp
    then have "\<exists>cfg'\<in>set seen. \<exists>nd. nCommitted index cfg' = Inr (nd, Some cmd) \<and> 0 < nd \<and> expectedServers \<le> nd"
      using agreed_iff [of cmd expectedServers i seen] True by simp
    then show ?thesis using s r \<open>index = i\<close> by auto
  next
    case False
    then have "one cmd expectedServers retry rounds cfg to = Inr index" using Cons.prems(1) s r by (auto split: if_splits)
    then show ?thesis using Cons.IH [OF _ Cons.prems(2)] unfolding list.set by blast
  qed
qed

subsection \<open>Small tests\<close>

definition demoMsg :: "int \<Rightarrow> nat \<Rightarrow> (nat, nat) ApplyMsg" where
  "demoMsg k v = \<lparr>CommandValid = True, am_Command = Some v, CommandIndex = k, SnapshotValid = False, am_Snapshot = [], SnapshotTerm = 0, SnapshotIndex = 0\<rparr>"

definition demoEvents :: "(nat, nat) event list" where
  "demoEvents = [(0, demoMsg 1 5), (1, demoMsg 1 5), (0, demoMsg 2 6)]"

lemma demo_allowed: "\<forall>before e after. demoEvents = before @ e # after \<longrightarrow> allowed before e"
  by (auto simp: demoEvents_def Cons_eq_append_conv append_eq_Cons_conv allowed_def demoMsg_def)

theorem applier_checks_witness:
  "(\<exists>cfg'. gfold (\<lambda>(i, m). applier i m) demoEvents (emptyConfig 2) = Inr cfg') \<and>
   \<not> (\<exists>cfg'. gfold (\<lambda>(i, m). applier i m) (demoEvents @ [(1, demoMsg 2 7)]) (emptyConfig 2) = Inr cfg')"
proof -
  have l: "logs (emptyConfig 2 :: (nat, nat) config) = replicate 2 Map.empty" by (simp add: emptyConfig_def)
  have i: "\<forall>(i, m)\<in>set (demoEvents @ [(1, demoMsg 2 7)]). i < 2" "\<forall>(i, m)\<in>set demoEvents. i < 2" by (simp_all add: demoEvents_def)
  have "\<not> allowed demoEvents (1, demoMsg 2 7)" by (simp add: allowed_def demoEvents_def demoMsg_def)
  then show ?thesis
    unfolding applier_checks [OF l i(1)] applier_checks [OF l i(2)] splits_snoc using demo_allowed by blast
qed

theorem nCommitted_counts_witness:
  "\<exists>cfg' cmd. gfold (\<lambda>(i, m). applier i m) demoEvents (emptyConfig 2) = Inr cfg' \<and>
     nCommitted 1 cfg' = Inr (int (card {i. i < 2 \<and> (\<exists>v. has_applied demoEvents i 1 v)}), cmd) \<and> cmd = Some 5"
proof -
  have e: "logs (emptyConfig 2 :: (nat, nat) config) = replicate 2 Map.empty" "applyErr (emptyConfig 2 :: (nat, nat) config) = replicate 2 ''''"
    "length (rafts (emptyConfig 2 :: (nat, nat) config)) = 2" by (simp_all add: emptyConfig_def)
  have i: "\<forall>(i, m)\<in>set demoEvents. i < 2" by (simp add: demoEvents_def)
  have "logs_of 2 [] (emptyConfig 2 :: (nat, nat) config)" by (simp add: logs_of_def has_applied_def emptyConfig_def)
  then obtain cfg' where r: "gfold (\<lambda>(i, m). applier i m) demoEvents (emptyConfig 2) = Inr cfg'"
    using applier_run(1) [OF _ i] demo_allowed by blast
  have "has_applied demoEvents 0 1 (Some 5)"
    unfolding has_applied_def by (intro exI [of _ "demoMsg 1 5"]) (simp add: demoEvents_def demoMsg_def)
  then show ?thesis using nCommitted_counts [OF e i r, of 1] r by fastforce
qed

definition demoCluster :: "(nat, nat) config" where
  "demoCluster = (emptyConfig 3)\<lparr>connected := [True, True, True], rafts := [Some 0, Some 1, Some 2]\<rparr>"

text \<open>Two connected servers that lead different terms pass the check, which returns the newer one.\<close>

lemma leaderRound_two_leaders:
  assumes "states = (\<lambda>a. if a = 0 then (1, True) else if a = 1 then (2, True) else (2, False))"
  shows "lead states demoCluster 0 1 \<and> lead states demoCluster 1 2 \<and> checkOneLeader (states # later) demoCluster = Inr 1"
  by (simp add: assms lead_def demoCluster_def emptyConfig_def leaderRound_def leadersOf_def stateOf_def addLeader_def
      idx_def numeral_3_eq_3)

theorem checkOneLeader_right_witness:
  "\<exists>i<3. checkOneLeader [\<lambda>a. GetState (peer run3 a)] demoCluster = Inr i \<and> (\<exists>T. lead (\<lambda>a. GetState (peer run3 a)) demoCluster i T)"
proof -
  let ?st = "\<lambda>a. GetState (peer run3 a)"
  have n: "cfg_n demoCluster = 3" by (simp add: demoCluster_def emptyConfig_def)
  have run: "running demoCluster" by (auto simp: running_def demoCluster_def emptyConfig_def less_Suc_eq numeral_3_eq_3)
  have "sampled (\<lambda>_. run3) demoCluster ?st"
    using run3_reachable unfolding sampled_def n
    by (auto simp: cluster_steps_def demoCluster_def less_Suc_eq numeral_3_eq_3 numeral_2_eq_2)
  then have r: "\<forall>states\<in>set [?st]. \<exists>asked. sampled asked demoCluster states" by auto
  have "lead ?st demoCluster 0 1" by (simp add: lead_def demoCluster_def GetState_def run3_leader)
  then show ?thesis using checkOneLeader_right [OF run r] n by (auto split: sum.splits)
qed

definition demoLeader :: "(nat, nat) config" where
  "demoLeader = (emptyConfig 1)\<lparr>connected := [True], rafts := [Some 0], objects := (\<lambda>_. \<lparr>in_raft = leader1, in_disk = 0\<rparr>)\<rparr>"

theorem one_agrees_witness:
  "\<exists>index. one 9 1 True [(demoLeader, [demoLeader\<lparr>logs := [\<lambda>_. Some (Some 9)]\<rparr>])] demoLeader 0 = Inr index \<and>
     (\<exists>from to cfg'. submit 1 9 from demoLeader = Inr (index, to, cfg'))"
proof -
  have "\<exists>index. one 9 1 True [(demoLeader, [demoLeader\<lparr>logs := [\<lambda>_. Some (Some 9)]\<rparr>])] demoLeader 0 = Inr index \<and> index \<noteq> -1"
    by (simp add: demoLeader_def emptyConfig_def leader1_def Start_def lastLogL_def nCommitted_def runObject_def persistL_def entry_def Let_def)
  then obtain index where i: "one 9 1 True [(demoLeader, [demoLeader\<lparr>logs := [\<lambda>_. Some (Some 9)]\<rparr>])] demoLeader 0 = Inr index" "index \<noteq> -1" by blast
  then show ?thesis using one_agrees [OF i] by (auto simp: demoLeader_def emptyConfig_def)
qed

end
