(* ===== verification/Service_Config.thy ===== *)
theory Service_Config
  imports Config_Base
begin

text \<open>
  The part of the test configurations of the key/value service and of the shard controller that does not depend
  on the service: \<^verbatim>\<open>kvraft/config.go\<close> and \<^verbatim>\<open>shardctrler/config.go\<close> have it word for word. The servers are objects:
  \<open>objects\<close> has them by address, and the network has a server for each under the same address. Clerks are
  objects with the names of their ends; the order in which a clerk sees its servers is random.
\<close>

record ('c, 's, 'srv) svc_config =
  cfg_net :: "(string, nat) Network"
  cfg_n :: nat
  cfg_servers :: "nat option list"
  saved :: "nat option list"
  endnames :: "string list option list"
  clerks :: "nat \<rightharpoonup> string list"
  nextClientId :: int
  objects :: "nat \<Rightarrow> 'srv"
  nobjects :: nat
  nclerks :: nat
  cfg_disk :: "('c, 's) disk"

subsection \<open>Connections\<close>

definition connectUnlocked :: "nat \<Rightarrow> nat list \<Rightarrow> ('c, 's, 'srv, 'z) svc_config_scheme \<Rightarrow> ('c, 's, 'srv, 'z) svc_config_scheme go" where
  "connectUnlocked i to cfg =
     gbind (enableWhere True (\<lambda>_. Inr True) (\<lambda>j. endname (endnames cfg) i j) to (cfg_net cfg)) (\<lambda>rn.
     gbind (enableWhere True (\<lambda>_. Inr True) (\<lambda>j. endname (endnames cfg) j i) to rn) (\<lambda>rn.
     Inr (cfg\<lparr>cfg_net := rn\<rparr>)))"

definition connect :: "nat \<Rightarrow> nat list \<Rightarrow> ('c, 's, 'srv, 'z) svc_config_scheme \<Rightarrow> ('c, 's, 'srv, 'z) svc_config_scheme go" where
  "connect i to cfg = connectUnlocked i to cfg"

text \<open>The second loop tests \<open>cfg.endnames[j]\<close>, where \<open>j\<close> is a position in \<open>from\<close> and not the server there.\<close>

definition disconnectUnlocked :: "nat \<Rightarrow> nat list \<Rightarrow> ('c, 's, 'srv, 'z) svc_config_scheme \<Rightarrow> ('c, 's, 'srv, 'z) svc_config_scheme go" where
  "disconnectUnlocked i from cfg =
     gbind (enableWhere False (\<lambda>_. isStarted (endnames cfg) i) (\<lambda>j. endname (endnames cfg) i j) from (cfg_net cfg)) (\<lambda>rn.
     gbind (enableWhere False (\<lambda>j. isStarted (endnames cfg) j) (\<lambda>j. endname (endnames cfg) (from ! j) i) [0..<length from] rn) (\<lambda>rn.
     Inr (cfg\<lparr>cfg_net := rn\<rparr>)))"

definition disconnect :: "nat \<Rightarrow> nat list \<Rightarrow> ('c, 's, 'srv, 'z) svc_config_scheme \<Rightarrow> ('c, 's, 'srv, 'z) svc_config_scheme go" where
  "disconnect i from cfg = disconnectUnlocked i from cfg"

definition All :: "('c, 's, 'srv, 'z) svc_config_scheme \<Rightarrow> nat list" where
  "All cfg = [0..<cfg_n cfg]"

definition ConnectAll :: "('c, 's, 'srv, 'z) svc_config_scheme \<Rightarrow> ('c, 's, 'srv, 'z) svc_config_scheme go" where
  "ConnectAll cfg = gfold (\<lambda>i cfg. connectUnlocked i (All cfg) cfg) [0..<cfg_n cfg] cfg"

definition partition_cfg :: "nat list \<Rightarrow> nat list \<Rightarrow> ('c, 's, 'srv, 'z) svc_config_scheme \<Rightarrow> ('c, 's, 'srv, 'z) svc_config_scheme go" where
  "partition_cfg p1 p2 cfg =
     gbind (gfold (\<lambda>i cfg. gbind (disconnectUnlocked i p2 cfg) (connectUnlocked i p1)) p1 cfg) (\<lambda>cfg.
     gfold (\<lambda>i cfg. gbind (disconnectUnlocked i p1 cfg) (connectUnlocked i p2)) p2 cfg)"

subsection \<open>Clients\<close>

definition ConnectClientUnlocked :: "nat \<Rightarrow> nat list \<Rightarrow> ('c, 's, 'srv, 'z) svc_config_scheme \<Rightarrow> ('c, 's, 'srv, 'z) svc_config_scheme go" where
  "ConnectClientUnlocked ck to cfg =
     gbind (enableWhere True (\<lambda>_. Inr True) (\<lambda>s. idx (case clerks cfg ck of None \<Rightarrow> [] | Some names \<Rightarrow> names) (int s)) to (cfg_net cfg)) (\<lambda>rn.
     Inr (cfg\<lparr>cfg_net := rn\<rparr>))"

definition ConnectClient :: "nat \<Rightarrow> nat list \<Rightarrow> ('c, 's, 'srv, 'z) svc_config_scheme \<Rightarrow> ('c, 's, 'srv, 'z) svc_config_scheme go" where
  "ConnectClient ck to cfg = ConnectClientUnlocked ck to cfg"

definition DisconnectClientUnlocked :: "nat \<Rightarrow> nat list \<Rightarrow> ('c, 's, 'srv, 'z) svc_config_scheme \<Rightarrow> ('c, 's, 'srv, 'z) svc_config_scheme go" where
  "DisconnectClientUnlocked ck from cfg =
     gbind (enableWhere False (\<lambda>_. Inr True) (\<lambda>s. idx (case clerks cfg ck of None \<Rightarrow> [] | Some names \<Rightarrow> names) (int s)) from (cfg_net cfg)) (\<lambda>rn.
     Inr (cfg\<lparr>cfg_net := rn\<rparr>))"

definition DisconnectClient :: "nat \<Rightarrow> nat list \<Rightarrow> ('c, 's, 'srv, 'z) svc_config_scheme \<Rightarrow> ('c, 's, 'srv, 'z) svc_config_scheme go" where
  "DisconnectClient ck from cfg = DisconnectClientUnlocked ck from cfg"

definition makeClient :: "(nat \<Rightarrow> string) \<Rightarrow> nat list \<Rightarrow> ('c, 's, 'srv, 'z) svc_config_scheme \<Rightarrow> (nat \<times> ('c, 's, 'srv, 'z) svc_config_scheme) go" where
  "makeClient names to cfg =
     (let row = map names [0..<cfg_n cfg] in
      gbind (makeEnds (zip row [0..<cfg_n cfg]) (cfg_net cfg)) (\<lambda>rn.
      let ck = nclerks cfg;
          cfg = cfg\<lparr>cfg_net := rn, nclerks := nclerks cfg + 1, clerks := (clerks cfg)(ck \<mapsto> row), nextClientId := nextClientId cfg + 1\<rparr>
      in gbind (ConnectClientUnlocked ck to cfg) (\<lambda>cfg. Inr (ck, cfg))))"

text \<open>The names of the ends are no files, so \<open>os.Remove\<close> does nothing, and the ends stay enabled.\<close>

definition deleteClient :: "nat \<Rightarrow> ('c, 's, 'srv, 'z) svc_config_scheme \<Rightarrow> ('c, 's, 'srv, 'z) svc_config_scheme" where
  "deleteClient ck cfg = cfg\<lparr>clerks := (clerks cfg)(ck := None)\<rparr>"

text \<open>\<open>random_handles\<close> swaps each element with one before it; \<open>js\<close> are the random numbers.\<close>

definition random_handles :: "(nat \<Rightarrow> nat) \<Rightarrow> 'a list \<Rightarrow> 'a list" where
  "random_handles js kvh = fold (\<lambda>i sa. let j = js i mod (i + 1) in sa[i := sa ! j, j := sa ! i]) [0..<length kvh] kvh"

subsection \<open>Servers\<close>

definition killServer :: "('srv \<Rightarrow> 'srv) \<Rightarrow> nat \<Rightarrow> ('c, 's, 'srv, 'z) svc_config_scheme \<Rightarrow> ('c, 's, 'srv, 'z) svc_config_scheme go" where
  "killServer kill i cfg =
     gbind (idx (cfg_servers cfg) (int i)) (\<lambda>kv. case kv of
       None \<Rightarrow> Inr cfg
     | Some a \<Rightarrow> Inr (cfg\<lparr>objects := (objects cfg)(a := kill (objects cfg a)), cfg_servers := (cfg_servers cfg)[i := None]\<rparr>))"

text \<open>\<open>kill\<close> and \<open>start\<close> are the methods of the service.\<close>

definition ShutdownServer :: "('srv \<Rightarrow> 'srv) \<Rightarrow> nat \<Rightarrow> ('c, 's, 'srv, 'z) svc_config_scheme \<Rightarrow> ('c, 's, 'srv, 'z) svc_config_scheme go" where
  "ShutdownServer kill i cfg =
     gbind (disconnectUnlocked i (All cfg) cfg) (\<lambda>cfg.
     let cfg = cfg\<lparr>cfg_net := DeleteServer i (cfg_net cfg)\<rparr> in
     gbind (copySaved i (saved cfg, cfg_disk cfg)) (\<lambda>(sv, d).
     killServer kill i (cfg\<lparr>saved := sv, cfg_disk := d\<rparr>)))"

definition StartServer ::
    "(nat \<Rightarrow> int \<Rightarrow> ('c, 's) Persister \<Rightarrow> 'srv go) \<Rightarrow> (nat \<Rightarrow> string) \<Rightarrow> nat \<Rightarrow> ('c, 's, 'srv, 'z) svc_config_scheme \<Rightarrow> ('c, 's, 'srv, 'z) svc_config_scheme go" where
  "StartServer start names i cfg =
     (let row = map names [0..<cfg_n cfg] in
      gbind (set_idx (endnames cfg) (int i) (Some row)) (\<lambda>tab.
      gbind (makeEnds (zip row [0..<cfg_n cfg]) (cfg_net cfg)) (\<lambda>rn.
      gbind (copyOrMakeSaved i (saved cfg, cfg_disk cfg)) (\<lambda>(sv, d).
      gbind (idx sv (int i)) (\<lambda>p.
      gbind (start (cfg_n cfg) (int i) (cell d (the p))) (\<lambda>kv.
      gbind (set_idx (cfg_servers cfg) (int i) (Some (nobjects cfg))) (\<lambda>kvs.
      Inr (cfg\<lparr>endnames := tab, saved := sv, cfg_disk := d, cfg_servers := kvs,
        objects := (objects cfg)(nobjects cfg := kv), nobjects := nobjects cfg + 1,
        cfg_net := AddServer i (nobjects cfg) rn\<rparr>))))))))"

text \<open>The loop of \<open>make_partition\<close>, with \<open>j\<close> servers placed, for the leader \<open>l\<close>.\<close>

fun place_servers :: "nat \<Rightarrow> nat list \<Rightarrow> nat \<Rightarrow> nat list \<Rightarrow> nat list \<Rightarrow> (nat list \<times> nat list) go" where
  "place_servers l [] j p1 p2 = Inr (p1, p2)"
| "place_servers l (i # is) j p1 p2 =
     (if i \<noteq> l then
        if j < length p1 then place_servers l is (j + 1) (p1[j := i]) p2
        else gbind (set_idx p2 (int j - int (length p1)) i) (place_servers l is (j + 1) p1)
      else place_servers l is j p1 p2)"

definition make_partition :: "nat \<Rightarrow> ('c, 's, 'srv, 'z) svc_config_scheme \<Rightarrow> (nat list \<times> nat list) go" where
  "make_partition l cfg =
     gbind (place_servers l [0..<cfg_n cfg] 0 (replicate (cfg_n cfg div 2 + 1) 0) (replicate (cfg_n cfg div 2) 0)) (\<lambda>(p1, p2).
     gbind (set_idx p2 (int (length p2) - 1) l) (\<lambda>p2. Inr (p1, p2)))"

definition checkTimeout :: "bool \<Rightarrow> bool \<Rightarrow> unit go" where
  "checkTimeout failed late = (if \<not> failed \<and> late then Inl (TestFatal ''test took longer than 120 seconds'') else Inr ())"

definition cleanup :: "('srv \<Rightarrow> 'srv) \<Rightarrow> bool \<Rightarrow> bool \<Rightarrow> ('c, 's, 'srv, 'z) svc_config_scheme \<Rightarrow> ('c, 's, 'srv, 'z) svc_config_scheme go" where
  "cleanup kill failed late cfg =
     (let cfg = fold (\<lambda>kv cfg. case kv of None \<Rightarrow> cfg
            | Some a \<Rightarrow> cfg\<lparr>objects := (objects cfg)(a := kill (objects cfg a))\<rparr>) (cfg_servers cfg) cfg
      in gbind (Cleanup (cfg_net cfg)) (\<lambda>rn.
         gbind (checkTimeout failed late) (\<lambda>_. Inr (cfg\<lparr>cfg_net := rn\<rparr>))))"

definition LogSize :: "('c gobval list \<Rightarrow> int) \<Rightarrow> ('c, 's, 'srv, 'z) svc_config_scheme \<Rightarrow> int go" where
  "LogSize bytes cfg = gfold (\<lambda>i logsize.
     gbind (idx (saved cfg) (int i)) (\<lambda>p. case p of
       None \<Rightarrow> Inl NilDereference
     | Some a \<Rightarrow> (let n = RaftStateSize bytes (cell (cfg_disk cfg) a) in Inr (if n > logsize then n else logsize)))) [0..<cfg_n cfg] 0"

end
