(* ===== verification/KV_Config.thy ===== *)
theory KV_Config
  imports Service_Config KV_Server
begin

text \<open>
  The test configuration of the key/value service, \<^verbatim>\<open>kvraft/config.go\<close>: what theory \<open>Service_Config\<close> leaves open.
\<close>

record kv_config = "(Op, kvgob, KVServer) svc_config" +
  cfg_maxraftstate :: int
  rpcs0 :: int
  ops :: "32 word"

definition KV_Shutdown :: "nat \<Rightarrow> kv_config \<Rightarrow> kv_config go" where
  "KV_Shutdown i cfg = ShutdownServer Kill_kv i cfg"

definition KV_Start :: "(nat \<Rightarrow> string) \<Rightarrow> clock \<Rightarrow> clock \<Rightarrow> nat \<Rightarrow> kv_config \<Rightarrow> kv_config go" where
  "KV_Start names clk clk' i cfg = StartServer (\<lambda>n m ps. StartKVServer clk clk' n m ps (cfg_maxraftstate cfg)) names i cfg"

text \<open>\<open>Leader\<close> asks all servers, and panics if one is shut down before it finds a leader.\<close>

fun leaderFrom :: "nat list \<Rightarrow> kv_config \<Rightarrow> (bool \<times> nat) go" where
  "leaderFrom [] cfg = Inr (False, 0)"
| "leaderFrom (i # is) cfg =
     gbind (idx (cfg_servers cfg) (int i)) (\<lambda>kv. case kv of
       None \<Rightarrow> Inl NilDereference
     | Some a \<Rightarrow> if snd (GetState (kv_rf (objects cfg a))) then Inr (True, i) else leaderFrom is cfg)"

definition KV_Leader :: "kv_config \<Rightarrow> (bool \<times> nat) go" where
  "KV_Leader cfg = leaderFrom [0..<cfg_n cfg] cfg"

definition KV_make_partition :: "kv_config \<Rightarrow> (nat list \<times> nat list) go" where
  "KV_make_partition cfg = gbind (KV_Leader cfg) (\<lambda>(_, l). make_partition l cfg)"

definition KV_emptyConfig :: "nat \<Rightarrow> int \<Rightarrow> kv_config" where
  "KV_emptyConfig n maxstate = \<lparr>cfg_net = MakeNetwork, cfg_n = n, cfg_servers = replicate n None, saved = replicate n None,
     endnames = replicate n None, clerks = Map.empty, nextClientId = int n + 1000, objects = (\<lambda>_. undefined), nobjects = 0, nclerks = 0,
     cfg_disk = \<lparr>cell = (\<lambda>_. MakePersister), used = 0\<rparr>, cfg_maxraftstate = maxstate, rpcs0 = 0, ops = 0\<rparr>"

definition KV_make_config :: "(nat \<Rightarrow> nat \<Rightarrow> string) \<Rightarrow> clock \<Rightarrow> nat \<Rightarrow> bool \<Rightarrow> int \<Rightarrow> kv_config go" where
  "KV_make_config names clk n unreliable maxstate =
     gbind (gfold (\<lambda>i. KV_Start (names i) clk clk i) [0..<n] (KV_emptyConfig n maxstate)) (\<lambda>cfg.
     gbind (ConnectAll cfg) (\<lambda>cfg.
     Inr (cfg\<lparr>cfg_net := Reliable (\<not> unreliable) (cfg_net cfg)\<rparr>)))"

definition KV_SnapshotSize :: "(kvgob list \<Rightarrow> int) \<Rightarrow> kv_config \<Rightarrow> int go" where
  "KV_SnapshotSize bytes cfg = gfold (\<lambda>i snapshotsize.
     gbind (idx (saved cfg) (int i)) (\<lambda>p. case p of
       None \<Rightarrow> Inl NilDereference
     | Some a \<Rightarrow> (let n = SnapshotSize bytes (cell (cfg_disk cfg) a) in Inr (if n > snapshotsize then n else snapshotsize)))) [0..<cfg_n cfg] 0"

definition KV_rpcTotal :: "kv_config \<Rightarrow> int" where
  "KV_rpcTotal cfg = GetTotalCount (cfg_net cfg)"

definition KV_begin :: "kv_config \<Rightarrow> kv_config" where
  "KV_begin cfg = cfg\<lparr>rpcs0 := KV_rpcTotal cfg, ops := 0\<rparr>"

definition KV_op :: "kv_config \<Rightarrow> kv_config" where
  "KV_op cfg = cfg\<lparr>ops := ops cfg + 1\<rparr>"

text \<open>The numbers that \<open>end\<close> prints if the test has not failed.\<close>

definition KV_end :: "bool \<Rightarrow> bool \<Rightarrow> kv_config \<Rightarrow> (nat \<times> int \<times> int) option go" where
  "KV_end failed late cfg =
     gbind (checkTimeout failed late) (\<lambda>_.
     Inr (if \<not> failed then Some (cfg_n cfg, KV_rpcTotal cfg - rpcs0 cfg, sint (ops cfg)) else None))"

end
