(* ===== verification/Service_Config_Props.thy ===== *)
theory Service_Config_Props
  imports Service_Config
begin

text \<open>
  What the tests of the services rely on: the operations on connections in terms of the pairs of servers that
  can talk to each other, the partition that leaves the leader in the minority, and the state from which a
  server restarts.
\<close>

subsection \<open>Links\<close>

text \<open>All servers have been started, and their ends are in order.\<close>

definition started :: "('c, 's, 'srv, 'z) svc_config_scheme \<Rightarrow> bool" where
  "started cfg \<longleftrightarrow> tab_inv (\<lambda>j. j) (endnames cfg) (cfg_n cfg) (cfg_net cfg) \<and> (\<forall>i<cfg_n cfg. endnames cfg ! i \<noteq> None)"

text \<open>The pairs of servers of which the first can send to the second.\<close>

definition links :: "('c, 's, 'srv, 'z) svc_config_scheme \<Rightarrow> (nat \<times> nat) set" where
  "links cfg = {(i, j). \<exists>e. named (endnames cfg) (cfg_n cfg) e i j \<and> isEnabled (cfg_net cfg) e}"

lemma named_ex: "started cfg \<Longrightarrow> i < cfg_n cfg \<Longrightarrow> j < cfg_n cfg \<Longrightarrow> \<exists>e. named (endnames cfg) (cfg_n cfg) e i j"
  by (simp add: started_def named_def)

lemma enableWhere_returns:
  assumes "\<And>j. j \<in> set js \<Longrightarrow> cond j = Inr False \<or> (cond j = Inr True \<and> (\<exists>e. name j = Inr e))"
  shows "\<exists>rn'. enableWhere b cond name js rn = Inr rn'"
proof -
  have "\<exists>rn'. enableWhere b cond name js rn = Inr rn' \<and> True"
    unfolding enableWhere_def by (rule gfold_returns) (use assms in fastforce)+
  then show ?thesis by blast
qed

text \<open>A network in which only the ends of some pairs have changed.\<close>

definition only_links :: "('c, 's, 'srv, 'z) svc_config_scheme \<Rightarrow> ('c, 's, 'srv, 'z) svc_config_scheme \<Rightarrow> bool" where
  "only_links cfg cfg' \<longleftrightarrow> (\<exists>rn. cfg' = cfg\<lparr>cfg_net := rn\<rparr> \<and> ends rn = ends (cfg_net cfg) \<and> connections rn = connections (cfg_net cfg) \<and>
     sameButEnds (cfg_net cfg) rn)"

lemma only_links_started: "only_links cfg cfg' \<Longrightarrow> started cfg \<Longrightarrow> started cfg' \<and> cfg_n cfg' = cfg_n cfg \<and> endnames cfg' = endnames cfg"
  by (auto simp: only_links_def started_def intro: tab_inv_cong)

lemma only_links_trans: "only_links a b \<Longrightarrow> only_links b c \<Longrightarrow> only_links a c"
  using sameButEnds_trans by (fastforce simp: only_links_def)

lemma only_links_refl [simp]: "only_links a a"
  by (auto simp: only_links_def intro!: exI [of _ "cfg_net a"])

lemma named_unique:
  "started cfg \<Longrightarrow> named (endnames cfg) (cfg_n cfg) e i j \<Longrightarrow> named (endnames cfg) (cfg_n cfg) e i' j' \<Longrightarrow> i' = i \<and> j' = j"
  unfolding started_def using tab_invD(3) by blast

lemma endname_started:
  "started cfg \<Longrightarrow> i < cfg_n cfg \<Longrightarrow> j < cfg_n cfg \<Longrightarrow> endname (endnames cfg) i j = Inr e \<longleftrightarrow> named (endnames cfg) (cfg_n cfg) e i j"
  unfolding started_def using endname_named by blast

lemma endname_ex: "started cfg \<Longrightarrow> i < cfg_n cfg \<Longrightarrow> j < cfg_n cfg \<Longrightarrow> \<exists>e. endname (endnames cfg) i j = Inr e"
  using endname_started named_ex by blast

text \<open>A change of the network that switches exactly the ends of the pairs in \<open>P\<close>.\<close>

lemma links_switch:
  assumes "started cfg" and "cfg' = cfg\<lparr>cfg_net := rn\<rparr>" and "P \<subseteq> {..<cfg_n cfg} \<times> {..<cfg_n cfg}"
    and "\<And>e. isEnabled rn e = (if \<exists>(i, j)\<in>P. named (endnames cfg) (cfg_n cfg) e i j then b else isEnabled (cfg_net cfg) e)"
  shows "links cfg' = (if b then links cfg \<union> P else links cfg - P)"
proof -
  have "(i, j) \<in> links cfg' \<longleftrightarrow> (if (i, j) \<in> P then b else (i, j) \<in> links cfg)" for i j
  proof (cases "i < cfg_n cfg \<and> j < cfg_n cfg")
    case True
    then obtain e where e: "named (endnames cfg) (cfg_n cfg) e i j" using named_ex [OF assms(1)] by blast
    have only: "named (endnames cfg) (cfg_n cfg) e' i j \<Longrightarrow> e' = e" for e' using e by (simp add: named_def)
    have "(\<exists>(i, j)\<in>P. named (endnames cfg) (cfg_n cfg) e i j) \<longleftrightarrow> (i, j) \<in> P"
      using e by (auto dest: named_unique [OF assms(1) e])
    then have "isEnabled rn e = (if (i, j) \<in> P then b else isEnabled (cfg_net cfg) e)" using assms(4) [of e] by simp
    moreover have "(i, j) \<in> links cfg' \<longleftrightarrow> isEnabled rn e" "(i, j) \<in> links cfg \<longleftrightarrow> isEnabled (cfg_net cfg) e"
      using e by (auto simp: links_def assms(2) dest: only)
    ultimately show ?thesis by simp
  next
    case False
    then show ?thesis using assms(2,3) by (auto simp: links_def named_def)
  qed
  then show ?thesis by (auto split: if_splits)
qed

lemma cross_ex: "(\<exists>(a, b)\<in>{i} \<times> T \<union> T \<times> {i}. Q a b) \<longleftrightarrow> (\<exists>j\<in>T. Q i j) \<or> (\<exists>j\<in>T. Q j i)"
  by blast

text \<open>Two loops, one over the ends from server \<open>i\<close> to the servers in \<open>T\<close> and one over those from them to \<open>i\<close>.\<close>

lemma links_cross:
  assumes "started cfg" and "i < cfg_n cfg" and "T \<subseteq> {..<cfg_n cfg}"
    and "sameButEnds (cfg_net cfg) rn1 \<and> ends rn1 = ends (cfg_net cfg) \<and> connections rn1 = connections (cfg_net cfg) \<and>
      (\<forall>e. isEnabled rn1 e = (if \<exists>j\<in>T. named (endnames cfg) (cfg_n cfg) e i j then b else isEnabled (cfg_net cfg) e))"
    and "sameButEnds rn1 rn2 \<and> ends rn2 = ends rn1 \<and> connections rn2 = connections rn1 \<and>
      (\<forall>e. isEnabled rn2 e = (if \<exists>j\<in>T. named (endnames cfg) (cfg_n cfg) e j i then b else isEnabled rn1 e))"
  shows "only_links cfg (cfg\<lparr>cfg_net := rn2\<rparr>)"
    and "links (cfg\<lparr>cfg_net := rn2\<rparr>) = (if b then links cfg \<union> ({i} \<times> T \<union> T \<times> {i}) else links cfg - ({i} \<times> T \<union> T \<times> {i}))"
proof -
  show "only_links cfg (cfg\<lparr>cfg_net := rn2\<rparr>)"
    unfolding only_links_def using assms(4,5) sameButEnds_trans by (intro exI [of _ rn2]) auto
  have en: "isEnabled rn2 e = (if (\<exists>j\<in>T. named (endnames cfg) (cfg_n cfg) e i j) \<or> (\<exists>j\<in>T. named (endnames cfg) (cfg_n cfg) e j i)
      then b else isEnabled (cfg_net cfg) e)" for e
    using assms(4,5) by simp
  show "links (cfg\<lparr>cfg_net := rn2\<rparr>) = (if b then links cfg \<union> ({i} \<times> T \<union> T \<times> {i}) else links cfg - ({i} \<times> T \<union> T \<times> {i}))"
    by (rule links_switch [OF assms(1) refl]) (use assms(2,3) in blast, simp only: en cross_ex)
qed

lemma connect_links:
  assumes "started cfg" and "i < cfg_n cfg" and "set to \<subseteq> {..<cfg_n cfg}"
  shows "\<exists>cfg'. connectUnlocked i to cfg = Inr cfg' \<and> only_links cfg cfg' \<and> links cfg' = links cfg \<union> {i} \<times> set to \<union> set to \<times> {i}"
proof -
  have small: "j \<in> set to \<Longrightarrow> j < cfg_n cfg" for j using assms(3) by auto
  have nm: "\<exists>e. endname (endnames cfg) i j = Inr e" "\<exists>e. endname (endnames cfg) j i = Inr e" if "j \<in> set to" for j
    using endname_ex [OF assms(1)] assms(2) small [OF that] by blast+
  obtain rn1 where rn1: "enableWhere True (\<lambda>_. Inr True) (\<lambda>j. endname (endnames cfg) i j) to (cfg_net cfg) = Inr rn1"
    using enableWhere_returns [of to "\<lambda>_. Inr True" "\<lambda>j. endname (endnames cfg) i j" True "cfg_net cfg"] nm(1) by auto
  obtain rn2 where rn2: "enableWhere True (\<lambda>_. Inr True) (\<lambda>j. endname (endnames cfg) j i) to rn1 = Inr rn2"
    using enableWhere_returns [of to "\<lambda>_. Inr True" "\<lambda>j. endname (endnames cfg) j i" True rn1] nm(2) by auto
  have row: "(\<exists>j\<in>set to. Inr True = Inr True \<and> endname (endnames cfg) i j = Inr e) \<longleftrightarrow> (\<exists>j\<in>set to. named (endnames cfg) (cfg_n cfg) e i j)"
    "(\<exists>j\<in>set to. Inr True = Inr True \<and> endname (endnames cfg) j i = Inr e) \<longleftrightarrow> (\<exists>j\<in>set to. named (endnames cfg) (cfg_n cfg) e j i)" for e
    using endname_started [OF assms(1)] assms(2) small by simp_all
  note L = links_cross [OF assms enableWhere_effect [OF rn1, unfolded row] enableWhere_effect [OF rn2, unfolded row]]
  moreover have "connectUnlocked i to cfg = Inr (cfg\<lparr>cfg_net := rn2\<rparr>)" using rn1 rn2 by (simp add: connectUnlocked_def)
  ultimately show ?thesis by auto
qed

lemma disconnect_links:
  assumes "started cfg" and "i < cfg_n cfg" and "set from \<subseteq> {..<cfg_n cfg}" and "length from \<le> cfg_n cfg"
  shows "\<exists>cfg'. disconnectUnlocked i from cfg = Inr cfg' \<and> only_links cfg cfg' \<and> links cfg' = links cfg - {i} \<times> set from - set from \<times> {i}"
proof -
  have small: "j \<in> set from \<Longrightarrow> j < cfg_n cfg" for j using assms(3) by auto
  have st: "isStarted (endnames cfg) j = Inr True" if "j < cfg_n cfg" for j
    using isStarted_named [of _ "endnames cfg" "cfg_n cfg" "cfg_net cfg" j] assms(1) that by (auto simp: started_def)
  have at: "from ! j < cfg_n cfg" if "j < length from" for j using small [of "from ! j"] that by simp
  obtain rn1 where rn1: "enableWhere False (\<lambda>_. isStarted (endnames cfg) i) (\<lambda>j. endname (endnames cfg) i j) from (cfg_net cfg) = Inr rn1"
    using enableWhere_returns [of "from" "\<lambda>_. isStarted (endnames cfg) i" "\<lambda>j. endname (endnames cfg) i j" False "cfg_net cfg"]
      st [OF assms(2)] endname_ex [OF assms(1,2)] small by auto
  obtain rn2 where rn2: "enableWhere False (\<lambda>j. isStarted (endnames cfg) j) (\<lambda>j. endname (endnames cfg) (from ! j) i) [0..<length from] rn1 = Inr rn2"
    using enableWhere_returns [of "[0..<length from]" "\<lambda>j. isStarted (endnames cfg) j" "\<lambda>j. endname (endnames cfg) (from ! j) i" False rn1]
      st assms(4) endname_ex [OF assms(1) _ assms(2)] at by auto
  have row: "(\<exists>j\<in>set from. isStarted (endnames cfg) i = Inr True \<and> endname (endnames cfg) i j = Inr e) \<longleftrightarrow>
      (\<exists>j\<in>set from. named (endnames cfg) (cfg_n cfg) e i j)" for e
    using endname_started [OF assms(1,2)] small st [OF assms(2)] by simp
  have col: "(\<exists>j\<in>set [0..<length from]. isStarted (endnames cfg) j = Inr True \<and> endname (endnames cfg) (from ! j) i = Inr e) \<longleftrightarrow>
      (\<exists>j\<in>set from. named (endnames cfg) (cfg_n cfg) e j i)" for e
  proof -
    have "(\<exists>j\<in>set [0..<length from]. isStarted (endnames cfg) j = Inr True \<and> endname (endnames cfg) (from ! j) i = Inr e) \<longleftrightarrow>
        (\<exists>j<length from. named (endnames cfg) (cfg_n cfg) e (from ! j) i)"
      using endname_started [OF assms(1) _ assms(2)] at st assms(4) by auto
    also have "\<dots> \<longleftrightarrow> (\<exists>j\<in>set from. named (endnames cfg) (cfg_n cfg) e j i)" by (metis in_set_conv_nth)
    finally show ?thesis .
  qed
  note L = links_cross [OF assms(1-3) enableWhere_effect [OF rn1, unfolded row] enableWhere_effect [OF rn2, unfolded col]]
  moreover have "disconnectUnlocked i from cfg = Inr (cfg\<lparr>cfg_net := rn2\<rparr>)" using rn1 rn2 by (simp add: disconnectUnlocked_def)
  ultimately show ?thesis by auto
qed

subsection \<open>Partitions\<close>

lemma distinct_small: "distinct xs \<Longrightarrow> set xs \<subseteq> {..<n} \<Longrightarrow> length xs \<le> n"
  by (metis card_lessThan card_mono distinct_card finite_lessThan)

text \<open>One of the two loops of \<open>partition\<close>, for the servers \<open>xs\<close> of part \<open>p\<close>.\<close>

lemma partition_loop:
  assumes "started cfg" and "set xs \<subseteq> set p" and "set p \<subseteq> {..<cfg_n cfg}" and "set q \<subseteq> {..<cfg_n cfg}" and "length q \<le> cfg_n cfg"
    and "set p \<inter> set q = {}"
  shows "\<exists>cfg'. gfold (\<lambda>i cfg. gbind (disconnectUnlocked i q cfg) (connectUnlocked i p)) xs cfg = Inr cfg' \<and> only_links cfg cfg' \<and>
    links cfg' = (links cfg - (set xs \<times> set q \<union> set q \<times> set xs)) \<union> (set xs \<times> set p \<union> set p \<times> set xs)"
  using assms
proof (induction xs arbitrary: cfg)
  case (Cons i xs)
  have i: "i < cfg_n cfg" "i \<in> set p" using Cons.prems(2,3) by auto
  obtain cfg1 where c1: "disconnectUnlocked i q cfg = Inr cfg1" "only_links cfg cfg1" "links cfg1 = links cfg - {i} \<times> set q - set q \<times> {i}"
    using disconnect_links [OF Cons.prems(1) i(1) Cons.prems(4,5)] by blast
  have s1: "started cfg1" "cfg_n cfg1 = cfg_n cfg" using only_links_started [OF c1(2) Cons.prems(1)] by auto
  obtain cfg2 where c2: "connectUnlocked i p cfg1 = Inr cfg2" "only_links cfg1 cfg2" "links cfg2 = links cfg1 \<union> {i} \<times> set p \<union> set p \<times> {i}"
    using connect_links [OF s1(1)] i(1) Cons.prems(3) s1(2) by metis
  have s2: "started cfg2" "cfg_n cfg2 = cfg_n cfg" using only_links_started [OF c2(2) s1(1)] s1(2) by auto
  obtain cfg3 where c3: "gfold (\<lambda>i cfg. gbind (disconnectUnlocked i q cfg) (connectUnlocked i p)) xs cfg2 = Inr cfg3" "only_links cfg2 cfg3"
    "links cfg3 = (links cfg2 - (set xs \<times> set q \<union> set q \<times> set xs)) \<union> (set xs \<times> set p \<union> set p \<times> set xs)"
    using Cons.IH [OF s2(1)] Cons.prems(2-6) s2(2) by auto
  have "links cfg3 = (links cfg - (set (i # xs) \<times> set q \<union> set q \<times> set (i # xs))) \<union> (set (i # xs) \<times> set p \<union> set p \<times> set (i # xs))"
    unfolding c3(3) c2(3) c1(3) using Cons.prems(2,6) i(2) by auto
  moreover have "only_links cfg cfg3" using only_links_trans c1(2) c2(2) c3(2) by blast
  ultimately show ?case using c1(1) c2(1) c3(1) by auto
qed auto

lemma partition_effect:
  assumes "started cfg" and "set p1 \<subseteq> {..<cfg_n cfg}" and "set p2 \<subseteq> {..<cfg_n cfg}" and "distinct p1" and "distinct p2"
    and "set p1 \<inter> set p2 = {}"
  shows "\<exists>cfg'. partition_cfg p1 p2 cfg = Inr cfg' \<and> only_links cfg cfg' \<and>
    links cfg' = (links cfg - (set p1 \<times> set p2 \<union> set p2 \<times> set p1)) \<union> (set p1 \<times> set p1 \<union> set p2 \<times> set p2)"
proof -
  obtain cfg1 where c1: "gfold (\<lambda>i cfg. gbind (disconnectUnlocked i p2 cfg) (connectUnlocked i p1)) p1 cfg = Inr cfg1" "only_links cfg cfg1"
    "links cfg1 = (links cfg - (set p1 \<times> set p2 \<union> set p2 \<times> set p1)) \<union> set p1 \<times> set p1"
    using partition_loop [OF assms(1) _ assms(2,3) distinct_small [OF assms(5,3)] assms(6), of p1] by auto
  have s1: "started cfg1" "cfg_n cfg1 = cfg_n cfg" using only_links_started [OF c1(2) assms(1)] by auto
  obtain cfg2 where c2: "gfold (\<lambda>i cfg. gbind (disconnectUnlocked i p1 cfg) (connectUnlocked i p2)) p2 cfg1 = Inr cfg2" "only_links cfg1 cfg2"
    "links cfg2 = (links cfg1 - (set p2 \<times> set p1 \<union> set p1 \<times> set p2)) \<union> set p2 \<times> set p2"
    using partition_loop [OF s1(1), of p2 p2 p1] distinct_small [OF assms(4,2)] assms(2,3,6) s1(2) by (auto simp: Int_commute)
  have "links cfg2 = (links cfg - (set p1 \<times> set p2 \<union> set p2 \<times> set p1)) \<union> (set p1 \<times> set p1 \<union> set p2 \<times> set p2)"
    unfolding c2(3) c1(3) using assms(6) by auto
  then show ?thesis using c1(1,2) c2(1,2) only_links_trans by (auto simp: partition_cfg_def)
qed

text \<open>
  \<open>partition\<close> with two disjoint lists of servers leaves exactly the servers of the same list able to talk to
  each other among them, and changes nothing for the servers outside.
\<close>

theorem partition_links:
  assumes "started cfg" and "set p1 \<subseteq> {..<cfg_n cfg}" and "set p2 \<subseteq> {..<cfg_n cfg}" and "distinct p1" and "distinct p2"
    and "set p1 \<inter> set p2 = {}"
  shows "\<exists>cfg'. partition_cfg p1 p2 cfg = Inr cfg' \<and> started cfg' \<and>
    links cfg' = (links cfg - (set p1 \<times> set p2 \<union> set p2 \<times> set p1)) \<union> (set p1 \<times> set p1 \<union> set p2 \<times> set p2)"
  using partition_effect [OF assms] only_links_started [OF _ assms(1)] by blast

subsection \<open>The leader in the minority\<close>

lemma place_servers_spec:
  assumes "j + length (filter (\<lambda>i. i \<noteq> l) xs) \<le> length p1 + length p2"
  shows "\<exists>q1 q2. place_servers l xs j p1 p2 = Inr (q1, q2) \<and> length q1 = length p1 \<and>
    q1 @ q2 = take j (p1 @ p2) @ filter (\<lambda>i. i \<noteq> l) xs @ drop (j + length (filter (\<lambda>i. i \<noteq> l) xs)) (p1 @ p2)"
  using assms
proof (induction l xs j p1 p2 rule: place_servers.induct)
  case (2 l i xs j p1 p2)
  let ?ys = "filter (\<lambda>i. i \<noteq> l) xs"
  have upd: "take (Suc j) ((p1 @ p2)[j := i]) = take j (p1 @ p2) @ [i]" "drop (Suc j + k) ((p1 @ p2)[j := i]) = drop (Suc j + k) (p1 @ p2)"
    if "j < length (p1 @ p2)" for k
    using that by (simp_all add: take_Suc_conv_app_nth del: take_append drop_append)
  show ?case
  proof (cases "i = l")
    case True
    then show ?thesis using 2 by simp
  next
    case False
    then have j: "j < length (p1 @ p2)" and le: "Suc j + length ?ys \<le> length p1 + length p2" using 2(4) by simp_all
    show ?thesis
    proof (cases "j < length p1")
      case True
      then have "(p1[j := i]) @ p2 = (p1 @ p2)[j := i]" by (simp add: list_update_append)
      then show ?thesis using 2(1) [OF False True] le True False upd [OF j] by simp
    next
      case F: False
      have s: "set_idx p2 (int j - int (length p1)) i = Inr (p2[j - length p1 := i])"
        using F j by (simp add: set_idx_def nat_diff_distrib)
      have "p1 @ (p2[j - length p1 := i]) = (p1 @ p2)[j := i]" using F by (simp add: list_update_append)
      then show ?thesis using 2(2) [OF False F, of "p2[j - length p1 := i]"] le F False s upd [OF j] by simp
    qed
  qed
qed (simp del: take_append drop_append)

lemma make_partition_spec:
  assumes "odd (cfg_n cfg)" and "1 < cfg_n cfg" and "l < cfg_n cfg"
  shows "\<exists>p1 p2. make_partition l cfg = Inr (p1, p2) \<and> distinct p1 \<and> distinct p2 \<and> set p1 \<inter> set p2 = {} \<and>
    set p1 \<union> set p2 = {..<cfg_n cfg} \<and> l \<in> set p2 \<and> length p1 = cfg_n cfg div 2 + 1 \<and> length p2 = cfg_n cfg div 2"
proof -
  obtain m where n: "cfg_n cfg = 2 * m + 1" using assms(1) oddE by blast
  then have m: "0 < m" "cfg_n cfg div 2 = m" using assms(2) by auto
  let ?xs = "filter (\<lambda>i. i \<noteq> l) [0..<cfg_n cfg]"
  have len: "length ?xs = 2 * m"
  proof -
    have "length ?xs = card (set ?xs)" by (rule distinct_card [symmetric]) simp
    also have "set ?xs = {..<cfg_n cfg} - {l}" by auto
    finally show ?thesis using n assms(3) by simp
  qed
  obtain q1 q2 where q: "place_servers l [0..<cfg_n cfg] 0 (replicate (m + 1) 0) (replicate m 0) = Inr (q1, q2)" "length q1 = m + 1"
    and app: "q1 @ q2 = ?xs @ drop (2 * m) (replicate (m + 1) 0 @ replicate m 0)"
    using place_servers_spec [of 0 l "[0..<cfg_n cfg]" "replicate (m + 1) 0" "replicate m 0"] len by auto
  have tail: "drop (2 * m) (replicate (m + 1) 0 @ replicate m 0) = [0 :: nat]"
  proof -
    have "replicate (m + 1) 0 @ replicate m 0 = replicate (2 * m + 1) (0 :: nat)"
      by (subst replicate_add [symmetric]) (simp add: mult_2)
    then show ?thesis by (simp only: drop_replicate) simp
  qed
  have "length (q1 @ q2) = 2 * m + 1" unfolding app tail using len by simp
  then have q2: "length q2 = m" using q(2) by simp
  have "q1 @ q2[m - 1 := l] = (q1 @ q2)[2 * m := l]" using q(2) m(1) by (simp add: list_update_append)
  also have "\<dots> = ?xs @ [l]" unfolding app tail using len by (simp add: list_update_append)
  finally have all: "q1 @ q2[m - 1 := l] = ?xs @ [l]" .
  have "distinct (q1 @ q2[m - 1 := l])" "set (q1 @ q2[m - 1 := l]) = {..<cfg_n cfg}" unfolding all using assms(3) by auto
  moreover have "set_idx q2 (int (length q2) - 1) l = Inr (q2[m - 1 := l])" using q2 m(1) by (simp add: set_idx_def nat_diff_distrib)
  moreover have "l \<in> set (q2[m - 1 := l])" using q2 m(1) by (simp add: set_update_memI)
  ultimately show ?thesis using q q2 m by (intro exI [of _ q1] exI [of _ "q2[m - 1 := l]"]) (auto simp: make_partition_def)
qed

subsection \<open>Start and shutdown\<close>

lemma StartServer_effect:
  assumes "StartServer start names i cfg = Inr cfg'"
  shows "\<exists>rn kv sv d. makeEnds (zip (map names [0..<cfg_n cfg]) [0..<cfg_n cfg]) (cfg_net cfg) = Inr rn \<and> i < length (endnames cfg) \<and>
    start (cfg_n cfg) (int i) (cell d (the (sv ! i))) = Inr kv \<and>
    copyOrMakeSaved i (saved cfg, cfg_disk cfg) = Inr (sv, d) \<and> i < length (cfg_servers cfg) \<and>
    cfg' = cfg\<lparr>endnames := (endnames cfg)[i := Some (map names [0..<cfg_n cfg])], saved := sv, cfg_disk := d,
      cfg_servers := (cfg_servers cfg)[i := Some (nobjects cfg)], objects := (objects cfg)(nobjects cfg := kv), nobjects := nobjects cfg + 1,
      cfg_net := AddServer i (nobjects cfg) rn\<rparr>"
  using assms by (auto simp: StartServer_def Let_def set_idx_Inr_iff idx_Inr_iff; blast)

lemma AddServer_sel [simp]: "ends (AddServer i a rn) = ends rn" "connections (AddServer i a rn) = connections rn"
  "isEnabled (AddServer i a rn) e = isEnabled rn e"
  by (simp_all add: AddServer_def isEnabled_def)

lemma StartServer_tab:
  assumes "StartServer start names i cfg = Inr cfg'" and "tab_inv (\<lambda>j. j) (endnames cfg) (cfg_n cfg) (cfg_net cfg)"
  shows "tab_inv (\<lambda>j. j) (endnames cfg') (cfg_n cfg') (cfg_net cfg') \<and> cfg_n cfg' = cfg_n cfg \<and> i < cfg_n cfg \<and>
    endnames cfg' = (endnames cfg)[i := Some (map names [0..<cfg_n cfg])]"
proof -
  obtain rn kv sv d where m: "makeEnds (zip (map names [0..<cfg_n cfg]) [0..<cfg_n cfg]) (cfg_net cfg) = Inr rn" and i: "i < length (endnames cfg)"
    and cfg': "cfg' = cfg\<lparr>endnames := (endnames cfg)[i := Some (map names [0..<cfg_n cfg])], saved := sv, cfg_disk := d,
      cfg_servers := (cfg_servers cfg)[i := Some (nobjects cfg)], objects := (objects cfg)(nobjects cfg := kv), nobjects := nobjects cfg + 1,
      cfg_net := AddServer i (nobjects cfg) rn\<rparr>"
    using StartServer_effect [OF assms(1)] by blast
  have il: "i < cfg_n cfg" using i tab_invD(1) [OF assms(2)] by simp
  have m': "makeEnds (zip (map names [0..<cfg_n cfg]) (map (\<lambda>j. j) [0..<cfg_n cfg])) (cfg_net cfg) = Inr rn" using m by simp
  have sel: "endnames cfg' = (endnames cfg)[i := Some (map names [0..<cfg_n cfg])]" "cfg_n cfg' = cfg_n cfg"
    "cfg_net cfg' = AddServer i (nobjects cfg) rn"
    by (simp_all add: cfg')
  show ?thesis unfolding sel using tab_inv_cong [OF tab_inv_newEnds(1) [OF assms(2) il m'], of "AddServer i (nobjects cfg) rn"] il by simp
qed

lemma ConnectAll_links:
  assumes "started cfg"
  shows "\<exists>cfg'. ConnectAll cfg = Inr cfg' \<and> only_links cfg cfg' \<and> links cfg' = {..<cfg_n cfg} \<times> {..<cfg_n cfg}"
proof -
  have loop: "k \<le> cfg_n cfg \<Longrightarrow> \<exists>cfg'. gfold (\<lambda>i cfg. connectUnlocked i (All cfg) cfg) [0..<k] cfg = Inr cfg' \<and> only_links cfg cfg' \<and>
      links cfg' = links cfg \<union> {..<k} \<times> {..<cfg_n cfg} \<union> {..<cfg_n cfg} \<times> {..<k}" for k
  proof (induction k)
    case (Suc k)
    then obtain cfg1 where c1: "gfold (\<lambda>i cfg. connectUnlocked i (All cfg) cfg) [0..<k] cfg = Inr cfg1" "only_links cfg cfg1"
      "links cfg1 = links cfg \<union> {..<k} \<times> {..<cfg_n cfg} \<union> {..<cfg_n cfg} \<times> {..<k}" by auto
    have s1: "started cfg1" "cfg_n cfg1 = cfg_n cfg" using only_links_started [OF c1(2) assms] by auto
    have all: "set (All cfg1) = {..<cfg_n cfg}" by (auto simp: All_def s1(2))
    obtain cfg2 where c2: "connectUnlocked k (All cfg1) cfg1 = Inr cfg2" "only_links cfg1 cfg2"
      "links cfg2 = links cfg1 \<union> {k} \<times> {..<cfg_n cfg} \<union> {..<cfg_n cfg} \<times> {k}"
      using connect_links [OF s1(1), of k "All cfg1"] Suc.prems s1(2) unfolding all by auto
    have "links cfg2 = links cfg \<union> {..<Suc k} \<times> {..<cfg_n cfg} \<union> {..<cfg_n cfg} \<times> {..<Suc k}"
      unfolding c2(3) c1(3) by (auto simp: less_Suc_eq)
    then show ?case using c1 c2 only_links_trans [OF c1(2) c2(2)] by auto
  qed auto
  obtain cfg' where c: "ConnectAll cfg = Inr cfg'" "only_links cfg cfg'"
    "links cfg' = links cfg \<union> {..<cfg_n cfg} \<times> {..<cfg_n cfg} \<union> {..<cfg_n cfg} \<times> {..<cfg_n cfg}"
    using loop [OF le_refl] unfolding ConnectAll_def by blast
  moreover have "links cfg \<subseteq> {..<cfg_n cfg} \<times> {..<cfg_n cfg}" by (auto simp: links_def named_def)
  ultimately show ?thesis by (intro exI [of _ cfg']) (simp add: sup.absorb2)
qed

lemma DeleteServer_sel [simp]: "ends (DeleteServer i rn) = ends rn" "connections (DeleteServer i rn) = connections rn"
  "isEnabled (DeleteServer i rn) e = isEnabled rn e" "LabRPC.servers (DeleteServer i rn) = (LabRPC.servers rn)(i := None)"
  by (simp_all add: DeleteServer_def isEnabled_def)

lemma killServer_effect:
  assumes "killServer kill i cfg = Inr cfg'"
  shows "\<exists>obs. i < length (cfg_servers cfg) \<and> cfg' = cfg\<lparr>objects := obs, cfg_servers := (cfg_servers cfg)[i := None]\<rparr> \<and>
    obs = (case cfg_servers cfg ! i of None \<Rightarrow> objects cfg | Some a \<Rightarrow> (objects cfg)(a := kill (objects cfg a)))"
proof (cases "cfg_servers cfg ! i")
  case None
  then have "(cfg_servers cfg)[i := None] = cfg_servers cfg" using list_update_id [of "cfg_servers cfg" i] by simp
  then show ?thesis using assms None by (auto simp: killServer_def idx_Inr_iff)
next
  case (Some a)
  then show ?thesis using assms by (auto simp: killServer_def idx_Inr_iff)
qed

lemma ShutdownServer_effect:
  assumes "ShutdownServer kill i cfg = Inr cfg'"
  shows "\<exists>cfg1 sv d obs. disconnectUnlocked i (All cfg) cfg = Inr cfg1 \<and> copySaved i (saved cfg1, cfg_disk cfg1) = Inr (sv, d) \<and>
    i < length (cfg_servers cfg1) \<and>
    cfg' = cfg1\<lparr>cfg_net := DeleteServer i (cfg_net cfg1), saved := sv, cfg_disk := d, objects := obs, cfg_servers := (cfg_servers cfg1)[i := None]\<rparr> \<and>
    obs = (case cfg_servers cfg1 ! i of None \<Rightarrow> objects cfg1 | Some a \<Rightarrow> (objects cfg1)(a := kill (objects cfg1 a)))"
  using assms by (auto simp: ShutdownServer_def Let_def split: option.splits dest!: killServer_effect)

lemma disconnectUnlocked_only: "disconnectUnlocked i from cfg = Inr cfg' \<Longrightarrow> \<exists>rn. cfg' = cfg\<lparr>cfg_net := rn\<rparr>"
  by (auto simp: disconnectUnlocked_def)

lemma ShutdownServer_returns:
  assumes "started cfg" and "i < cfg_n cfg" and "length (saved cfg) = cfg_n cfg" and "length (cfg_servers cfg) = cfg_n cfg"
  shows "\<exists>cfg'. ShutdownServer kill i cfg = Inr cfg' \<and> started cfg' \<and> cfg_n cfg' = cfg_n cfg \<and>
    links cfg' = links cfg - {i} \<times> UNIV - UNIV \<times> {i} \<and> LabRPC.servers (cfg_net cfg') = (LabRPC.servers (cfg_net cfg))(i := None) \<and>
    cfg_servers cfg' = (cfg_servers cfg)[i := None]"
proof -
  have all: "set (All cfg) = {..<cfg_n cfg}" "length (All cfg) = cfg_n cfg" by (auto simp: All_def)
  obtain cfg1 where c1: "disconnectUnlocked i (All cfg) cfg = Inr cfg1" "only_links cfg cfg1"
    "links cfg1 = links cfg - {i} \<times> {..<cfg_n cfg} - {..<cfg_n cfg} \<times> {i}"
    using disconnect_links [OF assms(1,2), of "All cfg"] all by auto
  have s1: "started cfg1" "cfg_n cfg1 = cfg_n cfg" using only_links_started [OF c1(2) assms(1)] by auto
  have same: "saved cfg1 = saved cfg" "cfg_servers cfg1 = cfg_servers cfg" "LabRPC.servers (cfg_net cfg1) = LabRPC.servers (cfg_net cfg)"
    using c1(2) sameButEnds_servers by (auto simp: only_links_def)
  have "\<exists>cfg'. ShutdownServer kill i cfg = Inr cfg'"
    using c1(1) same assms(2-4)
    by (auto simp: ShutdownServer_def killServer_def copySaved_def newPersister_def idx_def Let_def split: option.splits)
  then obtain cfg' where c: "ShutdownServer kill i cfg = Inr cfg'" by blast
  obtain sv d obs where cfg': "cfg' = cfg1\<lparr>cfg_net := DeleteServer i (cfg_net cfg1), saved := sv, cfg_disk := d, objects := obs,
      cfg_servers := (cfg_servers cfg1)[i := None]\<rparr>"
    using ShutdownServer_effect [OF c] c1(1) by auto
  have "links cfg \<subseteq> {..<cfg_n cfg} \<times> {..<cfg_n cfg}" by (auto simp: links_def named_def)
  then have "links cfg1 = links cfg - {i} \<times> UNIV - UNIV \<times> {i}" unfolding c1(3) by auto
  moreover have "links cfg' = links cfg1" by (simp add: links_def cfg')
  moreover have "started cfg'" using s1(1) tab_inv_cong [of _ _ _ "cfg_net cfg1" "DeleteServer i (cfg_net cfg1)"] by (simp add: started_def cfg')
  ultimately show ?thesis using c cfg' same s1(2) by (intro exI [of _ cfg']) simp
qed

lemma ShutdownServer_storage:
  assumes "ShutdownServer kill i cfg = Inr cfg'" and "saved cfg ! i = Some a" and "a < used (cfg_disk cfg)"
  shows "i < length (saved cfg) \<and> saved cfg' = (saved cfg)[i := Some (used (cfg_disk cfg))] \<and> used (cfg_disk cfg') = used (cfg_disk cfg) + 1 \<and>
    cell (cfg_disk cfg') (used (cfg_disk cfg)) = cell (cfg_disk cfg) a"
proof -
  obtain cfg1 sv d where c1: "disconnectUnlocked i (All cfg) cfg = Inr cfg1" "copySaved i (saved cfg1, cfg_disk cfg1) = Inr (sv, d)"
    "saved cfg' = sv" "cfg_disk cfg' = d" using ShutdownServer_effect [OF assms(1)] by auto
  moreover have "saved cfg1 = saved cfg" "cfg_disk cfg1 = cfg_disk cfg" using disconnectUnlocked_only [OF c1(1)] by auto
  ultimately show ?thesis using copySaved_slot [of i "saved cfg" "cfg_disk cfg" sv d a] assms(2,3) by simp
qed

lemma StartServer_storage:
  assumes "StartServer start names i cfg = Inr cfg'" and "saved cfg ! i = Some a" and "a < used (cfg_disk cfg)"
  shows "i < length (saved cfg) \<and> saved cfg' = (saved cfg)[i := Some (used (cfg_disk cfg))] \<and> used (cfg_disk cfg') = used (cfg_disk cfg) + 1 \<and>
    cell (cfg_disk cfg') (used (cfg_disk cfg)) = cell (cfg_disk cfg) a \<and>
    (\<exists>kv. start (cfg_n cfg) (int i) (cell (cfg_disk cfg) a) = Inr kv \<and> cfg_servers cfg' ! i = Some (nobjects cfg) \<and> objects cfg' (nobjects cfg) = kv)"
proof -
  obtain rn kv sv d where "start (cfg_n cfg) (int i) (cell d (the (sv ! i))) = Inr kv" "copyOrMakeSaved i (saved cfg, cfg_disk cfg) = Inr (sv, d)"
    "i < length (cfg_servers cfg)"
    "cfg' = cfg\<lparr>endnames := (endnames cfg)[i := Some (map names [0..<cfg_n cfg])], saved := sv, cfg_disk := d,
      cfg_servers := (cfg_servers cfg)[i := Some (nobjects cfg)], objects := (objects cfg)(nobjects cfg := kv), nobjects := nobjects cfg + 1,
      cfg_net := AddServer i (nobjects cfg) rn\<rparr>" using StartServer_effect [OF assms(1)] by blast
  then show ?thesis using copyOrMakeSaved_slot [of i "saved cfg" "cfg_disk cfg" sv d a] assms(2,3) by auto
qed

interpretation svc_storage: renewed_storage "ShutdownServer kill" "StartServer start names"
  "\<lambda>i cfg. if i < length (saved cfg) then saved cfg ! i else None" cfg_disk "\<lambda>d cfg. cfg\<lparr>cfg_disk := d\<rparr>"
  for kill :: "'srv \<Rightarrow> 'srv" and start :: "nat \<Rightarrow> int \<Rightarrow> ('c, 's) Persister \<Rightarrow> 'srv go" and names
proof unfold_locales
  fix i and cfg cfg' :: "('c, 's, 'srv, 'z) svc_config_scheme" and a
  assume a: "(if i < length (saved cfg) then saved cfg ! i else None) = Some a" "a < used (cfg_disk cfg)"
  let ?new = "\<exists>b. (if i < length (saved cfg') then saved cfg' ! i else None) = Some b \<and>
      used (cfg_disk cfg) \<le> b \<and> b < used (cfg_disk cfg') \<and> cell (cfg_disk cfg') b = cell (cfg_disk cfg) a"
  show "ShutdownServer kill i cfg = Inr cfg' \<Longrightarrow> ?new"
    using a ShutdownServer_storage [of kill i cfg cfg' a] by (auto split: if_splits)
  show "StartServer start names i cfg = Inr cfg' \<Longrightarrow> ?new"
    using a StartServer_storage [of start names i cfg cfg' a] by (auto split: if_splits)
qed simp_all

text \<open>A server that is shut down and started again is started with what its persister held at the shutdown.\<close>

lemma service_restart:
  assumes "ShutdownServer kill i cfg = Inr cfg1" and "i < length (saved cfg)" and "saved cfg ! i = Some a" and "a < used (cfg_disk cfg)"
    and "\<forall>(c, p)\<in>set ws. c < used (cfg_disk cfg)"
    and "StartServer start names i (cfg1\<lparr>cfg_disk := writeAll ws (cfg_disk cfg1)\<rparr>) = Inr cfg2"
  shows "\<exists>o' kv b. cfg_servers cfg2 ! i = Some o' \<and> objects cfg2 o' = kv \<and> start (cfg_n cfg) (int i) (cell (cfg_disk cfg) a) = Inr kv \<and>
    saved cfg2 ! i = Some b \<and> used (cfg_disk cfg) \<le> b \<and> cell (cfg_disk cfg2) b = cell (cfg_disk cfg) a"
proof -
  obtain b where b: "saved cfg2 ! i = Some b" "used (cfg_disk cfg) \<le> b" "cell (cfg_disk cfg2) b = cell (cfg_disk cfg) a"
    using svc_storage.restart [OF assms(1) _ assms(4,5,6)] assms(2,3) by (auto split: if_splits)
  note S = ShutdownServer_storage [OF assms(1,3,4)]
  have w: "used (writeAll ws (cfg_disk cfg1)) = used (cfg_disk cfg1)" "cell (writeAll ws (cfg_disk cfg1)) (used (cfg_disk cfg)) = cell (cfg_disk cfg) a"
    using writeAll_keep [of ws "cfg_disk cfg1" "used (cfg_disk cfg)"] S assms(5) by force+
  have "cfg_n cfg1 = cfg_n cfg" using ShutdownServer_effect [OF assms(1)] disconnectUnlocked_only by fastforce
  then show ?thesis using StartServer_storage [OF assms(6), of "used (cfg_disk cfg)"] S w b by auto
qed

lemma makeEnds_returns:
  assumes "distinct (map fst xs)" and "\<forall>e\<in>fst ` set xs. e \<notin> dom (ends rn)"
  shows "\<exists>rn'. makeEnds xs rn = Inr rn'"
  using assms
proof (induction xs arbitrary: rn)
  case (Cons x xs)
  obtain e s where x: "x = (e, s)" by force
  have m: "MakeEnd e rn = Inr (\<lparr>ce_endname = e\<rparr>, rn\<lparr>ends := (ends rn)(e \<mapsto> \<lparr>ce_endname = e\<rparr>), enabled := (enabled rn)(e \<mapsto> False),
      connections := (connections rn)(e := None)\<rparr>)" (is "_ = Inr (_, ?rn)")
    using Cons.prems(2) x by (auto simp: MakeEnd_def Let_def)
  have "\<exists>rn'. makeEnds xs (Connect e s ?rn) = Inr rn'"
  proof (rule Cons.IH)
    show "\<forall>a\<in>fst ` set xs. a \<notin> dom (ends (Connect e s ?rn))"
      using Cons.prems x by (intro ballI) (auto simp: Connect_def simp del: domIff)
  qed (use Cons.prems in simp)
  then show ?case using m x by (auto simp: makeEnds_def)
qed (simp add: makeEnds_def)

text \<open>The first \<open>k\<close> servers run, with ends that have the given names.\<close>

definition running :: "(nat \<Rightarrow> nat \<Rightarrow> string) \<Rightarrow> nat \<Rightarrow> nat \<Rightarrow> ('c, 's, 'srv, 'z) svc_config_scheme \<Rightarrow> bool" where
  "running names n k cfg \<longleftrightarrow> cfg_n cfg = n \<and> tab_inv (\<lambda>j. j) (endnames cfg) n (cfg_net cfg) \<and>
     length (saved cfg) = n \<and> length (cfg_servers cfg) = n \<and>
     (\<forall>i<k. endnames cfg ! i \<noteq> None \<and> cfg_servers cfg ! i \<noteq> None) \<and> (\<forall>i<n. k \<le> i \<longrightarrow> saved cfg ! i = None) \<and>
     dom (ends (cfg_net cfg)) = (\<lambda>(i, j). names i j) ` ({..<k} \<times> {..<n})"

lemma StartServer_running:
  assumes "running names n k cfg" and "k < n" and "inj_on (\<lambda>(i, j). names i j) ({..<n} \<times> {..<n})"
    and "\<exists>kv. start n (int k) MakePersister = Inr kv"
  shows "\<exists>cfg'. StartServer start (names k) k cfg = Inr cfg' \<and> running names n (Suc k) cfg'"
proof -
  note R = assms(1) [unfolded running_def]
  then have n: "cfg_n cfg = n" and tab: "tab_inv (\<lambda>j. j) (endnames cfg) n (cfg_net cfg)" by blast+
  have len: "length (endnames cfg) = n" using tab_invD(1) [OF tab] .
  have inj: "names i j = names i' j' \<Longrightarrow> i < n \<Longrightarrow> j < n \<Longrightarrow> i' < n \<Longrightarrow> j' < n \<Longrightarrow> i = i' \<and> j = j'" for i j i' j'
    using inj_onD [OF assms(3), of "(i, j)" "(i', j')"] by simp
  have new: "names k j \<notin> dom (ends (cfg_net cfg))" if "j < n" for j
  proof
    assume "names k j \<in> dom (ends (cfg_net cfg))"
    then obtain i j' where "i < k" "j' < n" "names k j = names i j'" using R by auto
    then show False using inj [of k j i j'] assms(2) that by simp
  qed
  have fst: "map fst (zip (map (names k) [0..<n]) [0..<n]) = map (names k) [0..<n]" by simp
  have "\<exists>rn. makeEnds (zip (map (names k) [0..<n]) [0..<n]) (cfg_net cfg) = Inr rn"
  proof (rule makeEnds_returns)
    show "distinct (map fst (zip (map (names k) [0..<n]) [0..<n]))"
      unfolding fst using inj assms(2) by (auto simp: distinct_map inj_on_def)
    show "\<forall>e\<in>fst ` set (zip (map (names k) [0..<n]) [0..<n]). e \<notin> dom (ends (cfg_net cfg))"
      using new unfolding set_map [symmetric] fst by (simp del: domIff)
  qed
  then obtain rn where rn: "makeEnds (zip (map (names k) [0..<n]) [0..<n]) (cfg_net cfg) = Inr rn" by blast
  then have dom: "dom (ends rn) = dom (ends (cfg_net cfg)) \<union> names k ` {..<n}"
    using makeEnds_effect [OF rn] unfolding set_map [symmetric] fst by (simp add: atLeast_upt)
  obtain kv where kv: "start n (int k) MakePersister = Inr kv" using assms(4) by blast
  have sv: "copyOrMakeSaved k (saved cfg, cfg_disk cfg) = Inr ((saved cfg)[k := Some (used (cfg_disk cfg))],
      \<lparr>cell = (cell (cfg_disk cfg))(used (cfg_disk cfg) := MakePersister), used = used (cfg_disk cfg) + 1\<rparr>)"
    using R assms(2) by (simp add: copyOrMakeSaved_def newPersister_def idx_def)
  obtain cfg' where c: "StartServer start (names k) k cfg = Inr cfg'"
    and sel: "cfg_net cfg' = AddServer k (nobjects cfg) rn" "saved cfg' = (saved cfg)[k := Some (used (cfg_disk cfg))]"
      "cfg_servers cfg' = (cfg_servers cfg)[k := Some (nobjects cfg)]"
    using R rn sv kv assms(2) len by (simp add: StartServer_def set_idx_def idx_def)
  note T = StartServer_tab [OF c tab [folded n]]
  have "dom (ends (cfg_net cfg')) = (\<lambda>(i, j). names i j) ` ({..<Suc k} \<times> {..<n})"
  proof -
    have "(\<lambda>(i, j). names i j) ` ({k} \<times> {..<n}) = names k ` {..<n}" by force
    moreover have "{..<Suc k} \<times> {..<n} = {..<k} \<times> {..<n} \<union> {k} \<times> {..<n}" by (auto simp: less_Suc_eq)
    ultimately show ?thesis unfolding sel(1) AddServer_sel dom using R by (simp add: image_Un)
  qed
  then show ?thesis using c T R sel(2,3) n assms(2) len unfolding running_def
    by (intro exI [of _ cfg']) (auto simp: nth_list_update less_Suc_eq)
qed

lemma startAll_running:
  assumes "running names n 0 cfg" and "inj_on (\<lambda>(i, j). names i j) ({..<n} \<times> {..<n})"
    and "\<And>i cfg. \<exists>kv. start cfg n (int i) MakePersister = Inr kv" and "k \<le> n"
  shows "\<exists>cfg'. gfold (\<lambda>i cfg. StartServer (start cfg) (names i) i cfg) [0..<k] cfg = Inr cfg' \<and> running names n k cfg'"
  using assms(4)
proof (induction k)
  case (Suc k)
  then obtain cfg1 where c1: "gfold (\<lambda>i cfg. StartServer (start cfg) (names i) i cfg) [0..<k] cfg = Inr cfg1" "running names n k cfg1" by auto
  then show ?case using StartServer_running [where start = "start cfg1", OF c1(2) _ assms(2) assms(3)] Suc.prems by auto
qed (use assms(1) in simp)

lemma running_started: "running names n n cfg \<Longrightarrow> started cfg"
  by (simp add: running_def started_def)

text \<open>A configuration in which the servers run and are all connected, as after \<open>make_config\<close>.\<close>

lemma make_config_links:
  assumes "running names n 0 cfg0" and "inj_on (\<lambda>(i, j). names i j) ({..<n} \<times> {..<n})"
    and "\<And>i cfg. \<exists>kv. start cfg n (int i) MakePersister = Inr kv"
  shows "\<exists>cfg. gbind (gfold (\<lambda>i cfg. StartServer (start cfg) (names i) i cfg) [0..<n] cfg0) (\<lambda>cfg. gbind (ConnectAll cfg) (\<lambda>cfg.
      Inr (cfg\<lparr>cfg_net := Reliable b (cfg_net cfg)\<rparr>))) = Inr cfg \<and>
    started cfg \<and> cfg_n cfg = n \<and> links cfg = {..<n} \<times> {..<n} \<and> length (saved cfg) = n \<and> length (cfg_servers cfg) = n \<and> (\<forall>i<n. cfg_servers cfg ! i \<noteq> None)"
proof -
  obtain cfg1 where c1: "gfold (\<lambda>i cfg. StartServer (start cfg) (names i) i cfg) [0..<n] cfg0 = Inr cfg1" "running names n n cfg1"
    using startAll_running [where start = start, OF assms le_refl] by blast
  have n1: "cfg_n cfg1 = n" using c1(2) by (simp add: running_def)
  obtain cfg2 where c2: "ConnectAll cfg1 = Inr cfg2" "only_links cfg1 cfg2" "links cfg2 = {..<n} \<times> {..<n}"
    using ConnectAll_links [OF running_started [OF c1(2)]] n1 by auto
  let ?cfg = "cfg2\<lparr>cfg_net := Reliable b (cfg_net cfg2)\<rparr>"
  have s2: "started cfg2" "cfg_n cfg2 = n" using only_links_started [OF c2(2) running_started [OF c1(2)]] n1 by auto
  have "started ?cfg" using s2(1) tab_inv_cong [of _ _ _ "cfg_net cfg2" "cfg_net ?cfg"] by (simp add: started_def Reliable_def)
  moreover have "links ?cfg = links cfg2" by (simp add: links_def Reliable_def isEnabled_def)
  moreover have "cfg_servers ?cfg = cfg_servers cfg1" "saved ?cfg = saved cfg1" using c2(2) by (auto simp: only_links_def)
  ultimately show ?thesis using c1 c2 s2(2) by (simp add: running_def)
qed

end
