(* ===== verification/KV_Config_Props.thy ===== *)
theory KV_Config_Props
  imports KV_Config Service_Config_Props Raft_Leader
begin

text \<open>
  What the tests of the key/value service rely on: \<open>make_config\<close> gives running servers that can all talk to each
  other, \<open>make_partition\<close> leaves the leader in the minority, a server that is shut down gets no requests, and a
  server restarts from what it had stored.
\<close>

subsection \<open>The start of a test\<close>

lemma StartKVServer_fresh: "\<exists>kv. StartKVServer clk clk' n m MakePersister mx = Inr kv"
proof -
  obtain rf where "initL clk clk' n m (MakePersister :: (Op, kvgob) Persister) = Inr rf"
    using initL_fresh [of "MakePersister :: (Op, kvgob) Persister" clk clk' n m] by (auto simp: ReadRaftState_def MakePersister_def)
  then show ?thesis by (simp add: StartKVServer_def Make_def ReadSnapshot_def MakePersister_def readSnapshotL_def)
qed

lemma KV_emptyConfig_running: "running names n 0 (KV_emptyConfig n mx)"
  by (auto simp: running_def KV_emptyConfig_def tab_inv_def named_def MakeNetwork_def)

lemma KV_make_config_spec:
  assumes "inj_on (\<lambda>(i, j). names i j) ({..<n} \<times> {..<n})"
  shows "\<exists>cfg. KV_make_config names clk n unreliable maxstate = Inr cfg \<and> started cfg \<and> cfg_n cfg = n \<and>
    links cfg = {..<n} \<times> {..<n} \<and> length (saved cfg) = n \<and> length (cfg_servers cfg) = n \<and> (\<forall>i<n. cfg_servers cfg ! i \<noteq> None)"
  unfolding KV_make_config_def KV_Start_def
  by (rule make_config_links [where start = "\<lambda>cfg n m ps. StartKVServer clk clk n m ps (cfg_maxraftstate cfg)",
        OF KV_emptyConfig_running assms StartKVServer_fresh])

text \<open>
  If the random names of the ends are all different, \<open>make_config\<close> returns a configuration in which all servers
  run, have ends of their own, and can talk to each other.
\<close>

theorem KV_make_config_links:
  assumes "inj_on (\<lambda>(i, j). names i j) ({..<n} \<times> {..<n})"
  shows "\<exists>cfg. KV_make_config names clk n unreliable maxstate = Inr cfg \<and> started cfg \<and> cfg_n cfg = n \<and>
    links cfg = {..<n} \<times> {..<n} \<and> (\<forall>i<n. cfg_servers cfg ! i \<noteq> None)"
  using KV_make_config_spec [OF assms] by blast

subsection \<open>The leader in the minority\<close>

lemma leaderFrom_spec:
  assumes "\<forall>i\<in>set is. i < length (cfg_servers cfg) \<and> cfg_servers cfg ! i \<noteq> None"
  shows "\<exists>b l. leaderFrom is cfg = Inr (b, l) \<and>
    (if b then l \<in> set is \<and> snd (GetState (kv_rf (objects cfg (the (cfg_servers cfg ! l)))))
     else l = 0 \<and> (\<forall>i\<in>set is. \<not> snd (GetState (kv_rf (objects cfg (the (cfg_servers cfg ! i)))))))"
  using assms
proof (induction "is")
  case (Cons i "is")
  then obtain a where a: "i < length (cfg_servers cfg)" "cfg_servers cfg ! i = Some a" by auto
  obtain b l where bl: "leaderFrom is cfg = Inr (b, l)"
    "if b then l \<in> set is \<and> snd (GetState (kv_rf (objects cfg (the (cfg_servers cfg ! l)))))
     else l = 0 \<and> (\<forall>i\<in>set is. \<not> snd (GetState (kv_rf (objects cfg (the (cfg_servers cfg ! i))))))" using Cons by auto
  then show ?case using a by (cases "snd (GetState (kv_rf (objects cfg a)))") (auto split: if_splits)
qed auto

text \<open>
  C19: with an odd number of at least three servers that all run, \<open>make_partition\<close> and \<open>partition\<close> split the
  servers into a majority and a minority that cannot talk to each other, each completely connected, and if
  there is a leader then a leader is in the minority.
\<close>

theorem leader_in_minority:
  assumes "started cfg" and "odd (cfg_n cfg)" and "1 < cfg_n cfg" and "length (cfg_servers cfg) = cfg_n cfg"
    and "\<forall>i<cfg_n cfg. cfg_servers cfg ! i \<noteq> None"
  shows "\<exists>p1 p2 cfg'. KV_make_partition cfg = Inr (p1, p2) \<and> partition_cfg p1 p2 cfg = Inr cfg' \<and>
    set p1 \<inter> set p2 = {} \<and> set p1 \<union> set p2 = {..<cfg_n cfg} \<and> card (set p1) = cfg_n cfg div 2 + 1 \<and>
    links cfg' = set p1 \<times> set p1 \<union> set p2 \<times> set p2 \<and>
    ((\<exists>i<cfg_n cfg. snd (GetState (kv_rf (objects cfg (the (cfg_servers cfg ! i)))))) \<longrightarrow>
       (\<exists>l\<in>set p2. snd (GetState (kv_rf (objects cfg (the (cfg_servers cfg ! l)))))))"
proof -
  obtain b l where bl: "KV_Leader cfg = Inr (b, l)"
    "if b then l < cfg_n cfg \<and> snd (GetState (kv_rf (objects cfg (the (cfg_servers cfg ! l)))))
     else l = 0 \<and> (\<forall>i<cfg_n cfg. \<not> snd (GetState (kv_rf (objects cfg (the (cfg_servers cfg ! i))))))"
    using leaderFrom_spec [of "[0..<cfg_n cfg]" cfg] assms(4,5) by (auto simp: KV_Leader_def split: if_splits)
  then have "l < cfg_n cfg" using assms(3) by (auto split: if_splits)
  then obtain p1 p2 where p: "make_partition l cfg = Inr (p1, p2)" "distinct p1" "distinct p2" "set p1 \<inter> set p2 = {}"
    "set p1 \<union> set p2 = {..<cfg_n cfg}" "l \<in> set p2" "length p1 = cfg_n cfg div 2 + 1"
    using make_partition_spec [OF assms(2,3)] by blast
  have sub: "set p1 \<subseteq> {..<cfg_n cfg}" "set p2 \<subseteq> {..<cfg_n cfg}" using p(5) by auto
  obtain cfg' where c: "partition_cfg p1 p2 cfg = Inr cfg'"
    "links cfg' = (links cfg - (set p1 \<times> set p2 \<union> set p2 \<times> set p1)) \<union> (set p1 \<times> set p1 \<union> set p2 \<times> set p2)"
    using partition_effect [OF assms(1) sub p(2,3,4)] by blast
  have "links cfg \<subseteq> {..<cfg_n cfg} \<times> {..<cfg_n cfg}" by (auto simp: links_def named_def)
  then have "links cfg' = set p1 \<times> set p1 \<union> set p2 \<times> set p2" unfolding c(2) p(5) [symmetric] by auto
  moreover have "(\<exists>i<cfg_n cfg. snd (GetState (kv_rf (objects cfg (the (cfg_servers cfg ! i)))))) \<longrightarrow>
      (\<exists>l\<in>set p2. snd (GetState (kv_rf (objects cfg (the (cfg_servers cfg ! l))))))" using bl(2) p(6) by (auto split: if_splits)
  moreover have "card (set p1) = cfg_n cfg div 2 + 1" using p(2,7) by (simp add: distinct_card)
  moreover have "KV_make_partition cfg = Inr (p1, p2)" using bl(1) p(1) by (simp add: KV_make_partition_def)
  ultimately show ?thesis using c(1) p(4,5) by blast
qed


text \<open>\<open>Leader\<close> panics when a server that is shut down comes before any leader.\<close>

lemma KV_Leader_down:
  assumes "i < cfg_n cfg" and "length (cfg_servers cfg) = cfg_n cfg" and "cfg_servers cfg ! i = None"
    and "\<forall>j<i. cfg_servers cfg ! j \<noteq> None \<and> \<not> snd (GetState (kv_rf (objects cfg (the (cfg_servers cfg ! j)))))"
  shows "KV_Leader cfg = Inl NilDereference"
proof -
  have walk: "leaderFrom ([j..<i] @ i # is) cfg = Inl NilDereference" if "j \<le> i" for j "is"
    using that
  proof (induction rule: inc_induct)
    case base
    then show ?case using assms(1-3) by (simp add: idx_def)
  next
    case (step j)
    then show ?case using assms(1,2) assms(4) [rule_format, OF step(2)] by (auto simp: upt_conv_Cons idx_def)
  qed
  have "[0..<cfg_n cfg] = [0..<i] @ i # [Suc i..<cfg_n cfg]" 
    using assms(1) upt_add_eq_append [of 0 i "cfg_n cfg - i"] upt_conv_Cons [of i "cfg_n cfg"] by simp
  then show ?thesis using walk [of 0] by (simp add: KV_Leader_def)
qed

subsection \<open>Shutdown and restart\<close>

text \<open>
  \<open>ShutdownServer\<close> returns, the server can no longer send to another one or be reached from it, the other links
  stay, and no end at all, be it of a server or of a client, leads to it any more.
\<close>

theorem shutdown_isolates:
  assumes "started cfg" and "i < cfg_n cfg" and "length (saved cfg) = cfg_n cfg" and "length (cfg_servers cfg) = cfg_n cfg"
  shows "\<exists>cfg'. KV_Shutdown i cfg = Inr cfg' \<and> links cfg' = links cfg - {i} \<times> UNIV - UNIV \<times> {i} \<and>
    cfg_servers cfg' = (cfg_servers cfg)[i := None] \<and>
    (\<forall>e on srv rest. readEndnameInfo e (cfg_net cfg') = (on, Some i, srv, rest) \<longrightarrow> srv = None)"
proof -
  obtain cfg' where c: "KV_Shutdown i cfg = Inr cfg'" "links cfg' = links cfg - {i} \<times> UNIV - UNIV \<times> {i}"
    "LabRPC.servers (cfg_net cfg') = (LabRPC.servers (cfg_net cfg))(i := None)" "cfg_servers cfg' = (cfg_servers cfg)[i := None]"
    using ShutdownServer_returns [OF assms, of Kill_kv] unfolding KV_Shutdown_def by blast
  have "srv = None" if "readEndnameInfo e (cfg_net cfg') = (on, Some i, srv, rest)" for e on srv rest
    using that c(3) by (auto simp: readEndnameInfo_def Let_def)
  then show ?thesis using c by blast
qed

text \<open>
  A server that is shut down and started again starts from what its persister held at the shutdown, even if
  instances from before go on to write to theirs, and it gets a persister of its own.
\<close>

theorem KV_restart_state:
  assumes "KV_Shutdown i cfg = Inr cfg1" and "i < length (saved cfg)" and "saved cfg ! i = Some a" and "a < used (cfg_disk cfg)"
    and "\<forall>(c, p)\<in>set ws. c < used (cfg_disk cfg)"
    and "KV_Start names clk clk' i (cfg1\<lparr>cfg_disk := writeAll ws (cfg_disk cfg1)\<rparr>) = Inr cfg2"
  shows "\<exists>o' kv b. cfg_servers cfg2 ! i = Some o' \<and> objects cfg2 o' = kv \<and>
    StartKVServer clk clk' (cfg_n cfg) (int i) (cell (cfg_disk cfg) a) (cfg_maxraftstate cfg) = Inr kv \<and>
    saved cfg2 ! i = Some b \<and> used (cfg_disk cfg) \<le> b \<and> cell (cfg_disk cfg2) b = cell (cfg_disk cfg) a"
proof -
  have "cfg_maxraftstate cfg1 = cfg_maxraftstate cfg"
    using ShutdownServer_effect [OF assms(1) [unfolded KV_Shutdown_def]] disconnectUnlocked_only by fastforce
  then have "StartServer (\<lambda>n m ps. StartKVServer clk clk' n m ps (cfg_maxraftstate cfg)) names i
      (cfg1\<lparr>cfg_disk := writeAll ws (cfg_disk cfg1)\<rparr>) = Inr cfg2" using assms(6) by (simp add: KV_Start_def)
  from service_restart [OF assms(1) [unfolded KV_Shutdown_def] assms(2-5) this] show ?thesis by simp
qed

subsection \<open>A test\<close>

definition demoKVNames :: "nat \<Rightarrow> nat \<Rightarrow> string" where
  "demoKVNames i j = [char_of (i + 97), char_of (j + 97)]"

lemma demoKVNames_inj: "inj_on (\<lambda>(i, j). demoKVNames i j) ({..<3} \<times> {..<3})"
  by (auto simp: inj_on_def demoKVNames_def lessThan_nat_numeral lessThan_Suc numeral_3_eq_3)

theorem KV_make_config_links_witness:
  "inj_on (\<lambda>(i, j). demoKVNames i j) ({..<3} \<times> {..<3}) \<and>
   (\<exists>cfg. KV_make_config demoKVNames \<lparr>now = 0, rand = 0\<rparr> 3 False (-1) = Inr cfg \<and> (0, 2) \<in> links cfg)"
proof -
  obtain cfg where "KV_make_config demoKVNames \<lparr>now = 0, rand = 0\<rparr> 3 False (-1) = Inr cfg" "links cfg = {..<3} \<times> {..<3}"
    using KV_make_config_links [OF demoKVNames_inj] by blast
  then show ?thesis using demoKVNames_inj by auto
qed

text \<open>Three servers that run and are connected.\<close>

lemma demoKV:
  obtains cfg where "KV_make_config demoKVNames \<lparr>now = 0, rand = 0\<rparr> 3 False (-1) = Inr cfg" "started cfg" "cfg_n cfg = 3"
    "links cfg = {..<3} \<times> {..<3}" "length (saved cfg) = 3" "length (cfg_servers cfg) = 3" "\<forall>i<3. cfg_servers cfg ! i \<noteq> None"
  using KV_make_config_spec [OF demoKVNames_inj] by blast

theorem partition_links_witness:
  "\<exists>cfg cfg'. KV_make_config demoKVNames \<lparr>now = 0, rand = 0\<rparr> 3 False (-1) = Inr cfg \<and> partition_cfg [2, 0] [1] cfg = Inr cfg' \<and>
     (0, 2) \<in> links cfg' \<and> (1, 2) \<notin> links cfg'"
proof -
  obtain cfg where c: "KV_make_config demoKVNames \<lparr>now = 0, rand = 0\<rparr> 3 False (-1) = Inr cfg" "started cfg" "cfg_n cfg = 3"
    by (rule demoKV)
  show ?thesis using partition_links [OF c(2), of "[2, 0]" "[1]"] c by auto
qed

theorem leader_in_minority_witness:
  "\<exists>cfg p1 p2 cfg'. KV_make_config demoKVNames \<lparr>now = 0, rand = 0\<rparr> 3 False (-1) = Inr cfg \<and>
     KV_make_partition cfg = Inr (p1, p2) \<and> partition_cfg p1 p2 cfg = Inr cfg' \<and> card (set p1) = 2 \<and>
     links cfg' = set p1 \<times> set p1 \<union> set p2 \<times> set p2"
proof -
  obtain cfg where c: "KV_make_config demoKVNames \<lparr>now = 0, rand = 0\<rparr> 3 False (-1) = Inr cfg" "started cfg" "cfg_n cfg = 3"
    "length (cfg_servers cfg) = 3" "\<forall>i<3. cfg_servers cfg ! i \<noteq> None" by (rule demoKV)
  have "odd (cfg_n cfg)" "1 < cfg_n cfg" "length (cfg_servers cfg) = cfg_n cfg" "\<forall>i<cfg_n cfg. cfg_servers cfg ! i \<noteq> None"
    using c(3-5) by simp_all
  from leader_in_minority [OF c(2) this] show ?thesis using c(1,3) by auto
qed

theorem shutdown_isolates_witness:
  "\<exists>cfg cfg'. KV_make_config demoKVNames \<lparr>now = 0, rand = 0\<rparr> 3 False (-1) = Inr cfg \<and> KV_Shutdown 1 cfg = Inr cfg' \<and>
     links cfg' = {(0, 0), (0, 2), (2, 0), (2, 2)}"
proof -
  obtain cfg where c: "KV_make_config demoKVNames \<lparr>now = 0, rand = 0\<rparr> 3 False (-1) = Inr cfg" "started cfg" "cfg_n cfg = 3"
    "links cfg = {..<3} \<times> {..<3}" "length (saved cfg) = 3" "length (cfg_servers cfg) = 3" by (rule demoKV)
  have "1 < cfg_n cfg" "length (saved cfg) = cfg_n cfg" "length (cfg_servers cfg) = cfg_n cfg" using c by simp_all
  then obtain cfg' where c': "KV_Shutdown 1 cfg = Inr cfg'" "links cfg' = links cfg - {1} \<times> UNIV - UNIV \<times> {1}"
    using shutdown_isolates [OF c(2)] by blast
  have "{..<3 :: nat} \<times> {..<3 :: nat} - {1} \<times> UNIV - UNIV \<times> {1} = {(0, 0), (0, 2), (2, 0), (2, 2)}"
    by (auto simp: less_Suc_eq numeral_3_eq_3 numeral_2_eq_2)
  then show ?thesis using c(1,4) c' by auto
qed

definition demoKVDown :: kv_config where
  "demoKVDown = (KV_emptyConfig 1 (-1))\<lparr>saved := [Some 0], cfg_disk := \<lparr>cell = (\<lambda>_. MakePersister), used = 1\<rparr>\<rparr>"

definition demoKVWrites :: "(nat \<times> (Op, kvgob) Persister) list" where
  "demoKVWrites = [(0, \<lparr>raftstate = [GobInt 7], ps_snapshot = []\<rparr>)]"

theorem KV_restart_state_witness:
  "\<exists>cfg1 cfg2 o' kv. KV_Shutdown 0 demoKVDown = Inr cfg1 \<and>
     KV_Start (demoKVNames 5) \<lparr>now = 0, rand = 0\<rparr> \<lparr>now = 0, rand = 0\<rparr> 0 (cfg1\<lparr>cfg_disk := writeAll demoKVWrites (cfg_disk cfg1)\<rparr>) = Inr cfg2 \<and>
     cfg_servers cfg2 ! 0 = Some o' \<and> objects cfg2 o' = kv \<and>
     StartKVServer \<lparr>now = 0, rand = 0\<rparr> \<lparr>now = 0, rand = 0\<rparr> 1 0 MakePersister (-1) = Inr kv"
proof -
  let ?start = "\<lambda>cfg. KV_Start (demoKVNames 5) \<lparr>now = 0, rand = 0\<rparr> \<lparr>now = 0, rand = 0\<rparr> 0 cfg"
  have "case KV_Shutdown 0 demoKVDown of Inl _ \<Rightarrow> False | Inr cfg1 \<Rightarrow> \<not> isl (?start (cfg1\<lparr>cfg_disk := writeAll demoKVWrites (cfg_disk cfg1)\<rparr>))"
    by (simp add: KV_Shutdown_def ShutdownServer_def All_def disconnectUnlocked_def enableWhere_def isStarted_def copySaved_def newPersister_def
        killServer_def KV_Start_def StartServer_def makeEnds_def MakeEnd_def Connect_def Enable_def DeleteServer_def AddServer_def copyOrMakeSaved_def
        StartKVServer_def Make_def initL_def readPersist_def readSnapshotL_def writeAll_def writeCell_def demoKVDown_def demoKVWrites_def
        KV_emptyConfig_def MakeNetwork_def MakePersister_def ReadRaftState_def ReadSnapshot_def Persister_Copy_def Let_def)
  then obtain cfg1 cfg2 where c: "KV_Shutdown 0 demoKVDown = Inr cfg1" "?start (cfg1\<lparr>cfg_disk := writeAll demoKVWrites (cfg_disk cfg1)\<rparr>) = Inr cfg2"
    by (auto simp: isl_def split: sum.splits) (metis sum.exhaust)
  have "\<exists>o' kv b. cfg_servers cfg2 ! 0 = Some o' \<and> objects cfg2 o' = kv \<and>
      StartKVServer \<lparr>now = 0, rand = 0\<rparr> \<lparr>now = 0, rand = 0\<rparr> (cfg_n demoKVDown) (int 0) (cell (cfg_disk demoKVDown) 0) (cfg_maxraftstate demoKVDown) = Inr kv \<and>
      saved cfg2 ! 0 = Some b \<and> used (cfg_disk demoKVDown) \<le> b \<and> cell (cfg_disk cfg2) b = cell (cfg_disk demoKVDown) 0"
    by (rule KV_restart_state [OF c(1) _ _ _ _ c(2)]) (simp_all add: demoKVDown_def demoKVWrites_def)
  then show ?thesis using c by (auto simp: demoKVDown_def KV_emptyConfig_def)
qed

end
