(* ===== verification/Ctrler_Config.thy ===== *)
theory Ctrler_Config
  imports Service_Config_Props Ctrler_Server Raft_Leader
begin

text \<open>
  The test configuration of the shard controller, \<^verbatim>\<open>shardctrler/config.go\<close>. Its text is that of \<^verbatim>\<open>kvraft/config.go\<close>, theory
  \<open>Service_Config\<close>, for another type of server, except that \<open>Leader\<close> skips servers that are shut down and that there
  are no limits on the size of the state and no statistics.
\<close>

type_synonym sc_config = "(Op, unit, ShardCtrler) svc_config"

definition SC_Shutdown :: "nat \<Rightarrow> sc_config \<Rightarrow> sc_config go" where
  "SC_Shutdown i cfg = ShutdownServer Kill_sc i cfg"

definition SC_Start :: "(nat \<Rightarrow> string) \<Rightarrow> clock \<Rightarrow> clock \<Rightarrow> nat \<Rightarrow> sc_config \<Rightarrow> sc_config go" where
  "SC_Start names clk clk' i cfg = Service_Config.StartServer (\<lambda>n m ps. Ctrler_Server.StartServer clk clk' n m ps) names i cfg"

definition SC_connectUnlocked :: "nat \<Rightarrow> nat list \<Rightarrow> sc_config \<Rightarrow> sc_config go" where
  "SC_connectUnlocked i to cfg = connectUnlocked i to cfg"

definition SC_connect :: "nat \<Rightarrow> nat list \<Rightarrow> sc_config \<Rightarrow> sc_config go" where
  "SC_connect i to cfg = SC_connectUnlocked i to cfg"

definition SC_disconnectUnlocked :: "nat \<Rightarrow> nat list \<Rightarrow> sc_config \<Rightarrow> sc_config go" where
  "SC_disconnectUnlocked i from cfg = disconnectUnlocked i from cfg"

definition SC_disconnect :: "nat \<Rightarrow> nat list \<Rightarrow> sc_config \<Rightarrow> sc_config go" where
  "SC_disconnect i from cfg = SC_disconnectUnlocked i from cfg"

definition SC_All :: "sc_config \<Rightarrow> nat list" where
  "SC_All cfg = All cfg"

definition SC_ConnectAll :: "sc_config \<Rightarrow> sc_config go" where
  "SC_ConnectAll cfg = ConnectAll cfg"

definition SC_partition :: "nat list \<Rightarrow> nat list \<Rightarrow> sc_config \<Rightarrow> sc_config go" where
  "SC_partition p1 p2 cfg = partition_cfg p1 p2 cfg"

definition SC_makeClient :: "(nat \<Rightarrow> string) \<Rightarrow> nat list \<Rightarrow> sc_config \<Rightarrow> (nat \<times> sc_config) go" where
  "SC_makeClient names to cfg = makeClient names to cfg"

definition SC_deleteClient :: "nat \<Rightarrow> sc_config \<Rightarrow> sc_config" where
  "SC_deleteClient ck cfg = deleteClient ck cfg"

definition SC_ConnectClientUnlocked :: "nat \<Rightarrow> nat list \<Rightarrow> sc_config \<Rightarrow> sc_config go" where
  "SC_ConnectClientUnlocked ck to cfg = ConnectClientUnlocked ck to cfg"

definition SC_ConnectClient :: "nat \<Rightarrow> nat list \<Rightarrow> sc_config \<Rightarrow> sc_config go" where
  "SC_ConnectClient ck to cfg = SC_ConnectClientUnlocked ck to cfg"

definition SC_DisconnectClientUnlocked :: "nat \<Rightarrow> nat list \<Rightarrow> sc_config \<Rightarrow> sc_config go" where
  "SC_DisconnectClientUnlocked ck from cfg = DisconnectClientUnlocked ck from cfg"

definition SC_DisconnectClient :: "nat \<Rightarrow> nat list \<Rightarrow> sc_config \<Rightarrow> sc_config go" where
  "SC_DisconnectClient ck from cfg = SC_DisconnectClientUnlocked ck from cfg"

definition SC_random_handles :: "(nat \<Rightarrow> nat) \<Rightarrow> string list \<Rightarrow> string list" where
  "SC_random_handles js kvh = random_handles js kvh"

fun SC_leaderFrom :: "nat list \<Rightarrow> sc_config \<Rightarrow> (bool \<times> nat) go" where
  "SC_leaderFrom [] cfg = Inr (False, 0)"
| "SC_leaderFrom (i # is) cfg =
     gbind (idx (cfg_servers cfg) (int i)) (\<lambda>kv. case kv of
       None \<Rightarrow> SC_leaderFrom is cfg
     | Some a \<Rightarrow> if snd (GetState (sc_rf (objects cfg a))) then Inr (True, i) else SC_leaderFrom is cfg)"

definition SC_Leader :: "sc_config \<Rightarrow> (bool \<times> nat) go" where
  "SC_Leader cfg = SC_leaderFrom [0..<cfg_n cfg] cfg"

definition SC_make_partition :: "sc_config \<Rightarrow> (nat list \<times> nat list) go" where
  "SC_make_partition cfg = gbind (SC_Leader cfg) (\<lambda>(_, l). make_partition l cfg)"

definition SC_checkTimeout :: "bool \<Rightarrow> bool \<Rightarrow> unit go" where
  "SC_checkTimeout failed late = checkTimeout failed late"

definition SC_cleanup :: "bool \<Rightarrow> bool \<Rightarrow> sc_config \<Rightarrow> sc_config go" where
  "SC_cleanup failed late cfg = cleanup Kill_sc failed late cfg"

definition SC_LogSize :: "(Op gobval list \<Rightarrow> int) \<Rightarrow> sc_config \<Rightarrow> int go" where
  "SC_LogSize bytes cfg = LogSize bytes cfg"

definition SC_emptyConfig :: "nat \<Rightarrow> sc_config" where
  "SC_emptyConfig n = \<lparr>cfg_net = MakeNetwork, cfg_n = n, cfg_servers = replicate n None, saved = replicate n None,
     endnames = replicate n None, clerks = Map.empty, nextClientId = int n + 1000, objects = (\<lambda>_. undefined), nobjects = 0, nclerks = 0,
     cfg_disk = \<lparr>cell = (\<lambda>_. MakePersister), used = 0\<rparr>\<rparr>"

definition SC_make_config :: "(nat \<Rightarrow> nat \<Rightarrow> string) \<Rightarrow> clock \<Rightarrow> nat \<Rightarrow> bool \<Rightarrow> sc_config go" where
  "SC_make_config names clk n unreliable =
     gbind (gfold (\<lambda>i. SC_Start (names i) clk clk i) [0..<n] (SC_emptyConfig n)) (\<lambda>cfg.
     gbind (SC_ConnectAll cfg) (\<lambda>cfg.
     Inr (cfg\<lparr>cfg_net := Reliable (\<not> unreliable) (cfg_net cfg)\<rparr>)))"

subsection \<open>The start of a test\<close>

lemma Ctrler_StartServer_fresh: "\<exists>kv. Ctrler_Server.StartServer clk clk' n m MakePersister = Inr kv"
proof -
  obtain rf where "initL clk clk' n m (MakePersister :: (Op, unit) Persister) = Inr rf"
    using initL_fresh [of "MakePersister :: (Op, unit) Persister" clk clk' n m] by (auto simp: ReadRaftState_def MakePersister_def)
  then show ?thesis by (simp add: Ctrler_Server.StartServer_def Make_def)
qed

lemma SC_emptyConfig_running: "running names n 0 (SC_emptyConfig n)"
  by (auto simp: running_def SC_emptyConfig_def tab_inv_def named_def MakeNetwork_def)

lemma SC_make_config_spec:
  assumes "inj_on (\<lambda>(i, j). names i j) ({..<n} \<times> {..<n})"
  shows "\<exists>cfg. SC_make_config names clk n unreliable = Inr cfg \<and> started cfg \<and> cfg_n cfg = n \<and>
    links cfg = {..<n} \<times> {..<n} \<and> length (saved cfg) = n \<and> length (cfg_servers cfg) = n \<and> (\<forall>i<n. cfg_servers cfg ! i \<noteq> None)"
  unfolding SC_make_config_def SC_Start_def SC_ConnectAll_def
  by (rule make_config_links [where start = "\<lambda>_ n m ps. Ctrler_Server.StartServer clk clk n m ps",
        OF SC_emptyConfig_running assms Ctrler_StartServer_fresh])

subsection \<open>The leader\<close>

text \<open>A server that leads, and is not shut down.\<close>

definition leads :: "sc_config \<Rightarrow> nat \<Rightarrow> bool" where
  "leads cfg i \<longleftrightarrow> (case cfg_servers cfg ! i of None \<Rightarrow> False | Some a \<Rightarrow> snd (GetState (sc_rf (objects cfg a))))"

lemma SC_leaderFrom_spec:
  assumes "\<forall>i\<in>set is. i < length (cfg_servers cfg)"
  shows "\<exists>b l. SC_leaderFrom is cfg = Inr (b, l) \<and>
    (if b then l \<in> set is \<and> leads cfg l else l = 0 \<and> (\<forall>i\<in>set is. \<not> leads cfg i))"
  using assms
proof (induction "is")
  case (Cons i "is")
  then have i: "i < length (cfg_servers cfg)" by simp
  obtain b l where bl: "SC_leaderFrom is cfg = Inr (b, l)"
    "if b then l \<in> set is \<and> leads cfg l else l = 0 \<and> (\<forall>i\<in>set is. \<not> leads cfg i)" using Cons by auto
  then show ?case using i by (cases "cfg_servers cfg ! i") (auto simp: leads_def idx_def split: if_splits)
qed auto

text \<open>
  For any number of servers that is odd and at least three, some of which may be shut down, \<open>make_partition\<close> of
  the shard controller's tests splits them into a majority and a minority; if a server leads then one of the
  minority does.
\<close>

theorem SC_make_partition_ok:
  assumes "odd (cfg_n cfg)" and "1 < cfg_n cfg" and "length (cfg_servers cfg) = cfg_n cfg"
  shows "\<exists>p1 p2. SC_make_partition cfg = Inr (p1, p2) \<and> set p1 \<inter> set p2 = {} \<and> set p1 \<union> set p2 = {..<cfg_n cfg} \<and>
    card (set p1) = cfg_n cfg div 2 + 1 \<and> ((\<exists>i<cfg_n cfg. leads cfg i) \<longrightarrow> (\<exists>l\<in>set p2. leads cfg l))"
proof -
  obtain b l where bl: "SC_Leader cfg = Inr (b, l)"
    "if b then l < cfg_n cfg \<and> leads cfg l else l = 0 \<and> (\<forall>i<cfg_n cfg. \<not> leads cfg i)"
    using SC_leaderFrom_spec [of "[0..<cfg_n cfg]" cfg] assms(3) by (auto simp: SC_Leader_def split: if_splits)
  then have "l < cfg_n cfg" using assms(2) by (auto split: if_splits)
  then obtain p1 p2 where p: "make_partition l cfg = Inr (p1, p2)" "distinct p1" "distinct p2" "set p1 \<inter> set p2 = {}"
    "set p1 \<union> set p2 = {..<cfg_n cfg}" "l \<in> set p2" "length p1 = cfg_n cfg div 2 + 1"
    using make_partition_spec [OF assms(1,2)] by blast
  have "(\<exists>i<cfg_n cfg. leads cfg i) \<longrightarrow> (\<exists>l\<in>set p2. leads cfg l)" using bl(2) p(6) by (auto split: if_splits)
  moreover have "card (set p1) = cfg_n cfg div 2 + 1" using p(2,7) by (simp add: distinct_card)
  moreover have "SC_make_partition cfg = Inr (p1, p2)" using bl(1) p(1) by (simp add: SC_make_partition_def)
  ultimately show ?thesis using p(4,5) by blast
qed

theorem SC_make_partition_ok_witness:
  "\<exists>p1 p2. SC_make_partition (SC_emptyConfig 3) = Inr (p1, p2) \<and> card (set p1) = 2 \<and> set p1 \<inter> set p2 = {}"
  using SC_make_partition_ok [of "SC_emptyConfig 3"] by (auto simp: SC_emptyConfig_def)

text \<open>With an even number of servers one place of the majority stays at its zero value; with one server there is
  no minority to put the leader in.\<close>

lemma make_partition_single: "cfg_n cfg = 1 \<Longrightarrow> make_partition 0 cfg = Inl IndexOutOfRange"
  by (simp add: make_partition_def set_idx_def)

subsection \<open>The order in which a clerk sees its servers\<close>

text \<open>
  Whatever the random numbers, \<open>random_handles\<close> returns a rearrangement of the ends, so that a clerk has each
  server exactly once.
\<close>

theorem random_handles_permutes: "mset (random_handles js kvh) = mset kvh"
proof -
  let ?f = "\<lambda>i sa. let j = js i mod (i + 1) in sa[i := sa ! j, j := sa ! i]"
  have "length (fold ?f is sa) = length sa \<and> mset (fold ?f is sa) = mset sa" if "\<forall>i\<in>set is. i < length sa" for sa :: "'a list" and "is"
    using that
  proof (induction "is" arbitrary: sa)
    case (Cons i "is")
    have "js i mod (i + 1) \<le> i" using mod_less_divisor [of "i + 1" "js i"] by linarith
    then have "js i mod (i + 1) < length sa" by (rule le_less_trans) (use Cons.prems in simp)
    then have "length (?f i sa) = length sa" "mset (?f i sa) = mset sa" using Cons.prems by (simp_all add: Let_def mset_swap)
    then show ?case using Cons.IH [of "?f i sa"] Cons.prems by simp
  qed simp
  then show ?thesis by (simp add: random_handles_def)
qed

end
