(* ===== verification/ShardKV_Config.thy ===== *)
theory ShardKV_Config
  imports Config_Base ShardKV_Server Go_Strconv
begin

text \<open>
  The test configuration of the sharded key/value service, \<^verbatim>\<open>shardkv/config.go\<close>: three controllers and three groups of
  servers on one network, in which servers have names. The servers and controllers are objects, by address; the
  persisters of the groups are in one store. The packages of the two clerks count their clients in variables of their own.
\<close>

record group =
  g_gid :: int
  g_servers :: "nat option list"
  g_saved :: "nat option list"
  g_endnames :: "string list option list"
  g_mendnames :: "string list option list"

record skv_config =
  cfg_net :: "(string, string) Network"
  nctrlers :: nat
  ctrlerservers :: "nat option list"
  mck :: Ctrler_Server.Clerk
  ngroups :: nat
  cfg_n :: nat
  groups :: "group list"
  clerks :: "nat \<rightharpoonup> string list"
  nextClientId :: int
  cfg_maxraftstate :: int
  skv_objects :: "nat \<Rightarrow> ShardKV"
  sc_objects :: "nat \<Rightarrow> ShardCtrler"
  nobjects :: nat
  nclerks :: nat
  cfg_disk :: "(Op, skvgob) disk"
  ctrlerClients :: int
  skvClients :: int

subsection \<open>Names and ends\<close>

definition ctrlername :: "nat \<Rightarrow> string" where
  "ctrlername i = ''ctrler'' @ Itoa (int i)"

definition servername :: "int \<Rightarrow> nat \<Rightarrow> string" where
  "servername gid i = ''server-'' @ Itoa gid @ ''-'' @ Itoa (int i)"

text \<open>An end that is connected and enabled, as the argument \<open>make_end\<close> of servers and clerks makes it.\<close>

definition make_end :: "string \<Rightarrow> string \<Rightarrow> (string, string) Network \<Rightarrow> (string, string) Network go" where
  "make_end name server rn = gbind (MakeEnd name rn) (\<lambda>(_, rn). Inr (Enable name True (Connect name server rn)))"

definition make_ends :: "(string \<times> string) list \<Rightarrow> (string, string) Network \<Rightarrow> (string, string) Network go" where
  "make_ends = gfold (\<lambda>(name, server). make_end name server)"

definition ctrler_ends :: "(nat \<Rightarrow> string) \<Rightarrow> skv_config \<Rightarrow> skv_config go" where
  "ctrler_ends names cfg =
     gbind (make_ends (zip (map names [0..<nctrlers cfg]) (map ctrlername [0..<nctrlers cfg])) (cfg_net cfg)) (\<lambda>rn.
     Inr (cfg\<lparr>cfg_net := rn\<rparr>))"

subsection \<open>Clients\<close>

text \<open>
  The slice \<open>endnames\<close> of \<open>makeClient\<close> has \<open>cfg.n\<close> places, but the loop runs over the controllers. The clerk asks the
  controller for a configuration before it is returned; \<open>qs\<close> lists the replies, and the clerk is \<open>None\<close> while it still tries.
\<close>

definition clientEnds :: "(nat \<Rightarrow> string) \<Rightarrow> skv_config \<Rightarrow> (string list \<times> (string, string) Network) go" where
  "clientEnds names cfg = gfold (\<lambda>j (endnames, rn).
     gbind (set_idx endnames (int j) (names j)) (\<lambda>endnames.
     gbind (make_end (names j) (ctrlername j) rn) (\<lambda>rn.
     Inr (endnames, rn)))) [0..<nctrlers cfg] (replicate (cfg_n cfg) '''', cfg_net cfg)"

definition makeClient ::
    "(nat \<Rightarrow> string) \<Rightarrow> Ctrler_Server.OpReply option list \<Rightarrow> skv_config \<Rightarrow> ((nat \<times> Clerk) option \<times> skv_config) go" where
  "makeClient names qs cfg =
     gbind (clientEnds names cfg) (\<lambda>(endnames, rn).
     gbind (MakeClerk (nctrlers cfg) qs (ctrlerClients cfg) (skvClients cfg)) (\<lambda>(ck, m, s).
     let cfg = cfg\<lparr>cfg_net := rn, ctrlerClients := m, skvClients := s\<rparr> in
     case ck of
       None \<Rightarrow> Inr (None, cfg)
     | Some ck \<Rightarrow> Inr (Some (nclerks cfg, ck), cfg\<lparr>nclerks := nclerks cfg + 1, clerks := (clerks cfg)(nclerks cfg \<mapsto> endnames),
         nextClientId := nextClientId cfg + 1\<rparr>)))"

text \<open>The names of the ends are no files, so \<open>os.Remove\<close> does nothing.\<close>

definition deleteClient :: "nat \<Rightarrow> skv_config \<Rightarrow> skv_config" where
  "deleteClient ck cfg = cfg\<lparr>clerks := (clerks cfg)(ck := None)\<rparr>"

definition SKV_random_handles :: "(nat \<Rightarrow> nat) \<Rightarrow> 'a list \<Rightarrow> 'a list" where
  "SKV_random_handles js kvh = fold (\<lambda>i sa. let j = js i mod (i + 1) in sa[i := sa ! j, j := sa ! i]) [0..<length kvh] kvh"

subsection \<open>Servers\<close>

definition killMember :: "nat \<Rightarrow> nat \<Rightarrow> group \<Rightarrow> skv_config \<Rightarrow> skv_config go" where
  "killMember gi i gg cfg =
     gbind (idx (g_servers gg) (int i)) (\<lambda>kv. case kv of
       None \<Rightarrow> Inr (cfg\<lparr>groups := (groups cfg)[gi := gg]\<rparr>)
     | Some a \<Rightarrow> Inr (cfg\<lparr>skv_objects := (skv_objects cfg)(a := Kill_skv (skv_objects cfg a)),
         groups := (groups cfg)[gi := gg\<lparr>g_servers := (g_servers gg)[i := None]\<rparr>]\<rparr>))"

definition SKV_ShutdownServer :: "nat \<Rightarrow> nat \<Rightarrow> skv_config \<Rightarrow> skv_config go" where
  "SKV_ShutdownServer gi i cfg =
     gbind (idx (groups cfg) (int gi)) (\<lambda>gg.
     gbind (enableWhere False (\<lambda>_. Inr True) (\<lambda>j. endname (g_endnames gg) i j) [0..<length (g_servers gg)] (cfg_net cfg)) (\<lambda>rn.
     gbind (idx (g_mendnames gg) (int i)) (\<lambda>row.
     gbind (enableWhere False (\<lambda>_. Inr True) (\<lambda>j. endname (g_mendnames gg) i j) [0..<length (case row of None \<Rightarrow> [] | Some names \<Rightarrow> names)] rn) (\<lambda>rn.
     let rn = DeleteServer (servername (g_gid gg) i) rn in
     gbind (copySaved i (g_saved gg, cfg_disk cfg)) (\<lambda>(sv, d).
     killMember gi i (gg\<lparr>g_saved := sv\<rparr>) (cfg\<lparr>cfg_net := rn, cfg_disk := d\<rparr>))))))"

definition ShutdownGroup :: "nat \<Rightarrow> skv_config \<Rightarrow> skv_config go" where
  "ShutdownGroup gi cfg = gfold (\<lambda>i. SKV_ShutdownServer gi i) [0..<cfg_n cfg] cfg"

text \<open>\<open>names\<close> and \<open>mnames\<close> are the random names of the ends to the servers of the group and to the controllers.\<close>

definition SKV_StartServer ::
    "(nat \<Rightarrow> string) \<Rightarrow> (nat \<Rightarrow> string) \<Rightarrow> clock \<Rightarrow> clock \<Rightarrow> nat \<Rightarrow> nat \<Rightarrow> skv_config \<Rightarrow> skv_config go" where
  "SKV_StartServer names mnames clk clk' gi i cfg =
     gbind (idx (groups cfg) (int gi)) (\<lambda>gg.
     let row = map names [0..<cfg_n cfg]; mrow = map mnames [0..<nctrlers cfg] in
     gbind (set_idx (g_endnames gg) (int i) (Some row)) (\<lambda>tab.
     gbind (make_ends (zip row (map (servername (g_gid gg)) [0..<cfg_n cfg])) (cfg_net cfg)) (\<lambda>rn.
     gbind (set_idx (g_mendnames gg) (int i) (Some mrow)) (\<lambda>mtab.
     gbind (make_ends (zip mrow (map ctrlername [0..<nctrlers cfg])) rn) (\<lambda>rn.
     gbind (copyOrMakeSaved i (g_saved gg, cfg_disk cfg)) (\<lambda>(sv, d).
     gbind (idx sv (int i)) (\<lambda>p.
     gbind (StartServer clk clk' (cfg_n cfg) (int i) (cell d (the p)) (cfg_maxraftstate cfg) (g_gid gg) (nctrlers cfg) (ctrlerClients cfg)) (\<lambda>(kv, m).
     gbind (set_idx (g_servers gg) (int i) (Some (nobjects cfg))) (\<lambda>kvs.
     Inr (cfg\<lparr>groups := (groups cfg)[gi := gg\<lparr>g_endnames := tab, g_mendnames := mtab, g_saved := sv, g_servers := kvs\<rparr>],
       cfg_disk := d, skv_objects := (skv_objects cfg)(nobjects cfg := kv), nobjects := nobjects cfg + 1, ctrlerClients := m,
       cfg_net := AddServer (servername (g_gid gg) i) (nobjects cfg) rn\<rparr>))))))))))"

definition StartGroup ::
    "(nat \<Rightarrow> nat \<Rightarrow> string) \<Rightarrow> (nat \<Rightarrow> nat \<Rightarrow> string) \<Rightarrow> clock \<Rightarrow> nat \<Rightarrow> skv_config \<Rightarrow> skv_config go" where
  "StartGroup names mnames clk gi cfg = gfold (\<lambda>i. SKV_StartServer (names i) (mnames i) clk clk gi i) [0..<cfg_n cfg] cfg"

definition StartCtrlerserver :: "(nat \<Rightarrow> string) \<Rightarrow> clock \<Rightarrow> nat \<Rightarrow> skv_config \<Rightarrow> skv_config go" where
  "StartCtrlerserver names clk i cfg =
     gbind (ctrler_ends names cfg) (\<lambda>cfg.
     gbind (Ctrler_Server.StartServer clk clk (nctrlers cfg) (int i) MakePersister) (\<lambda>sc.
     gbind (set_idx (ctrlerservers cfg) (int i) (Some (nobjects cfg))) (\<lambda>ss.
     Inr (cfg\<lparr>ctrlerservers := ss, sc_objects := (sc_objects cfg)(nobjects cfg := sc), nobjects := nobjects cfg + 1,
       cfg_net := AddServer (ctrlername i) (nobjects cfg) (cfg_net cfg)\<rparr>))))"

definition shardclerk :: "(nat \<Rightarrow> string) \<Rightarrow> skv_config \<Rightarrow> (Ctrler_Server.Clerk \<times> skv_config) go" where
  "shardclerk names cfg =
     gbind (ctrler_ends names cfg) (\<lambda>cfg.
     case Ctrler_Server.MakeClerk (nctrlers cfg) (ctrlerClients cfg) of (ck, m) \<Rightarrow> Inr (ck, cfg\<lparr>ctrlerClients := m\<rparr>))"

subsection \<open>Joining and leaving\<close>

text \<open>\<open>rs\<close> lists the replies of the controller, as for the clerk.\<close>

definition joinServers :: "nat list \<Rightarrow> skv_config \<Rightarrow> string list gomap go" where
  "joinServers gis cfg = gfold (\<lambda>g m.
     gbind (idx (groups cfg) (int g)) (\<lambda>gg.
     Inr (AList.update (g_gid gg) (map (servername (g_gid gg)) [0..<cfg_n cfg]) m))) gis []"

definition joinm :: "nat list \<Rightarrow> Ctrler_Server.OpReply option list \<Rightarrow> skv_config \<Rightarrow> (JoinArgs \<times> Config option \<times> skv_config) go" where
  "joinm gis rs cfg =
     gbind (joinServers gis cfg) (\<lambda>m.
     case Clerk_Join m rs (mck cfg) of (args, result) \<Rightarrow>
     gbind result (\<lambda>(c, ck). Inr (args, c, cfg\<lparr>mck := ck\<rparr>)))"

definition join :: "nat \<Rightarrow> Ctrler_Server.OpReply option list \<Rightarrow> skv_config \<Rightarrow> (JoinArgs \<times> Config option \<times> skv_config) go" where
  "join gi = joinm [gi]"

definition leaveGids :: "nat list \<Rightarrow> skv_config \<Rightarrow> int list go" where
  "leaveGids gis cfg = gfold (\<lambda>g gids. gbind (idx (groups cfg) (int g)) (\<lambda>gg. Inr (gids @ [g_gid gg]))) gis []"

definition leavem :: "nat list \<Rightarrow> Ctrler_Server.OpReply option list \<Rightarrow> skv_config \<Rightarrow> (LeaveArgs \<times> Config option \<times> skv_config) go" where
  "leavem gis rs cfg =
     gbind (leaveGids gis cfg) (\<lambda>gids.
     case Clerk_Leave gids rs (mck cfg) of (args, result) \<Rightarrow>
     gbind result (\<lambda>(c, ck). Inr (args, c, cfg\<lparr>mck := ck\<rparr>)))"

definition leave :: "nat \<Rightarrow> Ctrler_Server.OpReply option list \<Rightarrow> skv_config \<Rightarrow> (LeaveArgs \<times> Config option \<times> skv_config) go" where
  "leave gi = leavem [gi]"

subsection \<open>The whole test\<close>

definition SKV_checkTimeout :: "bool \<Rightarrow> bool \<Rightarrow> unit go" where
  "SKV_checkTimeout failed late = (if \<not> failed \<and> late then Inl (TestFatal ''test took longer than 120 seconds'') else Inr ())"

definition killCtrlers :: "skv_config \<Rightarrow> skv_config go" where
  "killCtrlers cfg = gfold (\<lambda>i cfg.
     gbind (idx (ctrlerservers cfg) (int i)) (\<lambda>sc. case sc of
       None \<Rightarrow> Inl NilDereference
     | Some a \<Rightarrow> Inr (cfg\<lparr>sc_objects := (sc_objects cfg)(a := Kill_sc (sc_objects cfg a))\<rparr>))) [0..<nctrlers cfg] cfg"

definition SKV_cleanup :: "bool \<Rightarrow> bool \<Rightarrow> skv_config \<Rightarrow> skv_config go" where
  "SKV_cleanup failed late cfg =
     gbind (gfold ShutdownGroup [0..<ngroups cfg] cfg) (\<lambda>cfg.
     gbind (killCtrlers cfg) (\<lambda>cfg.
     gbind (Cleanup (cfg_net cfg)) (\<lambda>rn.
     gbind (SKV_checkTimeout failed late) (\<lambda>_. Inr (cfg\<lparr>cfg_net := rn\<rparr>)))))"

text \<open>The sizes of the encodings in bytes are arguments.\<close>

definition checklog :: "(Op gobval list \<Rightarrow> int) \<Rightarrow> (skvgob list \<Rightarrow> int) \<Rightarrow> skv_config \<Rightarrow> nat \<Rightarrow> nat \<Rightarrow> unit go" where
  "checklog bytes sbytes cfg gi i =
     gbind (idx (groups cfg) (int gi)) (\<lambda>gg.
     gbind (idx (g_saved gg) (int i)) (\<lambda>p. case p of
       None \<Rightarrow> Inl NilDereference
     | Some a \<Rightarrow>
         (let raft = RaftStateSize bytes (cell (cfg_disk cfg) a); snap = sbytes (ReadSnapshot (cell (cfg_disk cfg) a)) in
          if cfg_maxraftstate cfg \<ge> 0 \<and> raft > 8 * cfg_maxraftstate cfg then
            Inl (TestFatal (''persister.RaftStateSize() '' @ Itoa raft @ '', but maxraftstate '' @ Itoa (cfg_maxraftstate cfg)))
          else if cfg_maxraftstate cfg < 0 \<and> snap > 0 then Inl (TestFatal ''maxraftstate is -1, but snapshot is non-empty!'')
          else Inr ())))"

definition checklogs :: "(Op gobval list \<Rightarrow> int) \<Rightarrow> (skvgob list \<Rightarrow> int) \<Rightarrow> skv_config \<Rightarrow> unit go" where
  "checklogs bytes sbytes cfg =
     gfold (\<lambda>gi _. gfold (\<lambda>i _. checklog bytes sbytes cfg gi i) [0..<cfg_n cfg] ()) [0..<ngroups cfg] ()"

definition SKV_emptyConfig :: "int \<Rightarrow> int \<Rightarrow> int \<Rightarrow> skv_config" where
  "SKV_emptyConfig maxstate m s = \<lparr>cfg_net = MakeNetwork, nctrlers = 3, ctrlerservers = replicate 3 None,
     mck = \<lparr>servers = 0, ck_me = 0, currentLeader = 0, nextOpId = 0\<rparr>, ngroups = 0, cfg_n = 0, groups = [], clerks = Map.empty,
     nextClientId = 0, cfg_maxraftstate = maxstate, skv_objects = (\<lambda>_. undefined), sc_objects = (\<lambda>_. undefined), nobjects = 0, nclerks = 0,
     cfg_disk = \<lparr>cell = (\<lambda>_. MakePersister), used = 0\<rparr>, ctrlerClients = m, skvClients = s\<rparr>"

definition newGroup :: "nat \<Rightarrow> skv_config \<Rightarrow> group" where
  "newGroup gi cfg = \<lparr>g_gid = 100 + int gi, g_servers = replicate (cfg_n cfg) None, g_saved = replicate (cfg_n cfg) None,
     g_endnames = replicate (cfg_n cfg) None, g_mendnames = replicate (nctrlers cfg) None\<rparr>"

text \<open>
  The groups are put into \<open>cfg.groups\<close> one by one; the list grows with them. The random names are those of the ends
  of controller \<open>i\<close> (\<open>cn i\<close>), of the clerk of the controller (\<open>kn\<close>), and of server \<open>i\<close> of group \<open>gi\<close> (\<open>sn gi i\<close> and \<open>mn gi i\<close>).
\<close>

definition SKV_make_config ::
    "(nat \<Rightarrow> nat \<Rightarrow> string) \<Rightarrow> (nat \<Rightarrow> string) \<Rightarrow> (nat \<Rightarrow> nat \<Rightarrow> nat \<Rightarrow> string) \<Rightarrow> (nat \<Rightarrow> nat \<Rightarrow> nat \<Rightarrow> string) \<Rightarrow>
     clock \<Rightarrow> nat \<Rightarrow> bool \<Rightarrow> int \<Rightarrow> int \<Rightarrow> int \<Rightarrow> skv_config go" where
  "SKV_make_config cn kn sn mn clk n unreliable maxstate m s =
     gbind (gfold (\<lambda>i. StartCtrlerserver (cn i) clk i) [0..<3] (SKV_emptyConfig maxstate m s)) (\<lambda>cfg.
     gbind (shardclerk kn cfg) (\<lambda>(ck, cfg).
     let cfg = cfg\<lparr>mck := ck, ngroups := 3, cfg_n := n\<rparr> in
     gbind (gfold (\<lambda>gi cfg. StartGroup (sn gi) (mn gi) clk gi (cfg\<lparr>groups := groups cfg @ [newGroup gi cfg]\<rparr>)) [0..<3] cfg) (\<lambda>cfg.
     Inr (cfg\<lparr>clerks := Map.empty, nextClientId := int n + 1000, cfg_net := Reliable (\<not> unreliable) (cfg_net cfg)\<rparr>))))"

end
