(* ===== verification/ShardKV_Config_Props.thy ===== *)
theory ShardKV_Config_Props
  imports ShardKV_Config Raft_Leader
begin

text \<open>
  What the tests of the sharded service rely on: the servers of all groups and the controllers have names of their
  own, \<open>make_config\<close> connects them all, a shutdown cuts a server off, and a restart keeps its storage. The code works
  for groups of three servers only.
\<close>

subsection \<open>Names\<close>

lemma servername_inj [simp]: "servername gid i = servername gid' i' \<longleftrightarrow> gid = gid' \<and> i = i'"
  using append_dash [OF itoa_no_dash itoa_no_dash, of "''server-'' @ Itoa gid" i "''server-'' @ Itoa gid'" i']
  by (simp add: servername_def Itoa_inj) (simp add: Itoa_def)

lemma ctrlername_inj [simp]: "ctrlername i = ctrlername j \<longleftrightarrow> i = j"
  by (simp add: ctrlername_def Itoa_inj)

lemma ctrler_not_server [simp]: "ctrlername i \<noteq> servername gid j" "servername gid j \<noteq> ctrlername i"
  by (simp_all add: ctrlername_def servername_def)

subsection \<open>New ends\<close>

text \<open>An end that is enabled and leads to a server.\<close>

definition live :: "(string, string) Network \<Rightarrow> string \<Rightarrow> string \<Rightarrow> bool" where
  "live rn e s \<longleftrightarrow> e \<in> dom (ends rn) \<and> isEnabled rn e \<and> connections rn e = Some s"

lemma make_end_fresh:
  assumes "name \<notin> dom (ends rn)"
  shows "\<exists>rn'. make_end name s rn = Inr rn' \<and> dom (ends rn') = insert name (dom (ends rn)) \<and> LabRPC.servers rn' = LabRPC.servers rn \<and>
    (\<forall>e t. live rn' e t = (if e = name then t = s else live rn e t))"
  using assms by (auto simp: make_end_def MakeEnd_def Let_def Connect_def Enable_def live_def isEnabled_def)

lemma make_ends_fresh:
  assumes "distinct (map fst xs)" and "fst ` set xs \<inter> dom (ends rn) = {}"
  shows "\<exists>rn'. make_ends xs rn = Inr rn' \<and> dom (ends rn') = dom (ends rn) \<union> fst ` set xs \<and> LabRPC.servers rn' = LabRPC.servers rn \<and>
    (\<forall>e t. live rn' e t \<longleftrightarrow> (if e \<in> fst ` set xs then (e, t) \<in> set xs else live rn e t))"
  using assms
proof (induction xs arbitrary: rn)
  case Nil
  then show ?case by (simp add: make_ends_def)
next
  case (Cons x xs)
  obtain name s where x: "x = (name, s)" by force
  have new: "name \<notin> dom (ends rn)" "name \<notin> fst ` set xs" using Cons.prems x by auto
  obtain rn1 where rn1: "make_end name s rn = Inr rn1" "dom (ends rn1) = insert name (dom (ends rn))"
    "LabRPC.servers rn1 = LabRPC.servers rn" "\<forall>e t. live rn1 e t = (if e = name then t = s else live rn e t)"
    using make_end_fresh [OF new(1)] by blast
  have "fst ` set xs \<inter> dom (ends rn1) = {}" unfolding rn1(2) using Cons.prems(2) new(2) by auto
  then obtain rn2 where rn2: "make_ends xs rn1 = Inr rn2" "dom (ends rn2) = dom (ends rn1) \<union> fst ` set xs"
    "LabRPC.servers rn2 = LabRPC.servers rn1"
    "\<forall>e t. live rn2 e t \<longleftrightarrow> (if e \<in> fst ` set xs then (e, t) \<in> set xs else live rn1 e t)"
    using Cons.IH [of rn1] Cons.prems(1) by auto
  have "live rn2 e t \<longleftrightarrow> (if e \<in> fst ` set (x # xs) then (e, t) \<in> set (x # xs) else live rn e t)" for e t
  proof (cases "e = name")
    case True
    then have "(e, t) \<notin> set xs" using new(2) by force
    then show ?thesis using True new(2) rn2(4) rn1(4) x by simp
  next
    case False
    then show ?thesis using rn2(4) rn1(4) x by simp
  qed
  then show ?case using rn1(1-3) rn2(1-3) x by (auto simp: make_ends_def)
qed

text \<open>A row of ends, one to each of \<open>n\<close> servers.\<close>

lemma make_row:
  assumes "distinct (map names [0..<n])" and "names ` {..<n} \<inter> dom (ends rn) = {}"
  obtains rn' where "make_ends (zip (map names [0..<n]) (map target [0..<n])) rn = Inr rn'"
    "dom (ends rn') = dom (ends rn) \<union> names ` {..<n}" "LabRPC.servers rn' = LabRPC.servers rn"
    "\<And>j. j < n \<Longrightarrow> live rn' (names j) (target j)" "\<And>e t. live rn e t \<Longrightarrow> live rn' e t"
proof -
  let ?xs = "map (\<lambda>j. (names j, target j)) [0..<n]"
  have z: "zip (map names [0..<n]) (map target [0..<n]) = ?xs" by (rule zip_targets)
  have f: "map fst ?xs = map names [0..<n]" "fst ` set ?xs = names ` {..<n}" by (auto simp: image_image)
  obtain rn' where r: "make_ends ?xs rn = Inr rn'" "dom (ends rn') = dom (ends rn) \<union> names ` {..<n}" "LabRPC.servers rn' = LabRPC.servers rn"
    "\<forall>e t. live rn' e t \<longleftrightarrow> (if e \<in> names ` {..<n} then (e, t) \<in> set ?xs else live rn e t)"
    using make_ends_fresh [of ?xs rn] assms unfolding f by auto
  show thesis
  proof (rule that [OF _ r(2,3)])
    show "make_ends (zip (map names [0..<n]) (map target [0..<n])) rn = Inr rn'" unfolding z by (rule r(1))
    show "live rn' (names j) (target j)" if "j < n" for j using r(4) that by auto
    show "live rn' e t" if "live rn e t" for e t
    proof -
      have "e \<notin> names ` {..<n}" using that assms(2) by (auto simp: live_def)
      then show ?thesis using r(4) that by simp
    qed
  qed
qed

text \<open>A loop each of whose rounds uses new names.\<close>

lemma gfold_names:
  assumes "I 0 s" and "distinct (concat (map nm [0..<m]))" and "set (concat (map nm [0..<m])) \<inter> D s = {}"
    and step: "\<And>k s. k < m \<Longrightarrow> I k s \<Longrightarrow> distinct (nm k) \<Longrightarrow> set (nm k) \<inter> D s = {} \<Longrightarrow>
      \<exists>s'. f k s = Inr s' \<and> I (Suc k) s' \<and> D s' = D s \<union> set (nm k)"
  shows "\<exists>s'. gfold f [0..<m] s = Inr s' \<and> I m s' \<and> D s' = D s \<union> set (concat (map nm [0..<m]))"
proof -
  have "k \<le> m \<Longrightarrow> \<exists>s'. gfold f [0..<k] s = Inr s' \<and> I k s' \<and> D s' = D s \<union> set (concat (map nm [0..<k]))" for k
  proof (induction k)
    case (Suc k)
    then obtain s1 where s1: "gfold f [0..<k] s = Inr s1" "I k s1" "D s1 = D s \<union> set (concat (map nm [0..<k]))" by auto
    have split: "concat (map nm [0..<m]) = concat (map nm [0..<k]) @ nm k @ concat (map nm [Suc k..<m])"
      using Suc.prems upt_add_eq_append [of 0 k "m - k"] upt_conv_Cons [of k m] by simp
    have "distinct (nm k)" "set (nm k) \<inter> D s1 = {}" using assms(2,3) unfolding split s1(3) by auto
    then obtain s2 where "f k s1 = Inr s2" "I (Suc k) s2" "D s2 = D s1 \<union> set (nm k)"
      using step [OF _ s1(2)] Suc.prems by auto
    then show ?case using s1 by auto
  qed (use assms(1) in simp)
  then show ?thesis by blast
qed

subsection \<open>Running servers\<close>

text \<open>Server \<open>i\<close> of a group runs and has live ends to the servers of its group and to the controllers.\<close>

definition member_up :: "(string, string) Network \<Rightarrow> nat \<Rightarrow> nat \<Rightarrow> group \<Rightarrow> nat \<Rightarrow> bool" where
  "member_up rn n c gg i \<longleftrightarrow>
     (\<exists>a. g_servers gg ! i = Some a \<and> LabRPC.servers rn (servername (g_gid gg) i) = Some a) \<and>
     (\<exists>row. g_endnames gg ! i = Some row \<and> length row = n \<and> (\<forall>j<n. live rn (row ! j) (servername (g_gid gg) j))) \<and>
     (\<exists>row. g_mendnames gg ! i = Some row \<and> length row = c \<and> (\<forall>j<c. live rn (row ! j) (ctrlername j)))"

text \<open>The first \<open>k\<close> servers of a group run, and the others have never been started.\<close>

definition group_up :: "(string, string) Network \<Rightarrow> nat \<Rightarrow> nat \<Rightarrow> nat \<Rightarrow> group \<Rightarrow> nat \<Rightarrow> bool" where
  "group_up rn n c gi gg k \<longleftrightarrow> g_gid gg = 100 + int gi \<and> length (g_servers gg) = n \<and> length (g_saved gg) = n \<and>
     length (g_endnames gg) = n \<and> length (g_mendnames gg) = c \<and> (\<forall>i<k. member_up rn n c gg i) \<and> (\<forall>i<n. k \<le> i \<longrightarrow> g_saved gg ! i = None)"

text \<open>What a network keeps while servers with other names are added.\<close>

definition keeps :: "(string \<Rightarrow> bool) \<Rightarrow> (string, string) Network \<Rightarrow> (string, string) Network \<Rightarrow> bool" where
  "keeps other rn rn' \<longleftrightarrow> (\<forall>e t. live rn e t \<longrightarrow> live rn' e t) \<and> (\<forall>s. other s \<longrightarrow> LabRPC.servers rn' s = LabRPC.servers rn s)"

lemma member_up_keeps: "keeps other rn rn' \<Longrightarrow> other (servername (g_gid gg) i) \<Longrightarrow> member_up rn n c gg i \<Longrightarrow> member_up rn' n c gg i"
  unfolding keeps_def member_up_def by metis

lemma group_up_keeps:
  assumes "keeps other rn rn'" and "\<And>i. other (servername (100 + int gi) i)" and "group_up rn n c gi gg k"
  shows "group_up rn' n c gi gg k"
  using assms(2,3) member_up_keeps [OF assms(1)] by (auto simp: group_up_def)

lemma init_fresh: "\<exists>kv m'. StartServer clk clk' n m MakePersister mx gid c k = Inr (kv, m')"
proof -
  obtain rf where "initL clk clk' n m (MakePersister :: (Op, skvgob) Persister) = Inr rf"
    using initL_fresh [of "MakePersister :: (Op, skvgob) Persister" clk clk' n m] by (auto simp: ReadRaftState_def MakePersister_def)
  then show ?thesis by (simp add: ShardKV_Server.StartServer_def init_def Make_def Ctrler_Server.MakeClerk_def Let_def)
qed

lemma live_AddServer [simp]: "live (AddServer s a rn) e t = live rn e t" "ends (AddServer s a rn) = ends rn"
  "LabRPC.servers (AddServer s a rn) = (LabRPC.servers rn)(s \<mapsto> a)"
  by (simp_all add: live_def AddServer_def isEnabled_def)

text \<open>The fields that the start of a server leaves alone.\<close>

definition same_setup :: "skv_config \<Rightarrow> skv_config \<Rightarrow> bool" where
  "same_setup cfg cfg' \<longleftrightarrow> cfg_n cfg' = cfg_n cfg \<and> nctrlers cfg' = nctrlers cfg \<and> ngroups cfg' = ngroups cfg \<and>
     ctrlerservers cfg' = ctrlerservers cfg \<and> mck cfg' = mck cfg"

lemma start_member:
  assumes gi: "gi < length (groups cfg)" and up: "group_up (cfg_net cfg) (cfg_n cfg) (nctrlers cfg) gi (groups cfg ! gi) k"
    and k: "k < cfg_n cfg" "k < nctrlers cfg"
    and dist: "distinct (map names [0..<cfg_n cfg] @ map mnames [0..<nctrlers cfg])"
    and new: "set (map names [0..<cfg_n cfg] @ map mnames [0..<nctrlers cfg]) \<inter> dom (ends (cfg_net cfg)) = {}"
  shows "\<exists>cfg' gg'. SKV_StartServer names mnames clk clk' gi k cfg = Inr cfg' \<and> same_setup cfg cfg' \<and> groups cfg' = (groups cfg)[gi := gg'] \<and>
    group_up (cfg_net cfg') (cfg_n cfg) (nctrlers cfg) gi gg' (Suc k) \<and> keeps (\<lambda>s. s \<noteq> servername (100 + int gi) k) (cfg_net cfg) (cfg_net cfg') \<and>
    dom (ends (cfg_net cfg')) = dom (ends (cfg_net cfg)) \<union> set (map names [0..<cfg_n cfg] @ map mnames [0..<nctrlers cfg])"
proof -
  let ?gg = "groups cfg ! gi" and ?n = "cfg_n cfg" and ?c = "nctrlers cfg"
  note U = up [unfolded group_up_def]
  have dn: "distinct (map names [0..<?n])" "distinct (map mnames [0..<?c])" "names ` {..<?n} \<inter> mnames ` {..<?c} = {}"
    using dist by (auto simp: atLeast0LessThan)
  have nn: "names ` {..<?n} \<inter> dom (ends (cfg_net cfg)) = {}" "mnames ` {..<?c} \<inter> dom (ends (cfg_net cfg)) = {}"
    using new by (auto simp: atLeast0LessThan)
  obtain rn1 where r1: "make_ends (zip (map names [0..<?n]) (map (servername (g_gid ?gg)) [0..<?n])) (cfg_net cfg) = Inr rn1"
    "dom (ends rn1) = dom (ends (cfg_net cfg)) \<union> names ` {..<?n}" "LabRPC.servers rn1 = LabRPC.servers (cfg_net cfg)"
    "\<And>j. j < ?n \<Longrightarrow> live rn1 (names j) (servername (g_gid ?gg) j)" "\<And>e t. live (cfg_net cfg) e t \<Longrightarrow> live rn1 e t"
    by (rule make_row [OF dn(1) nn(1), of "servername (g_gid ?gg)"]) blast
  have "mnames ` {..<?c} \<inter> dom (ends rn1) = {}" unfolding r1(2) using dn(3) nn(2) by auto
  then obtain rn2 where r2: "make_ends (zip (map mnames [0..<?c]) (map ctrlername [0..<?c])) rn1 = Inr rn2"
    "dom (ends rn2) = dom (ends rn1) \<union> mnames ` {..<?c}" "LabRPC.servers rn2 = LabRPC.servers rn1"
    "\<And>j. j < ?c \<Longrightarrow> live rn2 (mnames j) (ctrlername j)" "\<And>e t. live rn1 e t \<Longrightarrow> live rn2 e t"
    by (rule make_row [OF dn(2), of rn1 ctrlername]) blast
  have sv: "copyOrMakeSaved k (g_saved ?gg, cfg_disk cfg) = Inr ((g_saved ?gg)[k := Some (used (cfg_disk cfg))],
      \<lparr>cell = (cell (cfg_disk cfg))(used (cfg_disk cfg) := MakePersister), used = used (cfg_disk cfg) + 1\<rparr>)"
    using U k by (simp add: copyOrMakeSaved_def newPersister_def idx_def)
  obtain kv m where kv: "StartServer clk clk' ?n (int k) MakePersister (cfg_maxraftstate cfg) (g_gid ?gg) ?c (ctrlerClients cfg) = Inr (kv, m)"
    using init_fresh by blast
  let ?gg' = "?gg\<lparr>g_endnames := (g_endnames ?gg)[k := Some (map names [0..<?n])], g_mendnames := (g_mendnames ?gg)[k := Some (map mnames [0..<?c])],
      g_saved := (g_saved ?gg)[k := Some (used (cfg_disk cfg))], g_servers := (g_servers ?gg)[k := Some (nobjects cfg)]\<rparr>"
  let ?rn = "AddServer (servername (g_gid ?gg) k) (nobjects cfg) rn2"
  obtain cfg' where c: "SKV_StartServer names mnames clk clk' gi k cfg = Inr cfg'" "groups cfg' = (groups cfg)[gi := ?gg']"
    "cfg_net cfg' = ?rn" "same_setup cfg cfg'"
    using r1(1) r2(1) sv kv U k gi by (simp add: SKV_StartServer_def set_idx_def idx_def same_setup_def)
  have kp: "keeps (\<lambda>s. s \<noteq> servername (100 + int gi) k) (cfg_net cfg) ?rn"
    using r1(3,5) r2(3,5) U by (simp add: keeps_def)
  have "member_up ?rn ?n ?c ?gg i" if "i < k" for i
    using member_up_keeps [OF kp, of ?gg i] U that by simp
  then have old: "member_up ?rn ?n ?c ?gg' i" if "i < k" for i using that by (simp add: member_up_def)
  have "member_up ?rn ?n ?c ?gg' k" using U k r1(4) r2(4,5) by (simp add: member_up_def)
  then have "group_up ?rn ?n ?c gi ?gg' (Suc k)" using U old by (auto simp: group_up_def less_Suc_eq nth_list_update)
  moreover have "dom (ends ?rn) = dom (ends (cfg_net cfg)) \<union> set (map names [0..<?n] @ map mnames [0..<?c])"
    using r1(2) r2(2) by (auto simp: atLeast0LessThan simp del: domIff)
  ultimately show ?thesis using c kp by (intro exI [of _ cfg'] exI [of _ ?gg']) simp
qed

subsection \<open>A whole configuration\<close>

text \<open>The names that the start of a group uses.\<close>

definition groupNames :: "(nat \<Rightarrow> nat \<Rightarrow> string) \<Rightarrow> (nat \<Rightarrow> nat \<Rightarrow> string) \<Rightarrow> nat \<Rightarrow> nat \<Rightarrow> string list" where
  "groupNames names mnames n c = concat (map (\<lambda>i. map (names i) [0..<n] @ map (mnames i) [0..<c]) [0..<n])"

lemma same_setup_trans: "same_setup a b \<Longrightarrow> same_setup b c \<Longrightarrow> same_setup a c"
  by (simp add: same_setup_def)

lemma keeps_trans: "keeps P a b \<Longrightarrow> keeps P b c \<Longrightarrow> keeps P a c"
  by (simp add: keeps_def)

lemma keeps_mono: "keeps P a b \<Longrightarrow> (\<And>s. Q s \<Longrightarrow> P s) \<Longrightarrow> keeps Q a b"
  by (simp add: keeps_def)

text \<open>The state of the loop over the servers of a group, when \<open>k\<close> of them have been started.\<close>

definition members_started :: "skv_config \<Rightarrow> nat \<Rightarrow> nat \<Rightarrow> skv_config \<Rightarrow> bool" where
  "members_started cfg gi k cfg' \<longleftrightarrow> same_setup cfg cfg' \<and>
     (\<exists>gg. groups cfg' = (groups cfg)[gi := gg] \<and> group_up (cfg_net cfg') (cfg_n cfg) (nctrlers cfg) gi gg k) \<and>
     keeps (\<lambda>s. \<forall>i. s \<noteq> servername (100 + int gi) i) (cfg_net cfg) (cfg_net cfg')"

lemma members_started_step:
  assumes "members_started cfg gi k s" and "gi < length (groups cfg)" and "k < cfg_n cfg" and "k < nctrlers cfg"
    and "distinct (map names [0..<cfg_n cfg] @ map mnames [0..<nctrlers cfg])"
    and "set (map names [0..<cfg_n cfg] @ map mnames [0..<nctrlers cfg]) \<inter> dom (ends (cfg_net s)) = {}"
  shows "\<exists>s'. SKV_StartServer names mnames clk clk gi k s = Inr s' \<and> members_started cfg gi (Suc k) s' \<and>
    dom (ends (cfg_net s')) = dom (ends (cfg_net s)) \<union> set (map names [0..<cfg_n cfg] @ map mnames [0..<nctrlers cfg])"
proof -
  obtain gg where gg: "groups s = (groups cfg)[gi := gg]" "group_up (cfg_net s) (cfg_n cfg) (nctrlers cfg) gi gg k"
    and set: "same_setup cfg s" and kp: "keeps (\<lambda>s. \<forall>i. s \<noteq> servername (100 + int gi) i) (cfg_net cfg) (cfg_net s)"
    using assms(1) by (auto simp: members_started_def)
  have n: "cfg_n s = cfg_n cfg" "nctrlers s = nctrlers cfg" using set by (simp_all add: same_setup_def)
  have g: "gi < length (groups s)" "groups s ! gi = gg" using gg(1) assms(2) by simp_all
  obtain s' gg' where s': "SKV_StartServer names mnames clk clk gi k s = Inr s'" "same_setup s s'" "groups s' = (groups s)[gi := gg']"
    "group_up (cfg_net s') (cfg_n cfg) (nctrlers cfg) gi gg' (Suc k)"
    "keeps (\<lambda>t. t \<noteq> servername (100 + int gi) k) (cfg_net s) (cfg_net s')"
    "dom (ends (cfg_net s')) = dom (ends (cfg_net s)) \<union> set (map names [0..<cfg_n cfg] @ map mnames [0..<nctrlers cfg])"
    using start_member [OF g(1), of k names mnames clk clk] gg(2) assms(3-6) unfolding g(2) n by blast
  have "keeps (\<lambda>s. \<forall>i. s \<noteq> servername (100 + int gi) i) (cfg_net cfg) (cfg_net s')"
    using keeps_trans [OF kp keeps_mono [OF s'(5)]] by blast
  moreover have "groups s' = (groups cfg)[gi := gg']" using s'(3) gg(1) by simp
  ultimately have "members_started cfg gi (Suc k) s'"
    unfolding members_started_def using same_setup_trans [OF set s'(2)] s'(4) by blast
  then show ?thesis using s'(1,6) by blast
qed

lemma start_members:
  assumes "gi < length (groups cfg)" and "group_up (cfg_net cfg) (cfg_n cfg) (nctrlers cfg) gi (groups cfg ! gi) 0"
    and "m \<le> cfg_n cfg" and "m \<le> nctrlers cfg" and "distinct (groupNames names mnames (cfg_n cfg) (nctrlers cfg))"
    and "set (groupNames names mnames (cfg_n cfg) (nctrlers cfg)) \<inter> dom (ends (cfg_net cfg)) = {}"
  shows "\<exists>cfg'. gfold (\<lambda>i. SKV_StartServer (names i) (mnames i) clk clk gi i) [0..<m] cfg = Inr cfg' \<and> members_started cfg gi m cfg' \<and>
    dom (ends (cfg_net cfg')) = dom (ends (cfg_net cfg)) \<union> set (concat (map (\<lambda>i. map (names i) [0..<cfg_n cfg] @ map (mnames i) [0..<nctrlers cfg]) [0..<m]))"
proof -
  let ?nm = "\<lambda>i. map (names i) [0..<cfg_n cfg] @ map (mnames i) [0..<nctrlers cfg]"
  have sub: "groupNames names mnames (cfg_n cfg) (nctrlers cfg) = concat (map ?nm [0..<m]) @ concat (map ?nm [m..<cfg_n cfg])"
    unfolding groupNames_def using assms(3) upt_add_eq_append [of 0 m "cfg_n cfg - m"] by simp
  have start: "members_started cfg gi 0 cfg"
    using assms(2) by (auto simp: members_started_def same_setup_def keeps_def intro!: exI [of _ "groups cfg ! gi"])
  show ?thesis
  proof (rule gfold_names [where I = "members_started cfg gi" and D = "\<lambda>s. dom (ends (cfg_net s))" and nm = ?nm, OF start])
    show "distinct (concat (map ?nm [0..<m]))" "set (concat (map ?nm [0..<m])) \<inter> dom (ends (cfg_net cfg)) = {}"
      using assms(5,6) unfolding sub by auto
    show "\<exists>s'. SKV_StartServer (names k) (mnames k) clk clk gi k s = Inr s' \<and> members_started cfg gi (Suc k) s' \<and>
        dom (ends (cfg_net s')) = dom (ends (cfg_net s)) \<union> set (?nm k)"
      if "k < m" "members_started cfg gi k s" "distinct (?nm k)" "set (?nm k) \<inter> dom (ends (cfg_net s)) = {}" for k s
      using members_started_step [OF that(2) assms(1)] that assms(3,4) by auto
  qed
qed

text \<open>The state of the loop over the groups, when \<open>k\<close> of them run.\<close>

definition groups_started :: "skv_config \<Rightarrow> nat \<Rightarrow> skv_config \<Rightarrow> bool" where
  "groups_started cfg k cfg' \<longleftrightarrow> same_setup cfg cfg' \<and> length (groups cfg') = k \<and>
     (\<forall>gi<k. group_up (cfg_net cfg') (cfg_n cfg) (nctrlers cfg) gi (groups cfg' ! gi) (cfg_n cfg)) \<and>
     keeps (\<lambda>s. \<forall>gid i. s \<noteq> servername gid i) (cfg_net cfg) (cfg_net cfg')"

lemma newGroup_up: "cfg_n cfg = n \<Longrightarrow> nctrlers cfg = c \<Longrightarrow> group_up rn n c gi (newGroup gi cfg) 0"
  by (simp add: group_up_def newGroup_def)

lemma groups_started_step:
  assumes "groups_started cfg k s" and "cfg_n cfg \<le> nctrlers cfg"
    and "distinct (groupNames names mnames (cfg_n cfg) (nctrlers cfg))"
    and "set (groupNames names mnames (cfg_n cfg) (nctrlers cfg)) \<inter> dom (ends (cfg_net s)) = {}"
  shows "\<exists>s'. StartGroup names mnames clk k (s\<lparr>groups := groups s @ [newGroup k s]\<rparr>) = Inr s' \<and> groups_started cfg (Suc k) s' \<and>
    dom (ends (cfg_net s')) = dom (ends (cfg_net s)) \<union> set (groupNames names mnames (cfg_n cfg) (nctrlers cfg))"
proof -
  note G = assms(1) [unfolded groups_started_def]
  let ?s = "s\<lparr>groups := groups s @ [newGroup k s]\<rparr>"
  have n: "cfg_n s = cfg_n cfg" "nctrlers s = nctrlers cfg" "length (groups s) = k" using G by (simp_all add: same_setup_def)
  have up: "group_up (cfg_net ?s) (cfg_n ?s) (nctrlers ?s) k (groups ?s ! k) 0" using n newGroup_up [of s] by (simp add: nth_append)
  have k: "k < length (groups ?s)" using n by simp
  obtain s' where s': "StartGroup names mnames clk k ?s = Inr s'" "members_started ?s k (cfg_n cfg) s'"
    "dom (ends (cfg_net s')) = dom (ends (cfg_net s)) \<union> set (groupNames names mnames (cfg_n cfg) (nctrlers cfg))"
    using start_members [OF k up, of "cfg_n cfg" names mnames clk] n assms(2-4) by (auto simp: StartGroup_def groupNames_def)
  obtain gg where gg: "groups s' = groups s @ [gg]" "group_up (cfg_net s') (cfg_n cfg) (nctrlers cfg) k gg (cfg_n cfg)"
    and kp: "keeps (\<lambda>t. \<forall>i. t \<noteq> servername (100 + int k) i) (cfg_net s) (cfg_net s')" and set: "same_setup s s'"
    using s'(2) n by (auto simp: members_started_def same_setup_def)
  have "group_up (cfg_net s') (cfg_n cfg) (nctrlers cfg) gi (groups s' ! gi) (cfg_n cfg)" if "gi < Suc k" for gi
  proof (cases "gi = k")
    case True
    then show ?thesis using gg n(3) by (simp add: nth_append)
  next
    case False
    then have "group_up (cfg_net s) (cfg_n cfg) (nctrlers cfg) gi (groups s ! gi) (cfg_n cfg)" using G that by simp
    then have "group_up (cfg_net s') (cfg_n cfg) (nctrlers cfg) gi (groups s ! gi) (cfg_n cfg)"
      using False by (intro group_up_keeps [OF kp]) simp_all
    then show ?thesis using False that n(3) gg(1) by (simp add: nth_append)
  qed
  moreover have "keeps (\<lambda>t. \<forall>gid i. t \<noteq> servername gid i) (cfg_net cfg) (cfg_net s')"
    using keeps_trans [OF _ keeps_mono [OF kp]] G by blast
  moreover have "same_setup cfg s'" using same_setup_trans [OF _ set] G by blast
  ultimately have "groups_started cfg (Suc k) s'" using gg(1) n(3) by (simp add: groups_started_def)
  then show ?thesis using s'(1,3) by blast
qed

text \<open>The first \<open>k\<close> controllers run.\<close>

definition ctrlers_started :: "skv_config \<Rightarrow> nat \<Rightarrow> skv_config \<Rightarrow> bool" where
  "ctrlers_started cfg k cfg' \<longleftrightarrow> nctrlers cfg' = nctrlers cfg \<and> groups cfg' = groups cfg \<and> length (ctrlerservers cfg') = nctrlers cfg \<and>
     (\<forall>i<k. \<exists>a. ctrlerservers cfg' ! i = Some a \<and> LabRPC.servers (cfg_net cfg') (ctrlername i) = Some a)"

lemma ctrler_ends_fresh:
  assumes "distinct (map names [0..<nctrlers cfg])" and "set (map names [0..<nctrlers cfg]) \<inter> dom (ends (cfg_net cfg)) = {}"
  shows "\<exists>rn. ctrler_ends names cfg = Inr (cfg\<lparr>cfg_net := rn\<rparr>) \<and> LabRPC.servers rn = LabRPC.servers (cfg_net cfg) \<and>
    dom (ends rn) = dom (ends (cfg_net cfg)) \<union> set (map names [0..<nctrlers cfg])"
proof -
  have "names ` {..<nctrlers cfg} \<inter> dom (ends (cfg_net cfg)) = {}" using assms(2) by (auto simp: atLeast0LessThan)
  then obtain rn where "make_ends (zip (map names [0..<nctrlers cfg]) (map ctrlername [0..<nctrlers cfg])) (cfg_net cfg) = Inr rn"
    "dom (ends rn) = dom (ends (cfg_net cfg)) \<union> names ` {..<nctrlers cfg}" "LabRPC.servers rn = LabRPC.servers (cfg_net cfg)"
    by (rule make_row [OF assms(1), of "cfg_net cfg" ctrlername]) blast
  then show ?thesis by (intro exI [of _ rn]) (simp add: ctrler_ends_def atLeast0LessThan)
qed

lemma ctrlers_started_step:
  assumes "ctrlers_started cfg k s" and "k < nctrlers cfg" and "distinct (map names [0..<nctrlers cfg])"
    and "set (map names [0..<nctrlers cfg]) \<inter> dom (ends (cfg_net s)) = {}"
  shows "\<exists>s'. StartCtrlerserver names clk k s = Inr s' \<and> ctrlers_started cfg (Suc k) s' \<and>
    dom (ends (cfg_net s')) = dom (ends (cfg_net s)) \<union> set (map names [0..<nctrlers cfg])"
proof -
  note C = assms(1) [unfolded ctrlers_started_def]
  then obtain rn where rn: "ctrler_ends names s = Inr (s\<lparr>cfg_net := rn\<rparr>)" "LabRPC.servers rn = LabRPC.servers (cfg_net s)"
    "dom (ends rn) = dom (ends (cfg_net s)) \<union> set (map names [0..<nctrlers cfg])"
    using ctrler_ends_fresh [of names s] assms(3,4) by auto
  obtain sc where sc: "Ctrler_Server.StartServer clk clk (nctrlers s) (int k) MakePersister = Inr sc"
    using initL_fresh [of "MakePersister :: (Ctrler_Server.Op, unit) Persister" clk clk "nctrlers s" "int k"]
    by (auto simp: Ctrler_Server.StartServer_def Make_def ReadRaftState_def MakePersister_def)
  let ?s = "s\<lparr>cfg_net := AddServer (ctrlername k) (nobjects s) rn, ctrlerservers := (ctrlerservers s)[k := Some (nobjects s)],
      sc_objects := (sc_objects s)(nobjects s := sc), nobjects := nobjects s + 1\<rparr>"
  have "StartCtrlerserver names clk k s = Inr ?s"
    using rn(1) sc C assms(2) by (simp add: StartCtrlerserver_def set_idx_def)
  moreover have "ctrlers_started cfg (Suc k) ?s"
    using C assms(2) rn(2) by (auto simp: ctrlers_started_def less_Suc_eq nth_list_update)
  ultimately show ?thesis using rn(3) by (intro exI [of _ ?s]) simp
qed

text \<open>All random names of a test, in the order in which they are drawn.\<close>

definition ctrlerNames :: "(nat \<Rightarrow> nat \<Rightarrow> string) \<Rightarrow> string list" where
  "ctrlerNames cn = concat (map (\<lambda>i. map (cn i) [0..<3]) [0..<3])"

definition allNames ::
    "(nat \<Rightarrow> nat \<Rightarrow> string) \<Rightarrow> (nat \<Rightarrow> string) \<Rightarrow> (nat \<Rightarrow> nat \<Rightarrow> nat \<Rightarrow> string) \<Rightarrow> (nat \<Rightarrow> nat \<Rightarrow> nat \<Rightarrow> string) \<Rightarrow> nat \<Rightarrow> string list" where
  "allNames cn kn sn mn n = ctrlerNames cn @ map kn [0..<3] @ concat (map (\<lambda>gi. groupNames (sn gi) (mn gi) n 3) [0..<3])"

text \<open>What \<open>make_config\<close> has done when it comes to the groups.\<close>

lemma make_ctrlers:
  assumes "distinct (allNames cn kn sn mn n)"
  obtains cfg where
    "SKV_make_config cn kn sn mn clk n unreliable maxstate m s =
       gbind (gfold (\<lambda>gi cfg. StartGroup (sn gi) (mn gi) clk gi (cfg\<lparr>groups := groups cfg @ [newGroup gi cfg]\<rparr>)) [0..<3] cfg) (\<lambda>cfg.
       Inr (cfg\<lparr>clerks := Map.empty, nextClientId := int n + 1000, cfg_net := Reliable (\<not> unreliable) (cfg_net cfg)\<rparr>))"
    "cfg_n cfg = n" "nctrlers cfg = 3" "groups cfg = []" "ngroups cfg = 3"
    "\<And>i. i < 3 \<Longrightarrow> \<exists>a. ctrlerservers cfg ! i = Some a \<and> LabRPC.servers (cfg_net cfg) (ctrlername i) = Some a"
    "dom (ends (cfg_net cfg)) = set (ctrlerNames cn @ map kn [0..<3])"
proof -
  let ?e = "SKV_emptyConfig maxstate m s"
  have e: "nctrlers ?e = 3" "dom (ends (cfg_net ?e)) = {}" by (simp_all add: SKV_emptyConfig_def MakeNetwork_def)
  have d: "distinct (ctrlerNames cn)" "distinct (map kn [0..<3])" "set (map kn [0..<3]) \<inter> set (ctrlerNames cn) = {}"
    using assms by (auto simp: allNames_def)
  have "ctrlers_started ?e 0 ?e" by (simp add: ctrlers_started_def SKV_emptyConfig_def)
  then have "\<exists>s'. gfold (\<lambda>i. StartCtrlerserver (cn i) clk i) [0..<3] ?e = Inr s' \<and> ctrlers_started ?e 3 s' \<and>
      dom (ends (cfg_net s')) = dom (ends (cfg_net ?e)) \<union> set (concat (map (\<lambda>i. map (cn i) [0..<3]) [0..<3]))"
  proof (rule gfold_names)
    show "distinct (concat (map (\<lambda>i. map (cn i) [0..<3]) [0..<3]))" using d(1) unfolding ctrlerNames_def .
  next
    fix k t
    assume "k < 3" "ctrlers_started ?e k t" "distinct (map (cn k) [0..<3])" "set (map (cn k) [0..<3]) \<inter> dom (ends (cfg_net t)) = {}"
    then show "\<exists>s'. StartCtrlerserver (cn k) clk k t = Inr s' \<and> ctrlers_started ?e (Suc k) s' \<and>
        dom (ends (cfg_net s')) = dom (ends (cfg_net t)) \<union> set (map (cn k) [0..<3])"
      using ctrlers_started_step [of ?e k t "cn k" clk] e(1) by simp
  qed (use e(2) in simp)
  then obtain c1 where c1: "gfold (\<lambda>i. StartCtrlerserver (cn i) clk i) [0..<3] ?e = Inr c1" "ctrlers_started ?e 3 c1"
    "dom (ends (cfg_net c1)) = set (ctrlerNames cn)" unfolding e(2) ctrlerNames_def by auto
  have n1: "nctrlers c1 = 3" "groups c1 = []" using c1(2) e(1) by (simp_all add: ctrlers_started_def) (simp add: SKV_emptyConfig_def)
  then obtain rn where rn: "ctrler_ends kn c1 = Inr (c1\<lparr>cfg_net := rn\<rparr>)" "LabRPC.servers rn = LabRPC.servers (cfg_net c1)"
    "dom (ends rn) = set (ctrlerNames cn @ map kn [0..<3])"
    using ctrler_ends_fresh [of kn c1] d(2,3) unfolding c1(3) by auto
  obtain ck m' where ck: "Ctrler_Server.MakeClerk 3 (ctrlerClients c1) = (ck, m')" by force
  show thesis
  proof (rule that [of "c1\<lparr>cfg_net := rn, ctrlerClients := m', mck := ck, ngroups := 3, cfg_n := n\<rparr>"])
    show "\<exists>a. ctrlerservers (c1\<lparr>cfg_net := rn, ctrlerClients := m', mck := ck, ngroups := 3, cfg_n := n\<rparr>) ! i = Some a \<and>
        LabRPC.servers (cfg_net (c1\<lparr>cfg_net := rn, ctrlerClients := m', mck := ck, ngroups := 3, cfg_n := n\<rparr>)) (ctrlername i) = Some a"
      if "i < 3" for i using c1(2) that rn(2) by (simp add: ctrlers_started_def)
  qed (simp_all add: SKV_make_config_def shardclerk_def c1(1) rn n1 ck Let_def)
qed

lemma make_groups:
  assumes "cfg_n cfg \<le> nctrlers cfg" and "groups cfg = []"
    and "distinct (concat (map (\<lambda>gi. groupNames (sn gi) (mn gi) (cfg_n cfg) (nctrlers cfg)) [0..<k]))"
    and "set (concat (map (\<lambda>gi. groupNames (sn gi) (mn gi) (cfg_n cfg) (nctrlers cfg)) [0..<k])) \<inter> dom (ends (cfg_net cfg)) = {}"
  shows "\<exists>cfg'. gfold (\<lambda>gi cfg. StartGroup (sn gi) (mn gi) clk gi (cfg\<lparr>groups := groups cfg @ [newGroup gi cfg]\<rparr>)) [0..<k] cfg = Inr cfg' \<and>
    groups_started cfg k cfg' \<and>
    dom (ends (cfg_net cfg')) = dom (ends (cfg_net cfg)) \<union> set (concat (map (\<lambda>gi. groupNames (sn gi) (mn gi) (cfg_n cfg) (nctrlers cfg)) [0..<k]))"
proof (rule gfold_names [where I = "groups_started cfg"])
  show "groups_started cfg 0 cfg" using assms(2) by (simp add: groups_started_def same_setup_def keeps_def)
  show "\<exists>s'. StartGroup (sn j) (mn j) clk j (s\<lparr>groups := groups s @ [newGroup j s]\<rparr>) = Inr s' \<and> groups_started cfg (Suc j) s' \<and>
      dom (ends (cfg_net s')) = dom (ends (cfg_net s)) \<union> set (groupNames (sn j) (mn j) (cfg_n cfg) (nctrlers cfg))"
    if "groups_started cfg j s" "distinct (groupNames (sn j) (mn j) (cfg_n cfg) (nctrlers cfg))"
      "set (groupNames (sn j) (mn j) (cfg_n cfg) (nctrlers cfg)) \<inter> dom (ends (cfg_net s)) = {}" for j s
    using groups_started_step [OF that(1) assms(1) that(2,3)] .
qed (use assms(3,4) in simp_all)

lemma Reliable_sel [simp]: "live (Reliable b rn) e t = live rn e t" "LabRPC.servers (Reliable b rn) = LabRPC.servers rn"
  by (simp_all add: live_def Reliable_def isEnabled_def)

lemma member_up_Reliable [simp]: "member_up (Reliable b rn) n c gg i = member_up rn n c gg i"
  by (simp add: member_up_def)

lemma skv_make_config_spec:
  assumes "n \<le> 3" and "distinct (allNames cn kn sn mn n)"
  shows "\<exists>cfg. SKV_make_config cn kn sn mn clk n unreliable maxstate m s = Inr cfg \<and> cfg_n cfg = n \<and> nctrlers cfg = 3 \<and> ngroups cfg = 3 \<and>
    length (groups cfg) = 3 \<and> (\<forall>gi<3. group_up (cfg_net cfg) n 3 gi (groups cfg ! gi) n) \<and>
    (\<forall>i<3. \<exists>a. ctrlerservers cfg ! i = Some a \<and> LabRPC.servers (cfg_net cfg) (ctrlername i) = Some a)"
proof -
  let ?make = "\<lambda>cfg. gfold (\<lambda>gi cfg. StartGroup (sn gi) (mn gi) clk gi (cfg\<lparr>groups := groups cfg @ [newGroup gi cfg]\<rparr>)) [0..<3] cfg"
  obtain c where c: "SKV_make_config cn kn sn mn clk n unreliable maxstate m s =
       gbind (?make c) (\<lambda>cfg. Inr (cfg\<lparr>clerks := Map.empty, nextClientId := int n + 1000, cfg_net := Reliable (\<not> unreliable) (cfg_net cfg)\<rparr>))"
    "cfg_n c = n" "nctrlers c = 3" "groups c = []" "ngroups c = 3"
    "\<And>i. i < 3 \<Longrightarrow> \<exists>a. ctrlerservers c ! i = Some a \<and> LabRPC.servers (cfg_net c) (ctrlername i) = Some a"
    "dom (ends (cfg_net c)) = set (ctrlerNames cn @ map kn [0..<3])"
    by (rule make_ctrlers [OF assms(2), of clk unreliable maxstate m s]) blast
  have "distinct (concat (map (\<lambda>gi. groupNames (sn gi) (mn gi) (cfg_n c) (nctrlers c)) [0..<3]))"
    "set (concat (map (\<lambda>gi. groupNames (sn gi) (mn gi) (cfg_n c) (nctrlers c)) [0..<3])) \<inter> dom (ends (cfg_net c)) = {}"
    using assms(2) unfolding c(2,3,7) allNames_def by auto
  then obtain c' where c': "?make c = Inr c'" "groups_started c 3 c'"
    using make_groups [of c sn mn 3 clk] c(2-4) assms(1) by auto
  note G = c'(2) [unfolded groups_started_def same_setup_def keeps_def]
  have "\<exists>a. ctrlerservers c' ! i = Some a \<and> LabRPC.servers (cfg_net c') (ctrlername i) = Some a" if "i < 3" for i
    using c(6) [OF that] G by auto
  moreover have "group_up (Reliable (\<not> unreliable) (cfg_net c')) n 3 gi (groups c' ! gi) n" if "gi < 3" for gi
    using G c(2,3) that by (simp add: group_up_def)
  ultimately show ?thesis using c(1-5) c'(1) G by simp
qed

text \<open>
  With at most three servers per group and random names that are all different, \<open>make_config\<close> returns a configuration in
  which all servers of the three groups and all controllers run under their names, and every server has live ends
  to all servers of its group and to all controllers.
\<close>

theorem skv_make_config_up:
  assumes "n \<le> 3" and "distinct (allNames cn kn sn mn n)"
  shows "\<exists>cfg. SKV_make_config cn kn sn mn clk n unreliable maxstate m s = Inr cfg \<and>
    (\<forall>gi<3. g_gid (groups cfg ! gi) = 100 + int gi \<and> (\<forall>i<n. member_up (cfg_net cfg) n 3 (groups cfg ! gi) i)) \<and>
    (\<forall>i<3. \<exists>a. ctrlerservers cfg ! i = Some a \<and> LabRPC.servers (cfg_net cfg) (ctrlername i) = Some a)"
  using skv_make_config_spec [OF assms, of clk unreliable maxstate m s] unfolding group_up_def by blast

text \<open>
  The slice \<open>mendnames\<close> of a group has a place for each controller, but the code stores a row there for each server.
\<close>

lemma start_member_limit:
  assumes "gi < length (groups cfg)" and "group_up (cfg_net cfg) (cfg_n cfg) (nctrlers cfg) gi (groups cfg ! gi) k"
    and "k < cfg_n cfg" and "nctrlers cfg \<le> k" and "distinct (map names [0..<cfg_n cfg])"
    and "set (map names [0..<cfg_n cfg]) \<inter> dom (ends (cfg_net cfg)) = {}"
  shows "SKV_StartServer names mnames clk clk' gi k cfg = Inl IndexOutOfRange"
proof -
  have "names ` {..<cfg_n cfg} \<inter> dom (ends (cfg_net cfg)) = {}" using assms(6) by (auto simp: atLeast0LessThan)
  then obtain rn where "make_ends (zip (map names [0..<cfg_n cfg]) (map (servername (g_gid (groups cfg ! gi))) [0..<cfg_n cfg])) (cfg_net cfg) = Inr rn"
    by (rule make_row [OF assms(5), of "cfg_net cfg" "servername (g_gid (groups cfg ! gi))"]) blast
  then show ?thesis using assms(1-4) by (simp add: SKV_StartServer_def group_up_def set_idx_def idx_def Let_def)
qed

text \<open>
  With more than three servers per group, \<open>make_config\<close> panics with an index out of range.
\<close>

theorem skv_group_limit:
  assumes "3 < n" and "distinct (allNames cn kn sn mn n)"
  shows "SKV_make_config cn kn sn mn clk n unreliable maxstate m s = Inl IndexOutOfRange"
proof -
  let ?start = "\<lambda>i. SKV_StartServer (sn 0 i) (mn 0 i) clk clk 0 i" and ?nm = "\<lambda>i. map (sn 0 i) [0..<n] @ map (mn 0 i) [0..<3]"
  obtain c where c: "SKV_make_config cn kn sn mn clk n unreliable maxstate m s =
       gbind (gfold (\<lambda>gi cfg. StartGroup (sn gi) (mn gi) clk gi (cfg\<lparr>groups := groups cfg @ [newGroup gi cfg]\<rparr>)) [0..<3] c)
         (\<lambda>cfg. Inr (cfg\<lparr>clerks := Map.empty, nextClientId := int n + 1000, cfg_net := Reliable (\<not> unreliable) (cfg_net cfg)\<rparr>))"
    "cfg_n c = n" "nctrlers c = 3" "groups c = []"
    "dom (ends (cfg_net c)) = set (ctrlerNames cn @ map kn [0..<3])"
    by (rule make_ctrlers [OF assms(2), of clk unreliable maxstate m s]) blast
  let ?c = "c\<lparr>groups := groups c @ [newGroup 0 c]\<rparr>"
  have g: "groupNames (sn 0) (mn 0) n 3 = concat (map ?nm [0..<3]) @ ?nm 3 @ concat (map ?nm [4..<n])"
    unfolding groupNames_def using assms(1) upt_add_eq_append [of 0 3 "n - 3"] upt_conv_Cons [of 3 n] by simp
  have "distinct (groupNames (sn 0) (mn 0) n 3)" "set (groupNames (sn 0) (mn 0) n 3) \<inter> dom (ends (cfg_net c)) = {}"
    using assms(2) unfolding c(5) allNames_def by (auto simp: upt_rec [of 0])
  note fresh = this
  have part: "distinct X \<and> set X \<inter> (D \<union> set A) = {}" if "distinct (A @ (X @ Y) @ B)" "set (A @ (X @ Y) @ B) \<inter> D = {}"
    for A X Y B :: "string list" and D using that by auto
  note three = part [OF fresh [unfolded g]]
  have up: "group_up (cfg_net ?c) (cfg_n ?c) (nctrlers ?c) 0 (groups ?c ! 0) 0" using c(4) by (simp add: newGroup_up)
  obtain c' where c': "gfold ?start [0..<3] ?c = Inr c'" "members_started ?c 0 3 c'"
    "dom (ends (cfg_net c')) = dom (ends (cfg_net c)) \<union> set (concat (map ?nm [0..<3]))"
    using start_members [OF _ up, of 3 "sn 0" "mn 0" clk] fresh c(2-4) assms(1) by auto
  have "?start 3 c' = Inl IndexOutOfRange"
  proof (rule start_member_limit)
    obtain gg where "groups c' = [gg]" "group_up (cfg_net c') n 3 0 gg 3" "cfg_n c' = n" "nctrlers c' = 3"
      using c'(2) c(2-4) by (auto simp: members_started_def same_setup_def)
    then show "0 < length (groups c')" "group_up (cfg_net c') (cfg_n c') (nctrlers c') 0 (groups c' ! 0) 3" "3 < cfg_n c'" "nctrlers c' \<le> 3"
      "distinct (map (sn 0 3) [0..<cfg_n c'])" "set (map (sn 0 3) [0..<cfg_n c']) \<inter> dom (ends (cfg_net c')) = {}"
      using assms(1) three unfolding c'(3) by simp_all
  qed
  then have "StartGroup (sn 0) (mn 0) clk 0 ?c = Inl IndexOutOfRange"
    using c'(1) c(2) assms(1) upt_add_eq_append [of 0 3 "n - 3"] upt_conv_Cons [of 3 n] by (simp add: StartGroup_def)
  then show ?thesis unfolding c(1) by (simp add: upt_rec [of 0])
qed

subsection \<open>Joining\<close>

lemma joinServers_run:
  assumes "\<forall>g\<in>set gis. g < length (groups cfg)"
  shows "\<exists>m. gfold (\<lambda>g m. gbind (idx (groups cfg) (int g)) (\<lambda>gg.
      Inr (AList.update (g_gid gg) (map (servername (g_gid gg)) [0..<cfg_n cfg]) m))) gis m0 = Inr m \<and>
    (\<forall>gid. map_of m gid = (if \<exists>g\<in>set gis. g_gid (groups cfg ! g) = gid then Some (map (servername gid) [0..<cfg_n cfg]) else map_of m0 gid))"
  using assms
proof (induction gis arbitrary: m0)
  case (Cons g gis)
  let ?m = "AList.update (g_gid (groups cfg ! g)) (map (servername (g_gid (groups cfg ! g))) [0..<cfg_n cfg]) m0"
  obtain m where m: "gfold (\<lambda>g m. gbind (idx (groups cfg) (int g)) (\<lambda>gg.
      Inr (AList.update (g_gid gg) (map (servername (g_gid gg)) [0..<cfg_n cfg]) m))) gis ?m = Inr m"
    "\<forall>gid. map_of m gid = (if \<exists>g\<in>set gis. g_gid (groups cfg ! g) = gid then Some (map (servername gid) [0..<cfg_n cfg]) else map_of ?m gid)"
    using Cons.IH [of ?m] Cons.prems by auto
  then show ?case using Cons.prems by (auto simp: idx_def update_conv)
qed simp

lemma joinServers_spec:
  assumes "\<forall>g\<in>set gis. g < length (groups cfg)"
  shows "\<exists>m. joinServers gis cfg = Inr m \<and>
    (\<forall>gid. map_of m gid = (if \<exists>g\<in>set gis. g_gid (groups cfg ! g) = gid then Some (map (servername gid) [0..<cfg_n cfg]) else None))"
  using joinServers_run [OF assms, of "[]"] unfolding joinServers_def map_of.simps .

text \<open>
  C20: in a configuration that \<open>make_config\<close> returned, the request that \<open>joinm\<close> sends for some of the groups names
  exactly these groups, each with the names of its servers in order. No name occurs twice, and under the names of a group
  the network has exactly the servers of the group, all of which have been started.
\<close>

theorem skv_join_names:
  assumes "n \<le> 3" and "distinct (allNames cn kn sn mn n)" and "SKV_make_config cn kn sn mn clk n unreliable maxstate m s = Inr cfg"
    and "\<forall>g\<in>set gis. g < 3" and "joinm gis rs cfg = Inr (args, c, cfg')"
  shows "keys (ja_Servers args) = {100 + int g |g. g \<in> set gis} \<and>
    (\<forall>g\<in>set gis. getd (ja_Servers args) (100 + int g) = map (servername (100 + int g)) [0..<n] \<and>
      map (LabRPC.servers (cfg_net cfg)) (getd (ja_Servers args) (100 + int g)) = g_servers (groups cfg ! g) \<and>
      None \<notin> set (g_servers (groups cfg ! g))) \<and>
    inj_on (\<lambda>(g, i). getd (ja_Servers args) (100 + int g) ! i) (set gis \<times> {..<n})"
proof -
  have cfg: "cfg_n cfg = n" "length (groups cfg) = 3" and up: "\<And>gi. gi < 3 \<Longrightarrow> group_up (cfg_net cfg) n 3 gi (groups cfg ! gi) n"
    using skv_make_config_spec [OF assms(1,2), of clk unreliable maxstate m s] assms(3) by auto
  have gid: "g < 3 \<Longrightarrow> g_gid (groups cfg ! g) = 100 + int g" for g using up by (simp add: group_up_def)
  obtain mp where mp: "joinServers gis cfg = Inr mp"
    "\<forall>gid. map_of mp gid = (if \<exists>g\<in>set gis. g_gid (groups cfg ! g) = gid then Some (map (servername gid) [0..<n]) else None)"
    using joinServers_spec [of gis cfg] assms(4) cfg by auto
  have a: "ja_Servers args = mp" using assms(5) mp(1) by (auto simp: joinm_def Clerk_Join_def)
  have k: "gid \<in> keys mp \<longleftrightarrow> (\<exists>g\<in>set gis. 100 + int g = gid)" for gid
  proof -
    have "gid \<in> keys mp \<longleftrightarrow> map_of mp gid \<noteq> None" unfolding keys_def by (metis map_of_eq_None_iff)
    also have "\<dots> \<longleftrightarrow> (\<exists>g\<in>set gis. 100 + int g = gid)" using mp(2) gid assms(4) by auto
    finally show ?thesis .
  qed
  have names: "getd mp (100 + int g) = map (servername (100 + int g)) [0..<n]" if "g \<in> set gis" for g
    using mp(2) gid that assms(4) by (fastforce simp: getd_def)
  have servers: "map (LabRPC.servers (cfg_net cfg)) (map (servername (100 + int g)) [0..<n]) = g_servers (groups cfg ! g) \<and>
      None \<notin> set (g_servers (groups cfg ! g))" if "g < 3" for g
  proof -
    let ?sv = "g_servers (groups cfg ! g)"
    have len: "length ?sv = n" using up [OF that] by (simp add: group_up_def)
    have "LabRPC.servers (cfg_net cfg) (servername (100 + int g) i) = ?sv ! i \<and> ?sv ! i \<noteq> None" if "i < n" for i
      using up [OF \<open>g < 3\<close>] that by (fastforce simp: group_up_def member_up_def)
    then show ?thesis using len by (auto simp: in_set_conv_nth intro!: nth_equalityI)
  qed
  have "inj_on (\<lambda>(g, i). getd mp (100 + int g) ! i) (set gis \<times> {..<n})"
    by (rule inj_onI) (auto simp: names)
  then show ?thesis unfolding a using k names servers assms(4) by auto
qed

subsection \<open>The sizes of the logs\<close>

text \<open>
  \<open>checklogs\<close> lets a test go on exactly if every server of every group has a persister whose state keeps within
  eight times the limit or, without a limit, has no snapshot.
\<close>

theorem checklogs_accepts:
  assumes "length (groups cfg) = ngroups cfg" and "\<forall>gg\<in>set (groups cfg). length (g_saved gg) = cfg_n cfg"
  shows "checklogs bytes sbytes cfg = Inr () \<longleftrightarrow>
    (\<forall>gg\<in>set (groups cfg). \<forall>p\<in>set (g_saved gg). \<exists>a. p = Some a \<and>
       (if cfg_maxraftstate cfg \<ge> 0 then bytes (raftstate (cell (cfg_disk cfg) a)) \<le> 8 * cfg_maxraftstate cfg
        else sbytes (ps_snapshot (cell (cfg_disk cfg) a)) \<le> 0))"
proof -
  let ?ok = "\<lambda>a. if cfg_maxraftstate cfg \<ge> 0 then bytes (raftstate (cell (cfg_disk cfg) a)) \<le> 8 * cfg_maxraftstate cfg
        else sbytes (ps_snapshot (cell (cfg_disk cfg) a)) \<le> 0"
  have all: "gfold (\<lambda>i _. f i) xs () = Inr () \<longleftrightarrow> (\<forall>i\<in>set xs. f i = Inr ())" for f :: "nat \<Rightarrow> unit go" and xs
    by (induction xs) (auto simp: gbind_Inr_iff)
  have one: "checklog bytes sbytes cfg gi i = Inr () \<longleftrightarrow> (\<exists>a. g_saved (groups cfg ! gi) ! i = Some a \<and> ?ok a)"
    if "gi < ngroups cfg" "i < cfg_n cfg" for gi i
  proof -
    have "length (g_saved (groups cfg ! gi)) = cfg_n cfg" using assms that(1) by simp
    then show ?thesis using that assms(1)
      by (auto simp: checklog_def idx_def RaftStateSize_def ReadSnapshot_def Let_def split: option.splits)
  qed
  have "checklogs bytes sbytes cfg = Inr () \<longleftrightarrow>
      (\<forall>gi<ngroups cfg. \<forall>i<cfg_n cfg. \<exists>a. g_saved (groups cfg ! gi) ! i = Some a \<and> ?ok a)"
    unfolding checklogs_def all using one by (auto simp del: if_split)
  also have "\<dots> \<longleftrightarrow> (\<forall>gg\<in>set (groups cfg). \<forall>p\<in>set (g_saved gg). \<exists>a. p = Some a \<and> ?ok a)"
    using assms by (simp add: all_set_conv_all_nth)
  finally show ?thesis .
qed

subsection \<open>Shutdown and restart\<close>

lemma killMember_effect:
  assumes "killMember gi i gg cfg = Inr cfg'"
  shows "\<exists>obs. i < length (g_servers gg) \<and>
    cfg' = cfg\<lparr>skv_objects := obs, groups := (groups cfg)[gi := gg\<lparr>g_servers := (g_servers gg)[i := None]\<rparr>]\<rparr>"
proof (cases "g_servers gg ! i")
  case None
  then have "(g_servers gg)[i := None] = g_servers gg" using list_update_id [of "g_servers gg" i] by simp
  then show ?thesis using assms None by (auto simp: killMember_def idx_Inr_iff intro!: exI [of _ "skv_objects cfg"])
next
  case (Some a)
  then show ?thesis using assms by (auto simp: killMember_def idx_Inr_iff)
qed

lemma SKV_ShutdownServer_effect:
  assumes "SKV_ShutdownServer gi i cfg = Inr cfg'"
  shows "\<exists>rn1 rn2 sv d obs. gi < length (groups cfg) \<and>
    enableWhere False (\<lambda>_. Inr True) (\<lambda>j. endname (g_endnames (groups cfg ! gi)) i j) [0..<length (g_servers (groups cfg ! gi))] (cfg_net cfg) = Inr rn1 \<and>
    i < length (g_mendnames (groups cfg ! gi)) \<and>
    enableWhere False (\<lambda>_. Inr True) (\<lambda>j. endname (g_mendnames (groups cfg ! gi)) i j)
      [0..<length (case g_mendnames (groups cfg ! gi) ! i of None \<Rightarrow> [] | Some names \<Rightarrow> names)] rn1 = Inr rn2 \<and>
    copySaved i (g_saved (groups cfg ! gi), cfg_disk cfg) = Inr (sv, d) \<and> i < length (g_servers (groups cfg ! gi)) \<and>
    cfg' = cfg\<lparr>cfg_net := DeleteServer (servername (g_gid (groups cfg ! gi)) i) rn2, cfg_disk := d, skv_objects := obs,
      groups := (groups cfg)[gi := (groups cfg ! gi)\<lparr>g_saved := sv, g_servers := (g_servers (groups cfg ! gi))[i := None]\<rparr>]\<rparr>"
  using assms by (auto simp: SKV_ShutdownServer_def Let_def idx_Inr_iff dest!: killMember_effect)

lemma SKV_StartServer_effect:
  assumes "SKV_StartServer names mnames clk clk' gi i cfg = Inr cfg'"
  shows "\<exists>tab mtab sv d kv m rn. gi < length (groups cfg) \<and> copyOrMakeSaved i (g_saved (groups cfg ! gi), cfg_disk cfg) = Inr (sv, d) \<and>
    i < length sv \<and> i < length (g_servers (groups cfg ! gi)) \<and>
    StartServer clk clk' (cfg_n cfg) (int i) (cell d (the (sv ! i))) (cfg_maxraftstate cfg) (g_gid (groups cfg ! gi)) (nctrlers cfg) (ctrlerClients cfg) = Inr (kv, m) \<and>
    cfg' = cfg\<lparr>groups := (groups cfg)[gi := (groups cfg ! gi)\<lparr>g_endnames := tab, g_mendnames := mtab, g_saved := sv,
        g_servers := (g_servers (groups cfg ! gi))[i := Some (nobjects cfg)]\<rparr>],
      cfg_disk := d, skv_objects := (skv_objects cfg)(nobjects cfg := kv), nobjects := nobjects cfg + 1, ctrlerClients := m, cfg_net := rn\<rparr>"
  using assms by (auto simp: SKV_StartServer_def Let_def idx_Inr_iff set_idx_Inr_iff; blast)

text \<open>The persister of server \<open>i\<close> of a group.\<close>

definition memberSlot :: "nat \<Rightarrow> nat \<Rightarrow> skv_config \<Rightarrow> nat option" where
  "memberSlot gi i cfg =
     (if gi < length (groups cfg) \<and> i < length (g_saved (groups cfg ! gi)) then g_saved (groups cfg ! gi) ! i else None)"

lemma memberSlot_shutdown:
  assumes "SKV_ShutdownServer gi i cfg = Inr cfg'" and "memberSlot gi i cfg = Some a" and "a < used (cfg_disk cfg)"
  shows "memberSlot gi i cfg' = Some (used (cfg_disk cfg)) \<and> used (cfg_disk cfg') = used (cfg_disk cfg) + 1 \<and>
    cell (cfg_disk cfg') (used (cfg_disk cfg)) = cell (cfg_disk cfg) a"
proof -
  obtain rn2 sv d obs where e: "gi < length (groups cfg)" "copySaved i (g_saved (groups cfg ! gi), cfg_disk cfg) = Inr (sv, d)"
    "cfg' = cfg\<lparr>cfg_net := DeleteServer (servername (g_gid (groups cfg ! gi)) i) rn2, cfg_disk := d, skv_objects := obs,
      groups := (groups cfg)[gi := (groups cfg ! gi)\<lparr>g_saved := sv, g_servers := (g_servers (groups cfg ! gi))[i := None]\<rparr>]\<rparr>"
    using SKV_ShutdownServer_effect [OF assms(1)] by blast
  then show ?thesis using copySaved_slot [OF e(2)] assms(2,3) by (auto simp: memberSlot_def split: if_splits)
qed

lemma memberSlot_start:
  assumes "SKV_StartServer names mnames clk clk' gi i cfg = Inr cfg'" and "memberSlot gi i cfg = Some a" and "a < used (cfg_disk cfg)"
  shows "memberSlot gi i cfg' = Some (used (cfg_disk cfg)) \<and> used (cfg_disk cfg') = used (cfg_disk cfg) + 1 \<and>
    cell (cfg_disk cfg') (used (cfg_disk cfg)) = cell (cfg_disk cfg) a \<and>
    (\<exists>kv m. StartServer clk clk' (cfg_n cfg) (int i) (cell (cfg_disk cfg) a) (cfg_maxraftstate cfg) (g_gid (groups cfg ! gi)) (nctrlers cfg)
        (ctrlerClients cfg) = Inr (kv, m) \<and>
      g_servers (groups cfg' ! gi) ! i = Some (nobjects cfg) \<and> skv_objects cfg' (nobjects cfg) = kv)"
proof -
  obtain tab mtab sv d kv m rn where e: "gi < length (groups cfg)" "copyOrMakeSaved i (g_saved (groups cfg ! gi), cfg_disk cfg) = Inr (sv, d)"
    "i < length (g_servers (groups cfg ! gi))"
    "StartServer clk clk' (cfg_n cfg) (int i) (cell d (the (sv ! i))) (cfg_maxraftstate cfg) (g_gid (groups cfg ! gi)) (nctrlers cfg) (ctrlerClients cfg) = Inr (kv, m)"
    "cfg' = cfg\<lparr>groups := (groups cfg)[gi := (groups cfg ! gi)\<lparr>g_endnames := tab, g_mendnames := mtab, g_saved := sv,
        g_servers := (g_servers (groups cfg ! gi))[i := Some (nobjects cfg)]\<rparr>],
      cfg_disk := d, skv_objects := (skv_objects cfg)(nobjects cfg := kv), nobjects := nobjects cfg + 1, ctrlerClients := m, cfg_net := rn\<rparr>"
    using SKV_StartServer_effect [OF assms(1)] by blast
  then show ?thesis using copyOrMakeSaved_slot [OF e(2)] assms(2,3) by (auto simp: memberSlot_def split: if_splits)
qed

interpretation skv_storage: renewed_storage "SKV_ShutdownServer gi" "SKV_StartServer names mnames clk clk' gi" "memberSlot gi" cfg_disk
  "\<lambda>d cfg. cfg\<lparr>cfg_disk := d\<rparr>" for names mnames clk clk' gi
proof unfold_locales
  show "\<exists>b. memberSlot gi i cfg' = Some b \<and> used (cfg_disk cfg) \<le> b \<and> b < used (cfg_disk cfg') \<and> cell (cfg_disk cfg') b = cell (cfg_disk cfg) a"
    if "SKV_ShutdownServer gi i cfg = Inr cfg'" "memberSlot gi i cfg = Some a" "a < used (cfg_disk cfg)" for i cfg cfg' a
    using memberSlot_shutdown [OF that] by simp
  show "\<exists>b. memberSlot gi i cfg' = Some b \<and> used (cfg_disk cfg) \<le> b \<and> b < used (cfg_disk cfg') \<and> cell (cfg_disk cfg') b = cell (cfg_disk cfg) a"
    if "SKV_StartServer names mnames clk clk' gi i cfg = Inr cfg'" "memberSlot gi i cfg = Some a" "a < used (cfg_disk cfg)" for i cfg cfg' a
    using memberSlot_start [OF that] by simp
qed (simp_all add: memberSlot_def)

text \<open>
  A server of a group that is shut down and started again starts from what its persister held at the shutdown,
  even if instances from before go on to write to theirs, and it gets a persister of its own.
\<close>

theorem skv_restart_state:
  assumes "SKV_ShutdownServer gi i cfg = Inr cfg1" and "memberSlot gi i cfg = Some a" and "a < used (cfg_disk cfg)"
    and "\<forall>(c, p)\<in>set ws. c < used (cfg_disk cfg)"
    and "SKV_StartServer names mnames clk clk' gi i (cfg1\<lparr>cfg_disk := writeAll ws (cfg_disk cfg1)\<rparr>) = Inr cfg2"
  shows "\<exists>o' kv m b. g_servers (groups cfg2 ! gi) ! i = Some o' \<and> skv_objects cfg2 o' = kv \<and>
    StartServer clk clk' (cfg_n cfg) (int i) (cell (cfg_disk cfg) a) (cfg_maxraftstate cfg) (g_gid (groups cfg ! gi)) (nctrlers cfg)
      (ctrlerClients cfg) = Inr (kv, m) \<and>
    memberSlot gi i cfg2 = Some b \<and> used (cfg_disk cfg) \<le> b \<and> cell (cfg_disk cfg2) b = cell (cfg_disk cfg) a"
proof -
  obtain b where b: "memberSlot gi i cfg2 = Some b" "used (cfg_disk cfg) \<le> b" "cell (cfg_disk cfg2) b = cell (cfg_disk cfg) a"
    using skv_storage.restart [OF assms] by blast
  note S = memberSlot_shutdown [OF assms(1-3)]
  have w: "used (writeAll ws (cfg_disk cfg1)) = used (cfg_disk cfg1)" "cell (writeAll ws (cfg_disk cfg1)) (used (cfg_disk cfg)) = cell (cfg_disk cfg) a"
    using writeAll_keep [of ws "cfg_disk cfg1" "used (cfg_disk cfg)"] S assms(4) by force+
  have same: "cfg_n cfg1 = cfg_n cfg" "cfg_maxraftstate cfg1 = cfg_maxraftstate cfg" "nctrlers cfg1 = nctrlers cfg"
    "ctrlerClients cfg1 = ctrlerClients cfg" "g_gid (groups cfg1 ! gi) = g_gid (groups cfg ! gi)"
    using SKV_ShutdownServer_effect [OF assms(1)] by auto
  have "memberSlot gi i (cfg1\<lparr>cfg_disk := writeAll ws (cfg_disk cfg1)\<rparr>) = Some (used (cfg_disk cfg))"
    using S by (simp add: skv_storage.slot_update)
  from memberSlot_start [OF assms(5) this] show ?thesis using S w b same by auto
qed

lemma endname_row: "i < length tab \<Longrightarrow> tab ! i = Some row \<Longrightarrow> j < length row \<Longrightarrow> endname tab i j = Inr (row ! j)"
  by (simp add: endname_def idx_def)

text \<open>A loop that disables a whole row of ends.\<close>

lemma disable_row:
  assumes "i < length tab" and "tab ! i = Some row" and "length row = n"
  obtains rn' where "enableWhere False (\<lambda>_. Inr True) (\<lambda>j. endname tab i j) [0..<n] rn = Inr rn'" "sameButEnds rn rn'"
    "connections rn' = connections rn" "\<And>e. isEnabled rn' e = (e \<notin> set row \<and> isEnabled rn e)"
proof -
  have e: "endname tab i j = Inr (row ! j)" if "j < n" for j using endname_row [OF assms(1,2)] assms(3) that by simp
  have "\<exists>rn'. enableWhere False (\<lambda>_. Inr True) (\<lambda>j. endname tab i j) [0..<n] rn = Inr rn' \<and> True"
    unfolding enableWhere_def by (rule gfold_returns) (simp_all add: e)
  then obtain rn' where rn': "enableWhere False (\<lambda>_. Inr True) (\<lambda>j. endname tab i j) [0..<n] rn = Inr rn'" by blast
  have "(\<exists>j\<in>set [0..<n]. (Inr True :: bool go) = Inr True \<and> endname tab i j = Inr x) \<longleftrightarrow> x \<in> set row" for x
    using e assms(3) by (auto simp: in_set_conv_nth)
  with enableWhere_effect [OF rn'] show thesis by (intro that [OF rn']) auto
qed

text \<open>
  \<open>ShutdownServer\<close> of a server that runs returns; it disables the ends of the server to its group and to the
  controllers and no others, and removes the server, and only it, from the network, so that no end leads to it.
\<close>

theorem skv_shutdown_cut:
  assumes "gi < length (groups cfg)" and "group_up (cfg_net cfg) n c gi (groups cfg ! gi) n" and "i < n" and "n \<le> c"
  shows "\<exists>cfg'. SKV_ShutdownServer gi i cfg = Inr cfg' \<and> g_servers (groups cfg' ! gi) ! i = None \<and>
    (\<forall>e. isEnabled (cfg_net cfg') e \<longleftrightarrow> isEnabled (cfg_net cfg) e \<and>
       e \<notin> set (the (g_endnames (groups cfg ! gi) ! i)) \<and> e \<notin> set (the (g_mendnames (groups cfg ! gi) ! i))) \<and>
    LabRPC.servers (cfg_net cfg') = (LabRPC.servers (cfg_net cfg))(servername (100 + int gi) i := None) \<and>
    (\<forall>e on srv rest. readEndnameInfo e (cfg_net cfg') = (on, Some (servername (100 + int gi) i), srv, rest) \<longrightarrow> srv = None)"
proof -
  let ?gg = "groups cfg ! gi"
  note U = assms(2) [unfolded group_up_def]
  obtain row mrow where rows: "g_endnames ?gg ! i = Some row" "length row = n" "g_mendnames ?gg ! i = Some mrow" "length mrow = c"
    using U assms(3) by (auto simp: member_up_def)
  have len: "i < length (g_endnames ?gg)" "i < length (g_mendnames ?gg)" using U assms(3,4) by simp_all
  obtain rn1 where r1: "enableWhere False (\<lambda>_. Inr True) (\<lambda>j. endname (g_endnames ?gg) i j) [0..<n] (cfg_net cfg) = Inr rn1"
    "sameButEnds (cfg_net cfg) rn1" "\<And>e. isEnabled rn1 e = (e \<notin> set row \<and> isEnabled (cfg_net cfg) e)"
    by (rule disable_row [OF len(1) rows(1,2), of "cfg_net cfg"]) blast
  obtain rn2 where r2: "enableWhere False (\<lambda>_. Inr True) (\<lambda>j. endname (g_mendnames ?gg) i j) [0..<c] rn1 = Inr rn2"
    "sameButEnds rn1 rn2" "\<And>e. isEnabled rn2 e = (e \<notin> set mrow \<and> isEnabled rn1 e)"
    by (rule disable_row [OF len(2) rows(3,4), of rn1]) blast
  have "\<exists>cfg'. SKV_ShutdownServer gi i cfg = Inr cfg'"
    using r1(1) r2(1) rows U assms len
    by (auto simp: SKV_ShutdownServer_def killMember_def copySaved_def newPersister_def idx_def Let_def split: option.splits)
  then obtain cfg' where c: "SKV_ShutdownServer gi i cfg = Inr cfg'" by blast
  then have net: "cfg_net cfg' = DeleteServer (servername (100 + int gi) i) rn2" "g_servers (groups cfg' ! gi) ! i = None"
    using SKV_ShutdownServer_effect [OF c] r1(1) r2(1) rows U assms(1,3) by auto
  have srv: "LabRPC.servers (cfg_net cfg') = (LabRPC.servers (cfg_net cfg))(servername (100 + int gi) i := None)"
    unfolding net(1) using sameButEnds_servers [OF r1(2)] sameButEnds_servers [OF r2(2)] by (simp add: DeleteServer_def)
  have "srv = None" if "readEndnameInfo e (cfg_net cfg') = (on, Some (servername (100 + int gi) i), srv, rest)" for e on srv rest
    using that srv by (auto simp: readEndnameInfo_def Let_def)
  moreover have "isEnabled (cfg_net cfg') e \<longleftrightarrow> isEnabled (cfg_net cfg) e \<and> e \<notin> set row \<and> e \<notin> set mrow" for e
    unfolding net(1) using r1(3) r2(3) by (auto simp: DeleteServer_def isEnabled_def)
  ultimately show ?thesis using c net(2) srv rows(1,3) by auto
qed

subsection \<open>A client\<close>

text \<open>With fewer servers per group than controllers, \<open>makeClient\<close> writes behind the end of its slice of names.\<close>

lemma makeClient_limit:
  assumes "cfg_n cfg < nctrlers cfg" and "distinct (map names [0..<nctrlers cfg])"
    and "set (map names [0..<nctrlers cfg]) \<inter> dom (ends (cfg_net cfg)) = {}"
  shows "makeClient names qs cfg = Inl IndexOutOfRange"
proof -
  let ?f = "\<lambda>j (endnames, rn). gbind (set_idx endnames (int j) (names j)) (\<lambda>endnames.
     gbind (make_end (names j) (ctrlername j) rn) (\<lambda>rn. Inr (endnames, rn)))"
  have "k \<le> cfg_n cfg \<Longrightarrow> \<exists>es rn. gfold ?f [0..<k] (replicate (cfg_n cfg) '''', cfg_net cfg) = Inr (es, rn) \<and> length es = cfg_n cfg \<and>
      dom (ends rn) = dom (ends (cfg_net cfg)) \<union> names ` {..<k}" for k
  proof (induction k)
    case (Suc k)
    then obtain es rn where e: "gfold ?f [0..<k] (replicate (cfg_n cfg) '''', cfg_net cfg) = Inr (es, rn)" "length es = cfg_n cfg"
      "dom (ends rn) = dom (ends (cfg_net cfg)) \<union> names ` {..<k}" by auto
    have "inj_on names {0..<nctrlers cfg}" using assms(2) by (simp add: distinct_map)
    then have "names k \<notin> names ` {..<k}" using Suc.prems assms(1) by (auto dest: inj_onD)
    moreover have "names k \<notin> dom (ends (cfg_net cfg))" using assms(1,3) Suc.prems by (auto simp: disjoint_iff simp del: domIff)
    ultimately have "names k \<notin> dom (ends rn)" unfolding e(3) by blast
    then obtain rn' where "make_end (names k) (ctrlername k) rn = Inr rn'" "dom (ends rn') = insert (names k) (dom (ends rn))"
      using make_end_fresh by blast
    then show ?case using e Suc.prems by (auto simp: set_idx_def lessThan_Suc simp del: domIff)
  qed simp
  from this [OF le_refl] obtain es rn where "gfold ?f [0..<cfg_n cfg] (replicate (cfg_n cfg) '''', cfg_net cfg) = Inr (es, rn)" "length es = cfg_n cfg"
    by blast
  moreover have "[0..<nctrlers cfg] = [0..<cfg_n cfg] @ cfg_n cfg # [Suc (cfg_n cfg)..<nctrlers cfg]"
    using assms(1) upt_add_eq_append [of 0 "cfg_n cfg" "nctrlers cfg - cfg_n cfg"] upt_conv_Cons [of "cfg_n cfg" "nctrlers cfg"] by simp
  ultimately have "clientEnds names cfg = Inl IndexOutOfRange" by (simp add: clientEnds_def set_idx_def)
  then show ?thesis by (simp add: makeClient_def)
qed

subsection \<open>Some tests\<close>

definition name2 :: "char \<Rightarrow> nat \<Rightarrow> nat \<Rightarrow> string" where
  "name2 c i j = [c, ''abcd'' ! i, ''abcd'' ! j]"

definition name3 :: "char \<Rightarrow> nat \<Rightarrow> nat \<Rightarrow> nat \<Rightarrow> string" where
  "name3 c g i j = [c, ''abcd'' ! g, ''abcd'' ! i, ''abcd'' ! j]"

abbreviation demoTest :: "nat \<Rightarrow> skv_config go" where
  "demoTest n \<equiv> SKV_make_config (name2 CHR ''c'') (name2 CHR ''k'' 0) (name3 CHR ''s'') (name3 CHR ''m'') \<lparr>now = 0, rand = 0\<rparr> n False (-1) 0 0"

lemma demo_names:
  "distinct (allNames (name2 CHR ''c'') (name2 CHR ''k'' 0) (name3 CHR ''s'') (name3 CHR ''m'') 3)"
  "distinct (allNames (name2 CHR ''c'') (name2 CHR ''k'' 0) (name3 CHR ''s'') (name3 CHR ''m'') 4)"
  by code_simp+

theorem skv_make_config_up_witness:
  "\<exists>cfg. demoTest 3 = Inr cfg \<and> g_gid (groups cfg ! 2) = 102 \<and> member_up (cfg_net cfg) 3 3 (groups cfg ! 2) 1"
proof -
  have "(3 :: nat) \<le> 3" by simp
  from skv_make_config_up [OF this demo_names(1), of "\<lparr>now = 0, rand = 0\<rparr>" False "-1" 0 0] show ?thesis by force
qed

theorem skv_group_limit_witness: "demoTest 4 = Inl IndexOutOfRange"
  by (rule skv_group_limit [OF _ demo_names(2)]) simp

lemma demoTest_cfg:
  obtains cfg where "demoTest 3 = Inr cfg" "cfg_n cfg = 3" "nctrlers cfg = 3" "ngroups cfg = 3" "length (groups cfg) = 3"
    "\<And>gi. gi < 3 \<Longrightarrow> group_up (cfg_net cfg) 3 3 gi (groups cfg ! gi) 3"
  using skv_make_config_spec [OF _ demo_names(1), of "\<lparr>now = 0, rand = 0\<rparr>" False "-1" 0 0] by auto

theorem skv_shutdown_cut_witness:
  "\<exists>cfg cfg'. demoTest 3 = Inr cfg \<and> SKV_ShutdownServer 1 2 cfg = Inr cfg' \<and> LabRPC.servers (cfg_net cfg') (servername 101 2) = None"
proof -
  obtain cfg where c: "demoTest 3 = Inr cfg" "length (groups cfg) = 3" "group_up (cfg_net cfg) 3 3 1 (groups cfg ! 1) 3"
    by (rule demoTest_cfg) simp
  then show ?thesis using skv_shutdown_cut [OF _ c(3), of 2] by auto
qed

theorem skv_join_names_witness:
  "\<exists>cfg args c cfg'. demoTest 3 = Inr cfg \<and> joinm [0, 2] [] cfg = Inr (args, c, cfg') \<and> keys (ja_Servers args) = {100, 102} \<and>
     map (LabRPC.servers (cfg_net cfg)) (getd (ja_Servers args) 102) = g_servers (groups cfg ! 2)"
proof -
  obtain cfg where c: "demoTest 3 = Inr cfg" "length (groups cfg) = 3" by (rule demoTest_cfg)
  obtain m where "joinServers [0, 2] cfg = Inr m" using joinServers_spec [of "[0, 2]" cfg] c(2) by auto
  then obtain args r cfg' where j: "joinm [0, 2] [] cfg = Inr (args, r, cfg')" by (simp add: joinm_def Clerk_Join_def Ctrler_Server.sendOpL_def)
  have names: "keys (ja_Servers args) = {100 + int g |g. g \<in> set [0, 2]} \<and>
    (\<forall>g\<in>set [0, 2]. getd (ja_Servers args) (100 + int g) = map (servername (100 + int g)) [0..<3] \<and>
      map (LabRPC.servers (cfg_net cfg)) (getd (ja_Servers args) (100 + int g)) = g_servers (groups cfg ! g) \<and>
      None \<notin> set (g_servers (groups cfg ! g))) \<and>
    inj_on (\<lambda>(g, i). getd (ja_Servers args) (100 + int g) ! i) (set [0, 2] \<times> {..<3})"
    by (rule skv_join_names [OF _ demo_names(1) c(1) _ j]) simp_all
  then have "keys (ja_Servers args) = {100 + int g |g. g \<in> set [0, 2]}" by (rule conjunct1)
  moreover have "map (LabRPC.servers (cfg_net cfg)) (getd (ja_Servers args) 102) = g_servers (groups cfg ! 2)"
  proof -
    have "2 \<in> set [0, 2 :: nat]" "100 + int 2 = 102" by simp_all
    with names show ?thesis by metis
  qed
  moreover have "{100 + int g |g. g \<in> set [0, 2]} = {100, 102}" by auto
  ultimately have "demoTest 3 = Inr cfg \<and> joinm [0, 2] [] cfg = Inr (args, r, cfg') \<and> keys (ja_Servers args) = {100, 102} \<and>
      map (LabRPC.servers (cfg_net cfg)) (getd (ja_Servers args) 102) = g_servers (groups cfg ! 2)"
    using c(1) j by (intro conjI) (simp_all only:)
  then show ?thesis by (intro exI)
qed

definition demoLogs :: skv_config where
  "demoLogs = (SKV_emptyConfig (-1) 0 0)\<lparr>ngroups := 1, cfg_n := 1, cfg_disk := \<lparr>cell = (\<lambda>_. MakePersister), used = 1\<rparr>,
     groups := [\<lparr>g_gid = 100, g_servers = [None], g_saved = [Some 0], g_endnames = [Some [''x'']], g_mendnames = [Some [], None, None]\<rparr>]\<rparr>"

theorem checklogs_accepts_witness: "checklogs (\<lambda>b. int (length b)) (\<lambda>b. int (length b)) demoLogs = Inr ()"
proof -
  have "length (groups demoLogs) = ngroups demoLogs" "\<forall>gg\<in>set (groups demoLogs). length (g_saved gg) = cfg_n demoLogs"
    by (simp_all add: demoLogs_def)
  from checklogs_accepts [OF this] show ?thesis by (simp add: demoLogs_def MakePersister_def SKV_emptyConfig_def)
qed

definition demoOldWrites :: "(nat \<times> (Op, skvgob) Persister) list" where
  "demoOldWrites = [(0, \<lparr>raftstate = [GobInt 7], ps_snapshot = []\<rparr>)]"

theorem skv_restart_state_witness:
  "\<exists>cfg1 cfg2 o' kv m. SKV_ShutdownServer 0 0 demoLogs = Inr cfg1 \<and>
     SKV_StartServer (name2 CHR ''a'' 0) (name2 CHR ''b'' 0) \<lparr>now = 0, rand = 0\<rparr> \<lparr>now = 0, rand = 0\<rparr> 0 0
       (cfg1\<lparr>cfg_disk := writeAll demoOldWrites (cfg_disk cfg1)\<rparr>) = Inr cfg2 \<and>
     g_servers (groups cfg2 ! 0) ! 0 = Some o' \<and> skv_objects cfg2 o' = kv \<and>
     StartServer \<lparr>now = 0, rand = 0\<rparr> \<lparr>now = 0, rand = 0\<rparr> 1 0 MakePersister (-1) 100 3 0 = Inr (kv, m)"
proof -
  let ?start = "SKV_StartServer (name2 CHR ''a'' 0) (name2 CHR ''b'' 0) \<lparr>now = 0, rand = 0\<rparr> \<lparr>now = 0, rand = 0\<rparr> 0 0"
  have "case SKV_ShutdownServer 0 0 demoLogs of Inl _ \<Rightarrow> False
      | Inr cfg1 \<Rightarrow> \<not> isl (?start (cfg1\<lparr>cfg_disk := writeAll demoOldWrites (cfg_disk cfg1)\<rparr>))"
    by code_simp
  then obtain cfg1 cfg2 where c: "SKV_ShutdownServer 0 0 demoLogs = Inr cfg1" "?start (cfg1\<lparr>cfg_disk := writeAll demoOldWrites (cfg_disk cfg1)\<rparr>) = Inr cfg2"
    by (auto simp: isl_def split: sum.splits) (metis sum.exhaust)
  have "\<exists>o' kv m b. g_servers (groups cfg2 ! 0) ! 0 = Some o' \<and> skv_objects cfg2 o' = kv \<and>
      StartServer \<lparr>now = 0, rand = 0\<rparr> \<lparr>now = 0, rand = 0\<rparr> (cfg_n demoLogs) (int 0) (cell (cfg_disk demoLogs) 0) (cfg_maxraftstate demoLogs)
        (g_gid (groups demoLogs ! 0)) (nctrlers demoLogs) (ctrlerClients demoLogs) = Inr (kv, m) \<and>
      memberSlot 0 0 cfg2 = Some b \<and> used (cfg_disk demoLogs) \<le> b \<and> cell (cfg_disk cfg2) b = cell (cfg_disk demoLogs) 0"
    by (rule skv_restart_state [OF c(1) _ _ _ c(2)]) (simp_all add: demoLogs_def demoOldWrites_def memberSlot_def)
  then show ?thesis using c by (auto simp: demoLogs_def SKV_emptyConfig_def)
qed

end
