(* ===== verification/LabGob.thy ===== *)
theory LabGob
  imports Go_Prelude
begin

text \<open>
  The wrapper of the gob encoder, \<^verbatim>\<open>labgob/labgob.go\<close>, which warns about types with fields that gob does not send and about
  variables that are not empty when they are decoded into. A type of the program is a number, with a table of what
  reflection says of it; types may refer to each other in cycles. The encoder of Go's library is an argument.
\<close>

subsection \<open>Types\<close>

datatype shape =
    StructOf "(string \<times> nat) list"
  | SliceOf nat
  | ArrayOf nat
  | PtrTo nat
  | MapOf nat nat
  | OtherKind

record gotype =
  t_Name :: string
  t_shape :: shape

record labgob =
  errorCount :: int
  checked :: "nat set"
  printed :: "string list"

text \<open>\<open>unicode.IsUpper\<close> of the first character, for names in ASCII; the empty name has none.\<close>

definition IsUpper :: "string \<Rightarrow> bool" where
  "IsUpper name = (case name of [] \<Rightarrow> False | c # _ \<Rightarrow> 65 \<le> (of_char c :: nat) \<and> (of_char c :: nat) \<le> 90)"

definition checkField :: "string \<Rightarrow> string \<Rightarrow> labgob \<Rightarrow> labgob" where
  "checkField t name st =
     (if IsUpper name = False then
        st\<lparr>printed := printed st @ [''labgob error: lower-case field '' @ name @ '' of '' @ t @ '' in RPC or persist/snapshot will break your Raft''],
           errorCount := errorCount st + 1\<rparr>
      else st)"

text \<open>A loop over steps that may run out of fuel.\<close>

fun ofold :: "('a \<Rightarrow> 's \<Rightarrow> 's option) \<Rightarrow> 'a list \<Rightarrow> 's \<Rightarrow> 's option" where
  "ofold f [] s = Some s"
| "ofold f (x # xs) s = (case f x s of None \<Rightarrow> None | Some s \<Rightarrow> ofold f xs s)"

text \<open>The recursion marks a type before it goes on to its parts; \<open>fuel\<close> bounds its depth.\<close>

fun checkType :: "gotype list \<Rightarrow> nat \<Rightarrow> nat \<Rightarrow> labgob \<Rightarrow> labgob option" where
  "checkType ts 0 t st = None"
| "checkType ts (Suc fuel) t st =
     (if t \<in> checked st then Some st
      else let st = st\<lparr>checked := insert t (checked st)\<rparr> in
        case t_shape (ts ! t) of
          StructOf fs \<Rightarrow> ofold (\<lambda>(name, ft) st. checkType ts fuel ft (checkField (t_Name (ts ! t)) name st)) fs st
        | SliceOf e \<Rightarrow> checkType ts fuel e st
        | ArrayOf e \<Rightarrow> checkType ts fuel e st
        | PtrTo e \<Rightarrow> checkType ts fuel e st
        | MapOf key elem \<Rightarrow> (case checkType ts fuel elem st of None \<Rightarrow> None | Some st \<Rightarrow> checkType ts fuel key st)
        | OtherKind \<Rightarrow> Some st)"

text \<open>The type of the interface value \<open>nil\<close> is itself nil, and asking it for its kind panics.\<close>

definition checkValue :: "gotype list \<Rightarrow> nat option \<Rightarrow> labgob \<Rightarrow> labgob go option" where
  "checkValue ts ty st = (case ty of None \<Rightarrow> Some (Inl NilDereference) | Some t \<Rightarrow> map_option Inr (checkType ts (length ts + 1) t st))"

subsection \<open>Values\<close>

datatype literal = LBool bool | LInt int | LString string

definition isZero :: "literal \<Rightarrow> bool" where
  "isZero l = (case l of LBool b \<Rightarrow> \<not> b | LInt i \<Rightarrow> i = 0 | LString s \<Rightarrow> s = '''')"

text \<open>A value with what reflection sees of it; pointers are followed for at most three levels, so a value is a tree.\<close>

datatype goval =
    VStruct "(string \<times> goval) list"
  | VPtr "goval option"
  | VBasic string literal
  | VOther

definition warnDefault :: "string \<Rightarrow> string \<Rightarrow> labgob \<Rightarrow> labgob" where
  "warnDefault tname name st =
     (let st = (if errorCount st < 1 then
          let what = (if name = '''' then tname else name) in
          st\<lparr>printed := printed st @ [''labgob warning: Decoding into a non-default variable/field '' @ what @ '' may not work'']\<rparr>
        else st)
      in st\<lparr>errorCount := errorCount st + 1\<rparr>)"

text \<open>
  \<open>ro\<close> says that the value was reached through a field that is not exported: \<open>Interface\<close> panics on it. The argument \<open>n\<close> is the
  number of levels that are left, three at the start, so that \<open>depth\<close> is \<open>4 - n\<close>.
\<close>

fun checkDefault1 :: "bool \<Rightarrow> nat \<Rightarrow> string \<Rightarrow> goval \<Rightarrow> labgob \<Rightarrow> labgob go" where
  "checkDefault1 ro 0 name v st = Inr st"
| "checkDefault1 ro (Suc n) name v st =
     (case v of
        VStruct fs \<Rightarrow> gfold (\<lambda>(fname, vv) st.
          let name1 = (if name \<noteq> '''' then name @ ''.'' @ fname else fname) in
          checkDefault1 (ro \<or> \<not> IsUpper fname) n name1 vv st) fs st
      | VPtr None \<Rightarrow> Inr st
      | VPtr (Some vv) \<Rightarrow> checkDefault1 ro n name vv st
      | VBasic tname l \<Rightarrow>
          if ro then Inl (Panic ''reflect.Value.Interface: cannot return value obtained from unexported field or method'')
          else if isZero l = False then Inr (warnDefault tname name st) else Inr st
      | VOther \<Rightarrow> Inr st)"

definition checkDefault :: "goval option \<Rightarrow> labgob \<Rightarrow> labgob go" where
  "checkDefault value st = (case value of None \<Rightarrow> Inr st | Some v \<Rightarrow> checkDefault1 False 3 '''' v st)"

subsection \<open>The encoder and the decoder\<close>

text \<open>
  An interface value is nil or has a type and a value. \<open>genc\<close> and \<open>gdec\<close> are the methods of the encoder and the decoder of
  the library, and \<open>greg\<close> is its register of types.
\<close>

type_synonym iface = "(nat \<times> goval) option"

definition afterCheck :: "gotype list \<Rightarrow> iface \<Rightarrow> (labgob \<Rightarrow> 'r go) \<Rightarrow> labgob \<Rightarrow> 'r go option" where
  "afterCheck ts e f st = map_option (\<lambda>r. gbind r f) (checkValue ts (map_option fst e) st)"

definition Encode :: "(iface \<Rightarrow> 'w \<Rightarrow> 'r \<times> 'w) \<Rightarrow> gotype list \<Rightarrow> iface \<Rightarrow> 'w \<Rightarrow> labgob \<Rightarrow> ('r \<times> 'w \<times> labgob) go option" where
  "Encode genc ts e w st = afterCheck ts e (\<lambda>st. case genc e w of (r, w) \<Rightarrow> Inr (r, w, st)) st"

definition EncodeValue :: "(nat \<times> goval \<Rightarrow> 'w \<Rightarrow> 'r \<times> 'w) \<Rightarrow> gotype list \<Rightarrow> nat \<times> goval \<Rightarrow> 'w \<Rightarrow> labgob \<Rightarrow> ('r \<times> 'w \<times> labgob) go option" where
  "EncodeValue genc ts v w st = afterCheck ts (Some v) (\<lambda>st. case genc v w of (r, w) \<Rightarrow> Inr (r, w, st)) st"

definition Decode :: "(iface \<Rightarrow> 'w \<Rightarrow> 'r \<times> 'w) \<Rightarrow> gotype list \<Rightarrow> iface \<Rightarrow> 'w \<Rightarrow> labgob \<Rightarrow> ('r \<times> 'w \<times> labgob) go option" where
  "Decode gdec ts e w st =
     afterCheck ts e (\<lambda>st. gbind (checkDefault (map_option snd e) st) (\<lambda>st. case gdec e w of (r, w) \<Rightarrow> Inr (r, w, st))) st"

definition Register :: "(iface \<Rightarrow> 'g \<Rightarrow> 'g go) \<Rightarrow> gotype list \<Rightarrow> iface \<Rightarrow> 'g \<Rightarrow> labgob \<Rightarrow> ('g \<times> labgob) go option" where
  "Register greg ts v g st = afterCheck ts v (\<lambda>st. gbind (greg v g) (\<lambda>g. Inr (g, st))) st"

definition RegisterName :: "(string \<Rightarrow> iface \<Rightarrow> 'g \<Rightarrow> 'g go) \<Rightarrow> gotype list \<Rightarrow> string \<Rightarrow> iface \<Rightarrow> 'g \<Rightarrow> labgob \<Rightarrow> ('g \<times> labgob) go option" where
  "RegisterName greg ts name v g st = afterCheck ts v (\<lambda>st. gbind (greg name v g) (\<lambda>g. Inr (g, st))) st"

definition labgob0 :: labgob where
  "labgob0 = \<lparr>errorCount = 0, checked = {}, printed = []\<rparr>"

subsection \<open>Reachable types\<close>

fun parts :: "shape \<Rightarrow> nat list" where
  "parts (StructOf fs) = map snd fs"
| "parts (SliceOf e) = [e]"
| "parts (ArrayOf e) = [e]"
| "parts (PtrTo e) = [e]"
| "parts (MapOf key elem) = [elem, key]"
| "parts OtherKind = []"

definition partsOf :: "gotype list \<Rightarrow> nat \<Rightarrow> nat list" where
  "partsOf ts t = parts (t_shape (ts ! t))"

definition wf_types :: "gotype list \<Rightarrow> bool" where
  "wf_types ts \<longleftrightarrow> (\<forall>t<length ts. \<forall>u\<in>set (partsOf ts t). u < length ts)"

inductive reaches :: "gotype list \<Rightarrow> nat \<Rightarrow> nat \<Rightarrow> bool" for ts where
  here: "reaches ts t t"
| part: "u \<in> set (partsOf ts t) \<Longrightarrow> reaches ts u v \<Longrightarrow> reaches ts t v"

text \<open>The fields of a type that are not capitalized.\<close>

definition lowerFields :: "gotype list \<Rightarrow> nat \<Rightarrow> int" where
  "lowerFields ts t = (case t_shape (ts ! t) of StructOf fs \<Rightarrow> int (length (filter (\<lambda>(name, _). \<not> IsUpper name) fs)) | _ \<Rightarrow> 0)"

text \<open>
  What a search from the types \<open>S\<close> has done: the new types are reachable, all parts of new types are marked, and the
  errors are those of the new types and \<open>x\<close> others.
\<close>

definition visited :: "gotype list \<Rightarrow> nat set \<Rightarrow> int \<Rightarrow> labgob \<Rightarrow> labgob \<Rightarrow> bool" where
  "visited ts S x st st' \<longleftrightarrow> checked st \<subseteq> checked st' \<and> checked st' \<subseteq> checked st \<union> {..<length ts} \<and> S \<subseteq> checked st' \<and>
     (\<forall>u\<in>checked st' - checked st. (\<exists>s\<in>S. reaches ts s u) \<and> set (partsOf ts u) \<subseteq> checked st') \<and>
     errorCount st' = errorCount st + x + sum (lowerFields ts) (checked st' - checked st)"

lemma visited_refl: "S \<subseteq> checked st \<Longrightarrow> visited ts S 0 st st"
  by (simp add: visited_def)

lemma visited_trans:
  assumes "visited ts S x a b" and "visited ts T y b c"
  shows "visited ts (S \<union> T) (x + y) a c"
proof -
  note A = assms(1) [unfolded visited_def] and B = assms(2) [unfolded visited_def]
  have split: "checked c - checked a = (checked b - checked a) \<union> (checked c - checked b)" "(checked b - checked a) \<inter> (checked c - checked b) = {}"
    using A B by auto
  have "checked b - checked a \<subseteq> {..<length ts}" "checked c - checked b \<subseteq> {..<length ts}" using A B by auto
  then have "finite (checked b - checked a)" "finite (checked c - checked b)" using finite_subset by blast+
  then have "sum (lowerFields ts) (checked c - checked a) = sum (lowerFields ts) (checked b - checked a) + sum (lowerFields ts) (checked c - checked b)"
    unfolding split(1) using split(2) by (rule sum.union_disjoint)
  then have "errorCount c = errorCount a + (x + y) + sum (lowerFields ts) (checked c - checked a)" using A B by simp
  moreover have "(\<exists>s\<in>S \<union> T. reaches ts s u) \<and> set (partsOf ts u) \<subseteq> checked c" if "u \<in> checked c - checked a" for u
  proof (cases "u \<in> checked b")
    case True
    then have "(\<exists>s\<in>S. reaches ts s u) \<and> set (partsOf ts u) \<subseteq> checked b" using A that by simp
    then show ?thesis using B by auto
  next
    case False
    then have "(\<exists>s\<in>T. reaches ts s u) \<and> set (partsOf ts u) \<subseteq> checked c" using B that by simp
    then show ?thesis by auto
  qed
  moreover have "checked a \<subseteq> checked c" "checked c \<subseteq> checked a \<union> {..<length ts}" "S \<union> T \<subseteq> checked c" using A B by auto
  ultimately show ?thesis unfolding visited_def by simp
qed

lemma checkField_visited: "visited ts {} (if IsUpper name then 0 else 1) st (checkField tname name st)"
  by (simp add: visited_def checkField_def)

lemma visited_checked: "visited ts S x st st' \<Longrightarrow> card ({..<length ts} - checked st') \<le> card ({..<length ts} - checked st)"
  by (rule card_mono) (auto simp: visited_def)

text \<open>The loop over the fields, and the other parts as a special case of it.\<close>

lemma ofold_visited:
  assumes "\<And>x st. x \<in> set xs \<Longrightarrow> card ({..<length ts} - checked st) < k \<Longrightarrow> \<exists>st'. f x st = Some st' \<and> visited ts {g x} (h x) st st'"
    and "card ({..<length ts} - checked st) < k"
  shows "\<exists>st'. ofold f xs st = Some st' \<and> visited ts (g ` set xs) (sum_list (map h xs)) st st'"
  using assms
proof (induction xs arbitrary: st)
  case (Cons x xs)
  obtain st1 where st1: "f x st = Some st1" "visited ts {g x} (h x) st st1" using Cons.prems(1) [of x st] Cons.prems(2) by auto
  have "card ({..<length ts} - checked st1) < k" using visited_checked [OF st1(2)] Cons.prems(2) by simp
  then obtain st2 where "ofold f xs st1 = Some st2" "visited ts (g ` set xs) (sum_list (map h xs)) st1 st2"
    using Cons.IH [of st1] Cons.prems(1) by auto
  then show ?case using st1 visited_trans [OF st1(2)] by auto
qed (simp add: visited_refl)

text \<open>The parts of a type with the names of the fields, for a struct, and the loop over them.\<close>

definition namedParts :: "gotype list \<Rightarrow> nat \<Rightarrow> (string option \<times> nat) list" where
  "namedParts ts t = (case t_shape (ts ! t) of StructOf fs \<Rightarrow> map (\<lambda>(name, u). (Some name, u)) fs | _ \<Rightarrow> map (Pair None) (partsOf ts t))"

definition checkName :: "string \<Rightarrow> string option \<Rightarrow> labgob \<Rightarrow> labgob" where
  "checkName tname name st = (case name of None \<Rightarrow> st | Some nm \<Rightarrow> checkField tname nm st)"

definition nameErrors :: "string option \<Rightarrow> int" where
  "nameErrors name = (case name of None \<Rightarrow> 0 | Some nm \<Rightarrow> if IsUpper nm then 0 else 1)"

lemma checkName_visited: "visited ts {} (nameErrors name) st (checkName tname name st)"
  using checkField_visited [of ts _ st tname] by (cases name) (auto simp: checkName_def nameErrors_def visited_refl split: if_splits)

lemma ofold_map: "ofold f (map g xs) s = ofold (\<lambda>x. f (g x)) xs s"
  by (induction xs arbitrary: s) (auto split: option.splits)

lemma checkType_unfold:
  assumes "t \<notin> checked st"
  shows "checkType ts (Suc fuel) t st =
    ofold (\<lambda>(name, u) st. checkType ts fuel u (checkName (t_Name (ts ! t)) name st)) (namedParts ts t) (st\<lparr>checked := insert t (checked st)\<rparr>)"
  using assms by (cases "t_shape (ts ! t)")
    (simp_all add: namedParts_def partsOf_def ofold_map checkName_def Let_def case_prod_unfold split: option.splits)

lemma namedParts_set: "snd ` set (namedParts ts t) = set (partsOf ts t)"
  by (cases "t_shape (ts ! t)") (force simp: namedParts_def partsOf_def image_iff)+

lemma namedParts_errors: "sum_list (map (\<lambda>(name, _). nameErrors name) (namedParts ts t)) = lowerFields ts t"
proof (cases "t_shape (ts ! t)")
  case (StructOf fs)
  have "sum_list (map (\<lambda>(name, _). nameErrors name) (map (\<lambda>(name, u). (Some name, u)) fs)) = int (length (filter (\<lambda>(name, _). \<not> IsUpper name) fs))"
    by (induction fs) (auto simp: nameErrors_def)
  then show ?thesis using StructOf by (simp add: namedParts_def lowerFields_def)
qed (simp_all add: namedParts_def partsOf_def lowerFields_def nameErrors_def)

lemma visited_enter:
  assumes "visited ts (set (partsOf ts t)) (lowerFields ts t) (st\<lparr>checked := insert t (checked st)\<rparr>) st'" and "t < length ts" and "t \<notin> checked st"
  shows "visited ts {t} 0 st st'"
proof -
  note V = assms(1) [unfolded visited_def, simplified]
  have new: "checked st' - checked st = insert t (checked st' - insert t (checked st))" using V assms(3) by auto
  have "finite (checked st' - insert t (checked st))" by (rule finite_subset [of _ "{..<length ts}"]) (use V in auto)
  then have "sum (lowerFields ts) (checked st' - checked st) = lowerFields ts t + sum (lowerFields ts) (checked st' - insert t (checked st))"
    unfolding new by simp
  moreover have "reaches ts t u \<and> set (partsOf ts u) \<subseteq> checked st'" if "u \<in> checked st' - checked st" for u
  proof (cases "u = t")
    case True
    then show ?thesis using V by (simp add: reaches.here)
  next
    case False
    then show ?thesis using V that by (auto intro: reaches.part)
  qed
  ultimately show ?thesis using V assms(2) unfolding visited_def by auto
qed

lemma checkType_visited:
  assumes "wf_types ts"
  shows "t < length ts \<Longrightarrow> card ({..<length ts} - checked st) < fuel \<Longrightarrow>
    \<exists>st'. checkType ts fuel t st = Some st' \<and> visited ts {t} 0 st st'"
proof (induction fuel arbitrary: t st)
  case (Suc fuel)
  show ?case
  proof (cases "t \<in> checked st")
    case True
    then show ?thesis by (simp add: visited_refl)
  next
    case False
    let ?st = "st\<lparr>checked := insert t (checked st)\<rparr>"
    have "{..<length ts} - checked ?st \<subset> {..<length ts} - checked st" using False Suc.prems(1) by auto
    then have "card ({..<length ts} - checked ?st) < card ({..<length ts} - checked st)" by (intro psubset_card_mono) simp_all
    then have fuel: "card ({..<length ts} - checked ?st) < fuel" using Suc.prems(2) by simp
    have "\<exists>s'. (case x of (name, u) \<Rightarrow> \<lambda>st. checkType ts fuel u (checkName (t_Name (ts ! t)) name st)) s = Some s' \<and>
        visited ts {snd x} (case x of (name, _) \<Rightarrow> nameErrors name) s s'"
      if x: "x \<in> set (namedParts ts t)" "card ({..<length ts} - checked s) < fuel" for x s
    proof -
      obtain name u where u: "x = (name, u)" by force
      let ?s = "checkName (t_Name (ts ! t)) name s"
      have v: "visited ts {} (nameErrors name) s ?s" by (rule checkName_visited)
      have "u \<in> set (partsOf ts t)" using x(1) u namedParts_set by force
      then have "u < length ts" using assms Suc.prems(1) by (simp add: wf_types_def)
      moreover have "card ({..<length ts} - checked ?s) < fuel" using visited_checked [OF v] x(2) by simp
      ultimately obtain s' where "checkType ts fuel u ?s = Some s'" "visited ts {u} 0 ?s s'" using Suc.IH by blast
      then show ?thesis using visited_trans [OF v, of "{u}" 0 s'] u by auto
    qed
    then have "\<exists>st'. checkType ts (Suc fuel) t st = Some st' \<and> visited ts (set (partsOf ts t)) (lowerFields ts t) ?st st'"
      unfolding checkType_unfold [OF False] namedParts_set [symmetric] namedParts_errors [symmetric]
      by (rule ofold_visited [OF _ fuel])
    then show ?thesis using visited_enter [OF _ Suc.prems(1) False] by blast
  qed
qed simp

text \<open>The program sends and receives values of the types \<open>vs\<close>, one after the other.\<close>

fun checkValues :: "gotype list \<Rightarrow> nat list \<Rightarrow> labgob \<Rightarrow> labgob go option" where
  "checkValues ts [] st = Some (Inr st)"
| "checkValues ts (t # vs) st = (case checkValue ts (Some t) st of Some (Inr st) \<Rightarrow> checkValues ts vs st | r \<Rightarrow> r)"

lemma checkValues_ofold: "ofold (checkType ts (length ts + 1)) vs st = Some st' \<Longrightarrow> checkValues ts vs st = Some (Inr st')"
  by (induction vs arbitrary: st) (auto simp: checkValue_def simp del: checkType.simps split: option.splits)

text \<open>
  C21: however the types refer to each other, checking the types of any sequence of values ends, marks exactly the types that
  they are made of, and counts every field of these that is not capitalized once.
\<close>

theorem labgob_reports_once:
  assumes "wf_types ts" and "\<forall>t\<in>set vs. t < length ts"
  shows "\<exists>st. checkValues ts vs labgob0 = Some (Inr st) \<and> checked st = {u. \<exists>t\<in>set vs. reaches ts t u} \<and>
    errorCount st = sum (lowerFields ts) {u. \<exists>t\<in>set vs. reaches ts t u}"
proof -
  have "card ({..<length ts} - checked s) < length ts + 1" for s
    using card_mono [of "{..<length ts}" "{..<length ts} - checked s"] by auto
  then have fuel: "\<exists>s'. checkType ts (length ts + 1) t s = Some s' \<and> visited ts {t} 0 s s'" if "t \<in> set vs" for t s
    using checkType_visited [OF assms(1)] assms(2) that by blast
  have "\<exists>st. ofold (checkType ts (length ts + 1)) vs labgob0 = Some st \<and> visited ts ((\<lambda>t. t) ` set vs) (sum_list (map (\<lambda>_. 0) vs)) labgob0 st"
    by (rule ofold_visited [where k = "Suc (card ({..<length ts} - checked labgob0))"]) (use fuel in auto)
  then obtain st where st: "ofold (checkType ts (length ts + 1)) vs labgob0 = Some st" "visited ts (set vs) 0 labgob0 st"
    by (auto simp: sum_list_triv)
  note V = st(2) [unfolded visited_def, simplified labgob0_def, simplified]
  have "reaches ts t u \<Longrightarrow> t \<in> checked st \<Longrightarrow> u \<in> checked st" for t u
    by (induction rule: reaches.induct) (use V in auto)
  then have "checked st = {u. \<exists>t\<in>set vs. reaches ts t u}" using V by blast
  then show ?thesis using checkValues_ofold [OF st(1)] V by auto
qed

subsection \<open>Default values\<close>

text \<open>The basic values that are looked at, with whether they were reached through a field that is not exported.\<close>

fun leaves :: "nat \<Rightarrow> bool \<Rightarrow> goval \<Rightarrow> (bool \<times> literal) list" where
  "leaves 0 ro v = []"
| "leaves (Suc n) ro v =
     (case v of
        VStruct fs \<Rightarrow> concat (map (\<lambda>(fname, vv). leaves n (ro \<or> \<not> IsUpper fname) vv) fs)
      | VPtr None \<Rightarrow> []
      | VPtr (Some vv) \<Rightarrow> leaves n ro vv
      | VBasic tname l \<Rightarrow> [(ro, l)]
      | VOther \<Rightarrow> [])"

definition noInterface :: go_error where
  "noInterface = Panic ''reflect.Value.Interface: cannot return value obtained from unexported field or method''"

text \<open>What a check of some basic values does.\<close>

definition nonZero :: "(bool \<times> literal) list \<Rightarrow> int" where
  "nonZero ls = int (length (filter (\<lambda>(_, l). \<not> isZero l) ls))"

definition checkedLeaves :: "(bool \<times> literal) list \<Rightarrow> labgob \<Rightarrow> labgob go \<Rightarrow> bool" where
  "checkedLeaves ls st r \<longleftrightarrow> (if \<exists>l. (True, l) \<in> set ls then r = Inl noInterface
     else \<exists>st'. r = Inr st' \<and> errorCount st' = errorCount st + nonZero ls \<and> checked st' = checked st \<and>
       length (printed st') = length (printed st) + (if errorCount st = 0 \<and> 0 < nonZero ls then 1 else 0))"

lemma nonZero_simps [simp]: "nonZero [] = 0" "nonZero (ls @ ls') = nonZero ls + nonZero ls'" "0 \<le> nonZero ls"
  by (simp_all add: nonZero_def)

lemma checkedLeaves_Nil: "checkedLeaves [] st (Inr st)"
  by (simp add: checkedLeaves_def)

lemma checkedLeaves_append:
  assumes "0 \<le> errorCount st" and "checkedLeaves ls st r" and "\<And>st'. 0 \<le> errorCount st' \<Longrightarrow> checkedLeaves ls' st' (f st')"
  shows "checkedLeaves (ls @ ls') st (gbind r f)"
proof (cases "\<exists>l. (True, l) \<in> set ls")
  case True
  then show ?thesis using assms(2) by (auto simp: checkedLeaves_def)
next
  case False
  then obtain st' where st': "r = Inr st'" "errorCount st' = errorCount st + nonZero ls" "checked st' = checked st"
    "length (printed st') = length (printed st) + (if errorCount st = 0 \<and> 0 < nonZero ls then 1 else 0)"
    using assms(2) by (auto simp: checkedLeaves_def)
  have "0 \<le> errorCount st'" using st'(2) assms(1) by simp
  from assms(3) [OF this] show ?thesis using False st' assms(1) nonZero_simps(3) [of ls] nonZero_simps(3) [of ls']
    by (auto simp: checkedLeaves_def simp del: nonZero_simps(3) split: if_splits)
qed

lemma checkDefault1_leaves: "0 \<le> errorCount st \<Longrightarrow> checkedLeaves (leaves n ro v) st (checkDefault1 ro n name v st)"
proof (induction n arbitrary: ro name v st)
  case 0
  then show ?case by (simp add: checkedLeaves_Nil)
next
  case (Suc n)
  show ?case
  proof (cases v)
    case (VStruct fs)
    have "0 \<le> errorCount s \<Longrightarrow> checkedLeaves (concat (map (\<lambda>(fname, vv). leaves n (ro \<or> \<not> IsUpper fname) vv) fs)) s
        (gfold (\<lambda>(fname, vv) st. let name1 = (if name \<noteq> '''' then name @ ''.'' @ fname else fname) in
          checkDefault1 (ro \<or> \<not> IsUpper fname) n name1 vv st) fs s)" for s
    proof (induction fs arbitrary: s)
      case (Cons f fs)
      obtain fname vv where f: "f = (fname, vv)" by force
      show ?case unfolding f gfold.simps list.map concat.simps prod.case Let_def
        by (rule checkedLeaves_append [OF Cons.prems Suc.IH [OF Cons.prems]]) (use Cons.IH in \<open>simp add: Let_def\<close>)
    qed (simp add: checkedLeaves_Nil)
    then show ?thesis using VStruct Suc.prems by simp
  next
    case (VPtr p)
    then show ?thesis using Suc by (cases p) (simp_all add: checkedLeaves_Nil)
  next
    case (VBasic tname l)
    then show ?thesis using Suc.prems
      by (auto simp: checkedLeaves_def nonZero_def noInterface_def warnDefault_def Let_def)
  qed (simp add: checkedLeaves_Nil)
qed

text \<open>
  C22: \<open>Decode\<close> panics if a basic value within three levels was reached through a field that is not capitalized; otherwise
  it hands the value to the decoder of the library, counts every basic value within three levels that is not zero, and
  prints a warning only for the first error ever.
\<close>

theorem decode_checks:
  assumes "wf_types ts" and "t < length ts" and "0 \<le> errorCount st"
  shows "\<exists>st1. checkValue ts (Some t) st = Some (Inr st1) \<and>
    (if \<exists>l. (True, l) \<in> set (leaves 3 False v) then Decode gdec ts (Some (t, v)) w st = Some (Inl noInterface)
     else \<exists>st2. Decode gdec ts (Some (t, v)) w st = Some (Inr (fst (gdec (Some (t, v)) w), snd (gdec (Some (t, v)) w), st2)) \<and>
       errorCount st2 = errorCount st1 + nonZero (leaves 3 False v) \<and>
       length (printed st2) = length (printed st1) + (if errorCount st1 = 0 \<and> 0 < nonZero (leaves 3 False v) then 1 else 0))"
proof -
  have "card ({..<length ts} - checked st) < length ts + 1"
    using card_mono [of "{..<length ts}" "{..<length ts} - checked st"] by auto
  then obtain st1 where st1: "checkType ts (length ts + 1) t st = Some st1" "visited ts {t} 0 st st1"
    using checkType_visited [OF assms(1,2)] by blast
  have "0 \<le> sum (lowerFields ts) (checked st1 - checked st)"
    by (rule sum_nonneg) (simp add: lowerFields_def split: shape.splits)
  then have "0 \<le> errorCount st1" using st1(2) assms(3) by (simp add: visited_def)
  note L = checkDefault1_leaves [OF this, of 3 False v "''''", unfolded checkedLeaves_def]
  have v: "checkValue ts (Some t) st = Some (Inr st1)" unfolding checkValue_def option.case st1(1) by simp
  have d: "Decode gdec ts (Some (t, v)) w st =
      Some (gbind (checkDefault1 False 3 '''' v st1) (\<lambda>st. case gdec (Some (t, v)) w of (r, w) \<Rightarrow> Inr (r, w, st)))"
    using v by (simp add: Decode_def afterCheck_def checkDefault_def)
  show ?thesis unfolding d using L v by (auto simp: case_prod_unfold split: if_splits)
qed

subsection \<open>A recursive type\<close>

text \<open>A list with a pointer to itself, and a field that is not capitalized.\<close>

definition demoTypes :: "gotype list" where
  "demoTypes = [\<lparr>t_Name = ''T'', t_shape = StructOf [(''Next'', 1), (''val'', 2)]\<rparr>, \<lparr>t_Name = '''', t_shape = PtrTo 0\<rparr>, \<lparr>t_Name = ''int'', t_shape = OtherKind\<rparr>]"

lemma demoTypes_wf: "wf_types demoTypes"
  by (auto simp: wf_types_def partsOf_def demoTypes_def less_Suc_eq)

theorem labgob_reports_once_witness:
  "wf_types demoTypes \<and> (\<exists>st. checkValues demoTypes [0, 1] labgob0 = Some (Inr st) \<and> errorCount st = 1 \<and>
     errorCount st = sum (lowerFields demoTypes) {u. \<exists>t\<in>set [0, 1]. reaches demoTypes t u})"
proof -
  have run: "checkValues demoTypes [0, 1] labgob0 = Some (Inr \<lparr>errorCount = 1, checked = {0, 1, 2},
      printed = [''labgob error: lower-case field val of T in RPC or persist/snapshot will break your Raft'']\<rparr>)"
    by code_simp
  have "\<forall>t\<in>set [0, 1]. t < length demoTypes" by (simp add: demoTypes_def)
  then obtain st where st: "checkValues demoTypes [0, 1] labgob0 = Some (Inr st)"
    and sum: "errorCount st = sum (lowerFields demoTypes) {u. \<exists>t\<in>set [0, 1]. reaches demoTypes t u}"
    using labgob_reports_once [OF demoTypes_wf] by blast
  have "errorCount st = 1" using run st unfolding run by auto
  then show ?thesis using demoTypes_wf st sum by blast
qed

theorem decode_checks_witness:
  "Decode (\<lambda>_ w. ((), w)) demoTypes (Some (0, VStruct [(''Next'', VPtr None), (''val'', VBasic ''int'' (LInt 0))])) () labgob0 = Some (Inl noInterface)"
proof -
  let ?v = "VStruct [(''Next'', VPtr None), (''val'', VBasic ''int'' (LInt 0))]"
  have "(True, LInt 0) \<in> set (leaves 3 False ?v)" by (simp add: numeral_3_eq_3 IsUpper_def)
  moreover have "0 < length demoTypes" "0 \<le> errorCount labgob0" by (simp_all add: demoTypes_def labgob0_def)
  ultimately show ?thesis using decode_checks [OF demoTypes_wf, of 0 labgob0 ?v "\<lambda>_ w. ((), w)" "()"] by (auto split: if_splits)
qed

end
