(* ===== verification/MR_Apps.thy ===== *)
theory MR_Apps
  imports MR_Job
begin

text \<open>
  The applications of \<^verbatim>\<open>mrapps/\<close> that the tests of MapReduce use: \<^verbatim>\<open>crash.go\<close>, \<^verbatim>\<open>nocrash.go\<close>, \<^verbatim>\<open>early_exit.go\<close>, \<^verbatim>\<open>jobcount.go\<close>,
  \<^verbatim>\<open>mtiming.go\<close> and \<^verbatim>\<open>rtiming.go\<close>. Random numbers, the time, the process and the files that it sees are arguments. Sleeping
  has no effect on a result. The result is \<open>None\<close> if the process exits.
\<close>

subsection \<open>Crashes\<close>

definition crash_maybeCrash :: "int \<Rightarrow> unit option" where
  "crash_maybeCrash rr = (if rr < 330 then None else if rr < 660 then Some () else Some ())"

definition crash_pairs :: "string \<Rightarrow> string \<Rightarrow> KeyValue list" where
  "crash_pairs filename contents =
     [\<lparr>Key = ''a'', Value = filename\<rparr>, \<lparr>Key = ''b'', Value = itoa (length filename)\<rparr>,
      \<lparr>Key = ''c'', Value = itoa (length contents)\<rparr>, \<lparr>Key = ''d'', Value = ''xyzzy''\<rparr>]"

definition crash_Map :: "int \<Rightarrow> string \<Rightarrow> string \<Rightarrow> KeyValue list option" where
  "crash_Map rr filename contents = map_option (\<lambda>_. crash_pairs filename contents) (crash_maybeCrash rr)"

definition crash_Reduce :: "int \<Rightarrow> string \<Rightarrow> string list \<Rightarrow> string option" where
  "crash_Reduce rr key values = map_option (\<lambda>_. MR_Worker.join '' '' (sort values)) (crash_maybeCrash rr)"

text \<open>In \<open>nocrash\<close> the condition of the exit begins with \<open>false\<close>.\<close>

definition nocrash_maybeCrash :: "int \<Rightarrow> unit option" where
  "nocrash_maybeCrash rr = (if False \<and> rr < 500 then None else Some ())"

definition nocrash_Map :: "int \<Rightarrow> string \<Rightarrow> string \<Rightarrow> KeyValue list option" where
  "nocrash_Map rr filename contents =
     map_option (\<lambda>_. [\<lparr>Key = ''a'', Value = filename\<rparr>, \<lparr>Key = ''b'', Value = itoa (length filename)\<rparr>,
       \<lparr>Key = ''c'', Value = itoa (length contents)\<rparr>, \<lparr>Key = ''d'', Value = ''xyzzy''\<rparr>]) (nocrash_maybeCrash rr)"

definition nocrash_Reduce :: "int \<Rightarrow> string \<Rightarrow> string list \<Rightarrow> string option" where
  "nocrash_Reduce rr key values = map_option (\<lambda>_. MR_Worker.join '' '' (sort values)) (nocrash_maybeCrash rr)"

definition early_exit_Map :: mapfun where
  "early_exit_Map filename contents = [\<lparr>Key = filename, Value = ''1''\<rparr>]"

definition early_exit_Reduce :: reducefun where
  "early_exit_Reduce key values = itoa (length values)"

subsection \<open>Counting executions\<close>

text \<open>The directory as the list of its names, and the variable \<open>count\<close> of each process.\<close>

record jobcount =
  jc_names :: "string list"
  jc_count :: "nat \<Rightarrow> nat"

definition jobcountName :: "nat \<Rightarrow> nat \<Rightarrow> string" where
  "jobcountName me n = ''mr-worker-jobcount-'' @ itoa me @ ''-'' @ itoa n"

definition createFile :: "string \<Rightarrow> string list \<Rightarrow> string list" where
  "createFile name names = (if name \<in> set names then names else names @ [name])"

definition jobcount_Map :: "nat \<Rightarrow> string \<Rightarrow> string \<Rightarrow> jobcount \<Rightarrow> KeyValue list \<times> jobcount" where
  "jobcount_Map me filename contents s =
     ([\<lparr>Key = ''a'', Value = ''x''\<rparr>],
      s\<lparr>jc_names := createFile (jobcountName me (jc_count s me)) (jc_names s), jc_count := (jc_count s)(me := jc_count s me + 1)\<rparr>)"

definition jobcount_Reduce :: "string \<Rightarrow> string list \<Rightarrow> jobcount \<Rightarrow> string" where
  "jobcount_Reduce key values s = itoa (length (filter (prefix ''mr-worker-jobcount'') (jc_names s)))"

subsection \<open>Parallel workers\<close>

definition parallelName :: "string \<Rightarrow> nat \<Rightarrow> string" where
  "parallelName phase pid = ''mr-worker-'' @ phase @ ''-'' @ itoa pid"

text \<open>
  \<open>Sscanf\<close> with a pattern that ends in \<open>%d\<close>: the text before the number has to be there, a sign may follow, and what
  comes after the digits is left. Numbers that do not fit into 64 bits are an error.
\<close>

definition isDigit :: "char \<Rightarrow> bool" where
  "isDigit c \<longleftrightarrow> 48 \<le> (of_char c :: nat) \<and> (of_char c :: nat) < 58"

definition scanInt :: "string \<Rightarrow> int option" where
  "scanInt s =
     (let (neg, ds) = (case s of [] \<Rightarrow> (False, []) | c # cs \<Rightarrow> if c = CHR ''-'' then (True, cs) else if c = CHR ''+'' then (False, cs) else (False, s));
          ds = takeWhile isDigit ds; v = (if neg then - int (atoi ds 0) else int (atoi ds 0))
      in if ds = [] \<or> v < - (2 ^ 63) \<or> 2 ^ 63 \<le> v then None else Some v)"

definition scanPid :: "string \<Rightarrow> string \<Rightarrow> int option" where
  "scanPid phase name =
     (let pat = ''mr-worker-'' @ phase @ ''-'' in if prefix pat name then scanInt (drop (length pat) name) else None)"

text \<open>\<open>alive\<close> says which processes exist when the directory is read, and \<open>names\<close> is the directory as the process finds it.\<close>

definition nparallel :: "string \<Rightarrow> nat \<Rightarrow> (int \<Rightarrow> bool) \<Rightarrow> string list \<Rightarrow> int" where
  "nparallel phase pid alive names =
     fold (\<lambda>name ret. case scanPid phase name of None \<Rightarrow> ret | Some xpid \<Rightarrow> if alive xpid then ret + 1 else ret)
       (createFile (parallelName phase pid) names) 0"

text \<open>\<open>ts\<close> is the time as \<open>fmt\<close> prints it.\<close>

definition mtiming_Map :: "string \<Rightarrow> nat \<Rightarrow> (int \<Rightarrow> bool) \<Rightarrow> string list \<Rightarrow> mapfun" where
  "mtiming_Map ts pid alive names filename contents =
     [\<lparr>Key = ''times-'' @ itoa pid, Value = ts\<rparr>, \<lparr>Key = ''parallel-'' @ itoa pid, Value = Itoa (nparallel ''map'' pid alive names)\<rparr>]"

definition mtiming_Reduce :: reducefun where
  "mtiming_Reduce key values = MR_Worker.join '' '' (sort values)"

definition rtiming_Map :: mapfun where
  "rtiming_Map filename contents = map (\<lambda>c. \<lparr>Key = [c], Value = ''1''\<rparr>) ''abcdefghij''"

text \<open>\<^verbatim>\<open>rtiming.go\<close> has the same \<open>nparallel\<close>.\<close>

definition rtiming_nparallel :: "string \<Rightarrow> nat \<Rightarrow> (int \<Rightarrow> bool) \<Rightarrow> string list \<Rightarrow> int" where
  "rtiming_nparallel phase pid alive names = nparallel phase pid alive names"

definition rtiming_Reduce :: "nat \<Rightarrow> (int \<Rightarrow> bool) \<Rightarrow> string list \<Rightarrow> reducefun" where
  "rtiming_Reduce pid alive names key values = Itoa (rtiming_nparallel ''reduce'' pid alive names)"

subsection \<open>What they compute\<close>

text \<open>If a task of \<open>crash\<close> ends at all, it ends with what \<open>nocrash\<close> computes, so the lines of a job do not depend on crashes.\<close>

lemma crash_nocrash:
  "crash_Map rr f c \<in> {None, nocrash_Map rr' f c}" "crash_Reduce rr k vs \<in> {None, nocrash_Reduce rr' k vs}"
  "nocrash_Map rr' f c \<noteq> None" "nocrash_Reduce rr' k vs \<noteq> None"
  by (simp_all add: crash_Map_def nocrash_Map_def crash_Reduce_def nocrash_Reduce_def crash_maybeCrash_def nocrash_maybeCrash_def crash_pairs_def)

lemma sort_mset: "mset vs = mset vs' \<Longrightarrow> sort vs = sort (vs' :: 'a :: linorder list)"
  by (intro properties_for_sort) simp_all

text \<open>The order of the values does not matter, as the equality with the sequential program requires.\<close>

lemma apps_order_free: "order_free (\<lambda>k vs. the (nocrash_Reduce rr k vs))" "order_free early_exit_Reduce" "order_free mtiming_Reduce"
proof -
  show "order_free early_exit_Reduce" unfolding order_free_def early_exit_Reduce_def by (metis size_mset)
  show "order_free (\<lambda>k vs. the (nocrash_Reduce rr k vs))" "order_free mtiming_Reduce"
    by (auto simp: order_free_def nocrash_Reduce_def nocrash_maybeCrash_def mtiming_Reduce_def intro: arg_cong [OF sort_mset])
qed

lemma jobcountName_inj: "jobcountName p n = jobcountName p' n' \<longleftrightarrow> p = p' \<and> n = n'"
  using append_dash [OF itoa_no_dash itoa_no_dash, of "''mr-worker-jobcount-'' @ itoa p" n "''mr-worker-jobcount-'' @ itoa p'" n']
  by (simp add: jobcountName_def)

text \<open>The runs of Map in the order of time, each by its process.\<close>

definition jobcountRuns :: "nat list \<Rightarrow> jobcount \<Rightarrow> jobcount" where
  "jobcountRuns pids s = fold (\<lambda>p s. snd (jobcount_Map p '''' '''' s)) pids s"

lemma jobcountRuns_names:
  assumes "filter (prefix ''mr-worker-jobcount'') names = []"
  shows "\<exists>ns. jc_names (jobcountRuns pids \<lparr>jc_names = names, jc_count = (\<lambda>_. 0)\<rparr>) = names @ ns \<and> length ns = length pids \<and>
    set ns = {jobcountName p n |p n. n < count_list pids p} \<and>
    jc_count (jobcountRuns pids \<lparr>jc_names = names, jc_count = (\<lambda>_. 0)\<rparr>) = count_list pids"
proof (induction pids rule: rev_induct)
  case Nil
  then show ?case by (auto simp: jobcountRuns_def)
next
  case (snoc p pids)
  let ?s = "jobcountRuns pids \<lparr>jc_names = names, jc_count = (\<lambda>_. 0)\<rparr>"
  obtain ns where ns: "jc_names ?s = names @ ns" "length ns = length pids" "set ns = {jobcountName p n |p n. n < count_list pids p}"
    "jc_count ?s = count_list pids" using snoc by auto
  have new: "jobcountName p (count_list pids p) \<notin> set ns" unfolding ns(3) by (auto simp: jobcountName_inj)
  have "jobcountName p (count_list pids p) \<notin> set names"
    using assms by (auto simp: filter_empty_conv jobcountName_def prefix_def)
  then have "jc_names (jobcountRuns (pids @ [p]) \<lparr>jc_names = names, jc_count = (\<lambda>_. 0)\<rparr>) = names @ (ns @ [jobcountName p (count_list pids p)])"
    using new ns by (simp add: jobcountRuns_def jobcount_Map_def createFile_def)
  moreover have "jc_count (jobcountRuns (pids @ [p]) \<lparr>jc_names = names, jc_count = (\<lambda>_. 0)\<rparr>) = count_list (pids @ [p])"
    using ns(4) by (auto simp: jobcountRuns_def jobcount_Map_def fun_eq_iff)
  moreover have "set (ns @ [jobcountName p (count_list pids p)]) = {jobcountName q n |q n. n < count_list (pids @ [p]) q}"
    using ns(3) by (auto simp: less_Suc_eq split: if_splits)
  ultimately show ?case using ns(2) by (intro exI [of _ "ns @ [jobcountName p (count_list pids p)]"]) simp
qed

text \<open>\<open>jobcount\<close> counts every run of a map task, by whatever process, so a job that is counted more often than it has map
  tasks ran one of them twice.\<close>

lemma jobcount_counts_runs:
  assumes "filter (prefix ''mr-worker-jobcount'') names = []"
  shows "jobcount_Reduce key values (jobcountRuns pids \<lparr>jc_names = names, jc_count = (\<lambda>_. 0)\<rparr>) = itoa (length pids)"
proof -
  obtain ns where ns: "jc_names (jobcountRuns pids \<lparr>jc_names = names, jc_count = (\<lambda>_. 0)\<rparr>) = names @ ns" "length ns = length pids"
    "set ns = {jobcountName p n |p n. n < count_list pids p}"
    using jobcountRuns_names [OF assms] by blast
  have "filter (prefix ''mr-worker-jobcount'') ns = ns"
    using ns(3) by (intro filter_True) (auto simp: jobcountName_def prefix_def)
  then show ?thesis using ns(1,2) assms by (simp add: jobcount_Reduce_def)
qed

text \<open>A process finds itself in the directory.\<close>

lemma itoa_isDigit: "c \<in> set (itoa n) \<Longrightarrow> isDigit c"
  using itoa_digits by (simp add: isDigit_def)

lemma scanPid_parallelName: "pid < 2 ^ 63 \<Longrightarrow> scanPid phase (parallelName phase pid) = Some (int pid)"
proof -
  assume small: "pid < 2 ^ 63"
  have "takeWhile isDigit (itoa pid) = itoa pid" using itoa_isDigit by (simp add: takeWhile_eq_all_conv)
  moreover obtain c cs where c: "itoa pid = c # cs" using itoa_nonempty by (cases "itoa pid") auto
  moreover have "c \<noteq> CHR ''-''" "c \<noteq> CHR ''+''" using itoa_isDigit [of c pid] c by (auto simp: isDigit_def)
  moreover have "int pid < 2 ^ 63" using small by (metis of_nat_less_iff of_nat_numeral of_nat_power)
  ultimately have "scanInt (itoa pid) = Some (int pid)" using atoi_itoa [of pid] by (simp add: scanInt_def)
  then show ?thesis by (simp add: scanPid_def parallelName_def prefix_def Let_def)
qed

lemma nparallel_counts:
  "nparallel phase pid alive names =
     int (length (filter (\<lambda>name. \<exists>p. scanPid phase name = Some p \<and> alive p) (createFile (parallelName phase pid) names)))"
proof -
  have "fold (\<lambda>name ret. case scanPid phase name of None \<Rightarrow> ret | Some xpid \<Rightarrow> if alive xpid then ret + 1 else ret) ns k =
      k + int (length (filter (\<lambda>name. \<exists>p. scanPid phase name = Some p \<and> alive p) ns))" for ns k
    by (induction ns arbitrary: k) (auto split: option.splits)
  then show ?thesis by (simp add: nparallel_def)
qed

lemma nparallel_self:
  assumes "pid < 2 ^ 63" and "alive (int pid)"
  shows "1 \<le> nparallel phase pid alive names"
proof -
  have "parallelName phase pid \<in> set (filter (\<lambda>name. \<exists>p. scanPid phase name = Some p \<and> alive p) (createFile (parallelName phase pid) names))"
    using scanPid_parallelName [OF assms(1)] assms(2) by (auto simp: createFile_def)
  then have "0 < length (filter (\<lambda>name. \<exists>p. scanPid phase name = Some p \<and> alive p) (createFile (parallelName phase pid) names))"
    by (rule length_pos_if_in_set)
  then show ?thesis unfolding nparallel_counts by linarith
qed

end
