(* ===== verification/Spec2Isabelle.thy ===== *)
theory Spec2Isabelle
  imports Raft_Props KV_Props Ctrler_Props ShardKV_Props MR_Job Porcupine_Viz LabRPC_Props Raft_Config_Checks
    KV_Config_Props Ctrler_Config ShardKV_Config_Props LabGob MR_Apps
begin

text \<open>
  This library verifies the labs of a course on distributed systems, written in Go: a MapReduce framework, the
  Raft consensus protocol, a replicated key/value service, a shard controller and a sharded key/value service on top
  of Raft, the simulated network on which they run, the test configurations that drive them, and the linearizability
  checker that judges the histories of the tests. File names are relative to \<^verbatim>\<open>src/labs/src/\<close>.

  \<^bold>\<open>The parts and how they interact.\<close> A Raft peer (\<^verbatim>\<open>raft/\<close>) elects leaders, replicates a log and hands committed
  entries to its service over a channel; its term, vote, log and snapshot live in a persister. A server of the key/value
  service (\<^verbatim>\<open>kvraft/\<close>) puts the operations of its clerks into the log and executes them in the order of the log, once per
  client and operation number. The shard controller (\<^verbatim>\<open>shardctrler/\<close>) is such a service whose state is the list of
  configurations, each of which gives every shard to a group of servers. A group of the sharded service (\<^verbatim>\<open>shardkv/\<close>)
  polls the controller, gives shards away and takes them over through entries of its own log. All talk through
  \<^verbatim>\<open>labrpc/\<close>, which can lose, delay and reorder messages and forget servers. A MapReduce coordinator (\<^verbatim>\<open>mr/\<close>) gives
  out tasks to workers that may be late or die. Porcupine (\<^verbatim>\<open>porcupine/\<close>) searches a history for a linearization.

  \<^bold>\<open>Conventions.\<close> A stretch of code between two points at which its lock is released is one function from the state to
  the state, in the order of the source. Code that can panic or end the process returns \<open>'a go\<close>, a sum with an error
  on the left (theory \<open>Go_Prelude\<close>): every index, slice, nil pointer, division, \<open>log.Fatal\<close> and \<open>panic\<close> of the source is a
  branch. Clocks and random numbers are arguments. Goroutines that a function starts are returned as tasks, and
  interleavings are steps of an inductive relation. Integers are \<open>int\<close> where the source cannot come near the
  limits and \<open>32 word\<close> or \<open>64 word\<close> where it wraps: counters of the network, hashes, chunks of bit sets. What is
  encoded with gob is a list of typed values; the number of bytes of an encoding is an argument.

  \<^bold>\<open>Shared theories.\<close> \<open>Go_Prelude\<close>: results, loops over results, slices, counting and majorities. \<open>Go_Util\<close>: \<^verbatim>\<open>util/common.go\<close>.
  \<open>Go_Strconv\<close>: decimal numbers. \<open>Sessions\<close>: a locale for services that skip repeated operations, with the theorem
  that executing a log then has the effect of executing the first occurrence of each operation.

  \<^bold>\<open>Raft.\<close> \<open>Raft_Types\<close> (\<^verbatim>\<open>raft/rpc.go\<close>, \<^verbatim>\<open>raft/persister.go\<close> and the struct of \<^verbatim>\<open>raft/raft.go\<close>), \<open>Raft_Log\<close> and \<open>Raft_Server\<close> (the log
  and all functions of \<^verbatim>\<open>raft/raft.go\<close>). \<open>Raft_Frame\<close>, \<open>Raft_Handlers\<close> and \<open>Raft_Leader\<close> give each operation a closed form
  on well-formed peers: votes, merging of entries, snapshots, the step of the commit index, restart. \<open>Raft_Network\<close> is a
  cluster as a step relation with loss, reordering, crashes and restarts, in which messages for the log may also be delivered more than once; \<open>Raft_Election\<close> has its
  invariant. \<open>Raft_Props\<close>: at most one leader per term over all time, no request in flight panics, durability, the commit
  rule, delivery in order also between the steps of other goroutines, and the errors of the code (an installed snapshot that is not persisted, commit rules for an
  even number of servers).

  \<^bold>\<open>Services.\<close> \<open>KV_Server\<close>, \<open>KV_Props\<close> (\<^verbatim>\<open>kvraft/\<close>): execution once, snapshots that stand for the log before them, clerks,
  lost writes and a deadlock of the applier. \<open>Ctrler_Server\<close>, \<open>Ctrler_Balance\<close>, \<open>Ctrler_Props\<close> (\<^verbatim>\<open>shardctrler/\<close>): the rebalancing
  loop ends balanced, configurations stay well formed, and replicas agree although Go iterates over maps in any order,
  because maps are lists here and every function is shown not to depend on their order. \<open>ShardKV_Server\<close>, \<open>ShardKV_Groups\<close>,
  \<open>ShardKV_Inv\<close>, \<open>ShardKV_Props\<close> (\<^verbatim>\<open>shardkv/\<close>): groups with late, repeated and old messages; one owner per shard at any
  time, and a refinement to a single map.

  \<^bold>\<open>MapReduce.\<close> \<open>MR_Worker\<close>, \<open>MR_Coordinator\<close> (\<^verbatim>\<open>mr/\<close>, \<^verbatim>\<open>main/mrsequential.go\<close>, \<^verbatim>\<open>mrapps/wc.go\<close>, \<^verbatim>\<open>mrapps/indexer.go\<close>), \<open>MR_Equiv\<close>, \<open>MR_Props\<close>,
  \<open>MR_Job\<close>: counters of the coordinator, and equality of the lines of the output with the sequential program, with workers that
  rename their files one by one and may be repeated and stopped, as long as no task is reported after it was completed. What the
  JSON decoder reads from a file is a parameter; \<open>json_ok\<close> is what the code relies on of it.

  \<^bold>\<open>Porcupine.\<close> \<open>Porcupine_Bitset\<close>, \<open>Porcupine_List\<close>, \<open>Porcupine_Links\<close> (bit sets on 64-bit words and the doubly linked list in an
  explicit store), \<open>Porcupine_Checker\<close>, \<open>Porcupine_History\<close>, \<open>Porcupine_Search\<close> (the search and its invariant), \<open>Porcupine_Ops\<close>,
  \<open>Porcupine_KV\<close>, \<open>Porcupine_Props\<close> (the parallel check and the model of the key/value service, with locality), and
  \<open>Porcupine_Viz\<close> (the data of the visualization). The search is a loop with fuel; \<open>checkLoop_total\<close> shows that some fuel is
  enough for every history, and the theorems about it are stated with that fuel.

  \<^bold>\<open>Network and tests.\<close> \<open>LabRPC\<close>, \<open>LabRPC_Props\<close> (\<^verbatim>\<open>labrpc/labrpc.go\<close>): a request runs its handler at most once, a deleted server gives
  no positive replies, calls can return. \<open>Config_Base\<close> holds what the configurations share: persisters as objects, with the
  locale \<open>renewed_storage\<close> for what restarts rely on, and tables of ends. \<open>Raft_Config\<close>, \<open>Raft_Config_Props\<close>, \<open>Raft_Config_Checks\<close>
  (\<^verbatim>\<open>raft/config.go\<close>): connectivity as an invariant of all operations of a test, restarts, and the checks, composed with the
  cluster: \<open>checkOneLeader\<close> never sees two leaders of a term. \<open>Service_Config\<close>, \<open>Service_Config_Props\<close>, \<open>KV_Config\<close>,
  \<open>KV_Config_Props\<close>, \<open>Ctrler_Config\<close> (\<^verbatim>\<open>kvraft/config.go\<close>, \<^verbatim>\<open>shardctrler/config.go\<close>): operations on connections as operations on a
  relation of links, partitions, shutdown and restart.
  \<open>ShardKV_Config\<close>, \<open>ShardKV_Config_Props\<close> (\<^verbatim>\<open>shardkv/config.go\<close>): servers and controllers have names of their own, \<open>make_config\<close>
  brings all of them up for groups of at most three servers and panics for larger ones, a shutdown cuts a server off and a
  restart keeps its storage, the request of a join names the servers of the groups, and \<open>checklogs\<close>. \<open>LabGob\<close>
  (\<^verbatim>\<open>labgob/labgob.go\<close>): the check of types, in which types may refer to each other in cycles, and the check of variables that are
  decoded into. The check of types has fuel, one more than the number of types; \<open>checkType_visited\<close> shows that this is
  enough, because every level marks a type that was not marked before. \<open>MR_Apps\<close> (\<^verbatim>\<open>mrapps/\<close>): the applications of the tests of
  MapReduce, which exit, sleep and count processes.

  \<^bold>\<open>Interfaces.\<close> \<open>session_service\<close> is interpreted for the key/value server and the controller, \<open>quorum_system\<close> for the majorities of
  \<^verbatim>\<open>raft/raft.go\<close>, \<open>stable_storage\<close> for the persister, \<open>finite_sets\<close> for the bit sets of Porcupine, and \<open>renewed_storage\<close> for the
  persisters of the three kinds of test configurations.

  \<^bold>\<open>Not modelled.\<close> \<^verbatim>\<open>util/log.go\<close>, \<^verbatim>\<open>raft/util.go\<close> and the functions that turn values into strings for the log only print. The HTML
  page in \<^verbatim>\<open>porcupine/visualization.go\<close> is a constant. The programs under \<^verbatim>\<open>main/\<close> other than the sequential MapReduce read
  command lines; \<open>diskvd\<close>, \<open>lockd\<close>, \<open>pbd\<close> and \<open>viewd\<close> import packages that the repository does not have. The bytes of gob
  encodings are those of a package of Go's library; \<^verbatim>\<open>randstring\<close> and \<^verbatim>\<open>makeSeed\<close> are sources of randomness. Real time appears only as
  the moments at which timeouts fire, which the step relations leave open.
\<close>

end
